(* ===== verification/Prelude.thy ===== *)
theory Prelude
  imports Main "HOL-Library.Word" "HOL-Library.Monad_Syntax" "HOL-Library.AList"
begin

text \<open>
  Shared vocabulary of the development: machine integer types, the vAccel return codes of
  \<^verbatim>\<open>src/src/include/error.h\<close>, the convention for undefined behaviour, and the generic lemmas
  on options, lists, maps and words that the components share.

  Convention. An operation of the C code that reads or writes memory is a function into
  \<^typ>\<open>'a option\<close>: \<^const>\<open>None\<close> is "the C program has no defined result here" (a NULL or dangling
  pointer is dereferenced, an array is indexed out of bounds, memory is freed twice, or a
  traversal of a corrupted list never ends), and \<open>Some (r, s)\<close> is the return value and the
  state after the call. Error returns of the code are ordinary values of \<open>r\<close>.
  A theorem that an operation returns \<^const>\<open>Some\<close> is thus a memory-safety and termination
  theorem.
\<close>

unbundle bit_operations_syntax

named_theorems heap_simps \<open>frame and lookup equations of the state-passing primitives\<close>
named_theorems inv_intros \<open>introduction rules for the component invariants\<close>

subsection \<open>Machine types\<close>

type_synonym u8 = "8 word"
type_synonym u32 = "32 word"
type_synonym u64 = "64 word"
type_synonym i32 = "32 word"

text \<open>Addresses of heap blocks are natural numbers; a possibly-NULL pointer is an option.\<close>

type_synonym addr = nat
type_synonym ptr = "nat option"

subsection \<open>Return codes (\<^verbatim>\<open>src/src/include/error.h\<close>, Linux errno values)\<close>

definition VACCEL_OK :: int where [simp]: "VACCEL_OK = 0"
definition VACCEL_EINVAL :: int where [simp]: "VACCEL_EINVAL = 22"
definition VACCEL_ENOMEM :: int where [simp]: "VACCEL_ENOMEM = 12"
definition VACCEL_ENOTSUP :: int where [simp]: "VACCEL_ENOTSUP = 95"
definition VACCEL_EINPROGRESS :: int where [simp]: "VACCEL_EINPROGRESS = 115"
definition VACCEL_EBUSY :: int where [simp]: "VACCEL_EBUSY = 16"
definition VACCEL_EEXISTS :: int where [simp]: "VACCEL_EEXISTS = 17"
definition VACCEL_ENOENT :: int where [simp]: "VACCEL_ENOENT = 2"
definition VACCEL_ELIBBAD :: int where [simp]: "VACCEL_ELIBBAD = 80"
definition VACCEL_ENODEV :: int where [simp]: "VACCEL_ENODEV = 19"
definition VACCEL_EIO :: int where [simp]: "VACCEL_EIO = 5"
definition VACCEL_ESESS :: int where [simp]: "VACCEL_ESESS = 104"
definition VACCEL_EBACKEND :: int where [simp]: "VACCEL_EBACKEND = 71"
definition VACCEL_ENOEXEC :: int where [simp]: "VACCEL_ENOEXEC = 8"
definition VACCEL_ENAMETOOLONG :: int where [simp]: "VACCEL_ENAMETOOLONG = 36"
definition VACCEL_EUSERS :: int where [simp]: "VACCEL_EUSERS = 87"
definition VACCEL_EPERM :: int where [simp]: "VACCEL_EPERM = 1"

subsection \<open>Undefined behaviour\<close>

text \<open>\<open>defined b\<close> is the point of the program that is only defined when \<open>b\<close> holds.\<close>

definition defined :: "bool \<Rightarrow> unit option" where
  "defined b = (if b then Some () else None)"

lemma defined_simps [simp]: "defined True = Some ()" "defined False = None"
  by (simp_all add: defined_def)

lemma defined_eq_Some [simp]: "defined b = Some u \<longleftrightarrow> b"
  by (simp add: defined_def)

lemma bind_defined [simp]: "Option.bind (defined b) f = (if b then f () else None)"
  by (simp add: defined_def)

lemma bind_SomeE: "Option.bind m f = Some y \<Longrightarrow> (\<And>x. m = Some x \<Longrightarrow> f x = Some y \<Longrightarrow> P) \<Longrightarrow> P"
  by (cases m) simp_all

lemma bind_SomeI: "m = Some x \<Longrightarrow> f x = Some y \<Longrightarrow> Option.bind m f = Some y"
  by simp

subsection \<open>Lists read as the rest of a circular list\<close>

text \<open>The entry that follows in a circular list: the first of \<open>ys\<close>, or the head \<open>l\<close>.\<close>

definition first_or :: "'p \<Rightarrow> 'p list \<Rightarrow> 'p" where
  "first_or l ys = (case ys of [] \<Rightarrow> l | y # _ \<Rightarrow> y)"

lemma first_or_simps [simp]: "first_or l [] = l" "first_or l (y # ys) = y"
  by (simp_all add: first_or_def)

lemma first_or_append: "first_or l (xs @ ys) = first_or (first_or l ys) xs"
  by (cases xs) simp_all

lemma first_or_in: "first_or l ys \<in> insert l (set ys)"
  by (cases ys) simp_all

subsection \<open>Blocks owned by one pointer\<close>

text \<open>A pointer to a block no other pointer reaches: NULL, the block, or dangling after \<open>free\<close>.\<close>

datatype 'a block = Null | Live 'a | Freed

fun live_block :: "'a block \<Rightarrow> 'a option" where
  "live_block (Live a) = Some a"
| "live_block _ = None"

text \<open>A C array access \<open>a[i]\<close>: only an index within the array is defined.\<close>

definition array_index :: "int \<Rightarrow> 'a list \<Rightarrow> nat option" where
  "array_index i a = do { defined (0 \<le> i \<and> i < int (length a)); Some (nat i) }"

lemma array_index_Some [simp]:
  "array_index i a = Some k \<longleftrightarrow> i = int k \<and> k < length a"
  by (auto simp: array_index_def)

lemma array_index_None: "array_index i a = None \<longleftrightarrow> i < 0 \<or> int (length a) \<le> i"
  by (auto simp: array_index_def)

subsection \<open>Signed 32-bit counters\<close>

lemma sint32_range: "- (2 ^ 31) \<le> sint (x :: i32)" "sint (x :: i32) < 2 ^ 31"
  using sint_greater_eq [of x] sint_less [of x] by simp_all

lemma sint32_inc: "sint (x :: i32) < 2 ^ 31 - 1 \<Longrightarrow> sint (x + 1) = sint x + 1"
  using sint32_range [of x] by (simp add: sint_word_ariths signed_take_bit_int_eq_self)

lemma sint32_dec: "- (2 ^ 31) < sint (x :: i32) \<Longrightarrow> sint (x - 1) = sint x - 1"
  using sint32_range [of x] by (simp add: sint_word_ariths signed_take_bit_int_eq_self)

end
