(* ===== verification/Libc.thy ===== *)
theory Libc
  imports Prelude
begin

text \<open>
  The part of the C library and of the operating system that the runtime calls: the allocator,
  C strings on the heap, a file system, stdio streams, memory mappings and the environment.
  What the outside world decides (whether an allocation succeeds, with which error a system call
  fails, the suffix \<open>mkstemp\<close> picks, how much of a stream is written out before it is closed) are
  functions of the state, indexed by a counter of the calls made, so a theorem that holds for
  every state holds for every behaviour of the outside world.
\<close>

subsection \<open>State\<close>

datatype fnode = Dir | File "u8 list"

record os_state =
  \<comment> \<open>allocator: the address of the next block, and whether the n-th allocation succeeds\<close>
  alloc_next :: addr
  alloc_ok :: "addr \<Rightarrow> bool"
  \<comment> \<open>C strings on the heap\<close>
  strs :: "addr \<Rightarrow> string option"
  \<comment> \<open>memory mappings\<close>
  maps :: "addr \<Rightarrow> u8 list option"
  \<comment> \<open>system calls: the error injected into the n-th one (0: none) and the last error\<close>
  sys_next :: nat
  sys_err :: "nat \<Rightarrow> nat"
  errno :: int
  \<comment> \<open>file system, by absolute path; the root is the empty path\<close>
  fs :: "(string \<times> fnode) list"
  \<comment> \<open>six characters of a temporary name, and bytes of a stream written before it is flushed\<close>
  rnd :: "nat \<Rightarrow> string"
  stdio_out :: "nat \<Rightarrow> nat"
  \<comment> \<open>process environment\<close>
  env :: "string \<Rightarrow> string option"
  uid :: u32
  \<comment> \<open>calls made into a VirtIO host so far\<close>
  host_next :: nat

subsection \<open>Formatting\<close>

fun dec_digits :: "nat \<Rightarrow> string" where
  "dec_digits n = (if n < 10 then [char_of (48 + n)] else dec_digits (n div 10) @ [char_of (48 + n mod 10)])"

declare dec_digits.simps [simp del]

definition int_digits :: "int \<Rightarrow> string" where
  "int_digits i = (if i < 0 then ''-'' @ dec_digits (nat (- i)) else dec_digits (nat i))"

text \<open>\<open>snprintf\<close> into a buffer of \<open>n\<close> bytes: the length of the whole text, and what fits.\<close>

definition snprintf :: "nat \<Rightarrow> string \<Rightarrow> nat \<times> string" where
  "snprintf n text = (length text, take (n - 1) text)"

definition undigits :: "string \<Rightarrow> nat" where
  "undigits cs = foldl (\<lambda>n c. 10 * n + (of_char c - 48)) 0 cs"

lemma undigits_snoc: "undigits (cs @ [c]) = 10 * undigits cs + (of_char c - 48)"
  by (simp add: undigits_def)

lemma undigits_single: "undigits [c] = of_char c - 48"
  by (simp add: undigits_def)

lemma of_char_digit: "d < 10 \<Longrightarrow> of_char (char_of (48 + d) :: char) = (48 + d :: nat)"
  by simp

lemma undigits_dec: "undigits (dec_digits n) = n"
proof (induction n rule: dec_digits.induct)
  case (1 n)
  show ?case
  proof (cases "n < 10")
    case True
    then show ?thesis
      by (subst dec_digits.simps) (simp add: undigits_single)
  next
    case False
    then show ?thesis using 1
      by (subst dec_digits.simps) (simp add: undigits_snoc)
  qed
qed

lemma dec_digits_inj: "dec_digits m = dec_digits n \<longleftrightarrow> m = n"
  by (metis undigits_dec)

lemma int_digits_inj: "0 \<le> i \<Longrightarrow> 0 \<le> j \<Longrightarrow> int_digits i = int_digits j \<longleftrightarrow> i = j"
  by (auto simp: int_digits_def dec_digits_inj)

subsection \<open>The allocator and C strings\<close>

definition malloc :: "os_state \<Rightarrow> ptr \<times> os_state" where
  "malloc s = ((if alloc_ok s (alloc_next s) then Some (alloc_next s) else None),
     s\<lparr>alloc_next := Suc (alloc_next s)\<rparr>)"

text \<open>\<open>calloc\<close> fails when the block would be larger than the address space allows.\<close>

definition calloc :: "nat \<Rightarrow> nat \<Rightarrow> os_state \<Rightarrow> ptr \<times> os_state" where
  "calloc n sz s = (if n * sz < 2 ^ 63 then malloc s else (None, s))"

definition new_str :: "string \<Rightarrow> os_state \<Rightarrow> ptr \<times> os_state" where
  "new_str text s = (case malloc s of
       (None, s) \<Rightarrow> (None, s)
     | (Some a, s) \<Rightarrow> (Some a, s\<lparr>strs := (strs s)(a \<mapsto> text)\<rparr>))"

lemma new_str_cases:
  obtains "new_str text s = (None, s\<lparr>alloc_next := Suc (alloc_next s)\<rparr>)"
  | "new_str text s = (Some (alloc_next s), s\<lparr>alloc_next := Suc (alloc_next s), strs := (strs s)(alloc_next s \<mapsto> text)\<rparr>)"
  by (cases "alloc_ok s (alloc_next s)") (auto simp: new_str_def malloc_def)

definition strdup :: "string \<Rightarrow> os_state \<Rightarrow> ptr \<times> os_state" where
  "strdup text s = new_str text s"

definition strndup :: "string \<Rightarrow> nat \<Rightarrow> os_state \<Rightarrow> ptr \<times> os_state" where
  "strndup text n s = new_str (take n text) s"

definition free_str :: "ptr \<Rightarrow> os_state \<Rightarrow> os_state option" where
  "free_str p s = (case p of None \<Rightarrow> Some s
     | Some a \<Rightarrow> do { defined (strs s a \<noteq> None); Some (s\<lparr>strs := (strs s)(a := None)\<rparr>) })"

definition get_str :: "ptr \<Rightarrow> os_state \<Rightarrow> string option" where
  "get_str p s = do { a \<leftarrow> p; strs s a }"

subsection \<open>The file system\<close>

definition sys_call :: "os_state \<Rightarrow> nat \<times> os_state" where
  "sys_call s = (sys_err s (sys_next s), s\<lparr>sys_next := Suc (sys_next s)\<rparr>)"

definition fail :: "int \<Rightarrow> os_state \<Rightarrow> int \<times> os_state" where
  "fail e s = (- 1, s\<lparr>errno := e\<rparr>)"

definition dirname :: "string \<Rightarrow> string" where
  "dirname p = rev (tl (dropWhile (\<lambda>c. c \<noteq> CHR ''/'') (rev p)))"

definition basename :: "string \<Rightarrow> string" where
  "basename p = rev (takeWhile (\<lambda>c. c \<noteq> CHR ''/'') (rev p))"

definition node :: "os_state \<Rightarrow> string \<Rightarrow> fnode option" where
  "node s p = map_of (fs s) p"

definition is_dir :: "os_state \<Rightarrow> string \<Rightarrow> bool" where
  "is_dir s p \<longleftrightarrow> p = [] \<or> node s p = Some Dir"

definition set_node :: "string \<Rightarrow> fnode \<Rightarrow> os_state \<Rightarrow> os_state" where
  "set_node p n s = s\<lparr>fs := AList.update p n (fs s)\<rparr>"

definition del_node :: "string \<Rightarrow> os_state \<Rightarrow> os_state" where
  "del_node p s = s\<lparr>fs := AList.delete p (fs s)\<rparr>"

text \<open>The names in a directory, in the order \<open>readdir\<close> gives them.\<close>

definition children :: "os_state \<Rightarrow> string \<Rightarrow> string list" where
  "children s d = map basename (filter (\<lambda>q. q \<noteq> [] \<and> dirname q = d) (map fst (fs s)))"

definition mkdir :: "string \<Rightarrow> os_state \<Rightarrow> int \<times> os_state" where
  "mkdir p s = (let (e, s) = sys_call s in
     if e \<noteq> 0 then fail (int e) s
     else if node s p \<noteq> None then fail VACCEL_EEXISTS s
     else if \<not> is_dir s (dirname p) then fail VACCEL_ENOENT s
     else (0, set_node p Dir s))"

definition ENOTDIR :: int where [simp]: "ENOTDIR = 20"
definition EISDIR :: int where [simp]: "EISDIR = 21"
definition ENOTEMPTY :: int where [simp]: "ENOTEMPTY = 39"
definition EBADF :: int where [simp]: "EBADF = 9"

definition rmdir :: "string \<Rightarrow> os_state \<Rightarrow> int \<times> os_state" where
  "rmdir p s = (let (e, s) = sys_call s in
     if e \<noteq> 0 then fail (int e) s
     else case node s p of
       None \<Rightarrow> fail VACCEL_ENOENT s
     | Some (File _) \<Rightarrow> fail ENOTDIR s
     | Some Dir \<Rightarrow> if children s p \<noteq> [] then fail ENOTEMPTY s else (0, del_node p s))"

definition remove :: "string \<Rightarrow> os_state \<Rightarrow> int \<times> os_state" where
  "remove p s = (case node s p of
       Some (File _) \<Rightarrow> (let (e, s) = sys_call s in
         if e \<noteq> 0 then fail (int e) s else (0, del_node p s))
     | _ \<Rightarrow> rmdir p s)"

definition access :: "string \<Rightarrow> os_state \<Rightarrow> int \<times> os_state" where
  "access p s = (let (e, s) = sys_call s in
     if e \<noteq> 0 then fail (int e) s
     else if node s p = None \<and> p \<noteq> [] then fail VACCEL_ENOENT s
     else (0, s))"

text \<open>Directory operations leave the heap alone.\<close>

definition heap_of :: "os_state \<Rightarrow> (addr \<Rightarrow> string option) \<times> addr \<times> (addr \<Rightarrow> u8 list option) \<times> (addr \<Rightarrow> bool)" where
  "heap_of s = (strs s, alloc_next s, maps s, alloc_ok s)"

lemma heap_of_sys_call [heap_simps]: "heap_of (snd (sys_call s)) = heap_of s"
  by (simp add: sys_call_def heap_of_def)

lemma sys_call_heap: "sys_call s = (e, s') \<Longrightarrow> heap_of s' = heap_of s"
  using heap_of_sys_call [of s] by simp

lemma heap_of_fail [heap_simps]: "heap_of (snd (fail e s)) = heap_of s"
  by (simp add: fail_def heap_of_def)

lemma heap_of_node [heap_simps]: "heap_of (set_node p n s) = heap_of s" "heap_of (del_node p s) = heap_of s"
  by (simp_all add: set_node_def del_node_def heap_of_def)

lemma heap_of_mkdir [heap_simps]: "heap_of (snd (mkdir p s)) = heap_of s"
  by (auto simp: mkdir_def heap_simps split: prod.split dest: sys_call_heap)

lemma heap_of_rmdir [heap_simps]: "heap_of (snd (rmdir p s)) = heap_of s"
  by (auto simp: rmdir_def heap_simps split: prod.split option.split fnode.split dest: sys_call_heap)

lemma heap_of_remove [heap_simps]: "heap_of (snd (remove p s)) = heap_of s"
  by (auto simp: remove_def heap_simps split: prod.split option.split fnode.split dest: sys_call_heap)

lemma heap_of_strs: "heap_of s = heap_of s' \<Longrightarrow> strs s = strs s' \<and> alloc_next s = alloc_next s' \<and> maps s = maps s' \<and> alloc_ok s = alloc_ok s'"
  by (simp add: heap_of_def)

lemma node_set [simp]: "node (set_node p n s) q = (if q = p then Some n else node s q)"
  by (simp add: node_def set_node_def update_conv)

lemma node_sys_call: "sys_call s = (e, s') \<Longrightarrow> node s' = node s"
  by (auto simp: sys_call_def node_def fun_eq_iff)

text \<open>A successful \<open>mkdir\<close> makes a directory where there was nothing, and only there.\<close>

lemma mkdir_ok:
  assumes "mkdir p s = (0, s')"
  shows "node s p = None" "node s' = (node s)(p \<mapsto> Dir)" "heap_of s' = heap_of s"
proof -
  obtain e s1 where c: "sys_call s = (e, s1)" by (cases "sys_call s")
  have "e = 0 \<and> node s1 p = None \<and> s' = set_node p Dir s1"
    using assms c by (auto simp: mkdir_def fail_def split: if_splits)
  then show "node s p = None" "node s' = (node s)(p \<mapsto> Dir)"
    using node_sys_call [OF c] by (auto simp: fun_eq_iff)
  show "heap_of s' = heap_of s" using heap_of_mkdir [of p s] assms by simp
qed

lemma mkdir_failed: "mkdir p s = (r, s') \<Longrightarrow> r \<noteq> 0 \<Longrightarrow> r = - 1 \<and> errno s' \<noteq> 0"
  by (auto simp: mkdir_def fail_def split: if_splits prod.splits)

text \<open>\<open>opendir\<close> (with its \<open>closedir\<close>): whether the directory could be opened.\<close>

definition opendir :: "string \<Rightarrow> os_state \<Rightarrow> bool \<times> os_state" where
  "opendir p s = (let (e, s) = sys_call s in
     if e \<noteq> 0 then (False, s\<lparr>errno := int e\<rparr>)
     else if node s p = None \<and> p \<noteq> [] then (False, s\<lparr>errno := VACCEL_ENOENT\<rparr>)
     else if \<not> is_dir s p then (False, s\<lparr>errno := ENOTDIR\<rparr>)
     else (True, s))"

text \<open>A template ending in XXXXXX with its last six characters replaced.\<close>

definition temp_name :: "string \<Rightarrow> os_state \<Rightarrow> string" where
  "temp_name tmpl s = take (length tmpl - 6) tmpl @ rnd s (sys_next s)"

definition mkdtemp :: "string \<Rightarrow> os_state \<Rightarrow> string option \<times> os_state" where
  "mkdtemp tmpl s = (let p = temp_name tmpl s; (r, s) = mkdir p s in
     if r = 0 then (Some p, s) else (None, s))"

subsection \<open>Streams\<close>

text \<open>
  An open stream is the path of its file and what it has been given to write. Bytes that have
  been written to the stream reach the file when the stream is closed; before that, the library
  has put the first \<open>stdio_out n\<close> of \<open>n\<close> bytes into the file (with the GNU C library's buffer of
  4096 bytes, \<open>stdio_out n = n - n mod 4096\<close>). Closing can fail; then the bytes that are still in the buffer are lost.
\<close>

record stream =
  s_path :: string
  s_data :: "u8 list"

definition open_write :: "string \<Rightarrow> os_state \<Rightarrow> stream option \<times> os_state" where
  "open_write p s = (let (e, s) = sys_call s in
     if e \<noteq> 0 then (None, s\<lparr>errno := int e\<rparr>)
     else if is_dir s p then (None, s\<lparr>errno := EISDIR\<rparr>)
     else if \<not> is_dir s (dirname p) then (None, s\<lparr>errno := VACCEL_ENOENT\<rparr>)
     else (Some \<lparr>s_path = p, s_data = []\<rparr>, set_node p (File []) s))"

text \<open>\<open>fopen(p, "w+")\<close> creates or truncates the file.\<close>

definition fopen_w :: "string \<Rightarrow> os_state \<Rightarrow> stream option \<times> os_state" where
  "fopen_w p s = open_write p s"

text \<open>
  \<open>mkstemp(path)\<close> then \<open>fdopen\<close>: the name replaces the template in place; a failed \<open>mkstemp\<close>
  returns the descriptor -1, which \<open>fdopen\<close> refuses with EBADF.
\<close>

definition mkstemp_fdopen :: "addr \<Rightarrow> os_state \<Rightarrow> (stream option \<times> os_state) option" where
  "mkstemp_fdopen a s = do {
     tmpl \<leftarrow> strs s a;
     let p = temp_name tmpl s;
     let s = s\<lparr>strs := (strs s)(a \<mapsto> p)\<rparr>;
     if node s p \<noteq> None then Some (None, (snd (sys_call s))\<lparr>errno := EBADF\<rparr>)
     else case open_write p s of
         (None, s) \<Rightarrow> Some (None, s\<lparr>errno := EBADF\<rparr>)
       | (Some f, s) \<Rightarrow> Some (Some f, s) }"

definition fwrite :: "u8 list \<Rightarrow> stream \<Rightarrow> os_state \<Rightarrow> nat \<times> stream \<times> os_state" where
  "fwrite bs f s = (let (e, s) = sys_call s in
     if e \<noteq> 0 then (0, f, s\<lparr>errno := int e\<rparr>)
     else (let all = s_data f @ bs in
       (length bs, f\<lparr>s_data := all\<rparr>, set_node (s_path f) (File (take (stdio_out s (length all)) all)) s)))"

definition fclose :: "stream \<Rightarrow> os_state \<Rightarrow> os_state" where
  "fclose f s = (let (e, s) = sys_call s in if e \<noteq> 0 then s\<lparr>errno := int e\<rparr> else set_node (s_path f) (File (s_data f)) s)"

text \<open>The last system call has succeeded.\<close>

definition last_call_ok :: "os_state \<Rightarrow> bool" where
  "last_call_ok s \<longleftrightarrow> sys_err s (sys_next s - 1) = 0"

subsection \<open>Memory mappings\<close>

text \<open>
  A data pointer: NULL, a buffer the user owns, a mapping, or the value MAP_FAILED, which is not
  NULL. Mapping zero bytes fails, and so can any other mapping.
\<close>

datatype dataptr = DNull | User "u8 list" | Mapped addr | Map_Failed

definition mmap_file :: "u8 list \<Rightarrow> os_state \<Rightarrow> dataptr \<times> os_state" where
  "mmap_file bs s = (let (e, s) = sys_call s in
     if e \<noteq> 0 then (Map_Failed, s\<lparr>errno := int e\<rparr>)
     else if bs = [] then (Map_Failed, s\<lparr>errno := VACCEL_EINVAL\<rparr>)
     else (Mapped (alloc_next s), s\<lparr>maps := (maps s)(alloc_next s \<mapsto> bs), alloc_next := Suc (alloc_next s)\<rparr>))"

text \<open>
  \<open>munmap\<close> of a mapping removes it; \<open>munmap\<close> of MAP_FAILED fails; of memory the user owns, or of
  a mapping that is gone, it would take away memory that is not the runtime's.
\<close>

definition munmap :: "dataptr \<Rightarrow> os_state \<Rightarrow> (int \<times> os_state) option" where
  "munmap d s = (case d of
       Mapped a \<Rightarrow> do { defined (maps s a \<noteq> None); Some (0, s\<lparr>maps := (maps s)(a := None)\<rparr>) }
     | Map_Failed \<Rightarrow> Some (fail VACCEL_EINVAL s)
     | _ \<Rightarrow> None)"

definition data_bytes :: "dataptr \<Rightarrow> os_state \<Rightarrow> u8 list option" where
  "data_bytes d s = (case d of User bs \<Rightarrow> Some bs | Mapped a \<Rightarrow> maps s a | _ \<Rightarrow> None)"

lemma mkdir_calm:
  assumes "sys_err s (sys_next s) = 0" "node s p = None" "is_dir s (dirname p)"
  shows "mkdir p s = (0, set_node p Dir (s\<lparr>sys_next := Suc (sys_next s)\<rparr>))"
  using assms by (simp add: mkdir_def sys_call_def node_def is_dir_def)

subsection \<open>A machine on which nothing fails\<close>

definition calm_os :: os_state where
  "calm_os = \<lparr>alloc_next = 1, alloc_ok = \<lambda>_. True, strs = Map.empty, maps = Map.empty,
     sys_next = 0, sys_err = \<lambda>_. 0, errno = 0, fs = [(''/run'', Dir)], rnd = \<lambda>_. ''abcdef'', stdio_out = \<lambda>n. n - n mod 4096,
     env = Map.empty, uid = 0, host_next = 0\<rparr>"

end
