(* ===== verification/Id_Pool.thy ===== *)
theory Id_Pool
  imports Libc
begin

text \<open>
  The pool of identifiers of \<^verbatim>\<open>src/src/id_pool.c\<close>: an array of ids with an atomic index of the
  next one. Run by one thread it is a stack of free ids (\<open>free_ids\<close>): \<open>id_pool_get\<close> pops,
  \<open>id_pool_release\<close> pushes. The locale \<open>id_supply\<close> is the contract sessions and resources rely
  on. The second half gives the same two functions as the steps of concurrent threads.
\<close>

subsection \<open>State and operations\<close>

record id_pool =
  ids :: "int list block"
  max_ids :: i32
  next_id :: i32

definition id_pool_new :: "id_pool \<Rightarrow> i32 \<Rightarrow> os_state \<Rightarrow> int \<times> id_pool \<times> os_state" where
  "id_pool_new pool nr_ids s =
     (if nr_ids = 0 then (VACCEL_EINVAL, pool, s)
      else case calloc (nat (sint nr_ids mod 2 ^ 64)) 8 s of
        (None, s) \<Rightarrow> (VACCEL_ENOMEM, pool\<lparr>ids := Null\<rparr>, s)
      | (Some _, s) \<Rightarrow> (VACCEL_OK,
          pool\<lparr>ids := Live (replicate (nat (sint nr_ids)) 0), max_ids := nr_ids, next_id := 0\<rparr>, s))"

definition id_pool_destroy :: "id_pool option \<Rightarrow> (int \<times> id_pool option) option" where
  "id_pool_destroy pool = (case pool of
       None \<Rightarrow> Some (VACCEL_EINVAL, None)
     | Some p \<Rightarrow> (case ids p of
           Null \<Rightarrow> Some (VACCEL_OK, Some p)
         | Live _ \<Rightarrow> Some (VACCEL_OK, Some (p\<lparr>ids := Freed\<rparr>))
         | Freed \<Rightarrow> None))"

definition id_pool_get :: "id_pool option \<Rightarrow> (int \<times> id_pool option) option" where
  "id_pool_get pool = (case pool of
       None \<Rightarrow> Some (0, None)
     | Some p \<Rightarrow>
         (let ptr = next_id p; p = p\<lparr>next_id := ptr + 1\<rparr> in
          if sint (max_ids p) \<le> sint ptr then Some (0, Some p)
          else do {
            a \<leftarrow> live_block (ids p);
            i \<leftarrow> array_index (sint ptr) a;
            let a = (if a ! i = 0 then a[i := sint ptr + 1] else a);
            Some (a ! i, Some (p\<lparr>ids := Live a\<rparr>)) }))"

text \<open>With one thread the compare-and-exchange succeeds at once.\<close>

definition id_pool_release :: "id_pool option \<Rightarrow> int \<Rightarrow> id_pool option option" where
  "id_pool_release pool vid = (case pool of
       None \<Rightarrow> Some None
     | Some p \<Rightarrow>
         (if vid = 0 \<or> sint (max_ids p) < vid then Some (Some p)
          else (let curr = next_id p; ptr = curr - 1; p = p\<lparr>next_id := ptr\<rparr> in do {
            a \<leftarrow> live_block (ids p);
            i \<leftarrow> array_index (sint ptr) a;
            Some (Some (p\<lparr>ids := Live (a[i := vid])\<rparr>)) })))"

subsection \<open>The pool as a stack of free ids\<close>

text \<open>The id slot \<open>i\<close> gives out: its own number until an id has been stored into it.\<close>

definition slot :: "int list \<Rightarrow> nat \<Rightarrow> int" where
  "slot a i = (if a ! i = 0 then int i + 1 else a ! i)"

definition pool_array :: "id_pool \<Rightarrow> int list" where
  "pool_array p = (case ids p of Live a \<Rightarrow> a | _ \<Rightarrow> [])"

definition free_ids :: "id_pool \<Rightarrow> int list" where
  "free_ids p = map (slot (pool_array p)) [nat (sint (next_id p))..<nat (sint (max_ids p))]"

definition pool_cap :: "id_pool \<Rightarrow> int" where
  "pool_cap p = sint (max_ids p)"

definition pool_wf :: "id_pool \<Rightarrow> bool" where
  "pool_wf p \<longleftrightarrow> (case ids p of Live a \<Rightarrow> int (length a) = sint (max_ids p) | _ \<Rightarrow> False)
     \<and> 0 \<le> sint (next_id p) \<and> sint (next_id p) \<le> sint (max_ids p)
     \<and> distinct (free_ids p) \<and> set (free_ids p) \<subseteq> {1..pool_cap p}"

lemma pool_wfE:
  assumes "pool_wf p"
  obtains a n where "ids p = Live a" "pool_array p = a" "sint (max_ids p) = int (length a)"
    "sint (next_id p) = int n" "n \<le> length a" "free_ids p = map (slot a) [n..<length a]"
    "distinct (map (slot a) [n..<length a])" "set (map (slot a) [n..<length a]) \<subseteq> {1..int (length a)}"
proof -
  from assms obtain a where a: "ids p = Live a" "sint (max_ids p) = int (length a)"
    by (auto simp: pool_wf_def split: block.splits)
  have fr: "free_ids p = map (slot a) [nat (sint (next_id p))..<length a]"
    using a by (simp add: free_ids_def pool_array_def)
  have "sint (next_id p) = int (nat (sint (next_id p)))" "nat (sint (next_id p)) \<le> length a"
    using assms a by (auto simp: pool_wf_def)
  then show thesis using that [of a "nat (sint (next_id p))"] assms a fr
    by (auto simp: pool_wf_def pool_array_def pool_cap_def)
qed

lemma pool_wfI:
  assumes "ids p = Live a" "sint (max_ids p) = int (length a)" "sint (next_id p) = int n" "n \<le> length a"
    "distinct (map (slot a) [n..<length a])" "set (map (slot a) [n..<length a]) \<subseteq> {1..int (length a)}"
  shows "pool_wf p" "free_ids p = map (slot a) [n..<length a]"
  using assms by (auto simp: pool_wf_def free_ids_def pool_array_def pool_cap_def)

lemma slot_update_own: "a ! i = 0 \<Longrightarrow> i < length a \<Longrightarrow> slot (a[i := int i + 1]) k = slot a k"
  by (cases "k = i") (auto simp: slot_def)

lemma slot_update_other: "k \<noteq> i \<Longrightarrow> slot (a[i := v]) k = slot a k"
  by (simp add: slot_def)

text \<open>A fresh pool of \<open>n\<close> ids gives out 1, 2, up to \<open>n\<close>.\<close>

lemma id_pool_new_ok:
  assumes "0 < sint n" "alloc_ok s (alloc_next s)"
  obtains p' s' where "id_pool_new p n s = (VACCEL_OK, p', s')" "pool_wf p'" "pool_cap p' = sint n"
    "free_ids p' = map int [1..<Suc (nat (sint n))]" "s' = s\<lparr>alloc_next := Suc (alloc_next s)\<rparr>"
proof -
  let ?a = "replicate (nat (sint n)) (0::int)"
  let ?p = "p\<lparr>ids := Live ?a, max_ids := n, next_id := 0\<rparr>"
  have sl: "map (slot ?a) [0..<length ?a] = map int [1..<Suc (nat (sint n))]"
    by (rule nth_equalityI) (auto simp: slot_def simp del: upt_Suc)
  have "sint n mod 2 ^ 64 = sint n"
    using assms(1) sint32_range [of n] by (intro mod_pos_pos_trivial) auto
  then have c: "calloc (nat (sint n mod 2 ^ 64)) 8 s = malloc s"
    using sint32_range [of n] assms(1) by (auto simp: calloc_def nat_less_iff not_less nat_le_iff)
  have "n \<noteq> 0" using assms(1) by auto
  then have run: "id_pool_new p n s = (VACCEL_OK, ?p, s\<lparr>alloc_next := Suc (alloc_next s)\<rparr>)"
    using assms(2) c by (simp add: id_pool_new_def malloc_def)
  have d: "distinct (map (slot ?a) [0..<length ?a])"
    unfolding sl by (simp add: distinct_map del: upt_Suc)
  have b: "set (map (slot ?a) [0..<length ?a]) \<subseteq> {1..int (length ?a)}"
    unfolding sl using assms(1) by (auto simp del: upt_Suc)
  note wf = pool_wfI [of ?p ?a 0, OF _ _ _ _ d b]
  have wf: "pool_wf ?p" "free_ids ?p = map (slot ?a) [0..<length ?a]"
    using wf assms(1) by simp_all
  show thesis by (rule that [OF run wf(1)]) (use wf(2) sl in \<open>simp_all add: pool_cap_def\<close>)
qed

text \<open>\<open>id_pool_get\<close> pops the stack.\<close>

lemma id_pool_get_pop:
  assumes wf: "pool_wf p" and fr: "free_ids p = i # F"
  obtains p' where "id_pool_get (Some p) = Some (i, Some p')" "pool_wf p'" "free_ids p' = F"
    "pool_cap p' = pool_cap p"
proof -
  from wf obtain a n where w: "ids p = Live a" "sint (max_ids p) = int (length a)"
    "sint (next_id p) = int n" "n \<le> length a" "free_ids p = map (slot a) [n..<length a]"
    "distinct (map (slot a) [n..<length a])" "set (map (slot a) [n..<length a]) \<subseteq> {1..int (length a)}"
    by (rule pool_wfE)
  have n: "n < length a" using fr w(4,5) by (cases "n = length a") auto
  then have split: "[n..<length a] = n # [Suc n..<length a]" by (rule upt_conv_Cons)
  have i: "i = slot a n" and F: "F = map (slot a) [Suc n..<length a]"
    using fr w(5) split by auto
  define a' where "a' = (if a ! n = 0 then a[n := int n + 1] else a)"
  have len: "length a' = length a" by (simp add: a'_def)
  let ?a' = a'
  let ?p' = "p\<lparr>next_id := next_id p + 1, ids := Live ?a'\<rparr>"
  have sl: "slot a' = slot a" using n by (auto simp: a'_def slot_update_own)
  have inc: "sint (next_id p + 1) = int (Suc n)"
    using sint32_inc [of "next_id p"] w(2,3) n sint32_range [of "max_ids p"] by simp
  have run: "id_pool_get (Some p) = Some (i, Some ?p')"
    using w n i by (auto simp: id_pool_get_def Let_def array_index_def slot_def a'_def)
  have d: "distinct (map (slot a) [Suc n..<length a])"
    and b: "set (map (slot a) [Suc n..<length a]) \<subseteq> {1..int (length a)}"
    using w(6,7) split by auto
  have m: "map (slot ?a') [Suc n..<length ?a'] = map (slot a) [Suc n..<length a]"
    by (simp add: sl len)
  have wf': "pool_wf ?p'" "free_ids ?p' = map (slot ?a') [Suc n..<length ?a']"
    by (rule pool_wfI [where a = ?a' and n = "Suc n"]; (unfold m)?; (use w n inc d b len in simp)?)+
  show thesis by (rule that [OF run wf'(1)]) (use wf'(2) m F in \<open>simp_all add: pool_cap_def\<close>)
qed

text \<open>
  An exhausted pool returns 0, but the index still moves: it is now past the end of the array.
\<close>

lemma id_pool_get_exhausted:
  assumes wf: "pool_wf p" and fr: "free_ids p = []"
  shows "id_pool_get (Some p) = Some (0, Some (p\<lparr>next_id := next_id p + 1\<rparr>))"
  using wf
proof (rule pool_wfE)
  fix a n assume "sint (max_ids p) = int (length a)" "sint (next_id p) = int n"
    "free_ids p = map (slot a) [n..<length a]"
  then show ?thesis using fr by (auto simp: id_pool_get_def Let_def)
qed

text \<open>An id is in use when it is in the pool's range and not free.\<close>

definition used_ids :: "id_pool \<Rightarrow> int set" where
  "used_ids p = {1..pool_cap p} - set (free_ids p)"

lemma used_ids_pos_next:
  assumes wf: "pool_wf p" and i: "i \<in> used_ids p"
  shows "0 < sint (next_id p)"
  using wf
proof (rule pool_wfE)
  fix a n
  assume w: "sint (max_ids p) = int (length a)" "sint (next_id p) = int n" "n \<le> length a"
    "free_ids p = map (slot a) [n..<length a]" "distinct (map (slot a) [n..<length a])"
    "set (map (slot a) [n..<length a]) \<subseteq> {1..int (length a)}"
  show ?thesis
  proof (rule ccontr)
    assume "\<not> 0 < sint (next_id p)"
    then have n: "n = 0" using w(2) by simp
    have "card (set (free_ids p)) = length a"
      using w(4,5) n by (simp only: distinct_card) simp
    moreover have "card {1..int (length a)} = length a" by simp
    ultimately have "set (free_ids p) = {1..int (length a)}"
      using w(4,6) by (intro card_subset_eq) auto
    then show False using i w(1) by (auto simp: used_ids_def pool_cap_def)
  qed
qed

text \<open>\<open>id_pool_release\<close> of an id in use pushes it.\<close>

lemma id_pool_release_push:
  assumes wf: "pool_wf p" and i: "i \<in> used_ids p"
  obtains p' where "id_pool_release (Some p) i = Some (Some p')" "pool_wf p'"
    "free_ids p' = i # free_ids p" "pool_cap p' = pool_cap p"
proof -
  from wf obtain a n where w: "ids p = Live a" "sint (max_ids p) = int (length a)"
    "sint (next_id p) = int n" "n \<le> length a" "free_ids p = map (slot a) [n..<length a]"
    "distinct (map (slot a) [n..<length a])" "set (map (slot a) [n..<length a]) \<subseteq> {1..int (length a)}"
    by (rule pool_wfE)
  obtain m where n: "n = Suc m" using used_ids_pos_next [OF wf i] w(3) by (cases n) auto
  have ir: "1 \<le> i" "i \<le> int (length a)" "i \<notin> set (map (slot a) [n..<length a])"
    using i w(2,5) by (auto simp: used_ids_def pool_cap_def)
  let ?p' = "p\<lparr>next_id := next_id p - 1, ids := Live (a[m := i])\<rparr>"
  have dec: "sint (next_id p - 1) = int m"
    using sint32_dec [of "next_id p"] w(3) n by simp
  have run: "id_pool_release (Some p) i = Some (Some ?p')"
    using w ir n dec by (simp add: id_pool_release_def Let_def array_index_def)
  have rest: "map (slot (a[m := i])) [n..<length a] = map (slot a) [n..<length a]"
    using n by (auto simp: slot_update_other)
  have m: "map (slot (a[m := i])) [m..<length (a[m := i])] = i # map (slot a) [n..<length a]"
    using rest w(4) n ir(1) by (simp add: upt_conv_Cons slot_def del: upt_Suc)
  have wf': "pool_wf ?p'" "free_ids ?p' = map (slot (a[m := i])) [m..<length (a[m := i])]"
    by (rule pool_wfI [where a = "a[m := i]" and n = m]; (unfold m)?; (use w n ir dec in simp)?)+
  show thesis by (rule that [OF run wf'(1)]) (use wf'(2) m w(5) in \<open>simp_all add: pool_cap_def\<close>)
qed

text \<open>
  After a failed \<open>id_pool_get\<close> a release writes one past the end of the array; releasing into a
  pool that has given out nothing writes before its start.
\<close>

lemma id_pool_release_overrun:
  assumes "ids p = Live a" "sint (max_ids p) = int (length a)" "sint (next_id p) = int (length a) + 1"
    "0 < i" "i \<le> int (length a)" "length a + 1 < 2 ^ 31"
  shows "id_pool_release (Some p) i = None"
  using assms sint32_dec [of "next_id p"] by (simp add: id_pool_release_def Let_def array_index_def)

lemma id_pool_release_underrun:
  assumes "ids p = Live a" "sint (next_id p) = 0" "0 < i" "i \<le> sint (max_ids p)"
  shows "id_pool_release (Some p) i = None"
  using assms sint32_dec [of "next_id p"] by (simp add: id_pool_release_def Let_def array_index_def)

lemma id_pool_destroy_twice:
  "ids p = Live a \<Longrightarrow> id_pool_destroy (Some p) = Some (VACCEL_OK, Some (p\<lparr>ids := Freed\<rparr>))"
  "id_pool_destroy (Some (p\<lparr>ids := Freed\<rparr>)) = None"
  by (simp_all add: id_pool_destroy_def)

text \<open>
  Releasing an id that is already free: when another id is in use its slot is overwritten, and the
  released id is given out twice; when none is, the store lies before the array.
\<close>

lemma id_pool_double_release:
  assumes wf: "pool_wf p" and fr: "free_ids p = i # F" and u: "used_ids p \<noteq> {}"
  obtains p' q q' where "id_pool_release (Some p) i = Some (Some p')" "id_pool_get (Some p') = Some (i, Some q)"
    "id_pool_get (Some q) = Some (i, Some q')"
proof -
  from wf obtain a n where w: "ids p = Live a" "sint (max_ids p) = int (length a)"
    "sint (next_id p) = int n" "n \<le> length a" "free_ids p = map (slot a) [n..<length a]"
    "set (map (slot a) [n..<length a]) \<subseteq> {1..int (length a)}"
    by (rule pool_wfE)
  have "n \<noteq> length a" using fr w(5) by auto
  then have n: "n < length a" using w(4) by simp
  then have "map (slot a) [n..<length a] = slot a n # map (slot a) [Suc n..<length a]" by (simp add: upt_conv_Cons)
  then have i: "i = slot a n" "1 \<le> i" "i \<le> int (length a)" using fr w(5,6) by auto
  obtain m where m: "n = Suc m" using used_ids_pos_next [OF wf] u w(3) by (cases n) auto
  let ?a = "a[m := i]"
  let ?p1 = "p\<lparr>next_id := next_id p - 1, ids := Live ?a\<rparr>"
  have dec: "sint (next_id p - 1) = int m" using sint32_dec [of "next_id p"] w(3) m by simp
  have rel: "id_pool_release (Some p) i = Some (Some ?p1)"
    using w i m n dec by (simp add: id_pool_release_def Let_def array_index_def)
  let ?p2 = "?p1\<lparr>next_id := next_id p - 1 + 1\<rparr>"
  have get1: "id_pool_get (Some ?p1) = Some (i, Some ?p2)"
    using w i m n dec by (simp add: id_pool_get_def Let_def array_index_def)
  have nth: "?a ! n = a ! n" using m by simp
  have "\<exists>q'. id_pool_get (Some ?p2) = Some (i, Some q')"
    using w i(1) n nth by (auto simp: id_pool_get_def Let_def array_index_def slot_def)
  then show thesis using that rel get1 by blast
qed

lemma id_pool_release_all_free:
  assumes wf: "pool_wf p" and i: "i \<in> set (free_ids p)" and u: "used_ids p = {}"
  shows "id_pool_release (Some p) i = None"
proof -
  from wf obtain a n where w: "ids p = Live a" "sint (max_ids p) = int (length a)"
    "sint (next_id p) = int n" "n \<le> length a" "free_ids p = map (slot a) [n..<length a]"
    "distinct (map (slot a) [n..<length a])" "set (map (slot a) [n..<length a]) \<subseteq> {1..int (length a)}"
    by (rule pool_wfE)
  have eq: "set (free_ids p) = {1..int (length a)}"
    using u w(2,5,7) by (auto simp: used_ids_def pool_cap_def)
  have "card (set (free_ids p)) = length a - n" using w(5,6) by (simp only: distinct_card) simp
  moreover have "card {1..int (length a)} = length a" by simp
  ultimately have "n = 0 \<or> length a = 0" using eq w(4) by auto
  then have "sint (next_id p) = 0" using w(3,4) by auto
  then show ?thesis using i eq w(2) by (intro id_pool_release_underrun [OF w(1)]) auto
qed

subsection \<open>The contract of an id supply\<close>

locale id_supply =
  fixes wf :: "'p \<Rightarrow> bool"
    and cap :: "'p \<Rightarrow> int"
    and free :: "'p \<Rightarrow> int list"
    and get :: "'p option \<Rightarrow> (int \<times> 'p option) option"
    and put :: "'p option \<Rightarrow> int \<Rightarrow> 'p option option"
  assumes free_distinct: "wf p \<Longrightarrow> distinct (free p)"
    and free_range: "wf p \<Longrightarrow> set (free p) \<subseteq> {1..cap p}"
    and get_law: "wf p \<Longrightarrow> free p = i # F \<Longrightarrow>
      \<exists>p'. get (Some p) = Some (i, Some p') \<and> wf p' \<and> free p' = F \<and> cap p' = cap p"
    and get_none: "wf p \<Longrightarrow> free p = [] \<Longrightarrow> \<exists>p'. get (Some p) = Some (0, Some p')"
    and put_law: "wf p \<Longrightarrow> i \<in> {1..cap p} - set (free p) \<Longrightarrow>
      \<exists>p'. put (Some p) i = Some (Some p') \<and> wf p' \<and> free p' = i # free p \<and> cap p' = cap p"
begin

definition used :: "'p \<Rightarrow> int set" where
  "used p = {1..cap p} - set (free p)"

text \<open>A client sees a set of ids in use: \<open>get\<close> adds a new one, \<open>put\<close> removes one.\<close>

lemma get_fresh:
  assumes "wf p" "free p \<noteq> []"
  shows "\<exists>i p'. get (Some p) = Some (i, Some p') \<and> wf p' \<and> cap p' = cap p
    \<and> 1 \<le> i \<and> i \<le> cap p \<and> i \<notin> used p \<and> used p' = insert i (used p) \<and> free p = i # free p'"
proof -
  obtain i F where F: "free p = i # F" using assms(2) by (cases "free p") auto
  obtain p' where "get (Some p) = Some (i, Some p')" "wf p'" "free p' = F" "cap p' = cap p"
    using get_law [OF assms(1) F] by blast
  then show ?thesis using F free_distinct [OF assms(1)] free_range [OF assms(1)]
    by (auto simp: used_def)
qed

lemma put_used:
  assumes "wf p" "i \<in> used p"
  shows "\<exists>p'. put (Some p) i = Some (Some p') \<and> wf p' \<and> cap p' = cap p
    \<and> used p' = used p - {i} \<and> free p' = i # free p"
proof -
  obtain p' where "put (Some p) i = Some (Some p')" "wf p'" "free p' = i # free p" "cap p' = cap p"
    using put_law [OF assms(1)] assms(2) unfolding used_def by blast
  then show ?thesis by (auto simp: used_def)
qed

text \<open>An id put back is the next one given out.\<close>

lemma put_get:
  assumes "wf p" "i \<in> used p"
  shows "\<exists>p' p''. put (Some p) i = Some (Some p') \<and> get (Some p') = Some (i, Some p'')
    \<and> wf p'' \<and> free p'' = free p"
proof -
  obtain p' where p': "put (Some p) i = Some (Some p')" "wf p'" "free p' = i # free p"
    using put_used [OF assms] by blast
  then show ?thesis using get_law [OF p'(2,3)] by blast
qed

lemma get_put:
  assumes "wf p" "free p = i # F"
  shows "\<exists>p' p''. get (Some p) = Some (i, Some p') \<and> put (Some p') i = Some (Some p'')
    \<and> wf p'' \<and> free p'' = free p"
proof -
  obtain p' where p': "get (Some p) = Some (i, Some p')" "wf p'" "free p' = F" "cap p' = cap p"
    using get_law [OF assms] by blast
  have "i \<in> used p'" using assms p' free_distinct [OF assms(1)] free_range [OF assms(1)]
    by (auto simp: used_def)
  then obtain p'' where "put (Some p') i = Some (Some p'')" "wf p''" "free p'' = i # free p'"
    using put_used [OF p'(2)] by blast
  then show ?thesis using p' assms(2) by auto
qed

end

interpretation pool: id_supply pool_wf pool_cap free_ids id_pool_get id_pool_release
proof unfold_locales
  fix p i F assume "pool_wf p" "free_ids p = i # F"
  then show "\<exists>p'. id_pool_get (Some p) = Some (i, Some p') \<and> pool_wf p' \<and> free_ids p' = F \<and> pool_cap p' = pool_cap p"
    by (rule id_pool_get_pop) blast
next
  fix p i assume "pool_wf p" "i \<in> {1..pool_cap p} - set (free_ids p)"
  then show "\<exists>p'. id_pool_release (Some p) i = Some (Some p') \<and> pool_wf p' \<and> free_ids p' = i # free_ids p
      \<and> pool_cap p' = pool_cap p"
    using id_pool_release_push [of p i] unfolding used_ids_def by blast
qed (auto simp: pool_wf_def id_pool_get_exhausted)

lemma pool_used_ids: "pool.used p = used_ids p"
  by (simp add: pool.used_def used_ids_def)

subsection \<open>Properties\<close>

fun gets_n :: "nat \<Rightarrow> id_pool \<Rightarrow> (int list \<times> id_pool) option" where
  "gets_n 0 p = Some ([], p)"
| "gets_n (Suc n) p = do {
     (i, q) \<leftarrow> id_pool_get (Some p);
     q \<leftarrow> q;
     (is, q) \<leftarrow> gets_n n q;
     Some (i # is, q) }"

lemma gets_n_take:
  "pool_wf p \<Longrightarrow> n \<le> length (free_ids p) \<Longrightarrow> \<exists>q. gets_n n p = Some (take n (free_ids p), q) \<and> pool_wf q
    \<and> free_ids q = drop n (free_ids p) \<and> pool_cap q = pool_cap p"
proof (induction n arbitrary: p)
  case (Suc n)
  then obtain i F where F: "free_ids p = i # F" by (cases "free_ids p") auto
  obtain p' where p': "id_pool_get (Some p) = Some (i, Some p')" "pool_wf p'" "free_ids p' = F" "pool_cap p' = pool_cap p"
    using pool.get_law [OF Suc.prems(1) F] by blast
  have "\<exists>q. gets_n n p' = Some (take n F, q) \<and> pool_wf q \<and> free_ids q = drop n F \<and> pool_cap q = pool_cap p'"
    using Suc.IH [OF p'(2)] Suc.prems(2) F p'(3) by simp
  then show ?case using p' F by auto
qed simp

text \<open>
  A pool of \<open>n\<close> ids, created with \<open>id_pool_new\<close> when memory is available, gives out the ids
  1, 2, ..., \<open>n\<close> in this order; the call after that returns 0, the value that means failure.
\<close>

theorem id_pool_gives_all_ids:
  assumes "0 < sint n" "alloc_ok s (alloc_next s)"
  shows "\<exists>p s' q r. id_pool_new p0 n s = (VACCEL_OK, p, s')
    \<and> gets_n (nat (sint n)) p = Some (map int [1..<Suc (nat (sint n))], q)
    \<and> id_pool_get (Some q) = Some (0, Some r)"
proof -
  obtain p s' where p: "id_pool_new p0 n s = (VACCEL_OK, p, s')" "pool_wf p" "pool_cap p = sint n"
    "free_ids p = map int [1..<Suc (nat (sint n))]" using id_pool_new_ok [OF assms] by blast
  have len: "length (free_ids p) = nat (sint n)" using p(4) by simp
  obtain q where q: "gets_n (nat (sint n)) p = Some (take (nat (sint n)) (free_ids p), q)" "pool_wf q"
    "free_ids q = drop (nat (sint n)) (free_ids p)"
    using gets_n_take [OF p(2), of "nat (sint n)"] len by auto
  have all: "take (nat (sint n)) (free_ids p) = free_ids p" "free_ids q = []"
    using q(3) len by simp_all
  then have "id_pool_get (Some q) = Some (0, Some (q\<lparr>next_id := next_id q + 1\<rparr>))"
    using id_pool_get_exhausted [OF q(2)] by blast
  then show ?thesis using p(1,4) q(1) all(1) by (simp del: upt_Suc)
qed

theorem id_pool_gives_all_ids_witness:
  "\<exists>p s' q r. id_pool_new \<lparr>ids = Null, max_ids = 0, next_id = 0\<rparr> 3 calm_os = (VACCEL_OK, p, s')
    \<and> gets_n 3 p = Some ([1, 2, 3], q) \<and> id_pool_get (Some q) = Some (0, Some r)"
  using id_pool_gives_all_ids [of 3 calm_os "\<lparr>ids = Null, max_ids = 0, next_id = 0\<rparr>"]
  by (simp add: calm_os_def upt_rec)

text \<open>
  C3. Used by one thread the pool is a stack of free ids. \<open>id_pool_get\<close> pops the top; releasing an
  id that is in use pushes it, and the next \<open>id_pool_get\<close> returns it; releasing 0 or an id beyond
  the maximum does nothing.
\<close>

theorem id_pool_is_stack:
  assumes wf: "pool_wf p"
  shows "(free_ids p = [] \<or> (\<exists>q. id_pool_get (Some p) = Some (hd (free_ids p), Some q) \<and> pool_wf q
        \<and> free_ids q = tl (free_ids p) \<and> used_ids q = insert (hd (free_ids p)) (used_ids p)))
    \<and> (\<forall>i\<in>used_ids p. \<exists>q q'. id_pool_release (Some p) i = Some (Some q) \<and> pool_wf q
        \<and> free_ids q = i # free_ids p \<and> used_ids q = used_ids p - {i}
        \<and> id_pool_get (Some q) = Some (i, Some q') \<and> free_ids q' = free_ids p)
    \<and> (\<forall>i. i = 0 \<or> pool_cap p < i \<longrightarrow> id_pool_release (Some p) i = Some (Some p))"
proof (intro conjI ballI allI impI)
  show "free_ids p = [] \<or> (\<exists>q. id_pool_get (Some p) = Some (hd (free_ids p), Some q) \<and> pool_wf q
        \<and> free_ids q = tl (free_ids p) \<and> used_ids q = insert (hd (free_ids p)) (used_ids p))"
  proof (cases "free_ids p")
    case (Cons i F)
    then have ne: "free_ids p \<noteq> []" by simp
    obtain j q where q: "id_pool_get (Some p) = Some (j, Some q)" "pool_wf q"
      "used_ids q = insert j (used_ids p)" "free_ids p = j # free_ids q"
      using pool.get_fresh [OF wf ne] unfolding pool_used_ids by blast
    then show ?thesis using Cons by (intro disjI2 exI [of _ q]) simp
  qed simp
next
  fix i assume i: "i \<in> used_ids p"
  obtain q where q: "id_pool_release (Some p) i = Some (Some q)" "pool_wf q" "free_ids q = i # free_ids p"
    "used_ids q = used_ids p - {i}"
    using pool.put_used [OF wf] i unfolding pool_used_ids by blast
  moreover obtain q' where "id_pool_get (Some q) = Some (i, Some q')" "free_ids q' = free_ids p"
    using pool.get_law [OF q(2,3)] by blast
  ultimately show "\<exists>q q'. id_pool_release (Some p) i = Some (Some q) \<and> pool_wf q
        \<and> free_ids q = i # free_ids p \<and> used_ids q = used_ids p - {i}
        \<and> id_pool_get (Some q) = Some (i, Some q') \<and> free_ids q' = free_ids p" by blast
next
  fix i assume "i = 0 \<or> pool_cap p < i"
  then show "id_pool_release (Some p) i = Some (Some p)" by (auto simp: id_pool_release_def pool_cap_def)
qed

definition pool_of_2 :: id_pool where
  "pool_of_2 = \<lparr>ids = Live [1, 0], max_ids = 2, next_id = 1\<rparr>"

lemma pool_of_2: "pool_wf pool_of_2" "free_ids pool_of_2 = [2]" "used_ids pool_of_2 = {1}"
  by (auto simp: pool_of_2_def pool_wf_def free_ids_def pool_array_def slot_def pool_cap_def used_ids_def upt_rec)

theorem id_pool_is_stack_witness:
  "\<exists>q q'. id_pool_release (Some pool_of_2) 1 = Some (Some q) \<and> free_ids q = [1, 2]
    \<and> id_pool_get (Some q) = Some (1, Some q') \<and> free_ids q' = [2]"
  using id_pool_is_stack [OF pool_of_2(1)] pool_of_2(2,3) by auto

text \<open>
  \<open>id_pool_get\<close> moves the index even when the pool is exhausted. After one failed call every
  release of a valid id stores one element past the end of the array.
\<close>

theorem id_pool_release_after_failed_get:
  assumes "pool_wf p" "free_ids p = []" "sint (max_ids p) < 2 ^ 31 - 1" "0 < i" "i \<le> sint (max_ids p)"
  shows "\<exists>q. id_pool_get (Some p) = Some (0, Some q) \<and> id_pool_release (Some q) i = None"
proof -
  from assms(1) obtain a n where w: "ids p = Live a" "sint (max_ids p) = int (length a)"
    "sint (next_id p) = int n" "n \<le> length a" "free_ids p = map (slot a) [n..<length a]" by (rule pool_wfE)
  then have n: "n = length a" using assms(2) by (cases "a = []") auto
  let ?q = "p\<lparr>next_id := next_id p + 1\<rparr>"
  have "sint (next_id p + 1) = int (length a) + 1"
    using sint32_inc [of "next_id p"] w n assms(3) by simp
  then have "id_pool_release (Some ?q) i = None"
    by (intro id_pool_release_overrun [of _ a]) (use w assms in auto)
  then show ?thesis using id_pool_get_exhausted [OF assms(1,2)] by blast
qed

theorem id_pool_release_after_failed_get_witness:
  "\<exists>q. id_pool_get (Some \<lparr>ids = Live [1, 2], max_ids = 2, next_id = 2\<rparr>) = Some (0, Some q)
    \<and> id_pool_release (Some q) 1 = None"
  by (rule id_pool_release_after_failed_get)
    (simp_all add: pool_wf_def free_ids_def pool_array_def pool_cap_def)

end
