(* ===== verification/Id_Pool_Concurrent.thy ===== *)
theory Id_Pool_Concurrent
  imports Id_Pool
begin

text \<open>
  \<^verbatim>\<open>id_pool_get\<close> and \<^verbatim>\<open>id_pool_release\<close> run by concurrent threads: one step per atomic
  access of \<open>next\<close> (\<open>atomic_fetch_add\<close>, \<open>atomic_compare_exchange_strong\<close>) and one per access of
  the array between them. \<open>out\<close> holds the ids that have been returned and not yet given back.
  Shown: running a call without interruption is the sequential operation; gets alone never hand
  out an id twice, however they interleave, until the counter, which the calls that fail advance as well, wraps around; a get between the two steps of a release does; releases
  are lock free.
\<close>

datatype pc =
    Idle
  | Reading i32        \<comment> \<open>in get, after the fetch-and-add returned this index\<close>
  | Exchanging int i32 \<comment> \<open>in release of an id, with the expected value of next\<close>
  | Storing int i32    \<comment> \<open>in release of an id, after the exchange, before the store\<close>
  | Undefined          \<comment> \<open>after an access outside the array\<close>

record cstate =
  cpool :: id_pool
  pcs :: "nat \<Rightarrow> pc"
  out :: "int list"

text \<open>The counter wraps around behind its largest value, and a negative index passes the test against the size of the array.\<close>

inductive get_step :: "cstate \<Rightarrow> cstate \<Rightarrow> bool" where
  fetch_none: "pcs s t = Idle \<Longrightarrow> sint (max_ids (cpool s)) \<le> sint (next_id (cpool s)) \<Longrightarrow>
     get_step s (s\<lparr>cpool := (cpool s)\<lparr>next_id := next_id (cpool s) + 1\<rparr>\<rparr>)"
| fetch: "pcs s t = Idle \<Longrightarrow> sint (next_id (cpool s)) < sint (max_ids (cpool s)) \<Longrightarrow>
     get_step s (s\<lparr>cpool := (cpool s)\<lparr>next_id := next_id (cpool s) + 1\<rparr>,
       pcs := (pcs s)(t := Reading (next_id (cpool s)))\<rparr>)"
| read: "pcs s t = Reading ptr \<Longrightarrow> live_block (ids (cpool s)) = Some a \<Longrightarrow>
     array_index (sint ptr) a = Some i \<Longrightarrow> a' = (if a ! i = 0 then a[i := sint ptr + 1] else a) \<Longrightarrow>
     get_step s (s\<lparr>cpool := (cpool s)\<lparr>ids := Live a'\<rparr>, pcs := (pcs s)(t := Idle), out := a' ! i # out s\<rparr>)"
| outside: "pcs s t = Reading ptr \<Longrightarrow> live_block (ids (cpool s)) = Some a \<Longrightarrow> array_index (sint ptr) a = None \<Longrightarrow>
     get_step s (s\<lparr>pcs := (pcs s)(t := Undefined)\<rparr>)"

inductive release_step :: "cstate \<Rightarrow> cstate \<Rightarrow> bool" where
  load: "pcs s t = Idle \<Longrightarrow> vid \<in> set (out s) \<Longrightarrow> vid \<noteq> 0 \<Longrightarrow> vid \<le> sint (max_ids (cpool s)) \<Longrightarrow>
     release_step s (s\<lparr>pcs := (pcs s)(t := Exchanging vid (next_id (cpool s))), out := remove1 vid (out s)\<rparr>)"
| retry: "pcs s t = Exchanging vid cur \<Longrightarrow> next_id (cpool s) \<noteq> cur \<Longrightarrow>
     release_step s (s\<lparr>pcs := (pcs s)(t := Exchanging vid (next_id (cpool s)))\<rparr>)"
| exchange: "pcs s t = Exchanging vid cur \<Longrightarrow> next_id (cpool s) = cur \<Longrightarrow>
     release_step s (s\<lparr>cpool := (cpool s)\<lparr>next_id := cur - 1\<rparr>, pcs := (pcs s)(t := Storing vid (cur - 1))\<rparr>)"
| store: "pcs s t = Storing vid ptr \<Longrightarrow> live_block (ids (cpool s)) = Some a \<Longrightarrow>
     array_index (sint ptr) a = Some i \<Longrightarrow>
     release_step s (s\<lparr>cpool := (cpool s)\<lparr>ids := Live (a[i := vid])\<rparr>, pcs := (pcs s)(t := Idle)\<rparr>)"
| store_outside: "pcs s t = Storing vid ptr \<Longrightarrow> live_block (ids (cpool s)) = Some a \<Longrightarrow> array_index (sint ptr) a = None \<Longrightarrow>
     release_step s (s\<lparr>pcs := (pcs s)(t := Undefined)\<rparr>)"

inductive_cases get_stepE: "get_step s s'"
inductive_cases release_stepE: "release_step s s'"

definition gets :: "cstate \<Rightarrow> cstate \<Rightarrow> bool" where
  "gets = get_step\<^sup>*\<^sup>*"

text \<open>A run of gets with the number of indices fetched in it.\<close>

inductive fetches :: "nat \<Rightarrow> cstate \<Rightarrow> cstate \<Rightarrow> bool" where
  none: "fetches 0 s s"
| fetched: "fetches n s s' \<Longrightarrow> get_step s' s'' \<Longrightarrow> next_id (cpool s'') \<noteq> next_id (cpool s') \<Longrightarrow> fetches (Suc n) s s''"
| other: "fetches n s s' \<Longrightarrow> get_step s' s'' \<Longrightarrow> next_id (cpool s'') = next_id (cpool s') \<Longrightarrow> fetches n s s''"

lemma gets_fetches: "gets s s' \<longleftrightarrow> (\<exists>n. fetches n s s')"
proof
  show "\<exists>n. fetches n s s'" if "gets s s'"
    using that unfolding gets_def by (induction rule: rtranclp_induct) (use fetches.intros in \<open>blast+\<close>)
  show "gets s s'" if "\<exists>n. fetches n s s'"
  proof -
    from that obtain n where "fetches n s s'" by blast
    then show ?thesis by (induction rule: fetches.induct) (auto simp: gets_def intro: rtranclp.rtrancl_into_rtrancl)
  qed
qed

definition runs :: "cstate \<Rightarrow> cstate \<Rightarrow> bool" where
  "runs = (sup get_step release_step)\<^sup>*\<^sup>*"

subsection \<open>An uninterrupted call is the sequential operation\<close>

lemma get_uninterrupted:
  assumes wf: "pool_wf (cpool s)" and t: "pcs s t = Idle" and fr: "free_ids (cpool s) = i # F"
    and get: "id_pool_get (Some (cpool s)) = Some (i, Some p')"
  shows "gets s (s\<lparr>cpool := p', out := i # out s\<rparr>)"
proof -
  from wf obtain a n where w: "ids (cpool s) = Live a" "sint (max_ids (cpool s)) = int (length a)"
    "sint (next_id (cpool s)) = int n" "n \<le> length a"
    "free_ids (cpool s) = map (slot a) [n..<length a]" by (rule pool_wfE)
  have n: "n < length a" using fr w(4,5) by (cases "n = length a") auto
  let ?s1 = "s\<lparr>cpool := (cpool s)\<lparr>next_id := next_id (cpool s) + 1\<rparr>,
       pcs := (pcs s)(t := Reading (next_id (cpool s)))\<rparr>"
  let ?a = "if a ! n = 0 then a[n := int n + 1] else a"
  have "get_step s ?s1" by (rule get_step.fetch) (use t w n in auto)
  moreover have "get_step ?s1 (?s1\<lparr>cpool := (cpool ?s1)\<lparr>ids := Live ?a\<rparr>,
      pcs := (pcs ?s1)(t := Idle), out := ?a ! n # out ?s1\<rparr>)"
    by (rule get_step.read [where ptr = "next_id (cpool s)" and a = a]) (use w n in auto)
  moreover have "p' = (cpool s)\<lparr>next_id := next_id (cpool s) + 1, ids := Live ?a\<rparr>" "i = ?a ! n"
    using get w n by (auto simp: id_pool_get_def Let_def array_index_def)
  moreover have "(pcs s)(t := Idle) = pcs s" using t by auto
  ultimately have "get_step s ?s1" "get_step ?s1 (s\<lparr>cpool := p', out := i # out s\<rparr>)"
    by simp_all
  then show ?thesis unfolding gets_def by (meson converse_rtranclp_into_rtranclp r_into_rtranclp)
qed

lemma release_uninterrupted:
  assumes wf: "pool_wf (cpool s)" and t: "pcs s t = Idle" and i: "i \<in> used_ids (cpool s)" "i \<in> set (out s)"
    and rel: "id_pool_release (Some (cpool s)) i = Some (Some p')"
  shows "runs s (s\<lparr>cpool := p', out := remove1 i (out s)\<rparr>)"
proof -
  from wf obtain a n where w: "ids (cpool s) = Live a" "sint (max_ids (cpool s)) = int (length a)"
    "sint (next_id (cpool s)) = int n" "n \<le> length a" by (rule pool_wfE)
  have ir: "1 \<le> i" "i \<le> int (length a)" using i(1) w(2) by (auto simp: used_ids_def pool_cap_def)
  obtain m where n: "n = Suc m" using used_ids_pos_next [OF wf i(1)] w(3) by (cases n) auto
  let ?c = "next_id (cpool s)"
  have dec: "sint (?c - 1) = int m" using sint32_dec [of ?c] w(3) n by simp
  let ?s1 = "s\<lparr>pcs := (pcs s)(t := Exchanging i ?c), out := remove1 i (out s)\<rparr>"
  let ?s2 = "?s1\<lparr>cpool := (cpool ?s1)\<lparr>next_id := ?c - 1\<rparr>, pcs := (pcs ?s1)(t := Storing i (?c - 1))\<rparr>"
  have "release_step s ?s1" by (rule release_step.load) (use t i ir w in auto)
  moreover have "release_step ?s1 ?s2" by (rule release_step.exchange) auto
  moreover have "release_step ?s2 (?s2\<lparr>cpool := (cpool ?s2)\<lparr>ids := Live (a[m := i])\<rparr>, pcs := (pcs ?s2)(t := Idle)\<rparr>)"
    by (rule release_step.store [where vid = i and ptr = "?c - 1"]) (use w n dec in auto)
  moreover have "p' = (cpool s)\<lparr>next_id := ?c - 1, ids := Live (a[m := i])\<rparr>"
    using rel w n dec ir by (auto simp: id_pool_release_def Let_def array_index_def)
  moreover have "?s2\<lparr>cpool := p', pcs := (pcs ?s2)(t := Idle)\<rparr> = s\<lparr>cpool := p', out := remove1 i (out s)\<rparr>"
    using t by (intro cstate.equality) auto
  ultimately have "release_step s ?s1" "release_step ?s1 ?s2"
    "release_step ?s2 (s\<lparr>cpool := p', out := remove1 i (out s)\<rparr>)" by auto
  then have "(sup get_step release_step)\<^sup>*\<^sup>* s (s\<lparr>cpool := p', out := remove1 i (out s)\<rparr>)"
    by (meson converse_rtranclp_into_rtranclp r_into_rtranclp sup2I2)
  then show ?thesis by (simp add: runs_def)
qed

subsection \<open>Concurrent gets\<close>

text \<open>
  The invariant: slots never change what they give out; the indices fetched so far are held by
  at most one reading thread each, or have been turned into an id of \<open>out\<close>.
\<close>

definition gets_inv :: "int list \<Rightarrow> nat \<Rightarrow> int list \<Rightarrow> nat list \<Rightarrow> cstate \<Rightarrow> bool" where
  "gets_inv a0 n0 out0 K s \<longleftrightarrow>
     (\<exists>a. ids (cpool s) = Live a \<and> slot a = slot a0 \<and> length a = length a0)
     \<and> sint (max_ids (cpool s)) = int (length a0) \<and> int n0 \<le> sint (next_id (cpool s))
     \<and> out s = map (slot a0) K @ out0 \<and> distinct K
     \<and> (\<forall>k \<in> set K. n0 \<le> k \<and> k < length a0 \<and> int k < sint (next_id (cpool s)))
     \<and> (\<forall>t ptr. pcs s t = Reading ptr \<longrightarrow> (\<exists>k. sint ptr = int k \<and> n0 \<le> k \<and> k < length a0
          \<and> int k < sint (next_id (cpool s)) \<and> k \<notin> set K))
     \<and> (\<forall>t t' ptr. pcs s t = Reading ptr \<longrightarrow> pcs s t' = Reading ptr \<longrightarrow> t = t')
     \<and> (\<forall>t. pcs s t \<noteq> Undefined)"

lemma get_step_inv:
  assumes "get_step s s'" "gets_inv a0 n0 out0 K s" "sint (next_id (cpool s)) < 2 ^ 31 - 1 \<or> next_id (cpool s') = next_id (cpool s)"
  shows "\<exists>K'. gets_inv a0 n0 out0 K' s'"
  using assms
proof (cases rule: get_step.cases)
  case (fetch_none t)
  have "sint (next_id (cpool s) + 1) = sint (next_id (cpool s)) + 1"
    by (rule sint32_inc) (use assms(3) fetch_none(1) in auto)
  then have "gets_inv a0 n0 out0 K s'" using assms(2) fetch_none(1) unfolding gets_inv_def
    by fastforce
  then show ?thesis by blast
next
  case (fetch t)
  note I = assms(2) [unfolded gets_inv_def]
  define n where "n = nat (sint (next_id (cpool s)))"
  have n: "sint (next_id (cpool s)) = int n" "n0 \<le> n" using I by (auto simp: n_def)
  have nl: "n < length a0" using fetch(3) I n(1) by simp
  have inc: "sint (next_id (cpool s) + 1) = int n + 1"
    using sint32_inc [of "next_id (cpool s)"] fetch(3) sint32_range [of "max_ids (cpool s)"] n(1) by simp
  have fresh: "pcs s t' \<noteq> Reading (next_id (cpool s))" for t' using I n(1) by fastforce
  have nK: "n \<notin> set K" using I n(1) by fastforce
  have old: "\<exists>k. sint ptr = int k \<and> n0 \<le> k \<and> k < length a0 \<and> int k < int n + 1 \<and> k \<notin> set K"
    if "pcs s t' = Reading ptr" for t' ptr using I that n(1) by fastforce
  have "gets_inv a0 n0 out0 K s'"
    unfolding gets_inv_def fetch(1) using I n nl inc nK fresh old by (auto split: if_splits)
  then show ?thesis by blast
next
  case (read t ptr a i a')
  note I = assms(2) [unfolded gets_inv_def]
  have a: "ids (cpool s) = Live a" using read(3) by (cases "ids (cpool s)") auto
  have ai: "slot a = slot a0" "length a = length a0" using I a by auto
  have i: "sint ptr = int i" "i < length a" using read(4) by auto
  have pi: "n0 \<le> i" "int i < sint (next_id (cpool s))" "i \<notin> set K"
  proof -
    obtain k where "sint ptr = int k" "n0 \<le> k" "int k < sint (next_id (cpool s))" "k \<notin> set K"
      using I read(2) by blast
    then show "n0 \<le> i" "int i < sint (next_id (cpool s))" "i \<notin> set K" using i(1) by auto
  qed
  have a': "slot a' = slot a0" "length a' = length a0"
    using read(5) i ai slot_update_own [of a i] by (auto simp: fun_eq_iff)
  have "a' ! i = slot a i" using read(5) i by (simp add: slot_def)
  then have a'i: "a' ! i = slot a0 i" using ai(1) by simp
  have other: "k \<noteq> i" if "t' \<noteq> t" "pcs s t' = Reading ptr'" "sint ptr' = int k" for t' ptr' k
    using that I read(2) i(1) by (metis signed_word_eqI)
  have keep: "\<exists>k. sint ptr' = int k \<and> n0 \<le> k \<and> k < length a0 \<and> int k < sint (next_id (cpool s)) \<and> k \<notin> set (i # K)"
    if "t' \<noteq> t" "pcs s t' = Reading ptr'" for t' ptr' using I that other [OF that] by fastforce
  have "gets_inv a0 n0 out0 (i # K) s'"
    unfolding gets_inv_def read(1) using I i pi a' a'i ai keep by (auto split: if_splits)
  then show ?thesis by blast
next
  case (outside t ptr a)
  note I = assms(2) [unfolded gets_inv_def]
  have "ids (cpool s) = Live a" using outside(3) by (cases "ids (cpool s)") auto
  then have "length a = length a0" using I by auto
  moreover obtain k where "sint ptr = int k" "k < length a0" using I outside(2) by blast
  ultimately show ?thesis using outside(4) by (simp add: array_index_def)
qed

lemma get_step_next: "get_step s s' \<Longrightarrow> next_id (cpool s') \<noteq> next_id (cpool s) \<Longrightarrow> next_id (cpool s') = next_id (cpool s) + 1"
  by (erule get_step.cases) auto

lemma fetches_keep_inv:
  assumes "fetches n s s'" "gets_inv a0 n0 out0 K s" "sint (next_id (cpool s)) + int n < 2 ^ 31"
  shows "(\<exists>K'. gets_inv a0 n0 out0 K' s') \<and> sint (next_id (cpool s')) = sint (next_id (cpool s)) + int n"
  using assms
proof (induction rule: fetches.induct)
  case (fetched n s s' s'')
  then have IH: "\<exists>K'. gets_inv a0 n0 out0 K' s'" "sint (next_id (cpool s')) = sint (next_id (cpool s)) + int n" by auto
  have l: "sint (next_id (cpool s')) < 2 ^ 31 - 1" using IH(2) fetched.prems(2) by simp
  have "sint (next_id (cpool s'')) = sint (next_id (cpool s')) + 1"
    unfolding get_step_next [OF fetched.hyps(2,3)] by (rule sint32_inc [OF l])
  then show ?case using IH get_step_inv [OF fetched.hyps(2)] l by auto
next
  case (other n s s' s'')
  then show ?case using get_step_inv [OF other.hyps(2)] by auto
qed auto

text \<open>
  However gets interleave, every id they return is new: different from all ids returned and from
  all ids that were out at the start, and within the pool's range.
\<close>

lemma gets_unique:
  assumes wf: "pool_wf (cpool s)" and idle: "\<And>t. pcs s t = Idle"
    and out: "distinct (out s)" "set (out s) \<subseteq> used_ids (cpool s)" and run: "fetches m s s'" and few: "sint (next_id (cpool s)) + int m < 2 ^ 31"
  shows "distinct (out s') \<and> set (out s') \<subseteq> {1..pool_cap (cpool s)} \<and> (\<forall>t. pcs s' t \<noteq> Undefined)"
proof -
  from wf obtain a n where w: "ids (cpool s) = Live a" "sint (max_ids (cpool s)) = int (length a)"
    "sint (next_id (cpool s)) = int n" "n \<le> length a" "free_ids (cpool s) = map (slot a) [n..<length a]"
    "distinct (map (slot a) [n..<length a])" "set (map (slot a) [n..<length a]) \<subseteq> {1..int (length a)}"
    by (rule pool_wfE)
  have "gets_inv a n (out s) [] s" using w idle by (auto simp: gets_inv_def)
  from fetches_keep_inv [OF run this few] obtain K where K: "gets_inv a n (out s) K s'" by blast
  have o: "out s' = map (slot a) K @ out s" "distinct K" "set K \<subseteq> {n..<length a}"
    using K by (auto simp: gets_inv_def)
  have inj: "inj_on (slot a) {n..<length a}" using w(6) by (simp add: distinct_map)
  have "distinct (map (slot a) K)" using o(2,3) inj by (auto simp: distinct_map intro: inj_on_subset)
  moreover have sub: "slot a ` set K \<subseteq> set (free_ids (cpool s))" using o(3) w(5) by auto
  moreover have "set (free_ids (cpool s)) \<inter> set (out s) = {}" using out(2) by (auto simp: used_ids_def)
  ultimately have "distinct (out s')" using o(1) out(1) by (auto simp: image_subset_iff)
  moreover have "set (out s') \<subseteq> {1..pool_cap (cpool s)}"
    using o(1) sub w(2,5,7) out(2) by (auto simp: used_ids_def pool_cap_def)
  moreover have "\<forall>t. pcs s' t \<noteq> Undefined" using K by (simp add: gets_inv_def)
  ultimately show ?thesis by blast
qed

subsection \<open>A get between the two steps of a release\<close>

text \<open>
  Thread 0 releases id 1 of a pool of two that is fully given out; between its exchange and its
  store, thread 1 gets: it reads the slot the store has not reached and is given id 2, which is
  still in use.
\<close>

definition race_start :: cstate where
  "race_start = \<lparr>cpool = \<lparr>ids = Live [1, 2], max_ids = 2, next_id = 2\<rparr>, pcs = (\<lambda>_. Idle), out = [2, 1]\<rparr>"

definition race_end :: cstate where
  "race_end = \<lparr>cpool = \<lparr>ids = Live [1, 2], max_ids = 2, next_id = 2\<rparr>,
     pcs = (\<lambda>_. Idle)(0 := Storing 1 1), out = [2, 2]\<rparr>"

lemma race_run: "runs race_start race_end"
proof -
  let ?p = "\<lparr>ids = Live [1, 2], max_ids = 2, next_id = 2\<rparr>" and ?q = "\<lparr>ids = Live [1, 2], max_ids = 2, next_id = 1\<rparr>"
  define s1 where "s1 = \<lparr>cpool = ?p, pcs = (\<lambda>_. Idle)(0 := Exchanging 1 2), out = [2]\<rparr>"
  define s2 where "s2 = \<lparr>cpool = ?q, pcs = (\<lambda>_. Idle)(0 := Storing 1 1), out = [2]\<rparr>"
  define s3 where "s3 = \<lparr>cpool = ?p, pcs = (\<lambda>_. Idle)(0 := Storing 1 1, 1 := Reading 1), out = [2]\<rparr>"
  have 1: "release_step race_start s1"
    using release_step.load [of race_start 0 1] by (simp add: race_start_def s1_def)
  have 2: "release_step s1 s2"
    using release_step.exchange [of s1 0 1 2] by (simp add: s1_def s2_def)
  have 3: "get_step s2 s3"
    using get_step.fetch [of s2 1] by (simp add: s2_def s3_def)
  have idle1: "(\<lambda>_. Idle)(Suc 0 := Idle, 0 := Storing 1 1) = (\<lambda>_. Idle)(0 := Storing 1 1)" by auto
  have 4: "get_step s3 race_end"
    using get_step.read [of s3 1 1 "[1, 2]" 1 "[1, 2]"]
    by (simp add: s3_def race_end_def array_index_def fun_upd_twist idle1)
  have "(sup get_step release_step) race_start s1" "(sup get_step release_step) s1 s2"
    "(sup get_step release_step) s2 s3" "(sup get_step release_step) s3 race_end"
    using 1 2 3 4 by auto
  then show ?thesis unfolding runs_def by (meson converse_rtranclp_into_rtranclp r_into_rtranclp)
qed

lemma race_start_ok:
  "pool_wf (cpool race_start)" "distinct (out race_start)"
  "set (out race_start) \<subseteq> used_ids (cpool race_start)" "pcs race_start t = Idle"
  by (auto simp: race_start_def pool_wf_def free_ids_def pool_cap_def used_ids_def)

subsection \<open>Releases do not block each other\<close>

text \<open>
  A run of threads of \<open>T\<close>, with the number of failed exchanges and the number of steps that move the
  index. A thread that holds an index read before the last move is stale: its next exchange fails.
\<close>

definition step :: "cstate \<Rightarrow> cstate \<Rightarrow> bool" where
  "step s s' \<longleftrightarrow> get_step s s' \<or> release_step s s'"

definition active :: "cstate \<Rightarrow> nat set" where
  "active s = {t. pcs s t \<noteq> Idle}"

definition stale_thread :: "cstate \<Rightarrow> nat \<Rightarrow> bool" where
  "stale_thread s t \<longleftrightarrow> (\<exists>vid cur. pcs s t = Exchanging vid cur \<and> next_id (cpool s) \<noteq> cur)"

definition retries :: "cstate \<Rightarrow> cstate \<Rightarrow> bool" where
  "retries s s' \<longleftrightarrow> (\<exists>t vid cur. pcs s t = Exchanging vid cur \<and> next_id (cpool s) \<noteq> cur
     \<and> s' = s\<lparr>pcs := (pcs s)(t := Exchanging vid (next_id (cpool s)))\<rparr>)"

inductive counted :: "nat set \<Rightarrow> nat \<Rightarrow> nat \<Rightarrow> cstate \<Rightarrow> cstate \<Rightarrow> bool" for T where
  start: "counted T 0 0 s s"
| retried: "counted T r m s s' \<Longrightarrow> retries s' s'' \<Longrightarrow> counted T (Suc r) m s s''"
| moved: "counted T r m s s' \<Longrightarrow> step s' s'' \<Longrightarrow> next_id (cpool s'') \<noteq> next_id (cpool s') \<Longrightarrow> active s'' \<subseteq> T \<Longrightarrow> counted T r (Suc m) s s''"
| kept: "counted T r m s s' \<Longrightarrow> step s' s'' \<Longrightarrow> next_id (cpool s'') = next_id (cpool s') \<Longrightarrow> \<not> retries s' s'' \<Longrightarrow> active s'' \<subseteq> T
    \<Longrightarrow> counted T r m s s''"

lemma retries_step: "retries s s' \<Longrightarrow> step s s'"
  by (auto simp: retries_def step_def intro: release_step.retry)

lemma stale_active: "{t. stale_thread s t} \<subseteq> active s"
  by (auto simp: stale_thread_def active_def)

lemma stale_retried:
  assumes "retries s s'" "finite T" "active s \<subseteq> T"
  shows "Suc (card {t. stale_thread s' t}) = card {t. stale_thread s t}" "active s' = active s"
proof -
  from assms(1) obtain t vid cur where t: "pcs s t = Exchanging vid cur" "next_id (cpool s) \<noteq> cur"
    "s' = s\<lparr>pcs := (pcs s)(t := Exchanging vid (next_id (cpool s)))\<rparr>" unfolding retries_def by blast
  have "stale_thread s t" using t(1,2) by (simp add: stale_thread_def)
  moreover have "{u. stale_thread s' u} = {u. stale_thread s u} - {t}" by (auto simp: stale_thread_def t(3))
  moreover have "finite {u. stale_thread s u}" using stale_active assms(2,3) by (meson finite_subset)
  ultimately show "Suc (card {t. stale_thread s' t}) = card {t. stale_thread s t}"
    by (metis (no_types, lifting) card_Suc_Diff1 mem_Collect_eq)
  show "active s' = active s" using t by (auto simp: active_def)
qed

lemma stale_kept:
  assumes "step s s'" "next_id (cpool s') = next_id (cpool s)" "stale_thread s' t"
  shows "stale_thread s t"
  using assms unfolding step_def stale_thread_def
  by (elim disjE get_step.cases release_step.cases) (auto split: if_splits)

lemma stale_bound: "finite T \<Longrightarrow> active s \<subseteq> T \<Longrightarrow> card {t. stale_thread s t} \<le> card T"
  by (rule card_mono) (auto simp: stale_thread_def active_def)

lemma counted_retries:
  assumes "counted T r m s s'" "finite T" "active s \<subseteq> T"
  shows "r + card {t. stale_thread s' t} \<le> card {t. stale_thread s t} + card T * m \<and> active s' \<subseteq> T"
  using assms
proof (induction rule: counted.induct)
  case (retried r m s s' s'')
  then show ?case using stale_retried [OF retried.hyps(2) retried.prems(1)] by simp
next
  case (moved r m s s' s'')
  then show ?case using stale_bound [OF moved.prems(1) moved.hyps(4)] by simp
next
  case (kept r m s s' s'')
  have "finite {t. stale_thread s' t}"
    using stale_active [of s'] kept by (meson finite_subset)
  then have "card {t. stale_thread s'' t} \<le> card {t. stale_thread s' t}"
    using stale_kept [OF kept.hyps(2,3)] by (intro card_mono) auto
  then show ?case using kept by simp
qed simp

subsection \<open>Properties\<close>

text \<open>
  C4. Threads that only call \<open>id_pool_get\<close>, starting from a consistent pool, are never given the same id twice, nor an id that was already out,
  every id lies in the range of the pool and no access leaves its array, however their atomic steps interleave, as long as the counter does not
  pass the largest \<^verbatim>\<open>int\<close>: the calls, the failing ones included, are fewer than \<open>2\<^sup>3\<^sup>1\<close> in all.
\<close>

theorem concurrent_gets_unique:
  assumes "pool_wf (cpool s)" "\<And>t. pcs s t = Idle" "distinct (out s)" "set (out s) \<subseteq> used_ids (cpool s)" "fetches n s s'"
    "sint (next_id (cpool s)) + int n < 2 ^ 31"
  shows "distinct (out s') \<and> set (out s') \<subseteq> {1..pool_cap (cpool s)} \<and> (\<forall>t. pcs s' t \<noteq> Undefined)"
  by (rule gets_unique [OF assms])

definition fresh_2 :: cstate where
  "fresh_2 = \<lparr>cpool = \<lparr>ids = Live [0, 0], max_ids = 2, next_id = 0\<rparr>, pcs = (\<lambda>_. Idle), out = []\<rparr>"

definition both_2 :: cstate where
  "both_2 = \<lparr>cpool = \<lparr>ids = Live [1, 2], max_ids = 2, next_id = 2\<rparr>, pcs = (\<lambda>_. Idle), out = [1, 2]\<rparr>"

text \<open>Two overlapping gets: both fetch an index, then the second one reads first.\<close>

lemma two_gets: "fetches 2 fresh_2 both_2"
proof -
  define s1 where "s1 = \<lparr>cpool = \<lparr>ids = Live [0, 0], max_ids = 2, next_id = 1\<rparr>, pcs = (\<lambda>_. Idle)(0 := Reading 0), out = []\<rparr>"
  define s2 where "s2 = \<lparr>cpool = \<lparr>ids = Live [0, 0], max_ids = 2, next_id = 2\<rparr>,
    pcs = (\<lambda>_. Idle)(0 := Reading 0, 1 := Reading 1), out = []\<rparr>"
  define s3 where "s3 = \<lparr>cpool = \<lparr>ids = Live [0, 2], max_ids = 2, next_id = 2\<rparr>,
    pcs = (\<lambda>_. Idle)(0 := Reading 0), out = [2]\<rparr>"
  have idle: "(\<lambda>_. Idle)(0 := Reading 0, Suc 0 := Idle) = (\<lambda>_. Idle)(0 := Reading 0)"
    "(\<lambda>_::nat. Idle)(0 := Idle) = (\<lambda>_. Idle)" by auto
  have 1: "get_step fresh_2 s1" using get_step.fetch [of fresh_2 0] by (simp add: fresh_2_def s1_def)
  have 2: "get_step s1 s2" using get_step.fetch [of s1 1] by (simp add: s1_def s2_def)
  have 3: "get_step s2 s3" using get_step.read [of s2 1 1 "[0, 0]" 1 "[0, 2]"]
    by (simp add: s2_def s3_def array_index_def idle)
  have 4: "get_step s3 both_2" using get_step.read [of s3 0 0 "[0, 2]" 0 "[1, 2]"]
    by (simp add: s3_def both_2_def array_index_def idle)
  have "fetches 1 fresh_2 s1" using fetches.fetched [OF fetches.none 1] by (simp add: fresh_2_def s1_def)
  then have "fetches 2 fresh_2 s2" using fetches.fetched [OF _ 2] by (simp add: s1_def s2_def numeral_2_eq_2)
  then have "fetches 2 fresh_2 s3" using fetches.other [OF _ 3] by (simp add: s2_def s3_def)
  then show ?thesis using fetches.other [OF _ 4] by (simp add: s3_def both_2_def)
qed

theorem concurrent_gets_unique_witness:
  "fetches 2 fresh_2 both_2 \<and> distinct (out both_2) \<and> set (out both_2) \<subseteq> {1..2}"
proof -
  have "pool_cap (cpool fresh_2) = 2" by (simp add: fresh_2_def pool_cap_def)
  moreover have "distinct (out both_2) \<and> set (out both_2) \<subseteq> {1..pool_cap (cpool fresh_2)} \<and> (\<forall>t. pcs both_2 t \<noteq> Undefined)"
    by (rule concurrent_gets_unique [OF _ _ _ _ two_gets])
      (simp_all add: fresh_2_def pool_wf_def free_ids_def pool_array_def slot_def pool_cap_def upt_rec)
  ultimately show ?thesis using two_gets by simp
qed

text \<open>
  The bound on the calls is needed: with the counter of an exhausted pool at its largest value, a failing get wraps it around, and the next get
  reads before the array.
\<close>

theorem get_wraps_around:
  assumes "ids (cpool s) = Live a" "pcs s t = Idle" "next_id (cpool s) = 0x7FFFFFFF" "0 \<le> sint (max_ids (cpool s))"
  shows "\<exists>s'. gets s s' \<and> pcs s' t = Undefined"
proof -
  let ?s1 = "s\<lparr>cpool := (cpool s)\<lparr>next_id := 0x80000000\<rparr>\<rparr>"
  let ?s2 = "?s1\<lparr>cpool := (cpool ?s1)\<lparr>next_id := 0x80000001\<rparr>, pcs := (pcs s)(t := Reading 0x80000000)\<rparr>"
  have big: "sint (0x7FFFFFFF :: i32) = 2 ^ 31 - 1" "sint (0x80000000 :: i32) = - (2 ^ 31)" by code_simp+
  have "get_step s ?s1" using get_step.fetch_none [of s t] assms(2,3) big(1) sint32_range [of "max_ids (cpool s)"] by simp
  moreover have "get_step ?s1 ?s2" using get_step.fetch [of ?s1 t] assms(2,4) big(2) by simp
  moreover have "get_step ?s2 (?s2\<lparr>pcs := (pcs ?s2)(t := Undefined)\<rparr>)"
    by (rule get_step.outside [of _ _ "0x80000000" a]) (use assms(1) big(2) in \<open>simp_all add: array_index_def\<close>)
  ultimately have "gets s (?s2\<lparr>pcs := (pcs ?s2)(t := Undefined)\<rparr>)"
    unfolding gets_def by (meson converse_rtranclp_into_rtranclp r_into_rtranclp)
  then show ?thesis by (intro exI [of _ "?s2\<lparr>pcs := (pcs ?s2)(t := Undefined)\<rparr>"]) simp
qed

text \<open>
  A release is two steps, the exchange of the index and the store of the id. A thread that gets
  an id between them is given an id that another user still holds: from a consistent pool of two
  ids, both in use, releasing 1 while another thread gets ends with id 2 handed out twice.
\<close>

theorem release_race_duplicates:
  "runs race_start race_end \<and> pool_wf (cpool race_start) \<and> distinct (out race_start)
    \<and> set (out race_start) = used_ids (cpool race_start) \<and> out race_end = [2, 2]"
  using race_run race_start_ok
  by (auto simp: race_start_def race_end_def free_ids_def pool_cap_def used_ids_def)

text \<open>
  C19. Releases are lock free: in a run of finitely many threads the exchange of \<open>id_pool_release\<close> fails at most once for each thread and each time
  that some thread moves the index, and once for each thread that was stale at the start; while the index stays where it is the retries end. A thread
  at the exchange is never blocked, and alone it is past it after two steps.
\<close>

theorem release_lock_free:
  assumes "counted T r m s s'" "finite T" "active s \<subseteq> T"
  shows "r \<le> card T * Suc m
    \<and> (\<forall>t vid cur. pcs s' t = Exchanging vid cur \<longrightarrow> (\<exists>u n. (release_step ^^ n) s' u \<and> n \<le> 2 \<and> pcs u t = Storing vid (next_id (cpool s') - 1)))"
proof -
  have "r \<le> card T * Suc m" using counted_retries [OF assms] stale_bound [OF assms(2,3)] by simp
  moreover have "\<exists>u n. (release_step ^^ n) s' u \<and> n \<le> 2 \<and> pcs u t = Storing vid (next_id (cpool s') - 1)"
    if t: "pcs s' t = Exchanging vid cur" for t vid cur
  proof -
    have last: "\<exists>u. release_step v u \<and> pcs u t = Storing vid (next_id (cpool v) - 1)" if "pcs v t = Exchanging vid (next_id (cpool v))" for v
      using release_step.exchange [OF that refl] by auto
    show ?thesis
    proof (cases "next_id (cpool s') = cur")
      case True
      then show ?thesis using last [of s'] t by (metis One_nat_def one_le_numeral relpowp_1)
    next
      case False
      let ?v = "s'\<lparr>pcs := (pcs s')(t := Exchanging vid (next_id (cpool s')))\<rparr>"
      have 1: "release_step s' ?v" by (rule release_step.retry [OF t False])
      obtain u where u: "release_step ?v u" "pcs u t = Storing vid (next_id (cpool s') - 1)" using last [of ?v] by auto
      have "(release_step ^^ 2) s' u" using 1 u(1) by (auto simp: numeral_2_eq_2)
      then show ?thesis using u(2) by blast
    qed
  qed
  ultimately show ?thesis by blast
qed

text \<open>Thread 0 has read the index 2 for a release when thread 1 has moved it: one exchange fails.\<close>

theorem release_lock_free_witness:
  "\<exists>s s'. counted {0, 1} 1 1 s s' \<and> pcs s 0 = Exchanging 1 2 \<and> 1 \<le> card {0, 1 :: nat} * Suc 1"
proof -
  let ?p = "\<lambda>n. \<lparr>ids = Live [1, 2, 3], max_ids = 3, next_id = n\<rparr>"
  define s0 where "s0 = \<lparr>cpool = ?p 2, pcs = (\<lambda>_. Idle)(0 := Exchanging 1 2), out = [2]\<rparr>"
  define s1 where "s1 = \<lparr>cpool = ?p 3, pcs = (\<lambda>_. Idle)(0 := Exchanging 1 2, 1 := Reading 2), out = [2]\<rparr>"
  define s2 where "s2 = \<lparr>cpool = ?p 3, pcs = (\<lambda>_. Idle)(0 := Exchanging 1 3, 1 := Reading 2), out = [2]\<rparr>"
  have "get_step s0 s1" using get_step.fetch [of s0 1] by (simp add: s0_def s1_def)
  moreover have "active s1 \<subseteq> {0, 1}" "next_id (cpool s1) \<noteq> next_id (cpool s0)" by (auto simp: active_def s0_def s1_def split: if_splits)
  ultimately have "counted {0, 1} 0 1 s0 s1"
    using counted.moved [OF counted.start, of s0 s1 "{0, 1}"] by (simp add: step_def)
  moreover have "retries s1 s2"
    unfolding retries_def by (intro exI [of _ 0] exI [of _ 1] exI [of _ 2]) (simp add: s1_def s2_def fun_upd_twist)
  ultimately have c: "counted {0, 1} 1 1 s0 s2" using counted.retried by fastforce
  have "1 \<le> card {0, 1 :: nat} * Suc 1" using release_lock_free [OF c] by (auto simp: active_def s0_def)
  then show ?thesis using c by (intro exI [of _ s0] exI [of _ s2]) (simp add: s0_def)
qed

end
