(* ===== verification/Runtime.thy ===== *)
theory Runtime
  imports Libc
begin

text \<open>
  The state every component shares (the operating system and the runtime directory of
  \<^verbatim>\<open>src/src/vaccel.c\<close>), the helpers of \<^verbatim>\<open>src/src/utils.c\<close>, and the structures that cross
  component interfaces: \<open>struct vaccel_session\<close> and \<open>struct vaccel_plugin_info\<close>. The state of a
  component extends the record of the components it calls, so an operation never sees the fields
  of the components above it.
\<close>

subsection \<open>Shared state\<close>

record rt_state =
  os :: os_state
  rundir :: string

definition vaccel_rundir :: "'z rt_state_scheme \<Rightarrow> string" where
  "vaccel_rundir s = rundir s"

text \<open>Running a library call on the operating system part of the state.\<close>

definition os_call :: "(os_state \<Rightarrow> 'r \<times> os_state) \<Rightarrow> 'z rt_state_scheme \<Rightarrow> 'r \<times> 'z rt_state_scheme" where
  "os_call f s = (let (r, o') = f (os s) in (r, s\<lparr>os := o'\<rparr>))"

definition next_host_call :: "'z rt_state_scheme \<Rightarrow> nat \<times> 'z rt_state_scheme" where
  "next_host_call s = (host_next (os s), s\<lparr>os := (os s)\<lparr>host_next := Suc (host_next (os s))\<rparr>\<rparr>)"

subsection \<open>utils.c\<close>

definition dir_exists :: "string \<Rightarrow> os_state \<Rightarrow> bool \<times> os_state" where
  "dir_exists path s = opendir path s"

definition cleanup_rundir :: "string \<Rightarrow> os_state \<Rightarrow> int \<times> os_state" where
  "cleanup_rundir path s = (let (r, s) = rmdir path s in
     if r \<noteq> 0 then (errno s, s) else (VACCEL_OK, s))"

text \<open>
  \<open>read_file\<close> maps the file; its out-parameters are the pair of data pointer and size, given back
  unchanged when it fails. The mapping is tested against NULL, which \<open>mmap\<close> does not return on
  failure. (A directory can be opened and has a size, but cannot be mapped.)
\<close>

definition read_file :: "string \<Rightarrow> dataptr \<times> nat \<Rightarrow> os_state \<Rightarrow> int \<times> (dataptr \<times> nat) \<times> os_state" where
  "read_file path d s = (let (e, s) = sys_call s in
     if e \<noteq> 0 then (int e, d, s\<lparr>errno := int e\<rparr>)
     else case node s path of
       None \<Rightarrow> (VACCEL_ENOENT, d, s\<lparr>errno := VACCEL_ENOENT\<rparr>)
     | Some n \<Rightarrow>
        (let (e, s) = sys_call s in
         if e \<noteq> 0 then (int e, d, s\<lparr>errno := int e\<rparr>)
         else (let (p, s) = (case n of File bs \<Rightarrow> mmap_file bs s
                   | Dir \<Rightarrow> (Map_Failed, s\<lparr>errno := VACCEL_ENODEV\<rparr>));
                   sz = (case n of File bs \<Rightarrow> length bs | Dir \<Rightarrow> 4096)
               in if p = DNull then (VACCEL_ENOMEM, d, s) else (0, (p, sz), s))))"

lemma dir_exists_fs [simp]: "fs (snd (dir_exists p s)) = fs s"
  by (auto simp: dir_exists_def opendir_def sys_call_def Let_def)

lemma read_file_fs: "read_file path d s = (r, d', s') \<Longrightarrow> fs s' = fs s \<and> strs s' = strs s"
  by (auto simp: read_file_def sys_call_def mmap_file_def Let_def split: if_splits option.splits fnode.splits)

text \<open>A successful \<open>read_file\<close> of a non-empty file maps exactly its contents, or is MAP_FAILED.\<close>

lemma read_file_ok:
  assumes "read_file path d s = (0, (p, n), s')"
  shows "(\<exists>bs. node s path = Some (File bs) \<and> n = length bs \<and> data_bytes p s' = Some bs) \<or> p = Map_Failed"
  using assms
  by (auto simp: read_file_def sys_call_def mmap_file_def node_def Let_def data_bytes_def
      split: if_splits option.splits fnode.splits)

lemma read_file_empty:
  assumes "node s path = Some (File [])" "sys_err s (sys_next s) = 0" "sys_err s (Suc (sys_next s)) = 0"
  shows "\<exists>s'. read_file path d s = (0, (Map_Failed, 0), s')"
  using assms by (auto simp: read_file_def sys_call_def mmap_file_def node_def Let_def)

subsection \<open>Structures of the interfaces\<close>

record vaccel_session =
  session_id :: u32
  sess_resources :: ptr
  hint :: u32
  priv :: ptr

text \<open>
  The callbacks of a VirtIO plugin are code of the plugin: functions of the number of the call, of
  their arguments and of the structure they are given, which they may write. \<open>init\<close> and \<open>fini\<close> are
  known by the address of the function.
\<close>

record vaccel_plugin_info =
  pname :: "string option"
  pinit :: ptr
  pfini :: ptr
  ptype :: u32
  v_sess_init :: "(nat \<Rightarrow> vaccel_session \<Rightarrow> u32 \<Rightarrow> int \<times> vaccel_session) option"
  v_sess_update :: "(nat \<Rightarrow> vaccel_session \<Rightarrow> u32 \<Rightarrow> int \<times> vaccel_session) option"
  v_sess_free :: "(nat \<Rightarrow> vaccel_session \<Rightarrow> int \<times> vaccel_session) option"
  v_sess_register :: "(nat \<Rightarrow> u32 \<Rightarrow> int \<Rightarrow> int) option"
  v_sess_unregister :: "(nat \<Rightarrow> u32 \<Rightarrow> int \<Rightarrow> int) option"
  v_resource_new :: "(nat \<Rightarrow> nat \<Rightarrow> ptr \<Rightarrow> int \<Rightarrow> int \<times> int) option"
  v_resource_destroy :: "(nat \<Rightarrow> int \<Rightarrow> int) option"

end
