(* ===== verification/Linked_List.thy ===== *)
theory Linked_List
  imports Prelude
begin

text \<open>
  The intrusive circular doubly linked lists of \<^verbatim>\<open>src/src/list.h\<close> and
  \<^verbatim>\<open>src/src/include/list.h\<close>. A \<open>list_entry_t\<close> lives inside another structure, so an entry is
  identified by its address, of a type \<open>'p\<close> that each client chooses (one constructor per entry
  field). A heap of entries holds the \<open>next\<close> and \<open>prev\<close> fields of the allocated entries;
  touching an entry that is not allocated is undefined (\<^const>\<open>None\<close>).
  \<open>is_list\<close> relates a head to the HOL list of its entries, \<open>family\<close> describes all the lists of a
  heap at once; the locale \<open>intrusive_lists\<close> is the contract the components rely on.
\<close>

subsection \<open>The heap of entries\<close>

record 'p lheap =
  nxt :: "'p \<Rightarrow> 'p option"
  prv :: "'p \<Rightarrow> 'p option"

definition allocated :: "'p lheap \<Rightarrow> 'p \<Rightarrow> bool" where
  "allocated h e \<longleftrightarrow> nxt h e \<noteq> None \<and> prv h e \<noteq> None"

definition set_next :: "'p \<Rightarrow> 'p \<Rightarrow> 'p lheap \<Rightarrow> 'p lheap option" where
  "set_next e v h = do { defined (allocated h e); Some (h\<lparr>nxt := (nxt h)(e \<mapsto> v)\<rparr>) }"

definition set_prev :: "'p \<Rightarrow> 'p \<Rightarrow> 'p lheap \<Rightarrow> 'p lheap option" where
  "set_prev e v h = do { defined (allocated h e); Some (h\<lparr>prv := (prv h)(e \<mapsto> v)\<rparr>) }"

text \<open>
  Allocating the structure that contains an entry (\<open>malloc\<close>, a static or a stack variable) makes
  the entry accessible; its fields hold \<open>v\<close>. Freeing the structure makes it inaccessible.
\<close>

definition add_entry :: "'p \<Rightarrow> 'p \<Rightarrow> 'p lheap \<Rightarrow> 'p lheap" where
  "add_entry e v h = \<lparr>nxt = (nxt h)(e \<mapsto> v), prv = (prv h)(e \<mapsto> v)\<rparr>"

definition del_entry :: "'p \<Rightarrow> 'p lheap \<Rightarrow> 'p lheap" where
  "del_entry e h = \<lparr>nxt = (nxt h)(e := None), prv = (prv h)(e := None)\<rparr>"

subsection \<open>The operations of list.h\<close>

definition list_empty :: "'p \<Rightarrow> 'p lheap \<Rightarrow> bool option" where
  "list_empty l h = do { n \<leftarrow> nxt h l; Some (n = l) }"

definition entry_linked :: "'p \<Rightarrow> 'p lheap \<Rightarrow> bool option" where
  "entry_linked e h = do { n \<leftarrow> nxt h e; Some (n \<noteq> e) }"

definition list_init_entry :: "'p \<Rightarrow> 'p lheap \<Rightarrow> 'p lheap option" where
  "list_init_entry e h = do { h \<leftarrow> set_next e e h; set_prev e e h }"

definition list_init :: "'p \<Rightarrow> 'p lheap \<Rightarrow> 'p lheap option" where
  "list_init l h = list_init_entry l h"

text \<open>The loops that initialise an array of lists.\<close>

fun list_init_all :: "'p list \<Rightarrow> 'p lheap \<Rightarrow> 'p lheap option" where
  "list_init_all [] h = Some h"
| "list_init_all (l # ls) h = do { h \<leftarrow> list_init l h; list_init_all ls h }"

definition list_link_entry :: "'p \<Rightarrow> 'p \<Rightarrow> 'p \<Rightarrow> 'p lheap \<Rightarrow> 'p lheap option" where
  "list_link_entry entry prev next h = do {
     h \<leftarrow> set_next entry next h;
     h \<leftarrow> set_prev next entry h;
     h \<leftarrow> set_prev entry prev h;
     set_next prev entry h }"

definition list_unlink_entry :: "'p \<Rightarrow> 'p lheap \<Rightarrow> 'p lheap option" where
  "list_unlink_entry entry h = do {
     p \<leftarrow> prv h entry;
     n \<leftarrow> nxt h entry;
     h \<leftarrow> set_next p n h;
     n \<leftarrow> nxt h entry;
     p \<leftarrow> prv h entry;
     h \<leftarrow> set_prev n p h;
     list_init_entry entry h }"

definition list_add_head :: "'p \<Rightarrow> 'p \<Rightarrow> 'p lheap \<Rightarrow> 'p lheap option" where
  "list_add_head l entry h = do { n \<leftarrow> nxt h l; list_link_entry entry l n h }"

definition list_add_tail :: "'p \<Rightarrow> 'p \<Rightarrow> 'p lheap \<Rightarrow> 'p lheap option" where
  "list_add_tail l entry h = do { p \<leftarrow> prv h l; list_link_entry entry p l h }"

definition list_remove_head :: "'p \<Rightarrow> 'p lheap \<Rightarrow> ('p option \<times> 'p lheap) option" where
  "list_remove_head l h = do {
     e \<leftarrow> list_empty l h;
     if e then Some (None, h)
     else do { ret \<leftarrow> nxt h l; h \<leftarrow> list_unlink_entry ret h; Some (Some ret, h) } }"

definition list_remove_tail :: "'p \<Rightarrow> 'p lheap \<Rightarrow> ('p option \<times> 'p lheap) option" where
  "list_remove_tail l h = do {
     e \<leftarrow> list_empty l h;
     if e then Some (None, h)
     else do { ret \<leftarrow> prv h l; h \<leftarrow> list_unlink_entry ret h; Some (Some ret, h) } }"

subsection \<open>The iterators\<close>

text \<open>
  \<open>for_each\<close>, \<open>for_each_container\<close> and \<open>for_each_container_safe\<close> are loops over entry addresses
  (the container of an entry is found from the constructor of its address). \<open>rd s e\<close> reads
  \<open>e->next\<close> in the state \<open>s\<close> of the loop; the body returns \<open>Some r\<close> to leave the loop with \<open>r\<close>
  (\<open>return\<close> or \<open>break\<close>). A loop over a corrupted list may never end, so both are partial.
\<close>

partial_function (option) for_each_loop ::
  "('s \<Rightarrow> 'p \<Rightarrow> 'p option) \<Rightarrow> 'p \<Rightarrow> ('p \<Rightarrow> 's \<Rightarrow> ('r option \<times> 's) option) \<Rightarrow> 'p \<Rightarrow> 's
    \<Rightarrow> ('r option \<times> 's) option" where
  "for_each_loop rd l body iter s =
     (if iter = l then Some (None, s)
      else Option.bind (body iter s) (\<lambda>(r, s'). case r of
          Some x \<Rightarrow> Some (Some x, s')
        | None \<Rightarrow> Option.bind (rd s' iter) (\<lambda>iter'. for_each_loop rd l body iter' s')))"

definition for_each_container ::
  "('s \<Rightarrow> 'p \<Rightarrow> 'p option) \<Rightarrow> 'p \<Rightarrow> ('p \<Rightarrow> 's \<Rightarrow> ('r option \<times> 's) option) \<Rightarrow> 's
    \<Rightarrow> ('r option \<times> 's) option" where
  "for_each_container rd l body s = do { iter \<leftarrow> rd s l; for_each_loop rd l body iter s }"

partial_function (option) for_each_safe_loop ::
  "('s \<Rightarrow> 'p \<Rightarrow> 'p option) \<Rightarrow> 'p \<Rightarrow> ('p \<Rightarrow> 's \<Rightarrow> ('r option \<times> 's) option) \<Rightarrow> 'p \<Rightarrow> 'p \<Rightarrow> 's
    \<Rightarrow> ('r option \<times> 's) option" where
  "for_each_safe_loop rd l body iter tmp s =
     (if iter = l then Some (None, s)
      else Option.bind (body iter s) (\<lambda>(r, s'). case r of
          Some x \<Rightarrow> Some (Some x, s')
        | None \<Rightarrow> Option.bind (rd s' tmp) (\<lambda>tmp'. for_each_safe_loop rd l body tmp tmp' s')))"

definition for_each_container_safe ::
  "('s \<Rightarrow> 'p \<Rightarrow> 'p option) \<Rightarrow> 'p \<Rightarrow> ('p \<Rightarrow> 's \<Rightarrow> ('r option \<times> 's) option) \<Rightarrow> 's
    \<Rightarrow> ('r option \<times> 's) option" where
  "for_each_container_safe rd l body s = do {
     iter \<leftarrow> rd s l;
     tmp \<leftarrow> rd s iter;
     for_each_safe_loop rd l body iter tmp s }"

subsection \<open>The list a head stands for\<close>

text \<open>\<open>linked h ps\<close>: consecutive entries of \<open>ps\<close> point at each other.\<close>

fun linked :: "'p lheap \<Rightarrow> 'p list \<Rightarrow> bool" where
  "linked h (a # b # ps) \<longleftrightarrow> nxt h a = Some b \<and> prv h b = Some a \<and> linked h (b # ps)"
| "linked h _ \<longleftrightarrow> True"

text \<open>\<open>is_list h l xs\<close>: following \<open>next\<close> from the head \<open>l\<close> visits exactly \<open>xs\<close> and comes back.\<close>

definition is_list :: "'p lheap \<Rightarrow> 'p \<Rightarrow> 'p list \<Rightarrow> bool" where
  "is_list h l xs \<longleftrightarrow> distinct (l # xs) \<and> linked h (l # xs @ [l])"

lemma linked_append: "linked h (xs @ a # ys) \<longleftrightarrow> linked h (xs @ [a]) \<and> linked h (a # ys)"
  by (induction h xs rule: linked.induct) auto

lemma linked_cong:
  "(\<And>x. x \<in> set (butlast ps) \<Longrightarrow> nxt h x = nxt h' x) \<Longrightarrow> (\<And>x. x \<in> set (tl ps) \<Longrightarrow> prv h x = prv h' x)
    \<Longrightarrow> linked h ps \<longleftrightarrow> linked h' ps"
proof (induction h ps rule: linked.induct)
  case (1 h a b ps)
  have "linked h (b # ps) \<longleftrightarrow> linked h' (b # ps)"
    using "1.prems" by (intro "1.IH") (auto split: if_splits dest: in_set_butlastD)
  then show ?case using "1.prems" by auto
qed auto

lemma is_list_cong:
  assumes "\<And>x. x \<in> insert l (set xs) \<Longrightarrow> nxt h x = nxt h' x \<and> prv h x = prv h' x"
  shows "is_list h l xs \<longleftrightarrow> is_list h' l xs"
  unfolding is_list_def
  by (rule conj_cong [OF refl linked_cong]) (use assms in \<open>auto dest: in_set_butlastD\<close>)

text \<open>The two directions of a split: \<open>p\<close> the entry before the point, \<open>n\<close> the entry after it.\<close>

lemma linked_split:
  "linked h (l # as @ bs @ [l]) \<longleftrightarrow>
     linked h (l # as) \<and> nxt h (last (l # as)) = Some (first_or l bs)
     \<and> prv h (first_or l bs) = Some (last (l # as)) \<and> linked h (bs @ [l])"
proof -
  obtain ps p where p: "l # as = ps @ [p]" by (metis list.discI rev_exhaust)
  obtain n ns where n: "bs @ [l] = n # ns" by (cases bs) auto
  have fn: "first_or l bs = n" using n by (cases bs) auto
  have "linked h (l # as @ bs @ [l]) = linked h (ps @ p # n # ns)"
    using p n by (metis append.assoc append_Cons append_Nil)
  also have "\<dots> \<longleftrightarrow> linked h (ps @ [p]) \<and> linked h (p # n # ns)" by (rule linked_append)
  finally show ?thesis using p n fn by auto
qed

lemma is_list_next:
  assumes "is_list h l (as @ e # bs)" shows "nxt h e = Some (first_or l bs)"
proof -
  have "linked h (l # (as @ [e]) @ bs @ [l])" using assms by (simp add: is_list_def)
  then show ?thesis by (simp only: linked_split) auto
qed

lemma is_list_prev:
  assumes "is_list h l (as @ e # bs)" shows "prv h e = Some (last (l # as))"
proof -
  have "linked h (l # as @ (e # bs) @ [l])" using assms by (simp add: is_list_def)
  then show ?thesis by (simp only: linked_split) auto
qed

lemma is_list_first: "is_list h l xs \<Longrightarrow> nxt h l = Some (first_or l xs)"
  using linked_split [of h l "[]" xs] by (simp add: is_list_def)

lemma is_list_last: "is_list h l xs \<Longrightarrow> prv h l = Some (last (l # xs))"
  using linked_split [of h l xs "[]"] by (simp add: is_list_def)

lemma is_list_allocated:
  assumes "is_list h l xs" "e \<in> insert l (set xs)" shows "allocated h e"
proof (cases "e = l")
  case True
  then show ?thesis using is_list_first [OF assms(1)] is_list_last [OF assms(1)]
    by (simp add: allocated_def)
next
  case False
  then obtain as bs where "xs = as @ e # bs" using assms(2) by (metis insert_iff split_list)
  then show ?thesis using is_list_next is_list_prev assms(1) by (fastforce simp: allocated_def)
qed

lemma is_list_nil: "is_list h l [] \<longleftrightarrow> nxt h l = Some l \<and> prv h l = Some l"
  by (simp add: is_list_def)

lemma list_empty_spec: "is_list h l xs \<Longrightarrow> list_empty l h = Some (xs = [])"
  by (cases xs) (auto simp: list_empty_def is_list_first is_list_def)

lemma entry_linked_self: "is_list h e [] \<Longrightarrow> entry_linked e h = Some False"
  by (simp add: entry_linked_def is_list_nil)

lemma entry_linked_in:
  assumes "is_list h l xs" "e \<in> set xs" shows "entry_linked e h = Some True"
proof -
  obtain as bs where xs: "xs = as @ e # bs" using assms(2) by (metis split_list)
  have "first_or l bs \<noteq> e" using assms(1) xs first_or_in [of l bs] by (auto simp: is_list_def)
  then show ?thesis using assms(1) xs by (simp add: entry_linked_def is_list_next)
qed

subsection \<open>Linking and unlinking\<close>

lemma set_next_allocated: "allocated h e \<Longrightarrow> set_next e v h = Some (h\<lparr>nxt := (nxt h)(e \<mapsto> v)\<rparr>)"
  by (simp add: set_next_def)

lemma set_prev_allocated: "allocated h e \<Longrightarrow> set_prev e v h = Some (h\<lparr>prv := (prv h)(e \<mapsto> v)\<rparr>)"
  by (simp add: set_prev_def)

lemma allocated_update [simp]:
  "allocated (h\<lparr>nxt := (nxt h)(e \<mapsto> v)\<rparr>) x \<longleftrightarrow> allocated h x \<or> x = e \<and> prv h e \<noteq> None"
  "allocated (h\<lparr>prv := (prv h)(e \<mapsto> v)\<rparr>) x \<longleftrightarrow> allocated h x \<or> x = e \<and> nxt h e \<noteq> None"
  by (auto simp: allocated_def)

lemma list_init_entry_spec:
  "allocated h e \<Longrightarrow> list_init_entry e h = Some \<lparr>nxt = (nxt h)(e \<mapsto> e), prv = (prv h)(e \<mapsto> e)\<rparr>"
  by (cases h) (auto simp: list_init_entry_def set_next_def set_prev_def allocated_def)

lemma list_link_entry_spec:
  assumes "allocated h e" "allocated h p" "allocated h n"
  shows "list_link_entry e p n h =
    Some \<lparr>nxt = (nxt h)(e \<mapsto> n, p \<mapsto> e), prv = (prv h)(n \<mapsto> e, e \<mapsto> p)\<rparr>"
  using assms
  by (cases h) (auto simp: list_link_entry_def set_next_def set_prev_def allocated_def)

text \<open>\<open>same_but h h' S\<close>: only entries of \<open>S\<close> may differ, and allocation is unchanged.\<close>

definition same_but :: "'p set \<Rightarrow> 'p lheap \<Rightarrow> 'p lheap \<Rightarrow> bool" where
  "same_but S h h' \<longleftrightarrow> (\<forall>x. x \<notin> S \<longrightarrow> nxt h' x = nxt h x \<and> prv h' x = prv h x)
     \<and> (\<forall>x. allocated h' x \<longleftrightarrow> allocated h x)"

lemma same_but_is_list:
  "same_but S h h' \<Longrightarrow> insert l (set xs) \<inter> S = {} \<Longrightarrow> is_list h' l xs \<longleftrightarrow> is_list h l xs"
  by (rule is_list_cong) (auto simp: same_but_def)

lemma same_but_allocated: "same_but S h h' \<Longrightarrow> allocated h' = allocated h"
  by (auto simp: same_but_def)

lemma is_list_insert:
  assumes l: "is_list h l (as @ bs)" and e: "allocated h e" "e \<notin> insert l (set (as @ bs))"
  obtains h' where "list_link_entry e (last (l # as)) (first_or l bs) h = Some h'"
    "is_list h' l (as @ e # bs)" "same_but (insert e (insert l (set (as @ bs)))) h h'"
proof -
  let ?p = "last (l # as)" and ?n = "first_or l bs"
  let ?h' = "\<lparr>nxt = (nxt h)(e \<mapsto> ?n, ?p \<mapsto> e), prv = (prv h)(?n \<mapsto> e, e \<mapsto> ?p)\<rparr>"
  have pin: "?p \<in> insert l (set as)" by (metis last_in_set list.set(2) list.discI)
  have nin: "?n \<in> insert l (set bs)" by (rule first_or_in)
  have al: "allocated h ?p" "allocated h ?n"
    using is_list_allocated [OF l] pin nin by auto
  have d: "distinct (l # as @ e # bs)" using l e by (auto simp: is_list_def)
  have old: "linked h (l # as)" "linked h (bs @ [l])"
    using l by (simp_all only: is_list_def append_assoc linked_split)
  have "linked ?h' (l # as)"
  proof (rule linked_cong [THEN iffD1, OF _ _ old(1)])
    fix x assume x: "x \<in> set (butlast (l # as))"
    have "x \<noteq> ?p" using x d by (metis append_butlast_last_id distinct.simps(2) distinct_append
          disjoint_insert(1) inf_commute list.discI list.set(2) append_Cons)
    then show "nxt h x = nxt ?h' x" using x e(2) by (auto dest: in_set_butlastD split: if_splits)
  next
    fix x assume x: "x \<in> set (tl (l # as))"
    then have "x \<noteq> ?n" using nin d by auto
    then show "prv h x = prv ?h' x" using x e(2) by auto
  qed
  moreover have "linked ?h' (e # bs @ [l])"
  proof -
    have "linked ?h' (bs @ [l])"
    proof (rule linked_cong [THEN iffD1, OF _ _ old(2)])
      fix x assume x: "x \<in> set (butlast (bs @ [l]))"
      then have "x \<in> set bs" by simp
      then show "nxt h x = nxt ?h' x" using pin d e(2) by auto
    next
      fix x assume x: "x \<in> set (tl (bs @ [l]))"
      then have "x \<noteq> ?n \<and> x \<noteq> e" using d e(2) by (cases bs) auto
      then show "prv h x = prv ?h' x" by auto
    qed
    then show ?thesis using d e(2) pin nin by (cases bs) auto
  qed
  ultimately have "linked ?h' (l # as @ (e # bs) @ [l])"
    unfolding linked_split using d e(2) nin by auto
  then have "is_list ?h' l (as @ e # bs)" using d by (simp add: is_list_def)
  moreover have "same_but (insert e (insert l (set (as @ bs)))) h ?h'"
    using pin nin e(1) al by (auto simp: same_but_def allocated_def)
  ultimately show thesis using that list_link_entry_spec [OF e(1) al] by blast
qed

lemma list_unlink_entry_spec:
  assumes l: "is_list h l (as @ e # bs)"
  obtains h' where "list_unlink_entry e h = Some h'" "is_list h' l (as @ bs)" "is_list h' e []"
    "same_but (insert l (set (as @ e # bs))) h h'"
proof -
  let ?p = "last (l # as)" and ?n = "first_or l bs"
  let ?h' = "\<lparr>nxt = (nxt h)(?p \<mapsto> ?n, e \<mapsto> e), prv = (prv h)(?n \<mapsto> ?p, e \<mapsto> e)\<rparr>"
  have pin: "?p \<in> insert l (set as)" by (metis last_in_set list.set(2) list.discI)
  have nin: "?n \<in> insert l (set bs)" by (rule first_or_in)
  have d: "distinct (l # as @ e # bs)" using l by (auto simp: is_list_def)
  then have ne: "?p \<noteq> e" "?n \<noteq> e" using pin nin by auto
  have al: "allocated h ?p" "allocated h ?n" "allocated h e"
    using is_list_allocated [OF l] pin nin by auto
  have run: "list_unlink_entry e h = Some ?h'"
    using is_list_next [OF l] is_list_prev [OF l] al ne
    by (cases h) (auto simp: list_unlink_entry_def list_init_entry_def set_next_def set_prev_def
        allocated_def fun_upd_twist)
  have old: "linked h (l # as)" "linked h (e # bs @ [l])"
    using l linked_split [of h l as "e # bs"] by (simp_all add: is_list_def)
  then have old2: "linked h (bs @ [l])" by (cases bs) auto
  have "linked ?h' (l # as)"
  proof (rule linked_cong [THEN iffD1, OF _ _ old(1)])
    fix x assume x: "x \<in> set (butlast (l # as))"
    have "x \<noteq> ?p" using x d by (metis append_butlast_last_id distinct.simps(2) distinct_append
          disjoint_insert(1) inf_commute list.discI list.set(2) append_Cons)
    then show "nxt h x = nxt ?h' x" using x d by (auto dest: in_set_butlastD split: if_splits)
  next
    fix x assume x: "x \<in> set (tl (l # as))"
    then have "x \<noteq> ?n" using nin d by auto
    then show "prv h x = prv ?h' x" using x d by auto
  qed
  moreover have "linked ?h' (bs @ [l])"
  proof (rule linked_cong [THEN iffD1, OF _ _ old2])
    fix x assume "x \<in> set (butlast (bs @ [l]))"
    then have "x \<in> set bs" by simp
    then show "nxt h x = nxt ?h' x" using pin d by auto
  next
    fix x assume "x \<in> set (tl (bs @ [l]))"
    then have "x \<noteq> ?n \<and> x \<noteq> e" using d by (cases bs) auto
    then show "prv h x = prv ?h' x" by auto
  qed
  ultimately have "linked ?h' (l # as @ bs @ [l])" unfolding linked_split using ne by auto
  then have "is_list ?h' l (as @ bs)" using d by (simp add: is_list_def)
  moreover have "is_list ?h' e []" by (simp add: is_list_nil)
  moreover have "same_but (insert l (set (as @ e # bs))) h ?h'"
    using pin nin al by (auto simp: same_but_def allocated_def)
  ultimately show thesis using that run by blast
qed

text \<open>Unlinking an entry that is linked to nothing changes nothing.\<close>

lemma list_unlink_entry_self: "is_list h e [] \<Longrightarrow> list_unlink_entry e h = Some h"
  by (cases h) (auto simp: is_list_nil list_unlink_entry_def list_init_entry_def set_next_def
      set_prev_def allocated_def fun_upd_idem)

subsection \<open>All the lists of a heap\<close>

text \<open>
  A family \<open>C\<close> gives each list head its entries; an initialised entry that is in no list is
  the head of an empty one. Different lists share no entry.
\<close>

definition cover :: "('p \<Rightarrow> 'p list option) \<Rightarrow> 'p set" where
  "cover C = {e. \<exists>l xs. C l = Some xs \<and> e \<in> insert l (set xs)}"

definition family :: "'p lheap \<Rightarrow> ('p \<Rightarrow> 'p list option) \<Rightarrow> bool" where
  "family h C \<longleftrightarrow> (\<forall>l xs. C l = Some xs \<longrightarrow> is_list h l xs)
     \<and> (\<forall>l xs l' xs'. C l = Some xs \<longrightarrow> C l' = Some xs' \<longrightarrow> l \<noteq> l'
          \<longrightarrow> insert l (set xs) \<inter> insert l' (set xs') = {})"

lemma family_is_list: "family h C \<Longrightarrow> C l = Some xs \<Longrightarrow> is_list h l xs"
  by (simp add: family_def)

lemma family_disjoint:
  "family h C \<Longrightarrow> C l = Some xs \<Longrightarrow> C l' = Some xs' \<Longrightarrow> l \<noteq> l'
    \<Longrightarrow> insert l (set xs) \<inter> insert l' (set xs') = {}"
  by (simp add: family_def)

lemma family_allocated: "family h C \<Longrightarrow> e \<in> cover C \<Longrightarrow> allocated h e"
  by (auto simp: cover_def dest: family_is_list intro: is_list_allocated)

lemma family_distinct: "family h C \<Longrightarrow> C l = Some xs \<Longrightarrow> distinct xs \<and> l \<notin> set xs"
  by (auto dest: family_is_list simp: is_list_def)

lemma family_mono: "family h C \<Longrightarrow> C' \<subseteq>\<^sub>m C \<Longrightarrow> family h C'"
  unfolding family_def map_le_def by (metis domI)

lemma cover_mono: "C' \<subseteq>\<^sub>m C \<Longrightarrow> cover C' \<subseteq> cover C"
  by (auto simp: cover_def map_le_def) (metis domI)+

lemma cover_upd_None: "cover (C(e := None)) \<subseteq> cover C"
  by (rule cover_mono) (auto simp: map_le_def)

text \<open>Changing one list of a family, on entries no other list uses.\<close>

lemma family_update:
  assumes fam: "family h C" and same: "same_but S h h'"
    and other: "\<And>l' xs'. l' \<noteq> l \<Longrightarrow> C l' = Some xs' \<Longrightarrow> insert l' (set xs') \<inter> S = {}"
    and new: "is_list h' l ys" and ys: "insert l (set ys) \<subseteq> S"
  shows "family h' (C(l \<mapsto> ys))"
proof -
  have keep: "is_list h' l' xs'" if "l' \<noteq> l" "C l' = Some xs'" for l' xs'
    using same_but_is_list [OF same other [OF that]] family_is_list [OF fam that(2)] by simp
  have apart: "insert l (set ys) \<inter> insert l' (set xs') = {}" if "l' \<noteq> l" "C l' = Some xs'" for l' xs'
    using other [OF that] ys by blast
  show ?thesis
    unfolding family_def
  proof (intro conjI allI impI)
    fix l' xs' assume "(C(l \<mapsto> ys)) l' = Some xs'"
    then show "is_list h' l' xs'" using new keep by (cases "l' = l") auto
  next
    fix l1 xs1 l2 xs2
    assume 1: "(C(l \<mapsto> ys)) l1 = Some xs1" and 2: "(C(l \<mapsto> ys)) l2 = Some xs2" and ne: "l1 \<noteq> l2"
    consider "l1 = l" "l2 \<noteq> l" | "l2 = l" "l1 \<noteq> l" | "l1 \<noteq> l" "l2 \<noteq> l" using ne by blast
    then show "insert l1 (set xs1) \<inter> insert l2 (set xs2) = {}"
    proof cases
      case 1
      then have "xs1 = ys" "C l2 = Some xs2" using \<open>(C(l \<mapsto> ys)) l1 = Some xs1\<close> 2 by auto
      then show ?thesis using apart 1 by simp
    next
      case 2
      then have "xs2 = ys" "C l1 = Some xs1" using \<open>(C(l \<mapsto> ys)) l2 = Some xs2\<close> 1 by auto
      then show ?thesis using apart [of l1 xs1] 2 by (simp add: Int_commute)
    next
      case 3
      then have "C l1 = Some xs1" "C l2 = Some xs2" using 1 2 by auto
      then show ?thesis by (rule family_disjoint [OF fam _ _ ne])
    qed
  qed
qed

lemma family_init:
  assumes fam: "family h C" and e: "allocated h e" "e \<notin> cover C"
  obtains h' where "list_init_entry e h = Some h'" "family h' (C(e \<mapsto> []))" "same_but {e} h h'"
proof -
  let ?h' = "\<lparr>nxt = (nxt h)(e \<mapsto> e), prv = (prv h)(e \<mapsto> e)\<rparr>"
  have same: "same_but {e} h ?h'" using e(1) by (auto simp: same_but_def allocated_def)
  have "family ?h' (C(e \<mapsto> []))"
    by (rule family_update [OF fam same]) (use e(2) in \<open>auto simp: cover_def is_list_nil\<close>)
  then show thesis using that list_init_entry_spec [OF e(1)] same by blast
qed

lemma family_add_tail:
  assumes fam: "family h C" and l: "C l = Some xs" and e: "allocated h e" "e \<notin> cover C"
  obtains h' where "list_add_tail l e h = Some h'" "family h' (C(l \<mapsto> xs @ [e]))"
    "same_but (insert e (insert l (set xs))) h h'"
proof -
  have il: "is_list h l (xs @ [])" using family_is_list [OF fam l] by simp
  have "e \<notin> insert l (set (xs @ []))" using e(2) l by (auto simp: cover_def)
  from is_list_insert [OF il e(1) this] obtain h' where
    h': "list_link_entry e (last (l # xs)) l h = Some h'" "is_list h' l (xs @ [e])"
      "same_but (insert e (insert l (set xs))) h h'" by auto
  have "family h' (C(l \<mapsto> xs @ [e]))"
  proof (rule family_update [OF fam h'(3) _ h'(2)])
    fix l' xs' assume "l' \<noteq> l" "C l' = Some xs'"
    then show "insert l' (set xs') \<inter> insert e (insert l (set xs)) = {}"
      using family_disjoint [OF fam _ l, of l' xs'] e(2) by (auto simp: cover_def)
  qed auto
  moreover have "list_add_tail l e h = Some h'"
    using h'(1) is_list_last [OF family_is_list [OF fam l]] by (simp add: list_add_tail_def)
  ultimately show thesis using that h'(3) by blast
qed

lemma family_unlink:
  assumes fam: "family h C" and l: "C l = Some (as @ e # bs)"
  obtains h' where "list_unlink_entry e h = Some h'" "family h' (C(l \<mapsto> as @ bs, e \<mapsto> []))"
    "same_but (insert l (set (as @ e # bs))) h h'"
proof -
  let ?S = "insert l (set (as @ e # bs))"
  from list_unlink_entry_spec [OF family_is_list [OF fam l]] obtain h' where
    h': "list_unlink_entry e h = Some h'" "is_list h' l (as @ bs)" "is_list h' e []"
      "same_but ?S h h'" .
  have oth: "insert l' (set xs') \<inter> ?S = {}" if "l' \<noteq> l" "C l' = Some xs'" for l' xs'
    using family_disjoint [OF fam that(2) l that(1)] .
  have f1: "family h' (C(l \<mapsto> as @ bs))"
    by (rule family_update [OF fam h'(4) _ h'(2)]) (use oth in auto)
  have ecov: "e \<notin> cover (C(l \<mapsto> as @ bs))"
    using oth family_distinct [OF fam l] by (auto simp: cover_def split: if_splits)
  have "family h' (C(l \<mapsto> as @ bs, e \<mapsto> []))"
  proof (rule family_update [OF f1])
    show "same_but {e} h' h'" by (simp add: same_but_def)
  qed (use ecov h'(3) in \<open>auto simp: cover_def\<close>)
  then show thesis using that h' by blast
qed

lemma family_unlink_self:
  "family h C \<Longrightarrow> C e = Some [] \<Longrightarrow> list_unlink_entry e h = Some h"
  by (auto dest: family_is_list intro: list_unlink_entry_self)

lemma family_frame:
  assumes fam: "family h C"
    and same: "\<And>x. x \<in> cover C \<Longrightarrow> nxt h' x = nxt h x \<and> prv h' x = prv h x"
  shows "family h' C"
proof -
  have "is_list h' l xs" if "C l = Some xs" for l xs
  proof -
    have "\<And>x. x \<in> insert l (set xs) \<Longrightarrow> x \<in> cover C" using that unfolding cover_def by blast
    then have "is_list h' l xs \<longleftrightarrow> is_list h l xs" by (intro is_list_cong same) blast
    then show ?thesis using family_is_list [OF fam that] by simp
  qed
  then show ?thesis using fam unfolding family_def by blast
qed

lemma family_add_entry: "family h C \<Longrightarrow> e \<notin> cover C \<Longrightarrow> family (add_entry e v h) C"
  by (erule family_frame) (auto simp: add_entry_def)

lemma family_del_entry: "family h C \<Longrightarrow> e \<notin> cover C \<Longrightarrow> family (del_entry e h) C"
  by (erule family_frame) (auto simp: del_entry_def)

lemma allocated_add_entry [simp]: "allocated (add_entry e v h) x \<longleftrightarrow> x = e \<or> allocated h x"
  by (auto simp: allocated_def add_entry_def)

lemma allocated_del_entry [simp]: "allocated (del_entry e h) x \<longleftrightarrow> x \<noteq> e \<and> allocated h x"
  by (auto simp: allocated_def del_entry_def)

subsection \<open>The contract of the lists\<close>

text \<open>
  What a component that keeps its objects in intrusive lists relies on: the heap \<open>h\<close> stands for
  a family of HOL lists, and the operations act on the family as on ordinary lists.
\<close>

locale intrusive_lists =
  fixes fam :: "'h \<Rightarrow> ('p \<Rightarrow> 'p list option) \<Rightarrow> bool"
    and alloc :: "'h \<Rightarrow> 'p \<Rightarrow> bool"
    and init :: "'p \<Rightarrow> 'h \<Rightarrow> 'h option"
    and add_tail :: "'p \<Rightarrow> 'p \<Rightarrow> 'h \<Rightarrow> 'h option"
    and unlink :: "'p \<Rightarrow> 'h \<Rightarrow> 'h option"
    and is_empty :: "'p \<Rightarrow> 'h \<Rightarrow> bool option"
  assumes fam_mono: "fam h C \<Longrightarrow> C' \<subseteq>\<^sub>m C \<Longrightarrow> fam h C'"
    and fam_alloc: "fam h C \<Longrightarrow> e \<in> cover C \<Longrightarrow> alloc h e"
    and init_law: "fam h C \<Longrightarrow> alloc h e \<Longrightarrow> e \<notin> cover C \<Longrightarrow>
      \<exists>h'. init e h = Some h' \<and> fam h' (C(e \<mapsto> [])) \<and> alloc h' = alloc h"
    and add_tail_law: "fam h C \<Longrightarrow> C l = Some xs \<Longrightarrow> alloc h e \<Longrightarrow> e \<notin> cover C \<Longrightarrow>
      \<exists>h'. add_tail l e h = Some h' \<and> fam h' (C(l \<mapsto> xs @ [e])) \<and> alloc h' = alloc h"
    and unlink_law: "fam h C \<Longrightarrow> C l = Some (as @ e # bs) \<Longrightarrow>
      \<exists>h'. unlink e h = Some h' \<and> fam h' (C(l \<mapsto> as @ bs, e \<mapsto> [])) \<and> alloc h' = alloc h"
    and unlink_self_law: "fam h C \<Longrightarrow> C e = Some [] \<Longrightarrow> unlink e h = Some h"
    and is_empty_law: "fam h C \<Longrightarrow> C l = Some xs \<Longrightarrow> is_empty l h = Some (xs = [])"
    and fam_apart: "fam h C \<Longrightarrow> C l = Some xs \<Longrightarrow> C l' = Some xs' \<Longrightarrow> l \<noteq> l' \<Longrightarrow>
      insert l (set xs) \<inter> insert l' (set xs') = {}"
    and fam_distinct: "fam h C \<Longrightarrow> C l = Some xs \<Longrightarrow> distinct xs \<and> l \<notin> set xs"
begin

lemma single_uncovered:
  assumes "fam h C" "C e = Some []"
  shows "e \<notin> cover (C(e := None))"
proof
  assume "e \<in> cover (C(e := None))"
  then obtain l xs where "l \<noteq> e" "C l = Some xs" "e \<in> set xs"
    by (auto simp: cover_def split: if_splits)
  then show False using fam_apart [OF assms(1) _ assms(2), of l xs] by auto
qed

text \<open>Linking an entry that was initialised and is in no list.\<close>

lemma add_single:
  assumes "fam h C" "C l = Some xs" "C e = Some []" "l \<noteq> e"
  shows "\<exists>h'. add_tail l e h = Some h' \<and> fam h' (C(e := None, l \<mapsto> xs @ [e])) \<and> alloc h' = alloc h"
proof (rule add_tail_law)
  show "fam h (C(e := None))" by (rule fam_mono [OF assms(1)]) (auto simp: map_le_def)
  show "alloc h e" by (rule fam_alloc [OF assms(1)]) (use assms(3) in \<open>auto simp: cover_def\<close>)
  show "e \<notin> cover (C(e := None))" by (rule single_uncovered [OF assms(1,3)])
qed (use assms in simp)

text \<open>Initialising and linking a fresh entry, as the constructors of the runtime do.\<close>

lemma init_add:
  assumes "fam h C" "C l = Some xs" "alloc h e" "e \<notin> cover C"
  shows "\<exists>h1 h2. init e h = Some h1 \<and> add_tail l e h1 = Some h2
    \<and> fam h2 (C(l \<mapsto> xs @ [e])) \<and> alloc h2 = alloc h"
proof -
  have le: "l \<noteq> e" "C e = None"
    using assms(2,4) by (auto simp: cover_def) (cases "C e"; auto)
  obtain h1 where h1: "init e h = Some h1" "fam h1 (C(e \<mapsto> []))" "alloc h1 = alloc h"
    using init_law [OF assms(1,3,4)] by blast
  have "\<exists>h2. add_tail l e h1 = Some h2 \<and> fam h2 ((C(e \<mapsto> []))(e := None, l \<mapsto> xs @ [e]))
    \<and> alloc h2 = alloc h1"
    by (rule add_single) (use h1(2) le assms(2) in auto)
  then show ?thesis using h1 le by (auto simp: fun_upd_idem)
qed

text \<open>Unlinking an entry and forgetting it.\<close>

lemma unlink_forget:
  assumes "fam h C" "C l = Some (as @ e # bs)"
  shows "\<exists>h'. unlink e h = Some h' \<and> fam h' (C(l \<mapsto> as @ bs)) \<and> alloc h' = alloc h
    \<and> e \<notin> cover (C(l \<mapsto> as @ bs))"
proof -
  have le: "l \<noteq> e" using fam_distinct [OF assms] by auto
  have ce: "C e = None"
  proof (cases "C e")
    case (Some ys)
    then show ?thesis using fam_apart [OF assms(1) Some assms(2)] le by auto
  qed
  obtain h' where h': "unlink e h = Some h'" "fam h' (C(l \<mapsto> as @ bs, e \<mapsto> []))" "alloc h' = alloc h"
    using unlink_law [OF assms] by blast
  have eq: "(C(l \<mapsto> as @ bs, e \<mapsto> []))(e := None) = C(l \<mapsto> as @ bs)" using ce le by auto
  have "e \<notin> cover ((C(l \<mapsto> as @ bs, e \<mapsto> []))(e := None))"
    by (rule single_uncovered [OF h'(2)]) simp
  moreover have "fam h' ((C(l \<mapsto> as @ bs, e \<mapsto> []))(e := None))"
    by (rule fam_mono [OF h'(2)]) (auto simp: map_le_def)
  ultimately show ?thesis using h' unfolding eq by blast
qed

text \<open>Adding an entry at the tail and unlinking it again restores the family.\<close>

lemma add_unlink:
  assumes "fam h C" "C l = Some xs" "alloc h e" "e \<notin> cover C"
  shows "\<exists>h1 h2. add_tail l e h = Some h1 \<and> unlink e h1 = Some h2 \<and> fam h2 C"
proof -
  obtain h1 where h1: "add_tail l e h = Some h1" "fam h1 (C(l \<mapsto> xs @ [e]))"
    using add_tail_law [OF assms] by blast
  have "\<exists>h2. unlink e h1 = Some h2 \<and> fam h2 ((C(l \<mapsto> xs @ [e]))(l \<mapsto> xs @ []))"
    using unlink_forget [OF h1(2), of l xs e "[]"] by auto
  then show ?thesis using h1(1) assms(2) by (auto simp: fun_upd_idem)
qed

end

interpretation ll: intrusive_lists family allocated list_init_entry list_add_tail list_unlink_entry list_empty
proof unfold_locales
  fix h :: "'a lheap" and C e assume "family h C" "allocated h e" "e \<notin> cover C"
  then obtain h' where "list_init_entry e h = Some h'" "family h' (C(e \<mapsto> []))" "same_but ({e}) h h'"
    by (rule family_init)
  then show "\<exists>h'. list_init_entry e h = Some h' \<and> family h' (C(e \<mapsto> [])) \<and> allocated h' = allocated h"
    by (blast dest: same_but_allocated)
next
  fix h :: "'a lheap" and C l xs e
  assume "family h C" "C l = Some xs" "allocated h e" "e \<notin> cover C"
  then obtain h' where "list_add_tail l e h = Some h'" "family h' (C(l \<mapsto> xs @ [e]))" "same_but (insert e (insert l (set xs))) h h'"
    by (rule family_add_tail)
  then show "\<exists>h'. list_add_tail l e h = Some h' \<and> family h' (C(l \<mapsto> xs @ [e])) \<and> allocated h' = allocated h"
    by (blast dest: same_but_allocated)
next
  fix h :: "'a lheap" and C l as e bs
  assume "family h C" "C l = Some (as @ e # bs)"
  then obtain h' where "list_unlink_entry e h = Some h'" "family h' (C(l \<mapsto> as @ bs, e \<mapsto> []))" "same_but (insert l (set (as @ e # bs))) h h'"
    by (rule family_unlink)
  then show "\<exists>h'. list_unlink_entry e h = Some h' \<and> family h' (C(l \<mapsto> as @ bs, e \<mapsto> [])) \<and> allocated h' = allocated h"
    by (blast dest: same_but_allocated)
next
  fix h :: "'a lheap" and C l xs assume "family h C" "C l = Some xs"
  then show "list_empty l h = Some (xs = [])" "distinct xs \<and> l \<notin> set xs"
    by (rule list_empty_spec [OF family_is_list], rule family_distinct)
qed (fact family_mono family_allocated family_unlink_self family_disjoint)+

lemma family_init_all:
  assumes "family h C" "distinct ls" "\<And>l. l \<in> set ls \<Longrightarrow> allocated h l \<and> l \<notin> cover C"
  shows "\<exists>h'. list_init_all ls h = Some h' \<and> family h' (\<lambda>e. if e \<in> set ls then Some [] else C e)
    \<and> allocated h' = allocated h"
  using assms
proof (induction ls arbitrary: h C)
  case Nil
  then show ?case by simp
next
  case (Cons l ls)
  obtain h1 where h1: "list_init_entry l h = Some h1" "family h1 (C(l \<mapsto> []))" "allocated h1 = allocated h"
    using ll.init_law [OF Cons.prems(1), of l] Cons.prems(3) by auto
  have "\<exists>h'. list_init_all ls h1 = Some h' \<and> family h' (\<lambda>e. if e \<in> set ls then Some [] else (C(l \<mapsto> [])) e)
    \<and> allocated h' = allocated h1"
  proof (rule Cons.IH [OF h1(2)])
    fix m assume m: "m \<in> set ls"
    then have "m \<noteq> l" "m \<notin> cover C" "allocated h m" using Cons.prems(2,3) by auto
    moreover have "cover (C(l \<mapsto> [])) \<subseteq> insert l (cover C)" by (auto simp: cover_def split: if_splits)
    ultimately show "allocated h1 m \<and> m \<notin> cover (C(l \<mapsto> []))" using h1(3) by auto
  qed (use Cons.prems(2) in simp)
  moreover have "(\<lambda>e. if e \<in> set ls then Some [] else (C(l \<mapsto> [])) e)
      = (\<lambda>e. if e \<in> set (l # ls) then Some [] else C e)" by auto
  ultimately show ?case using h1 by (auto simp: list_init_def)
qed

subsection \<open>Traversals\<close>

text \<open>
  The safe iterator over a list whose remaining entries \<open>ys\<close> satisfy \<open>I\<close>: the body may unlink and
  free the entry it is given, and the traversal visits every entry once and ends.
\<close>

lemma for_each_safe_loop_run:
  assumes step: "\<And>y ys s. I (y # ys) s \<Longrightarrow> y \<noteq> l \<and> (\<exists>s' n. body y s = Some (None, s') \<and> I ys s'
      \<and> rd s' (first_or l ys) = Some n \<and> (ys \<noteq> [] \<longrightarrow> n = first_or l (tl ys)))"
  shows "I ys s \<Longrightarrow> (ys \<noteq> [] \<longrightarrow> tmp = first_or l (tl ys))
    \<Longrightarrow> \<exists>s'. for_each_safe_loop rd l body (first_or l ys) tmp s = Some (None, s') \<and> I [] s'"
proof (induction ys arbitrary: s tmp)
  case Nil
  then show ?case by (simp add: for_each_safe_loop.simps)
next
  case (Cons y ys)
  obtain s' n where s': "y \<noteq> l" "body y s = Some (None, s')" "I ys s'"
    "rd s' (first_or l ys) = Some n" "ys \<noteq> [] \<longrightarrow> n = first_or l (tl ys)"
    using step [OF Cons.prems(1)] by blast
  have "tmp = first_or l ys" using Cons.prems(2) by simp
  then have "for_each_safe_loop rd l body (first_or l (y # ys)) tmp s =
      for_each_safe_loop rd l body (first_or l ys) n s'"
    using s' by (subst for_each_safe_loop.simps) simp
  then show ?case using Cons.IH [OF s'(3,5)] by simp
qed

fun find_first :: "('a \<Rightarrow> 'b option) \<Rightarrow> 'a list \<Rightarrow> 'b option" where
  "find_first f [] = None"
| "find_first f (x # xs) = (case f x of Some r \<Rightarrow> Some r | None \<Rightarrow> find_first f xs)"

lemma find_first_None: "find_first f xs = None \<longleftrightarrow> (\<forall>x \<in> set xs. f x = None)"
  by (induction xs) (auto split: option.splits)

lemma find_first_Some: "find_first f xs = Some r \<Longrightarrow> \<exists>x \<in> set xs. f x = Some r"
  by (induction xs) (auto split: option.splits)

lemma find_first_append: "find_first f (xs @ ys) =
    (case find_first f xs of Some r \<Rightarrow> Some r | None \<Rightarrow> find_first f ys)"
  by (induction xs) (auto split: option.splits)

text \<open>A search: the body looks at the entry and changes nothing.\<close>

lemma search_loop:
  assumes rd: "\<And>e. rd s e = nxt h e"
    and body: "\<And>y. y \<in> set ys \<Longrightarrow> body y s = Some (f y, s)"
    and l: "is_list h l (as @ ys)"
  shows "for_each_loop rd l body (first_or l ys) s = Some (find_first f ys, s)"
  using body l
proof (induction ys arbitrary: as)
  case Nil
  show ?case by (simp add: for_each_loop.simps)
next
  case (Cons y ys)
  have "y \<noteq> l" using Cons.prems(2) by (auto simp: is_list_def)
  moreover have "rd s y = Some (first_or l ys)" using is_list_next [OF Cons.prems(2)] rd by simp
  moreover have "for_each_loop rd l body (first_or l ys) s = Some (find_first f ys, s)"
    by (rule Cons.IH [of "as @ [y]"]) (use Cons.prems in auto)
  moreover have "body y s = Some (f y, s)" using Cons.prems(1) by simp
  ultimately show ?case by (subst for_each_loop.simps) (auto split: option.splits)
qed

lemma next_of_first:
  assumes l: "is_list h l (as @ ys)"
  shows "\<exists>n. nxt h (first_or l ys) = Some n \<and> (ys \<noteq> [] \<longrightarrow> n = first_or l (tl ys))"
proof (cases ys)
  case Nil
  then show ?thesis using is_list_first [OF l] by simp
next
  case (Cons z zs)
  then show ?thesis using is_list_next [of h l as z zs] l by simp
qed

lemma search_safe_loop:
  assumes rd: "\<And>e. rd s e = nxt h e"
    and body: "\<And>y. y \<in> set ys \<Longrightarrow> body y s = Some (f y, s)"
    and l: "is_list h l (as @ ys)"
    and tmp: "ys \<noteq> [] \<longrightarrow> tmp = first_or l (tl ys)"
  shows "for_each_safe_loop rd l body (first_or l ys) tmp s = Some (find_first f ys, s)"
  using body l tmp
proof (induction ys arbitrary: as tmp)
  case Nil
  show ?case by (simp add: for_each_safe_loop.simps)
next
  case (Cons y ys)
  have l': "is_list h l ((as @ [y]) @ ys)" using Cons.prems(2) by simp
  obtain n where n: "rd s (first_or l ys) = Some n" "ys \<noteq> [] \<longrightarrow> n = first_or l (tl ys)"
    using next_of_first [OF l'] rd by auto
  have "y \<noteq> l" using Cons.prems(2) by (auto simp: is_list_def)
  moreover have "tmp = first_or l ys" using Cons.prems(3) by simp
  moreover have "for_each_safe_loop rd l body (first_or l ys) n s = Some (find_first f ys, s)"
    by (rule Cons.IH [OF _ l' n(2)]) (use Cons.prems in auto)
  moreover have "body y s = Some (f y, s)" using Cons.prems(1) by simp
  ultimately show ?case using n(1) by (subst for_each_safe_loop.simps) (auto split: option.splits)
qed

lemma for_each_container_search:
  assumes l: "is_list h l xs" and rd: "\<And>e. rd s e = nxt h e"
    and body: "\<And>y. y \<in> set xs \<Longrightarrow> body y s = Some (f y, s)"
  shows "for_each_container rd l body s = Some (find_first f xs, s)"
    and "for_each_container_safe rd l body s = Some (find_first f xs, s)"
proof -
  have l0: "is_list h l ([] @ xs)" using l by simp
  have r: "rd s l = Some (first_or l xs)" using is_list_first [OF l] rd by simp
  show "for_each_container rd l body s = Some (find_first f xs, s)"
    using search_loop [of rd s h xs body f l "[]", OF rd body l0] r by (simp add: for_each_container_def)
  obtain n where n: "rd s (first_or l xs) = Some n" "xs \<noteq> [] \<longrightarrow> n = first_or l (tl xs)"
    using next_of_first [OF l0] rd by auto
  show "for_each_container_safe rd l body s = Some (find_first f xs, s)"
    using search_safe_loop [of rd s h xs body f l "[]", OF rd body l0 n(2)] r n(1)
    by (simp add: for_each_container_safe_def)
qed

text \<open>
  The plain iterator reads the next entry from the entry the body has just worked on. If that
  entry then points at itself, the loop visits it for ever.
\<close>

lemma for_each_loop_stuck:
  assumes stuck: "\<And>s e. P s e \<Longrightarrow> e \<noteq> l \<and> (\<exists>s'. body e s = Some (None, s') \<and> rd s' e = Some e \<and> P s' e)"
  shows "P s e \<Longrightarrow> for_each_loop rd l body e s = None"
proof -
  have "rd' = rd \<longrightarrow> l' = l \<longrightarrow> body' = body \<longrightarrow> \<not> P s e"
    if "for_each_loop rd' l' body' e s = Some y" for rd' l' body' e s y
    using that
  proof (rule for_each_loop.raw_induct [where P = "\<lambda>rd' l' body' e s y.
      rd' = rd \<longrightarrow> l' = l \<longrightarrow> body' = body \<longrightarrow> \<not> P s e", rotated])
    fix loop rd' l' body' e s y
    assume IH: "\<And>rd' l' body' e s y. loop rd' l' body' e s = Some y \<Longrightarrow>
        rd' = rd \<longrightarrow> l' = l \<longrightarrow> body' = body \<longrightarrow> \<not> P s e"
      and run: "(if e = l' then Some (None, s)
        else Option.bind (body' e s) (\<lambda>(r, s'). case r of
            Some x \<Rightarrow> Some (Some x, s')
          | None \<Rightarrow> Option.bind (rd' s' e) (\<lambda>e'. loop rd' l' body' e' s'))) = Some y"
    show "rd' = rd \<longrightarrow> l' = l \<longrightarrow> body' = body \<longrightarrow> \<not> P s e"
    proof (intro impI notI)
      assume eq: "rd' = rd" "l' = l" "body' = body" and p: "P s e"
      from stuck [OF p] obtain s' where s': "e \<noteq> l" "body e s = Some (None, s')" "rd s' e = Some e" "P s' e"
        by blast
      then have "loop rd l body e s' = Some y" using run eq by simp
      then show False using IH s'(4) by blast
    qed
  qed
  then show "P s e \<Longrightarrow> for_each_loop rd l body e s = None" by (cases "for_each_loop rd l body e s") auto
qed

subsection \<open>A heap of initialised entries\<close>

text \<open>Every entry points at itself: what \<open>LIST_ENTRY_INIT\<close> makes of static entries.\<close>

definition self_linked :: "'p lheap" where
  "self_linked = \<lparr>nxt = Some, prv = Some\<rparr>"

lemma self_linked_allocated [simp]: "allocated self_linked e"
  by (simp add: allocated_def self_linked_def)

lemma self_linked_is_list: "is_list self_linked l []"
  by (simp add: is_list_nil self_linked_def)

lemma self_linked_family:
  assumes "\<And>l xs. C l = Some xs \<Longrightarrow> xs = []"
  shows "family self_linked C"
  using assms self_linked_is_list unfolding family_def by fastforce

text \<open>The list \<open>1, 2\<close> with head \<open>0\<close>.\<close>

definition list_12 :: "nat lheap" where
  "list_12 = \<lparr>nxt = Some(0 \<mapsto> 1, 1 \<mapsto> 2, 2 \<mapsto> 0), prv = Some(0 \<mapsto> 2, 1 \<mapsto> 0, 2 \<mapsto> 1)\<rparr>"

lemma list_12: "is_list list_12 0 [1, 2]" "allocated list_12 3"
  by (simp_all add: is_list_def list_12_def allocated_def)

subsection \<open>Properties\<close>

text \<open>
  Linking an initialised entry that is in no list puts it at the head (\<open>list_add_head\<close>) or at
  the tail (\<open>list_add_tail\<close>) of the list, whatever its length, and changes no entry of another list.
\<close>

theorem list_add_correct:
  assumes "is_list h l xs" "allocated h e" "e \<notin> insert l (set xs)"
  shows "\<exists>h1 h2. list_add_head l e h = Some h1 \<and> is_list h1 l (e # xs) \<and> same_but (insert e (insert l (set xs))) h h1
    \<and> list_add_tail l e h = Some h2 \<and> is_list h2 l (xs @ [e]) \<and> same_but (insert e (insert l (set xs))) h h2"
proof -
  obtain h1 where "list_link_entry e l (first_or l xs) h = Some h1" "is_list h1 l (e # xs)"
    "same_but (insert e (insert l (set xs))) h h1"
    using is_list_insert [of h l "[]" xs e] assms by auto
  moreover have "list_add_head l e h = list_link_entry e l (first_or l xs) h"
    using is_list_first [OF assms(1)] by (simp add: list_add_head_def)
  moreover obtain h2 where "list_link_entry e (last (l # xs)) l h = Some h2" "is_list h2 l (xs @ [e])"
    "same_but (insert e (insert l (set xs))) h h2"
    using is_list_insert [of h l xs "[]" e] assms by auto
  moreover have "list_add_tail l e h = list_link_entry e (last (l # xs)) l h"
    using is_list_last [OF assms(1)] by (simp add: list_add_tail_def)
  ultimately show ?thesis by metis
qed

theorem list_add_correct_witness:
  "\<exists>h1 h2. list_add_head 0 3 list_12 = Some h1 \<and> is_list h1 0 [3, 1, 2] \<and> same_but {3, 0, 1, 2} list_12 h1
    \<and> list_add_tail 0 3 list_12 = Some h2 \<and> is_list h2 0 [1, 2, 3] \<and> same_but {3, 0, 1, 2} list_12 h2"
  using list_add_correct [OF list_12] by simp

text \<open>
  \<open>list_remove_head\<close> and \<open>list_remove_tail\<close> take the first and the last entry of the list, or
  return NULL for the empty list; the removed entry is left initialised, so that \<open>entry_linked\<close> is
  false for it and unlinking it a second time changes nothing.
\<close>

theorem list_remove_correct:
  assumes "is_list h l xs"
  shows "\<exists>h1 h2. list_remove_head l h = Some (case xs of [] \<Rightarrow> None | x # _ \<Rightarrow> Some x, h1) \<and> is_list h1 l (tl xs)
    \<and> list_remove_tail l h = Some (if xs = [] then None else Some (last xs), h2) \<and> is_list h2 l (butlast xs)
    \<and> (xs = [] \<or> (entry_linked (hd xs) h1 = Some False \<and> list_unlink_entry (hd xs) h1 = Some h1
        \<and> entry_linked (last xs) h2 = Some False \<and> list_unlink_entry (last xs) h2 = Some h2))"
proof (cases xs rule: rev_cases)
  case Nil
  then show ?thesis using assms list_empty_spec [OF assms] by (simp add: list_remove_head_def list_remove_tail_def)
next
  case (snoc ys z)
  have "xs \<noteq> []" using snoc by simp
  then obtain x zs where x: "xs = x # zs" by (cases xs) auto
  obtain h1 where h1: "list_unlink_entry x h = Some h1" "is_list h1 l zs" "is_list h1 x []"
    using list_unlink_entry_spec [of h l "[]" x zs] assms x by auto
  obtain h2 where h2: "list_unlink_entry z h = Some h2" "is_list h2 l ys" "is_list h2 z []"
    using list_unlink_entry_spec [of h l ys z "[]"] assms snoc by auto
  have "list_remove_head l h = Some (Some x, h1)"
    using list_empty_spec [OF assms] is_list_first [OF assms] h1(1) x by (simp add: list_remove_head_def)
  moreover have "list_remove_tail l h = Some (Some z, h2)"
    using list_empty_spec [OF assms] is_list_last [OF assms] h2(1) snoc by (simp add: list_remove_tail_def)
  moreover note entry_linked_self [OF h1(3)] entry_linked_self [OF h2(3)]
    list_unlink_entry_self [OF h1(3)] list_unlink_entry_self [OF h2(3)]
  moreover have "hd xs = x" "tl xs = zs" using x by simp_all
  moreover have "last xs = z" "butlast xs = ys" using snoc by simp_all
  ultimately show ?thesis using h1(2) h2(2) x snoc by auto
qed

theorem list_remove_correct_witness:
  "\<exists>h1 h2. list_remove_head 0 list_12 = Some (Some 1, h1) \<and> is_list h1 0 [2]
    \<and> list_remove_tail 0 list_12 = Some (Some 2, h2) \<and> is_list h2 0 [1]
    \<and> entry_linked 1 h1 = Some False \<and> entry_linked 2 h2 = Some False"
  using list_remove_correct [OF list_12(1)] by auto

text \<open>A traversal whose body records the entry and unlinks it.\<close>

definition unlink_body :: "'p \<Rightarrow> 'p lheap \<times> 'p list \<Rightarrow> (unit option \<times> 'p lheap \<times> 'p list) option" where
  "unlink_body e s = do { h \<leftarrow> list_unlink_entry e (fst s); Some (None, h, snd s @ [e]) }"

definition visit_next :: "'p lheap \<times> 'p list \<Rightarrow> 'p \<Rightarrow> 'p option" where
  "visit_next s e = nxt (fst s) e"

lemma unlink_body_step:
  assumes "is_list h l (y # ys)"
  obtains h' where "unlink_body y (h, vs) = Some (None, h', vs @ [y])" "is_list h' l ys" "is_list h' y []"
proof -
  have "is_list h l ([] @ y # ys)" using assms by simp
  from list_unlink_entry_spec [OF this] obtain h' where
    "list_unlink_entry y h = Some h'" "is_list h' l ([] @ ys)" "is_list h' y []" .
  then show thesis by (intro that [of h']) (simp_all add: unlink_body_def)
qed

text \<open>
  C39. The safe iterator visits every entry exactly once, in order, when the body unlinks the entry
  it is given, and the list is empty at the end; the plain iterator with the same body does not
  end on a list that has an entry.
\<close>

theorem for_each_safe_unlinks:
  assumes "is_list h l xs"
  shows "(\<exists>h'. for_each_container_safe visit_next l unlink_body (h, []) = Some (None, h', xs) \<and> is_list h' l [])
    \<and> (xs = [] \<or> for_each_container visit_next l unlink_body (h, []) = None)"
proof
  define I where "I = (\<lambda>ys s. is_list (fst s) l ys \<and> xs = snd s @ ys)"
  have step: "y \<noteq> l \<and> (\<exists>s' n. unlink_body y s = Some (None, s') \<and> I ys s'
      \<and> visit_next s' (first_or l ys) = Some n \<and> (ys \<noteq> [] \<longrightarrow> n = first_or l (tl ys)))"
    if inv: "I (y # ys) s" for y ys s
  proof -
    obtain h vs where s: "s = (h, vs)" by (cases s)
    have il: "is_list h l (y # ys)" "xs = (vs @ [y]) @ ys" using inv s by (simp_all add: I_def)
    obtain h' where h': "unlink_body y (h, vs) = Some (None, h', vs @ [y])" "is_list h' l ys"
      by (rule unlink_body_step [OF il(1)])
    have "\<exists>n. nxt h' (first_or l ys) = Some n \<and> (ys \<noteq> [] \<longrightarrow> n = first_or l (tl ys))"
      by (rule next_of_first [where as = "[]"]) (simp add: h'(2))
    then show ?thesis using h' s il by (auto simp: I_def visit_next_def is_list_def)
  qed
  have f: "visit_next (h, []) l = Some (first_or l xs)" using is_list_first [OF assms] by (simp add: visit_next_def)
  have "\<exists>n. nxt h (first_or l xs) = Some n \<and> (xs \<noteq> [] \<longrightarrow> n = first_or l (tl xs))"
    by (rule next_of_first [where as = "[]"]) (simp add: assms)
  then obtain n where n: "visit_next (h, []) (first_or l xs) = Some n" "xs \<noteq> [] \<longrightarrow> n = first_or l (tl xs)"
    by (auto simp: visit_next_def)
  have "I xs (h, [])" using assms by (simp add: I_def)
  from for_each_safe_loop_run [where I = I and rd = visit_next and l = l and body = unlink_body, OF step this n(2)]
  obtain h' vs where "for_each_safe_loop visit_next l unlink_body (first_or l xs) n (h, []) = Some (None, h', vs)"
    "I [] (h', vs)" by auto
  then show "\<exists>h'. for_each_container_safe visit_next l unlink_body (h, []) = Some (None, h', xs) \<and> is_list h' l []"
    using f n(1) by (auto simp: for_each_container_safe_def I_def)
  show "xs = [] \<or> for_each_container visit_next l unlink_body (h, []) = None"
  proof (cases xs)
    case (Cons y ys)
    define P where "P = (\<lambda>(s :: 'a lheap \<times> 'a list) e. e = y \<and> y \<noteq> l \<and> is_list (fst s) y [])"
    have self: "e \<noteq> l \<and> (\<exists>s'. unlink_body e s = Some (None, s') \<and> visit_next s' e = Some e \<and> P s' e)"
      if "P s e" for s e
      using that list_unlink_entry_self [of "fst s" y]
      by (auto simp: P_def unlink_body_def visit_next_def is_list_nil)
    obtain h' where h': "unlink_body y (h, []) = Some (None, h', [y])" "is_list h' y []"
      using unlink_body_step [of h l y ys "[]"] assms Cons by auto
    have yl: "y \<noteq> l" using assms Cons by (auto simp: is_list_def)
    have "for_each_loop visit_next l unlink_body y (h', [y]) = None"
      by (rule for_each_loop_stuck [where P = P, OF self]) (use h'(2) yl in \<open>simp_all add: P_def\<close>)
    moreover have "visit_next (h', [y]) y = Some y" using h'(2) by (simp add: visit_next_def is_list_nil)
    ultimately have "for_each_loop visit_next l unlink_body y (h, []) = None"
      using h'(1) yl by (subst for_each_loop.simps) simp
    then show ?thesis using f Cons by (simp add: for_each_container_def)
  qed simp
qed

theorem for_each_safe_unlinks_witness:
  "(\<exists>h'. for_each_container_safe visit_next 0 unlink_body (list_12, []) = Some (None, h', [1, 2]) \<and> is_list h' 0 [])
    \<and> for_each_container visit_next 0 unlink_body (list_12, []) = None"
  using for_each_safe_unlinks [OF list_12(1)] by simp

end
