(* ===== verification/Plugins.thy ===== *)
theory Plugins
  imports Runtime Linked_List
begin

text \<open>
  The plugin registry of \<^verbatim>\<open>src/src/plugin.c\<close> and \<^verbatim>\<open>src/src/include/plugin.h\<close>: registered
  plugins, the implementations of every operation type, the choice of an implementation by hint,
  and shutdown. The registry is a set of intrusive lists; \<open>plug_ok\<close> relates them to an abstract
  \<open>registry\<close>: the list of plugins, the implementations of each operation type in order of
  registration, and the operations of each plugin.
\<close>

subsection \<open>State\<close>

definition VACCEL_FUNCTIONS_NR :: nat where [simp]: "VACCEL_FUNCTIONS_NR = 24"

text \<open>
  Addresses of list entries: the heads of the registry, and the entry fields of plugins and
  operations. \<open>PNull\<close> is the NULL a zero-initialised head holds before \<open>plugins_bootstrap\<close>.
\<close>

datatype plink =
    PNull
  | PluginsHead
  | OpsHead nat
  | PlugEntry addr
  | PlugOps addr
  | OpPlug addr
  | OpFunc addr

record vaccel_plugin =
  dl_handle :: ptr
  pinfo :: "vaccel_plugin_info option"

record vaccel_op =
  op_type :: u8
  op_func :: ptr
  op_owner :: ptr

text \<open>Calls into a plugin's own code that the registry makes.\<close>

datatype pevent = Fini addr | Dlclose addr

record plug_state = rt_state +
  plug_initialized :: bool
  virtio :: ptr
  p_links :: "plink lheap"
  plugins :: "addr \<Rightarrow> vaccel_plugin option"
  ops :: "addr \<Rightarrow> vaccel_op option"
  p_events :: "pevent list"

definition p_do :: "(plink lheap \<Rightarrow> plink lheap option) \<Rightarrow> 'z plug_state_scheme \<Rightarrow> 'z plug_state_scheme option" where
  "p_do f s = do { h \<leftarrow> f (p_links s); Some (s\<lparr>p_links := h\<rparr>) }"

definition p_next :: "'z plug_state_scheme \<Rightarrow> plink \<Rightarrow> plink option" where
  "p_next s e = nxt (p_links s) e"

subsection \<open>Operations\<close>

definition check_plugin_info :: "vaccel_plugin_info \<Rightarrow> int" where
  "check_plugin_info info =
     (if pname info = None then VACCEL_EINVAL
      else if pinit info = None then VACCEL_EINVAL
      else if pfini info = None then VACCEL_EINVAL
      else VACCEL_OK)"

definition is_virtio_plugin :: "vaccel_plugin_info \<Rightarrow> bool" where
  "is_virtio_plugin info \<longleftrightarrow> v_sess_init info \<noteq> None \<and> v_sess_free info \<noteq> None"

definition register_plugin :: "ptr \<Rightarrow> 'z plug_state_scheme \<Rightarrow> (int \<times> 'z plug_state_scheme) option" where
  "register_plugin plugin s = (case plugin of
       None \<Rightarrow> Some (VACCEL_EINVAL, s)
     | Some p \<Rightarrow>
       if \<not> plug_initialized s then Some (VACCEL_EBACKEND, s)
       else do {
         linked \<leftarrow> entry_linked (PlugEntry p) (p_links s);
         if linked then Some (VACCEL_EEXISTS, s)
         else do {
           no_ops \<leftarrow> list_empty (PlugOps p) (p_links s);
           if \<not> no_ops then Some (VACCEL_EINVAL, s)
           else do {
             pl \<leftarrow> plugins s p;
             info \<leftarrow> pinfo pl;
             if check_plugin_info info \<noteq> VACCEL_OK then Some (VACCEL_EINVAL, s)
             else do {
               s \<leftarrow> p_do (list_add_tail PluginsHead (PlugEntry p)) s;
               if is_virtio_plugin info
               then (if virtio s \<noteq> None then Some (VACCEL_OK, s)
                     else Some (VACCEL_OK, s\<lparr>virtio := Some p\<rparr>))
               else Some (VACCEL_OK, s) } } } })"

text \<open>The body of the loop of \<open>unregister_plugin\<close>; the entry's container is the operation.\<close>

definition unregister_op :: "plink \<Rightarrow> 'z plug_state_scheme \<Rightarrow> (unit option \<times> 'z plug_state_scheme) option" where
  "unregister_op e s = (case e of
       OpPlug a \<Rightarrow> do {
         s \<leftarrow> p_do (list_unlink_entry (OpFunc a)) s;
         s \<leftarrow> p_do (list_unlink_entry (OpPlug a)) s;
         Some (None, s) }
     | _ \<Rightarrow> None)"

definition unregister_plugin :: "ptr \<Rightarrow> 'z plug_state_scheme \<Rightarrow> (int \<times> 'z plug_state_scheme) option" where
  "unregister_plugin plugin s = (case plugin of
       None \<Rightarrow> Some (VACCEL_EINVAL, s)
     | Some p \<Rightarrow>
       if \<not> plug_initialized s then Some (VACCEL_EBACKEND, s)
       else do {
         linked \<leftarrow> entry_linked (PlugEntry p) (p_links s);
         if \<not> linked then Some (VACCEL_ENOENT, s)
         else do {
           (_, s) \<leftarrow> for_each_container_safe p_next (PlugOps p) unregister_op s;
           s \<leftarrow> p_do (list_unlink_entry (PlugEntry p)) s;
           pl \<leftarrow> plugins s p;
           case pinfo pl of
             None \<Rightarrow> Some (VACCEL_EINVAL, s)
           | Some info \<Rightarrow> do {
               defined (pfini info \<noteq> None);
               let s = s\<lparr>p_events := p_events s @ [Fini p]\<rparr>;
               let s = (case dl_handle pl of None \<Rightarrow> s | Some dl \<Rightarrow> s\<lparr>p_events := p_events s @ [Dlclose dl]\<rparr>);
               Some (VACCEL_OK, s) } } })"

definition register_plugin_function :: "ptr \<Rightarrow> 'z plug_state_scheme \<Rightarrow> (int \<times> 'z plug_state_scheme) option" where
  "register_plugin_function plugin_op s = (case plugin_op of
       None \<Rightarrow> Some (VACCEL_EINVAL, s)
     | Some a \<Rightarrow> do {
         op \<leftarrow> ops s a;
         if op_func op = None then Some (VACCEL_EINVAL, s)
         else if VACCEL_FUNCTIONS_NR \<le> unat (op_type op) then Some (VACCEL_EINVAL + 1, s)
         else case op_owner op of
           None \<Rightarrow> Some (VACCEL_EINVAL + 2, s)
         | Some p \<Rightarrow> do {
             s \<leftarrow> p_do (list_add_tail (PlugOps p) (OpPlug a)) s;
             s \<leftarrow> p_do (list_add_tail (OpsHead (unat (op_type op))) (OpFunc a)) s;
             pl \<leftarrow> plugins s p;
             info \<leftarrow> pinfo pl;
             Some (VACCEL_OK, s) } })"

fun register_plugin_functions :: "addr list \<Rightarrow> 'z plug_state_scheme \<Rightarrow> (int \<times> 'z plug_state_scheme) option" where
  "register_plugin_functions [] s = Some (VACCEL_OK, s)"
| "register_plugin_functions (a # as) s = do {
     (ret, s) \<leftarrow> register_plugin_function (Some a) s;
     if ret \<noteq> 0 then Some (ret, s) else register_plugin_functions as s }"

text \<open>The information of the plugin that owns an operation: \<open>op->owner->info\<close>.\<close>

definition owner_info :: "'z plug_state_scheme \<Rightarrow> vaccel_op \<Rightarrow> vaccel_plugin_info option" where
  "owner_info s op = do { p \<leftarrow> op_owner op; pl \<leftarrow> plugins s p; pinfo pl }"

definition hint_match :: "u32 \<Rightarrow> plink \<Rightarrow> 'z plug_state_scheme \<Rightarrow> (addr option \<times> 'z plug_state_scheme) option" where
  "hint_match priority e s = (case e of
       OpFunc a \<Rightarrow> do {
         op \<leftarrow> ops s a;
         info \<leftarrow> owner_info s op;
         if priority AND ptype info \<noteq> 0 then Some (Some a, s) else Some (None, s) }
     | _ \<Rightarrow> None)"

definition get_plugin_op :: "nat \<Rightarrow> u32 \<Rightarrow> 'z plug_state_scheme \<Rightarrow> ptr option" where
  "get_plugin_op ty hnt s =
     (if VACCEL_FUNCTIONS_NR \<le> ty then Some None
      else do {
        empty \<leftarrow> list_empty (OpsHead ty) (p_links s);
        if empty then Some None
        else do {
          (found, _) \<leftarrow> (if hnt \<noteq> 0 then for_each_container_safe p_next (OpsHead ty) (hint_match hnt) s
                         else Some (None, s));
          a \<leftarrow> (case found of Some a \<Rightarrow> Some a
               | None \<Rightarrow> do { e \<leftarrow> p_next s (OpsHead ty); case e of OpFunc a \<Rightarrow> Some a | _ \<Rightarrow> None });
          op \<leftarrow> ops s a;
          info \<leftarrow> owner_info s op;
          Some (op_func op) } })"

definition get_virtio_plugin :: "'z plug_state_scheme \<Rightarrow> ptr" where
  "get_virtio_plugin s = virtio s"

definition plugins_bootstrap :: "'z plug_state_scheme \<Rightarrow> (int \<times> 'z plug_state_scheme) option" where
  "plugins_bootstrap s = do {
     s \<leftarrow> p_do (list_init PluginsHead) s;
     s \<leftarrow> p_do (list_init_all (map OpsHead [0..<VACCEL_FUNCTIONS_NR])) s;
     Some (VACCEL_OK, s\<lparr>plug_initialized := True\<rparr>) }"

definition shutdown_plugin :: "plink \<Rightarrow> 'z plug_state_scheme \<Rightarrow> (unit option \<times> 'z plug_state_scheme) option" where
  "shutdown_plugin e s = (case e of
       PlugEntry p \<Rightarrow> do { (_, s) \<leftarrow> unregister_plugin (Some p) s; Some (None, s) }
     | _ \<Rightarrow> None)"

definition plugins_shutdown :: "'z plug_state_scheme \<Rightarrow> (int \<times> 'z plug_state_scheme) option" where
  "plugins_shutdown s =
     (if \<not> plug_initialized s then Some (VACCEL_OK, s)
      else do {
        (_, s) \<leftarrow> for_each_container_safe p_next PluginsHead shutdown_plugin s;
        let s = (if virtio s \<noteq> None then s\<lparr>virtio := None\<rparr> else s);
        Some (VACCEL_OK, s\<lparr>plug_initialized := False\<rparr>) })"

subsection \<open>The abstract registry\<close>

record registry =
  r_plugins :: "addr list"
  r_impls :: "nat \<Rightarrow> addr list"
  r_ops :: "addr \<Rightarrow> addr list"

text \<open>The lists the registry is stored in, for the loaded plugins \<open>A\<close> and operations \<open>D\<close>.\<close>

fun plug_fam :: "addr set \<Rightarrow> addr set \<Rightarrow> registry \<Rightarrow> plink \<Rightarrow> plink list option" where
  "plug_fam A D R PNull = None"
| "plug_fam A D R PluginsHead = Some (map PlugEntry (r_plugins R))"
| "plug_fam A D R (OpsHead t) = (if t < VACCEL_FUNCTIONS_NR then Some (map OpFunc (r_impls R t)) else None)"
| "plug_fam A D R (PlugEntry p) = (if p \<in> A \<and> p \<notin> set (r_plugins R) then Some [] else None)"
| "plug_fam A D R (PlugOps p) = (if p \<in> A then Some (map OpPlug (r_ops R p)) else None)"
| "plug_fam A D R (OpPlug a) = (if a \<in> D \<and> (\<forall>p\<in>A. a \<notin> set (r_ops R p)) then Some [] else None)"
| "plug_fam A D R (OpFunc a) =
     (if a \<in> D \<and> (\<forall>t<VACCEL_FUNCTIONS_NR. a \<notin> set (r_impls R t)) then Some [] else None)"

text \<open>
  The records agree with the registry: an operation is in the list of its type exactly when it is
  in the list of its owner, and an owner of registered operations has its information.
\<close>

definition plug_rel :: "(addr \<Rightarrow> vaccel_plugin option) \<Rightarrow> (addr \<Rightarrow> vaccel_op option) \<Rightarrow> registry \<Rightarrow> bool" where
  "plug_rel pls opm R \<longleftrightarrow>
     set (r_plugins R) \<subseteq> dom pls
   \<and> (\<forall>p\<in>set (r_plugins R). \<exists>pl info. pls p = Some pl \<and> pinfo pl = Some info \<and> check_plugin_info info = VACCEL_OK)
   \<and> (\<forall>t<VACCEL_FUNCTIONS_NR. \<forall>a\<in>set (r_impls R t). \<exists>op p pl info. opm a = Some op \<and> unat (op_type op) = t
        \<and> op_owner op = Some p \<and> pls p = Some pl \<and> pinfo pl = Some info \<and> a \<in> set (r_ops R p) \<and> op_func op \<noteq> None)
   \<and> (\<forall>p\<in>dom pls. \<forall>a\<in>set (r_ops R p). \<exists>op. opm a = Some op \<and> op_owner op = Some p
        \<and> unat (op_type op) < VACCEL_FUNCTIONS_NR \<and> a \<in> set (r_impls R (unat (op_type op))))"

definition plug_ok :: "'z plug_state_scheme \<Rightarrow> registry \<Rightarrow> bool" where
  "plug_ok s R \<longleftrightarrow> family (p_links s) (plug_fam (dom (plugins s)) (dom (ops s)) R)
     \<and> plug_rel (plugins s) (ops s) R"

lemma plug_ok_cong:
  "p_links s' = p_links s \<Longrightarrow> plugins s' = plugins s \<Longrightarrow> ops s' = ops s \<Longrightarrow> plug_ok s' R = plug_ok s R"
  by (simp add: plug_ok_def)

lemma plug_ok_virtio [simp]:
  "plug_ok (s\<lparr>virtio := v\<rparr>) R = plug_ok s R"
  "plug_ok (s\<lparr>p_events := e\<rparr>) R = plug_ok s R"
  "plug_ok (s\<lparr>plug_initialized := b\<rparr>) R = plug_ok s R"
  by (simp_all add: plug_ok_def)

lemma plug_ok_family: "plug_ok s R \<Longrightarrow> family (p_links s) (plug_fam (dom (plugins s)) (dom (ops s)) R)"
  by (simp add: plug_ok_def)

lemma plug_ok_list:
  "plug_ok s R \<Longrightarrow> plug_fam (dom (plugins s)) (dom (ops s)) R l = Some xs \<Longrightarrow> is_list (p_links s) l xs"
  by (rule family_is_list [OF plug_ok_family])

lemma plug_ok_distinct:
  assumes "plug_ok s R"
  shows "distinct (r_plugins R)" "t < VACCEL_FUNCTIONS_NR \<Longrightarrow> distinct (r_impls R t)"
    "p \<in> dom (plugins s) \<Longrightarrow> distinct (r_ops R p)"
  using family_distinct [OF plug_ok_family [OF assms], of PluginsHead]
    family_distinct [OF plug_ok_family [OF assms], of "OpsHead t"]
    family_distinct [OF plug_ok_family [OF assms], of "PlugOps p"]
  by (auto simp: distinct_map)

lemma plug_rel_impl:
  assumes "plug_rel pls opm R" "t < VACCEL_FUNCTIONS_NR" "a \<in> set (r_impls R t)"
  obtains op p pl info where "opm a = Some op" "unat (op_type op) = t" "op_owner op = Some p"
    "pls p = Some pl" "pinfo pl = Some info" "a \<in> set (r_ops R p)"
  using assms unfolding plug_rel_def by blast

lemma plug_rel_func:
  assumes "plug_rel pls opm R" "t < VACCEL_FUNCTIONS_NR" "a \<in> set (r_impls R t)" "opm a = Some op"
  shows "op_func op \<noteq> None"
  using assms unfolding plug_rel_def by (metis option.inject)

lemma plug_rel_op:
  assumes "plug_rel pls opm R" "p \<in> dom pls" "a \<in> set (r_ops R p)"
  obtains op where "opm a = Some op" "op_owner op = Some p"
    "unat (op_type op) < VACCEL_FUNCTIONS_NR" "a \<in> set (r_impls R (unat (op_type op)))"
  using assms unfolding plug_rel_def by blast

lemma plug_rel_plugin:
  assumes "plug_rel pls opm R" "p \<in> set (r_plugins R)"
  obtains pl info where "pls p = Some pl" "pinfo pl = Some info" "check_plugin_info info = VACCEL_OK"
  using assms unfolding plug_rel_def by blast

lemma plug_ok_loaded: "plug_ok s R \<Longrightarrow> p \<in> set (r_plugins R) \<Longrightarrow> p \<in> dom (plugins s)"
  by (auto simp: plug_ok_def elim: plug_rel_plugin)

text \<open>A loaded plugin's entry is linked exactly when the plugin is registered.\<close>

lemma plugin_entry_linked:
  assumes "plug_ok s R" "p \<in> dom (plugins s)"
  shows "entry_linked (PlugEntry p) (p_links s) = Some (p \<in> set (r_plugins R))"
proof (cases "p \<in> set (r_plugins R)")
  case True
  then show ?thesis using entry_linked_in [OF plug_ok_list [OF assms(1), of PluginsHead]] by simp
next
  case False
  then show ?thesis using entry_linked_self [OF plug_ok_list [OF assms(1), of "PlugEntry p"]] assms(2)
    by simp
qed

subsection \<open>Registering\<close>

definition reg_plugin :: "addr \<Rightarrow> registry \<Rightarrow> registry" where
  "reg_plugin p R = R\<lparr>r_plugins := r_plugins R @ [p]\<rparr>"

lemma plug_fam_reg_plugin:
  assumes "p \<in> A" "p \<notin> set (r_plugins R)"
  shows "(plug_fam A D R)(PlugEntry p := None, PluginsHead \<mapsto> map PlugEntry (r_plugins R) @ [PlugEntry p])
    = plug_fam A D (reg_plugin p R)"
proof
  fix e show "((plug_fam A D R)(PlugEntry p := None, PluginsHead \<mapsto> map PlugEntry (r_plugins R) @ [PlugEntry p])) e
    = plug_fam A D (reg_plugin p R) e"
    by (cases e) (use assms in \<open>auto simp: reg_plugin_def\<close>)
qed

lemma register_plugin_ok:
  assumes ok: "plug_ok s R" and "plug_initialized s" and pl: "plugins s p = Some pl" "pinfo pl = Some info"
    and chk: "check_plugin_info info = VACCEL_OK" and new: "p \<notin> set (r_plugins R)" "r_ops R p = []"
  obtains h where "register_plugin (Some p) s = Some (VACCEL_OK, s\<lparr>p_links := h,
      virtio := (if is_virtio_plugin info \<and> virtio s = None then Some p else virtio s)\<rparr>)"
    "plug_ok (s\<lparr>p_links := h\<rparr>) (reg_plugin p R)"
proof -
  let ?C = "plug_fam (dom (plugins s)) (dom (ops s)) R"
  have p: "p \<in> dom (plugins s)" using pl by auto
  have "\<exists>h. list_add_tail PluginsHead (PlugEntry p) (p_links s) = Some h
      \<and> family h (?C(PlugEntry p := None, PluginsHead \<mapsto> map PlugEntry (r_plugins R) @ [PlugEntry p]))
      \<and> allocated h = allocated (p_links s)"
    by (rule ll.add_single [OF plug_ok_family [OF ok]]) (use p new in auto)
  then obtain h where h: "list_add_tail PluginsHead (PlugEntry p) (p_links s) = Some h"
    "family h (plug_fam (dom (plugins s)) (dom (ops s)) (reg_plugin p R))"
    using plug_fam_reg_plugin [OF p new(1)] by metis
  have "plug_rel (plugins s) (ops s) (reg_plugin p R)"
    using ok pl chk unfolding plug_ok_def plug_rel_def reg_plugin_def by auto
  then have ok': "plug_ok (s\<lparr>p_links := h\<rparr>) (reg_plugin p R)" using h(2) by (simp add: plug_ok_def)
  have "list_empty (PlugOps p) (p_links s) = Some True"
    using list_empty_spec [OF plug_ok_list [OF ok, of "PlugOps p"]] p new by simp
  then have run: "register_plugin (Some p) s = Some (VACCEL_OK, s\<lparr>p_links := h,
      virtio := (if is_virtio_plugin info \<and> virtio s = None then Some p else virtio s)\<rparr>)"
    using assms plugin_entry_linked [OF ok p] h(1)
    by (simp add: register_plugin_def p_do_def del: VACCEL_EINVAL_def)
  show thesis by (rule that [OF run ok'])
qed

text \<open>Every other call of \<open>register_plugin\<close> is refused and changes nothing.\<close>

lemma register_plugin_refused:
  "register_plugin None s = Some (VACCEL_EINVAL, s)"
  "\<not> plug_initialized s \<Longrightarrow> register_plugin (Some p) s = Some (VACCEL_EBACKEND, s)"
  "plug_initialized s \<Longrightarrow> plug_ok s R \<Longrightarrow> p \<in> set (r_plugins R) \<Longrightarrow>
    register_plugin (Some p) s = Some (VACCEL_EEXISTS, s)"
  "plug_initialized s \<Longrightarrow> plug_ok s R \<Longrightarrow> p \<in> dom (plugins s) \<Longrightarrow> p \<notin> set (r_plugins R) \<Longrightarrow>
    r_ops R p \<noteq> [] \<Longrightarrow> register_plugin (Some p) s = Some (VACCEL_EINVAL, s)"
  "plug_initialized s \<Longrightarrow> plug_ok s R \<Longrightarrow> plugins s p = Some pl \<Longrightarrow> pinfo pl = Some info \<Longrightarrow>
    p \<notin> set (r_plugins R) \<Longrightarrow> r_ops R p = [] \<Longrightarrow> check_plugin_info info \<noteq> VACCEL_OK \<Longrightarrow>
    register_plugin (Some p) s = Some (VACCEL_EINVAL, s)"
proof -
  show "register_plugin None s = Some (VACCEL_EINVAL, s)"
    "\<not> plug_initialized s \<Longrightarrow> register_plugin (Some p) s = Some (VACCEL_EBACKEND, s)"
    by (simp_all add: register_plugin_def)
  assume i: "plug_initialized s" and ok: "plug_ok s R"
  show "p \<in> set (r_plugins R) \<Longrightarrow> register_plugin (Some p) s = Some (VACCEL_EEXISTS, s)"
    using i plugin_entry_linked [OF ok plug_ok_loaded [OF ok]]
    by (simp add: register_plugin_def del: VACCEL_EEXISTS_def)
  assume new: "p \<notin> set (r_plugins R)"
  show "p \<in> dom (plugins s) \<Longrightarrow> r_ops R p \<noteq> [] \<Longrightarrow> register_plugin (Some p) s = Some (VACCEL_EINVAL, s)"
    using i new plugin_entry_linked [OF ok] list_empty_spec [OF plug_ok_list [OF ok, of "PlugOps p"]]
    by (simp add: register_plugin_def del: VACCEL_EINVAL_def)
  show "plugins s p = Some pl \<Longrightarrow> pinfo pl = Some info \<Longrightarrow> r_ops R p = [] \<Longrightarrow>
      check_plugin_info info \<noteq> VACCEL_OK \<Longrightarrow> register_plugin (Some p) s = Some (VACCEL_EINVAL, s)"
    using i new plugin_entry_linked [OF ok, of p] list_empty_spec [OF plug_ok_list [OF ok, of "PlugOps p"]]
    by (simp add: register_plugin_def domI del: VACCEL_EINVAL_def)
qed

definition reg_function :: "addr \<Rightarrow> vaccel_op \<Rightarrow> addr \<Rightarrow> registry \<Rightarrow> registry" where
  "reg_function a op p R = R\<lparr>r_impls := (r_impls R)(unat (op_type op) := r_impls R (unat (op_type op)) @ [a]),
     r_ops := (r_ops R)(p := r_ops R p @ [a])\<rparr>"

definition op_unlinked :: "'z plug_state_scheme \<Rightarrow> registry \<Rightarrow> addr \<Rightarrow> bool" where
  "op_unlinked s R a \<longleftrightarrow> (\<forall>p\<in>dom (plugins s). a \<notin> set (r_ops R p))"

lemma op_unlinked_impl:
  assumes "plug_rel (plugins s) (ops s) R" "op_unlinked s R a" "t < VACCEL_FUNCTIONS_NR"
  shows "a \<notin> set (r_impls R t)"
proof
  assume "a \<in> set (r_impls R t)"
  then obtain p pl where "plugins s p = Some pl" "a \<in> set (r_ops R p)"
    by (rule plug_rel_impl [OF assms(1,3)])
  then show False using assms(2) by (auto simp: op_unlinked_def)
qed

lemma reg_function_mem:
  "b \<in> set (r_impls (reg_function a op p R) t) \<longleftrightarrow> b \<in> set (r_impls R t) \<or> (t = unat (op_type op) \<and> b = a)"
  "b \<in> set (r_ops (reg_function a op p R) q) \<longleftrightarrow> b \<in> set (r_ops R q) \<or> (q = p \<and> b = a)"
  by (auto simp: reg_function_def)

lemma plug_fam_reg_function:
  assumes "unat (op_type op) < VACCEL_FUNCTIONS_NR" "p \<in> A"
  shows "(plug_fam A D R)(OpPlug a := None, PlugOps p \<mapsto> map OpPlug (r_ops R p) @ [OpPlug a], OpFunc a := None,
      OpsHead (unat (op_type op)) \<mapsto> map OpFunc (r_impls R (unat (op_type op))) @ [OpFunc a])
    = plug_fam A D (reg_function a op p R)"
proof
  fix e show "((plug_fam A D R)(OpPlug a := None, PlugOps p \<mapsto> map OpPlug (r_ops R p) @ [OpPlug a], OpFunc a := None,
      OpsHead (unat (op_type op)) \<mapsto> map OpFunc (r_impls R (unat (op_type op))) @ [OpFunc a])) e
    = plug_fam A D (reg_function a op p R) e"
  proof (cases e)
    case (OpFunc b)
    then show ?thesis using assms by (auto simp: reg_function_mem)
  next
    case (OpPlug b)
    then show ?thesis using assms by (auto simp: reg_function_mem)
  qed (use assms in \<open>auto simp: reg_function_def\<close>)
qed

lemma plug_rel_reg_function:
  assumes rel: "plug_rel pls opm R" and op: "opm a = Some op" "unat (op_type op) < VACCEL_FUNCTIONS_NR"
    "op_owner op = Some p" "op_func op \<noteq> None" and pl: "pls p = Some pl" "pinfo pl = Some info"
  shows "plug_rel pls opm (reg_function a op p R)"
proof -
  have "\<exists>op' p' pl' info'. opm b = Some op' \<and> unat (op_type op') = t \<and> op_owner op' = Some p' \<and> pls p' = Some pl'
      \<and> pinfo pl' = Some info' \<and> b \<in> set (r_ops (reg_function a op p R) p') \<and> op_func op' \<noteq> None"
    if t: "t < VACCEL_FUNCTIONS_NR" and b: "b \<in> set (r_impls (reg_function a op p R) t)" for b t
  proof (cases "b \<in> set (r_impls R t)")
    case True
    show ?thesis by (rule plug_rel_impl [OF rel t True]) (use plug_rel_func [OF rel t True] in \<open>auto simp: reg_function_def\<close>)
  next
    case False
    then show ?thesis using b op pl by (auto simp: reg_function_def split: if_splits)
  qed
  moreover have "\<exists>op'. opm b = Some op' \<and> op_owner op' = Some q \<and> unat (op_type op') < VACCEL_FUNCTIONS_NR
      \<and> b \<in> set (r_impls (reg_function a op p R) (unat (op_type op')))"
    if q: "q \<in> dom pls" and b: "b \<in> set (r_ops (reg_function a op p R) q)" for b q
  proof (cases "b \<in> set (r_ops R q)")
    case True
    show ?thesis by (rule plug_rel_op [OF rel q True]) (auto simp: reg_function_def)
  next
    case False
    then show ?thesis using b op by (auto simp: reg_function_def split: if_splits)
  qed
  moreover have "r_plugins (reg_function a op p R) = r_plugins R" by (simp add: reg_function_def)
  ultimately show ?thesis using rel unfolding plug_rel_def by simp
qed

lemma register_plugin_function_ok:
  assumes ok: "plug_ok s R" and op: "ops s a = Some op" "op_func op \<noteq> None"
    "unat (op_type op) < VACCEL_FUNCTIONS_NR" "op_owner op = Some p"
    and pl: "plugins s p = Some pl" "pinfo pl = Some info" and new: "op_unlinked s R a"
  obtains h where "register_plugin_function (Some a) s = Some (VACCEL_OK, s\<lparr>p_links := h\<rparr>)"
    "plug_ok (s\<lparr>p_links := h\<rparr>) (reg_function a op p R)"
proof -
  let ?C = "plug_fam (dom (plugins s)) (dom (ops s)) R" and ?t = "unat (op_type op)"
  have p: "p \<in> dom (plugins s)" using pl by auto
  have rel: "plug_rel (plugins s) (ops s) R" using ok by (simp add: plug_ok_def)
  have single: "?C (OpPlug a) = Some []" "?C (OpFunc a) = Some []"
    using op(1) new op_unlinked_impl [OF rel new] by (auto simp: op_unlinked_def)
  define C1 where "C1 = ?C(OpPlug a := None, PlugOps p \<mapsto> map OpPlug (r_ops R p) @ [OpPlug a])"
  have "\<exists>h. list_add_tail (PlugOps p) (OpPlug a) (p_links s) = Some h \<and> family h C1 \<and> allocated h = allocated (p_links s)"
    unfolding C1_def by (rule ll.add_single [OF plug_ok_family [OF ok]]) (use p single in auto)
  then obtain h1 where h1: "list_add_tail (PlugOps p) (OpPlug a) (p_links s) = Some h1" "family h1 C1" by blast
  have "\<exists>h. list_add_tail (OpsHead ?t) (OpFunc a) h1 = Some h
      \<and> family h (C1(OpFunc a := None, OpsHead ?t \<mapsto> map OpFunc (r_impls R ?t) @ [OpFunc a]))
      \<and> allocated h = allocated h1"
    by (rule ll.add_single [OF h1(2)]) (use op(3) single in \<open>auto simp: C1_def\<close>)
  then obtain h where h: "list_add_tail (OpsHead ?t) (OpFunc a) h1 = Some h"
    "family h (plug_fam (dom (plugins s)) (dom (ops s)) (reg_function a op p R))"
    unfolding C1_def plug_fam_reg_function [OF op(3) p, of "dom (ops s)" R a] by blast
  have run: "register_plugin_function (Some a) s = Some (VACCEL_OK, s\<lparr>p_links := h\<rparr>)"
    using op pl h1(1) h(1) by (simp add: register_plugin_function_def p_do_def)
  have "plug_ok (s\<lparr>p_links := h\<rparr>) (reg_function a op p R)"
    using h(2) plug_rel_reg_function [OF rel op(1,3,4,2) pl] by (simp add: plug_ok_def)
  with run show thesis by (rule that)
qed

lemma register_plugin_function_refused:
  "register_plugin_function None s = Some (VACCEL_EINVAL, s)"
  "ops s a = Some op \<Longrightarrow> op_func op = None \<Longrightarrow> register_plugin_function (Some a) s = Some (VACCEL_EINVAL, s)"
  "ops s a = Some op \<Longrightarrow> op_func op \<noteq> None \<Longrightarrow> VACCEL_FUNCTIONS_NR \<le> unat (op_type op) \<Longrightarrow>
    register_plugin_function (Some a) s = Some (VACCEL_EINVAL + 1, s)"
  "ops s a = Some op \<Longrightarrow> op_func op \<noteq> None \<Longrightarrow> unat (op_type op) < VACCEL_FUNCTIONS_NR \<Longrightarrow> op_owner op = None \<Longrightarrow>
    register_plugin_function (Some a) s = Some (VACCEL_EINVAL + 2, s)"
  by (auto simp: register_plugin_function_def)

subsection \<open>Choosing an implementation\<close>

definition hint_matches :: "'z plug_state_scheme \<Rightarrow> u32 \<Rightarrow> addr \<Rightarrow> bool" where
  "hint_matches s hnt a = (case Option.bind (ops s a) (owner_info s) of
       None \<Rightarrow> False | Some info \<Rightarrow> hnt AND ptype info \<noteq> 0)"

text \<open>
  The operation a request gets: the first one of a plugin whose type has a bit of the hint, else
  the first one registered.
\<close>

definition choose_op :: "'z plug_state_scheme \<Rightarrow> u32 \<Rightarrow> addr list \<Rightarrow> addr option" where
  "choose_op s hnt as = (case List.find (hint_matches s hnt) as of
       Some a \<Rightarrow> Some a
     | None \<Rightarrow> (case as of [] \<Rightarrow> None | a # _ \<Rightarrow> Some a))"

lemma hint_matches_0 [simp]: "\<not> hint_matches s 0 a"
  by (auto simp: hint_matches_def split: option.splits)

lemma find_hint_0 [simp]: "List.find (hint_matches s 0) as = None"
  by (simp add: find_None_iff)

lemma choose_op_in: "choose_op s hnt as = Some a \<Longrightarrow> a \<in> set as"
  by (auto simp: choose_op_def find_Some_iff split: option.splits list.splits)

lemma choose_op_None: "choose_op s hnt as = None \<longleftrightarrow> as = []"
  by (cases as) (auto simp: choose_op_def split: option.splits)

definition hint_found :: "'z plug_state_scheme \<Rightarrow> u32 \<Rightarrow> plink \<Rightarrow> addr option" where
  "hint_found s hnt e = (case e of OpFunc a \<Rightarrow> if hint_matches s hnt a then Some a else None | _ \<Rightarrow> None)"

lemma find_first_hint:
  "find_first (hint_found s hnt) (map OpFunc as) = List.find (hint_matches s hnt) as"
  by (induction as) (auto simp: hint_found_def)

lemma owner_info_impl:
  assumes "plug_ok s R" "t < VACCEL_FUNCTIONS_NR" "a \<in> set (r_impls R t)"
  obtains op info where "ops s a = Some op" "owner_info s op = Some info" "unat (op_type op) = t"
proof -
  have "plug_rel (plugins s) (ops s) R" using assms(1) by (simp add: plug_ok_def)
  then show thesis by (rule plug_rel_impl [OF _ assms(2,3)]) (rule that; simp add: owner_info_def)
qed

lemma hint_match_body:
  assumes "plug_ok s R" "t < VACCEL_FUNCTIONS_NR" "e \<in> set (map OpFunc (r_impls R t))"
  shows "hint_match hnt e s = Some (hint_found s hnt e, s)"
proof -
  obtain a where a: "e = OpFunc a" "a \<in> set (r_impls R t)" using assms(3) by auto
  show ?thesis using a
    by (auto simp: hint_match_def hint_found_def hint_matches_def intro: owner_info_impl [OF assms(1,2) a(2)])
qed

lemma get_plugin_op_spec:
  assumes ok: "plug_ok s R" and t: "t < VACCEL_FUNCTIONS_NR"
  shows "get_plugin_op t hnt s = Some (case choose_op s hnt (r_impls R t) of
      None \<Rightarrow> None | Some a \<Rightarrow> Option.bind (ops s a) op_func)"
proof (cases "r_impls R t")
  case Nil
  then show ?thesis using t list_empty_spec [OF plug_ok_list [OF ok, of "OpsHead t"]]
    by (simp add: get_plugin_op_def choose_op_def)
next
  case (Cons b bs)
  have il: "is_list (p_links s) (OpsHead t) (map OpFunc (r_impls R t))"
    using plug_ok_list [OF ok, of "OpsHead t"] t by simp
  have first: "p_next s (OpsHead t) = Some (OpFunc b)"
    using is_list_first [OF il] Cons by (simp add: p_next_def)
  have search: "for_each_container_safe p_next (OpsHead t) (hint_match hnt) s =
      Some (List.find (hint_matches s hnt) (r_impls R t), s)"
    unfolding find_first_hint [symmetric]
    by (rule for_each_container_search(2) [OF il]) (auto simp: p_next_def intro: hint_match_body [OF ok t])
  obtain a where a: "choose_op s hnt (r_impls R t) = Some a" "a \<in> set (r_impls R t)"
    using choose_op_None [of s hnt "r_impls R t"] choose_op_in [of s hnt "r_impls R t"] Cons by fastforce
  obtain op info where op: "ops s a = Some op" "owner_info s op = Some info"
    using owner_info_impl [OF ok t a(2)] .
  have cho: "choose_op s hnt (r_impls R t) = (case List.find (hint_matches s hnt) (r_impls R t) of
      Some x \<Rightarrow> Some x | None \<Rightarrow> Some b)" using Cons by (simp add: choose_op_def split: option.split)
  have ne: "list_empty (OpsHead t) (p_links s) = Some False" using list_empty_spec [OF il] Cons by simp
  show ?thesis
  proof (cases "List.find (hint_matches s hnt) (r_impls R t)")
    case None
    then have "a = b" using a(1) cho by simp
    then show ?thesis using t ne search None first op a(1) by (simp add: get_plugin_op_def)
  next
    case (Some c)
    then have "a = c" "hnt \<noteq> 0" using a(1) cho by auto
    then show ?thesis using t ne search Some op a(1) by (simp add: get_plugin_op_def)
  qed
qed

subsection \<open>Unregistering\<close>

definition drop_ops :: "addr set \<Rightarrow> addr \<Rightarrow> registry \<Rightarrow> registry" where
  "drop_ops K p R = R\<lparr>r_impls := \<lambda>t. filter (\<lambda>a. a \<notin> K) (r_impls R t),
     r_ops := (r_ops R)(p := filter (\<lambda>a. a \<notin> K) (r_ops R p))\<rparr>"

lemma drop_ops_simps [simp]:
  "r_plugins (drop_ops K p R) = r_plugins R"
  "r_impls (drop_ops K p R) t = filter (\<lambda>a. a \<notin> K) (r_impls R t)"
  "r_ops (drop_ops K p R) q = (if q = p then filter (\<lambda>a. a \<notin> K) (r_ops R p) else r_ops R q)"
  by (simp_all add: drop_ops_def)

lemma drop_ops_mem:
  "b \<in> set (r_ops (drop_ops {a} p R) q) \<longleftrightarrow> b \<in> set (r_ops R q) \<and> (q = p \<longrightarrow> b \<noteq> a)"
  by auto

lemma drop_ops_empty [simp]: "drop_ops {} p R = R"
  by (simp add: drop_ops_def fun_upd_idem)

lemma drop_ops_insert: "drop_ops {a} p (drop_ops K p R) = drop_ops (insert a K) p R"
  by (simp add: drop_ops_def conj_commute)

lemma filter_neq_idem: "a \<notin> set xs \<Longrightarrow> filter (\<lambda>x. x \<noteq> a) xs = xs"
  by (induction xs) auto

lemma filter_drop1: "distinct (xs @ a # ys) \<Longrightarrow> filter (\<lambda>x. x \<noteq> a) (xs @ a # ys) = xs @ ys"
  by (auto simp: filter_neq_idem)

lemma plug_rel_drop:
  assumes rel: "plug_rel pls opm R" and op: "opm a = Some op" "op_owner op = Some p"
  shows "plug_rel pls opm (drop_ops {a} p R)"
proof -
  have "\<exists>op' p' pl info. opm b = Some op' \<and> unat (op_type op') = t \<and> op_owner op' = Some p' \<and> pls p' = Some pl
      \<and> pinfo pl = Some info \<and> b \<in> set (r_ops (drop_ops {a} p R) p') \<and> op_func op' \<noteq> None"
    if t: "t < VACCEL_FUNCTIONS_NR" and b: "b \<in> set (r_impls (drop_ops {a} p R) t)" for b t
    by (rule plug_rel_impl [OF rel t, of b]) (use b plug_rel_func [OF rel t, of b] in auto)
  moreover have "\<exists>op'. opm b = Some op' \<and> op_owner op' = Some q \<and> unat (op_type op') < VACCEL_FUNCTIONS_NR
      \<and> b \<in> set (r_impls (drop_ops {a} p R) (unat (op_type op')))"
    if q: "q \<in> dom pls" and b: "b \<in> set (r_ops (drop_ops {a} p R) q)" for b q
    by (rule plug_rel_op [OF rel q, of b]) (use b op in \<open>auto split: if_splits\<close>)
  ultimately show ?thesis using rel unfolding plug_rel_def by simp
qed

lemma plug_fam_drop:
  assumes op: "unat (op_type op) < VACCEL_FUNCTIONS_NR" "a \<in> D" and p: "p \<in> A"
    and ps: "r_ops R p = ps1 @ a # ps2" "distinct (r_ops R p)"
    and fs: "r_impls R (unat (op_type op)) = fs1 @ a # fs2" "distinct (r_impls R (unat (op_type op)))"
    and only: "\<And>t. t < VACCEL_FUNCTIONS_NR \<Longrightarrow> t \<noteq> unat (op_type op) \<Longrightarrow> a \<notin> set (r_impls R t)"
    and own: "\<And>q. q \<in> A \<Longrightarrow> q \<noteq> p \<Longrightarrow> a \<notin> set (r_ops R q)"
  shows "(plug_fam A D R)(OpsHead (unat (op_type op)) \<mapsto> map OpFunc (fs1 @ fs2), OpFunc a \<mapsto> [],
      PlugOps p \<mapsto> map OpPlug (ps1 @ ps2), OpPlug a \<mapsto> [])
    = plug_fam A D (drop_ops {a} p R)"
proof
  fix e show "((plug_fam A D R)(OpsHead (unat (op_type op)) \<mapsto> map OpFunc (fs1 @ fs2), OpFunc a \<mapsto> [],
      PlugOps p \<mapsto> map OpPlug (ps1 @ ps2), OpPlug a \<mapsto> [])) e
    = plug_fam A D (drop_ops {a} p R) e"
  proof (cases e)
    case (OpsHead t)
    then show ?thesis using op only [of t] filter_drop1 [of fs1 a fs2] fs
      by (auto simp: filter_neq_idem)
  next
    case (PlugOps q)
    then show ?thesis using p filter_drop1 [of ps1 a ps2] ps by auto
  next
    case (OpPlug b)
    have "(\<forall>q\<in>A. b \<notin> set (r_ops (drop_ops {a} p R) q)) \<longleftrightarrow> b = a \<or> (\<forall>q\<in>A. b \<notin> set (r_ops R q))"
      unfolding drop_ops_mem using own by auto
    then show ?thesis using OpPlug op(2) by (simp del: drop_ops_simps)
  next
    case (OpFunc b)
    then show ?thesis using op only p fs by auto
  qed auto
qed

lemma unregister_op_ok:
  assumes ok: "plug_ok s R" and p: "p \<in> dom (plugins s)" and a: "a \<in> set (r_ops R p)"
  obtains h where "unregister_op (OpPlug a) s = Some (None, s\<lparr>p_links := h\<rparr>)"
    "plug_ok (s\<lparr>p_links := h\<rparr>) (drop_ops {a} p R)"
proof -
  let ?C = "plug_fam (dom (plugins s)) (dom (ops s)) R"
  have rel: "plug_rel (plugins s) (ops s) R" using ok by (simp add: plug_ok_def)
  obtain op where op: "ops s a = Some op" "op_owner op = Some p" "unat (op_type op) < VACCEL_FUNCTIONS_NR"
    "a \<in> set (r_impls R (unat (op_type op)))" using plug_rel_op [OF rel p a] .
  let ?t = "unat (op_type op)"
  obtain ps1 ps2 where ps: "r_ops R p = ps1 @ a # ps2" using a by (metis split_list)
  obtain fs1 fs2 where fs: "r_impls R ?t = fs1 @ a # fs2" using op(4) by (metis split_list)
  have aD: "a \<in> dom (ops s)" using op(1) by auto
  define C1 where "C1 = ?C(OpsHead ?t \<mapsto> map OpFunc (fs1 @ fs2), OpFunc a \<mapsto> [])"
  have "\<exists>h. list_unlink_entry (OpFunc a) (p_links s) = Some h
      \<and> family h (?C(OpsHead ?t \<mapsto> map OpFunc fs1 @ map OpFunc fs2, OpFunc a \<mapsto> [])) \<and> allocated h = allocated (p_links s)"
    by (rule ll.unlink_law [OF plug_ok_family [OF ok]]) (use op(3) fs in simp)
  then obtain h1 where h1: "list_unlink_entry (OpFunc a) (p_links s) = Some h1" "family h1 C1"
    unfolding C1_def by auto
  have "\<exists>h. list_unlink_entry (OpPlug a) h1 = Some h
      \<and> family h (C1(PlugOps p \<mapsto> map OpPlug ps1 @ map OpPlug ps2, OpPlug a \<mapsto> [])) \<and> allocated h = allocated h1"
    by (rule ll.unlink_law [OF h1(2)]) (use p ps in \<open>simp add: C1_def\<close>)
  then obtain h where h: "list_unlink_entry (OpPlug a) h1 = Some h"
    "family h (C1(PlugOps p \<mapsto> map OpPlug (ps1 @ ps2), OpPlug a \<mapsto> []))" by auto
  have only: "a \<notin> set (r_impls R t)" if "t < VACCEL_FUNCTIONS_NR" "t \<noteq> ?t" for t
    using that op(1) plug_rel_impl [OF rel that(1), of a] by force
  have own: "a \<notin> set (r_ops R q)" if "q \<in> dom (plugins s)" "q \<noteq> p" for q
    using that op(1,2) plug_rel_op [OF rel that(1), of a] by force
  have "family h (plug_fam (dom (plugins s)) (dom (ops s)) (drop_ops {a} p R))"
    using h(2) plug_fam_drop [OF op(3) aD p ps _ fs _ only own]
      plug_ok_distinct [OF ok] op(3) p by (simp add: C1_def)
  then have ok': "plug_ok (s\<lparr>p_links := h\<rparr>) (drop_ops {a} p R)"
    using plug_rel_drop [OF rel op(1,2)] by (simp add: plug_ok_def)
  have run: "unregister_op (OpPlug a) s = Some (None, s\<lparr>p_links := h\<rparr>)"
    using h1(1) h(1) by (simp add: unregister_op_def p_do_def)
  show thesis by (rule that [OF run ok'])
qed

text \<open>The loop of \<open>unregister_plugin\<close> unlinks every operation of the plugin.\<close>

definition unreg_inv :: "'z plug_state_scheme \<Rightarrow> registry \<Rightarrow> addr \<Rightarrow> plink list \<Rightarrow> 'z plug_state_scheme \<Rightarrow> bool" where
  "unreg_inv s R p es s' \<longleftrightarrow> (\<exists>h K. s' = s\<lparr>p_links := h\<rparr> \<and> plug_ok s' (drop_ops K p R)
     \<and> es = map OpPlug (filter (\<lambda>a. a \<notin> K) (r_ops R p)) \<and> K \<subseteq> set (r_ops R p))"

lemma unreg_inv_step:
  assumes p: "p \<in> dom (plugins s)" and inv: "unreg_inv s R p (y # ys) s1"
  shows "y \<noteq> PlugOps p \<and> (\<exists>s' n. unregister_op y s1 = Some (None, s') \<and> unreg_inv s R p ys s'
    \<and> p_next s' (first_or (PlugOps p) ys) = Some n \<and> (ys \<noteq> [] \<longrightarrow> n = first_or (PlugOps p) (tl ys)))"
proof -
  from inv obtain h K where s1: "s1 = s\<lparr>p_links := h\<rparr>" and ok: "plug_ok s1 (drop_ops K p R)"
    and es: "y # ys = map OpPlug (filter (\<lambda>a. a \<notin> K) (r_ops R p))" and K: "K \<subseteq> set (r_ops R p)"
    unfolding unreg_inv_def by (elim exE conjE) (rule that)
  from es obtain a as where a: "y = OpPlug a" "ys = map OpPlug as" "filter (\<lambda>a. a \<notin> K) (r_ops R p) = a # as"
    by (auto simp: Cons_eq_map_conv)
  have p1: "p \<in> dom (plugins s1)" using p s1 by simp
  have aK: "a \<in> set (r_ops R p)" using a(3) by (metis list.set_intros(1) filter_is_subset subsetD)
  have in1: "a \<in> set (r_ops (drop_ops K p R) p)" using a(3) by simp
  obtain h' where h': "unregister_op (OpPlug a) s1 = Some (None, s1\<lparr>p_links := h'\<rparr>)"
    "plug_ok (s1\<lparr>p_links := h'\<rparr>) (drop_ops {a} p (drop_ops K p R))"
    using unregister_op_ok [OF ok p1 in1] .
  have d: "distinct (a # as)" using plug_ok_distinct(3) [OF ok p1] a(3) by simp
  have as: "filter (\<lambda>x. x \<notin> insert a K) (r_ops R p) = as"
  proof -
    have "filter (\<lambda>x. x \<notin> insert a K) (r_ops R p) = filter (\<lambda>x. x \<noteq> a) (filter (\<lambda>x. x \<notin> K) (r_ops R p))"
      by (simp add: conj_commute)
    also have "\<dots> = as" unfolding a(3) using d by (auto intro: filter_True)
    finally show ?thesis .
  qed
  have ok': "plug_ok (s\<lparr>p_links := h'\<rparr>) (drop_ops (insert a K) p R)"
    using h'(2) s1 by (simp add: drop_ops_insert)
  have inv': "unreg_inv s R p ys (s\<lparr>p_links := h'\<rparr>)"
    unfolding unreg_inv_def using ok' as a(2) K aK by blast
  have "is_list h' (PlugOps p) ([] @ ys)"
    using plug_ok_list [OF ok', of "PlugOps p"] p as a(2) by simp
  from next_of_first [OF this] obtain n where
    n: "nxt h' (first_or (PlugOps p) ys) = Some n" "ys \<noteq> [] \<longrightarrow> n = first_or (PlugOps p) (tl ys)" by blast
  show ?thesis using a(1) h'(1) inv' n s1 by (auto simp: p_next_def)
qed

lemma unregister_ops_ok:
  assumes ok: "plug_ok s R" and p: "p \<in> dom (plugins s)"
  obtains h where "for_each_container_safe p_next (PlugOps p) unregister_op s = Some (None, s\<lparr>p_links := h\<rparr>)"
    "plug_ok (s\<lparr>p_links := h\<rparr>) (drop_ops (set (r_ops R p)) p R)"
proof -
  have il: "is_list (p_links s) (PlugOps p) ([] @ map OpPlug (r_ops R p))"
    using plug_ok_list [OF ok, of "PlugOps p"] p by simp
  obtain n where n: "p_next s (first_or (PlugOps p) (map OpPlug (r_ops R p))) = Some n"
    "map OpPlug (r_ops R p) \<noteq> [] \<longrightarrow> n = first_or (PlugOps p) (tl (map OpPlug (r_ops R p)))"
    using next_of_first [OF il] unfolding p_next_def by blast
  have f: "p_next s (PlugOps p) = Some (first_or (PlugOps p) (map OpPlug (r_ops R p)))"
    using is_list_first [OF il] by (simp add: p_next_def)
  have "unreg_inv s R p (map OpPlug (r_ops R p)) s"
    unfolding unreg_inv_def by (rule exI [of _ "p_links s"], rule exI [of _ "{}"]) (use ok in simp)
  from for_each_safe_loop_run [where I = "unreg_inv s R p" and rd = p_next and l = "PlugOps p" and body = unregister_op,
      OF unreg_inv_step [OF p] this n(2)]
  obtain s' where s': "for_each_safe_loop p_next (PlugOps p) unregister_op
      (first_or (PlugOps p) (map OpPlug (r_ops R p))) n s = Some (None, s')" "unreg_inv s R p [] s'"
    by blast
  then obtain h K where hK: "s' = s\<lparr>p_links := h\<rparr>" "plug_ok s' (drop_ops K p R)"
    "filter (\<lambda>a. a \<notin> K) (r_ops R p) = []" "K \<subseteq> set (r_ops R p)"
    unfolding unreg_inv_def by auto
  have "K = set (r_ops R p)" using hK(3,4) by (auto simp: filter_empty_conv)
  then show thesis using that hK s'(1) f n(1) by (simp add: for_each_container_safe_def)
qed

definition unreg_plugin :: "addr \<Rightarrow> registry \<Rightarrow> registry" where
  "unreg_plugin p R = \<lparr>r_plugins = filter (\<lambda>q. q \<noteq> p) (r_plugins R),
     r_impls = \<lambda>t. filter (\<lambda>a. a \<notin> set (r_ops R p)) (r_impls R t), r_ops = (r_ops R)(p := [])\<rparr>"

definition closing :: "addr \<Rightarrow> vaccel_plugin \<Rightarrow> pevent list" where
  "closing p pl = Fini p # (case dl_handle pl of None \<Rightarrow> [] | Some dl \<Rightarrow> [Dlclose dl])"

lemma unregister_plugin_ok:
  assumes ok: "plug_ok s R" and i: "plug_initialized s" and p: "p \<in> set (r_plugins R)" "plugins s p = Some pl"
  obtains h where "unregister_plugin (Some p) s = Some (VACCEL_OK, s\<lparr>p_links := h, p_events := p_events s @ closing p pl\<rparr>)"
    "plug_ok (s\<lparr>p_links := h\<rparr>) (unreg_plugin p R)"
proof -
  let ?R1 = "drop_ops (set (r_ops R p)) p R"
  have pd: "p \<in> dom (plugins s)" using p(2) by auto
  obtain h1 where h1: "for_each_container_safe p_next (PlugOps p) unregister_op s = Some (None, s\<lparr>p_links := h1\<rparr>)"
    "plug_ok (s\<lparr>p_links := h1\<rparr>) ?R1" using unregister_ops_ok [OF ok pd] .
  obtain ps1 ps2 where ps: "r_plugins R = ps1 @ p # ps2" using p(1) by (metis split_list)
  have keep: "filter (\<lambda>q. q \<noteq> p) (r_plugins R) = ps1 @ ps2"
    using filter_drop1 plug_ok_distinct(1) [OF ok] ps by metis
  let ?C = "plug_fam (dom (plugins s)) (dom (ops s)) ?R1"
  have f1: "family h1 ?C" using plug_ok_family [OF h1(2)] by simp
  have "\<exists>h. list_unlink_entry (PlugEntry p) h1 = Some h
      \<and> family h (?C(PluginsHead \<mapsto> map PlugEntry ps1 @ map PlugEntry ps2, PlugEntry p \<mapsto> [])) \<and> allocated h = allocated h1"
    by (rule ll.unlink_law [OF f1]) (simp add: ps)
  then obtain h where h: "list_unlink_entry (PlugEntry p) h1 = Some h"
    "family h (?C(PluginsHead \<mapsto> map PlugEntry (ps1 @ ps2), PlugEntry p \<mapsto> []))" by auto
  have "?C(PluginsHead \<mapsto> map PlugEntry (ps1 @ ps2), PlugEntry p \<mapsto> [])
      = plug_fam (dom (plugins s)) (dom (ops s)) (unreg_plugin p R)"
  proof
    fix e show "(?C(PluginsHead \<mapsto> map PlugEntry (ps1 @ ps2), PlugEntry p \<mapsto> [])) e
      = plug_fam (dom (plugins s)) (dom (ops s)) (unreg_plugin p R) e"
      by (cases e) (use pd keep ps plug_ok_distinct(1) [OF ok] in \<open>auto simp: unreg_plugin_def\<close>)
  qed
  moreover have "plug_rel (plugins s) (ops s) (unreg_plugin p R)"
    using h1(2) unfolding plug_ok_def plug_rel_def unreg_plugin_def by (simp add: drop_ops_def) blast
  ultimately have ok': "plug_ok (s\<lparr>p_links := h\<rparr>) (unreg_plugin p R)"
    using h(2) by (simp add: plug_ok_def)
  obtain info where info: "pinfo pl = Some info" "check_plugin_info info = VACCEL_OK"
  proof -
    have "plug_rel (plugins s) (ops s) R" using ok by (simp add: plug_ok_def)
    then show thesis by (rule plug_rel_plugin [OF _ p(1)]) (use p(2) that in simp)
  qed
  have run: "unregister_plugin (Some p) s = Some (VACCEL_OK, s\<lparr>p_links := h, p_events := p_events s @ closing p pl\<rparr>)"
    using i plugin_entry_linked [OF ok pd] p h1(1) h(1) info
    by (auto simp: unregister_plugin_def p_do_def closing_def check_plugin_info_def Let_def
        split: option.splits if_splits)
  show thesis by (rule that [OF run ok'])
qed

lemma unregister_plugin_refused:
  "unregister_plugin None s = Some (VACCEL_EINVAL, s)"
  "\<not> plug_initialized s \<Longrightarrow> unregister_plugin (Some p) s = Some (VACCEL_EBACKEND, s)"
  "plug_initialized s \<Longrightarrow> plug_ok s R \<Longrightarrow> p \<in> dom (plugins s) \<Longrightarrow> p \<notin> set (r_plugins R) \<Longrightarrow>
    unregister_plugin (Some p) s = Some (VACCEL_ENOENT, s)"
  by (simp_all add: unregister_plugin_def plugin_entry_linked)

subsection \<open>Start and shutdown\<close>

definition shut_events :: "'z plug_state_scheme \<Rightarrow> addr list \<Rightarrow> pevent list" where
  "shut_events s ps = concat (map (\<lambda>p. case plugins s p of None \<Rightarrow> [] | Some pl \<Rightarrow> closing p pl) ps)"

definition shut_inv :: "'z plug_state_scheme \<Rightarrow> registry \<Rightarrow> plink list \<Rightarrow> 'z plug_state_scheme \<Rightarrow> bool" where
  "shut_inv s R es s' \<longleftrightarrow> (\<exists>h ds ps. s' = s\<lparr>p_links := h, p_events := p_events s @ shut_events s ds\<rparr>
     \<and> r_plugins R = ds @ ps \<and> plug_ok s' (fold unreg_plugin ds R)
     \<and> r_plugins (fold unreg_plugin ds R) = ps \<and> es = map PlugEntry ps)"

lemma shut_inv_step:
  assumes i: "plug_initialized s" and inv: "shut_inv s R (y # ys) s1"
  shows "y \<noteq> PluginsHead \<and> (\<exists>s' n. shutdown_plugin y s1 = Some (None, s') \<and> shut_inv s R ys s'
    \<and> p_next s' (first_or PluginsHead ys) = Some n \<and> (ys \<noteq> [] \<longrightarrow> n = first_or PluginsHead (tl ys)))"
proof -
  from inv obtain h ds ps where s1: "s1 = s\<lparr>p_links := h, p_events := p_events s @ shut_events s ds\<rparr>"
    and R: "r_plugins R = ds @ ps" and ok: "plug_ok s1 (fold unreg_plugin ds R)"
    and ps: "r_plugins (fold unreg_plugin ds R) = ps" "y # ys = map PlugEntry ps"
    unfolding shut_inv_def by (elim exE conjE) (rule that)
  from ps(2) obtain p qs where p: "y = PlugEntry p" "ps = p # qs" "ys = map PlugEntry qs" by auto
  let ?R = "fold unreg_plugin ds R"
  have in1: "p \<in> set (r_plugins ?R)" using ps(1) p(2) by simp
  obtain pl where pl: "plugins s1 p = Some pl" using plug_ok_loaded [OF ok in1] by auto
  have i1: "plug_initialized s1" using i s1 by simp
  obtain h' where h': "unregister_plugin (Some p) s1 = Some (VACCEL_OK,
      s1\<lparr>p_links := h', p_events := p_events s1 @ closing p pl\<rparr>)"
    "plug_ok (s1\<lparr>p_links := h'\<rparr>) (unreg_plugin p ?R)"
    using unregister_plugin_ok [OF ok i1 in1 pl] .
  have d: "distinct (p # qs)" using plug_ok_distinct(1) [OF ok] ps(1) p(2) by simp
  let ?s' = "s1\<lparr>p_links := h', p_events := p_events s1 @ closing p pl\<rparr>"
  have "?s' = s\<lparr>p_links := h', p_events := p_events s @ shut_events s (ds @ [p])\<rparr>"
    using s1 pl by (simp add: shut_events_def)
  moreover have "plug_ok ?s' (fold unreg_plugin (ds @ [p]) R)"
    using h'(2) by (simp add: plug_ok_def)
  moreover have left: "r_plugins (fold unreg_plugin (ds @ [p]) R) = qs"
    using ps(1) p(2) d by (simp add: unreg_plugin_def filter_neq_idem)
  ultimately have inv': "shut_inv s R ys ?s'"
    unfolding shut_inv_def using R p(2,3) by (intro exI [of _ h'] exI [of _ "ds @ [p]"] exI [of _ qs]) simp
  have "is_list h' PluginsHead ([] @ ys)"
    using plug_ok_list [OF \<open>plug_ok ?s' (fold unreg_plugin (ds @ [p]) R)\<close>, of PluginsHead] left p(3) by simp
  from next_of_first [OF this] obtain n where
    n: "nxt h' (first_or PluginsHead ys) = Some n" "ys \<noteq> [] \<longrightarrow> n = first_or PluginsHead (tl ys)" by blast
  show ?thesis using p(1) h'(1) inv' n by (auto simp: shutdown_plugin_def p_next_def)
qed

lemma plugins_shutdown_ok:
  assumes ok: "plug_ok s R" and i: "plug_initialized s"
  obtains h where "plugins_shutdown s = Some (VACCEL_OK, s\<lparr>p_links := h,
      p_events := p_events s @ shut_events s (r_plugins R), virtio := None, plug_initialized := False\<rparr>)"
    "plug_ok (s\<lparr>p_links := h\<rparr>) (fold unreg_plugin (r_plugins R) R)"
    "r_plugins (fold unreg_plugin (r_plugins R) R) = []"
proof -
  let ?l = PluginsHead and ?es = "map PlugEntry (r_plugins R)"
  have il: "is_list (p_links s) ?l ([] @ ?es)"
    using plug_ok_list [OF ok, of PluginsHead] by simp
  obtain n where n: "p_next s (first_or ?l ?es) = Some n" "?es \<noteq> [] \<longrightarrow> n = first_or ?l (tl ?es)"
    using next_of_first [OF il] unfolding p_next_def by blast
  have f: "p_next s ?l = Some (first_or ?l ?es)" using is_list_first [OF il] by (simp add: p_next_def)
  have "shut_inv s R ?es s"
    unfolding shut_inv_def using ok
    by (intro exI [of _ "p_links s"] exI [of _ "[]"] exI [of _ "r_plugins R"]) (simp add: shut_events_def)
  from for_each_safe_loop_run [where I = "shut_inv s R" and rd = p_next and l = ?l and body = shutdown_plugin,
      OF shut_inv_step [OF i] this n(2)]
  obtain s' where s': "for_each_safe_loop p_next ?l shutdown_plugin (first_or ?l ?es) n s = Some (None, s')"
    "shut_inv s R [] s'" by blast
  then obtain h where h: "s' = s\<lparr>p_links := h, p_events := p_events s @ shut_events s (r_plugins R)\<rparr>"
    "plug_ok s' (fold unreg_plugin (r_plugins R) R)" "r_plugins (fold unreg_plugin (r_plugins R) R) = []"
    unfolding shut_inv_def by auto
  have "for_each_container_safe p_next ?l shutdown_plugin s = Some (None, s')"
    using s'(1) f n(1) by (simp add: for_each_container_safe_def)
  then have run: "plugins_shutdown s = Some (VACCEL_OK, s\<lparr>p_links := h,
      p_events := p_events s @ shut_events s (r_plugins R), virtio := None, plug_initialized := False\<rparr>)"
    using i h(1) by (simp add: plugins_shutdown_def Let_def)
  have ok': "plug_ok (s\<lparr>p_links := h\<rparr>) (fold unreg_plugin (r_plugins R) R)"
    using h(1,2) by (simp add: plug_ok_def)
  show thesis by (rule that [OF run ok' h(3)])
qed

lemma plugins_shutdown_idle: "\<not> plug_initialized s \<Longrightarrow> plugins_shutdown s = Some (VACCEL_OK, s)"
  by (simp add: plugins_shutdown_def)

text \<open>The registry before \<open>plugins_bootstrap\<close>: the heads are zeroed, the entries are initialised.\<close>

definition no_plugins :: registry where
  "no_plugins = \<lparr>r_plugins = [], r_impls = \<lambda>_. [], r_ops = \<lambda>_. []\<rparr>"

fun is_head :: "plink \<Rightarrow> bool" where
  "is_head PluginsHead = True"
| "is_head (OpsHead t) = (t < VACCEL_FUNCTIONS_NR)"
| "is_head _ = False"

definition unbooted :: "'z plug_state_scheme \<Rightarrow> bool" where
  "unbooted s \<longleftrightarrow> (\<forall>l. is_head l \<longrightarrow> allocated (p_links s) l)
     \<and> family (p_links s) (\<lambda>e. if is_head e then None else plug_fam (dom (plugins s)) (dom (ops s)) no_plugins e)"

lemma plugins_bootstrap_ok:
  assumes u: "unbooted s"
  obtains h where "plugins_bootstrap s = Some (VACCEL_OK, s\<lparr>p_links := h, plug_initialized := True\<rparr>)"
    "plug_ok (s\<lparr>p_links := h\<rparr>) no_plugins"
proof -
  let ?C = "\<lambda>e. if is_head e then None else plug_fam (dom (plugins s)) (dom (ops s)) no_plugins e"
  let ?ls = "PluginsHead # map OpsHead [0..<VACCEL_FUNCTIONS_NR]"
  have heads: "e \<in> set ?ls \<longleftrightarrow> is_head e" for e by (cases e) auto
  have nc: "l \<notin> cover ?C" if "is_head l" for l
  proof
    assume "l \<in> cover ?C"
    then obtain m xs where "?C m = Some xs" "l \<in> insert m (set xs)" by (auto simp: cover_def)
    then show False using that
      by (cases m) (auto simp: no_plugins_def split: if_splits)
  qed
  have "\<exists>h. list_init_all ?ls (p_links s) = Some h
    \<and> family h (\<lambda>e. if e \<in> set ?ls then Some [] else ?C e) \<and> allocated h = allocated (p_links s)"
    by (rule family_init_all) (use u nc heads in \<open>auto simp: unbooted_def distinct_map inj_on_def simp del: VACCEL_FUNCTIONS_NR_def\<close>)
  then obtain h where h: "list_init_all ?ls (p_links s) = Some h"
    "family h (\<lambda>e. if e \<in> set ?ls then Some [] else ?C e)" by blast
  have "(\<lambda>e. if e \<in> set ?ls then Some [] else ?C e) = plug_fam (dom (plugins s)) (dom (ops s)) no_plugins"
  proof
    fix e show "(if e \<in> set ?ls then Some [] else ?C e) = plug_fam (dom (plugins s)) (dom (ops s)) no_plugins e"
      unfolding heads by (cases e) (auto simp: no_plugins_def)
  qed
  then have ok: "plug_ok (s\<lparr>p_links := h\<rparr>) no_plugins"
    using h(2) by (simp add: plug_ok_def plug_rel_def no_plugins_def)
  have run: "plugins_bootstrap s = Some (VACCEL_OK, s\<lparr>p_links := h, plug_initialized := True\<rparr>)"
    using h(1) by (auto simp: plugins_bootstrap_def p_do_def bind_eq_Some_conv simp del: VACCEL_FUNCTIONS_NR_def upt_Suc)
  show thesis by (rule that [OF run ok])
qed

subsection \<open>Registering the operations of a module\<close>

definition valid_op :: "'z plug_state_scheme \<Rightarrow> addr \<Rightarrow> bool" where
  "valid_op s a = (case ops s a of None \<Rightarrow> False
     | Some op \<Rightarrow> op_func op \<noteq> None \<and> unat (op_type op) < VACCEL_FUNCTIONS_NR
         \<and> (case op_owner op of None \<Rightarrow> False
            | Some p \<Rightarrow> (case plugins s p of None \<Rightarrow> False | Some pl \<Rightarrow> pinfo pl \<noteq> None)))"

definition reg_op :: "(addr \<Rightarrow> vaccel_op option) \<Rightarrow> addr \<Rightarrow> registry \<Rightarrow> registry" where
  "reg_op opm a R = (case opm a of None \<Rightarrow> R | Some op \<Rightarrow>
     (case op_owner op of None \<Rightarrow> R | Some p \<Rightarrow> reg_function a op p R))"

definition type_of :: "(addr \<Rightarrow> vaccel_op option) \<Rightarrow> addr \<Rightarrow> nat" where
  "type_of opm a = (case opm a of None \<Rightarrow> VACCEL_FUNCTIONS_NR | Some op \<Rightarrow> unat (op_type op))"

lemma valid_opE:
  assumes "valid_op s a"
  obtains op p pl info where "ops s a = Some op" "op_func op \<noteq> None" "unat (op_type op) < VACCEL_FUNCTIONS_NR"
    "op_owner op = Some p" "plugins s p = Some pl" "pinfo pl = Some info"
  using assms by (auto simp: valid_op_def split: option.splits)

lemma register_plugin_functions_ok:
  assumes "plug_ok s R" "distinct as" "\<And>a. a \<in> set as \<Longrightarrow> valid_op s a \<and> op_unlinked s R a"
  shows "\<exists>h. register_plugin_functions as s = Some (VACCEL_OK, s\<lparr>p_links := h\<rparr>)
    \<and> plug_ok (s\<lparr>p_links := h\<rparr>) (fold (reg_op (ops s)) as R)
    \<and> (\<forall>t. r_impls (fold (reg_op (ops s)) as R) t = r_impls R t @ filter (\<lambda>a. type_of (ops s) a = t) as)"
  using assms
proof (induction as arbitrary: s R)
  case Nil
  then show ?case by (intro exI [of _ "p_links s"]) simp
next
  case (Cons a as)
  have va: "valid_op s a" "op_unlinked s R a" using Cons.prems(3) by auto
  from va(1) obtain op p pl info where op: "ops s a = Some op" "op_func op \<noteq> None"
    "unat (op_type op) < VACCEL_FUNCTIONS_NR" "op_owner op = Some p"
    "plugins s p = Some pl" "pinfo pl = Some info" by (rule valid_opE)
  obtain h where h: "register_plugin_function (Some a) s = Some (VACCEL_OK, s\<lparr>p_links := h\<rparr>)"
    "plug_ok (s\<lparr>p_links := h\<rparr>) (reg_function a op p R)"
    using register_plugin_function_ok [OF Cons.prems(1) op va(2)] .
  have ra: "reg_op (ops s) a R = reg_function a op p R" using op by (simp add: reg_op_def)
  have rest: "valid_op (s\<lparr>p_links := h\<rparr>) b \<and> op_unlinked (s\<lparr>p_links := h\<rparr>) (reg_function a op p R) b"
    if b: "b \<in> set as" for b
  proof
    have "b \<noteq> a" "valid_op s b" "op_unlinked s R b" using Cons.prems(2,3) b by auto
    then show "valid_op (s\<lparr>p_links := h\<rparr>) b" "op_unlinked (s\<lparr>p_links := h\<rparr>) (reg_function a op p R) b"
      by (auto simp: valid_op_def op_unlinked_def reg_function_mem split: option.splits)
  qed
  from Cons.IH [OF h(2) _ rest] Cons.prems(2) obtain h' where
    h': "register_plugin_functions as (s\<lparr>p_links := h\<rparr>) = Some (VACCEL_OK, s\<lparr>p_links := h'\<rparr>)"
    "plug_ok (s\<lparr>p_links := h'\<rparr>) (fold (reg_op (ops s)) as (reg_function a op p R))"
    "\<forall>t. r_impls (fold (reg_op (ops s)) as (reg_function a op p R)) t
      = r_impls (reg_function a op p R) t @ filter (\<lambda>a. type_of (ops s) a = t) as" by auto
  have "r_impls (reg_function a op p R) t = r_impls R t @ filter (\<lambda>b. type_of (ops s) b = t) [a]" for t
    using op by (simp add: reg_function_def type_of_def)
  then show ?case using h(1) h' ra by (intro exI [of _ h']) simp
qed

subsection \<open>A registry of two plugins\<close>

definition info_of_type :: "u32 \<Rightarrow> vaccel_plugin_info" where
  "info_of_type ty = \<lparr>pname = Some ''demo'', pinit = Some 1, pfini = Some 2, ptype = ty, v_sess_init = None,
     v_sess_update = None, v_sess_free = None, v_sess_register = None, v_sess_unregister = None,
     v_resource_new = None, v_resource_destroy = None\<rparr>"

text \<open>Plugins 1 (type 1) and 2 (type 2) are loaded; operations 10 and 11 implement type 3.\<close>

definition two_loaded :: plug_state where
  "two_loaded = \<lparr>os = calm_os, rundir = ''/run'', plug_initialized = True, virtio = None, p_links = self_linked,
     plugins = [1 \<mapsto> \<lparr>dl_handle = Some 5, pinfo = Some (info_of_type 1)\<rparr>,
       2 \<mapsto> \<lparr>dl_handle = None, pinfo = Some (info_of_type 2)\<rparr>],
     ops = [10 \<mapsto> \<lparr>op_type = 3, op_func = Some 100, op_owner = Some 1\<rparr>,
       11 \<mapsto> \<lparr>op_type = 3, op_func = Some 101, op_owner = Some 2\<rparr>], p_events = []\<rparr>"

lemma no_plugins_lists: "plug_fam A D no_plugins l = Some xs \<Longrightarrow> xs = []"
  by (cases l) (auto simp: no_plugins_def split: if_splits)

lemma two_loaded_ok: "plug_ok two_loaded no_plugins" "plug_initialized two_loaded"
  using self_linked_family [of "plug_fam {1, 2} {10, 11} no_plugins"] no_plugins_lists
  by (auto simp: plug_ok_def two_loaded_def plug_rel_def no_plugins_def insert_commute)

lemma two_loaded_plugins:
  "plugins two_loaded 1 = Some \<lparr>dl_handle = Some 5, pinfo = Some (info_of_type 1)\<rparr>"
  "plugins two_loaded 2 = Some \<lparr>dl_handle = None, pinfo = Some (info_of_type 2)\<rparr>"
  by (simp_all add: two_loaded_def)

lemma info_of_type_ok: "check_plugin_info (info_of_type ty) = VACCEL_OK" "\<not> is_virtio_plugin (info_of_type ty)"
  by (simp_all add: info_of_type_def check_plugin_info_def is_virtio_plugin_def)

definition registry_2 :: registry where
  "registry_2 = fold (reg_op (ops two_loaded)) [10, 11] (reg_plugin 2 (reg_plugin 1 no_plugins))"

lemma registry_2: "r_plugins registry_2 = [1, 2]" "r_impls registry_2 3 = [10, 11]"
  "r_ops registry_2 1 = [10]" "r_ops registry_2 2 = [11]"
  by (simp_all add: registry_2_def reg_op_def reg_function_def reg_plugin_def two_loaded_def no_plugins_def)

definition two_registered :: plug_state where
  "two_registered = (let s1 = snd (the (register_plugin (Some 1) two_loaded));
     s2 = snd (the (register_plugin (Some 2) s1)) in snd (the (register_plugin_functions [10, 11] s2)))"

lemma two_registered_ok: "plug_ok two_registered registry_2" "plug_initialized two_registered"
  "plugins two_registered = plugins two_loaded" "ops two_registered = ops two_loaded"
proof -
  define R1 where "R1 = reg_plugin 1 no_plugins"
  define R2 where "R2 = reg_plugin 2 R1"
  note d = two_loaded_def info_of_type_def
  obtain h1 where h1: "register_plugin (Some 1) two_loaded = Some (VACCEL_OK, two_loaded\<lparr>p_links := h1, virtio := None\<rparr>)"
    "plug_ok (two_loaded\<lparr>p_links := h1\<rparr>) R1"
    unfolding R1_def
    by (rule register_plugin_ok [OF two_loaded_ok, of 1])
      (auto simp: d check_plugin_info_def is_virtio_plugin_def no_plugins_def)
  let ?s1 = "two_loaded\<lparr>p_links := h1, virtio := None\<rparr>"
  have ok1: "plug_ok ?s1 R1" "plug_initialized ?s1" using h1(2) by (simp_all add: plug_ok_def two_loaded_def)
  obtain h2 where h2: "register_plugin (Some 2) ?s1 = Some (VACCEL_OK, ?s1\<lparr>p_links := h2, virtio := None\<rparr>)"
    "plug_ok (?s1\<lparr>p_links := h2\<rparr>) R2"
    unfolding R2_def
    by (rule register_plugin_ok [OF ok1, of 2])
      (auto simp: d R1_def reg_plugin_def check_plugin_info_def is_virtio_plugin_def no_plugins_def)
  let ?s2 = "?s1\<lparr>p_links := h2, virtio := None\<rparr>"
  have ok2: "plug_ok ?s2 R2" using h2(2) by (simp add: plug_ok_def)
  have "\<exists>h. register_plugin_functions [10, 11] ?s2 = Some (VACCEL_OK, ?s2\<lparr>p_links := h\<rparr>)
    \<and> plug_ok (?s2\<lparr>p_links := h\<rparr>) (fold (reg_op (ops ?s2)) [10, 11] R2)
    \<and> (\<forall>t. r_impls (fold (reg_op (ops ?s2)) [10, 11] R2) t = r_impls R2 t @ filter (\<lambda>a. type_of (ops ?s2) a = t) [10, 11])"
    by (rule register_plugin_functions_ok [OF ok2])
      (auto simp: d valid_op_def op_unlinked_def R2_def R1_def reg_plugin_def no_plugins_def)
  then obtain h where h: "register_plugin_functions [10, 11] ?s2 = Some (VACCEL_OK, ?s2\<lparr>p_links := h\<rparr>)"
    "plug_ok (?s2\<lparr>p_links := h\<rparr>) registry_2"
    by (auto simp: registry_2_def R1_def R2_def)
  have eq: "two_registered = ?s2\<lparr>p_links := h\<rparr>"
    using h1(1) h2(1) h(1) by (simp add: two_registered_def Let_def)
  show "plug_ok two_registered registry_2" using h(2) eq by simp
  show "plug_initialized two_registered" "plugins two_registered = plugins two_loaded"
    "ops two_registered = ops two_loaded"
    unfolding eq by (simp_all add: two_loaded_def)
qed

subsection \<open>Properties\<close>

text \<open>
  \<open>plugins_bootstrap\<close> makes the empty registry: no plugin is registered, no operation type has
  an implementation, whatever the memory of the list heads held before.
\<close>

theorem plugins_bootstrap_correct:
  assumes "unbooted s"
  shows "\<exists>s'. plugins_bootstrap s = Some (VACCEL_OK, s') \<and> plug_ok s' no_plugins \<and> plug_initialized s'
    \<and> (\<forall>t<VACCEL_FUNCTIONS_NR. get_plugin_op t hnt s' = Some None)"
proof -
  obtain h where h: "plugins_bootstrap s = Some (VACCEL_OK, s\<lparr>p_links := h, plug_initialized := True\<rparr>)"
    "plug_ok (s\<lparr>p_links := h\<rparr>) no_plugins" using plugins_bootstrap_ok [OF assms] .
  let ?s = "s\<lparr>p_links := h, plug_initialized := True\<rparr>"
  have ok: "plug_ok ?s no_plugins" using h(2) by (simp add: plug_ok_def)
  have "get_plugin_op t hnt ?s = Some None" if "t < VACCEL_FUNCTIONS_NR" for t
    using get_plugin_op_spec [OF ok that] by (simp add: no_plugins_def choose_op_def)
  then show ?thesis using h(1) ok by auto
qed

definition zeroed :: plug_state where
  "zeroed = two_loaded\<lparr>plug_initialized := False, p_links :=
     \<lparr>nxt = \<lambda>e. Some (if is_head e then PNull else e), prv = \<lambda>e. Some (if is_head e then PNull else e)\<rparr>\<rparr>"

theorem plugins_bootstrap_correct_witness:
  "\<exists>s'. plugins_bootstrap zeroed = Some (VACCEL_OK, s') \<and> plug_ok s' no_plugins \<and> get_plugin_op 3 0 s' = Some None"
proof -
  have "is_list (p_links zeroed) e []" if "\<not> is_head e" for e
    using that by (simp add: is_list_nil zeroed_def)
  then have "unbooted zeroed"
    unfolding unbooted_def family_def using no_plugins_lists
    by (fastforce simp: zeroed_def allocated_def split: if_splits)
  then show ?thesis using plugins_bootstrap_correct [of zeroed 0] by auto
qed

lemma impl_function: "plug_ok s R \<Longrightarrow> t < VACCEL_FUNCTIONS_NR \<Longrightarrow> a \<in> set (r_impls R t) \<Longrightarrow> \<exists>op. ops s a = Some op \<and> op_func op \<noteq> None"
  unfolding plug_ok_def plug_rel_def by blast

text \<open>
  C38. \<open>register_plugin\<close> on every branch: no plugin gives EINVAL and a registry that is not initialised EBACKEND; of a loaded plugin, one that is
  registered gives EEXISTS, one that already has operations or lacks a name, an init or a fini function gives EINVAL, and
  nothing changes; otherwise the plugin becomes the last of the registry, and the VirtIO plugin if
  it is the first one with session callbacks.
\<close>

theorem register_plugin_correct:
  assumes "plug_ok s R" "plugins s p = Some pl" "pinfo pl = Some info"
  shows "register_plugin None s = Some (VACCEL_EINVAL, s) \<and> (\<exists>s'. register_plugin (Some p) s = Some (
      if \<not> plug_initialized s then VACCEL_EBACKEND
      else if p \<in> set (r_plugins R) then VACCEL_EEXISTS
      else if r_ops R p \<noteq> [] \<or> check_plugin_info info \<noteq> VACCEL_OK then VACCEL_EINVAL else VACCEL_OK, s')
    \<and> (if \<not> plug_initialized s \<or> p \<in> set (r_plugins R) \<or> r_ops R p \<noteq> [] \<or> check_plugin_info info \<noteq> VACCEL_OK then s' = s
       else plug_ok s' (reg_plugin p R)
         \<and> virtio s' = (if is_virtio_plugin info \<and> virtio s = None then Some p else virtio s)))"
proof (cases "\<not> plug_initialized s \<or> p \<in> set (r_plugins R) \<or> r_ops R p \<noteq> [] \<or> check_plugin_info info \<noteq> VACCEL_OK")
  case True
  have "p \<in> dom (plugins s)" using assms(2) by auto
  then show ?thesis
    using register_plugin_refused(1) [of s] register_plugin_refused(2) [of s p] register_plugin_refused(3,4) [OF _ assms(1), of p] register_plugin_refused(5) [OF _ assms] True
    by (cases "plug_initialized s"; cases "p \<in> set (r_plugins R)"; cases "r_ops R p = []") (simp_all del: VACCEL_OK_def)
next
  case False
  then obtain h where "register_plugin (Some p) s = Some (VACCEL_OK, s\<lparr>p_links := h,
      virtio := (if is_virtio_plugin info \<and> virtio s = None then Some p else virtio s)\<rparr>)"
    "plug_ok (s\<lparr>p_links := h\<rparr>) (reg_plugin p R)"
    using register_plugin_ok [OF assms(1) _ assms(2,3)] by blast
  then show ?thesis using False register_plugin_refused(1) [of s] by (simp add: plug_ok_def)
qed

theorem register_plugin_correct_witness:
  "\<exists>s'. register_plugin (Some 1) two_loaded = Some (VACCEL_OK, s') \<and> plug_ok s' (reg_plugin 1 no_plugins)"
  using register_plugin_correct [OF two_loaded_ok(1) two_loaded_plugins(1)] two_loaded_ok(2) info_of_type_ok [of 1]
  by (auto simp: no_plugins_def)

text \<open>
  \<open>register_plugin_functions\<close> on the operations of a module, each valid and not registered
  before: every operation is appended to the implementations of its type, in the order of the
  array, and to the operations of its owner.
\<close>

theorem register_plugin_functions_correct:
  assumes "plug_ok s R" "distinct as" "\<And>a. a \<in> set as \<Longrightarrow> valid_op s a \<and> op_unlinked s R a"
  shows "\<exists>s' R'. register_plugin_functions as s = Some (VACCEL_OK, s') \<and> plug_ok s' R'
    \<and> R' = fold (reg_op (ops s)) as R
    \<and> (\<forall>t. r_impls R' t = r_impls R t @ filter (\<lambda>a. type_of (ops s) a = t) as)"
  using register_plugin_functions_ok [OF assms] by blast

theorem register_plugin_functions_correct_witness:
  "\<exists>s' R'. register_plugin_functions [11, 10] two_loaded = Some (VACCEL_OK, s') \<and> plug_ok s' R' \<and> r_impls R' 3 = [11, 10]"
proof -
  have "\<exists>s' R'. register_plugin_functions [11, 10] two_loaded = Some (VACCEL_OK, s') \<and> plug_ok s' R'
    \<and> R' = fold (reg_op (ops two_loaded)) [11, 10] no_plugins
    \<and> (\<forall>t. r_impls R' t = r_impls no_plugins t @ filter (\<lambda>a. type_of (ops two_loaded) a = t) [11, 10])"
    by (rule register_plugin_functions_correct [OF two_loaded_ok(1)])
      (auto simp: valid_op_def op_unlinked_def two_loaded_def info_of_type_def no_plugins_def)
  then show ?thesis by (fastforce simp: type_of_def two_loaded_def no_plugins_def)
qed

text \<open>
  C30. \<open>get_plugin_op\<close> returns the function of the first registered implementation whose plugin type
  shares a bit with the hint, of the first implementation when there is none (or no hint), and NULL
  exactly when the type has no implementation (no operation without a function is ever registered); it never fails.
\<close>

theorem get_plugin_op_correct:
  assumes "plug_ok s R" "t < VACCEL_FUNCTIONS_NR"
  shows "get_plugin_op t hnt s = Some (
    case List.find (hint_matches s hnt) (r_impls R t) of
      Some a \<Rightarrow> Option.bind (ops s a) op_func
    | None \<Rightarrow> (case r_impls R t of [] \<Rightarrow> None | a # _ \<Rightarrow> Option.bind (ops s a) op_func))
    \<and> (get_plugin_op t hnt s = Some None \<longleftrightarrow> r_impls R t = [])"
proof -
  have "Option.bind (ops s a) op_func \<noteq> None" if "a \<in> set (r_impls R t)" for a
    using impl_function [OF assms that] by auto
  moreover have "a \<in> set (r_impls R t)" if "List.find (hint_matches s hnt) (r_impls R t) = Some a" for a using that by (auto simp: find_Some_iff)
  ultimately show ?thesis
    unfolding get_plugin_op_spec [OF assms] choose_op_def by (auto split: option.split list.split)
qed

theorem get_plugin_op_correct_witness:
  "get_plugin_op 3 2 two_registered = Some (Some 101) \<and> get_plugin_op 3 4 two_registered = Some (Some 100)
    \<and> get_plugin_op 4 2 two_registered = Some None"
proof -
  have "hint_matches two_registered 2 10 = False" "hint_matches two_registered 2 11"
    "hint_matches two_registered 4 10 = False" "hint_matches two_registered 4 11 = False"
    using two_registered_ok(3,4) by (simp_all add: hint_matches_def owner_info_def two_loaded_def info_of_type_def)
  moreover have "r_impls registry_2 4 = []"
    by (simp add: registry_2_def reg_op_def reg_function_def reg_plugin_def two_loaded_def no_plugins_def)
  ultimately show ?thesis
    using get_plugin_op_correct [OF two_registered_ok(1), of 3 2] get_plugin_op_correct [OF two_registered_ok(1), of 3 4]
      get_plugin_op_correct [OF two_registered_ok(1), of 4 2] registry_2 two_registered_ok(4)
    by (simp add: two_loaded_def)
qed

text \<open>
  C31. \<open>unregister_plugin\<close> of a registered plugin takes it and every operation it registered out of
  the registry, calls its fini function once and then closes its library; afterwards no request is
  given an operation of that plugin. The VirtIO plugin is not forgotten, even when it is this one.
\<close>

theorem unregister_plugin_correct:
  assumes "plug_ok s R" "plug_initialized s" "p \<in> set (r_plugins R)" "plugins s p = Some pl"
  shows "\<exists>s'. unregister_plugin (Some p) s = Some (VACCEL_OK, s') \<and> plug_ok s' (unreg_plugin p R)
    \<and> p_events s' = p_events s @ Fini p # (case dl_handle pl of None \<Rightarrow> [] | Some dl \<Rightarrow> [Dlclose dl])
    \<and> (\<forall>t<VACCEL_FUNCTIONS_NR. \<forall>hnt a. choose_op s' hnt (r_impls (unreg_plugin p R) t) = Some a \<longrightarrow>
         (\<forall>op. ops s' a = Some op \<longrightarrow> op_owner op \<noteq> Some p))
    \<and> virtio s' = virtio s"
proof -
  obtain h where h: "unregister_plugin (Some p) s = Some (VACCEL_OK, s\<lparr>p_links := h, p_events := p_events s @ closing p pl\<rparr>)"
    "plug_ok (s\<lparr>p_links := h\<rparr>) (unreg_plugin p R)" using unregister_plugin_ok [OF assms] .
  let ?s = "s\<lparr>p_links := h, p_events := p_events s @ closing p pl\<rparr>"
  have ok: "plug_ok ?s (unreg_plugin p R)" using h(2) by (simp add: plug_ok_def)
  have "op_owner op \<noteq> Some p" if t: "t < VACCEL_FUNCTIONS_NR"
    and a: "choose_op ?s hnt (r_impls (unreg_plugin p R) t) = Some a" "ops ?s a = Some op" for t hnt a op
  proof -
    have rel: "plug_rel (plugins ?s) (ops ?s) (unreg_plugin p R)" using ok by (simp add: plug_ok_def)
    obtain op' q where q: "ops ?s a = Some op'" "op_owner op' = Some q" "a \<in> set (r_ops (unreg_plugin p R) q)"
      using plug_rel_impl [OF rel t choose_op_in [OF a(1)]] .
    then have "q \<noteq> p" by (auto simp: unreg_plugin_def)
    then show ?thesis using q(1,2) a(2) by simp
  qed
  then show ?thesis using h(1) ok by (intro exI [of _ ?s]) (auto simp: closing_def)
qed

theorem unregister_plugin_correct_witness:
  "\<exists>s'. unregister_plugin (Some 1) two_registered = Some (VACCEL_OK, s') \<and> plug_ok s' (unreg_plugin 1 registry_2)
    \<and> p_events s' = p_events two_registered @ [Fini 1, Dlclose 5]"
  using unregister_plugin_correct [OF two_registered_ok(1,2), of 1] two_registered_ok(3) registry_2(1)
  by (simp add: two_loaded_def) blast

text \<open>
  \<open>plugins_shutdown\<close> unregisters every plugin although the loop removes entries from the list it
  walks: each plugin's fini function runs exactly once, in order of registration, its library is
  closed after it, and nothing is registered afterwards.
\<close>

theorem plugins_shutdown_correct:
  assumes "plug_ok s R" "plug_initialized s"
  shows "\<exists>s' R'. plugins_shutdown s = Some (VACCEL_OK, s') \<and> plug_ok s' R' \<and> r_plugins R' = []
    \<and> p_events s' = p_events s @ shut_events s (r_plugins R)
    \<and> virtio s' = None \<and> \<not> plug_initialized s' \<and> plugins_shutdown s' = Some (VACCEL_OK, s')"
proof -
  let ?R = "fold unreg_plugin (r_plugins R) R"
  obtain h where h: "plugins_shutdown s = Some (VACCEL_OK, s\<lparr>p_links := h,
      p_events := p_events s @ shut_events s (r_plugins R), virtio := None, plug_initialized := False\<rparr>)"
    "plug_ok (s\<lparr>p_links := h\<rparr>) ?R" "r_plugins ?R = []" using plugins_shutdown_ok [OF assms] .
  let ?s = "s\<lparr>p_links := h, p_events := p_events s @ shut_events s (r_plugins R), virtio := None, plug_initialized := False\<rparr>"
  have "plug_ok ?s ?R" using h(2) by (simp add: plug_ok_def)
  then show ?thesis
    using h(1,3) plugins_shutdown_idle [of ?s] by (intro exI [of _ ?s] exI [of _ ?R]) simp
qed

theorem plugins_shutdown_correct_witness:
  "\<exists>s'. plugins_shutdown two_registered = Some (VACCEL_OK, s')
    \<and> p_events s' = p_events two_registered @ [Fini 1, Dlclose 5, Fini 2]"
  using plugins_shutdown_correct [OF two_registered_ok(1,2)] two_registered_ok(3) registry_2(1)
  by (auto simp: shut_events_def closing_def two_loaded_def)

end
