(* ===== verification/Resources.thy ===== *)
theory Resources
  imports Plugins Id_Pool
begin

text \<open>
  The resources of \<^verbatim>\<open>src/src/resources.c\<close>: every live resource has an id from a pool of 2048 (or from
  the VirtIO host), is linked in a list of live resources, and counts the sessions it is registered
  with. The type-specific destructor of a resource is a function pointer the creator passes;
  \<open>call_cleanup\<close> stands for the call through it, with the contract \<open>cleanup_contract\<close> that the real
  destructors satisfy. \<open>res_ok\<close> is the invariant: the used ids are exactly those of the live
  resources, and no two share one.
\<close>

subsection \<open>State\<close>

definition MAX_RESOURCES :: nat where "MAX_RESOURCES = 2048"
definition MAX_RESOURCE_RUNDIR :: nat where [simp]: "MAX_RESOURCE_RUNDIR = 1024"
definition VACCEL_RES_MAX :: nat where [simp]: "VACCEL_RES_MAX = 6"

definition VACCEL_RES_TF_MODEL :: nat where [simp]: "VACCEL_RES_TF_MODEL = 0"
definition VACCEL_RES_SHARED_OBJ :: nat where [simp]: "VACCEL_RES_SHARED_OBJ = 3"
definition VACCEL_RES_TORCH_MODEL :: nat where [simp]: "VACCEL_RES_TORCH_MODEL = 4"

datatype rlink =
    RNull
  | LiveHead nat
  | ResEntry addr

text \<open>The functions the runtime passes as \<open>cleanup_resource\<close>.\<close>

datatype destructor =
    Shared_Object_Destructor
  | Tf_Model_Destructor
  | Tf_Saved_Model_Destructor
  | Torch_Saved_Model_Destructor

record vaccel_resource =
  res_id :: int
  res_type :: nat
  res_data :: ptr
  cleanup_resource :: "destructor option"
  refcount :: u32
  res_rundir :: ptr

record res_state = plug_state +
  r_initialized :: bool
  r_pool :: id_pool
  r_links :: "rlink lheap"
  r_mem :: "addr \<Rightarrow> vaccel_resource option"

definition r_do :: "(rlink lheap \<Rightarrow> rlink lheap option) \<Rightarrow> 'z res_state_scheme \<Rightarrow> 'z res_state_scheme option" where
  "r_do f s = do { h \<leftarrow> f (r_links s); Some (s\<lparr>r_links := h\<rparr>) }"

definition r_next :: "'z res_state_scheme \<Rightarrow> rlink \<Rightarrow> rlink option" where
  "r_next s e = nxt (r_links s) e"

definition r_set :: "addr \<Rightarrow> vaccel_resource \<Rightarrow> 'z res_state_scheme \<Rightarrow> 'z res_state_scheme" where
  "r_set a r s = s\<lparr>r_mem := (r_mem s)(a \<mapsto> r)\<rparr>"

text \<open>Running a pool operation on the static pool.\<close>

definition r_pool_get :: "'z res_state_scheme \<Rightarrow> (int \<times> 'z res_state_scheme) option" where
  "r_pool_get s = do { (i, p) \<leftarrow> id_pool_get (Some (r_pool s)); p \<leftarrow> p; Some (i, s\<lparr>r_pool := p\<rparr>) }"

definition r_pool_release :: "int \<Rightarrow> 'z res_state_scheme \<Rightarrow> 'z res_state_scheme option" where
  "r_pool_release i s = do { p \<leftarrow> id_pool_release (Some (r_pool s)) i; p \<leftarrow> p; Some (s\<lparr>r_pool := p\<rparr>) }"

text \<open>The information of the VirtIO plugin: \<open>virtio->info\<close>.\<close>

definition virtio_info :: "addr \<Rightarrow> 'z plug_state_scheme \<Rightarrow> vaccel_plugin_info option" where
  "virtio_info v s = do { pl \<leftarrow> plugins s v; pinfo pl }"

subsection \<open>Operations\<close>

definition resources_bootstrap :: "'z res_state_scheme \<Rightarrow> (int \<times> 'z res_state_scheme) option" where
  "resources_bootstrap s =
     (let (ret, p, o') = id_pool_new (r_pool s) (of_nat MAX_RESOURCES) (os s);
          s = s\<lparr>r_pool := p, os := o'\<rparr>
      in if ret \<noteq> 0 then Some (ret, s)
         else do {
           s \<leftarrow> r_do (list_init_all (map LiveHead [0..<VACCEL_RES_MAX])) s;
           Some (VACCEL_OK, s\<lparr>r_initialized := True\<rparr>) })"

definition resource_new :: "ptr \<Rightarrow> nat \<Rightarrow> ptr \<Rightarrow> destructor option \<Rightarrow> 'z res_state_scheme
    \<Rightarrow> (int \<times> 'z res_state_scheme) option" where
  "resource_new res ty data cleanup s =
     (if \<not> r_initialized s then Some (VACCEL_EPERM, s)
      else case res of
        None \<Rightarrow> Some (VACCEL_EINVAL, s)
      | Some a \<Rightarrow>
        if VACCEL_RES_MAX \<le> ty then Some (VACCEL_EINVAL, s)
        else do {
          r \<leftarrow> r_mem s a;
          (err, rid, s) \<leftarrow> (case get_virtio_plugin s of
              Some v \<Rightarrow> do {
                info \<leftarrow> virtio_info v s;
                f \<leftarrow> v_resource_new info;
                let (n, s) = next_host_call s;
                let (err, i) = f n ty data (res_id r);
                Some (err, i, s) }
            | None \<Rightarrow> do { (i, s) \<leftarrow> r_pool_get s; Some (0, i, s) });
          let r = r\<lparr>res_id := rid\<rparr>;
          let s = r_set a r s;
          if err \<noteq> 0 then Some (err, s)
          else if rid \<le> 0 then Some (VACCEL_EUSERS, s)
          else do {
            let r = r\<lparr>res_type := ty, res_data := data, cleanup_resource := cleanup\<rparr>;
            s \<leftarrow> r_do (list_init_entry (ResEntry a)) s;
            s \<leftarrow> r_do (list_add_tail (LiveHead 0) (ResEntry a)) s;
            Some (VACCEL_OK, r_set a (r\<lparr>refcount := 0, res_rundir := None\<rparr>) s) } })"

definition id_match :: "int \<Rightarrow> rlink \<Rightarrow> 'z res_state_scheme \<Rightarrow> (addr option \<times> 'z res_state_scheme) option" where
  "id_match rid e s = (case e of
       ResEntry a \<Rightarrow> do { r \<leftarrow> r_mem s a; Some (if rid = res_id r then Some a else None, s) }
     | _ \<Rightarrow> None)"

fun find_live :: "int \<Rightarrow> nat list \<Rightarrow> 'z res_state_scheme \<Rightarrow> ptr option" where
  "find_live rid [] s = Some None"
| "find_live rid (i # is) s = do {
     (found, _) \<leftarrow> for_each_container_safe r_next (LiveHead i) (id_match rid) s;
     case found of Some a \<Rightarrow> Some (Some a) | None \<Rightarrow> find_live rid is s }"

text \<open>The out-parameter \<open>*resource\<close> is given and given back.\<close>

definition resource_get_by_id :: "ptr \<Rightarrow> int \<Rightarrow> 'z res_state_scheme \<Rightarrow> (int \<times> ptr) option" where
  "resource_get_by_id resource rid s =
     (if \<not> r_initialized s then Some (VACCEL_EPERM, resource)
      else do {
        found \<leftarrow> find_live rid [0..<VACCEL_RES_MAX] s;
        case found of
          Some a \<Rightarrow> Some (VACCEL_OK, Some a)
        | None \<Rightarrow> if resource \<noteq> None then Some (VACCEL_OK, resource) else Some (VACCEL_EINVAL, resource) })"

definition free_rundir :: "ptr \<Rightarrow> 'z res_state_scheme \<Rightarrow> 'z res_state_scheme option" where
  "free_rundir rd s = (case rd of
       None \<Rightarrow> Some s
     | Some p \<Rightarrow> do {
         path \<leftarrow> get_str (Some p) (os s);
         let (_, s) = os_call (cleanup_rundir path) s;
         o' \<leftarrow> free_str (Some p) (os s);
         Some (s\<lparr>os := o'\<rparr>) })"

definition resource_destroy :: "(destructor \<Rightarrow> ptr \<Rightarrow> 'z res_state_scheme \<Rightarrow> 'z res_state_scheme option)
    \<Rightarrow> ptr \<Rightarrow> 'z res_state_scheme \<Rightarrow> (int \<times> 'z res_state_scheme) option" where
  "resource_destroy call_cleanup res s =
     (if \<not> r_initialized s then Some (VACCEL_EPERM, s)
      else case res of
        None \<Rightarrow> Some (VACCEL_EINVAL, s)
      | Some a \<Rightarrow> do {
          r \<leftarrow> r_mem s a;
          if refcount r \<noteq> 0 then Some (VACCEL_EBUSY, s)
          else do {
            s \<leftarrow> (case get_virtio_plugin s of
                Some v \<Rightarrow> do {
                  info \<leftarrow> virtio_info v s;
                  f \<leftarrow> v_resource_destroy info;
                  let (n, s) = next_host_call s;
                  let err = f n (res_id r);
                  Some s }
              | None \<Rightarrow> if res_id r \<noteq> 0 then r_pool_release (res_id r) s else Some s);
            s \<leftarrow> r_do (list_unlink_entry (ResEntry a)) s;
            s \<leftarrow> (case cleanup_resource r of None \<Rightarrow> Some s | Some d \<Rightarrow> call_cleanup d (res_data r) s);
            r \<leftarrow> r_mem s a;
            s \<leftarrow> free_rundir (res_rundir r) s;
            Some (VACCEL_OK, s) } })"

definition destroy_entry :: "(destructor \<Rightarrow> ptr \<Rightarrow> 'z res_state_scheme \<Rightarrow> 'z res_state_scheme option)
    \<Rightarrow> rlink \<Rightarrow> 'z res_state_scheme \<Rightarrow> (unit option \<times> 'z res_state_scheme) option" where
  "destroy_entry call_cleanup e s = (case e of
       ResEntry a \<Rightarrow> do { (_, s) \<leftarrow> resource_destroy call_cleanup (Some a) s; Some (None, s) }
     | _ \<Rightarrow> None)"

fun destroy_lists :: "(destructor \<Rightarrow> ptr \<Rightarrow> 'z res_state_scheme \<Rightarrow> 'z res_state_scheme option)
    \<Rightarrow> nat list \<Rightarrow> 'z res_state_scheme \<Rightarrow> 'z res_state_scheme option" where
  "destroy_lists call_cleanup [] s = Some s"
| "destroy_lists call_cleanup (i # is) s = do {
     (_, s) \<leftarrow> for_each_container_safe r_next (LiveHead i) (destroy_entry call_cleanup) s;
     destroy_lists call_cleanup is s }"

definition resources_cleanup :: "(destructor \<Rightarrow> ptr \<Rightarrow> 'z res_state_scheme \<Rightarrow> 'z res_state_scheme option)
    \<Rightarrow> 'z res_state_scheme \<Rightarrow> (int \<times> 'z res_state_scheme) option" where
  "resources_cleanup call_cleanup s =
     (if \<not> r_initialized s then Some (VACCEL_OK, s)
      else do {
        s \<leftarrow> destroy_lists call_cleanup [0..<VACCEL_RES_MAX] s;
        (ret, p) \<leftarrow> id_pool_destroy (Some (r_pool s));
        p \<leftarrow> p;
        Some (ret, s\<lparr>r_pool := p\<rparr>) })"

definition resource_refcount_inc :: "ptr \<Rightarrow> 'z res_state_scheme \<Rightarrow> 'z res_state_scheme option" where
  "resource_refcount_inc res s = (case res of None \<Rightarrow> Some s
     | Some a \<Rightarrow> do { r \<leftarrow> r_mem s a; Some (r_set a (r\<lparr>refcount := refcount r + 1\<rparr>) s) })"

definition resource_refcount_dec :: "ptr \<Rightarrow> 'z res_state_scheme \<Rightarrow> 'z res_state_scheme option" where
  "resource_refcount_dec res s = (case res of None \<Rightarrow> Some s
     | Some a \<Rightarrow> do { r \<leftarrow> r_mem s a; Some (r_set a (r\<lparr>refcount := refcount r - 1\<rparr>) s) })"

definition resource_create_rundir :: "ptr \<Rightarrow> 'z res_state_scheme \<Rightarrow> (int \<times> 'z res_state_scheme) option" where
  "resource_create_rundir res s = (case res of
       None \<Rightarrow> Some (VACCEL_EINVAL, s)
     | Some a \<Rightarrow> do {
         r \<leftarrow> r_mem s a;
         let (len, path) = snprintf MAX_RESOURCE_RUNDIR (vaccel_rundir s @ ''/resource.'' @ int_digits (res_id r));
         if len = MAX_RESOURCE_RUNDIR then Some (VACCEL_ENAMETOOLONG, s)
         else do {
           let (ret, s) = os_call (mkdir path) s;
           if ret \<noteq> 0 then Some (errno (os s), s)
           else do {
             let (p, s) = os_call (strndup path MAX_RESOURCE_RUNDIR) s;
             let s = r_set a (r\<lparr>res_rundir := p\<rparr>) s;
             if p = None then Some (VACCEL_ENOMEM, s) else Some (VACCEL_OK, s) } } })"

subsection \<open>The invariant\<close>

fun live_fam :: "addr list \<Rightarrow> rlink \<Rightarrow> rlink list option" where
  "live_fam L RNull = None"
| "live_fam L (LiveHead i) = (if i = 0 then Some (map ResEntry L) else if i < VACCEL_RES_MAX then Some [] else None)"
| "live_fam L (ResEntry a) = None"

definition rid_of :: "'z res_state_scheme \<Rightarrow> addr \<Rightarrow> int" where
  "rid_of s a = (case r_mem s a of None \<Rightarrow> 0 | Some r \<Rightarrow> res_id r)"

definition rundir_of :: "'z res_state_scheme \<Rightarrow> addr \<Rightarrow> ptr" where
  "rundir_of s a = (case r_mem s a of None \<Rightarrow> None | Some r \<Rightarrow> res_rundir r)"

definition rundirs_ok :: "'z res_state_scheme \<Rightarrow> addr list \<Rightarrow> bool" where
  "rundirs_ok s L \<longleftrightarrow> (\<forall>a\<in>set L. \<forall>p. rundir_of s a = Some p \<longrightarrow>
     strs (os s) p \<noteq> None \<and> (\<forall>b\<in>set L. rundir_of s b = Some p \<longrightarrow> b = a))"

definition res_ok :: "'z res_state_scheme \<Rightarrow> addr list \<Rightarrow> bool" where
  "res_ok s L \<longleftrightarrow> family (r_links s) (live_fam L)
     \<and> pool_wf (r_pool s) \<and> pool_cap (r_pool s) = int MAX_RESOURCES
     \<and> set L \<subseteq> dom (r_mem s) \<and> inj_on (rid_of s) (set L)
     \<and> used_ids (r_pool s) = rid_of s ` set L \<and> rundirs_ok s L"

lemma res_okD:
  assumes "res_ok s L"
  shows "family (r_links s) (live_fam L)" "pool_wf (r_pool s)" "pool_cap (r_pool s) = int MAX_RESOURCES"
    "a \<in> set L \<Longrightarrow> \<exists>r. r_mem s a = Some r" "inj_on (rid_of s) (set L)"
    "used_ids (r_pool s) = rid_of s ` set L" "rundirs_ok s L"
  using assms by (auto simp: res_ok_def)

lemma live_cover: "cover (live_fam L) = LiveHead ` {..<VACCEL_RES_MAX} \<union> ResEntry ` set L"
proof
  show "cover (live_fam L) \<subseteq> LiveHead ` {..<VACCEL_RES_MAX} \<union> ResEntry ` set L"
  proof
    fix e assume "e \<in> cover (live_fam L)"
    then obtain l xs where "live_fam L l = Some xs" "e \<in> insert l (set xs)" by (auto simp: cover_def)
    then show "e \<in> LiveHead ` {..<VACCEL_RES_MAX} \<union> ResEntry ` set L"
      by (cases l) (auto split: if_splits)
  qed
  show "LiveHead ` {..<VACCEL_RES_MAX} \<union> ResEntry ` set L \<subseteq> cover (live_fam L)"
  proof
    fix e assume "e \<in> LiveHead ` {..<VACCEL_RES_MAX} \<union> ResEntry ` set L"
    then show "e \<in> cover (live_fam L)"
    proof
      assume "e \<in> LiveHead ` {..<VACCEL_RES_MAX}"
      then obtain i where i: "e = LiveHead i" "i < VACCEL_RES_MAX" by auto
      then have "\<exists>xs. live_fam L e = Some xs" by auto
      then show ?thesis unfolding cover_def by blast
    next
      assume "e \<in> ResEntry ` set L"
      then have "live_fam L (LiveHead 0) = Some (map ResEntry L)" "e \<in> set (map ResEntry L)" by auto
      then show ?thesis unfolding cover_def by blast
    qed
  qed
qed

lemma live_fam_upd: "(live_fam L)(LiveHead 0 \<mapsto> map ResEntry L') = live_fam L'"
proof
  fix e show "((live_fam L)(LiveHead 0 \<mapsto> map ResEntry L')) e = live_fam L' e" by (cases e) auto
qed

lemma res_ok_distinct: "res_ok s L \<Longrightarrow> distinct L"
  using family_distinct [of "r_links s" "live_fam L" "LiveHead 0"] by (auto simp: res_ok_def distinct_map)

text \<open>Changes to other components' state keep the invariant.\<close>

lemma res_ok_cong:
  assumes "res_ok s L" "r_links s' = r_links s" "r_pool s' = r_pool s" "r_mem s' = r_mem s"
    "\<And>a p. a \<in> set L \<Longrightarrow> rundir_of s a = Some p \<Longrightarrow> strs (os s') p = strs (os s) p"
  shows "res_ok s' L"
proof -
  have eq: "rid_of s' = rid_of s" "rundir_of s' = rundir_of s"
    using assms(4) by (simp_all add: rid_of_def rundir_of_def fun_eq_iff)
  have "rundirs_ok s' L"
    using res_okD(7) [OF assms(1)] assms(5) unfolding rundirs_ok_def eq by metis
  then show ?thesis using assms(1) unfolding res_ok_def eq assms(2-4) by blast
qed

subsection \<open>Bootstrap\<close>

lemma max_resources_word: "sint (of_nat MAX_RESOURCES :: i32) = int MAX_RESOURCES"
  by (simp add: MAX_RESOURCES_def)

lemma resources_bootstrap_ok:
  assumes mem: "alloc_ok (os s) (alloc_next (os s))"
    and heads: "\<And>i. i < VACCEL_RES_MAX \<Longrightarrow> allocated (r_links s) (LiveHead i)"
  obtains s' where "resources_bootstrap s = Some (VACCEL_OK, s')" "res_ok s' []" "r_initialized s'"
    "free_ids (r_pool s') = map int [1..<Suc MAX_RESOURCES]" "allocated (r_links s') = allocated (r_links s)"
    "\<exists>p h. s' = s\<lparr>r_pool := p, os := (os s)\<lparr>alloc_next := Suc (alloc_next (os s))\<rparr>, r_links := h, r_initialized := True\<rparr>"
proof -
  obtain p o' where p: "id_pool_new (r_pool s) (of_nat MAX_RESOURCES) (os s) = (VACCEL_OK, p, o')"
    "pool_wf p" "pool_cap p = sint (of_nat MAX_RESOURCES :: i32)"
    "free_ids p = map int [1..<Suc (nat (sint (of_nat MAX_RESOURCES :: i32)))]"
    "o' = (os s)\<lparr>alloc_next := Suc (alloc_next (os s))\<rparr>"
    by (rule id_pool_new_ok [of "of_nat MAX_RESOURCES" "os s" "r_pool s"])
      (use mem in \<open>simp_all add: max_resources_word MAX_RESOURCES_def\<close>)
  have cap: "pool_cap p = int MAX_RESOURCES" "free_ids p = map int [1..<Suc MAX_RESOURCES]"
    using p(3,4) unfolding max_resources_word by simp_all
  let ?ls = "map LiveHead [0..<VACCEL_RES_MAX]"
  have "\<exists>h. list_init_all ?ls (r_links s) = Some h \<and> family h (\<lambda>e. if e \<in> set ?ls then Some [] else None)
    \<and> allocated h = allocated (r_links s)"
    by (rule family_init_all) (use heads in \<open>auto simp: family_def cover_def distinct_map inj_on_def simp del: upt_Suc\<close>)
  then obtain h where h: "list_init_all ?ls (r_links s) = Some h"
    "family h (\<lambda>e. if e \<in> set ?ls then Some [] else None)" "allocated h = allocated (r_links s)" by blast
  have "(\<lambda>e. if e \<in> set ?ls then Some [] else None) = live_fam []"
  proof
    fix e show "(if e \<in> set ?ls then Some [] else None) = live_fam [] e" by (cases e) auto
  qed
  then have fam: "family h (live_fam [])" using h(2) by simp
  let ?s = "s\<lparr>r_pool := p, os := o', r_links := h, r_initialized := True\<rparr>"
  have "set (free_ids p) = {1..int MAX_RESOURCES}"
    unfolding cap(2) set_map set_upt image_int_atLeastLessThan by auto
  then have used: "used_ids p = {}" by (simp add: used_ids_def cap(1))
  have "res_ok ?s []" using fam p(2) cap used by (simp add: res_ok_def rundirs_ok_def)
  moreover have "resources_bootstrap s = Some (VACCEL_OK, ?s)"
    using p(1) h(1) by (simp add: resources_bootstrap_def r_do_def Let_def)
  moreover have "\<exists>p h. ?s = s\<lparr>r_pool := p, os := (os s)\<lparr>alloc_next := Suc (alloc_next (os s))\<rparr>, r_links := h, r_initialized := True\<rparr>"
    unfolding p(5) by blast
  ultimately show thesis using that [of ?s] cap h(3) by simp
qed

lemma resources_bootstrap_nomem:
  "\<not> alloc_ok (os s) (alloc_next (os s)) \<Longrightarrow> \<exists>s'. resources_bootstrap s = Some (VACCEL_ENOMEM, s')
    \<and> r_initialized s' = r_initialized s"
  by (simp add: resources_bootstrap_def id_pool_new_def calloc_def malloc_def MAX_RESOURCES_def)

subsection \<open>Creation\<close>

lemma resource_new_ok:
  assumes ok: "res_ok s L" and i: "r_initialized s" and v: "virtio s = None" and ty: "ty < VACCEL_RES_MAX"
    and a: "r_mem s a = Some r" "a \<notin> set L" "allocated (r_links s) (ResEntry a)"
    and fr: "free_ids (r_pool s) = rid # F"
  obtains s' where "resource_new (Some a) ty data cl s = Some (VACCEL_OK, s')" "res_ok s' (L @ [a])"
    "r_mem s' = (r_mem s)(a \<mapsto> r\<lparr>res_id := rid, res_type := ty, res_data := data, cleanup_resource := cl,
       refcount := 0, res_rundir := None\<rparr>)" "free_ids (r_pool s') = F" "rid \<notin> rid_of s ` set L"
    "\<exists>p h. s' = s\<lparr>r_pool := p, r_links := h, r_mem := r_mem s'\<rparr>"
proof -
  note D = res_okD [OF ok]
  obtain p where p: "id_pool_get (Some (r_pool s)) = Some (rid, Some p)" "pool_wf p" "pool_cap p = pool_cap (r_pool s)"
    "1 \<le> rid" "rid \<notin> used_ids (r_pool s)" "used_ids p = insert rid (used_ids (r_pool s))" "free_ids p = F"
    using pool.get_fresh [OF D(2)] fr unfolding pool_used_ids by auto
  have "\<exists>h1 h2. list_init_entry (ResEntry a) (r_links s) = Some h1 \<and> list_add_tail (LiveHead 0) (ResEntry a) h1 = Some h2
    \<and> family h2 ((live_fam L)(LiveHead 0 \<mapsto> map ResEntry L @ [ResEntry a])) \<and> allocated h2 = allocated (r_links s)"
    by (rule ll.init_add [OF D(1) _ a(3)]) (use a(2) in \<open>auto simp: live_cover\<close>)
  then obtain h1 h2 where h: "list_init_entry (ResEntry a) (r_links s) = Some h1"
    "list_add_tail (LiveHead 0) (ResEntry a) h1 = Some h2" "family h2 (live_fam (L @ [a]))"
    using live_fam_upd [of L "L @ [a]"] by auto
  let ?r = "r\<lparr>res_id := rid, res_type := ty, res_data := data, cleanup_resource := cl, refcount := 0, res_rundir := None\<rparr>"
  let ?s = "s\<lparr>r_pool := p, r_links := h2, r_mem := (r_mem s)(a \<mapsto> ?r)\<rparr>"
  have run: "resource_new (Some a) ty data cl s = Some (VACCEL_OK, ?s)"
    using i v ty a(1) p(1,4) h(1,2) by (simp add: resource_new_def get_virtio_plugin_def r_pool_get_def r_do_def r_set_def Let_def)
  have rid: "rid_of ?s b = (if b = a then rid else rid_of s b)" for b by (simp add: rid_of_def)
  have rd: "rundir_of ?s b = (if b = a then None else rundir_of s b)" for b by (simp add: rundir_of_def)
  have img: "rid_of ?s ` set L = rid_of s ` set L" using a(2) by (auto simp: rid image_iff)
  have "inj_on (rid_of ?s) (set L)" using D(5) a(2) by (auto simp: inj_on_def rid)
  moreover have "rid_of ?s a \<notin> rid_of ?s ` set L" using img p(5) D(6) by (simp add: rid)
  ultimately have inj: "inj_on (rid_of ?s) (set (L @ [a]))" using a(2) by simp
  have ra: "rid_of ?s a = rid" by (simp add: rid)
  have us: "used_ids p = rid_of ?s ` set (L @ [a])"
    unfolding p(6) D(6) img [symmetric] set_append image_Un by (simp add: ra)
  have "rundirs_ok ?s (L @ [a])"
    unfolding rundirs_ok_def
  proof (intro ballI allI impI conjI)
    fix b q assume "b \<in> set (L @ [a])" "rundir_of ?s b = Some q"
    then have b: "b \<in> set L" "rundir_of s b = Some q" by (auto simp: rd split: if_splits)
    have keep: "strs (os s) q \<noteq> None" "\<And>c. c \<in> set L \<Longrightarrow> rundir_of s c = Some q \<Longrightarrow> c = b"
      using D(7) b unfolding rundirs_ok_def by blast+
    show "strs (os ?s) q \<noteq> None" using keep(1) by simp
    fix c assume "c \<in> set (L @ [a])" "rundir_of ?s c = Some q"
    then show "c = b" using keep(2) by (auto simp: rd split: if_splits)
  qed
  moreover have "set (L @ [a]) \<subseteq> dom (r_mem ?s)" using D(4) by auto
  ultimately have ok': "res_ok ?s (L @ [a])"
    unfolding res_ok_def using h(3) p(2,3) D(3) inj us by (intro conjI) simp_all
  have shape: "\<exists>q h. ?s = s\<lparr>r_pool := q, r_links := h, r_mem := r_mem ?s\<rparr>"
    by (rule exI [of _ p], rule exI [of _ h2]) simp
  have "rid \<notin> rid_of s ` set L" using p(5) D(6) by simp
  then show thesis using that [OF run ok' _ _ _ shape] p(7) by simp
qed

lemma resource_new_refused:
  "\<not> r_initialized s \<Longrightarrow> resource_new res ty data cl s = Some (VACCEL_EPERM, s)"
  "r_initialized s \<Longrightarrow> resource_new None ty data cl s = Some (VACCEL_EINVAL, s)"
  "r_initialized s \<Longrightarrow> VACCEL_RES_MAX \<le> ty \<Longrightarrow> resource_new (Some a) ty data cl s = Some (VACCEL_EINVAL, s)"
  by (simp_all add: resource_new_def)

lemma resource_new_exhausted:
  assumes "r_initialized s" "virtio s = None" "ty < VACCEL_RES_MAX" "r_mem s a = Some r"
    "pool_wf (r_pool s)" "free_ids (r_pool s) = []"
  shows "resource_new (Some a) ty data cl s = Some (VACCEL_EUSERS,
    s\<lparr>r_pool := (r_pool s)\<lparr>next_id := next_id (r_pool s) + 1\<rparr>, r_mem := (r_mem s)(a \<mapsto> r\<lparr>res_id := 0\<rparr>)\<rparr>)"
  using assms
  by (simp add: resource_new_def get_virtio_plugin_def r_pool_get_def id_pool_get_exhausted r_set_def Let_def)

subsection \<open>Destruction\<close>

text \<open>What a destructor leaves alone: everything of the resources and of the plugins.\<close>

definition runtime_kept :: "'z res_state_scheme \<Rightarrow> 'z res_state_scheme \<Rightarrow> bool" where
  "runtime_kept s s' \<longleftrightarrow> r_initialized s' = r_initialized s \<and> r_pool s' = r_pool s \<and> r_links s' = r_links s
     \<and> r_mem s' = r_mem s \<and> virtio s' = virtio s \<and> plugins s' = plugins s
     \<and> (\<forall>a p. rundir_of s a = Some p \<longrightarrow> strs (os s') p = strs (os s) p)"

lemma runtime_kept_refl [simp]: "runtime_kept s s"
  by (simp add: runtime_kept_def)

lemma cleanup_rundir_heap: "heap_of (snd (cleanup_rundir path o1)) = heap_of o1"
  using heap_of_rmdir [of path o1] by (auto simp: cleanup_rundir_def split: prod.split)

lemma free_rundir_ok:
  assumes "strs (os s) p \<noteq> None"
  obtains o' where "free_rundir (Some p) s = Some (s\<lparr>os := o'\<rparr>)" "strs o' = (strs (os s))(p := None)"
    "maps o' = maps (os s)" "alloc_next o' = alloc_next (os s)" "alloc_ok o' = alloc_ok (os s)"
proof -
  obtain path where path: "strs (os s) p = Some path" using assms by auto
  obtain n o1 where o1: "cleanup_rundir path (os s) = (n, o1)" by (cases "cleanup_rundir path (os s)")
  have "strs o1 = strs (os s)" "maps o1 = maps (os s)" "alloc_next o1 = alloc_next (os s)" "alloc_ok o1 = alloc_ok (os s)"
    using cleanup_rundir_heap [of path "os s"] o1 by (simp_all add: heap_of_def)
  then show thesis using that [of "o1\<lparr>strs := (strs o1)(p := None)\<rparr>"] path o1
    by (simp add: free_rundir_def get_str_def os_call_def free_str_def)
qed

locale cleanup_contract =
  fixes call_cleanup :: "destructor \<Rightarrow> ptr \<Rightarrow> 'z res_state_scheme \<Rightarrow> 'z res_state_scheme option"
    and ready :: "destructor \<Rightarrow> ptr \<Rightarrow> 'z res_state_scheme \<Rightarrow> bool"
  assumes cleanup_runs: "ready d data s \<Longrightarrow> \<exists>s'. call_cleanup d data s = Some s' \<and> runtime_kept s s'"
    and ready_core: "ready d data s \<Longrightarrow> ready d data (s\<lparr>r_pool := p, r_links := h\<rparr>)"
begin

lemma run_cleanup:
  assumes "\<And>d. cl = Some d \<Longrightarrow> ready d data s"
  shows "\<exists>s'. (case cl of None \<Rightarrow> Some s | Some d \<Rightarrow> call_cleanup d data s) = Some s' \<and> runtime_kept s s'"
  using assms cleanup_runs by (cases cl) auto

text \<open>A live resource that no session uses is destroyed: its id is free again.\<close>

lemma destroy_unused:
  assumes ok: "res_ok s L" and i: "r_initialized s" and v: "virtio s = None" and a: "a \<in> set L"
    and r: "r_mem s a = Some r" "refcount r = 0"
    and rdy: "\<And>d. cleanup_resource r = Some d \<Longrightarrow> ready d (res_data r) s"
  shows "\<exists>s'. resource_destroy call_cleanup (Some a) s = Some (VACCEL_OK, s')
    \<and> res_ok s' (remove1 a L) \<and> r_mem s' = r_mem s \<and> r_initialized s' \<and> virtio s' = None
    \<and> free_ids (r_pool s') = res_id r # free_ids (r_pool s)
    \<and> (\<exists>p h s2 o'. (case cleanup_resource r of None \<Rightarrow> Some (s\<lparr>r_pool := p, r_links := h\<rparr>)
          | Some d \<Rightarrow> call_cleanup d (res_data r) (s\<lparr>r_pool := p, r_links := h\<rparr>)) = Some s2
        \<and> s' = s2\<lparr>os := o'\<rparr> \<and> strs o' = (case res_rundir r of None \<Rightarrow> strs (os s2) | Some q \<Rightarrow> (strs (os s2))(q := None))
        \<and> maps o' = maps (os s2) \<and> alloc_next o' = alloc_next (os s2) \<and> alloc_ok o' = alloc_ok (os s2))"
proof -
  note D = res_okD [OF ok]
  have ra: "rid_of s a = res_id r" using r by (simp add: rid_of_def)
  then have used: "res_id r \<in> used_ids (r_pool s)" unfolding D(6) using a by force
  then have pos: "res_id r \<noteq> 0" by (auto simp: used_ids_def)
  obtain p where p: "id_pool_release (Some (r_pool s)) (res_id r) = Some (Some p)" "pool_wf p"
    "pool_cap p = pool_cap (r_pool s)" "used_ids p = used_ids (r_pool s) - {res_id r}"
    "free_ids p = res_id r # free_ids (r_pool s)"
    using pool.put_used [OF D(2)] used unfolding pool_used_ids by auto
  obtain L1 L2 where L: "L = L1 @ a # L2" using a by (metis split_list)
  have d: "distinct L" using res_ok_distinct [OF ok] .
  then have rem: "remove1 a L = L1 @ L2" using L by (simp add: remove1_append)
  have sub: "set (remove1 a L) = set L - {a}" using d by (simp add: set_remove1_eq)
  have "\<exists>h. list_unlink_entry (ResEntry a) (r_links s) = Some h
    \<and> family h ((live_fam L)(LiveHead 0 \<mapsto> map ResEntry L1 @ map ResEntry L2)) \<and> allocated h = allocated (r_links s)
    \<and> ResEntry a \<notin> cover ((live_fam L)(LiveHead 0 \<mapsto> map ResEntry L1 @ map ResEntry L2))"
    by (rule ll.unlink_forget [OF D(1)]) (simp add: L)
  then obtain h where h: "list_unlink_entry (ResEntry a) (r_links s) = Some h" "family h (live_fam (remove1 a L))"
    using live_fam_upd [of L "L1 @ L2"] rem by auto
  let ?s1 = "s\<lparr>r_pool := p, r_links := h\<rparr>"
  obtain s2 where s2: "(case cleanup_resource r of None \<Rightarrow> Some ?s1 | Some d \<Rightarrow> call_cleanup d (res_data r) ?s1) = Some s2"
    "runtime_kept ?s1 s2"
    using run_cleanup [of "cleanup_resource r" "res_data r" ?s1] rdy ready_core by blast
  have k: "r_initialized s2" "r_pool s2 = p" "r_links s2 = h" "r_mem s2 = r_mem s" "virtio s2 = None"
    using s2(2) i v by (simp_all add: runtime_kept_def)
  have rdk: "rundir_of s2 = rundir_of s" "rid_of s2 = rid_of s"
    using k(4) by (simp_all add: rundir_of_def rid_of_def fun_eq_iff)
  have strs2: "strs (os s2) q = strs (os s) q" if "rundir_of s b = Some q" for b q
    using s2(2) that by (simp add: runtime_kept_def rundir_of_def)
  have rd2: "strs (os s2) q \<noteq> None" if "b \<in> set L" "rundir_of s b = Some q" for b q
    using D(7) that strs2 unfolding rundirs_ok_def by metis
  obtain o' where o': "free_rundir (res_rundir r) s2 = Some (s2\<lparr>os := o'\<rparr>)"
    "strs o' = (case res_rundir r of None \<Rightarrow> strs (os s2) | Some q \<Rightarrow> (strs (os s2))(q := None))"
    "maps o' = maps (os s2)" "alloc_next o' = alloc_next (os s2)" "alloc_ok o' = alloc_ok (os s2)"
  proof (cases "res_rundir r")
    case None
    then show thesis using that [of "os s2"] by (simp add: free_rundir_def)
  next
    case (Some q)
    then have "strs (os s2) q \<noteq> None" using rd2 [OF a] r by (simp add: rundir_of_def)
    then show thesis by (rule free_rundir_ok) (use that Some in simp)
  qed
  let ?s = "s2\<lparr>os := o'\<rparr>"
  have run: "resource_destroy call_cleanup (Some a) s = Some (VACCEL_OK, ?s)"
    using i v r pos p(1) h(1) s2(1) k(4) o'(1)
    by (simp add: resource_destroy_def get_virtio_plugin_def r_pool_release_def r_do_def)
  have ids: "used_ids p = rid_of s ` set (remove1 a L)"
  proof -
    have "rid_of s ` (set L - {a}) = rid_of s ` set L - rid_of s ` {a}"
      by (rule inj_on_image_set_diff [OF D(5)]) (use a in auto)
    then show ?thesis using p(4) unfolding sub D(6) ra [symmetric] by simp
  qed
  have dirs: "rundirs_ok ?s (remove1 a L)"
    unfolding rundirs_ok_def sub
  proof (intro ballI allI impI conjI)
    fix b q assume b: "b \<in> set L - {a}" and q: "rundir_of ?s b = Some q"
    then have q': "rundir_of s b = Some q" using k(4) by (simp add: rundir_of_def)
    have "rundir_of s a \<noteq> Some q" using D(7) a b q' unfolding rundirs_ok_def by blast
    then show "strs (os ?s) q \<noteq> None" using o'(2) rd2 [of b q] b q' r by (auto simp: rundir_of_def split: option.splits)
    fix c assume c: "c \<in> set L - {a}" and "rundir_of ?s c = Some q"
    then have "rundir_of s c = Some q" using k(4) by (simp add: rundir_of_def)
    then show "c = b" using D(7) b c q' unfolding rundirs_ok_def by blast
  qed
  have eqs: "rid_of ?s = rid_of s" using rdk(2) by (simp add: rid_of_def fun_eq_iff)
  have "res_ok ?s (remove1 a L)"
    unfolding res_ok_def eqs
  proof (intro conjI)
    show "set (remove1 a L) \<subseteq> dom (r_mem ?s)" using D(4) sub k(4) by auto
    show "inj_on (rid_of s) (set (remove1 a L))" by (rule inj_on_subset [OF D(5)]) (use sub in blast)
  qed (use h(2) p(2,3) k D(3) ids dirs in simp_all)
  moreover have "\<exists>p h t o'. (case cleanup_resource r of None \<Rightarrow> Some (s\<lparr>r_pool := p, r_links := h\<rparr>)
          | Some d \<Rightarrow> call_cleanup d (res_data r) (s\<lparr>r_pool := p, r_links := h\<rparr>)) = Some t
        \<and> ?s = t\<lparr>os := o'\<rparr> \<and> strs o' = (case res_rundir r of None \<Rightarrow> strs (os t) | Some q \<Rightarrow> (strs (os t))(q := None))
        \<and> maps o' = maps (os t) \<and> alloc_next o' = alloc_next (os t) \<and> alloc_ok o' = alloc_ok (os t)"
    by (intro exI [of _ p] exI [of _ h] exI [of _ s2] exI [of _ o']) (use s2(1) o' in simp)
  ultimately show ?thesis using run k p(5) by (intro exI [of _ ?s]) simp
qed

end

lemma resource_destroy_refused:
  "\<not> r_initialized s \<Longrightarrow> resource_destroy cc res s = Some (VACCEL_EPERM, s)"
  "r_initialized s \<Longrightarrow> resource_destroy cc None s = Some (VACCEL_EINVAL, s)"
  "r_initialized s \<Longrightarrow> r_mem s a = Some r \<Longrightarrow> refcount r \<noteq> 0 \<Longrightarrow>
    resource_destroy cc (Some a) s = Some (VACCEL_EBUSY, s)"
  by (simp_all add: resource_destroy_def)

subsection \<open>Lookup and reference counts\<close>

definition id_found :: "'z res_state_scheme \<Rightarrow> int \<Rightarrow> rlink \<Rightarrow> addr option" where
  "id_found s rid e = (case e of ResEntry a \<Rightarrow> if rid = rid_of s a then Some a else None | _ \<Rightarrow> None)"

lemma find_first_id:
  "find_first (id_found s rid) (map ResEntry L) = List.find (\<lambda>a. rid = rid_of s a) L"
  by (induction L) (auto simp: id_found_def)

lemma search_live:
  assumes ok: "res_ok s L" and i: "i < VACCEL_RES_MAX"
  shows "for_each_container_safe r_next (LiveHead i) (id_match rid) s
    = Some (if i = 0 then List.find (\<lambda>a. rid = rid_of s a) L else None, s)"
proof -
  let ?xs = "if i = 0 then map ResEntry L else []"
  have il: "is_list (r_links s) (LiveHead i) ?xs"
    by (rule family_is_list [OF res_okD(1) [OF ok]]) (use i in auto)
  have body: "id_match rid e s = Some (id_found s rid e, s)" if "e \<in> set ?xs" for e
  proof -
    obtain a where a: "e = ResEntry a" "a \<in> set L" using \<open>e \<in> set ?xs\<close> by (auto split: if_splits)
    then show ?thesis using res_okD(4) [OF ok a(2)] by (auto simp: id_match_def id_found_def rid_of_def)
  qed
  have "for_each_container_safe r_next (LiveHead i) (id_match rid) s = Some (find_first (id_found s rid) ?xs, s)"
    by (rule for_each_container_search(2) [OF il]) (simp add: r_next_def, rule body)
  then show ?thesis by (auto simp: find_first_id)
qed

lemma find_live_rest:
  "res_ok s L \<Longrightarrow> (\<And>i. i \<in> set is \<Longrightarrow> 0 < i \<and> i < VACCEL_RES_MAX) \<Longrightarrow> find_live rid is s = Some None"
  by (induction "is") (auto simp: search_live)

lemma find_live_spec:
  assumes ok: "res_ok s L"
  shows "find_live rid [0..<VACCEL_RES_MAX] s = Some (List.find (\<lambda>a. rid = rid_of s a) L)"
proof -
  have "[0..<VACCEL_RES_MAX] = 0 # [1..<VACCEL_RES_MAX]" by (subst upt_conv_Cons) simp_all
  moreover have "find_live rid [1..<VACCEL_RES_MAX] s = Some None"
    by (rule find_live_rest [OF ok]) auto
  ultimately show ?thesis using search_live [OF ok, of 0 rid] by (auto split: option.split)
qed

lemma find_live_by_id:
  assumes "res_ok s L" "a \<in> set L"
  shows "List.find (\<lambda>b. rid_of s a = rid_of s b) L = Some a"
proof (cases "List.find (\<lambda>b. rid_of s a = rid_of s b) L")
  case None
  then have "\<forall>x\<in>set L. rid_of s a \<noteq> rid_of s x" by (auto simp: find_None_iff)
  then show ?thesis using assms(2) by blast
next
  case (Some b)
  then have "b \<in> set L" "rid_of s a = rid_of s b" by (auto simp: find_Some_iff)
  then show ?thesis using Some inj_onD [OF res_okD(5) [OF assms(1)]] assms(2) by metis
qed

text \<open>A live resource is found by its id; an id that is not used gives back the caller's pointer.\<close>

lemma resource_get_by_id_found:
  assumes "res_ok s L" "r_initialized s" "a \<in> set L"
  shows "resource_get_by_id out (rid_of s a) s = Some (VACCEL_OK, Some a)"
  using assms by (simp add: resource_get_by_id_def find_live_spec find_live_by_id del: VACCEL_RES_MAX_def)

lemma resource_get_by_id_missing:
  assumes "res_ok s L" "r_initialized s" "rid \<notin> used_ids (r_pool s)"
  shows "resource_get_by_id out rid s =
    Some (if out = None then VACCEL_EINVAL else VACCEL_OK, out)"
proof -
  have "List.find (\<lambda>a. rid = rid_of s a) L = None"
    using assms(3) res_okD(6) [OF assms(1)] by (auto simp: find_None_iff)
  then show ?thesis using assms(1,2)
    by (cases out) (simp_all add: resource_get_by_id_def find_live_spec del: VACCEL_RES_MAX_def)
qed

definition refs_of :: "'z res_state_scheme \<Rightarrow> addr \<Rightarrow> u32" where
  "refs_of s a = (case r_mem s a of None \<Rightarrow> 0 | Some r \<Rightarrow> refcount r)"

lemma res_ok_refcount:
  assumes "res_ok s L" "r_mem s a = Some r"
  shows "res_ok (r_set a (r\<lparr>refcount := n\<rparr>) s) L"
proof -
  let ?s = "r_set a (r\<lparr>refcount := n\<rparr>) s"
  have eq: "rid_of ?s = rid_of s" "rundir_of ?s = rundir_of s"
    using assms(2) by (simp_all add: rid_of_def rundir_of_def r_set_def fun_eq_iff)
  have fields: "r_links ?s = r_links s" "r_pool ?s = r_pool s" "os ?s = os s" by (simp_all add: r_set_def)
  have d: "dom (r_mem ?s) = dom (r_mem s)" using assms(2) by (auto simp: r_set_def)
  show ?thesis using assms(1) unfolding res_ok_def rundirs_ok_def eq fields d .
qed

lemma resource_refcount_ok:
  assumes "res_ok s L" "r_mem s a = Some r"
  shows "resource_refcount_inc (Some a) s = Some (r_set a (r\<lparr>refcount := refcount r + 1\<rparr>) s)"
    "resource_refcount_dec (Some a) s = Some (r_set a (r\<lparr>refcount := refcount r - 1\<rparr>) s)"
    "res_ok (r_set a (r\<lparr>refcount := n\<rparr>) s) L"
  using assms res_ok_refcount by (simp_all add: resource_refcount_inc_def resource_refcount_dec_def)

subsection \<open>Creation and destruction\<close>

context cleanup_contract
begin

text \<open>Creating a resource and destroying it gives its id back and leaves the others alone.\<close>

lemma new_destroy:
  assumes ok: "res_ok s L" and i: "r_initialized s" and v: "virtio s = None" and ty: "ty < VACCEL_RES_MAX"
    and a: "r_mem s a = Some r" "a \<notin> set L" "allocated (r_links s) (ResEntry a)"
    and fr: "free_ids (r_pool s) = rid # F"
    and rdy: "\<And>d p h m. cl = Some d \<Longrightarrow> ready d data (s\<lparr>r_pool := p, r_links := h, r_mem := (r_mem s)(a \<mapsto> r\<lparr>res_id := rid,
      res_type := ty, res_data := data, cleanup_resource := cl, refcount := 0, res_rundir := None\<rparr>)\<rparr>)"
  shows "\<exists>s1 s2. resource_new (Some a) ty data cl s = Some (VACCEL_OK, s1)
    \<and> resource_destroy call_cleanup (Some a) s1 = Some (VACCEL_OK, s2)
    \<and> res_ok s2 L \<and> free_ids (r_pool s2) = free_ids (r_pool s)"
proof -
  let ?r = "r\<lparr>res_id := rid, res_type := ty, res_data := data, cleanup_resource := cl, refcount := 0, res_rundir := None\<rparr>"
  obtain s1 where s1: "resource_new (Some a) ty data cl s = Some (VACCEL_OK, s1)" "res_ok s1 (L @ [a])"
    "r_mem s1 = (r_mem s)(a \<mapsto> ?r)" "free_ids (r_pool s1) = F"
    "\<exists>p h. s1 = s\<lparr>r_pool := p, r_links := h, r_mem := r_mem s1\<rparr>"
    by (rule resource_new_ok [OF ok i v ty a fr])
  obtain p h where sh: "s1 = s\<lparr>r_pool := p, r_links := h, r_mem := r_mem s1\<rparr>" using s1(5) by blast
  have k: "r_initialized s1" "virtio s1 = None" by (subst sh, use i v in simp)+
  have rdy1: "ready d (res_data ?r) s1" if "cleanup_resource ?r = Some d" for d
    using rdy [where d = d and p = p and h = h] that sh s1(3) by simp
  have "\<exists>s2. resource_destroy call_cleanup (Some a) s1 = Some (VACCEL_OK, s2)
    \<and> res_ok s2 (remove1 a (L @ [a])) \<and> r_mem s2 = r_mem s1 \<and> r_initialized s2 \<and> virtio s2 = None
    \<and> free_ids (r_pool s2) = res_id ?r # free_ids (r_pool s1)"
    using destroy_unused [OF s1(2) k, where r = ?r] s1(3) rdy1 by force
  moreover have "remove1 a (L @ [a]) = L" using a(2) by (simp add: remove1_append)
  ultimately show ?thesis using s1(1,4) fr by auto
qed

end

subsection \<open>Destroying everything\<close>

text \<open>
  A client whose invariant lets the first live resource be destroyed (no session uses it, and what
  its destructor needs is there) can run \<open>resources_cleanup\<close> to the end.
\<close>

lemma destroy_lists_empty:
  "\<forall>i\<in>set is. nxt (r_links s) (LiveHead i) = Some (LiveHead i) \<Longrightarrow> destroy_lists call_cleanup is s = Some s"
  by (induction "is") (simp_all add: for_each_container_safe_def for_each_safe_loop.simps r_next_def)

locale resource_sweep =
  fixes call_cleanup :: "destructor \<Rightarrow> ptr \<Rightarrow> 'z res_state_scheme \<Rightarrow> 'z res_state_scheme option"
    and inv :: "addr list \<Rightarrow> 'z res_state_scheme \<Rightarrow> bool"
  assumes inv_res_ok: "inv L s \<Longrightarrow> res_ok s L"
    and inv_initialized: "inv L s \<Longrightarrow> r_initialized s"
    and inv_step: "inv (a # L) s \<Longrightarrow> \<exists>s'. resource_destroy call_cleanup (Some a) s = Some (VACCEL_OK, s') \<and> inv L s'"
begin

lemma entry_step:
  assumes "\<exists>L. y # ys = map ResEntry L \<and> inv L s"
  shows "y \<noteq> LiveHead 0 \<and> (\<exists>s' n. destroy_entry call_cleanup y s = Some (None, s') \<and> (\<exists>L. ys = map ResEntry L \<and> inv L s')
    \<and> r_next s' (first_or (LiveHead 0) ys) = Some n \<and> (ys \<noteq> [] \<longrightarrow> n = first_or (LiveHead 0) (tl ys)))"
proof -
  obtain a L where L: "y = ResEntry a" "ys = map ResEntry L" "inv (a # L) s" using assms by auto
  obtain s' where s': "resource_destroy call_cleanup (Some a) s = Some (VACCEL_OK, s')" "inv L s'" using inv_step [OF L(3)] by blast
  have "is_list (r_links s') (LiveHead 0) ([] @ map ResEntry L)"
    using family_is_list [OF res_okD(1) [OF inv_res_ok [OF s'(2)]], of "LiveHead 0"] by simp
  from next_of_first [OF this] obtain n where
    n: "nxt (r_links s') (first_or (LiveHead 0) ys) = Some n" "ys \<noteq> [] \<longrightarrow> n = first_or (LiveHead 0) (tl ys)"
    unfolding L(2) by blast
  have "\<exists>K. ys = map ResEntry K \<and> inv K s'" using L(2) s'(2) by blast
  then show ?thesis using L(1) s'(1) n by (auto simp: destroy_entry_def r_next_def)
qed

lemma empty_first:
  assumes "inv L s"
  shows "\<exists>s'. for_each_container_safe r_next (LiveHead 0) (destroy_entry call_cleanup) s = Some (None, s') \<and> inv [] s'"
proof -
  let ?l = "LiveHead 0" and ?es = "map ResEntry L"
  have il: "is_list (r_links s) ?l ([] @ ?es)" using family_is_list [OF res_okD(1) [OF inv_res_ok [OF assms]], of ?l] by simp
  obtain n where n: "r_next s (first_or ?l ?es) = Some n" "?es \<noteq> [] \<longrightarrow> n = first_or ?l (tl ?es)"
    using next_of_first [OF il] unfolding r_next_def by blast
  have f: "r_next s ?l = Some (first_or ?l ?es)" using is_list_first [OF il] by (simp add: r_next_def)
  have "\<exists>K. ?es = map ResEntry K \<and> inv K s" using assms by blast
  from for_each_safe_loop_run [where I = "\<lambda>ys s. \<exists>K. ys = map ResEntry K \<and> inv K s" and rd = r_next and l = ?l
      and body = "destroy_entry call_cleanup", OF entry_step this n(2)]
  obtain s' where "for_each_safe_loop r_next ?l (destroy_entry call_cleanup) (first_or ?l ?es) n s = Some (None, s')" "inv [] s'" by auto
  then show ?thesis using f n(1) by (auto simp: for_each_container_safe_def)
qed

lemma heads_empty:
  assumes "inv [] s" "i < VACCEL_RES_MAX" shows "nxt (r_links s) (LiveHead i) = Some (LiveHead i)"
proof -
  have "is_list (r_links s) (LiveHead i) []"
    by (rule family_is_list [OF res_okD(1) [OF inv_res_ok [OF assms(1)]]]) (use assms(2) in simp)
  from is_list_first [OF this] show ?thesis by simp
qed

lemma cleanup_all:
  assumes "inv L s"
  shows "\<exists>s' p. resources_cleanup call_cleanup s = Some (VACCEL_OK, s'\<lparr>r_pool := p\<rparr>) \<and> inv [] s' \<and> ids p = Freed
    \<and> resources_cleanup call_cleanup (s'\<lparr>r_pool := p\<rparr>) = None"
proof -
  obtain s1 where s1: "for_each_container_safe r_next (LiveHead 0) (destroy_entry call_cleanup) s = Some (None, s1)" "inv [] s1"
    using empty_first [OF assms] by blast
  have "[0..<VACCEL_RES_MAX] = 0 # [1..<VACCEL_RES_MAX]" by (simp add: upt_conv_Cons)
  then have run: "destroy_lists call_cleanup [0..<VACCEL_RES_MAX] s = Some s1" using s1 destroy_lists_empty [of "[1..<VACCEL_RES_MAX]" s1] heads_empty [OF s1(2)] by simp
  obtain a where "ids (r_pool s1) = Live a"
    using res_okD(2) [OF inv_res_ok [OF s1(2)]] by (auto simp: pool_wf_def split: block.splits)
  then have "id_pool_destroy (Some (r_pool s1)) = Some (VACCEL_OK, Some ((r_pool s1)\<lparr>ids := Freed\<rparr>))" by (rule id_pool_destroy_twice)
  then have "resources_cleanup call_cleanup s = Some (VACCEL_OK, s1\<lparr>r_pool := (r_pool s1)\<lparr>ids := Freed\<rparr>\<rparr>)"
    using run inv_initialized [OF assms] by (simp add: resources_cleanup_def)
  moreover let ?t = "s1\<lparr>r_pool := (r_pool s1)\<lparr>ids := Freed\<rparr>\<rparr>"
  have "destroy_lists call_cleanup [0..<VACCEL_RES_MAX] ?t = Some ?t"
    by (rule destroy_lists_empty) (use heads_empty [OF s1(2)] in simp)
  then have "resources_cleanup call_cleanup ?t = None"
    using inv_initialized [OF s1(2)] by (simp add: resources_cleanup_def id_pool_destroy_def)
  ultimately show ?thesis using s1(2) by (intro exI [of _ s1] exI [of _ "(r_pool s1)\<lparr>ids := Freed\<rparr>"]) simp
qed

end

subsection \<open>Resource directories\<close>

definition resource_path :: "'z rt_state_scheme \<Rightarrow> int \<Rightarrow> string" where
  "resource_path s i = rundir s @ ''/resource.'' @ int_digits i"

lemma create_rundir_run:
  assumes r: "r_mem s a = Some r" and len: "length (resource_path s (res_id r)) \<noteq> MAX_RESOURCE_RUNDIR"
  defines "path \<equiv> take (MAX_RESOURCE_RUNDIR - 1) (resource_path s (res_id r))"
  obtains s' ret where "resource_create_rundir (Some a) s = Some (ret, s')" "r_links s' = r_links s" "r_pool s' = r_pool s"
    "ret = VACCEL_OK \<Longrightarrow> node (os s) path = None \<and> node (os s') = (node (os s))(path \<mapsto> Dir)
      \<and> (\<exists>p. r_mem s' = (r_mem s)(a \<mapsto> r\<lparr>res_rundir := Some p\<rparr>) \<and> strs (os s') = (strs (os s))(p \<mapsto> path))"
proof -
  obtain n o1 where m: "mkdir path (os s) = (n, o1)" by (cases "mkdir path (os s)")
  have short: "take MAX_RESOURCE_RUNDIR path = path" by (simp add: path_def)
  have sn: "snprintf MAX_RESOURCE_RUNDIR (vaccel_rundir s @ ''/resource.'' @ int_digits (res_id r))
      = (length (resource_path s (res_id r)), path)"
    by (simp add: snprintf_def vaccel_rundir_def resource_path_def path_def)
  show thesis
  proof (cases "n = 0")
    case False
    have ne: "errno o1 \<noteq> 0" using mkdir_failed [OF m False] by simp
    have run: "resource_create_rundir (Some a) s = Some (errno o1, s\<lparr>os := o1\<rparr>)"
      using r m len sn False by (simp add: resource_create_rundir_def os_call_def)
    show thesis by (rule that [OF run]) (use ne in simp_all)
  next
    case True
    note mk = mkdir_ok [OF m [unfolded True]]
    have strs1: "strs o1 = strs (os s)" using mk(3) by (simp add: heap_of_def)
    show thesis
    proof (cases rule: new_str_cases [of path o1])
      case 1
      let ?s = "r_set a (r\<lparr>res_rundir := None\<rparr>) (s\<lparr>os := o1\<lparr>alloc_next := Suc (alloc_next o1)\<rparr>\<rparr>)"
      have run: "resource_create_rundir (Some a) s = Some (VACCEL_ENOMEM, ?s)"
        using r m len sn True 1 short by (simp add: resource_create_rundir_def os_call_def strndup_def)
      show thesis by (rule that [OF run]) (simp_all add: r_set_def)
    next
      case 2
      let ?o = "o1\<lparr>alloc_next := Suc (alloc_next o1), strs := (strs o1)(alloc_next o1 \<mapsto> path)\<rparr>"
      let ?s = "r_set a (r\<lparr>res_rundir := Some (alloc_next o1)\<rparr>) (s\<lparr>os := ?o\<rparr>)"
      have run: "resource_create_rundir (Some a) s = Some (VACCEL_OK, ?s)"
        using r m len sn True 2 short by (simp add: resource_create_rundir_def os_call_def strndup_def)
      have "node ?o = node o1" by (simp add: node_def fun_eq_iff)
      then show thesis using mk(1,2) strs1 by (intro that [OF run]) (auto simp: r_set_def)
    qed
  qed
qed

subsection \<open>Properties\<close>

text \<open>
  \<open>resources_bootstrap\<close> establishes the invariant with no live resource and the 2048 ids all
  free.
\<close>

theorem resources_bootstrap_correct:
  assumes "alloc_ok (os s) (alloc_next (os s))" "\<And>i. i < VACCEL_RES_MAX \<Longrightarrow> allocated (r_links s) (LiveHead i)"
  shows "\<exists>s'. resources_bootstrap s = Some (VACCEL_OK, s') \<and> res_ok s' [] \<and> r_initialized s'
    \<and> free_ids (r_pool s') = map int [1..<Suc MAX_RESOURCES]"
  using resources_bootstrap_ok [OF assms] by blast

definition no_resource :: vaccel_resource where
  "no_resource = \<lparr>res_id = 0, res_type = 0, res_data = None, cleanup_resource = None, refcount = 0, res_rundir = None\<rparr>"

definition res_unbooted :: res_state where
  "res_unbooted = plug_state.extend two_loaded \<lparr>r_initialized = False,
     r_pool = \<lparr>ids = Null, max_ids = 0, next_id = 0\<rparr>, r_links = self_linked, r_mem = (\<lambda>_. Some no_resource)\<rparr>"

theorem resources_bootstrap_correct_witness:
  "\<exists>s'. resources_bootstrap res_unbooted = Some (VACCEL_OK, s') \<and> res_ok s' [] \<and> r_initialized s'"
  using resources_bootstrap_correct [of res_unbooted]
  by (auto simp: res_unbooted_def plug_state.defs two_loaded_def calm_os_def)

definition res_booted :: res_state where
  "res_booted = snd (the (resources_bootstrap res_unbooted))"

lemma res_booted: "res_ok res_booted []" "r_initialized res_booted" "virtio res_booted = None"
  "r_mem res_booted a = Some no_resource" "free_ids (r_pool res_booted) = map int [1..<Suc MAX_RESOURCES]"
  "rundir res_booted = ''/run''" "os res_booted = calm_os\<lparr>alloc_next := 2\<rparr>" "allocated (r_links res_booted) (ResEntry a)"
proof -
  note d = res_unbooted_def plug_state.defs two_loaded_def
  obtain s' where s': "resources_bootstrap res_unbooted = Some (VACCEL_OK, s')" "res_ok s' []" "r_initialized s'"
    "free_ids (r_pool s') = map int [1..<Suc MAX_RESOURCES]" "allocated (r_links s') = allocated (r_links res_unbooted)"
    "\<exists>p h. s' = res_unbooted\<lparr>r_pool := p, os := (os res_unbooted)\<lparr>alloc_next := Suc (alloc_next (os res_unbooted))\<rparr>,
       r_links := h, r_initialized := True\<rparr>"
    by (rule resources_bootstrap_ok [of res_unbooted]) (simp_all add: d calm_os_def)
  obtain p h where sh: "s' = res_unbooted\<lparr>r_pool := p, os := (os res_unbooted)\<lparr>alloc_next := Suc (alloc_next (os res_unbooted))\<rparr>,
       r_links := h, r_initialized := True\<rparr>" using s'(6) by blast
  have b: "res_booted = s'" using s'(1) by (simp add: res_booted_def)
  show "res_ok res_booted []" "r_initialized res_booted"
    "free_ids (r_pool res_booted) = map int [1..<Suc MAX_RESOURCES]" unfolding b by (fact s'(2-4))+
  show "allocated (r_links res_booted) (ResEntry a)" unfolding b s'(5) by (simp add: d)
  show "virtio res_booted = None" "r_mem res_booted a = Some no_resource" "rundir res_booted = ''/run''"
    "os res_booted = calm_os\<lparr>alloc_next := 2\<rparr>"
    unfolding b sh by (simp_all add: d calm_os_def)
qed

text \<open>
  C35. \<open>resource_new\<close> without a VirtIO plugin: as long as ids are free the resource is linked as the
  last live one, with the first free id, different from the ids of all live resources, a zero
  reference count and no directory; with 2048 live resources it fails with EUSERS.
\<close>

theorem resource_new_correct:
  assumes "res_ok s L" "r_initialized s" "virtio s = None" "ty < VACCEL_RES_MAX"
    "r_mem s a = Some r" "a \<notin> set L" "allocated (r_links s) (ResEntry a)"
  shows "(free_ids (r_pool s) = [] \<longrightarrow> (\<exists>s'. resource_new (Some a) ty data cl s = Some (VACCEL_EUSERS, s')))
    \<and> (free_ids (r_pool s) \<noteq> [] \<longrightarrow> (\<exists>s'. resource_new (Some a) ty data cl s = Some (VACCEL_OK, s') \<and> res_ok s' (L @ [a])
        \<and> free_ids (r_pool s') = tl (free_ids (r_pool s)) \<and> (\<forall>b\<in>set L. rid_of s' a \<noteq> rid_of s b)
        \<and> r_mem s' = (r_mem s)(a \<mapsto> \<lparr>res_id = hd (free_ids (r_pool s)), res_type = ty, res_data = data,
             cleanup_resource = cl, refcount = 0, res_rundir = None\<rparr>)))"
proof (cases "free_ids (r_pool s)")
  case Nil
  then show ?thesis
    using resource_new_exhausted [OF assms(2-5) res_okD(2) [OF assms(1)]] by simp
next
  case (Cons rid F)
  obtain s' where s': "resource_new (Some a) ty data cl s = Some (VACCEL_OK, s')" "res_ok s' (L @ [a])"
    "r_mem s' = (r_mem s)(a \<mapsto> r\<lparr>res_id := rid, res_type := ty, res_data := data, cleanup_resource := cl,
       refcount := 0, res_rundir := None\<rparr>)" "free_ids (r_pool s') = F" "rid \<notin> rid_of s ` set L"
    using resource_new_ok [OF assms Cons] .
  have "r\<lparr>res_id := rid, res_type := ty, res_data := data, cleanup_resource := cl, refcount := 0, res_rundir := None\<rparr>
      = \<lparr>res_id = rid, res_type = ty, res_data = data, cleanup_resource = cl, refcount = 0, res_rundir = None\<rparr>" by simp
  moreover have "rid_of s' a = rid" using s'(3) by (simp add: rid_of_def)
  ultimately show ?thesis using s' Cons by auto
qed

theorem resource_new_correct_witness:
  "\<exists>s'. resource_new (Some 7) 3 None None res_booted = Some (VACCEL_OK, s') \<and> res_ok s' [7]"
proof -
  have ne: "free_ids (r_pool res_booted) \<noteq> []" by (simp add: res_booted(5) MAX_RESOURCES_def del: upt_Suc)
  show ?thesis
    using resource_new_correct [OF res_booted(1-3) _ res_booted(4) _ res_booted(8), of 3 7 None None] ne by auto
qed

text \<open>The resource at address 7, with id 1.\<close>

definition res_one :: res_state where
  "res_one = snd (the (resource_new (Some 7) 3 None None res_booted))"

lemma res_one: "res_ok res_one [7]" "r_initialized res_one" "virtio res_one = None"
  "r_mem res_one 7 = Some (no_resource\<lparr>res_id := 1, res_type := 3\<rparr>)"
  "rundir res_one = ''/run''" "os res_one = calm_os\<lparr>alloc_next := 2\<rparr>"
proof -
  have fr: "free_ids (r_pool res_booted) = 1 # map int [2..<Suc MAX_RESOURCES]"
  proof -
    have "1 < Suc MAX_RESOURCES" by (simp add: MAX_RESOURCES_def)
    then have "[1..<Suc MAX_RESOURCES] = 1 # [Suc 1..<Suc MAX_RESOURCES]" by (rule upt_conv_Cons)
    then show ?thesis unfolding res_booted(5) by (simp add: numeral_2_eq_2 del: upt_Suc)
  qed
  note new = resource_new_ok [where a = 7 and ty = 3 and data = None and cl = None,
      OF res_booted(1-3) _ res_booted(4) _ res_booted(8) fr]
  obtain s' where s': "resource_new (Some 7) 3 None None res_booted = Some (VACCEL_OK, s')" "res_ok s' ([] @ [7])"
    "r_mem s' = (r_mem res_booted)(7 \<mapsto> no_resource\<lparr>res_id := 1, res_type := 3, res_data := None, cleanup_resource := None,
       refcount := 0, res_rundir := None\<rparr>)"
    "\<exists>p h. s' = res_booted\<lparr>r_pool := p, r_links := h, r_mem := r_mem s'\<rparr>"
    by (rule new) (simp, simp, rule that)
  obtain p h where sh: "s' = res_booted\<lparr>r_pool := p, r_links := h, r_mem := r_mem s'\<rparr>" using s'(4) by blast
  have b: "res_one = s'" using s'(1) by (simp add: res_one_def)
  show "res_ok res_one [7]" using s'(2) b by simp
  show "r_mem res_one 7 = Some (no_resource\<lparr>res_id := 1, res_type := 3\<rparr>)"
    using s'(3) b by (simp add: no_resource_def)
  show "r_initialized res_one" "virtio res_one = None" "rundir res_one = ''/run''" "os res_one = calm_os\<lparr>alloc_next := 2\<rparr>"
    unfolding b by (subst sh, simp add: res_booted)+
qed

lemma create_rundir_calm:
  assumes "r_mem s a = Some r" "length (resource_path s (res_id r)) \<noteq> MAX_RESOURCE_RUNDIR"
    "os s = calm_os\<lparr>alloc_next := n\<rparr>" and path: "path = take (MAX_RESOURCE_RUNDIR - 1) (resource_path s (res_id r))"
    "node calm_os path = None" "is_dir calm_os (dirname path)"
  shows "\<exists>s'. resource_create_rundir (Some a) s = Some (VACCEL_OK, s')"
proof -
  have "mkdir path (os s) = (0, set_node path Dir ((os s)\<lparr>sys_next := Suc (sys_next (os s))\<rparr>))"
    by (rule mkdir_calm) (use assms(3) path(2,3) in \<open>simp_all add: calm_os_def node_def is_dir_def\<close>)
  moreover have "snprintf MAX_RESOURCE_RUNDIR (vaccel_rundir s @ ''/resource.'' @ int_digits (res_id r))
      = (length (resource_path s (res_id r)), path)"
    by (simp add: snprintf_def vaccel_rundir_def resource_path_def path(1))
  ultimately show ?thesis
    using assms(1-3) by (simp add: resource_create_rundir_def os_call_def strndup_def new_str_def malloc_def
        calm_os_def set_node_def)
qed

text \<open>
  C36. \<open>resource_get_by_id\<close> finds every live resource by its id. For an id that no live resource has
  it gives back the pointer its caller passed, and reports success unless that pointer is NULL.
\<close>

theorem resource_get_by_id_correct:
  assumes "res_ok s L" "r_initialized s"
  shows "(\<forall>a\<in>set L. resource_get_by_id out (rid_of s a) s = Some (VACCEL_OK, Some a))
    \<and> (\<forall>i. i \<notin> rid_of s ` set L \<longrightarrow>
         resource_get_by_id out i s = Some (if out = None then VACCEL_EINVAL else VACCEL_OK, out))"
  using resource_get_by_id_found [OF assms] resource_get_by_id_missing [OF assms] res_okD(6) [OF assms(1)]
  by simp

theorem resource_get_by_id_correct_witness:
  "resource_get_by_id None 5 res_booted = Some (VACCEL_EINVAL, None)
    \<and> resource_get_by_id (Some 9) 5 res_booted = Some (VACCEL_OK, Some 9)"
  using resource_get_by_id_correct [OF res_booted(1,2)] by simp

text \<open>
  When \<open>resource_create_rundir\<close> succeeds and the path fits the buffer, it has made the directory
  \<open><rundir>/resource.<id>\<close>, which did not exist, and the resource holds that path; the other live
  resources, having other ids, have other paths.
\<close>

theorem resource_create_rundir_correct:
  assumes "res_ok s L" "a \<in> set L" "r_mem s a = Some r" "length (resource_path s (res_id r)) < MAX_RESOURCE_RUNDIR"
    "resource_create_rundir (Some a) s = Some (VACCEL_OK, s')"
  shows "\<exists>p. rundir_of s' a = Some p \<and> strs (os s') p = Some (resource_path s (res_id r))
    \<and> node (os s) (resource_path s (res_id r)) = None
    \<and> node (os s') = (node (os s))(resource_path s (res_id r) \<mapsto> Dir)
    \<and> (\<forall>b\<in>set L. b = a \<or> resource_path s (rid_of s b) \<noteq> resource_path s (res_id r))"
proof -
  let ?path = "resource_path s (res_id r)"
  have tk: "take (MAX_RESOURCE_RUNDIR - 1) ?path = ?path" using assms(4) by simp
  have "length ?path \<noteq> MAX_RESOURCE_RUNDIR" using assms(4) by simp
  from create_rundir_run [OF assms(3) this] obtain s1 ret where s1: "resource_create_rundir (Some a) s = Some (ret, s1)"
    "ret = VACCEL_OK \<Longrightarrow> node (os s) ?path = None \<and> node (os s1) = (node (os s))(?path \<mapsto> Dir)
      \<and> (\<exists>p. r_mem s1 = (r_mem s)(a \<mapsto> r\<lparr>res_rundir := Some p\<rparr>) \<and> strs (os s1) = (strs (os s))(p \<mapsto> ?path))"
    unfolding tk by blast
  have pos: "0 \<le> rid_of s b" if "b \<in> set L" for b
  proof -
    have "rid_of s b \<in> used_ids (r_pool s)" using that res_okD(6) [OF assms(1)] by auto
    then show ?thesis by (simp add: used_ids_def)
  qed
  have ra: "rid_of s a = res_id r" using assms(3) by (simp add: rid_of_def)
  have "resource_path s (rid_of s b) \<noteq> ?path" if b: "b \<in> set L" "b \<noteq> a" for b
  proof -
    have "rid_of s b \<noteq> rid_of s a" using inj_onD [OF res_okD(5) [OF assms(1)]] b assms(2) by blast
    then show ?thesis using int_digits_inj [OF pos [OF b(1)] pos [OF assms(2)]] ra by (simp add: resource_path_def)
  qed
  then show ?thesis using s1 assms(5) by (auto simp: rundir_of_def)
qed

theorem resource_create_rundir_correct_witness:
  "\<exists>s' p. resource_create_rundir (Some 7) res_one = Some (VACCEL_OK, s') \<and> rundir_of s' 7 = Some p
    \<and> strs (os s') p = Some ''/run/resource.1'' \<and> node (os s') ''/run/resource.1'' = Some Dir"
proof -
  let ?r = "no_resource\<lparr>res_id := 1, res_type := 3\<rparr>"
  have path: "resource_path res_one (res_id ?r) = ''/run/resource.1''"
  proof -
    have "int_digits 1 = ''1''" by code_simp
    then show ?thesis by (simp add: resource_path_def res_one(5))
  qed
  have "\<exists>s'. resource_create_rundir (Some 7) res_one = Some (VACCEL_OK, s')"
    by (rule create_rundir_calm [OF res_one(4) _ res_one(6) refl])
      (unfold path, simp_all add: calm_os_def node_def is_dir_def dirname_def)
  then obtain s' where s': "resource_create_rundir (Some 7) res_one = Some (VACCEL_OK, s')" by blast
  have "\<exists>p. rundir_of s' 7 = Some p \<and> strs (os s') p = Some (resource_path res_one (res_id ?r))
    \<and> node (os res_one) (resource_path res_one (res_id ?r)) = None
    \<and> node (os s') = (node (os res_one))(resource_path res_one (res_id ?r) \<mapsto> Dir)
    \<and> (\<forall>b\<in>set [7]. b = 7 \<or> resource_path res_one (rid_of res_one b) \<noteq> resource_path res_one (res_id ?r))"
    by (rule resource_create_rundir_correct [OF res_one(1) _ res_one(4) _ s']) (unfold path, simp_all)
  then show ?thesis unfolding path using s' by auto
qed

text \<open>
  The length check of \<open>resource_create_rundir\<close> only refuses a path of exactly 1024 characters. A
  longer path is cut at 1023 characters without an error: on success the directory of the resource
  is not the one its id names.
\<close>

theorem resource_create_rundir_truncates:
  assumes "r_mem s a = Some r" "MAX_RESOURCE_RUNDIR < length (resource_path s (res_id r))"
    "resource_create_rundir (Some a) s = Some (VACCEL_OK, s')"
  shows "\<exists>p q. rundir_of s' a = Some p \<and> strs (os s') p = Some q \<and> length q = MAX_RESOURCE_RUNDIR - 1
    \<and> q \<noteq> resource_path s (res_id r) \<and> node (os s') q = Some Dir"
proof -
  let ?path = "take (MAX_RESOURCE_RUNDIR - 1) (resource_path s (res_id r))"
  have "length (resource_path s (res_id r)) \<noteq> MAX_RESOURCE_RUNDIR" using assms(2) by simp
  from create_rundir_run [OF assms(1) this] obtain s1 ret where s1: "resource_create_rundir (Some a) s = Some (ret, s1)"
    "ret = VACCEL_OK \<Longrightarrow> node (os s) ?path = None \<and> node (os s1) = (node (os s))(?path \<mapsto> Dir)
      \<and> (\<exists>p. r_mem s1 = (r_mem s)(a \<mapsto> r\<lparr>res_rundir := Some p\<rparr>) \<and> strs (os s1) = (strs (os s))(p \<mapsto> ?path))"
    by blast
  have len: "length ?path = MAX_RESOURCE_RUNDIR - 1" using assms(2) by simp
  then have "?path \<noteq> resource_path s (res_id r)" using assms(2) by (metis less_imp_diff_less nat_neq_iff)
  then show ?thesis using s1 assms(3) len by (auto simp: rundir_of_def)
qed

lemma long_rundir:
  assumes "MAX_RESOURCE_RUNDIR < n"
  defines "s \<equiv> res_one\<lparr>rundir := replicate n CHR ''a''\<rparr>" and "r \<equiv> no_resource\<lparr>res_id := 1, res_type := 3\<rparr>"
  shows "r_mem s 7 = Some r" "MAX_RESOURCE_RUNDIR < length (resource_path s (res_id r))"
    "\<exists>s'. resource_create_rundir (Some 7) s = Some (VACCEL_OK, s')"
proof -
  let ?k = "MAX_RESOURCE_RUNDIR - 1"
  show mem: "r_mem s 7 = Some r" using res_one(4) by (simp add: s_def r_def)
  show len: "MAX_RESOURCE_RUNDIR < length (resource_path s (res_id r))" using assms(1) by (simp add: resource_path_def s_def)
  have path: "replicate ?k CHR ''a'' = take ?k (resource_path s (res_id r))"
    using assms(1) by (simp add: resource_path_def s_def min_def)
  have dir: "dirname (replicate k CHR ''a'') = []" for k by (simp add: dirname_def dropWhile_eq_Nil_conv)
  have "replicate k CHR ''a'' \<noteq> ''/run''" for k by (cases k) auto
  then show "\<exists>s'. resource_create_rundir (Some 7) s = Some (VACCEL_OK, s')"
    by (intro create_rundir_calm [OF mem _ _ path]) (use len res_one(6) dir in \<open>simp_all add: s_def calm_os_def node_def is_dir_def del: MAX_RESOURCE_RUNDIR_def\<close>)
qed

theorem resource_create_rundir_truncates_witness:
  "\<exists>s' p q. resource_create_rundir (Some 7) (res_one\<lparr>rundir := replicate 1100 CHR ''a''\<rparr>) = Some (VACCEL_OK, s')
    \<and> rundir_of s' 7 = Some p \<and> strs (os s') p = Some q \<and> length q = 1023"
proof -
  have n: "MAX_RESOURCE_RUNDIR < 1100" by simp
  obtain s' where s': "resource_create_rundir (Some 7) (res_one\<lparr>rundir := replicate 1100 CHR ''a''\<rparr>) = Some (VACCEL_OK, s')"
    using long_rundir(3) [OF n] by blast
  obtain p q where "rundir_of s' 7 = Some p" "strs (os s') p = Some q" "length q = MAX_RESOURCE_RUNDIR - 1"
    using resource_create_rundir_truncates [OF long_rundir(1,2) [OF n] s'] by blast
  moreover have "MAX_RESOURCE_RUNDIR - 1 = 1023" by simp
  ultimately show ?thesis using s' by metis
qed

end
