(* ===== verification/Sessions.thy ===== *)
theory Sessions
  imports Resources
begin

text \<open>
  The sessions of \<^verbatim>\<open>src/src/session.c\<close>: a table of at most 1024 running sessions, whose ids come from
  a pool (or from the VirtIO host), and for every session the resources registered with it, in one
  list for each resource type. \<open>sess_ok\<close> is the invariant: the ids in use are those of the running
  sessions, and the reference count of every live resource is the number of its registrations.
\<close>

subsection \<open>State\<close>

definition MAX_VACCEL_SESSIONS :: nat where "MAX_VACCEL_SESSIONS = 1024"
definition MAX_SESSION_RUNDIR_PATH :: nat where [simp]: "MAX_SESSION_RUNDIR_PATH = 512"

text \<open>
  \<open>RegHead r t\<close> is \<open>registered[t]\<close> of the session resources at \<open>r\<close>, \<open>RegEntry c\<close> the entry of the
  registration at \<open>c\<close>.
\<close>

datatype slink =
    SNull
  | RegHead addr nat
  | RegEntry addr

text \<open>
  \<open>s_mem\<close> holds the session structures, which belong to the user; \<open>sr_mem\<close> the session resources
  (their directory) and \<open>reg_mem\<close> the registrations (the registered resource).
\<close>

record sess_state = res_state +
  s_initialized :: bool
  s_ids :: id_pool
  running :: "ptr list"
  s_links :: "slink lheap"
  s_mem :: "addr \<Rightarrow> vaccel_session option"
  sr_mem :: "addr \<Rightarrow> string option"
  reg_mem :: "addr \<Rightarrow> ptr option"

definition s_do :: "(slink lheap \<Rightarrow> slink lheap option) \<Rightarrow> 'z sess_state_scheme \<Rightarrow> 'z sess_state_scheme option" where
  "s_do f s = do { h \<leftarrow> f (s_links s); Some (s\<lparr>s_links := h\<rparr>) }"

definition s_next :: "'z sess_state_scheme \<Rightarrow> slink \<Rightarrow> slink option" where
  "s_next s e = nxt (s_links s) e"

definition s_set :: "addr \<Rightarrow> vaccel_session \<Rightarrow> 'z sess_state_scheme \<Rightarrow> 'z sess_state_scheme" where
  "s_set a se s = s\<lparr>s_mem := (s_mem s)(a \<mapsto> se)\<rparr>"

text \<open>Allocating and freeing the two structures the component allocates.\<close>

definition malloc_reg :: "'z sess_state_scheme \<Rightarrow> ptr \<times> 'z sess_state_scheme" where
  "malloc_reg s = (case os_call malloc s of
       (None, s) \<Rightarrow> (None, s)
     | (Some c, s) \<Rightarrow> (Some c, s\<lparr>reg_mem := (reg_mem s)(c \<mapsto> None),
         s_links := add_entry (RegEntry c) SNull (s_links s)\<rparr>))"

definition free_reg :: "addr \<Rightarrow> 'z sess_state_scheme \<Rightarrow> 'z sess_state_scheme option" where
  "free_reg c s = do {
     defined (reg_mem s c \<noteq> None);
     Some (s\<lparr>reg_mem := (reg_mem s)(c := None), s_links := del_entry (RegEntry c) (s_links s)\<rparr>) }"

definition malloc_sr :: "'z sess_state_scheme \<Rightarrow> ptr \<times> 'z sess_state_scheme" where
  "malloc_sr s = (case os_call malloc s of
       (None, s) \<Rightarrow> (None, s)
     | (Some r, s) \<Rightarrow> (Some r, s\<lparr>sr_mem := (sr_mem s)(r \<mapsto> []),
         s_links := fold (\<lambda>i. add_entry (RegHead r i) SNull) [0..<VACCEL_RES_MAX] (s_links s)\<rparr>))"

definition free_sr :: "addr \<Rightarrow> 'z sess_state_scheme \<Rightarrow> 'z sess_state_scheme option" where
  "free_sr r s = do {
     defined (sr_mem s r \<noteq> None);
     Some (s\<lparr>sr_mem := (sr_mem s)(r := None),
       s_links := fold (\<lambda>i. del_entry (RegHead r i)) [0..<VACCEL_RES_MAX] (s_links s)\<rparr>) }"

subsection \<open>Operations\<close>

definition get_sess_id :: "'z sess_state_scheme \<Rightarrow> (u32 \<times> 'z sess_state_scheme) option" where
  "get_sess_id s = do { (i, p) \<leftarrow> id_pool_get (Some (s_ids s)); p \<leftarrow> p; Some (of_int i, s\<lparr>s_ids := p\<rparr>) }"

definition put_sess_id :: "u32 \<Rightarrow> 'z sess_state_scheme \<Rightarrow> 'z sess_state_scheme option" where
  "put_sess_id i s = do { p \<leftarrow> id_pool_release (Some (s_ids s)) (uint i); p \<leftarrow> p; Some (s\<lparr>s_ids := p\<rparr>) }"

definition sessions_bootstrap :: "'z sess_state_scheme \<Rightarrow> int \<times> 'z sess_state_scheme" where
  "sessions_bootstrap s =
     (let (ret, p, o') = id_pool_new (s_ids s) (of_nat MAX_VACCEL_SESSIONS) (os s);
          s = s\<lparr>s_ids := p, os := o'\<rparr>
      in if ret \<noteq> 0 then (ret, s)
         else (VACCEL_OK, s\<lparr>running := replicate MAX_VACCEL_SESSIONS None, s_initialized := True\<rparr>))"

definition sessions_cleanup :: "'z sess_state_scheme \<Rightarrow> (int \<times> 'z sess_state_scheme) option" where
  "sessions_cleanup s = do {
     (_, p) \<leftarrow> id_pool_destroy (Some (s_ids s));
     p \<leftarrow> p;
     Some (VACCEL_OK, s\<lparr>s_ids := p, s_initialized := False\<rparr>) }"

definition vaccel_sess_register :: "ptr \<Rightarrow> ptr \<Rightarrow> 'z sess_state_scheme \<Rightarrow> (int \<times> 'z sess_state_scheme) option" where
  "vaccel_sess_register sess res s = (case sess of
       None \<Rightarrow> Some (VACCEL_EINVAL, s)
     | Some a \<Rightarrow> do {
         se \<leftarrow> s_mem s a;
         case (sess_resources se, res) of
           (Some resources, Some b) \<Rightarrow> do {
             r \<leftarrow> r_mem s b;
             if VACCEL_RES_MAX \<le> res_type r then Some (VACCEL_EINVAL, s)
             else case malloc_reg s of
               (None, s) \<Rightarrow> Some (VACCEL_ENOMEM, s)
             | (Some container, s) \<Rightarrow> do {
                 (ret, s) \<leftarrow> (case get_virtio_plugin s of
                     Some v \<Rightarrow> do {
                       info \<leftarrow> virtio_info v s;
                       f \<leftarrow> v_sess_register info;
                       let (n, s) = next_host_call s;
                       Some (f n (session_id se) (res_id r), s) }
                   | None \<Rightarrow> Some (0, s));
                 if ret \<noteq> 0 then do { s \<leftarrow> free_reg container s; Some (ret, s) }
                 else do {
                   let s = s\<lparr>reg_mem := (reg_mem s)(container \<mapsto> res)\<rparr>;
                   s \<leftarrow> s_do (list_add_tail (RegHead resources (res_type r)) (RegEntry container)) s;
                   s \<leftarrow> resource_refcount_inc res s;
                   Some (VACCEL_OK, s) } } }
         | _ \<Rightarrow> Some (VACCEL_EINVAL, s) })"

definition reg_match :: "ptr \<Rightarrow> slink \<Rightarrow> 'z sess_state_scheme \<Rightarrow> (addr option \<times> 'z sess_state_scheme) option" where
  "reg_match res e s = (case e of
       RegEntry c \<Rightarrow> do { q \<leftarrow> reg_mem s c; Some (if q = res then Some c else None, s) }
     | _ \<Rightarrow> None)"

definition find_registered_resource :: "ptr \<Rightarrow> ptr \<Rightarrow> 'z sess_state_scheme \<Rightarrow> ptr option" where
  "find_registered_resource sess res s = do {
     a \<leftarrow> sess;
     se \<leftarrow> s_mem s a;
     resources \<leftarrow> sess_resources se;
     b \<leftarrow> res;
     r \<leftarrow> r_mem s b;
     (found, _) \<leftarrow> for_each_container s_next (RegHead resources (res_type r)) (reg_match res) s;
     Some found }"

definition vaccel_sess_unregister :: "ptr \<Rightarrow> ptr \<Rightarrow> 'z sess_state_scheme \<Rightarrow> (int \<times> 'z sess_state_scheme) option" where
  "vaccel_sess_unregister sess res s = (case (sess, res) of
       (Some a, Some b) \<Rightarrow> do {
         r \<leftarrow> r_mem s b;
         if VACCEL_RES_MAX \<le> res_type r then Some (VACCEL_EINVAL, s)
         else do {
           found \<leftarrow> find_registered_resource sess res s;
           case found of
             None \<Rightarrow> Some (VACCEL_EINVAL, s)
           | Some container \<Rightarrow> do {
               s \<leftarrow> (case get_virtio_plugin s of
                   Some v \<Rightarrow> do {
                     info \<leftarrow> virtio_info v s;
                     f \<leftarrow> v_sess_unregister info;
                     se \<leftarrow> s_mem s a;
                     let (n, s) = next_host_call s;
                     let ret = f n (session_id se) (res_id r);
                     Some s }
                 | None \<Rightarrow> Some s);
               s \<leftarrow> s_do (list_unlink_entry (RegEntry container)) s;
               q \<leftarrow> reg_mem s container;
               s \<leftarrow> resource_refcount_dec q s;
               s \<leftarrow> free_reg container s;
               Some (VACCEL_OK, s) } } }
     | _ \<Rightarrow> Some (VACCEL_EINVAL, s))"

definition vaccel_sess_has_resource :: "ptr \<Rightarrow> ptr \<Rightarrow> 'z sess_state_scheme \<Rightarrow> bool option" where
  "vaccel_sess_has_resource sess res s = do {
     found \<leftarrow> find_registered_resource sess res s;
     Some (found \<noteq> None) }"

definition initialize_session_resources :: "ptr \<Rightarrow> 'z sess_state_scheme \<Rightarrow> (int \<times> 'z sess_state_scheme) option" where
  "initialize_session_resources sess s = (case sess of
       None \<Rightarrow> Some (VACCEL_EINVAL, s)
     | Some a \<Rightarrow> (case malloc_sr s of
           (None, s) \<Rightarrow> Some (VACCEL_ENOMEM, s)
         | (Some res, s) \<Rightarrow> do {
             se \<leftarrow> s_mem s a;
             let (len, path) = snprintf MAX_SESSION_RUNDIR_PATH
               (vaccel_rundir s @ ''/session.'' @ dec_digits (unat (session_id se)));
             let s = s\<lparr>sr_mem := (sr_mem s)(res \<mapsto> path)\<rparr>;
             if len = MAX_SESSION_RUNDIR_PATH
             then do { s \<leftarrow> free_sr res s; Some (VACCEL_ENAMETOOLONG, s) }
             else do {
               let (ret, s) = os_call (mkdir path) s;
               if ret \<noteq> 0 then do { s \<leftarrow> free_sr res s; Some (ret, s) }
               else do {
                 let s = s_set a (se\<lparr>sess_resources := Some res\<rparr>) s;
                 s \<leftarrow> s_do (list_init_all (map (RegHead res) [0..<VACCEL_RES_MAX])) s;
                 Some (VACCEL_OK, s) } } }))"

definition unregister_entry :: "ptr \<Rightarrow> slink \<Rightarrow> 'z sess_state_scheme \<Rightarrow> (unit option \<times> 'z sess_state_scheme) option" where
  "unregister_entry sess e s = (case e of
       RegEntry c \<Rightarrow> do {
         q \<leftarrow> reg_mem s c;
         (_, s) \<leftarrow> vaccel_sess_unregister sess q s;
         Some (None, s) }
     | _ \<Rightarrow> None)"

fun unregister_lists :: "ptr \<Rightarrow> addr \<Rightarrow> nat list \<Rightarrow> 'z sess_state_scheme \<Rightarrow> 'z sess_state_scheme option" where
  "unregister_lists sess resources [] s = Some s"
| "unregister_lists sess resources (i # is) s = do {
     (_, s) \<leftarrow> for_each_container_safe s_next (RegHead resources i) (unregister_entry sess) s;
     unregister_lists sess resources is s }"

definition cleanup_session_resources :: "ptr \<Rightarrow> 'z sess_state_scheme \<Rightarrow> (int \<times> 'z sess_state_scheme) option" where
  "cleanup_session_resources sess s = (case sess of
       None \<Rightarrow> Some (VACCEL_EINVAL, s)
     | Some a \<Rightarrow> do {
         se \<leftarrow> s_mem s a;
         case sess_resources se of
           None \<Rightarrow> Some (VACCEL_EINVAL, s)
         | Some resources \<Rightarrow> do {
             s \<leftarrow> unregister_lists sess resources [0..<VACCEL_RES_MAX] s;
             se \<leftarrow> s_mem s a;
             r \<leftarrow> sess_resources se;
             path \<leftarrow> sr_mem s r;
             let (ret, s) = os_call (cleanup_rundir path) s;
             s \<leftarrow> free_sr r s;
             Some (VACCEL_OK, s_set a (se\<lparr>sess_resources := None\<rparr>) s) } })"

text \<open>\<open>sessions.running_sessions[sess->session_id - 1] = v\<close>, the index computed in 32 bits.\<close>

definition set_running :: "u32 \<Rightarrow> ptr \<Rightarrow> 'z sess_state_scheme \<Rightarrow> 'z sess_state_scheme option" where
  "set_running sid v s = do {
     i \<leftarrow> array_index (uint (sid - 1)) (running s);
     Some (s\<lparr>running := (running s)[i := v]\<rparr>) }"

definition vaccel_sess_init :: "ptr \<Rightarrow> u32 \<Rightarrow> 'z sess_state_scheme \<Rightarrow> (int \<times> 'z sess_state_scheme) option" where
  "vaccel_sess_init sess flags s = (case sess of
       None \<Rightarrow> Some (VACCEL_EINVAL, s)
     | Some a \<Rightarrow>
       if \<not> s_initialized s then Some (VACCEL_ESESS, s)
       else do {
         se \<leftarrow> s_mem s a;
         let virtio = get_virtio_plugin s;
         (ret, s) \<leftarrow> (case virtio of
             Some v \<Rightarrow> do {
               info \<leftarrow> virtio_info v s;
               f \<leftarrow> v_sess_init info;
               let (n, s) = next_host_call s;
               let (ret, se) = f n se flags;
               Some (ret, s_set a se s) }
           | None \<Rightarrow> do {
               (sess_id, s) \<leftarrow> get_sess_id s;
               if sess_id = 0 then Some (VACCEL_ESESS, s)
               else Some (0, s_set a (se\<lparr>session_id := sess_id\<rparr>) s) });
         if ret \<noteq> 0 then Some (ret, s)
         else do {
           (ret, s) \<leftarrow> initialize_session_resources sess s;
           se \<leftarrow> s_mem s a;
           if ret \<noteq> 0
           then (case virtio of
               Some v \<Rightarrow> do {
                 info \<leftarrow> virtio_info v s;
                 f \<leftarrow> v_sess_free info;
                 let (n, s) = next_host_call s;
                 let (err, se) = f n se;
                 Some (ret, s_set a se s) }
             | None \<Rightarrow> do { s \<leftarrow> put_sess_id (session_id se) s; Some (ret, s) })
           else do {
             let s = s_set a (se\<lparr>hint := flags\<rparr>) s;
             s \<leftarrow> set_running (session_id se) sess s;
             Some (VACCEL_OK, s) } } })"

definition vaccel_sess_update :: "ptr \<Rightarrow> u32 \<Rightarrow> 'z sess_state_scheme \<Rightarrow> (int \<times> 'z sess_state_scheme) option" where
  "vaccel_sess_update sess flags s = (case sess of
       None \<Rightarrow> Some (VACCEL_EINVAL, s)
     | Some a \<Rightarrow>
       if \<not> s_initialized s then Some (VACCEL_ESESS, s)
       else do {
         se \<leftarrow> s_mem s a;
         s \<leftarrow> (case get_virtio_plugin s of
             Some v \<Rightarrow> do {
               info \<leftarrow> virtio_info v s;
               f \<leftarrow> v_sess_update info;
               let (n, s) = next_host_call s;
               let (ret, se) = f n se flags;
               Some (s_set a se s) }
           | None \<Rightarrow> Some (s_set a (se\<lparr>hint := flags\<rparr>) s));
         Some (VACCEL_OK, s) })"

definition vaccel_sess_free :: "ptr \<Rightarrow> 'z sess_state_scheme \<Rightarrow> (int \<times> 'z sess_state_scheme) option" where
  "vaccel_sess_free sess s = (case sess of
       None \<Rightarrow> Some (VACCEL_EINVAL, s)
     | Some a \<Rightarrow>
       if \<not> s_initialized s then Some (VACCEL_ESESS, s)
       else do {
         se \<leftarrow> s_mem s a;
         s \<leftarrow> (case get_virtio_plugin s of
             Some v \<Rightarrow> do {
               info \<leftarrow> virtio_info v s;
               f \<leftarrow> v_sess_free info;
               let (n, s) = next_host_call s;
               let (ret, se) = f n se;
               Some (s_set a se s) }
           | None \<Rightarrow> put_sess_id (session_id se) s);
         (_, s) \<leftarrow> cleanup_session_resources sess s;
         se \<leftarrow> s_mem s a;
         s \<leftarrow> set_running (session_id se) None s;
         Some (VACCEL_OK, s) })"

subsection \<open>The registrations\<close>

fun reg_fam :: "addr set \<Rightarrow> (addr \<Rightarrow> nat \<Rightarrow> addr list) \<Rightarrow> slink \<Rightarrow> slink list option" where
  "reg_fam A G SNull = None"
| "reg_fam A G (RegHead r t) = (if r \<in> A \<and> t < VACCEL_RES_MAX then Some (map RegEntry (G r t)) else None)"
| "reg_fam A G (RegEntry c) = None"

definition in_lists :: "addr set \<Rightarrow> (addr \<Rightarrow> nat \<Rightarrow> addr list) \<Rightarrow> addr \<Rightarrow> bool" where
  "in_lists A G c \<longleftrightarrow> (\<exists>r\<in>A. \<exists>t<VACCEL_RES_MAX. c \<in> set (G r t))"

definition regs_of :: "'z sess_state_scheme \<Rightarrow> addr \<Rightarrow> addr set" where
  "regs_of s b = {c. reg_mem s c = Some (Some b)}"

text \<open>A registration in the list of type \<open>t\<close> is of a live resource of that type.\<close>

definition reg_typed :: "'z sess_state_scheme \<Rightarrow> addr list \<Rightarrow> nat \<Rightarrow> addr \<Rightarrow> bool" where
  "reg_typed s L t c \<longleftrightarrow> (\<exists>b rr. reg_mem s c = Some (Some b) \<and> b \<in> set L \<and> r_mem s b = Some rr \<and> res_type rr = t)"

definition reg_ok :: "'z sess_state_scheme \<Rightarrow> addr list \<Rightarrow> (addr \<Rightarrow> nat \<Rightarrow> addr list) \<Rightarrow> bool" where
  "reg_ok s L G \<longleftrightarrow> family (s_links s) (reg_fam (dom (sr_mem s)) G)
     \<and> (\<forall>r\<in>dom (sr_mem s). \<forall>t<VACCEL_RES_MAX. \<forall>c\<in>set (G r t). reg_typed s L t c)
     \<and> (\<forall>c. c \<in> dom (reg_mem s) \<longleftrightarrow> in_lists (dom (sr_mem s)) G c)
     \<and> finite (dom (reg_mem s))
     \<and> (\<forall>b\<in>set L. refs_of s b = of_nat (card (regs_of s b)))
     \<and> (\<forall>x\<in>dom (reg_mem s) \<union> dom (sr_mem s). x < alloc_next (os s))"

lemma reg_okD:
  assumes "reg_ok s L G"
  shows "family (s_links s) (reg_fam (dom (sr_mem s)) G)"
    "r \<in> dom (sr_mem s) \<Longrightarrow> t < VACCEL_RES_MAX \<Longrightarrow> c \<in> set (G r t) \<Longrightarrow> reg_typed s L t c"
    "c \<in> dom (reg_mem s) \<longleftrightarrow> in_lists (dom (sr_mem s)) G c"
    "finite (dom (reg_mem s))"
    "b \<in> set L \<Longrightarrow> refs_of s b = of_nat (card (regs_of s b))"
    "c \<in> dom (reg_mem s) \<Longrightarrow> c < alloc_next (os s)" "r \<in> dom (sr_mem s) \<Longrightarrow> r < alloc_next (os s)"
  using assms unfolding reg_ok_def by blast+

lemma finite_regs_of: "reg_ok s L G \<Longrightarrow> finite (regs_of s b)"
  by (rule finite_subset [OF _ reg_okD(4)]) (auto simp: regs_of_def)

lemma cover_reg_entry: "RegEntry c \<in> cover (reg_fam A G) \<longleftrightarrow> in_lists A G c"
proof
  assume "RegEntry c \<in> cover (reg_fam A G)"
  then obtain l xs where "reg_fam A G l = Some xs" "RegEntry c \<in> insert l (set xs)" by (auto simp: cover_def)
  then obtain r t where "r \<in> A" "t < VACCEL_RES_MAX" "c \<in> set (G r t)" by (cases l) (auto split: if_splits)
  then show "in_lists A G c" unfolding in_lists_def by blast
next
  assume "in_lists A G c"
  then obtain r t where "r \<in> A" "t < VACCEL_RES_MAX" "c \<in> set (G r t)" by (auto simp: in_lists_def)
  then have "reg_fam A G (RegHead r t) = Some (map RegEntry (G r t))" "RegEntry c \<in> set (map RegEntry (G r t))" by auto
  then show "RegEntry c \<in> cover (reg_fam A G)" unfolding cover_def by blast
qed

lemma cover_reg_head: "RegHead r t \<in> cover (reg_fam A G) \<longleftrightarrow> r \<in> A \<and> t < VACCEL_RES_MAX"
proof
  assume "RegHead r t \<in> cover (reg_fam A G)"
  then obtain l xs where "reg_fam A G l = Some xs" "RegHead r t \<in> insert l (set xs)" by (auto simp: cover_def)
  then show "r \<in> A \<and> t < VACCEL_RES_MAX" by (cases l) (auto split: if_splits)
next
  assume "r \<in> A \<and> t < VACCEL_RES_MAX"
  then have "reg_fam A G (RegHead r t) = Some (map RegEntry (G r t))" by simp
  then show "RegHead r t \<in> cover (reg_fam A G)" unfolding cover_def by blast
qed

definition upd_reg :: "(addr \<Rightarrow> nat \<Rightarrow> addr list) \<Rightarrow> addr \<Rightarrow> nat \<Rightarrow> addr list \<Rightarrow> addr \<Rightarrow> nat \<Rightarrow> addr list" where
  "upd_reg G r t xs = G(r := (G r)(t := xs))"

lemma upd_reg_apply [simp]: "upd_reg G r t xs r' t' = (if r' = r \<and> t' = t then xs else G r' t')"
  by (simp add: upd_reg_def)

lemma reg_fam_upd:
  "r \<in> A \<Longrightarrow> t < VACCEL_RES_MAX \<Longrightarrow> (reg_fam A G)(RegHead r t \<mapsto> map RegEntry xs) = reg_fam A (upd_reg G r t xs)"
proof
  fix e assume "r \<in> A" "t < VACCEL_RES_MAX"
  then show "((reg_fam A G)(RegHead r t \<mapsto> map RegEntry xs)) e = reg_fam A (upd_reg G r t xs) e"
    by (cases e) auto
qed

lemma reg_fam_unique:
  assumes "family h (reg_fam A G)" "r \<in> A" "t < VACCEL_RES_MAX" "c \<in> set (G r t)"
    "r' \<in> A" "t' < VACCEL_RES_MAX" "c \<in> set (G r' t')"
  shows "r' = r \<and> t' = t"
proof (rule ccontr)
  assume "\<not> (r' = r \<and> t' = t)"
  then have ne: "RegHead r t \<noteq> RegHead r' t'" by auto
  have "insert (RegHead r t) (set (map RegEntry (G r t))) \<inter> insert (RegHead r' t') (set (map RegEntry (G r' t'))) = {}"
    by (rule family_disjoint [OF assms(1) _ _ ne]) (use assms in auto)
  then show False using assms(4,7) by auto
qed

lemma reg_fam_distinct:
  assumes "family h (reg_fam A G)" "r \<in> A" "t < VACCEL_RES_MAX" shows "distinct (G r t)"
  using family_distinct [OF assms(1), of "RegHead r t" "map RegEntry (G r t)"] assms(2,3) by (simp add: distinct_map)

text \<open>What registering and unregistering change: links, registrations and reference counts.\<close>

definition reg_frame :: "'z sess_state_scheme \<Rightarrow> 'z sess_state_scheme \<Rightarrow> bool" where
  "reg_frame s s' \<longleftrightarrow> (\<exists>h m q n. s' = s\<lparr>r_mem := q, s_links := h, reg_mem := m, os := (os s)\<lparr>alloc_next := n\<rparr>\<rparr>
     \<and> (\<forall>b. map_option (\<lambda>r. r\<lparr>refcount := 0\<rparr>) (q b) = map_option (\<lambda>r. r\<lparr>refcount := 0\<rparr>) (r_mem s b)))"

lemma reg_frame_refl [simp]: "reg_frame s s"
  unfolding reg_frame_def
  by (rule exI [of _ "s_links s"], rule exI [of _ "reg_mem s"], rule exI [of _ "r_mem s"], rule exI [of _ "alloc_next (os s)"]) simp

lemma reg_frame_trans [trans]:
  assumes "reg_frame s1 s2" "reg_frame s2 s3" shows "reg_frame s1 s3"
proof -
  obtain h m q n where 2: "s2 = s1\<lparr>r_mem := q, s_links := h, reg_mem := m, os := (os s1)\<lparr>alloc_next := n\<rparr>\<rparr>"
    "\<forall>b. map_option (\<lambda>r. r\<lparr>refcount := 0\<rparr>) (q b) = map_option (\<lambda>r. r\<lparr>refcount := 0\<rparr>) (r_mem s1 b)"
    using assms(1) unfolding reg_frame_def by blast
  obtain h' m' q' n' where 3: "s3 = s2\<lparr>r_mem := q', s_links := h', reg_mem := m', os := (os s2)\<lparr>alloc_next := n'\<rparr>\<rparr>"
    "\<forall>b. map_option (\<lambda>r. r\<lparr>refcount := 0\<rparr>) (q' b) = map_option (\<lambda>r. r\<lparr>refcount := 0\<rparr>) (r_mem s2 b)"
    using assms(2) unfolding reg_frame_def by blast
  have "s3 = s1\<lparr>r_mem := q', s_links := h', reg_mem := m', os := (os s1)\<lparr>alloc_next := n'\<rparr>\<rparr>" using 2(1) 3(1) by simp
  moreover have "\<forall>b. map_option (\<lambda>r. r\<lparr>refcount := 0\<rparr>) (q' b) = map_option (\<lambda>r. r\<lparr>refcount := 0\<rparr>) (r_mem s1 b)"
    using 2 3(2) by simp
  ultimately show ?thesis unfolding reg_frame_def by blast
qed

lemma refcount_eraseD:
  assumes "map_option (\<lambda>r. r\<lparr>refcount := 0\<rparr>) x = Some (r :: vaccel_resource)"
  shows "\<exists>r'. x = Some r' \<and> r = r'\<lparr>refcount := 0\<rparr>"
  using assms by auto

lemma refcount_erase_fields:
  assumes "map_option (\<lambda>r. r\<lparr>refcount := 0\<rparr>) (x :: vaccel_resource option) = map_option (\<lambda>r. r\<lparr>refcount := 0\<rparr>) y"
  shows "map_option res_id x = map_option res_id y" "map_option res_type x = map_option res_type y"
    "map_option res_rundir x = map_option res_rundir y" "x = None \<longleftrightarrow> y = None"
    "map_option res_data x = map_option res_data y" "map_option cleanup_resource x = map_option cleanup_resource y"
proof -
  have f: "map_option g x = map_option g y" if "\<And>r :: vaccel_resource. g (r\<lparr>refcount := 0\<rparr>) = g r" for g :: "vaccel_resource \<Rightarrow> 'b"
  proof -
    have "map_option g x = map_option g (map_option (\<lambda>r. r\<lparr>refcount := 0\<rparr>) x)" for x
      using that by (simp add: option.map_comp o_def)
    then show ?thesis using assms by metis
  qed
  show "map_option res_id x = map_option res_id y" "map_option res_type x = map_option res_type y"
    "map_option res_rundir x = map_option res_rundir y" "map_option res_data x = map_option res_data y"
    "map_option cleanup_resource x = map_option cleanup_resource y" by (rule f, simp)+
  show "x = None \<longleftrightarrow> y = None" using assms by (cases x; cases y) auto
qed

lemma reg_frame_fields:
  assumes "reg_frame s s'"
  shows "r_links s' = r_links s" "r_pool s' = r_pool s" "r_initialized s' = r_initialized s" "virtio s' = virtio s"
    "plugins s' = plugins s" "rundir s' = rundir s" "strs (os s') = strs (os s)" "fs (os s') = fs (os s)"
    "s_initialized s' = s_initialized s" "s_ids s' = s_ids s" "running s' = running s" "s_mem s' = s_mem s"
    "sr_mem s' = sr_mem s" "rid_of s' = rid_of s" "rundir_of s' = rundir_of s" "dom (r_mem s') = dom (r_mem s)"
proof -
  obtain h m q n where 2: "s' = s\<lparr>r_mem := q, s_links := h, reg_mem := m, os := (os s)\<lparr>alloc_next := n\<rparr>\<rparr>"
    "\<forall>b. map_option (\<lambda>r. r\<lparr>refcount := 0\<rparr>) (q b) = map_option (\<lambda>r. r\<lparr>refcount := 0\<rparr>) (r_mem s b)"
    using assms unfolding reg_frame_def by blast
  show "r_links s' = r_links s" "r_pool s' = r_pool s" "r_initialized s' = r_initialized s" "virtio s' = virtio s"
    "plugins s' = plugins s" "rundir s' = rundir s" "strs (os s') = strs (os s)" "fs (os s') = fs (os s)"
    "s_initialized s' = s_initialized s" "s_ids s' = s_ids s" "running s' = running s" "s_mem s' = s_mem s"
    "sr_mem s' = sr_mem s"
    unfolding 2(1) by simp_all
  have e: "map_option res_id (q b) = map_option res_id (r_mem s b)" "map_option res_rundir (q b) = map_option res_rundir (r_mem s b)"
    "(q b = None) = (r_mem s b = None)" for b
    using refcount_erase_fields [OF spec [OF 2(2), of b]] by blast+
  show "rid_of s' = rid_of s"
  proof
    fix b show "rid_of s' b = rid_of s b"
      using e(1) [of b] unfolding 2(1) by (cases "q b"; cases "r_mem s b") (simp_all add: rid_of_def)
  qed
  show "rundir_of s' = rundir_of s"
  proof
    fix b show "rundir_of s' b = rundir_of s b"
      using e(2) [of b] unfolding 2(1) by (cases "q b"; cases "r_mem s b") (simp_all add: rundir_of_def)
  qed
  show "dom (r_mem s') = dom (r_mem s)" using e(3) unfolding 2(1) by (auto simp: dom_def)
qed

lemma reg_frame_res_ok:
  assumes "reg_frame s s'" "res_ok s L" shows "res_ok s' L"
  using assms(2) unfolding res_ok_def rundirs_ok_def reg_frame_fields [OF assms(1)] .

subsection \<open>Registering\<close>

lemma add_entry_sess: "nxt (add_entry e v h) x = (if x = e then Some v else nxt h x)"
  by (simp add: add_entry_def)

lemma refs_of_upd: "r_mem s' = (r_mem s)(b \<mapsto> rr) \<Longrightarrow> refs_of s' x = (if x = b then refcount rr else refs_of s x)"
  by (simp add: refs_of_def)

lemma reg_typed_mono:
  assumes "reg_typed s L t c" "reg_mem s' c = reg_mem s c"
    "\<And>b. map_option res_type (r_mem s' b) = map_option res_type (r_mem s b)"
  shows "reg_typed s' L t c"
proof -
  obtain b rr where b: "reg_mem s c = Some (Some b)" "b \<in> set L" "r_mem s b = Some rr" "res_type rr = t"
    using assms(1) unfolding reg_typed_def by blast
  obtain rr' where "r_mem s' b = Some rr'" "res_type rr' = t" using assms(3) [of b] b by auto
  then show ?thesis using b assms(2) unfolding reg_typed_def by auto
qed

lemma register_step:
  assumes ok: "reg_ok s L G" and r: "r \<in> dom (sr_mem s)" and b: "b \<in> set L" "r_mem s b = Some rr" "res_type rr < VACCEL_RES_MAX"
  defines "c \<equiv> alloc_next (os s)"
  obtains h where "list_add_tail (RegHead r (res_type rr)) (RegEntry c) (add_entry (RegEntry c) SNull (s_links s)) = Some h"
    "reg_ok (s\<lparr>os := (os s)\<lparr>alloc_next := Suc c\<rparr>, reg_mem := (reg_mem s)(c \<mapsto> Some b), s_links := h,
       r_mem := (r_mem s)(b \<mapsto> rr\<lparr>refcount := refcount rr + 1\<rparr>)\<rparr>)
     L (upd_reg G r (res_type rr) (G r (res_type rr) @ [c]))"
proof -
  let ?A = "dom (sr_mem s)" and ?t = "res_type rr" and ?h0 = "add_entry (RegEntry c) SNull (s_links s)"
  note D = reg_okD [OF ok]
  have fresh: "c \<notin> dom (reg_mem s)" "c \<notin> ?A" using D(6,7) [of c] by (auto simp: c_def)
  have nc: "RegEntry c \<notin> cover (reg_fam ?A G)" using fresh(1) D(3) cover_reg_entry by blast
  have "\<exists>h. list_add_tail (RegHead r ?t) (RegEntry c) ?h0 = Some h
      \<and> family h ((reg_fam ?A G)(RegHead r ?t \<mapsto> map RegEntry (G r ?t) @ [RegEntry c])) \<and> allocated h = allocated ?h0"
    by (rule ll.add_tail_law [OF family_add_entry [OF D(1) nc]]) (use r b(3) nc in auto)
  then obtain h where h: "list_add_tail (RegHead r ?t) (RegEntry c) ?h0 = Some h"
    "family h (reg_fam ?A (upd_reg G r ?t (G r ?t @ [c])))"
    using reg_fam_upd [OF r b(3), of G "G r ?t @ [c]"] by auto
  let ?rr = "rr\<lparr>refcount := refcount rr + 1\<rparr>"
  let ?s = "s\<lparr>os := (os s)\<lparr>alloc_next := Suc c\<rparr>, reg_mem := (reg_mem s)(c \<mapsto> Some b), s_links := h,
       r_mem := (r_mem s)(b \<mapsto> ?rr)\<rparr>"
  let ?G = "upd_reg G r ?t (G r ?t @ [c])"
  have ty: "map_option res_type (r_mem ?s x) = map_option res_type (r_mem s x)" for x using b(2) by simp
  have "reg_ok ?s L ?G"
    unfolding reg_ok_def
  proof (intro conjI ballI allI impI)
    show "family (s_links ?s) (reg_fam (dom (sr_mem ?s)) ?G)" using h(2) by simp
    fix r' t' c' assume x: "r' \<in> dom (sr_mem ?s)" "t' < VACCEL_RES_MAX" "c' \<in> set (?G r' t')"
    show "reg_typed ?s L t' c'"
    proof (cases "c' = c")
      case True
      have "c \<notin> set (G r' t')" using x(1,2) fresh(1) D(3) [of c] by (auto simp: in_lists_def)
      then have "r' = r \<and> t' = ?t" using x(3) True by (auto split: if_splits)
      then show ?thesis using True b by (auto simp: reg_typed_def)
    next
      case False
      then have "c' \<in> set (G r' t')" using x(3) by (auto split: if_splits)
      then have "reg_typed s L t' c'" using D(2) x(1,2) by simp
      then show ?thesis by (rule reg_typed_mono [OF _ _ ty]) (use False in simp)
    qed
  next
    fix x
    have "in_lists ?A ?G x \<longleftrightarrow> in_lists ?A G x \<or> x = c"
    proof
      assume "in_lists ?A ?G x"
      then obtain r' t' where "r' \<in> ?A" "t' < VACCEL_RES_MAX" "x \<in> set (?G r' t')" unfolding in_lists_def by blast
      then show "in_lists ?A G x \<or> x = c" unfolding in_lists_def by (auto split: if_splits)
    next
      assume "in_lists ?A G x \<or> x = c"
      then show "in_lists ?A ?G x"
      proof
        assume "in_lists ?A G x"
        then obtain r' t' where x: "r' \<in> ?A" "t' < VACCEL_RES_MAX" "x \<in> set (G r' t')" unfolding in_lists_def by blast
        then have "x \<in> set (?G r' t')" by auto
        then show ?thesis using x unfolding in_lists_def by blast
      next
        assume "x = c"
        then have "x \<in> set (?G r ?t)" by simp
        then show ?thesis using r b(3) unfolding in_lists_def by blast
      qed
    qed
    then show "x \<in> dom (reg_mem ?s) \<longleftrightarrow> in_lists (dom (sr_mem ?s)) ?G x" using D(3) [of x] by auto
  next
    show "finite (dom (reg_mem ?s))" using D(4) by simp
  next
    fix y assume y: "y \<in> set L"
    have regs: "regs_of ?s y = (if y = b then insert c (regs_of s b) else regs_of s y)"
      using fresh(1) by (auto simp: regs_of_def)
    have cn: "c \<notin> regs_of s b" using fresh(1) by (auto simp: regs_of_def)
    note fin = finite_regs_of [OF ok]
    show "refs_of ?s y = of_nat (card (regs_of ?s y))"
    proof (cases "y = b")
      case True
      then show ?thesis using D(5) [OF b(1)] b(2) regs cn fin by (simp add: refs_of_def)
    next
      case False
      then show ?thesis using D(5) [OF y] regs by (simp add: refs_of_def)
    qed
  next
    fix x assume "x \<in> dom (reg_mem ?s) \<union> dom (sr_mem ?s)"
    then have "x = c \<or> x \<in> dom (reg_mem s) \<or> x \<in> ?A" by auto
    then have "x = c \<or> x < c" using D(6,7) [of x] unfolding c_def by blast
    then show "x < alloc_next (os ?s)" by auto
  qed
  with h(1) show thesis by (rule that)
qed

lemma vaccel_sess_register_ok:
  assumes ok: "reg_ok s L G" and v: "virtio s = None" and mem: "alloc_ok (os s) (alloc_next (os s))"
    and a: "s_mem s a = Some se" "sess_resources se = Some r" "r \<in> dom (sr_mem s)"
    and b: "b \<in> set L" "r_mem s b = Some rr" "res_type rr < VACCEL_RES_MAX"
  obtains s' where "vaccel_sess_register (Some a) (Some b) s = Some (VACCEL_OK, s')"
    "reg_ok s' L (upd_reg G r (res_type rr) (G r (res_type rr) @ [alloc_next (os s)]))" "reg_frame s s'"
    "reg_mem s' = (reg_mem s)(alloc_next (os s) \<mapsto> Some b)"
    "r_mem s' = (r_mem s)(b \<mapsto> rr\<lparr>refcount := refcount rr + 1\<rparr>)"
proof -
  let ?c = "alloc_next (os s)"
  obtain h where h: "list_add_tail (RegHead r (res_type rr)) (RegEntry ?c) (add_entry (RegEntry ?c) SNull (s_links s)) = Some h"
    "reg_ok (s\<lparr>os := (os s)\<lparr>alloc_next := Suc ?c\<rparr>, reg_mem := (reg_mem s)(?c \<mapsto> Some b), s_links := h,
       r_mem := (r_mem s)(b \<mapsto> rr\<lparr>refcount := refcount rr + 1\<rparr>)\<rparr>)
     L (upd_reg G r (res_type rr) (G r (res_type rr) @ [?c]))"
    by (rule register_step [OF ok a(3) b])
  let ?s = "s\<lparr>os := (os s)\<lparr>alloc_next := Suc ?c\<rparr>, reg_mem := (reg_mem s)(?c \<mapsto> Some b), s_links := h,
       r_mem := (r_mem s)(b \<mapsto> rr\<lparr>refcount := refcount rr + 1\<rparr>)\<rparr>"
  have run: "vaccel_sess_register (Some a) (Some b) s = Some (VACCEL_OK, ?s)"
    using a b(2,3) v mem h(1)
    by (simp add: vaccel_sess_register_def malloc_reg_def os_call_def malloc_def get_virtio_plugin_def
        s_do_def resource_refcount_inc_def r_set_def)
  have "reg_frame s ?s"
    unfolding reg_frame_def
    by (rule exI [of _ h], rule exI [of _ "reg_mem ?s"], rule exI [of _ "r_mem ?s"], rule exI [of _ "Suc ?c"])
      (use b(2) in auto)
  then show thesis using that [OF run h(2)] by simp
qed

lemma vaccel_sess_register_refused:
  "vaccel_sess_register None res s = Some (VACCEL_EINVAL, s)"
  "s_mem s a = Some se \<Longrightarrow> sess_resources se = None \<Longrightarrow> vaccel_sess_register (Some a) res s = Some (VACCEL_EINVAL, s)"
  "s_mem s a = Some se \<Longrightarrow> vaccel_sess_register (Some a) None s = Some (VACCEL_EINVAL, s)"
  "s_mem s a = Some se \<Longrightarrow> sess_resources se = Some r \<Longrightarrow> r_mem s b = Some rr \<Longrightarrow> res_type rr < VACCEL_RES_MAX \<Longrightarrow>
    \<not> alloc_ok (os s) (alloc_next (os s)) \<Longrightarrow>
    vaccel_sess_register (Some a) (Some b) s = Some (VACCEL_ENOMEM, s\<lparr>os := (os s)\<lparr>alloc_next := Suc (alloc_next (os s))\<rparr>\<rparr>)"
  by (auto simp: vaccel_sess_register_def malloc_reg_def os_call_def malloc_def split: option.split)

subsection \<open>Looking up and unregistering\<close>

definition registration :: "'z sess_state_scheme \<Rightarrow> addr \<Rightarrow> addr list \<Rightarrow> addr option" where
  "registration s b cs = List.find (\<lambda>c. reg_mem s c = Some (Some b)) cs"

definition reg_found :: "'z sess_state_scheme \<Rightarrow> addr \<Rightarrow> slink \<Rightarrow> addr option" where
  "reg_found s b e = (case e of RegEntry c \<Rightarrow> if reg_mem s c = Some (Some b) then Some c else None | _ \<Rightarrow> None)"

lemma find_first_reg: "find_first (reg_found s b) (map RegEntry cs) = registration s b cs"
  by (induction cs) (auto simp: reg_found_def registration_def)

lemma find_registered_ok:
  assumes ok: "reg_ok s L G" and a: "s_mem s a = Some se" "sess_resources se = Some r" "r \<in> dom (sr_mem s)"
    and b: "r_mem s b = Some rr" "res_type rr < VACCEL_RES_MAX"
  shows "find_registered_resource (Some a) (Some b) s = Some (registration s b (G r (res_type rr)))"
proof -
  let ?t = "res_type rr"
  have il: "is_list (s_links s) (RegHead r ?t) (map RegEntry (G r ?t))"
    by (rule family_is_list [OF reg_okD(1) [OF ok]]) (use a(3) b(2) in auto)
  have body: "reg_match (Some b) e s = Some (reg_found s b e, s)" if e: "e \<in> set (map RegEntry (G r ?t))" for e
  proof -
    obtain c where c: "e = RegEntry c" "c \<in> set (G r ?t)" using e by auto
    then obtain b' where "reg_mem s c = Some (Some b')"
      using reg_okD(2) [OF ok a(3) b(2) c(2)] by (auto simp: reg_typed_def)
    then show ?thesis using c(1) by (simp add: reg_match_def reg_found_def)
  qed
  have "for_each_container s_next (RegHead r ?t) (reg_match (Some b)) s = Some (find_first (reg_found s b) (map RegEntry (G r ?t)), s)"
    by (rule for_each_container_search(1) [OF il]) (simp add: s_next_def, rule body)
  then show ?thesis using a b(1) by (simp add: find_registered_resource_def find_first_reg)
qed

lemma registration_Some:
  "registration s b cs = Some c \<Longrightarrow> c \<in> set cs \<and> reg_mem s c = Some (Some b)"
  by (auto simp: registration_def find_Some_iff)

lemma registration_None: "registration s b cs = None \<longleftrightarrow> (\<forall>c\<in>set cs. reg_mem s c \<noteq> Some (Some b))"
  by (auto simp: registration_def find_None_iff)

lemma unregister_step:
  assumes ok: "reg_ok s L G" and r: "r \<in> dom (sr_mem s)" and b: "r_mem s b = Some rr" "res_type rr < VACCEL_RES_MAX"
    and c: "c \<in> set (G r (res_type rr))" "reg_mem s c = Some (Some b)"
  obtains h where "list_unlink_entry (RegEntry c) (s_links s) = Some h"
    "reg_ok (s\<lparr>reg_mem := (reg_mem s)(c := None), s_links := del_entry (RegEntry c) h,
       r_mem := (r_mem s)(b \<mapsto> rr\<lparr>refcount := refcount rr - 1\<rparr>)\<rparr>)
     L (upd_reg G r (res_type rr) (remove1 c (G r (res_type rr))))"
proof -
  let ?A = "dom (sr_mem s)" and ?t = "res_type rr"
  note D = reg_okD [OF ok]
  have bL: "b \<in> set L" using D(2) [OF r b(2) c(1)] c(2) by (auto simp: reg_typed_def)
  obtain G1 G2 where G: "G r ?t = G1 @ c # G2" using c(1) by (metis split_list)
  have d: "distinct (G r ?t)" by (rule reg_fam_distinct [OF D(1) r b(2)])
  then have rem: "remove1 c (G r ?t) = G1 @ G2" "c \<notin> set (remove1 c (G r ?t))"
    using G by (auto simp: remove1_append)
  let ?G = "upd_reg G r ?t (remove1 c (G r ?t))"
  have "\<exists>h. list_unlink_entry (RegEntry c) (s_links s) = Some h
      \<and> family h ((reg_fam ?A G)(RegHead r ?t \<mapsto> map RegEntry G1 @ map RegEntry G2)) \<and> allocated h = allocated (s_links s)
      \<and> RegEntry c \<notin> cover ((reg_fam ?A G)(RegHead r ?t \<mapsto> map RegEntry G1 @ map RegEntry G2))"
    by (rule ll.unlink_forget [OF D(1)]) (use r b(2) G in auto)
  moreover have "(reg_fam ?A G)(RegHead r ?t \<mapsto> map RegEntry G1 @ map RegEntry G2) = reg_fam ?A ?G"
    using reg_fam_upd [OF r b(2), of G "G1 @ G2"] rem(1) by simp
  ultimately obtain h where h: "list_unlink_entry (RegEntry c) (s_links s) = Some h"
    "family h (reg_fam ?A ?G)" "RegEntry c \<notin> cover (reg_fam ?A ?G)" by auto
  let ?s = "s\<lparr>reg_mem := (reg_mem s)(c := None), s_links := del_entry (RegEntry c) h,
       r_mem := (r_mem s)(b \<mapsto> rr\<lparr>refcount := refcount rr - 1\<rparr>)\<rparr>"
  have ty: "map_option res_type (r_mem ?s x) = map_option res_type (r_mem s x)" for x using b(1) by simp
  have sub: "c' \<in> set (G r' t') \<and> c' \<noteq> c \<longleftrightarrow> c' \<in> set (?G r' t')"
    if "r' \<in> ?A" "t' < VACCEL_RES_MAX" for r' t' c'
  proof (cases "r' = r \<and> t' = ?t")
    case True
    then show ?thesis using d by (auto simp: set_remove1_eq)
  next
    case False
    then have "c \<notin> set (G r' t')" using reg_fam_unique [OF D(1) r b(2) c(1) that] by blast
    then show ?thesis using False by auto
  qed
  have inl: "in_lists ?A ?G x \<longleftrightarrow> in_lists ?A G x \<and> x \<noteq> c" for x
    unfolding in_lists_def using sub by blast
  have "reg_ok ?s L ?G"
    unfolding reg_ok_def
  proof (intro conjI ballI allI impI)
    show "family (s_links ?s) (reg_fam (dom (sr_mem ?s)) ?G)" using family_del_entry [OF h(2,3)] by simp
    fix r' t' c' assume x: "r' \<in> dom (sr_mem ?s)" "t' < VACCEL_RES_MAX" "c' \<in> set (?G r' t')"
    then have "c' \<in> set (G r' t')" "c' \<noteq> c" using sub [of r' t' c'] by auto
    then have "reg_typed s L t' c'" using D(2) x(1,2) by simp
    then show "reg_typed ?s L t' c'" by (rule reg_typed_mono [OF _ _ ty]) (use \<open>c' \<noteq> c\<close> in simp)
  next
    fix x
    show "x \<in> dom (reg_mem ?s) \<longleftrightarrow> in_lists (dom (sr_mem ?s)) ?G x" using D(3) [of x] inl [of x] by auto
  next
    show "finite (dom (reg_mem ?s))" using D(4) by simp
  next
    fix y assume y: "y \<in> set L"
    have regs: "regs_of ?s y = (if y = b then regs_of s b - {c} else regs_of s y)"
      using c(2) by (auto simp: regs_of_def)
    have cn: "c \<in> regs_of s b" using c(2) by (simp add: regs_of_def)
    have card: "card (regs_of s b) = Suc (card (regs_of s b - {c}))"
      by (rule card.remove [OF finite_regs_of [OF ok] cn])
    show "refs_of ?s y = of_nat (card (regs_of ?s y))"
    proof (cases "y = b")
      case True
      then show ?thesis using D(5) [OF bL] b(1) regs card by (simp add: refs_of_def)
    next
      case False
      then show ?thesis using D(5) [OF y] regs by (simp add: refs_of_def)
    qed
  next
    fix x assume "x \<in> dom (reg_mem ?s) \<union> dom (sr_mem ?s)"
    then have "x \<in> dom (reg_mem s) \<or> x \<in> ?A" by (auto split: if_splits)
    then have "x < alloc_next (os s)" using D(6,7) [of x] by blast
    then show "x < alloc_next (os ?s)" by simp
  qed
  with h(1) show thesis by (rule that)
qed

lemma vaccel_sess_unregister_ok:
  assumes ok: "reg_ok s L G" and v: "virtio s = None"
    and a: "s_mem s a = Some se" "sess_resources se = Some r" "r \<in> dom (sr_mem s)"
    and b: "r_mem s b = Some rr" "res_type rr < VACCEL_RES_MAX"
    and c: "registration s b (G r (res_type rr)) = Some c"
  obtains s' where "vaccel_sess_unregister (Some a) (Some b) s = Some (VACCEL_OK, s')"
    "reg_ok s' L (upd_reg G r (res_type rr) (remove1 c (G r (res_type rr))))" "reg_frame s s'"
    "reg_mem s' = (reg_mem s)(c := None)" "r_mem s' = (r_mem s)(b \<mapsto> rr\<lparr>refcount := refcount rr - 1\<rparr>)"
    "os s' = os s"
proof -
  have cin: "c \<in> set (G r (res_type rr))" "reg_mem s c = Some (Some b)" using registration_Some [OF c] by blast+
  obtain h where h: "list_unlink_entry (RegEntry c) (s_links s) = Some h"
    "reg_ok (s\<lparr>reg_mem := (reg_mem s)(c := None), s_links := del_entry (RegEntry c) h,
       r_mem := (r_mem s)(b \<mapsto> rr\<lparr>refcount := refcount rr - 1\<rparr>)\<rparr>)
     L (upd_reg G r (res_type rr) (remove1 c (G r (res_type rr))))"
    by (rule unregister_step [OF ok a(3) b cin])
  let ?s = "s\<lparr>reg_mem := (reg_mem s)(c := None), s_links := del_entry (RegEntry c) h,
       r_mem := (r_mem s)(b \<mapsto> rr\<lparr>refcount := refcount rr - 1\<rparr>)\<rparr>"
  have run: "vaccel_sess_unregister (Some a) (Some b) s = Some (VACCEL_OK, ?s)"
    using find_registered_ok [OF ok a b] b cin(2) v c h(1)
    by (simp add: vaccel_sess_unregister_def get_virtio_plugin_def s_do_def resource_refcount_dec_def
        r_set_def free_reg_def)
  have "reg_frame s ?s"
    unfolding reg_frame_def
    by (rule exI [of _ "s_links ?s"], rule exI [of _ "reg_mem ?s"], rule exI [of _ "r_mem ?s"], rule exI [of _ "alloc_next (os s)"])
      (use b(1) in auto)
  then show thesis using that [OF run h(2)] by simp
qed

lemma vaccel_sess_unregister_refused:
  "vaccel_sess_unregister None res s = Some (VACCEL_EINVAL, s)"
  "vaccel_sess_unregister sess None s = Some (VACCEL_EINVAL, s)"
  "reg_ok s L G \<Longrightarrow> s_mem s a = Some se \<Longrightarrow> sess_resources se = Some r \<Longrightarrow> r \<in> dom (sr_mem s) \<Longrightarrow> r_mem s b = Some rr \<Longrightarrow>
    res_type rr < VACCEL_RES_MAX \<Longrightarrow> registration s b (G r (res_type rr)) = None \<Longrightarrow>
    vaccel_sess_unregister (Some a) (Some b) s = Some (VACCEL_EINVAL, s)"
  by (auto simp: vaccel_sess_unregister_def find_registered_ok split: option.split)

subsection \<open>Emptying and releasing the lists of a session\<close>

lemma upd_reg_twice [simp]: "upd_reg (upd_reg G r t xs) r t ys = upd_reg G r t ys"
  by (simp add: upd_reg_def)

lemma upd_reg_same: "upd_reg G r t (G r t) = G"
  by (simp add: upd_reg_def)

lemma registration_first: "reg_mem s c = Some (Some b) \<Longrightarrow> registration s b (c # cs) = Some c"
  by (simp add: registration_def)

definition empty_inv :: "'z sess_state_scheme \<Rightarrow> addr list \<Rightarrow> (addr \<Rightarrow> nat \<Rightarrow> addr list) \<Rightarrow> addr \<Rightarrow> nat
    \<Rightarrow> slink list \<Rightarrow> 'z sess_state_scheme \<Rightarrow> bool" where
  "empty_inv s L G r i ys s' \<longleftrightarrow> (\<exists>cs. ys = map RegEntry cs \<and> reg_ok s' L (upd_reg G r i cs)
     \<and> reg_frame s s' \<and> os s' = os s \<and> reg_mem s' \<subseteq>\<^sub>m reg_mem s)"

lemma empty_inv_step:
  assumes v: "virtio s = None" and a: "s_mem s a = Some se" "sess_resources se = Some r" "r \<in> dom (sr_mem s)"
    and i: "i < VACCEL_RES_MAX" and inv: "empty_inv s L G r i (y # ys) s1"
  shows "y \<noteq> RegHead r i \<and> (\<exists>s' n. unregister_entry (Some a) y s1 = Some (None, s') \<and> empty_inv s L G r i ys s'
    \<and> s_next s' (first_or (RegHead r i) ys) = Some n \<and> (ys \<noteq> [] \<longrightarrow> n = first_or (RegHead r i) (tl ys)))"
proof -
  from inv obtain cs' where cs': "y # ys = map RegEntry cs'" "reg_ok s1 L (upd_reg G r i cs')"
    "reg_frame s s1" "os s1 = os s" "reg_mem s1 \<subseteq>\<^sub>m reg_mem s" unfolding empty_inv_def by (elim exE conjE) (rule that)
  from cs'(1) obtain c cs where c: "y = RegEntry c" "cs' = c # cs" "ys = map RegEntry cs" by auto
  note fr = reg_frame_fields [OF cs'(3)]
  have v1: "virtio s1 = None" and a1: "s_mem s1 a = Some se" "r \<in> dom (sr_mem s1)" using fr v a by simp_all
  have G1: "upd_reg G r i cs' r i = c # cs" using c(2) by simp
  have "reg_typed s1 L i c" by (rule reg_okD(2) [OF cs'(2) a1(2) i]) (simp add: c(2))
  then obtain b rr where b: "reg_mem s1 c = Some (Some b)" "r_mem s1 b = Some rr" "res_type rr = i"
    unfolding reg_typed_def by blast
  have reg: "registration s1 b (upd_reg G r i cs' r (res_type rr)) = Some c"
    using registration_first [OF b(1), of cs] b(3) G1 by simp
  obtain s' where s': "vaccel_sess_unregister (Some a) (Some b) s1 = Some (VACCEL_OK, s')"
    "reg_ok s' L (upd_reg (upd_reg G r i cs') r (res_type rr) (remove1 c (upd_reg G r i cs' r (res_type rr))))"
    "reg_frame s1 s'" "reg_mem s' = (reg_mem s1)(c := None)" "os s' = os s1"
    using vaccel_sess_unregister_ok [OF cs'(2) v1 a1(1) a(2) a1(2) b(2) i [folded b(3)] reg] by blast
  have ok': "reg_ok s' L (upd_reg G r i cs)" using s'(2) b(3) G1 by simp
  have "reg_mem s' \<subseteq>\<^sub>m reg_mem s" using cs'(5) unfolding s'(4) map_le_def by (auto split: if_splits)
  then have inv': "empty_inv s L G r i ys s'"
    unfolding empty_inv_def using c(3) ok' reg_frame_trans [OF cs'(3) s'(3)] s'(5) cs'(4) by auto
  have "r \<in> dom (sr_mem s')" using reg_frame_fields(13) [OF s'(3)] a1(2) by simp
  then have "is_list (s_links s') (RegHead r i) ([] @ ys)"
    using family_is_list [OF reg_okD(1) [OF ok'], of "RegHead r i"] i c(3) by simp
  from next_of_first [OF this] obtain n where
    n: "nxt (s_links s') (first_or (RegHead r i) ys) = Some n" "ys \<noteq> [] \<longrightarrow> n = first_or (RegHead r i) (tl ys)" by blast
  show ?thesis using c(1) b(1) s'(1) inv' n by (auto simp: unregister_entry_def s_next_def)
qed

lemma unregister_list_ok:
  assumes ok: "reg_ok s L G" and v: "virtio s = None"
    and a: "s_mem s a = Some se" "sess_resources se = Some r" "r \<in> dom (sr_mem s)" and i: "i < VACCEL_RES_MAX"
  obtains s' where "for_each_container_safe s_next (RegHead r i) (unregister_entry (Some a)) s = Some (None, s')"
    "reg_ok s' L (upd_reg G r i [])" "reg_frame s s'" "os s' = os s" "reg_mem s' \<subseteq>\<^sub>m reg_mem s"
proof -
  let ?l = "RegHead r i" and ?es = "map RegEntry (G r i)"
  have il: "is_list (s_links s) ?l ([] @ ?es)"
    using family_is_list [OF reg_okD(1) [OF ok], of ?l] a(3) i by simp
  obtain n where n: "s_next s (first_or ?l ?es) = Some n" "?es \<noteq> [] \<longrightarrow> n = first_or ?l (tl ?es)"
    using next_of_first [OF il] unfolding s_next_def by blast
  have f: "s_next s ?l = Some (first_or ?l ?es)" using is_list_first [OF il] by (simp add: s_next_def)
  have "empty_inv s L G r i ?es s"
    unfolding empty_inv_def using ok by (intro exI [of _ "G r i"]) (simp add: upd_reg_same)
  from for_each_safe_loop_run [where I = "empty_inv s L G r i" and rd = s_next and l = ?l and body = "unregister_entry (Some a)",
      OF empty_inv_step [OF v a i] this n(2)]
  obtain s' where s': "for_each_safe_loop s_next ?l (unregister_entry (Some a)) (first_or ?l ?es) n s = Some (None, s')"
    "empty_inv s L G r i [] s'" by blast
  have "for_each_container_safe s_next ?l (unregister_entry (Some a)) s = Some (None, s')"
    using s'(1) f n(1) by (simp add: for_each_container_safe_def)
  then show thesis using that s'(2) unfolding empty_inv_def by auto
qed

lemma unregister_lists_ok:
  assumes "reg_ok s L G" "virtio s = None" "s_mem s a = Some se" "sess_resources se = Some r" "r \<in> dom (sr_mem s)"
    "\<And>i. i \<in> set is \<Longrightarrow> i < VACCEL_RES_MAX"
  shows "\<exists>s'. unregister_lists (Some a) r is s = Some s' \<and> reg_ok s' L (fold (\<lambda>i G. upd_reg G r i []) is G)
    \<and> reg_frame s s' \<and> os s' = os s \<and> reg_mem s' \<subseteq>\<^sub>m reg_mem s"
  using assms
proof (induction "is" arbitrary: s G)
  case Nil
  then show ?case by simp
next
  case (Cons i "is")
  have i: "i < VACCEL_RES_MAX" using Cons.prems(6) by simp
  obtain s1 where s1: "for_each_container_safe s_next (RegHead r i) (unregister_entry (Some a)) s = Some (None, s1)"
    "reg_ok s1 L (upd_reg G r i [])" "reg_frame s s1" "os s1 = os s" "reg_mem s1 \<subseteq>\<^sub>m reg_mem s"
    by (rule unregister_list_ok [OF Cons.prems(1-5) i])
  note fr = reg_frame_fields [OF s1(3)]
  have "\<exists>s'. unregister_lists (Some a) r is s1 = Some s' \<and> reg_ok s' L (fold (\<lambda>i G. upd_reg G r i []) is (upd_reg G r i []))
    \<and> reg_frame s1 s' \<and> os s' = os s1 \<and> reg_mem s' \<subseteq>\<^sub>m reg_mem s1"
    by (rule Cons.IH [OF s1(2)]) (use Cons.prems fr in auto)
  then show ?case using s1 reg_frame_trans [OF s1(3)] map_le_trans [OF _ s1(5)] by (auto simp del: upd_reg_apply)
qed

lemma fold_upd_reg: "fold (\<lambda>i G. upd_reg G r i []) is G r' t = (if r' = r \<and> t \<in> set is then [] else G r' t)"
  by (induction "is" arbitrary: G) auto

lemma reg_ok_lists_cong:
  assumes "\<And>r t. r \<in> dom (sr_mem s) \<Longrightarrow> t < VACCEL_RES_MAX \<Longrightarrow> G r t = G' r t"
  shows "reg_ok s L G = reg_ok s L G'"
proof -
  have "reg_fam (dom (sr_mem s)) G e = reg_fam (dom (sr_mem s)) G' e" for e
    using assms by (cases e) auto
  then have fam: "reg_fam (dom (sr_mem s)) G = reg_fam (dom (sr_mem s)) G'" by blast
  have inl: "in_lists (dom (sr_mem s)) G c = in_lists (dom (sr_mem s)) G' c" for c
    unfolding in_lists_def using assms by metis
  have tyeq: "(\<forall>r\<in>dom (sr_mem s). \<forall>t<VACCEL_RES_MAX. \<forall>c\<in>set (G r t). reg_typed s L t c)
      = (\<forall>r\<in>dom (sr_mem s). \<forall>t<VACCEL_RES_MAX. \<forall>c\<in>set (G' r t). reg_typed s L t c)"
    using assms by metis
  show ?thesis unfolding reg_ok_def by (simp only: fam inl tyeq)
qed

definition no_regs :: "(addr \<Rightarrow> nat \<Rightarrow> addr list) \<Rightarrow> addr \<Rightarrow> addr \<Rightarrow> nat \<Rightarrow> addr list" where
  "no_regs G r = G(r := (\<lambda>_. []))"

lemma family_add_entries:
  "family h C \<Longrightarrow> (\<And>e. e \<in> set es \<Longrightarrow> e \<notin> cover C) \<Longrightarrow> family (fold (\<lambda>e. add_entry e v) es h) C
    \<and> (\<forall>x. allocated (fold (\<lambda>e. add_entry e v) es h) x \<longleftrightarrow> x \<in> set es \<or> allocated h x)"
  by (induction es arbitrary: h) (auto simp: family_add_entry)

lemma family_del_entries:
  "family h C \<Longrightarrow> (\<And>e. e \<in> set es \<Longrightarrow> e \<notin> cover C) \<Longrightarrow> family (fold del_entry es h) C"
  by (induction es arbitrary: h) (auto simp: family_del_entry)

lemma fold_heads:
  "fold (\<lambda>i. add_entry (RegHead r i) v) is h = fold (\<lambda>e. add_entry e v) (map (RegHead r) is) h"
  "fold (\<lambda>i. del_entry (RegHead r i)) is h = fold del_entry (map (RegHead r) is) h"
  by (induction "is" arbitrary: h) auto

text \<open>Freeing the resources of a session whose lists are empty.\<close>

lemma free_sr_ok:
  assumes ok: "reg_ok s L G" and r: "r \<in> dom (sr_mem s)" and empty: "\<And>t. t < VACCEL_RES_MAX \<Longrightarrow> G r t = []"
  obtains h where "free_sr r s = Some (s\<lparr>sr_mem := (sr_mem s)(r := None), s_links := h\<rparr>)"
    "reg_ok (s\<lparr>sr_mem := (sr_mem s)(r := None), s_links := h\<rparr>) L G"
proof -
  let ?A = "dom (sr_mem s)" and ?es = "map (RegHead r) [0..<VACCEL_RES_MAX]"
  let ?h = "fold (\<lambda>i. del_entry (RegHead r i)) [0..<VACCEL_RES_MAX] (s_links s)"
  let ?s = "s\<lparr>sr_mem := (sr_mem s)(r := None), s_links := ?h\<rparr>"
  note D = reg_okD [OF ok]
  have A: "dom (sr_mem ?s) = ?A - {r}" by simp
  have "reg_fam (?A - {r}) G \<subseteq>\<^sub>m reg_fam ?A G"
  proof (rule map_le_def [THEN iffD2], rule ballI)
    fix e assume "e \<in> dom (reg_fam (?A - {r}) G)"
    then show "reg_fam (?A - {r}) G e = reg_fam ?A G e" by (cases e) (auto split: if_splits)
  qed
  then have "family (s_links s) (reg_fam (?A - {r}) G)" by (rule family_mono [OF D(1)])
  then have fam: "family ?h (reg_fam (?A - {r}) G)"
    unfolding fold_heads by (rule family_del_entries) (auto simp: cover_reg_head)
  have inl: "in_lists (?A - {r}) G c \<longleftrightarrow> in_lists ?A G c" for c
  proof
    assume "in_lists ?A G c"
    then obtain r' t where x: "r' \<in> ?A" "t < VACCEL_RES_MAX" "c \<in> set (G r' t)" unfolding in_lists_def by blast
    then have "r' \<noteq> r" using empty by auto
    then show "in_lists (?A - {r}) G c" using x unfolding in_lists_def by blast
  qed (unfold in_lists_def, blast)
  have "reg_ok ?s L G"
    unfolding reg_ok_def A
  proof (intro conjI ballI allI impI)
    show "family (s_links ?s) (reg_fam (?A - {r}) G)" using fam by simp
    fix r' t' c' assume "r' \<in> ?A - {r}" "t' < VACCEL_RES_MAX" "c' \<in> set (G r' t')"
    then have "reg_typed s L t' c'" using D(2) by blast
    then show "reg_typed ?s L t' c'" by (rule reg_typed_mono) simp_all
  next
    fix c show "c \<in> dom (reg_mem ?s) \<longleftrightarrow> in_lists (?A - {r}) G c" using D(3) [of c] inl [of c] by simp
  next
    show "finite (dom (reg_mem ?s))" using D(4) by simp
  next
    fix b assume "b \<in> set L"
    then show "refs_of ?s b = of_nat (card (regs_of ?s b))" using D(5) by (simp add: refs_of_def regs_of_def)
  next
    fix x assume "x \<in> dom (reg_mem ?s) \<union> (?A - {r})"
    then have "x \<in> dom (reg_mem s) \<or> x \<in> ?A" by auto
    then have "x < alloc_next (os s)" using D(6,7) [of x] by blast
    then show "x < alloc_next (os ?s)" by simp
  qed
  moreover have "free_sr r s = Some ?s" using r by (auto simp: free_sr_def)
  ultimately show thesis by (rule that [rotated])
qed

subsection \<open>Setting up the resources of a session\<close>

definition session_path :: "'z rt_state_scheme \<Rightarrow> nat \<Rightarrow> string" where
  "session_path s n = rundir s @ ''/session.'' @ dec_digits n"

lemma reg_ok_links:
  assumes ok: "reg_ok s L G" and fam: "family h (reg_fam (dom (sr_mem s)) G)" and n: "alloc_next (os s) \<le> alloc_next o'"
  shows "reg_ok (s\<lparr>os := o', s_links := h\<rparr>) L G"
proof -
  note D = reg_okD [OF ok]
  let ?s = "s\<lparr>os := o', s_links := h\<rparr>"
  show ?thesis
    unfolding reg_ok_def
  proof (intro conjI ballI allI impI)
    show "family (s_links ?s) (reg_fam (dom (sr_mem ?s)) G)" using fam by simp
    fix r t c assume "r \<in> dom (sr_mem ?s)" "t < VACCEL_RES_MAX" "c \<in> set (G r t)"
    then have "reg_typed s L t c" using D(2) by simp
    then show "reg_typed ?s L t c" by (rule reg_typed_mono) simp_all
  next
    fix c show "c \<in> dom (reg_mem ?s) \<longleftrightarrow> in_lists (dom (sr_mem ?s)) G c" using D(3) [of c] by simp
  next
    show "finite (dom (reg_mem ?s))" using D(4) by simp
  next
    fix b assume "b \<in> set L"
    then show "refs_of ?s b = of_nat (card (regs_of ?s b))" using D(5) by (simp add: refs_of_def regs_of_def)
  next
    fix x assume "x \<in> dom (reg_mem ?s) \<union> dom (sr_mem ?s)"
    then have "x < alloc_next (os s)" using D(6,7) [of x] by auto
    then show "x < alloc_next (os ?s)" using n by simp
  qed
qed

text \<open>A session gets its structure, with empty lists.\<close>

lemma reg_ok_new:
  assumes ok: "reg_ok s L G" and r: "r \<notin> dom (sr_mem s)" and n: "alloc_next (os s) \<le> alloc_next o'" "r < alloc_next o'"
    and fam: "family h (\<lambda>e. if e \<in> set (map (RegHead r) [0..<VACCEL_RES_MAX]) then Some [] else reg_fam (dom (sr_mem s)) G e)"
  shows "reg_ok (s\<lparr>os := o', s_links := h, sr_mem := (sr_mem s)(r \<mapsto> path), s_mem := m\<rparr>) L (no_regs G r)"
proof -
  note D = reg_okD [OF ok]
  let ?A = "dom (sr_mem s)" and ?G = "no_regs G r"
  let ?s = "s\<lparr>os := o', s_links := h, sr_mem := (sr_mem s)(r \<mapsto> path), s_mem := m\<rparr>"
  have A: "dom (sr_mem ?s) = insert r ?A" by simp
  have "(\<lambda>e. if e \<in> set (map (RegHead r) [0..<VACCEL_RES_MAX]) then Some [] else reg_fam ?A G e) = reg_fam (insert r ?A) ?G"
  proof
    fix e show "(if e \<in> set (map (RegHead r) [0..<VACCEL_RES_MAX]) then Some [] else reg_fam ?A G e) = reg_fam (insert r ?A) ?G e"
      by (cases e) (use r in \<open>auto simp: no_regs_def\<close>)
  qed
  then have fam': "family h (reg_fam (insert r ?A) ?G)" using fam by simp
  have mem: "r' \<in> insert r ?A \<and> c \<in> set (?G r' t) \<longleftrightarrow> r' \<in> ?A \<and> c \<in> set (G r' t)" for r' t c
    using r by (auto simp: no_regs_def)
  have inl: "in_lists (insert r ?A) ?G c \<longleftrightarrow> in_lists ?A G c" for c
    unfolding in_lists_def using mem by blast
  show ?thesis
    unfolding reg_ok_def A
  proof (intro conjI ballI allI impI)
    show "family (s_links ?s) (reg_fam (insert r ?A) ?G)" using fam' by simp
    fix r' t c assume "r' \<in> insert r ?A" "t < VACCEL_RES_MAX" "c \<in> set (?G r' t)"
    then have "reg_typed s L t c" using D(2) mem by blast
    then show "reg_typed ?s L t c" by (rule reg_typed_mono) simp_all
  next
    fix c show "c \<in> dom (reg_mem ?s) \<longleftrightarrow> in_lists (insert r ?A) ?G c" using D(3) [of c] inl [of c] by simp
  next
    show "finite (dom (reg_mem ?s))" using D(4) by simp
  next
    fix b assume "b \<in> set L"
    then show "refs_of ?s b = of_nat (card (regs_of ?s b))" using D(5) by (simp add: refs_of_def regs_of_def)
  next
    fix x assume "x \<in> dom (reg_mem ?s) \<union> insert r ?A"
    then have "x < alloc_next o'" using D(6,7) [of x] n by fastforce
    then show "x < alloc_next (os ?s)" by simp
  qed
qed

text \<open>
  The outcomes of \<open>initialize_session_resources\<close>: its return code, which is 0 when memory is
  available, the path has not exactly 512 characters and the directory could be made.
\<close>

definition setup_code :: "os_state \<Rightarrow> string \<Rightarrow> int" where
  "setup_code o1 path = (if \<not> alloc_ok o1 (alloc_next o1) then VACCEL_ENOMEM
     else if length path = MAX_SESSION_RUNDIR_PATH then VACCEL_ENAMETOOLONG
     else fst (mkdir (take (MAX_SESSION_RUNDIR_PATH - 1) path) (o1\<lparr>alloc_next := Suc (alloc_next o1)\<rparr>)))"

lemma initialize_ok:
  assumes ok: "reg_ok s L G" and a: "s_mem s a = Some se"
  defines "path \<equiv> session_path s (unat (session_id se))" and "r \<equiv> alloc_next (os s)"
  defines "short \<equiv> take (MAX_SESSION_RUNDIR_PATH - 1) path"
  obtains (failed) ret o' h where "initialize_session_resources (Some a) s = Some (ret, s\<lparr>os := o', s_links := h\<rparr>)"
      "ret = setup_code (os s) path" "ret \<noteq> 0"
      "reg_ok (s\<lparr>os := o', s_links := h\<rparr>) L G" "strs o' = strs (os s)"
    | (made) o' h where "initialize_session_resources (Some a) s = Some (VACCEL_OK, s\<lparr>os := o', s_links := h,
        sr_mem := (sr_mem s)(r \<mapsto> short), s_mem := (s_mem s)(a \<mapsto> se\<lparr>sess_resources := Some r\<rparr>)\<rparr>)"
      "setup_code (os s) path = 0" "strs o' = strs (os s)"
      "node (os s) short = None" "node o' = (node (os s))(short \<mapsto> Dir)" "r \<notin> dom (sr_mem s)"
      "reg_ok (s\<lparr>os := o', s_links := h, sr_mem := (sr_mem s)(r \<mapsto> short),
        s_mem := (s_mem s)(a \<mapsto> se\<lparr>sess_resources := Some r\<rparr>)\<rparr>) L (no_regs G r)"
      "alloc_ok o' = alloc_ok (os s)"
proof -
  note D = reg_okD [OF ok]
  let ?A = "dom (sr_mem s)" and ?heads = "map (RegHead r) [0..<VACCEL_RES_MAX]"
  have fresh: "r \<notin> ?A" using D(7) [of r] by (auto simp: r_def)
  have nc: "e \<notin> cover (reg_fam ?A G)" if "e \<in> set ?heads" for e
    using that fresh by (auto simp: cover_reg_head)
  define h1 where "h1 = fold (\<lambda>e. add_entry e SNull) ?heads (s_links s)"
  have f1: "family h1 (reg_fam ?A G)" and al1: "\<And>e. e \<in> set ?heads \<Longrightarrow> allocated h1 e"
    using family_add_entries [OF D(1) nc] unfolding h1_def by blast+
  define h2 where "h2 = fold del_entry ?heads h1"
  have f2: "family h2 (reg_fam ?A G)" unfolding h2_def by (rule family_del_entries [OF f1 nc])
  have undo: "(sr_mem s)(r := None) = sr_mem s" using fresh by (auto simp: dom_def)
  let ?o1 = "(os s)\<lparr>alloc_next := Suc r\<rparr>"
  have sn: "snprintf MAX_SESSION_RUNDIR_PATH (vaccel_rundir s @ ''/session.'' @ dec_digits (unat (session_id se)))
      = (length path, short)"
    by (simp add: snprintf_def vaccel_rundir_def path_def short_def session_path_def)
  have ms: "malloc_sr s = (if alloc_ok (os s) r then (Some r, s\<lparr>os := ?o1, sr_mem := (sr_mem s)(r \<mapsto> []), s_links := h1\<rparr>)
      else (None, s\<lparr>os := ?o1\<rparr>))"
    by (simp add: malloc_sr_def os_call_def malloc_def r_def h1_def fold_heads)
  show thesis
  proof (cases "alloc_ok (os s) r")
    case False
    have "initialize_session_resources (Some a) s = Some (VACCEL_ENOMEM, s\<lparr>os := ?o1, s_links := s_links s\<rparr>)"
      using False ms by (simp add: initialize_session_resources_def)
    moreover have "reg_ok (s\<lparr>os := ?o1, s_links := s_links s\<rparr>) L G"
      by (rule reg_ok_links [OF ok D(1)]) (simp add: r_def)
    ultimately show thesis using False by (intro failed [of VACCEL_ENOMEM "s_links s" ?o1]) (simp_all add: setup_code_def r_def)
  next
    case True
    note t = this
    have free: "free_sr r (s\<lparr>os := o', s_links := h1, sr_mem := (sr_mem s)(r \<mapsto> short)\<rparr>) = Some (s\<lparr>os := o', s_links := h2\<rparr>)" for o'
      using undo by (simp add: free_sr_def fold_heads h2_def)
    have free2: "free_sr r (s\<lparr>s_links := h1, sr_mem := (sr_mem s)(r \<mapsto> short), os := o'\<rparr>) = Some (s\<lparr>os := o', s_links := h2\<rparr>)" for o'
      using undo by (simp add: free_sr_def fold_heads h2_def)
    show thesis
    proof (cases "length path = MAX_SESSION_RUNDIR_PATH")
      case True
      have "initialize_session_resources (Some a) s = Some (VACCEL_ENAMETOOLONG, s\<lparr>os := ?o1, s_links := h2\<rparr>)"
        using t True ms sn a free [of ?o1] by (simp add: initialize_session_resources_def vaccel_rundir_def)
      moreover have "reg_ok (s\<lparr>os := ?o1, s_links := h2\<rparr>) L G"
        by (rule reg_ok_links [OF ok f2]) (simp add: r_def)
      ultimately show thesis using t True
        by (intro failed [of VACCEL_ENAMETOOLONG h2 ?o1]) (simp_all add: setup_code_def r_def)
    next
      case False
      obtain n o2 where m: "mkdir short ?o1 = (n, o2)" by (cases "mkdir short ?o1")
      have heap: "strs o2 = strs (os s)" "alloc_next o2 = Suc r" "alloc_ok o2 = alloc_ok (os s)"
        using heap_of_mkdir [of short ?o1] m by (simp_all add: heap_of_def)
      show thesis
      proof (cases "n = 0")
        case False
        then have neg: "n = - 1" using mkdir_failed [OF m] by simp
        have "initialize_session_resources (Some a) s = Some (- 1, s\<lparr>os := o2, s_links := h2\<rparr>)"
          using t \<open>length path \<noteq> _\<close> ms sn a m neg free2 [of o2]
          by (simp add: initialize_session_resources_def vaccel_rundir_def os_call_def)
        moreover have "reg_ok (s\<lparr>os := o2, s_links := h2\<rparr>) L G"
          by (rule reg_ok_links [OF ok f2]) (simp add: heap r_def)
        moreover have "setup_code (os s) path = - 1"
          using t \<open>length path \<noteq> _\<close> m neg by (simp add: setup_code_def r_def short_def)
        ultimately show thesis using heap by (intro failed [of "- 1" h2 o2]) simp_all
      next
        case True
        note mk = mkdir_ok [OF m [unfolded True]]
        have d: "distinct ?heads" by (simp add: distinct_map inj_on_def)
        have "\<exists>h'. list_init_all ?heads h1 = Some h' \<and> family h' (\<lambda>e. if e \<in> set ?heads then Some [] else reg_fam ?A G e)
            \<and> allocated h' = allocated h1"
          by (rule family_init_all [OF f1 d]) (use al1 nc in blast)
        then obtain h' where h': "list_init_all ?heads h1 = Some h'"
          "family h' (\<lambda>e. if e \<in> set ?heads then Some [] else reg_fam ?A G e)" by blast
        let ?s = "s\<lparr>os := o2, s_links := h', sr_mem := (sr_mem s)(r \<mapsto> short), s_mem := (s_mem s)(a \<mapsto> se\<lparr>sess_resources := Some r\<rparr>)\<rparr>"
        have run: "initialize_session_resources (Some a) s = Some (VACCEL_OK, ?s)"
          using t False ms sn a m True h'(1)
          by (simp add: initialize_session_resources_def vaccel_rundir_def os_call_def s_set_def s_do_def)
        have "reg_ok ?s L (no_regs G r)"
          by (rule reg_ok_new [OF ok fresh _ _ h'(2)]) (simp_all add: heap r_def)
        moreover have "node (os s) short = None" "node o2 = (node (os s))(short \<mapsto> Dir)"
          using mk(1,2) by (simp_all add: node_def fun_eq_iff)
        moreover have "setup_code (os s) path = 0"
          using t False m True by (simp add: setup_code_def r_def short_def)
        ultimately show thesis using run heap(1,3) fresh by (intro made)
      qed
    qed
  qed
qed

subsection \<open>The table of running sessions\<close>

definition sid_of :: "'z sess_state_scheme \<Rightarrow> addr \<Rightarrow> int" where
  "sid_of s a = (case s_mem s a of None \<Rightarrow> 0 | Some se \<Rightarrow> uint (session_id se))"

definition sres_of :: "'z sess_state_scheme \<Rightarrow> addr \<Rightarrow> ptr" where
  "sres_of s a = (case s_mem s a of None \<Rightarrow> None | Some se \<Rightarrow> sess_resources se)"

definition runs_at :: "'z sess_state_scheme \<Rightarrow> nat \<Rightarrow> addr \<Rightarrow> bool" where
  "runs_at s i a \<longleftrightarrow> i < MAX_VACCEL_SESSIONS \<and> running s ! i = Some a"

definition table_ok :: "'z sess_state_scheme \<Rightarrow> bool" where
  "table_ok s \<longleftrightarrow> pool_wf (s_ids s) \<and> pool_cap (s_ids s) = int MAX_VACCEL_SESSIONS
     \<and> length (running s) = MAX_VACCEL_SESSIONS
     \<and> (\<forall>i<MAX_VACCEL_SESSIONS. int i + 1 \<in> used_ids (s_ids s) \<longleftrightarrow> running s ! i \<noteq> None)
     \<and> (\<forall>i a. runs_at s i a \<longrightarrow> sid_of s a = int i + 1 \<and> (\<exists>r. sres_of s a = Some r \<and> r \<in> dom (sr_mem s)))
     \<and> (\<forall>r\<in>dom (sr_mem s). \<exists>i a. runs_at s i a \<and> sres_of s a = Some r)
     \<and> (\<forall>i a j b. runs_at s i a \<longrightarrow> runs_at s j b \<longrightarrow> sres_of s a = sres_of s b \<longrightarrow> i = j)"

lemma table_okD:
  assumes "table_ok s"
  shows "pool_wf (s_ids s)" "pool_cap (s_ids s) = int MAX_VACCEL_SESSIONS" "length (running s) = MAX_VACCEL_SESSIONS"
    "i < MAX_VACCEL_SESSIONS \<Longrightarrow> int i + 1 \<in> used_ids (s_ids s) \<longleftrightarrow> running s ! i \<noteq> None"
    "runs_at s i a \<Longrightarrow> sid_of s a = int i + 1" "runs_at s i a \<Longrightarrow> \<exists>r. sres_of s a = Some r \<and> r \<in> dom (sr_mem s)"
    "r \<in> dom (sr_mem s) \<Longrightarrow> \<exists>i a. runs_at s i a \<and> sres_of s a = Some r"
    "runs_at s i a \<Longrightarrow> runs_at s j b \<Longrightarrow> sres_of s a = sres_of s b \<Longrightarrow> i = j"
  using assms unfolding table_ok_def by blast+

lemma table_ok_frame:
  assumes "table_ok s" "s_ids s' = s_ids s" "running s' = running s" "s_mem s' = s_mem s" "sr_mem s' = sr_mem s"
  shows "table_ok s'"
  using assms unfolding table_ok_def runs_at_def sid_of_def sres_of_def by simp

lemma sess_id_index:
  assumes "1 \<le> i" "i \<le> int MAX_VACCEL_SESSIONS"
  shows "uint (of_int i :: u32) = i" "uint ((of_int i :: u32) - 1) = i - 1" "(of_int i :: u32) \<noteq> 0"
proof -
  have r: "0 \<le> i" "i < 2 ^ 32" using assms by (auto simp: MAX_VACCEL_SESSIONS_def)
  show u: "uint (of_int i :: u32) = i" using r by (simp add: uint_word_of_int)
  then show "(of_int i :: u32) \<noteq> 0" using assms(1) by (metis not_one_le_zero uint_0_eq)
  have "(of_int i :: u32) - 1 = of_int (i - 1)" by simp
  then show "uint ((of_int i :: u32) - 1) = i - 1" using r assms(1) by (simp add: uint_word_of_int del: of_int_diff)
qed

text \<open>Taking an id: the new session is in the table under it.\<close>

lemma table_ok_start:
  assumes ok: "table_ok s" and fr: "free_ids (s_ids s) = i # F" and p: "pool_wf p" "pool_cap p = pool_cap (s_ids s)" "free_ids p = F"
    and a: "\<And>j. \<not> runs_at s j a" and r: "r \<notin> dom (sr_mem s)"
    and s': "s_ids s' = p" "running s' = (running s)[nat (i - 1) := Some a]"
      "s_mem s' = (s_mem s)(a \<mapsto> se)" "uint (session_id se) = i" "sess_resources se = Some r" "dom (sr_mem s') = insert r (dom (sr_mem s))"
  shows "table_ok s'"
proof -
  note D = table_okD [OF ok]
  have i: "1 \<le> i" "i \<le> int MAX_VACCEL_SESSIONS" "i \<notin> used_ids (s_ids s)"
    using pool.free_range [OF D(1)] fr D(2) by (auto simp: used_ids_def)
  have used: "used_ids p = insert i (used_ids (s_ids s))"
    using pool.free_distinct [OF D(1)] pool.free_range [OF D(1)] fr p(2,3) by (auto simp: used_ids_def)
  define k where "k = nat (i - 1)"
  have k: "k < MAX_VACCEL_SESSIONS" "int k + 1 = i" using i(1,2) by (auto simp: k_def)
  have run: "runs_at s' j b \<longleftrightarrow> (if j = k then b = a else runs_at s j b)" for j b
    using k(1) D(3) s'(2) by (auto simp: runs_at_def k_def)
  have mem: "sid_of s' b = (if b = a then i else sid_of s b)" "sres_of s' b = (if b = a then Some r else sres_of s b)" for b
    using s'(3-5) by (auto simp: sid_of_def sres_of_def)
  have fresh: "sres_of s b \<noteq> Some r" if "runs_at s j b" for j b using D(6) [OF that] r by auto
  have none: "\<not> runs_at s k b" for b using D(4) [OF k(1)] i(3) k(2) by (auto simp: runs_at_def)
  show ?thesis
    unfolding table_ok_def
  proof (intro conjI allI impI ballI)
    show "pool_wf (s_ids s')" "pool_cap (s_ids s') = int MAX_VACCEL_SESSIONS" "length (running s') = MAX_VACCEL_SESSIONS"
      using p D(2,3) s'(1,2) by simp_all
    fix j assume j: "j < MAX_VACCEL_SESSIONS"
    show "(int j + 1 \<in> used_ids (s_ids s')) = (running s' ! j \<noteq> None)"
      using D(4) [OF j] j k D(3) unfolding s'(1,2) used by (cases "j = k") (auto simp: k_def)
  next
    fix j b assume "runs_at s' j b"
    then have "j = k \<and> b = a \<or> j \<noteq> k \<and> runs_at s j b \<and> b \<noteq> a" using run a by (auto split: if_splits)
    then show "sid_of s' b = int j + 1" "\<exists>r. sres_of s' b = Some r \<and> r \<in> dom (sr_mem s')"
      using D(5,6) [of j b] k(2) s'(6) unfolding mem by auto
  next
    fix q assume q: "q \<in> dom (sr_mem s')"
    show "\<exists>j b. runs_at s' j b \<and> sres_of s' b = Some q"
    proof (cases "q = r")
      case True
      then show ?thesis using run [of k a] mem(2) [of a] by auto
    next
      case False
      then have "q \<in> dom (sr_mem s)" using q unfolding s'(6) by blast
      then obtain j b where jb: "runs_at s j b" "sres_of s b = Some q" using D(7) by blast
      then have "j \<noteq> k" "b \<noteq> a" using none a by auto
      then show ?thesis using jb run [of j b] mem(2) [of b] by auto
    qed
  next
    fix j b j' b' assume x: "runs_at s' j b" "runs_at s' j' b'" "sres_of s' b = sres_of s' b'"
    then show "j = j'"
      using run [of j b] run [of j' b'] mem(2) [of b] mem(2) [of b'] a fresh [of j b] fresh [of j' b'] D(8) [of j b j' b']
      by (auto split: if_splits)
  qed
qed

text \<open>Giving the id back: the session is gone from the table.\<close>

lemma table_ok_stop:
  assumes ok: "table_ok s" and a: "runs_at s k a" "sres_of s a = Some r"
    and p: "pool_wf p" "pool_cap p = pool_cap (s_ids s)" "used_ids p = used_ids (s_ids s) - {int k + 1}"
    and s': "s_ids s' = p" "running s' = (running s)[k := None]" "s_mem s' = (s_mem s)(a \<mapsto> se)"
      "dom (sr_mem s') = dom (sr_mem s) - {r}"
  shows "table_ok s'"
proof -
  note D = table_okD [OF ok]
  have k: "k < MAX_VACCEL_SESSIONS" using a(1) by (simp add: runs_at_def)
  have run: "runs_at s' j b \<longleftrightarrow> j \<noteq> k \<and> runs_at s j b" for j b
    using k D(3) s'(2) by (auto simp: runs_at_def nth_list_update)
  have other: "b \<noteq> a" "sres_of s b \<noteq> Some r" if "runs_at s' j b" for j b
  proof -
    have jb: "j \<noteq> k" "runs_at s j b" using that run by auto
    show "b \<noteq> a" using D(5) [OF jb(2)] D(5) [OF a(1)] jb(1) by auto
    show "sres_of s b \<noteq> Some r" using D(8) [OF jb(2) a(1)] a(2) jb(1) by auto
  qed
  have mem: "sid_of s' b = sid_of s b" "sres_of s' b = sres_of s b" if "b \<noteq> a" for b
    using s'(3) that by (auto simp: sid_of_def sres_of_def)
  show ?thesis
    unfolding table_ok_def
  proof (intro conjI allI impI ballI)
    show "pool_wf (s_ids s')" "pool_cap (s_ids s') = int MAX_VACCEL_SESSIONS" "length (running s') = MAX_VACCEL_SESSIONS"
      using p D(2,3) s'(1,2) by simp_all
    fix j assume j: "j < MAX_VACCEL_SESSIONS"
    show "(int j + 1 \<in> used_ids (s_ids s')) = (running s' ! j \<noteq> None)"
      using D(4) [OF j] j k D(3) unfolding s'(1,2) p(3) by (cases "j = k") auto
  next
    fix j b assume x: "runs_at s' j b"
    then have "runs_at s j b" using run by simp
    then show "sid_of s' b = int j + 1" "\<exists>r. sres_of s' b = Some r \<and> r \<in> dom (sr_mem s')"
      using D(5,6) [of j b] other [OF x] mem [of b] s'(4) by auto
  next
    fix q assume q: "q \<in> dom (sr_mem s')"
    then have "q \<in> dom (sr_mem s)" unfolding s'(4) by blast
    then obtain j b where jb: "runs_at s j b" "sres_of s b = Some q" using D(7) by blast
    then have "j \<noteq> k" using q s'(4) a D(5) [OF jb(1)] D(5) [OF a(1)] by (auto simp: runs_at_def)
    then have "runs_at s' j b" using run jb(1) by simp
    then show "\<exists>j b. runs_at s' j b \<and> sres_of s' b = Some q" using jb(2) other(1) mem(2) by metis
  next
    fix j b j' b' assume x: "runs_at s' j b" "runs_at s' j' b'" "sres_of s' b = sres_of s' b'"
    then show "j = j'" using run other(1) mem(2) D(8) by metis
  qed
qed

definition sess_ok :: "'z sess_state_scheme \<Rightarrow> addr list \<Rightarrow> (addr \<Rightarrow> nat \<Rightarrow> addr list) \<Rightarrow> bool" where
  "sess_ok s L G \<longleftrightarrow> res_ok s L \<and> reg_ok s L G \<and> table_ok s"

lemma sess_okD: "sess_ok s L G \<Longrightarrow> res_ok s L" "sess_ok s L G \<Longrightarrow> reg_ok s L G" "sess_ok s L G \<Longrightarrow> table_ok s"
  by (simp_all add: sess_ok_def)

lemma reg_ok_other:
  assumes "reg_ok s L G" "s_links s' = s_links s" "sr_mem s' = sr_mem s" "reg_mem s' = reg_mem s" "r_mem s' = r_mem s"
    "alloc_next (os s') = alloc_next (os s)"
  shows "reg_ok s' L G"
proof -
  have "reg_typed s' = reg_typed s" "refs_of s' = refs_of s" "regs_of s' = regs_of s"
    using assms(2-6) by (simp_all add: reg_typed_def refs_of_def regs_of_def fun_eq_iff)
  then show ?thesis using assms unfolding reg_ok_def by simp
qed

lemma table_ok_idle:
  assumes ok: "table_ok s" and p: "pool_wf p" "pool_cap p = pool_cap (s_ids s)" "used_ids p = used_ids (s_ids s)"
    and a: "\<And>j. \<not> runs_at s j a" and s': "s_ids s' = p" "running s' = running s" "s_mem s' = (s_mem s)(a \<mapsto> se)" "sr_mem s' = sr_mem s"
  shows "table_ok s'"
proof -
  have run: "runs_at s' j b \<longleftrightarrow> runs_at s j b" for j b using s'(2) by (simp add: runs_at_def)
  have mem: "sid_of s' b = sid_of s b" "sres_of s' b = sres_of s b" if "runs_at s j b" for j b
    using s'(3) that a by (auto simp: sid_of_def sres_of_def)
  note D = table_okD [OF ok]
  show ?thesis
    unfolding table_ok_def s'(1,2,4)
  proof (intro conjI allI impI ballI)
    fix j b assume "runs_at s' j b"
    then have "runs_at s j b" using run by simp
    then show "sid_of s' b = int j + 1" "\<exists>r. sres_of s' b = Some r \<and> r \<in> dom (sr_mem s)"
      using D(5,6) mem by auto
  next
    fix q assume "q \<in> dom (sr_mem s)"
    then obtain j b where jb: "runs_at s j b" "sres_of s b = Some q" using D(7) by blast
    then have "runs_at s' j b \<and> sres_of s' b = Some q" using run mem(2) [OF jb(1)] by simp
    then show "\<exists>j b. runs_at s' j b \<and> sres_of s' b = Some q" by blast
  next
    fix j b j' b' assume x: "runs_at s' j b" "runs_at s' j' b'" "sres_of s' b = sres_of s' b'"
    then have "runs_at s j b" "runs_at s j' b'" using run by simp_all
    then show "j = j'" using x(3) mem D(8) by metis
  qed (use D p in simp_all)
qed

lemma vaccel_sess_init_ok:
  assumes ok: "sess_ok s L G" and i: "s_initialized s" and v: "virtio s = None" and a: "s_mem s a = Some se"
    and idle: "\<And>j. \<not> runs_at s j a" and fr: "free_ids (s_ids s) = i # F"
  defines "path \<equiv> session_path s (nat i)" and "r \<equiv> alloc_next (os s)"
  obtains (failed) ret s' where "vaccel_sess_init (Some a) flags s = Some (ret, s')"
      "ret = setup_code (os s) path" "ret \<noteq> 0"
      "sess_ok s' L G" "free_ids (s_ids s') = free_ids (s_ids s)" "running s' = running s"
    | (made) s' where "vaccel_sess_init (Some a) flags s = Some (VACCEL_OK, s')" "setup_code (os s) path = 0" "sess_ok s' L (no_regs G r)" "free_ids (s_ids s') = F"
      "running s' = (running s)[nat (i - 1) := Some a]"
      "s_mem s' = (s_mem s)(a \<mapsto> se\<lparr>session_id := of_int i, sess_resources := Some r, hint := flags\<rparr>)"
      "node (os s) (take (MAX_SESSION_RUNDIR_PATH - 1) path) = None"
      "node (os s') = (node (os s))(take (MAX_SESSION_RUNDIR_PATH - 1) path \<mapsto> Dir)" "r \<notin> dom (sr_mem s)"
      "r_mem s' = r_mem s" "reg_mem s' = reg_mem s" "virtio s' = None" "s_initialized s'" "strs (os s') = strs (os s)"
      "alloc_ok (os s') = alloc_ok (os s)"
proof -
  note T = table_okD [OF sess_okD(3) [OF ok]]
  obtain p where p: "id_pool_get (Some (s_ids s)) = Some (i, Some p)" "pool_wf p" "free_ids p = F" "pool_cap p = pool_cap (s_ids s)"
    using pool.get_law [OF T(1) fr] by blast
  have ir: "1 \<le> i" "i \<le> int MAX_VACCEL_SESSIONS" "i \<notin> set F"
    using pool.free_range [OF T(1)] pool.free_distinct [OF T(1)] fr T(2) by auto
  note idx = sess_id_index [OF ir(1,2)]
  let ?se = "se\<lparr>session_id := of_int i\<rparr>"
  define s1 where "s1 = s_set a ?se (s\<lparr>s_ids := p\<rparr>)"
  have s1: "s_mem s1 a = Some ?se" "os s1 = os s" "sr_mem s1 = sr_mem s" "rundir s1 = rundir s" "running s1 = running s"
    "s_mem s1 = (s_mem s)(a \<mapsto> ?se)" "s_ids s1 = p" "r_links s1 = r_links s" "r_pool s1 = r_pool s" "r_mem s1 = r_mem s"
    "reg_mem s1 = reg_mem s" "virtio s1 = None" "s_initialized s1"
    using v i by (simp_all add: s1_def s_set_def)
  have reg1: "reg_ok s1 L G"
    by (rule reg_ok_other [OF sess_okD(2) [OF ok]]) (simp_all add: s1_def s_set_def)
  have un: "unat (of_int i :: u32) = nat i" using arg_cong [OF idx(1), of nat] by simp
  have path1: "session_path s1 (unat (session_id ?se)) = path" by (simp add: path_def session_path_def s1(4) un)
  have run1: "vaccel_sess_init (Some a) flags s = Option.bind (initialize_session_resources (Some a) s1)
    (\<lambda>(ret, s2). Option.bind (s_mem s2 a) (\<lambda>se. if ret \<noteq> 0
        then Option.bind (put_sess_id (session_id se) s2) (\<lambda>s. Some (ret, s))
        else Option.bind (set_running (session_id se) (Some a) (s_set a (se\<lparr>hint := flags\<rparr>) s2)) (\<lambda>s. Some (VACCEL_OK, s))))"
    using i v a p(1) idx(3)
    by (simp add: vaccel_sess_init_def get_virtio_plugin_def get_sess_id_def s1_def Let_def cong: if_cong)
  show thesis
  proof (cases rule: initialize_ok [OF reg1 s1(1)])
    case failed: (1 ret o' h)
    let ?s2 = "s1\<lparr>os := o', s_links := h\<rparr>"
    note neg = failed(3)
    have used: "i \<in> used_ids p" using ir p(3,4) T(2) by (simp add: used_ids_def)
    obtain q where q: "id_pool_release (Some p) i = Some (Some q)" "pool_wf q" "free_ids q = i # F" "pool_cap q = pool_cap p"
      using pool.put_used [OF p(2)] used p(3) unfolding pool_used_ids by auto
    let ?s' = "?s2\<lparr>s_ids := q\<rparr>"
    have run: "vaccel_sess_init (Some a) flags s = Some (ret, ?s')"
      unfolding run1 using failed(1) neg s1(1,7) q(1) idx(1) by (simp add: put_sess_id_def)
    have "res_ok ?s' L"
      by (rule res_ok_cong [OF sess_okD(1) [OF ok]]) (use s1 failed(5) in simp_all)
    moreover have "reg_ok ?s' L G" by (rule reg_ok_other [OF failed(4)]) simp_all
    moreover have "table_ok ?s'"
    proof (rule table_ok_idle [OF sess_okD(3) [OF ok] q(2) _ _ idle])
      show "used_ids q = used_ids (s_ids s)" using q(3,4) p(4) fr by (simp add: used_ids_def)
    qed (use q(4) p(4) s1 in simp_all)
    ultimately have "sess_ok ?s' L G" by (simp add: sess_ok_def)
    then show thesis
      using that(1) [OF run] failed(2,3) path1 s1(2,5) q(3) fr by (simp add: r_def)
  next
    case made: (2 o' h)
    let ?r = "alloc_next (os s1)"
    let ?se2 = "?se\<lparr>sess_resources := Some ?r\<rparr>"
    let ?s2 = "s1\<lparr>os := o', s_links := h, sr_mem := (sr_mem s1)(?r \<mapsto> take (MAX_SESSION_RUNDIR_PATH - 1)
        (session_path s1 (unat (session_id ?se)))), s_mem := (s_mem s1)(a \<mapsto> ?se2)\<rparr>"
    let ?se3 = "?se2\<lparr>hint := flags\<rparr>"
    let ?s' = "(s_set a ?se3 ?s2)\<lparr>running := (running s)[nat (i - 1) := Some a]\<rparr>"
    have r1: "?r = r" using s1(2) by (simp add: r_def)
    have "set_running (session_id ?se2) (Some a) (s_set a ?se3 ?s2) = Some ?s'"
      using idx(2) ir T(3) s1(5) by (simp add: set_running_def s_set_def array_index_def)
    then have run: "vaccel_sess_init (Some a) flags s = Some (VACCEL_OK, ?s')"
      unfolding run1 using made(1) by simp
    have "res_ok ?s' L"
      by (rule res_ok_cong [OF sess_okD(1) [OF ok]]) (use s1 made(3) in \<open>simp_all add: s_set_def\<close>)
    moreover have "reg_ok ?s' L (no_regs G r)"
      by (rule reg_ok_other [OF made(7) [unfolded r1]]) (simp_all add: s_set_def r1)
    moreover have "table_ok ?s'"
    proof (rule table_ok_start [OF sess_okD(3) [OF ok] fr p(2,4,3) idle])
      show "r \<notin> dom (sr_mem s)" using made(6) s1(3) r1 by simp
      show "s_mem ?s' = (s_mem s)(a \<mapsto> ?se3)" by (simp add: s_set_def s1(6))
      show "uint (session_id ?se3) = i" using idx(1) by simp
      show "dom (sr_mem ?s') = insert r (dom (sr_mem s))" using s1(3) by (simp add: s_set_def r1)
    qed (use s1 in \<open>simp_all add: s_set_def r_def\<close>)
    ultimately have ok': "sess_ok ?s' L (no_regs G r)" by (simp add: sess_ok_def)
    show thesis
    proof (rule that(2) [OF run _ ok'])
      show "s_mem ?s' = (s_mem s)(a \<mapsto> se\<lparr>session_id := of_int i, sess_resources := Some r, hint := flags\<rparr>)"
        by (simp add: s_set_def s1(6) r1)
    qed (use made s1 path1 p(3) r1 in \<open>simp_all add: s_set_def\<close>)
  qed
qed

subsection \<open>Ending a session\<close>

lemma cleanup_session_ok:
  assumes ok: "reg_ok s L G" and v: "virtio s = None" and a: "s_mem s a = Some se" "sess_resources se = Some r" "r \<in> dom (sr_mem s)"
  obtains s' where "cleanup_session_resources (Some a) s = Some (VACCEL_OK, s')" "reg_ok s' L (no_regs G r)"
    "s_mem s' = (s_mem s)(a \<mapsto> se\<lparr>sess_resources := None\<rparr>)" "sr_mem s' = (sr_mem s)(r := None)"
    "s_ids s' = s_ids s" "running s' = running s" "strs (os s') = strs (os s)" "reg_mem s' \<subseteq>\<^sub>m reg_mem s"
    "rid_of s' = rid_of s" "rundir_of s' = rundir_of s" "r_links s' = r_links s" "r_pool s' = r_pool s"
    "dom (r_mem s') = dom (r_mem s)" "virtio s' = None" "s_initialized s' = s_initialized s" "r_initialized s' = r_initialized s"
proof -
  let ?is = "[0..<VACCEL_RES_MAX]"
  obtain s2 where s2: "unregister_lists (Some a) r ?is s = Some s2" "reg_ok s2 L (fold (\<lambda>i G. upd_reg G r i []) ?is G)"
    "reg_frame s s2" "os s2 = os s" "reg_mem s2 \<subseteq>\<^sub>m reg_mem s"
    using unregister_lists_ok [OF ok v a, of ?is] by auto
  note fr = reg_frame_fields [OF s2(3)]
  have r2: "r \<in> dom (sr_mem s2)" "s_mem s2 a = Some se" using fr a by simp_all
  obtain path where path: "sr_mem s2 r = Some path" using r2(1) by auto
  obtain n o' where c: "cleanup_rundir path (os s2) = (n, o')" by (cases "cleanup_rundir path (os s2)")
  have heap: "strs o' = strs (os s)" "alloc_next o' = alloc_next (os s2)"
    using cleanup_rundir_heap [of path "os s2"] c s2(4) by (simp_all add: heap_of_def)
  let ?s3 = "s2\<lparr>os := o'\<rparr>"
  have G: "reg_ok s2 L (no_regs G r)"
  proof -
    have "fold (\<lambda>i G. upd_reg G r i []) ?is G q t = no_regs G r q t" if "t < VACCEL_RES_MAX" for q t
      using that by (auto simp: fold_upd_reg no_regs_def)
    then show ?thesis using s2(2) reg_ok_lists_cong [of s2 "fold (\<lambda>i G. upd_reg G r i []) ?is G" "no_regs G r"] by blast
  qed
  have ok3: "reg_ok ?s3 L (no_regs G r)" by (rule reg_ok_other [OF G]) (simp_all add: heap)
  have r3: "r \<in> dom (sr_mem ?s3)" using r2(1) by simp
  obtain h where h: "free_sr r ?s3 = Some (?s3\<lparr>sr_mem := (sr_mem ?s3)(r := None), s_links := h\<rparr>)"
    "reg_ok (?s3\<lparr>sr_mem := (sr_mem ?s3)(r := None), s_links := h\<rparr>) L (no_regs G r)"
    by (rule free_sr_ok [OF ok3 r3]) (simp add: no_regs_def, rule that)
  let ?s' = "s_set a (se\<lparr>sess_resources := None\<rparr>) (?s3\<lparr>sr_mem := (sr_mem ?s3)(r := None), s_links := h\<rparr>)"
  have run: "cleanup_session_resources (Some a) s = Some (VACCEL_OK, ?s')"
    using a s2(1) r2(2) path c h(1) by (simp add: cleanup_session_resources_def os_call_def)
  have ok': "reg_ok ?s' L (no_regs G r)" by (rule reg_ok_other [OF h(2)]) (simp_all add: s_set_def)
  have rid: "rid_of ?s' = rid_of s" "rundir_of ?s' = rundir_of s"
    using fr(14,15) by (simp_all add: rid_of_def rundir_of_def s_set_def fun_eq_iff)
  show thesis
    by (rule that [OF run ok']) (use fr heap s2(5) rid v in \<open>simp_all add: s_set_def\<close>)
qed

lemma vaccel_sess_free_ok:
  assumes ok: "sess_ok s L G" and i: "s_initialized s" and v: "virtio s = None" and a: "runs_at s k a" "s_mem s a = Some se"
  obtains r s' where "vaccel_sess_free (Some a) s = Some (VACCEL_OK, s')" "sres_of s a = Some r" "sess_ok s' L (no_regs G r)"
    "free_ids (s_ids s') = (int k + 1) # free_ids (s_ids s)" "running s' = (running s)[k := None]"
    "s_mem s' = (s_mem s)(a \<mapsto> se\<lparr>sess_resources := None\<rparr>)" "sr_mem s' = (sr_mem s)(r := None)"
    "reg_mem s' \<subseteq>\<^sub>m reg_mem s" "virtio s' = None" "s_initialized s'" "r_initialized s' = r_initialized s"
proof -
  note T = table_okD [OF sess_okD(3) [OF ok]]
  have k: "k < MAX_VACCEL_SESSIONS" "running s ! k = Some a" using a(1) by (simp_all add: runs_at_def)
  obtain r where r: "sres_of s a = Some r" "r \<in> dom (sr_mem s)" using T(6) [OF a(1)] by blast
  have se: "sess_resources se = Some r" "uint (session_id se) = int k + 1"
    using r(1) T(5) [OF a(1)] a(2) by (simp_all add: sres_of_def sid_of_def)
  have used: "int k + 1 \<in> used_ids (s_ids s)" using T(4) [OF k(1)] k(2) by simp
  obtain p where p: "id_pool_release (Some (s_ids s)) (int k + 1) = Some (Some p)" "pool_wf p" "pool_cap p = pool_cap (s_ids s)"
    "used_ids p = used_ids (s_ids s) - {int k + 1}" "free_ids p = (int k + 1) # free_ids (s_ids s)"
    using pool.put_used [OF T(1)] used unfolding pool_used_ids by auto
  let ?s1 = "s\<lparr>s_ids := p\<rparr>"
  have ok1: "reg_ok ?s1 L G" by (rule reg_ok_other [OF sess_okD(2) [OF ok]]) simp_all
  have c1: "virtio ?s1 = None" "s_mem ?s1 a = Some se" "r \<in> dom (sr_mem ?s1)" using v a(2) r(2) by simp_all
  obtain s2 where s2: "cleanup_session_resources (Some a) ?s1 = Some (VACCEL_OK, s2)" "reg_ok s2 L (no_regs G r)"
    "s_mem s2 = (s_mem ?s1)(a \<mapsto> se\<lparr>sess_resources := None\<rparr>)" "sr_mem s2 = (sr_mem ?s1)(r := None)"
    "s_ids s2 = s_ids ?s1" "running s2 = running ?s1" "strs (os s2) = strs (os ?s1)" "reg_mem s2 \<subseteq>\<^sub>m reg_mem ?s1"
    "rid_of s2 = rid_of ?s1" "rundir_of s2 = rundir_of ?s1" "r_links s2 = r_links ?s1" "r_pool s2 = r_pool ?s1"
    "dom (r_mem s2) = dom (r_mem ?s1)" "virtio s2 = None" "s_initialized s2 = s_initialized ?s1" "r_initialized s2 = r_initialized ?s1"
    by (rule cleanup_session_ok [OF ok1 c1(1,2) se(1) c1(3)])
  let ?s' = "s2\<lparr>running := (running s)[k := None]\<rparr>"
  have idx: "uint (session_id se - 1) = int k"
  proof -
    have "1 \<le> int k + 1" "int k + 1 \<le> int MAX_VACCEL_SESSIONS" using k(1) by auto
    from sess_id_index(2) [OF this] show ?thesis using se(2) by (metis add_diff_cancel_right' word_of_int_uint)
  qed
  have "set_running (session_id se) None s2 = Some ?s'"
    using s2(6) T(3) k(1) idx by (simp add: set_running_def array_index_def)
  then have run: "vaccel_sess_free (Some a) s = Some (VACCEL_OK, ?s')"
    using i v a(2) p(1) se(2) s2(1,3) by (simp add: vaccel_sess_free_def get_virtio_plugin_def put_sess_id_def)
  have rd: "rid_of ?s1 = rid_of s" "rundir_of ?s1 = rundir_of s" "rid_of ?s' = rid_of s2" "rundir_of ?s' = rundir_of s2"
    by (simp_all add: rid_of_def rundir_of_def fun_eq_iff)
  have e: "r_links ?s' = r_links s" "r_pool ?s' = r_pool s" "dom (r_mem ?s') = dom (r_mem s)" "strs (os ?s') = strs (os s)"
    using s2(7,11-13) by simp_all
  have d: "rid_of ?s' = rid_of s" "rundir_of ?s' = rundir_of s" using rd s2(9,10) by simp_all
  have "res_ok ?s' L"
    using sess_okD(1) [OF ok] unfolding res_ok_def rundirs_ok_def e d .
  moreover have "reg_ok ?s' L (no_regs G r)" by (rule reg_ok_other [OF s2(2)]) simp_all
  moreover have "table_ok ?s'"
    by (rule table_ok_stop [OF sess_okD(3) [OF ok] a(1) r(1) p(2-4)]) (use s2 in simp_all)
  ultimately have ok': "sess_ok ?s' L (no_regs G r)" by (simp add: sess_ok_def)
  show thesis
    by (rule that [OF run r(1) ok']) (use s2 p(5) i in simp_all)
qed

subsection \<open>Start\<close>

lemma sessions_bootstrap_run:
  assumes mem: "alloc_ok (os s) (alloc_next (os s))"
  obtains p where "sessions_bootstrap s = (VACCEL_OK, s\<lparr>s_ids := p, os := (os s)\<lparr>alloc_next := Suc (alloc_next (os s))\<rparr>,
       running := replicate MAX_VACCEL_SESSIONS None, s_initialized := True\<rparr>)"
    "pool_wf p" "pool_cap p = int MAX_VACCEL_SESSIONS" "free_ids p = map int [1..<Suc MAX_VACCEL_SESSIONS]"
proof -
  have w: "sint (of_nat MAX_VACCEL_SESSIONS :: i32) = int MAX_VACCEL_SESSIONS" by (simp add: MAX_VACCEL_SESSIONS_def)
  obtain p o' where p: "id_pool_new (s_ids s) (of_nat MAX_VACCEL_SESSIONS) (os s) = (VACCEL_OK, p, o')"
    "pool_wf p" "pool_cap p = sint (of_nat MAX_VACCEL_SESSIONS :: i32)"
    "free_ids p = map int [1..<Suc (nat (sint (of_nat MAX_VACCEL_SESSIONS :: i32)))]"
    "o' = (os s)\<lparr>alloc_next := Suc (alloc_next (os s))\<rparr>"
    by (rule id_pool_new_ok [of "of_nat MAX_VACCEL_SESSIONS" "os s" "s_ids s"])
      (use mem in \<open>simp_all add: w MAX_VACCEL_SESSIONS_def\<close>)
  show thesis
    by (rule that [of p]) (use p in \<open>simp_all add: w sessions_bootstrap_def Let_def\<close>)
qed

lemma sess_ok_start:
  assumes ok: "res_ok s L" and p: "pool_wf (s_ids s)" "pool_cap (s_ids s) = int MAX_VACCEL_SESSIONS"
    "free_ids (s_ids s) = map int [1..<Suc MAX_VACCEL_SESSIONS]" "running s = replicate MAX_VACCEL_SESSIONS None"
    and clean: "sr_mem s = Map.empty" "reg_mem s = Map.empty" "\<And>b. b \<in> set L \<Longrightarrow> refs_of s b = 0"
  shows "sess_ok s L (\<lambda>_ _. [])"
proof -
  have "set (free_ids (s_ids s)) = {1..int MAX_VACCEL_SESSIONS}"
    unfolding p(3) set_map set_upt image_int_atLeastLessThan by auto
  then have used: "used_ids (s_ids s) = {}" by (simp add: used_ids_def p(2))
  have idle: "\<not> runs_at s j b" for j b using p(4) by (auto simp: runs_at_def)
  have "table_ok s" unfolding table_ok_def using p(1,2,4) used clean(1) idle by simp
  moreover have "reg_ok s L (\<lambda>_ _. [])"
  proof -
    have "reg_fam {} (\<lambda>_ _. []) e = None" for e by (cases e) auto
    then have "family (s_links s) (reg_fam {} (\<lambda>_ _. []))" by (simp add: family_def)
    moreover have "regs_of s b = {}" for b using clean(2) by (simp add: regs_of_def)
    ultimately show ?thesis using clean unfolding reg_ok_def by (simp add: in_lists_def)
  qed
  ultimately show ?thesis using ok by (simp add: sess_ok_def)
qed

lemma sessions_bootstrap_ok:
  assumes ok: "res_ok s L" and mem: "alloc_ok (os s) (alloc_next (os s))"
    and clean: "sr_mem s = Map.empty" "reg_mem s = Map.empty" "\<And>b. b \<in> set L \<Longrightarrow> refs_of s b = 0"
  obtains s' where "sessions_bootstrap s = (VACCEL_OK, s')" "sess_ok s' L (\<lambda>_ _. [])" "s_initialized s'"
    "free_ids (s_ids s') = map int [1..<Suc MAX_VACCEL_SESSIONS]"
    "\<exists>p. s' = s\<lparr>s_ids := p, os := (os s)\<lparr>alloc_next := Suc (alloc_next (os s))\<rparr>,
       running := replicate MAX_VACCEL_SESSIONS None, s_initialized := True\<rparr>"
proof -
  let ?s = "\<lambda>p. s\<lparr>s_ids := p, os := (os s)\<lparr>alloc_next := Suc (alloc_next (os s))\<rparr>,
       running := replicate MAX_VACCEL_SESSIONS None, s_initialized := True\<rparr>"
  obtain p where p: "sessions_bootstrap s = (VACCEL_OK, ?s p)" "pool_wf p" "pool_cap p = int MAX_VACCEL_SESSIONS"
    "free_ids p = map int [1..<Suc MAX_VACCEL_SESSIONS]" by (rule sessions_bootstrap_run [OF mem])
  have "res_ok (?s p) L" by (rule res_ok_cong [OF ok]) simp_all
  then have "sess_ok (?s p) L (\<lambda>_ _. [])"
    by (rule sess_ok_start) (use p(2-4) clean in \<open>simp_all add: refs_of_def\<close>)
  then show thesis by (rule that [OF p(1)]) (use p(4) in \<open>simp_all add: exI [of _ p]\<close>)
qed

subsection \<open>A running session\<close>

definition no_session :: vaccel_session where
  "no_session = \<lparr>session_id = 0, sess_resources = None, hint = 0, priv = None\<rparr>"

definition sess_base :: sess_state where
  "sess_base = res_state.extend res_one \<lparr>s_initialized = False, s_ids = \<lparr>ids = Null, max_ids = 0, next_id = 0\<rparr>,
     running = [], s_links = self_linked, s_mem = (\<lambda>_. Some no_session), sr_mem = Map.empty, reg_mem = Map.empty\<rparr>"

definition sess_booted :: sess_state where
  "sess_booted = snd (sessions_bootstrap sess_base)"

lemma sess_base: "res_ok sess_base [7]" "os sess_base = calm_os\<lparr>alloc_next := 2\<rparr>" "rundir sess_base = ''/run''"
  "virtio sess_base = None" "r_mem sess_base 7 = Some (no_resource\<lparr>res_id := 1, res_type := 3\<rparr>)" "r_initialized sess_base"
  "sr_mem sess_base = Map.empty" "reg_mem sess_base = Map.empty" "s_mem sess_base b = Some no_session"
proof -
  show "res_ok sess_base [7]"
    using res_one(1) unfolding res_ok_def rundirs_ok_def
    by (simp add: sess_base_def res_state.defs rid_of_def rundir_of_def inj_on_def)
qed (simp_all add: sess_base_def res_state.defs res_one)

lemma sess_booted: "sess_ok sess_booted [7] (\<lambda>_ _. [])" "s_initialized sess_booted" "virtio sess_booted = None"
  "free_ids (s_ids sess_booted) = 1 # map int [2..<Suc MAX_VACCEL_SESSIONS]"
  "s_mem sess_booted b = Some no_session" "\<not> runs_at sess_booted j b"
  "os sess_booted = calm_os\<lparr>alloc_next := 3\<rparr>" "rundir sess_booted = ''/run''" "r_initialized sess_booted"
  "r_mem sess_booted 7 = Some (no_resource\<lparr>res_id := 1, res_type := 3\<rparr>)" "reg_mem sess_booted = Map.empty"
proof -
  have refs: "refs_of sess_base b = 0" if "b \<in> set [7]" for b
    using that sess_base(5) by (simp add: refs_of_def no_resource_def)
  have mem: "alloc_ok (os sess_base) (alloc_next (os sess_base))" by (simp add: sess_base(2) calm_os_def)
  obtain s' where s': "sessions_bootstrap sess_base = (VACCEL_OK, s')" "sess_ok s' [7] (\<lambda>_ _. [])" "s_initialized s'"
    "free_ids (s_ids s') = map int [1..<Suc MAX_VACCEL_SESSIONS]"
    "\<exists>p. s' = sess_base\<lparr>s_ids := p, os := (os sess_base)\<lparr>alloc_next := Suc (alloc_next (os sess_base))\<rparr>,
       running := replicate MAX_VACCEL_SESSIONS None, s_initialized := True\<rparr>"
    by (rule sessions_bootstrap_ok [OF sess_base(1) mem sess_base(7,8) refs]) (assumption, rule that)
  from s'(5) obtain p where sh: "s' = sess_base\<lparr>s_ids := p, os := (os sess_base)\<lparr>alloc_next := Suc (alloc_next (os sess_base))\<rparr>,
       running := replicate MAX_VACCEL_SESSIONS None, s_initialized := True\<rparr>" by blast
  have b: "sess_booted = s'" using s'(1) by (simp add: sess_booted_def)
  show "sess_ok sess_booted [7] (\<lambda>_ _. [])" "s_initialized sess_booted" unfolding b by (fact s'(2,3))+
  have "1 < Suc MAX_VACCEL_SESSIONS" by (simp add: MAX_VACCEL_SESSIONS_def)
  then have "[1..<Suc MAX_VACCEL_SESSIONS] = 1 # [Suc 1..<Suc MAX_VACCEL_SESSIONS]" by (rule upt_conv_Cons)
  then show "free_ids (s_ids sess_booted) = 1 # map int [2..<Suc MAX_VACCEL_SESSIONS]"
    unfolding b s'(4) by (simp add: numeral_2_eq_2 del: upt_Suc)
  show "virtio sess_booted = None" "s_mem sess_booted b = Some no_session" "\<not> runs_at sess_booted j b"
    "os sess_booted = calm_os\<lparr>alloc_next := 3\<rparr>" "rundir sess_booted = ''/run''" "r_initialized sess_booted"
    "r_mem sess_booted 7 = Some (no_resource\<lparr>res_id := 1, res_type := 3\<rparr>)" "reg_mem sess_booted = Map.empty"
    unfolding b sh by (auto simp: sess_base runs_at_def)
qed

lemma setup_booted: "setup_code (os sess_booted) (session_path sess_booted (nat 1)) = 0"
proof -
  have "dec_digits 1 = ''1''" by code_simp
  then have p: "session_path sess_booted (nat 1) = ''/run/session.1''" by (simp add: session_path_def sess_booted(8))
  have "mkdir ''/run/session.1'' (calm_os\<lparr>alloc_next := 4\<rparr>)
    = (0, set_node ''/run/session.1'' Dir ((calm_os\<lparr>alloc_next := 4\<rparr>)\<lparr>sys_next := Suc (sys_next (calm_os\<lparr>alloc_next := 4\<rparr>))\<rparr>))"
    by (rule mkdir_calm) (simp_all add: calm_os_def node_def is_dir_def dirname_def)
  moreover have "alloc_ok calm_os n" for n by (simp add: calm_os_def)
  ultimately show ?thesis unfolding setup_code_def p by (simp add: sess_booted(7))
qed

definition sess_started :: sess_state where
  "sess_started = snd (the (vaccel_sess_init (Some 20) 0 sess_booted))"

lemma sess_started: "sess_ok sess_started [7] (no_regs (\<lambda>_ _. []) 3)" "s_initialized sess_started" "virtio sess_started = None"
  "s_mem sess_started 20 = Some \<lparr>session_id = 1, sess_resources = Some 3, hint = 0, priv = None\<rparr>"
  "runs_at sess_started 0 20" "r_mem sess_started 7 = Some (no_resource\<lparr>res_id := 1, res_type := 3\<rparr>)"
  "reg_mem sess_started = Map.empty"
  "free_ids (s_ids sess_started) = map int [2..<Suc MAX_VACCEL_SESSIONS]" "alloc_ok (os sess_started) n"
proof -
  have n: "alloc_next (os sess_booted) = 3" by (simp add: sess_booted(7))
  obtain s' where s': "vaccel_sess_init (Some 20) 0 sess_booted = Some (VACCEL_OK, s')" "sess_ok s' [7] (no_regs (\<lambda>_ _. []) 3)"
    "free_ids (s_ids s') = map int [2..<Suc MAX_VACCEL_SESSIONS]" "running s' = (running sess_booted)[nat (1 - 1) := Some 20]"
    "s_mem s' = (s_mem sess_booted)(20 \<mapsto> no_session\<lparr>session_id := of_int 1, sess_resources := Some 3, hint := 0\<rparr>)"
    "r_mem s' = r_mem sess_booted" "reg_mem s' = reg_mem sess_booted" "virtio s' = None" "s_initialized s'"
    "alloc_ok (os s') = alloc_ok (os sess_booted)"
  proof (cases rule: vaccel_sess_init_ok [OF sess_booted(1,2,3,5,6,4), of 20 0])
    case (1 ret s')
    then show thesis using setup_booted by simp
  next
    case (2 s')
    then show thesis using that unfolding n by blast
  qed
  have b: "sess_started = s'" using s'(1) by (simp add: sess_started_def)
  have len: "length (running sess_booted) = MAX_VACCEL_SESSIONS"
    by (rule table_okD(3) [OF sess_okD(3) [OF sess_booted(1)]])
  show "runs_at sess_started 0 20" unfolding b runs_at_def s'(4) using len by (simp add: MAX_VACCEL_SESSIONS_def)
  show "sess_ok sess_started [7] (no_regs (\<lambda>_ _. []) 3)" "s_initialized sess_started" "virtio sess_started = None"
    "free_ids (s_ids sess_started) = map int [2..<Suc MAX_VACCEL_SESSIONS]"
    unfolding b by (fact s')+
  show "alloc_ok (os sess_started) n" unfolding b s'(10) sess_booted(7) by (simp add: calm_os_def)
  show "s_mem sess_started 20 = Some \<lparr>session_id = 1, sess_resources = Some 3, hint = 0, priv = None\<rparr>"
    "r_mem sess_started 7 = Some (no_resource\<lparr>res_id := 1, res_type := 3\<rparr>)" "reg_mem sess_started = Map.empty"
    unfolding b s'(5-7) by (simp_all add: no_session_def sess_booted(10,11))
qed

subsection \<open>Properties\<close>

text \<open>
  C5. \<open>vaccel_sess_init\<close> without a VirtIO plugin, of a session that is not running. With 1024
  running sessions it fails with ESESS. Otherwise its result is 0 exactly when memory is available,
  the length of the path is not 512 and the directory can be made: then the session runs under the
  first free id, which no other running session has, and with no registrations. On any failure the
  id goes back to the pool and nothing is kept.
\<close>

theorem vaccel_sess_init_correct:
  assumes "sess_ok s L G" "s_initialized s" "virtio s = None" "s_mem s a = Some se" "\<And>j. \<not> runs_at s j a"
  shows "(free_ids (s_ids s) = [] \<longrightarrow> (\<exists>s'. vaccel_sess_init (Some a) flags s = Some (VACCEL_ESESS, s')))
    \<and> (\<forall>i F. free_ids (s_ids s) = i # F \<longrightarrow> (\<exists>s'.
        vaccel_sess_init (Some a) flags s = Some (setup_code (os s) (session_path s (nat i)), s')
        \<and> (if setup_code (os s) (session_path s (nat i)) = 0
           then sess_ok s' L (no_regs G (alloc_next (os s))) \<and> free_ids (s_ids s') = F
             \<and> running s' = (running s)[nat (i - 1) := Some a] \<and> sid_of s' a = i
             \<and> (\<forall>j b. runs_at s j b \<longrightarrow> sid_of s b \<noteq> i)
           else sess_ok s' L G \<and> free_ids (s_ids s') = free_ids (s_ids s) \<and> running s' = running s)))"
proof (intro conjI allI impI)
  assume e: "free_ids (s_ids s) = []"
  have "id_pool_get (Some (s_ids s)) = Some (0, Some ((s_ids s)\<lparr>next_id := next_id (s_ids s) + 1\<rparr>))"
    by (rule id_pool_get_exhausted [OF table_okD(1) [OF sess_okD(3) [OF assms(1)]] e])
  then show "\<exists>s'. vaccel_sess_init (Some a) flags s = Some (VACCEL_ESESS, s')"
    using assms(2-4) by (simp add: vaccel_sess_init_def get_virtio_plugin_def get_sess_id_def Let_def)
next
  fix i F assume fr: "free_ids (s_ids s) = i # F"
  note T = table_okD [OF sess_okD(3) [OF assms(1)]]
  have ir: "1 \<le> i" "i \<le> int MAX_VACCEL_SESSIONS" "i \<notin> used_ids (s_ids s)"
    using pool.free_range [OF T(1)] fr T(2) by (auto simp: used_ids_def)
  show "\<exists>s'. vaccel_sess_init (Some a) flags s = Some (setup_code (os s) (session_path s (nat i)), s')
        \<and> (if setup_code (os s) (session_path s (nat i)) = 0
           then sess_ok s' L (no_regs G (alloc_next (os s))) \<and> free_ids (s_ids s') = F
             \<and> running s' = (running s)[nat (i - 1) := Some a] \<and> sid_of s' a = i
             \<and> (\<forall>j b. runs_at s j b \<longrightarrow> sid_of s b \<noteq> i)
           else sess_ok s' L G \<and> free_ids (s_ids s') = free_ids (s_ids s) \<and> running s' = running s)"
  proof (cases rule: vaccel_sess_init_ok [OF assms fr, of flags])
    case (1 ret s')
    then show ?thesis by auto
  next
    case (2 s')
    have "sid_of s' a = i" using sess_id_index(1) [OF ir(1,2)] unfolding sid_of_def 2(6) by simp
    moreover have "sid_of s b \<noteq> i" if "runs_at s j b" for j b
    proof -
      have j: "j < MAX_VACCEL_SESSIONS" "running s ! j \<noteq> None" using that by (simp_all add: runs_at_def)
      then have "int j + 1 \<in> used_ids (s_ids s)" using T(4) by blast
      then show ?thesis using T(5) [OF that] ir(3) by auto
    qed
    ultimately show ?thesis using 2 by (intro exI [of _ s']) simp
  qed
qed

theorem vaccel_sess_init_correct_witness:
  "\<exists>s'. vaccel_sess_init (Some 20) 5 sess_booted = Some (VACCEL_OK, s') \<and> sid_of s' 20 = 1"
  using vaccel_sess_init_correct [OF sess_booted(1,2,3,5,6), of 20 5] sess_booted(4) setup_booted by force

text \<open>
  C6. \<open>vaccel_sess_register\<close> of a live resource with a running session, in a library without a VirtIO plugin: when memory is available
  the registration is added and the reference count of that resource, and of no other, grows by
  one, so that every reference count is still the number of registrations; else it fails with
  ENOMEM and nothing changes. Registering the same resource again adds a second registration.
\<close>

theorem vaccel_sess_register_correct:
  assumes "sess_ok s L G" "virtio s = None" "runs_at s k a" "b \<in> set L" "r_mem s b = Some rr" "res_type rr < VACCEL_RES_MAX"
  shows "\<exists>s' G'. vaccel_sess_register (Some a) (Some b) s =
      Some (if alloc_ok (os s) (alloc_next (os s)) then VACCEL_OK else VACCEL_ENOMEM, s') \<and> sess_ok s' L G'
    \<and> (if alloc_ok (os s) (alloc_next (os s))
       then refs_of s' b = refs_of s b + 1 \<and> card (regs_of s' b) = Suc (card (regs_of s b))
         \<and> (\<forall>b'. b' \<noteq> b \<longrightarrow> refs_of s' b' = refs_of s b' \<and> regs_of s' b' = regs_of s b')
         \<and> vaccel_sess_has_resource (Some a) (Some b) s' = Some True
       else reg_mem s' = reg_mem s \<and> r_mem s' = r_mem s \<and> s_links s' = s_links s)"
proof -
  note ok = sess_okD [OF assms(1)]
  obtain r where r: "sres_of s a = Some r" "r \<in> dom (sr_mem s)" using table_okD(6) [OF ok(3) assms(3)] by blast
  then obtain se where se: "s_mem s a = Some se" "sess_resources se = Some r" by (auto simp: sres_of_def split: option.splits)
  let ?c = "alloc_next (os s)" and ?t = "res_type rr"
  show ?thesis
  proof (cases "alloc_ok (os s) ?c")
    case False
    let ?s = "s\<lparr>os := (os s)\<lparr>alloc_next := Suc ?c\<rparr>\<rparr>"
    have "vaccel_sess_register (Some a) (Some b) s = Some (VACCEL_ENOMEM, ?s)"
      by (rule vaccel_sess_register_refused(4) [OF se assms(5,6) False])
    moreover have "sess_ok ?s L G"
    proof -
      have "reg_ok (s\<lparr>os := (os s)\<lparr>alloc_next := Suc ?c\<rparr>, s_links := s_links s\<rparr>) L G"
        by (rule reg_ok_links [OF ok(2) reg_okD(1) [OF ok(2)]]) simp
      moreover have "res_ok ?s L" by (rule res_ok_cong [OF ok(1)]) simp_all
      moreover have "table_ok ?s" by (rule table_ok_frame [OF ok(3)]) simp_all
      ultimately show ?thesis by (simp add: sess_ok_def)
    qed
    ultimately show ?thesis using False by (intro exI [of _ ?s] exI [of _ G]) simp
  next
    case True
    obtain s' where s': "vaccel_sess_register (Some a) (Some b) s = Some (VACCEL_OK, s')"
      "reg_ok s' L (upd_reg G r ?t (G r ?t @ [?c]))" "reg_frame s s'" "reg_mem s' = (reg_mem s)(?c \<mapsto> Some b)"
      "r_mem s' = (r_mem s)(b \<mapsto> rr\<lparr>refcount := refcount rr + 1\<rparr>)"
      by (rule vaccel_sess_register_ok [OF ok(2) assms(2) True se r(2) assms(4-6)])
    let ?G = "upd_reg G r ?t (G r ?t @ [?c])"
    note fr = reg_frame_fields [OF s'(3)]
    have sok: "sess_ok s' L ?G"
      using reg_frame_res_ok [OF s'(3) ok(1)] s'(2) table_ok_frame [OF ok(3)] fr by (simp add: sess_ok_def)
    have "\<not> ?c < ?c" by simp
    then have new: "?c \<notin> dom (reg_mem s)" using reg_okD(6) [OF ok(2)] by blast
    have regs: "regs_of s' b = insert ?c (regs_of s b)" "\<And>b'. b' \<noteq> b \<Longrightarrow> regs_of s' b' = regs_of s b'"
      using new unfolding regs_of_def s'(4) by auto
    have "?c \<notin> regs_of s b" using new by (auto simp: regs_of_def)
    then have "card (regs_of s' b) = Suc (card (regs_of s b))" using finite_regs_of [OF ok(2)] regs(1) by simp
    moreover have "refs_of s' x = (if x = b then refs_of s b + 1 else refs_of s x)" for x
      using s'(5) assms(5) by (simp add: refs_of_def)
    moreover have "vaccel_sess_has_resource (Some a) (Some b) s' = Some True"
    proof -
      have "registration s' b (?G r ?t) \<noteq> None" using s'(4) by (auto simp: registration_None)
      moreover have "find_registered_resource (Some a) (Some b) s' = Some (registration s' b (?G r ?t))"
        using find_registered_ok [OF s'(2), of a se r b "rr\<lparr>refcount := refcount rr + 1\<rparr>"] se r(2) fr s'(5) assms(6) by simp
      ultimately show ?thesis by (simp add: vaccel_sess_has_resource_def)
    qed
    ultimately show ?thesis using True s'(1) sok regs(2) by (intro exI [of _ s'] exI [of _ ?G]) simp
  qed
qed

theorem vaccel_sess_register_correct_witness:
  "\<exists>s'. vaccel_sess_register (Some 20) (Some 7) sess_started = Some (VACCEL_OK, s') \<and> refs_of s' 7 = 1"
proof -
  have m: "refs_of sess_started 7 = 0" by (simp add: refs_of_def sess_started(6) no_resource_def)
  show ?thesis
    using vaccel_sess_register_correct [OF sess_started(1,3,5) _ sess_started(6)] m sess_started(9) by auto
qed


text \<open>A registration of resource 7 with the session at 20.\<close>

lemma sess_registered:
  obtains t where "vaccel_sess_register (Some 20) (Some 7) sess_started = Some (VACCEL_OK, t)" "virtio t = None" "runs_at t 0 20" "sres_of t 20 = Some 3"
    "sess_ok t [7] (upd_reg (no_regs (\<lambda>_ _. []) 3) 3 3 [alloc_next (os sess_started)])" "reg_mem t = [alloc_next (os sess_started) \<mapsto> Some 7]"
    "r_mem t 7 = Some (no_resource\<lparr>res_id := 1, res_type := 3, refcount := refcount no_resource + 1\<rparr>)"
proof -
  let ?R = "no_resource\<lparr>res_id := 1, res_type := 3\<rparr>" and ?G = "no_regs (\<lambda>_ _. []) 3"
  note ok = sess_okD [OF sess_started(1)]
  have r: "3 \<in> dom (sr_mem sess_started)" using table_okD(6) [OF ok(3) sess_started(5)] sess_started(4) by (auto simp: sres_of_def)
  have se: "sess_resources \<lparr>session_id = 1, sess_resources = Some 3, hint = 0, priv = None\<rparr> = Some 3" "res_type ?R < VACCEL_RES_MAX" "7 \<in> set [7 :: nat]" by simp_all
  obtain t where t: "vaccel_sess_register (Some 20) (Some 7) sess_started = Some (VACCEL_OK, t)"
    "reg_ok t [7] (upd_reg ?G 3 (res_type ?R) (?G 3 (res_type ?R) @ [alloc_next (os sess_started)]))" "reg_frame sess_started t"
    "reg_mem t = (reg_mem sess_started)(alloc_next (os sess_started) \<mapsto> Some 7)"
    "r_mem t = (r_mem sess_started)(7 \<mapsto> ?R\<lparr>refcount := refcount ?R + 1\<rparr>)"
    by (rule vaccel_sess_register_ok [OF ok(2) sess_started(3,9,4) se(1) r se(3) sess_started(6) se(2)])
  note fr = reg_frame_fields [OF t(3)]
  have e: "upd_reg ?G 3 (res_type ?R) (?G 3 (res_type ?R) @ [alloc_next (os sess_started)]) = upd_reg ?G 3 3 [alloc_next (os sess_started)]"
    by (simp add: no_regs_def)
  have "sess_ok t [7] (upd_reg ?G 3 3 [alloc_next (os sess_started)])"
    using reg_frame_res_ok [OF t(3) ok(1)] t(2) [unfolded e] table_ok_frame [OF ok(3)] fr by (simp add: sess_ok_def)
  then show thesis
    using that [OF t(1)] fr sess_started(3-5) t(4,5) sess_started(7) by (simp add: runs_at_def sres_of_def)
qed

text \<open>
  C7. \<open>vaccel_sess_unregister\<close>, in a library without a VirtIO plugin, with a session that runs with its lists at \<open>r\<close>: it takes the first registration of the
  resource in that session's list for the type of the resource, and no other of any session, out of the list and frees it, and takes one from the
  reference count of this resource; it answers EINVAL and changes nothing when the list has no registration of it, which is when
  \<open>vaccel_sess_has_resource\<close> says no.
\<close>

theorem vaccel_sess_unregister_correct:
  assumes "sess_ok s L G" "virtio s = None" "runs_at s k a" "sres_of s a = Some r"
    "r_mem s b = Some rr" "res_type rr < VACCEL_RES_MAX"
  shows "vaccel_sess_has_resource (Some a) (Some b) s = Some (List.find (\<lambda>c. reg_mem s c = Some (Some b)) (G r (res_type rr)) \<noteq> None)
    \<and> (case List.find (\<lambda>c. reg_mem s c = Some (Some b)) (G r (res_type rr)) of
         None \<Rightarrow> vaccel_sess_unregister (Some a) (Some b) s = Some (VACCEL_EINVAL, s)
       | Some c \<Rightarrow> \<exists>s'. vaccel_sess_unregister (Some a) (Some b) s = Some (VACCEL_OK, s')
           \<and> sess_ok s' L (upd_reg G r (res_type rr) (remove1 c (G r (res_type rr)))) \<and> reg_mem s' = (reg_mem s)(c := None)
           \<and> r_mem s' = (r_mem s)(b \<mapsto> rr\<lparr>refcount := refcount rr - 1\<rparr>)
           \<and> Suc (card (regs_of s' b)) = card (regs_of s b) \<and> (\<forall>b'. b' \<noteq> b \<longrightarrow> regs_of s' b' = regs_of s b'))"
proof -
  note ok = sess_okD [OF assms(1)]
  have rdom: "r \<in> dom (sr_mem s)" using table_okD(6) [OF ok(3) assms(3)] assms(4) by auto
  obtain se where se: "s_mem s a = Some se" "sess_resources se = Some r"
    using assms(4) by (auto simp: sres_of_def split: option.splits)
  note find = registration_def [of s b "G r (res_type rr)", symmetric]
  have has: "vaccel_sess_has_resource (Some a) (Some b) s = Some (registration s b (G r (res_type rr)) \<noteq> None)"
    using find_registered_ok [OF ok(2) se rdom assms(5,6)] by (simp add: vaccel_sess_has_resource_def)
  show ?thesis
  proof (cases "registration s b (G r (res_type rr))")
    case None
    then have "vaccel_sess_unregister (Some a) (Some b) s = Some (VACCEL_EINVAL, s)"
      by (rule vaccel_sess_unregister_refused(3) [OF ok(2) se rdom assms(5,6)])
    then show ?thesis using has None by (simp add: find)
  next
    case (Some c)
    let ?G = "upd_reg G r (res_type rr) (remove1 c (G r (res_type rr)))"
    obtain s' where s': "vaccel_sess_unregister (Some a) (Some b) s = Some (VACCEL_OK, s')" "reg_ok s' L ?G" "reg_frame s s'"
      "reg_mem s' = (reg_mem s)(c := None)" "r_mem s' = (r_mem s)(b \<mapsto> rr\<lparr>refcount := refcount rr - 1\<rparr>)"
      by (rule vaccel_sess_unregister_ok [OF ok(2) assms(2) se rdom assms(5,6) Some])
    have cb: "c \<in> regs_of s b" using registration_Some [OF Some] by (simp add: regs_of_def)
    have "regs_of s' b = regs_of s b - {c}" and other: "b' \<noteq> b \<Longrightarrow> regs_of s' b' = regs_of s b'" for b'
      using cb unfolding regs_of_def s'(4) by auto
    then have card: "Suc (card (regs_of s' b)) = card (regs_of s b)"
      using card.remove [OF finite_regs_of [OF ok(2)] cb] by simp
    have "sess_ok s' L ?G"
      using reg_frame_res_ok [OF s'(3) ok(1)] s'(2) table_ok_frame [OF ok(3)] reg_frame_fields [OF s'(3)]
      by (simp add: sess_ok_def)
    then show ?thesis using has Some s'(1,4,5) card other by (simp add: find)
  qed
qed

theorem vaccel_sess_unregister_correct_witness:
  "\<exists>t u. vaccel_sess_register (Some 20) (Some 7) sess_started = Some (VACCEL_OK, t) \<and> vaccel_sess_unregister (Some 20) (Some 7) t = Some (VACCEL_OK, u)
    \<and> reg_mem u = Map.empty"
proof (rule sess_registered)
  fix t
  let ?e = "alloc_next (os sess_started)" and ?r = "no_resource\<lparr>res_id := 1, res_type := 3, refcount := refcount no_resource + 1\<rparr>"
  assume t: "vaccel_sess_register (Some 20) (Some 7) sess_started = Some (VACCEL_OK, t)" "virtio t = None" "runs_at t 0 20" "sres_of t 20 = Some 3"
    "sess_ok t [7] (upd_reg (no_regs (\<lambda>_ _. []) 3) 3 3 [?e])" "reg_mem t = [?e \<mapsto> Some 7]" "r_mem t 7 = Some ?r"
  have "res_type ?r < VACCEL_RES_MAX" by simp
  from vaccel_sess_unregister_correct [OF t(5,2-4,7) this] t(6)
  have "\<exists>u. vaccel_sess_unregister (Some 20) (Some 7) t = Some (VACCEL_OK, u) \<and> reg_mem u = (reg_mem t)(?e := None)" by auto
  then show ?thesis using t(1,6) by auto
qed

text \<open>
  C8. \<open>vaccel_sess_free\<close> of a running session without a VirtIO plugin succeeds: the session leaves the
  table, its id is the next one given out, all its registrations are gone and every reference count
  is again the number of registrations left.
\<close>

theorem vaccel_sess_free_correct:
  assumes "sess_ok s L G" "s_initialized s" "virtio s = None" "runs_at s k a"
  shows "\<exists>r s'. vaccel_sess_free (Some a) s = Some (VACCEL_OK, s') \<and> sres_of s a = Some r \<and> sess_ok s' L (no_regs G r)
    \<and> free_ids (s_ids s') = (int k + 1) # free_ids (s_ids s) \<and> running s' = (running s)[k := None]
    \<and> sres_of s' a = None \<and> sr_mem s' r = None \<and> reg_mem s' \<subseteq>\<^sub>m reg_mem s
    \<and> (\<forall>t<VACCEL_RES_MAX. \<forall>c\<in>set (G r t). reg_mem s' c = None)"
proof -
  note ok = sess_okD [OF assms(1)]
  obtain se where se: "s_mem s a = Some se"
    using table_okD(6) [OF ok(3) assms(4)] by (auto simp: sres_of_def split: option.splits)
  obtain r s' where s': "vaccel_sess_free (Some a) s = Some (VACCEL_OK, s')" "sres_of s a = Some r" "sess_ok s' L (no_regs G r)"
    "free_ids (s_ids s') = (int k + 1) # free_ids (s_ids s)" "running s' = (running s)[k := None]"
    "s_mem s' = (s_mem s)(a \<mapsto> se\<lparr>sess_resources := None\<rparr>)" "sr_mem s' = (sr_mem s)(r := None)" "reg_mem s' \<subseteq>\<^sub>m reg_mem s"
    by (rule vaccel_sess_free_ok [OF assms se])
  have rdom: "r \<in> dom (sr_mem s)" using table_okD(6) [OF ok(3) assms(4)] s'(2) by auto
  have gone: "reg_mem s' c = None" if c: "t < VACCEL_RES_MAX" "c \<in> set (G r t)" for t c
  proof -
    have "\<not> in_lists (dom (sr_mem s')) (no_regs G r) c"
    proof
      assume "in_lists (dom (sr_mem s')) (no_regs G r) c"
      then obtain q u where q: "q \<in> dom (sr_mem s')" "u < VACCEL_RES_MAX" "c \<in> set (no_regs G r q u)" unfolding in_lists_def by blast
      then have q': "q \<in> dom (sr_mem s)" "q \<noteq> r" "c \<in> set (G q u)" using s'(7) by (auto simp: no_regs_def split: if_splits)
      show False using reg_fam_unique [OF reg_okD(1) [OF ok(2)] rdom c q'(1) q(2) q'(3)] q'(2) by simp
    qed
    then show ?thesis using reg_okD(3) [OF sess_okD(2) [OF s'(3)], of c] by blast
  qed
  have "sres_of s' a = None" "sr_mem s' r = None" by (simp_all add: sres_of_def s'(6,7))
  then show ?thesis using s' gone by blast
qed

theorem vaccel_sess_free_correct_witness:
  "\<exists>s'. vaccel_sess_free (Some 20) sess_started = Some (VACCEL_OK, s') \<and> sr_mem s' 3 = None"
  using vaccel_sess_free_correct [OF sess_started(1,2,3,5)] sess_started(4) by (auto simp: sres_of_def)


text \<open>
  Freeing a session a second time is not refused: its identifier is put back twice. When another session
  runs, the second call answers OK as well and from then on the next two identifiers handed out are
  the same one; when none does, \<open>id_pool_release\<close> writes before the start of its array.
\<close>

theorem vaccel_sess_free_twice:
  assumes "sess_ok s L G" "s_initialized s" "virtio s = None" "runs_at s k a"
  shows "\<exists>s1. vaccel_sess_free (Some a) s = Some (VACCEL_OK, s1)
    \<and> (if \<exists>j b. runs_at s j b \<and> j \<noteq> k
       then \<exists>s2 s3 s4. vaccel_sess_free (Some a) s1 = Some (VACCEL_OK, s2)
         \<and> get_sess_id s2 = Some (of_nat (Suc k), s3) \<and> get_sess_id s3 = Some (of_nat (Suc k), s4)
       else vaccel_sess_free (Some a) s1 = None)"
proof -
  note T = table_okD [OF sess_okD(3) [OF assms(1)]]
  obtain se where se: "s_mem s a = Some se"
    using T(6) [OF assms(4)] by (auto simp: sres_of_def split: option.splits)
  obtain r s1 where s1: "vaccel_sess_free (Some a) s = Some (VACCEL_OK, s1)" "sres_of s a = Some r" "sess_ok s1 L (no_regs G r)"
    "free_ids (s_ids s1) = (int k + 1) # free_ids (s_ids s)" "running s1 = (running s)[k := None]"
    "s_mem s1 = (s_mem s)(a \<mapsto> se\<lparr>sess_resources := None\<rparr>)" "sr_mem s1 = (sr_mem s)(r := None)"
    "reg_mem s1 \<subseteq>\<^sub>m reg_mem s" "virtio s1 = None" "s_initialized s1"
    by (rule vaccel_sess_free_ok [OF assms se])
  note T1 = table_okD [OF sess_okD(3) [OF s1(3)]]
  have k: "k < MAX_VACCEL_SESSIONS" using assms(4) by (simp add: runs_at_def)
  have id: "uint (session_id se) = int k + 1" using T(5) [OF assms(4)] se by (simp add: sid_of_def)
  have wid: "session_id se = of_nat (Suc k)"
    using id by (metis of_int_of_nat_eq of_nat_Suc add.commute word_of_int_uint)
  have ids: "used_ids (s_ids s1) = {} \<longleftrightarrow> \<not> (\<exists>j b. runs_at s j b \<and> j \<noteq> k)"
  proof
    assume e: "used_ids (s_ids s1) = {}"
    have False if jb: "runs_at s j b" "j \<noteq> k" for j b
    proof -
      have j: "j < MAX_VACCEL_SESSIONS" "running s1 ! j \<noteq> None" using jb unfolding s1(5) runs_at_def by simp_all
      then show False using T1(4) [OF j(1)] e by simp
    qed
    then show "\<not> (\<exists>j b. runs_at s j b \<and> j \<noteq> k)" by blast
  next
    assume n: "\<not> (\<exists>j b. runs_at s j b \<and> j \<noteq> k)"
    show "used_ids (s_ids s1) = {}"
    proof (rule ccontr)
      assume "used_ids (s_ids s1) \<noteq> {}"
      then obtain i where i: "i \<in> used_ids (s_ids s1)" by blast
      then have r: "1 \<le> i" "i \<le> int MAX_VACCEL_SESSIONS" using T1(2) by (simp_all add: used_ids_def)
      define j where "j = nat (i - 1)"
      have j: "j < MAX_VACCEL_SESSIONS" "i = int j + 1" using r by (simp_all add: j_def)
      then have "running s1 ! j \<noteq> None" using T1(4) [OF j(1)] i by simp
      then have "j \<noteq> k \<and> running s ! j \<noteq> None" using T(3) k unfolding s1(5) by (cases "j = k") auto
      then show False using n j(1) unfolding runs_at_def by blast
    qed
  qed
  have se1: "s_mem s1 a = Some (se\<lparr>sess_resources := None\<rparr>)" by (simp add: s1(6))
  have free1: "vaccel_sess_free (Some a) s1 = Option.bind (put_sess_id (session_id se) s1)
      (\<lambda>s. Option.bind (cleanup_session_resources (Some a) s)
        (\<lambda>(_, s). Option.bind (s_mem s a) (\<lambda>se. Option.bind (set_running (session_id se) None s) (\<lambda>s. Some (VACCEL_OK, s)))))"
    using s1(9,10) se1 by (simp add: vaccel_sess_free_def get_virtio_plugin_def)
  show ?thesis
  proof (cases "used_ids (s_ids s1) = {}")
    case True
    have "int k + 1 \<in> set (free_ids (s_ids s1))" by (simp add: s1(4))
    then have "id_pool_release (Some (s_ids s1)) (int k + 1) = None" by (rule id_pool_release_all_free [OF T1(1) _ True])
    then have "vaccel_sess_free (Some a) s1 = None" unfolding free1 by (simp add: put_sess_id_def id)
    then show ?thesis using s1(1) True ids by auto
  next
    case False
    obtain p' q q' where p: "id_pool_release (Some (s_ids s1)) (int k + 1) = Some (Some p')"
      "id_pool_get (Some p') = Some (int k + 1, Some q)" "id_pool_get (Some q) = Some (int k + 1, Some q')"
      by (rule id_pool_double_release [OF T1(1) s1(4) False])
    have "uint (session_id se - 1) = int k"
      using sess_id_index(2) [of "int k + 1"] k id by (metis add_diff_cancel_right' word_of_int_uint of_nat_Suc
          add.commute of_nat_le_iff Suc_leI le_add1 of_nat_1 plus_1_eq_Suc)
    then have run: "set_running (session_id se) None (s1\<lparr>s_ids := p'\<rparr>) = Some (s1\<lparr>s_ids := p', running := (running s1)[k := None]\<rparr>)"
      using T1(3) k by (simp add: set_running_def array_index_def)
    let ?s2 = "s1\<lparr>s_ids := p', running := (running s1)[k := None]\<rparr>"
    have "vaccel_sess_free (Some a) s1 = Some (VACCEL_OK, ?s2)"
      unfolding free1 using p(1) id se1 run by (simp add: put_sess_id_def cleanup_session_resources_def)
    moreover have "get_sess_id ?s2 = Some (of_nat (Suc k), ?s2\<lparr>s_ids := q\<rparr>)"
      "get_sess_id (?s2\<lparr>s_ids := q\<rparr>) = Some (of_nat (Suc k), ?s2\<lparr>s_ids := q'\<rparr>)"
      using p(2,3) by (simp_all add: get_sess_id_def)
    ultimately show ?thesis using s1(1) False ids by auto
  qed
qed

lemma only_started: "runs_at sess_started j b \<Longrightarrow> j = 0"
proof -
  assume "runs_at sess_started j b"
  then have j: "j < MAX_VACCEL_SESSIONS" "running sess_started ! j \<noteq> None" by (simp_all add: runs_at_def)
  then have "int j + 1 \<in> used_ids (s_ids sess_started)"
    using table_okD(4) [OF sess_okD(3) [OF sess_started(1)] j(1)] by simp
  then have "int j + 1 \<notin> set (map int [2..<Suc MAX_VACCEL_SESSIONS])"
    using sess_started(8) by (simp add: used_ids_def del: upt_Suc set_map)
  moreover have "int j + 1 \<in> set (map int [2..<Suc MAX_VACCEL_SESSIONS])" if "j \<noteq> 0"
    using that j(1) by (auto simp del: upt_Suc intro!: image_eqI [of _ _ "Suc j"])
  ultimately show "j = 0" by blast
qed

theorem vaccel_sess_free_twice_witness:
  "\<exists>s1. vaccel_sess_free (Some 20) sess_started = Some (VACCEL_OK, s1) \<and> vaccel_sess_free (Some 20) s1 = None"
  using vaccel_sess_free_twice [OF sess_started(1,2,3,5)] only_started by (metis (full_types))


text \<open>A host that gives every session the id 0, and a registry whose VirtIO plugin talks to it.\<close>

definition host_info :: vaccel_plugin_info where
  "host_info = \<lparr>pname = Some ''virtio'', pinit = None, pfini = None, ptype = 64,
     v_sess_init = Some (\<lambda>_ se _. (0, se\<lparr>session_id := 0\<rparr>)), v_sess_update = None,
     v_sess_free = Some (\<lambda>_ se. (0, se)), v_sess_register = None, v_sess_unregister = None,
     v_resource_new = None, v_resource_destroy = None\<rparr>"

definition sess_hosted :: sess_state where
  "sess_hosted = sess_booted\<lparr>virtio := Some 9, plugins := (plugins sess_booted)(9 \<mapsto> \<lparr>dl_handle = None, pinfo = Some host_info\<rparr>)\<rparr>"

lemma sess_hosted:
  "reg_ok sess_hosted [7] (\<lambda>_ _. [])" "length (running sess_hosted) = MAX_VACCEL_SESSIONS" "s_initialized sess_hosted"
  "virtio sess_hosted = Some 9" "virtio_info 9 sess_hosted = Some host_info" "s_mem sess_hosted b = Some no_session"
  "os sess_hosted = calm_os\<lparr>alloc_next := 3\<rparr>" "rundir sess_hosted = ''/run''"
proof -
  show "reg_ok sess_hosted [7] (\<lambda>_ _. [])"
    by (rule reg_ok_other [OF sess_okD(2) [OF sess_booted(1)]]) (simp_all add: sess_hosted_def)
  show "length (running sess_hosted) = MAX_VACCEL_SESSIONS"
    using table_okD(3) [OF sess_okD(3) [OF sess_booted(1)]] by (simp add: sess_hosted_def)
qed (simp_all add: sess_hosted_def virtio_info_def sess_booted)

lemma setup_hosted: "setup_code ((os sess_hosted)\<lparr>host_next := n\<rparr>) (session_path sess_hosted 0) = 0"
proof -
  have "dec_digits 0 = ''0''" by code_simp
  then have p: "session_path sess_hosted 0 = ''/run/session.0''" by (simp add: session_path_def sess_hosted(8))
  have "mkdir ''/run/session.0'' (calm_os\<lparr>host_next := n, alloc_next := 4\<rparr>) = (0, set_node ''/run/session.0'' Dir
      ((calm_os\<lparr>host_next := n, alloc_next := 4\<rparr>)\<lparr>sys_next := Suc (sys_next (calm_os\<lparr>host_next := n, alloc_next := 4\<rparr>))\<rparr>))"
    by (rule mkdir_calm) (simp_all add: calm_os_def node_def is_dir_def dirname_def)
  moreover have "alloc_ok calm_os n" for n by (simp add: calm_os_def)
  ultimately show ?thesis unfolding setup_code_def p by (simp add: sess_hosted(7))
qed

text \<open>
  With a VirtIO plugin the session's id is whatever the host writes into it, and nothing checks it:
  when the host accepts and the session's resources can be made, \<open>vaccel_sess_init\<close> stores the session
  in the slot id - 1 if the id is between 1 and 1024, and otherwise writes outside the table.
\<close>

theorem vaccel_sess_init_host_id:
  assumes "reg_ok s L G" "length (running s) = MAX_VACCEL_SESSIONS" "s_initialized s"
    "virtio s = Some v" "virtio_info v s = Some info" "v_sess_init info = Some f" "s_mem s a = Some se"
    "f (host_next (os s)) se flags = (0, se')"
    "setup_code ((os s)\<lparr>host_next := Suc (host_next (os s))\<rparr>) (session_path s (unat (session_id se'))) = 0"
  shows "if 1 \<le> uint (session_id se') \<and> uint (session_id se') \<le> int MAX_VACCEL_SESSIONS
    then \<exists>s'. vaccel_sess_init (Some a) flags s = Some (VACCEL_OK, s')
      \<and> running s' = (running s)[nat (uint (session_id se') - 1) := Some a] \<and> s_ids s' = s_ids s
    else vaccel_sess_init (Some a) flags s = None"
proof -
  define s1 where "s1 = s_set a se' (s\<lparr>os := (os s)\<lparr>host_next := Suc (host_next (os s))\<rparr>\<rparr>)"
  have ok1: "reg_ok s1 L G" by (rule reg_ok_other [OF assms(1)]) (simp_all add: s1_def s_set_def)
  have a1: "s_mem s1 a = Some se'" by (simp add: s1_def s_set_def)
  have p1: "session_path s1 n = session_path s n" for n by (simp add: session_path_def s1_def s_set_def)
  have c0: "setup_code (os s1) (session_path s1 (unat (session_id se'))) = 0"
    using assms(9) unfolding p1 by (simp add: s1_def s_set_def)
  have run: "vaccel_sess_init (Some a) flags s = Option.bind (initialize_session_resources (Some a) s1)
    (\<lambda>(ret, s2). Option.bind (s_mem s2 a) (\<lambda>se. if ret \<noteq> 0
        then Option.bind (virtio_info v s2) (\<lambda>info. Option.bind (v_sess_free info) (\<lambda>f.
          let (n, s) = next_host_call s2; (err, se) = f n se in Some (ret, s_set a se s)))
        else Option.bind (set_running (session_id se) (Some a) (s_set a (se\<lparr>hint := flags\<rparr>) s2)) (\<lambda>s. Some (VACCEL_OK, s))))"
    using assms(3-8) by (simp add: vaccel_sess_init_def get_virtio_plugin_def next_host_call_def s1_def Let_def
        cong: if_cong)
  show ?thesis
  proof (cases rule: initialize_ok [OF ok1 a1])
    case (1 ret o' h)
    then show ?thesis using c0 by simp
  next
    case made: (2 o' h)
    define s2 where "s2 = s1\<lparr>os := o', s_links := h, sr_mem := (sr_mem s1)(alloc_next (os s1) \<mapsto>
        take (MAX_SESSION_RUNDIR_PATH - 1) (session_path s1 (unat (session_id se')))),
        s_mem := (s_mem s1)(a \<mapsto> se'\<lparr>sess_resources := Some (alloc_next (os s1))\<rparr>)\<rparr>"
    define s3 where "s3 = s_set a (se'\<lparr>sess_resources := Some (alloc_next (os s1)), hint := flags\<rparr>) s2"
    have r3: "running s3 = running s" "s_ids s3 = s_ids s" by (simp_all add: s3_def s2_def s1_def s_set_def)
    have "vaccel_sess_init (Some a) flags s
        = Option.bind (set_running (session_id se') (Some a) s3) (\<lambda>s. Some (VACCEL_OK, s))"
      unfolding run made(1) by (simp add: s2_def s3_def)
    moreover have "set_running (session_id se') (Some a) s3 =
        (if 1 \<le> uint (session_id se') \<and> uint (session_id se') \<le> int MAX_VACCEL_SESSIONS
         then Some (s3\<lparr>running := (running s)[nat (uint (session_id se') - 1) := Some a]\<rparr>) else None)"
    proof (cases "session_id se' = 0")
      case True
      have "\<not> uint (- 1 :: u32) < int MAX_VACCEL_SESSIONS" by (simp add: MAX_VACCEL_SESSIONS_def unsigned_minus_1_eq_mask mask_eq_exp_minus_1)
      then show ?thesis
        using assms(2) True by (simp add: set_running_def array_index_def r3)
    next
      case False
      have "uint (session_id se') \<noteq> 0" using False by (metis uint_0_eq word_uint_eqI)
      then have pos: "1 \<le> uint (session_id se')" using uint_ge_0 [of "session_id se'"] by linarith
      then have "uint (session_id se' - 1) = uint (session_id se') - 1"
        using uint_sub_lem [of 1 "session_id se'"] by simp
      with pos
      show ?thesis
        using assms(2) by (simp add: set_running_def array_index_def r3)
    qed
    ultimately show ?thesis using r3(2) by simp
  qed
qed

theorem vaccel_sess_init_host_id_witness: "vaccel_sess_init (Some 20) 5 sess_hosted = None"
  using vaccel_sess_init_host_id [OF sess_hosted(1-5) _ sess_hosted(6), of _ 5 _ 20] setup_hosted
  by (simp add: host_info_def)

end
