(* ===== verification/Files.thy ===== *)
theory Files
  imports Runtime
begin

text \<open>
  The files of \<^verbatim>\<open>src/src/resources/file.c\<close> and \<^verbatim>\<open>src/src/include/vaccel_file.h\<close>: a path on disk,
  a buffer in memory, or both after a buffer has been persisted. The C functions get a pointer to
  the structure and write it; here they take the structure (\<^const>\<open>None\<close>: a NULL pointer) and give it
  back. \<open>file_ok\<close> says that what the structure owns is there to be released.
\<close>

subsection \<open>State\<close>

record vaccel_file =
  f_path :: ptr
  path_owned :: bool
  f_data :: dataptr
  f_size :: nat

subsection \<open>Operations\<close>

definition vaccel_file_new :: "vaccel_file option \<Rightarrow> string option \<Rightarrow> os_state \<Rightarrow> int \<times> vaccel_file option \<times> os_state" where
  "vaccel_file_new file path s = (case (file, path) of
       (Some f, Some p) \<Rightarrow>
         (let (r, s) = access p s in
          if r \<noteq> 0 then (errno s, Some f, s)
          else (let (q, s) = strdup p s; f = f\<lparr>f_path := q\<rparr> in
            if q = None then (VACCEL_ENOMEM, Some f, s)
            else (VACCEL_OK, Some (f\<lparr>path_owned := False, f_data := DNull, f_size := 0\<rparr>), s)))
     | _ \<Rightarrow> (VACCEL_EINVAL, file, s))"

text \<open>The two labels \<open>remove_file\<close> and \<open>free_path\<close> at the end of \<open>vaccel_file_persist\<close>.\<close>

definition free_path :: "vaccel_file \<Rightarrow> os_state \<Rightarrow> (vaccel_file \<times> os_state) option" where
  "free_path f s = do { s \<leftarrow> free_str (f_path f) s; Some (f\<lparr>f_path := None\<rparr>, s) }"

definition remove_file :: "stream \<Rightarrow> vaccel_file \<Rightarrow> os_state \<Rightarrow> (vaccel_file \<times> os_state) option" where
  "remove_file fp f s = do {
     let s = fclose fp s;
     path \<leftarrow> get_str (f_path f) s;
     let (_, s) = remove path s;
     free_path f s }"

definition persist_name :: "string \<Rightarrow> string \<Rightarrow> bool \<Rightarrow> string" where
  "persist_name dir filename randomize =
     (if randomize then dir @ ''/'' @ filename @ ''.XXXXXX'' else dir @ ''/'' @ filename)"

definition vaccel_file_persist :: "vaccel_file option \<Rightarrow> string option \<Rightarrow> string option \<Rightarrow> bool \<Rightarrow> os_state
    \<Rightarrow> (int \<times> vaccel_file option \<times> os_state) option" where
  "vaccel_file_persist file dir filename randomize s = (case file of
       None \<Rightarrow> Some (VACCEL_EINVAL, None, s)
     | Some f \<Rightarrow>
       if f_data f = DNull \<or> f_size f = 0 then Some (VACCEL_EINVAL, Some f, s)
       else do {
         d \<leftarrow> dir;
         let (found, s) = dir_exists d s;
         if \<not> found then Some (VACCEL_ENOENT, Some f, s)
         else case filename of
           None \<Rightarrow> Some (VACCEL_EINVAL, Some f, s)
         | Some name \<Rightarrow>
           if f_path f \<noteq> None then Some (VACCEL_EEXISTS, Some f, s)
           else (case new_str (persist_name d name randomize) s of
               (None, s) \<Rightarrow> Some (VACCEL_ENOMEM, Some (f\<lparr>f_path := None\<rparr>), s)
             | (Some p, s) \<Rightarrow> do {
                 let f = f\<lparr>f_path := Some p, path_owned := True\<rparr>;
                 (fp, s) \<leftarrow> (if randomize then mkstemp_fdopen p s
                             else do { path \<leftarrow> strs s p; Some (fopen_w path s) });
                 case fp of
                   None \<Rightarrow> do { let ret = errno s; (f, s) \<leftarrow> free_path f s; Some (ret, Some f, s) }
                 | Some fp \<Rightarrow> do {
                     bytes \<leftarrow> data_bytes (f_data f) s;
                     defined (f_size f \<le> length bytes);
                     let (n, fp, s) = fwrite (take (f_size f) bytes) fp s;
                     if n \<noteq> f_size f
                     then do { (f, s) \<leftarrow> remove_file fp f s; Some (VACCEL_EIO, Some f, s) }
                     else do {
                       path \<leftarrow> strs s p;
                       let (ret, (new_ptr, new_size), s) = read_file path (f_data f, f_size f) s;
                       if ret \<noteq> 0
                       then do { (f, s) \<leftarrow> remove_file fp f s; Some (ret, Some f, s) }
                       else Some (VACCEL_OK, Some (f\<lparr>f_data := new_ptr, f_size := new_size\<rparr>), fclose fp s) } } }) })"

definition vaccel_file_from_buffer :: "vaccel_file option \<Rightarrow> dataptr \<Rightarrow> nat \<Rightarrow> string option \<Rightarrow> bool \<Rightarrow> string option
    \<Rightarrow> bool \<Rightarrow> os_state \<Rightarrow> (int \<times> vaccel_file option \<times> os_state) option" where
  "vaccel_file_from_buffer file buff len filename persist dir randomize s = (case file of
       None \<Rightarrow> Some (VACCEL_EINVAL, None, s)
     | Some f \<Rightarrow>
       if buff = DNull \<or> len = 0 then Some (VACCEL_EINVAL, Some f, s)
       else (let f = f\<lparr>f_path := None, f_data := buff, f_size := len\<rparr> in
         if persist then vaccel_file_persist (Some f) dir filename randomize s
         else Some (VACCEL_OK, Some f, s)))"

definition vaccel_file_destroy :: "vaccel_file option \<Rightarrow> os_state \<Rightarrow> (int \<times> os_state) option" where
  "vaccel_file_destroy file s = (case file of
       None \<Rightarrow> Some (VACCEL_EINVAL, s)
     | Some f \<Rightarrow>
       if f_path f = None then Some (VACCEL_OK, s)
       else do {
         s \<leftarrow> (if f_data f \<noteq> DNull then do { (ret, s) \<leftarrow> munmap (f_data f) s; Some s } else Some s);
         s \<leftarrow> (if path_owned f then do {
                 path \<leftarrow> get_str (f_path f) s;
                 let (ret, s) = remove path s;
                 Some s }
               else Some s);
         s \<leftarrow> free_str (f_path f) s;
         Some (VACCEL_OK, s) })"

definition vaccel_file_initialized :: "vaccel_file option \<Rightarrow> bool" where
  "vaccel_file_initialized file = (case file of
       None \<Rightarrow> False
     | Some f \<Rightarrow> f_path f \<noteq> None \<or> (f_data f \<noteq> DNull \<and> f_size f \<noteq> 0))"

definition vaccel_file_read :: "vaccel_file option \<Rightarrow> os_state \<Rightarrow> (int \<times> vaccel_file option \<times> os_state) option" where
  "vaccel_file_read file s = (case file of
       None \<Rightarrow> Some (VACCEL_EINVAL, None, s)
     | Some f \<Rightarrow>
       if f_data f \<noteq> DNull then Some (VACCEL_OK, Some f, s)
       else if f_path f = None then Some (VACCEL_EINVAL, Some f, s)
       else do {
         path \<leftarrow> get_str (f_path f) s;
         let (ret, (d, n), s) = read_file path (f_data f, f_size f) s;
         Some (ret, Some (f\<lparr>f_data := d, f_size := n\<rparr>), s) })"

text \<open>The size is stored through the caller's pointer only when the result is the file's data.\<close>

definition vaccel_file_data :: "vaccel_file option \<Rightarrow> os_state \<Rightarrow> ((dataptr \<times> nat option) \<times> vaccel_file option \<times> os_state) option" where
  "vaccel_file_data file s = (case file of
       None \<Rightarrow> Some ((DNull, None), None, s)
     | Some f \<Rightarrow> do {
         (ret, file, s) \<leftarrow> (if f_data f = DNull \<or> f_size f = 0 then vaccel_file_read (Some f) s else Some (0, Some f, s));
         if ret \<noteq> 0 then Some ((DNull, None), file, s)
         else do { f \<leftarrow> file; Some ((f_data f, Some (f_size f)), file, s) } })"

definition vaccel_file_path :: "vaccel_file option \<Rightarrow> ptr" where
  "vaccel_file_path file = (case file of None \<Rightarrow> None | Some f \<Rightarrow> f_path f)"


subsection \<open>What a file owns\<close>

text \<open>Nothing of the heap lies where the next block goes.\<close>

definition heap_ok :: "os_state \<Rightarrow> bool" where
  "heap_ok s \<longleftrightarrow> (\<forall>x\<ge>alloc_next s. strs s x = None \<and> maps s x = None)"

definition file_ok :: "vaccel_file \<Rightarrow> os_state \<Rightarrow> bool" where
  "file_ok f s \<longleftrightarrow> (case f_path f of None \<Rightarrow> True
     | Some p \<Rightarrow> strs s p \<noteq> None \<and> (case f_data f of User _ \<Rightarrow> False | Mapped m \<Rightarrow> maps s m \<noteq> None | _ \<Rightarrow> True))"

definition strs_without :: "vaccel_file \<Rightarrow> os_state \<Rightarrow> addr \<Rightarrow> string option" where
  "strs_without f s = (case f_path f of None \<Rightarrow> strs s | Some p \<Rightarrow> (strs s)(p := None))"

definition maps_without :: "vaccel_file \<Rightarrow> os_state \<Rightarrow> addr \<Rightarrow> u8 list option" where
  "maps_without f s = (case (f_path f, f_data f) of (Some p, Mapped m) \<Rightarrow> (maps s)(m := None) | _ \<Rightarrow> maps s)"

lemma heap_ofD: "heap_of s' = heap_of s \<Longrightarrow> strs s' = strs s" "heap_of s' = heap_of s \<Longrightarrow> alloc_next s' = alloc_next s"
  "heap_of s' = heap_of s \<Longrightarrow> maps s' = maps s" "heap_of s' = heap_of s \<Longrightarrow> alloc_ok s' = alloc_ok s"
  by (simp_all add: heap_of_def)

lemma munmap_ok:
  assumes "case d of User _ \<Rightarrow> False | Mapped m \<Rightarrow> maps s m \<noteq> None | DNull \<Rightarrow> False | _ \<Rightarrow> True"
  obtains ret s' where "munmap d s = Some (ret, s')" "strs s' = strs s" "alloc_next s' = alloc_next s" "alloc_ok s' = alloc_ok s"
    "maps s' = (case d of Mapped m \<Rightarrow> (maps s)(m := None) | _ \<Rightarrow> maps s)" "fs s' = fs s"
  using assms that by (cases d) (auto simp: munmap_def fail_def)

text \<open>Destroying a file releases its path and its mapping, and nothing else.\<close>

lemma vaccel_file_destroy_ok:
  assumes "file_ok f s"
  obtains s' where "vaccel_file_destroy (Some f) s = Some (VACCEL_OK, s')" "strs s' = strs_without f s" "maps s' = maps_without f s"
    "alloc_next s' = alloc_next s" "alloc_ok s' = alloc_ok s"
proof (cases "f_path f")
  case None
  then show thesis using that [of s] by (simp add: vaccel_file_destroy_def strs_without_def maps_without_def)
next
  case (Some p)
  then have ok: "strs s p \<noteq> None" "case f_data f of User _ \<Rightarrow> False | Mapped m \<Rightarrow> maps s m \<noteq> None | _ \<Rightarrow> True"
    using assms by (auto simp: file_ok_def)
  obtain s1 where s1: "(if f_data f \<noteq> DNull then do { (ret, s) \<leftarrow> munmap (f_data f) s; Some s } else Some s) = Some s1"
    "strs s1 = strs s" "maps s1 = maps_without f s" "alloc_next s1 = alloc_next s" "alloc_ok s1 = alloc_ok s"
  proof (cases "f_data f = DNull")
    case True
    then show thesis using that [of s] Some by (simp add: maps_without_def)
  next
    case False
    then have m: "case f_data f of User _ \<Rightarrow> False | Mapped m \<Rightarrow> maps s m \<noteq> None | DNull \<Rightarrow> False | _ \<Rightarrow> True"
      using ok(2) by (cases "f_data f") simp_all
    obtain ret s' where "munmap (f_data f) s = Some (ret, s')" "strs s' = strs s" "alloc_next s' = alloc_next s" "alloc_ok s' = alloc_ok s"
      "maps s' = (case f_data f of Mapped m \<Rightarrow> (maps s)(m := None) | _ \<Rightarrow> maps s)"
      by (rule munmap_ok [OF m])
    then show thesis using that [of s'] False Some by (auto simp: maps_without_def split: dataptr.splits)
  qed
  obtain path where path: "strs s1 p = Some path" using ok(1) s1(2) by auto
  obtain s2 where s2: "(if path_owned f then do { path \<leftarrow> get_str (f_path f) s1; let (ret, s) = remove path s1; Some s } else Some s1) = Some s2"
    "heap_of s2 = heap_of s1"
  proof (cases "path_owned f")
    case True
    then show thesis using that [of "snd (remove path s1)"] path Some heap_of_remove [of path s1]
      by (simp add: get_str_def split: prod.split)
  qed (use that in simp)
  note h = heap_ofD [OF s2(2)]
  have "vaccel_file_destroy (Some f) s = Some (VACCEL_OK, s2\<lparr>strs := (strs s2)(p := None)\<rparr>)"
    using Some path s1(1) s2(1) h by (simp add: vaccel_file_destroy_def free_str_def)
  then show thesis using that Some h s1 by (simp add: strs_without_def)
qed

lemma file_ok_heap: "strs s' = strs s \<Longrightarrow> maps s' = maps s \<Longrightarrow> file_ok f s' = file_ok f s"
  by (simp add: file_ok_def split: option.split dataptr.split)

subsection \<open>Persisting a buffer\<close>

lemma stdio_fields:
  "stdio_out (snd (sys_call s)) = stdio_out s" "stdio_out (set_node p n s) = stdio_out s"
  by (simp_all add: sys_call_def set_node_def)

lemma open_write_cases:
  obtains s' where "open_write p s = (None, s')" "errno s' \<noteq> 0" "heap_of s' = heap_of s" "stdio_out s' = stdio_out s"
  | s' where "open_write p s = (Some \<lparr>s_path = p, s_data = []\<rparr>, s')" "heap_of s' = heap_of s" "stdio_out s' = stdio_out s"
proof -
  obtain e s1 where c: "sys_call s = (e, s1)" by (cases "sys_call s")
  have h: "heap_of s1 = heap_of s" "stdio_out s1 = stdio_out s" using sys_call_heap [OF c] c by (auto simp: sys_call_def)
  show thesis
  proof (cases "e \<noteq> 0 \<or> is_dir s1 p \<or> \<not> is_dir s1 (dirname p)")
    case True
    let ?n = "if e \<noteq> 0 then int e else if is_dir s1 p then EISDIR else VACCEL_ENOENT"
    have "open_write p s = (None, s1\<lparr>errno := ?n\<rparr>)" using True c by (auto simp: open_write_def)
    then show thesis using that(1) h by (simp add: heap_of_def)
  next
    case False
    then show thesis using that(2) [of "set_node p (File []) s1"] c h
      by (simp add: open_write_def heap_of_node stdio_fields)
  qed
qed

text \<open>Opening the file whose name (a template, when randomized) is the string at \<open>p\<close>.\<close>

definition open_named :: "addr \<Rightarrow> bool \<Rightarrow> os_state \<Rightarrow> (stream option \<times> os_state) option" where
  "open_named p randomize s = (if randomize then mkstemp_fdopen p s
     else do { path \<leftarrow> strs s p; Some (fopen_w path s) })"

lemma open_named_ok:
  fixes randomize :: bool
  assumes "strs s p = Some tmpl"
  defines "path \<equiv> if randomize then temp_name tmpl s else tmpl"
  obtains fp s' where "open_named p randomize s = Some (fp, s')" "strs s' = (strs s)(p \<mapsto> path)"
    "alloc_next s' = alloc_next s" "alloc_ok s' = alloc_ok s" "maps s' = maps s" "stdio_out s' = stdio_out s"
    "fp = None \<and> errno s' \<noteq> 0 \<or> fp = Some \<lparr>s_path = path, s_data = []\<rparr>"
proof (cases randomize)
  case False
  have same: "(strs s)(p \<mapsto> tmpl) = strs s" using assms(1) by (simp add: fun_upd_idem)
  show thesis
  proof (cases rule: open_write_cases [of tmpl s])
    case (1 s')
    then show thesis using that [of None s'] False assms(1) heap_ofD [OF 1(3)] 1(4) same
      by (simp add: open_named_def fopen_w_def path_def)
  next
    case (2 s')
    then show thesis using that [of "Some \<lparr>s_path = tmpl, s_data = []\<rparr>" s'] False assms(1) heap_ofD [OF 2(2)] 2(3) same
      by (simp add: open_named_def fopen_w_def path_def)
  qed
next
  case True
  let ?q = "temp_name tmpl s" and ?s = "s\<lparr>strs := (strs s)(p \<mapsto> temp_name tmpl s)\<rparr>"
  show thesis
  proof (cases "node ?s ?q \<noteq> None")
    case t: True
    have "heap_of (snd (sys_call ?s)) = heap_of ?s" by (rule heap_of_sys_call)
    note h = heap_ofD [OF this] stdio_fields(1) [of ?s]
    show thesis using that [of None "(snd (sys_call ?s))\<lparr>errno := EBADF\<rparr>"] True t assms(1) h
      by (simp add: open_named_def mkstemp_fdopen_def path_def Let_def)
  next
    case f: False
    show thesis
    proof (cases rule: open_write_cases [of ?q ?s])
      case (1 s')
      then show thesis using that [of None "s'\<lparr>errno := EBADF\<rparr>"] True f assms(1) heap_ofD [OF 1(3)] 1(4)
        by (simp add: open_named_def mkstemp_fdopen_def path_def Let_def)
    next
      case (2 s')
      then show thesis using that [of "Some \<lparr>s_path = ?q, s_data = []\<rparr>" s'] True f assms(1) heap_ofD [OF 2(2)] 2(3)
        by (simp add: open_named_def mkstemp_fdopen_def path_def Let_def)
    qed
  qed
qed

lemma fclose_heap: "heap_of (fclose fp s) = heap_of s"
  by (simp add: fclose_def sys_call_def heap_of_node) (simp add: heap_of_def)

lemma fclose_node:
  "node (fclose fp s) (s_path fp) = (if last_call_ok (fclose fp s) then Some (File (s_data fp)) else node s (s_path fp))"
  by (simp add: fclose_def sys_call_def last_call_ok_def Let_def) (simp add: set_node_def node_def)

lemma remove_file_ok:
  assumes "f_path f = Some p" "strs s p \<noteq> None"
  obtains s' where "remove_file fp f s = Some (f\<lparr>f_path := None\<rparr>, s')" "strs s' = (strs s)(p := None)"
    "maps s' = maps s" "alloc_next s' = alloc_next s" "alloc_ok s' = alloc_ok s"
proof -
  obtain path where path: "strs s p = Some path" using assms(2) by auto
  let ?s = "fclose fp s"
  have c: "heap_of ?s = heap_of s" by (rule fclose_heap)
  obtain n s2 where r: "remove path ?s = (n, s2)" by (cases "remove path ?s")
  have "heap_of s2 = heap_of s" using heap_of_remove [of path ?s] r c by simp
  note h = heap_ofD [OF this]
  have "remove_file fp f s = Some (f\<lparr>f_path := None\<rparr>, s2\<lparr>strs := (strs s2)(p := None)\<rparr>)"
    using assms(1) path r heap_ofD(1) [OF c] h(1)
    by (simp add: remove_file_def free_path_def get_str_def free_str_def)
  then show thesis using that h by simp
qed


lemma read_written:
  assumes "node s path = Some (File bs)"
  obtains ret d n s' where "read_file path dn s = (ret, (d, n), s')" "ret \<noteq> 0" "strs s' = strs s" "maps s' = maps s"
      "alloc_next s' = alloc_next s" "alloc_ok s' = alloc_ok s"
    | s' where "read_file path dn s = (0, (Map_Failed, length bs), s')" "strs s' = strs s" "maps s' = maps s"
      "alloc_next s' = alloc_next s" "alloc_ok s' = alloc_ok s" "stdio_out s' = stdio_out s" "fs s' = fs s"
    | s' where "read_file path dn s = (0, (Mapped (alloc_next s), length bs), s')" "bs \<noteq> []" "strs s' = strs s"
      "maps s' = (maps s)(alloc_next s \<mapsto> bs)"
      "alloc_next s' = Suc (alloc_next s)" "alloc_ok s' = alloc_ok s" "stdio_out s' = stdio_out s" "fs s' = fs s"
proof -
  let ?e1 = "sys_err s (sys_next s)" and ?e2 = "sys_err s (Suc (sys_next s))" and ?e3 = "sys_err s (Suc (Suc (sys_next s)))"
  have n: "node (s\<lparr>sys_next := k\<rparr>) path = Some (File bs)" for k using assms by (simp add: node_def)
  consider "?e1 \<noteq> 0" | "?e1 = 0" "?e2 \<noteq> 0" | "?e1 = 0" "?e2 = 0" "?e3 \<noteq> 0 \<or> bs = []" | "?e1 = 0" "?e2 = 0" "?e3 = 0" "bs \<noteq> []" by blast
  then show thesis
  proof cases
    case 1
    then show thesis using that(1) [of "int ?e1" "fst dn" "snd dn"] by (simp add: read_file_def sys_call_def Let_def)
  next
    case 2
    then show thesis using n that(1) [of "int ?e2" "fst dn" "snd dn"] by (simp add: read_file_def sys_call_def Let_def)
  next
    case 3
    let ?s = "s\<lparr>sys_next := Suc (Suc (Suc (sys_next s))), errno := if ?e3 \<noteq> 0 then int ?e3 else VACCEL_EINVAL\<rparr>"
    have "read_file path dn s = (0, (Map_Failed, length bs), ?s)"
      using 3 n by (auto simp: read_file_def sys_call_def Let_def mmap_file_def)
    then show thesis by (rule that(2)) simp_all
  next
    case 4
    let ?s = "s\<lparr>sys_next := Suc (Suc (Suc (sys_next s))), maps := (maps s)(alloc_next s \<mapsto> bs), alloc_next := Suc (alloc_next s)\<rparr>"
    have "read_file path dn s = (0, (Mapped (alloc_next s), length bs), ?s)"
      using 4 n by (simp add: read_file_def sys_call_def Let_def mmap_file_def)
    then show thesis by (rule that(3)) (use 4 in simp_all)
  qed
qed

text \<open>The part of \<open>vaccel_file_persist\<close> after the file has been opened.\<close>

definition persist_opened :: "vaccel_file \<Rightarrow> addr \<Rightarrow> stream option \<Rightarrow> os_state \<Rightarrow> (int \<times> vaccel_file option \<times> os_state) option" where
  "persist_opened f p fp s = (case fp of
       None \<Rightarrow> do { let ret = errno s; (f, s) \<leftarrow> free_path f s; Some (ret, Some f, s) }
     | Some fp \<Rightarrow> do {
         bytes \<leftarrow> data_bytes (f_data f) s;
         defined (f_size f \<le> length bytes);
         let (n, fp, s) = fwrite (take (f_size f) bytes) fp s;
         if n \<noteq> f_size f
         then do { (f, s) \<leftarrow> remove_file fp f s; Some (VACCEL_EIO, Some f, s) }
         else do {
           path \<leftarrow> strs s p;
           let (ret, (new_ptr, new_size), s) = read_file path (f_data f, f_size f) s;
           if ret \<noteq> 0
           then do { (f, s) \<leftarrow> remove_file fp f s; Some (ret, Some f, s) }
           else Some (VACCEL_OK, Some (f\<lparr>f_data := new_ptr, f_size := new_size\<rparr>), fclose fp s) } })"

definition persist_failed :: "vaccel_file \<Rightarrow> addr \<Rightarrow> os_state \<Rightarrow> int \<Rightarrow> vaccel_file option \<Rightarrow> os_state \<Rightarrow> bool" where
  "persist_failed f p s ret f' s' \<longleftrightarrow> ret \<noteq> 0 \<and> f' = Some (f\<lparr>f_path := None\<rparr>) \<and> strs s' = (strs s)(p := None) \<and> maps s' = maps s
     \<and> alloc_next s' = alloc_next s \<and> alloc_ok s' = alloc_ok s"

lemma persist_opened_ok:
  assumes f: "f_path f = Some p" "path_owned f" "f_data f = User bs" "f_size f = length bs" and bs: "bs \<noteq> []"
    and p: "strs s p = Some path" "p < alloc_next s"
    and fp: "fp = None \<and> errno s \<noteq> 0 \<or> fp = Some \<lparr>s_path = path, s_data = []\<rparr>"
  obtains ret f' s' where "persist_opened f p fp s = Some (ret, f', s')" "persist_failed f p s ret f' s'"
    | f' s' k where "persist_opened f p fp s = Some (VACCEL_OK, Some f', s')"
      "f' = f\<lparr>f_data := f_data f', f_size := min k (length bs)\<rparr>" "node s' path = Some (File (if last_call_ok s' then bs else take k bs))" "k = stdio_out s (length bs)"
      "strs s' = strs s" "alloc_next s \<le> alloc_next s'" "alloc_ok s' = alloc_ok s"
      "f_data f' = Map_Failed \<and> maps s' = maps s \<or> 0 < k \<and> f_data f' = Mapped (alloc_next s) \<and> maps s' = (maps s)(alloc_next s \<mapsto> take k bs)
        \<and> alloc_next s < alloc_next s'"
proof (cases fp)
  case None
  then show thesis using fp p(1) f(1)
    by (intro that(1) [of "errno s" "Some (f\<lparr>f_path := None\<rparr>)" "s\<lparr>strs := (strs s)(p := None)\<rparr>"])
      (simp_all add: persist_opened_def free_path_def free_str_def persist_failed_def)
next
  case (Some fp')
  then have fp': "fp' = \<lparr>s_path = path, s_data = []\<rparr>" using fp by simp
  obtain e s1 where c: "sys_call s = (e, s1)" by (cases "sys_call s")
  have h1: "strs s1 = strs s" "alloc_next s1 = alloc_next s" "maps s1 = maps s" "alloc_ok s1 = alloc_ok s"
    using heap_ofD [OF sys_call_heap [OF c]] .
  have e1: "stdio_out s1 = stdio_out s" using stdio_fields(1) [of s] c by simp
  have db: "data_bytes (f_data f) s = Some bs" by (simp add: f(3) data_bytes_def)
  show thesis
  proof (cases "e = 0")
    case False
    let ?s = "s1\<lparr>errno := int e\<rparr>"
    have w: "fwrite (take (f_size f) bs) fp' s = (0, fp', ?s)" using c False by (simp add: fwrite_def)
    have "strs ?s p \<noteq> None" using p(1) h1 by simp
    then obtain s' where s': "remove_file fp' f ?s = Some (f\<lparr>f_path := None\<rparr>, s')" "strs s' = (strs ?s)(p := None)"
      "maps s' = maps ?s" "alloc_next s' = alloc_next ?s" "alloc_ok s' = alloc_ok ?s"
      by (rule remove_file_ok [OF f(1)])
    have "persist_opened f p fp s = Some (VACCEL_EIO, Some (f\<lparr>f_path := None\<rparr>), s')"
      using Some db w s'(1) f(4) bs by (simp add: persist_opened_def)
    moreover have "persist_failed f p s VACCEL_EIO (Some (f\<lparr>f_path := None\<rparr>)) s'" using s' h1 by (simp add: persist_failed_def)
    ultimately show thesis by (rule that(1))
  next
    case True
    define k where "k = stdio_out s1 (length bs)"
    let ?fp = "\<lparr>s_path = path, s_data = bs\<rparr>" and ?s = "set_node path (File (take k bs)) s1"
    have w: "fwrite (take (f_size f) bs) fp' s = (length bs, ?fp, ?s)" using c True f(4) by (simp add: fwrite_def fp' k_def)
    have hs: "strs ?s = strs s" "alloc_next ?s = alloc_next s" "maps ?s = maps s" "alloc_ok ?s = alloc_ok s"
      by (simp_all add: set_node_def h1)
    have run: "persist_opened f p fp s = (let (ret, (new_ptr, new_size), s) = read_file path (f_data f, f_size f) ?s in
           if ret \<noteq> 0
           then do { (f, s) \<leftarrow> remove_file ?fp f s; Some (ret, Some f, s) }
           else Some (VACCEL_OK, Some (f\<lparr>f_data := new_ptr, f_size := new_size\<rparr>), fclose ?fp s))"
      using Some db w f(4) p(1) hs(1) by (simp add: persist_opened_def Let_def)
    have nd: "node ?s path = Some (File (take k bs))" by simp
    show thesis
    proof (cases rule: read_written [OF nd, of "(f_data f, f_size f)"])
      case (1 ret d n s2)
      have "strs s2 p \<noteq> None" using 1 p(1) hs by simp
      then obtain s' where s': "remove_file ?fp f s2 = Some (f\<lparr>f_path := None\<rparr>, s')" "strs s' = (strs s2)(p := None)"
        "maps s' = maps s2" "alloc_next s' = alloc_next s2" "alloc_ok s' = alloc_ok s2"
        by (rule remove_file_ok [OF f(1)])
      have "persist_opened f p fp s = Some (ret, Some (f\<lparr>f_path := None\<rparr>), s')"
        unfolding run using 1(1,2) s'(1) by simp
      moreover have "persist_failed f p s ret (Some (f\<lparr>f_path := None\<rparr>)) s'" using s' 1 hs by (simp add: persist_failed_def)
      ultimately show thesis by (rule that(1))
    next
      case (2 s2)
      let ?f = "f\<lparr>f_data := Map_Failed, f_size := length (take k bs)\<rparr>"
      have "persist_opened f p fp s = Some (VACCEL_OK, Some ?f, fclose ?fp s2)" unfolding run 2(1) by simp
      moreover have "node s2 path = Some (File (take k bs))" using 2(7) nd by (simp add: node_def)
      then have "node (fclose ?fp s2) path = Some (File (if last_call_ok (fclose ?fp s2) then bs else take k bs))" using fclose_node [of ?fp s2] by simp
      ultimately show thesis using 2 hs k_def e1 heap_ofD [OF fclose_heap [of ?fp s2]]
        by (intro that(2) [of ?f "fclose ?fp s2" k]) (simp_all add: min.commute stdio_fields)
    next
      case (3 s2)
      let ?f = "f\<lparr>f_data := Mapped (alloc_next ?s), f_size := length (take k bs)\<rparr>"
      have "persist_opened f p fp s = Some (VACCEL_OK, Some ?f, fclose ?fp s2)" unfolding run 3(1) by simp
      moreover have "node s2 path = Some (File (take k bs))" using 3(8) nd by (simp add: node_def)
      then have "node (fclose ?fp s2) path = Some (File (if last_call_ok (fclose ?fp s2) then bs else take k bs))" using fclose_node [of ?fp s2] by simp
      ultimately show thesis using 3 hs k_def e1 heap_ofD [OF fclose_heap [of ?fp s2]]
        by (intro that(2) [of ?f "fclose ?fp s2" k]) (simp_all add: min.commute stdio_fields)
    qed
  qed
qed


text \<open>The file at \<open>path\<close> holds \<open>bs\<close>, or a first part of it when the last system call, which closes the file, has failed.\<close>

definition written :: "string \<Rightarrow> u8 list \<Rightarrow> os_state \<Rightarrow> bool" where
  "written path bs s \<longleftrightarrow> (\<exists>k. node s path = Some (File (if last_call_ok s then bs else take k bs)))"

text \<open>
  The outcome of \<open>vaccel_file_persist\<close> on a user's buffer: either an error, with the path released
  and the buffer kept, or a file of its own, of which \<open>data\<close> maps the bytes that had left the stream's buffer when it was mapped. The file
  holds the whole buffer when closing it, the last system call, has succeeded, and else what had reached it before.
\<close>

definition persisted :: "vaccel_file \<Rightarrow> u8 list \<Rightarrow> os_state \<Rightarrow> vaccel_file \<Rightarrow> os_state \<Rightarrow> bool" where
  "persisted f bs s f' s' \<longleftrightarrow> (\<exists>path k. f_path f' = Some (alloc_next s) \<and> path_owned f' \<and> strs s' = (strs s)(alloc_next s \<mapsto> path)
     \<and> node s' path = Some (File (if last_call_ok s' then bs else take k bs)) \<and> k = stdio_out s (length bs) \<and> f_size f' = min k (length bs)
     \<and> (f_data f' = Map_Failed \<and> maps s' = maps s
       \<or> (0 < k \<and> f_data f' = Mapped (Suc (alloc_next s)) \<and> maps s' = (maps s)(Suc (alloc_next s) \<mapsto> take k bs)
         \<and> Suc (alloc_next s) < alloc_next s')))"

lemma persist_run:
  assumes "f_data f \<noteq> DNull" "f_size f \<noteq> 0" "f_path f = None" "dir_exists d s = (True, s1)"
    "new_str (persist_name d name randomize) s1 = (Some p, s2)"
  shows "vaccel_file_persist (Some f) (Some d) (Some name) randomize s =
    Option.bind (open_named p randomize s2) (\<lambda>(fp, s). persist_opened (f\<lparr>f_path := Some p, path_owned := True\<rparr>) p fp s)"
  using assms by (simp add: vaccel_file_persist_def open_named_def persist_opened_def Let_def cong: option.case_cong if_cong)

lemma dir_exists_heap: "dir_exists d s = (b, s') \<Longrightarrow> heap_of s' = heap_of s"
  by (auto simp: dir_exists_def opendir_def sys_call_def heap_of_def split: if_splits)

lemma dir_exists_stdio: "dir_exists d s = (b, s') \<Longrightarrow> stdio_out s' = stdio_out s"
  by (auto simp: dir_exists_def opendir_def sys_call_def split: if_splits)

lemma vaccel_file_persist_ok:
  assumes f: "f_data f = User bs" "f_size f = length bs" "bs \<noteq> []" "f_path f = None" and h: "heap_ok s"
  obtains ret f' s' where "vaccel_file_persist (Some f) (Some d) (Some name) randomize s = Some (ret, Some f', s')" "ret \<noteq> 0"
      "f_path f' = None" "f_data f' = f_data f" "f_size f' = f_size f" "strs s' = strs s" "maps s' = maps s"
      "alloc_next s \<le> alloc_next s'" "alloc_ok s' = alloc_ok s"
    | f' s' where "vaccel_file_persist (Some f) (Some d) (Some name) randomize s = Some (VACCEL_OK, Some f', s')"
      "persisted f bs s f' s'" "alloc_next s < alloc_next s'" "alloc_ok s' = alloc_ok s"
      "\<not> randomize \<Longrightarrow> strs s' (alloc_next s) = Some (d @ ''/'' @ name)"
proof -
  let ?a = "alloc_next s"
  obtain b s1 where d: "dir_exists d s = (b, s1)" by (cases "dir_exists d s")
  note h1 = heap_ofD [OF dir_exists_heap [OF d]] dir_exists_stdio [OF d]
  have fresh: "strs s ?a = None" using h by (simp add: heap_ok_def)
  show thesis
  proof (cases b)
    case False
    then show thesis using d f h1 by (intro that(1) [of VACCEL_ENOENT f s1]) (simp_all add: vaccel_file_persist_def)
  next
    case True
    let ?text = "persist_name d name randomize"
    show thesis
    proof (cases rule: new_str_cases [of ?text s1])
      case 1
      then show thesis using d f h1 True
        by (intro that(1) [of VACCEL_ENOMEM f "s1\<lparr>alloc_next := Suc (alloc_next s1)\<rparr>"]) (simp_all add: vaccel_file_persist_def)
    next
      case 2
      let ?f = "f\<lparr>f_path := Some ?a, path_owned := True\<rparr>"
      let ?s2 = "s1\<lparr>alloc_next := Suc ?a, strs := (strs s1)(?a \<mapsto> ?text)\<rparr>"
      define path where "path = (if randomize then temp_name ?text ?s2 else ?text)"
      have "strs ?s2 ?a = Some ?text" by simp
      then obtain fp s3 where s3: "open_named ?a randomize ?s2 = Some (fp, s3)" "strs s3 = (strs ?s2)(?a \<mapsto> path)"
        "alloc_next s3 = alloc_next ?s2" "alloc_ok s3 = alloc_ok ?s2" "maps s3 = maps ?s2" "stdio_out s3 = stdio_out ?s2"
        "fp = None \<and> errno s3 \<noteq> 0 \<or> fp = Some \<lparr>s_path = path, s_data = []\<rparr>"
        unfolding path_def by (rule open_named_ok)
      have run: "vaccel_file_persist (Some f) (Some d) (Some name) randomize s = persist_opened ?f ?a fp s3"
        using persist_run [of f d s s1 name randomize ?a ?s2] f d True 2 s3(1) h1 by simp
      have nf: "(strs s)(?a := None) = strs s" using fresh by (simp add: fun_upd_idem)
      have g: "f_path ?f = Some ?a" "path_owned ?f" "f_data ?f = User bs" "f_size ?f = length bs" using f by simp_all
      have p: "strs s3 ?a = Some path" "?a < alloc_next s3" using s3(2,3) by simp_all
      show thesis
      proof (cases rule: persist_opened_ok [OF g f(3) p s3(7)])
        case (1 ret f' s')
        then show thesis using run s3 h1 nf f
          by (intro that(1) [of ret "?f\<lparr>f_path := None\<rparr>" s']) (simp_all add: persist_failed_def)
      next
        case (2 f' s' k)
        have "f_path f' = Some ?a" "path_owned f'" "f_size f' = min k (length bs)" using 2(2) by (metis g(1,2) vaccel_file.ext_inject
            vaccel_file.surjective vaccel_file.update_convs(3,4))+
        moreover have "strs s' = (strs s)(?a \<mapsto> path)" using 2(5) s3(2) h1 by simp
        moreover have "alloc_next s3 = Suc ?a" "maps s3 = maps s" "stdio_out s3 = stdio_out s" using s3(3,5,6) h1 by simp_all
        ultimately have "persisted f bs s f' s'" using 2(3,4,8) unfolding persisted_def by auto
        moreover have "strs s' ?a = Some (d @ ''/'' @ name)" if "\<not> randomize"
          using that 2(5) s3(2) by (simp add: path_def persist_name_def)
        moreover have "?a < alloc_next s'" "alloc_ok s' = alloc_ok s" using 2(6,7) s3(3,4) h1 by simp_all
        ultimately show thesis using that(2) run 2(1) by simp
      qed
    qed
  qed
qed


lemma persisted_file_ok:
  assumes "persisted f bs s f' s'" shows "file_ok f' s'"
  using assms unfolding persisted_def file_ok_def by auto

lemma persisted_release:
  assumes "persisted f bs s f' s'" "heap_ok s"
  shows "strs_without f' s' = strs s" "maps_without f' s' = maps s"
proof -
  obtain path k where p: "f_path f' = Some (alloc_next s)" "strs s' = (strs s)(alloc_next s \<mapsto> path)"
    "f_data f' = Map_Failed \<and> maps s' = maps s
       \<or> f_data f' = Mapped (Suc (alloc_next s)) \<and> maps s' = (maps s)(Suc (alloc_next s) \<mapsto> take k bs)"
    using assms(1) unfolding persisted_def by blast
  have n: "strs s (alloc_next s) = None" "maps s (Suc (alloc_next s)) = None" using assms(2) by (simp_all add: heap_ok_def)
  show "strs_without f' s' = strs s" using p(1,2) n(1) by (simp add: strs_without_def fun_upd_idem)
  show "maps_without f' s' = maps s" using p(1,3) n(2) by (auto simp: maps_without_def fun_upd_idem)
qed

text \<open>When nothing fails, persisting makes the file, with all the bytes, and changes no other.\<close>

definition calm :: "os_state \<Rightarrow> bool" where
  "calm s \<longleftrightarrow> (\<forall>n. sys_err s n = 0 \<and> alloc_ok s n)"

lemma persist_calm:
  assumes f: "f_data f = User bs" "f_size f = length bs" "bs \<noteq> []" "f_path f = None"
    and s: "calm s" "is_dir s d" "node s (d @ ''/'' @ name) \<noteq> Some Dir" "dirname (d @ ''/'' @ name) = d"
  obtains f' s' where "vaccel_file_persist (Some f) (Some d) (Some name) False s = Some (VACCEL_OK, Some f', s')"
    "node s' = (node s)(d @ ''/'' @ name \<mapsto> File bs)" "calm s'" "strs s' = (strs s)(alloc_next s \<mapsto> d @ ''/'' @ name)" "alloc_next s < alloc_next s'"
proof -
  define p where "p = d @ ''/'' @ name"
  have p: "p \<noteq> []" "dirname p = d" "node s p \<noteq> Some Dir" using s(3,4) by (simp_all add: p_def)
  have c: "sys_err s n = 0" "alloc_ok s n" for n using s(1) by (simp_all add: calm_def)
  have nd: "node (s\<lparr>alloc_next := m, sys_next := k, strs := t\<rparr>) = node s" for m k t by (simp add: node_def fun_eq_iff)
  let ?s1 = "s\<lparr>sys_next := Suc (sys_next s)\<rparr>"
  let ?s2 = "?s1\<lparr>alloc_next := Suc (alloc_next s), strs := (strs s)(alloc_next s \<mapsto> p)\<rparr>"
  have d: "dir_exists d s = (True, ?s1)"
    using c s(2) by (auto simp: dir_exists_def opendir_def sys_call_def is_dir_def node_def)
  have n: "new_str (persist_name d name False) ?s1 = (Some (alloc_next s), ?s2)"
    using c by (simp add: new_str_def malloc_def persist_name_def p_def)
  let ?s3 = "set_node p (File []) (?s2\<lparr>sys_next := Suc (Suc (sys_next s))\<rparr>)"
  have o': "open_named (alloc_next s) False ?s2 = Some (Some \<lparr>s_path = p, s_data = []\<rparr>, ?s3)"
    using c p s(2) by (auto simp: open_named_def fopen_w_def open_write_def sys_call_def is_dir_def node_def)
  let ?f = "f\<lparr>f_path := Some (alloc_next s), path_owned := True\<rparr>"
  have run: "vaccel_file_persist (Some f) (Some d) (Some name) False s = persist_opened ?f (alloc_next s) (Some \<lparr>s_path = p, s_data = []\<rparr>) ?s3"
    using persist_run [OF _ _ f(4) d n] f(1-3) o' by simp
  let ?k = "stdio_out s (length bs)"
  let ?s4 = "set_node p (File (take ?k bs)) (?s3\<lparr>sys_next := Suc (Suc (Suc (sys_next s)))\<rparr>)"
  have w: "fwrite bs \<lparr>s_path = p, s_data = []\<rparr> ?s3 = (length bs, \<lparr>s_path = p, s_data = bs\<rparr>, ?s4)"
    using c by (simp add: fwrite_def sys_call_def set_node_def)
  have n4: "node ?s4 p = Some (File (take ?k bs))" "calm ?s4" by simp (use c in \<open>simp add: calm_def set_node_def\<close>)
  have bytes: "data_bytes (f_data ?f) ?s3 = Some bs" by (simp add: f(1) data_bytes_def)
  have at: "strs ?s4 (alloc_next s) = Some p" by (simp add: set_node_def)
  obtain dn t where r: "read_file p (f_data ?f, f_size ?f) ?s4 = (0, dn, t)" and t: "node t = node ?s4" "calm t" "strs t = strs ?s4" "alloc_next ?s4 \<le> alloc_next t"
  proof (cases "take ?k bs = []")
    case True
    show thesis
      by (rule that [of "(Map_Failed, 0)" "?s4\<lparr>sys_next := Suc (Suc (Suc (sys_next ?s4))), errno := VACCEL_EINVAL\<rparr>"])
        (use n4 c True in \<open>auto simp: calm_def read_file_def mmap_file_def sys_call_def node_def Let_def fun_eq_iff\<close>)
  next
    case False
    show thesis
      by (rule that [of "(Mapped (alloc_next ?s4), length (take ?k bs))" "?s4\<lparr>sys_next := Suc (Suc (Suc (sys_next ?s4))), maps := (maps ?s4)(alloc_next ?s4 \<mapsto> take ?k bs),
            alloc_next := Suc (alloc_next ?s4)\<rparr>"])
        (use n4 c False in \<open>auto simp: calm_def read_file_def mmap_file_def sys_call_def node_def Let_def fun_eq_iff\<close>)
  qed
  let ?t = "fclose \<lparr>s_path = p, s_data = bs\<rparr> t"
  have fin: "?t = set_node p (File bs) (t\<lparr>sys_next := Suc (sys_next t)\<rparr>)" using t(2) by (simp add: fclose_def sys_call_def calm_def)
  have "persist_opened ?f (alloc_next s) (Some \<lparr>s_path = p, s_data = []\<rparr>) ?s3 = Some (VACCEL_OK, Some (?f\<lparr>f_data := fst dn, f_size := snd dn\<rparr>), ?t)"
    using bytes w at r f(2) by (simp add: persist_opened_def split: prod.split)
  moreover have "node ?t = (node s)(p \<mapsto> File bs)"
    unfolding fin using t(1) by (auto simp: fun_eq_iff) (simp_all add: node_def set_node_def update_conv split: if_splits)
  moreover have "calm ?t" "strs ?t = (strs s)(alloc_next s \<mapsto> p)" "alloc_next s < alloc_next ?t"
    unfolding fin using t by (simp_all add: calm_def set_node_def)
  ultimately show thesis using that [of "?f\<lparr>f_data := fst dn, f_size := snd dn\<rparr>" ?t] run unfolding p_def by simp
qed

subsection \<open>Properties\<close>

text \<open>
  C20. \<open>vaccel_file_persist\<close> of a user's buffer: an error leaves the file without a path and with its
  buffer, and the heap as it was. On success the file has a path of its own; the file on disk holds
  exactly the buffer when closing it did not fail, which the code does not check, and else only the bytes that had left the stream's buffer before;
  the new data is a mapping of those bytes (or MAP_FAILED), and \<open>vaccel_file_destroy\<close> gives back the path and the mapping and nothing else.
\<close>

theorem vaccel_file_persist_correct:
  assumes "f_data f = User bs" "f_size f = length bs" "bs \<noteq> []" "f_path f = None" "heap_ok s"
  shows "\<exists>ret f' s'. vaccel_file_persist (Some f) (Some dir) (Some name) randomize s = Some (ret, Some f', s')
    \<and> (if ret = VACCEL_OK
       then persisted f bs s f' s' \<and> (\<exists>s2. vaccel_file_destroy (Some f') s' = Some (VACCEL_OK, s2) \<and> strs s2 = strs s \<and> maps s2 = maps s)
       else f_path f' = None \<and> f_data f' = f_data f \<and> f_size f' = f_size f \<and> strs s' = strs s \<and> maps s' = maps s)"
proof (cases rule: vaccel_file_persist_ok [OF assms, of dir name randomize])
  case (1 ret f' s')
  then show ?thesis by (intro exI [of _ ret] exI [of _ f'] exI [of _ s']) simp
next
  case (2 f' s')
  obtain s2 where "vaccel_file_destroy (Some f') s' = Some (VACCEL_OK, s2)" "strs s2 = strs s" "maps s2 = maps s"
    using vaccel_file_destroy_ok [OF persisted_file_ok [OF 2(2)]] unfolding persisted_release [OF 2(2) assms(5)] by blast
  then show ?thesis using 2 by (intro exI [of _ VACCEL_OK] exI [of _ f'] exI [of _ s']) simp
qed

definition small_buffer :: vaccel_file where
  "small_buffer = \<lparr>f_path = None, path_owned = False, f_data = User [127, 69, 76, 70], f_size = 4\<rparr>"

lemma calm_heap: "heap_ok calm_os"
  by (simp add: heap_ok_def calm_os_def)

lemma small_persist:
  "\<exists>f' s'. vaccel_file_persist (Some small_buffer) (Some ''/run'') (Some ''lib.so'') False calm_os = Some (VACCEL_OK, Some f', s') \<and> last_call_ok s'"
  by (simp add: vaccel_file_persist_def small_buffer_def calm_os_def dir_exists_def opendir_def sys_call_def node_def is_dir_def
      new_str_def malloc_def fopen_w_def open_write_def dirname_def persist_name_def set_node_def data_bytes_def fwrite_def
      read_file_def mmap_file_def fclose_def last_call_ok_def Let_def)

theorem vaccel_file_persist_correct_witness:
  "\<exists>f' s' path. vaccel_file_persist (Some small_buffer) (Some ''/run'') (Some ''lib.so'') False calm_os = Some (VACCEL_OK, Some f', s')
    \<and> get_str (f_path f') s' = Some path \<and> node s' path = Some (File [127, 69, 76, 70])"
proof -
  obtain f' s' where run: "vaccel_file_persist (Some small_buffer) (Some ''/run'') (Some ''lib.so'') False calm_os = Some (VACCEL_OK, Some f', s')" "last_call_ok s'"
    using small_persist by blast
  have "persisted small_buffer [127, 69, 76, 70] calm_os f' s'"
    using vaccel_file_persist_correct [of small_buffer "[127, 69, 76, 70]" calm_os "''/run''" "''lib.so''" False] calm_heap run(1)
    by (force simp: small_buffer_def)
  then show ?thesis using run unfolding persisted_def by (fastforce simp: get_str_def)
qed

text \<open>
  The file is mapped before its stream is closed. A buffer so short that all of it is still in
  the stream's buffer is written to disk, but the file is empty when it is mapped: when
  \<open>vaccel_file_persist\<close> answers OK, the data of the file is MAP_FAILED and its size 0, the pointer to
  the user's buffer is gone (and so are the bytes, if closing has failed), and \<open>vaccel_file_data\<close> hands out MAP_FAILED as the data.
\<close>

theorem vaccel_file_persist_short:
  assumes "f_data f = User bs" "f_size f = length bs" "bs \<noteq> []" "f_path f = None" "heap_ok s" "stdio_out s (length bs) = 0"
    and "vaccel_file_persist (Some f) (Some dir) (Some name) randomize s = Some (VACCEL_OK, Some f', s')"
  shows "f_data f' = Map_Failed \<and> f_size f' = 0 \<and> vaccel_file_data (Some f') s' = Some ((Map_Failed, Some 0), Some f', s')
    \<and> (\<exists>path. get_str (f_path f') s' = Some path \<and> node s' path = Some (File (if last_call_ok s' then bs else [])))"
proof (cases rule: vaccel_file_persist_ok [OF assms(1-5), of dir name randomize])
  case (1 ret f' s')
  then show ?thesis using assms(7) by simp
next
  case (2 g t)
  then have "persisted f bs s f' s'" using assms(7) by simp
  then obtain path where p: "f_path f' = Some (alloc_next s)" "strs s' (alloc_next s) = Some path"
    "node s' path = Some (File (if last_call_ok s' then bs else []))" "f_data f' = Map_Failed" "f_size f' = 0" using assms(6) unfolding persisted_def by auto
  then show ?thesis by (simp add: vaccel_file_data_def vaccel_file_read_def get_str_def)
qed

theorem vaccel_file_persist_short_witness:
  "\<exists>f' s'. vaccel_file_persist (Some small_buffer) (Some ''/run'') (Some ''lib.so'') False calm_os = Some (VACCEL_OK, Some f', s')
    \<and> f_data f' = Map_Failed"
proof -
  have "\<exists>f' s'. vaccel_file_persist (Some small_buffer) (Some ''/run'') (Some ''lib.so'') False calm_os = Some (VACCEL_OK, Some f', s')"
    using small_persist by blast
  then show ?thesis
    using vaccel_file_persist_short [of small_buffer "[127, 69, 76, 70]" calm_os "''/run''" "''lib.so''" False] calm_heap
    by (force simp: small_buffer_def calm_os_def)
qed

end
