(* ===== verification/Objects.thy ===== *)
theory Objects
  imports Sessions Files
begin

text \<open>
  The structures behind resources and their destructors: shared objects and TensorFlow models (one
  file each; \<^verbatim>\<open>src/src/resources/shared_object.c\<close>, \<^verbatim>\<open>tf_model.c\<close>), TensorFlow saved models (three
  files; \<^verbatim>\<open>tf_saved_model.c\<close>) and Torch saved models (\<^verbatim>\<open>torch_saved_model.c\<close>). The destructors
  discharge the contract of \<^verbatim>\<open>src/src/resources.c\<close>, and \<open>obj_ok\<close>, which says who owns which block
  of the heap, carries the release of all resources at exit.
\<close>

subsection \<open>State\<close>

text \<open>\<open>struct vaccel_shared_object\<close> and \<open>struct vaccel_tf_model\<close> have the same fields.\<close>

record file_object =
  o_resource :: ptr
  o_file :: vaccel_file

record tf_saved_model =
  tsm_resource :: ptr
  tsm_path :: ptr
  tsm_model :: vaccel_file
  tsm_checkpoint :: vaccel_file
  tsm_var_index :: vaccel_file

record torch_saved_model =
  trm_resource :: ptr
  trm_path :: ptr
  trm_model :: vaccel_file

record obj_state = sess_state +
  so_mem :: "addr \<Rightarrow> file_object option"
  tfm_mem :: "addr \<Rightarrow> file_object option"
  tsm_mem :: "addr \<Rightarrow> tf_saved_model option"
  trm_mem :: "addr \<Rightarrow> torch_saved_model option"

definition MAX_PATH :: nat where [simp]: "MAX_PATH = 1024"

text \<open>
  \<open>malloc\<close> and \<open>free\<close> of a \<open>struct vaccel_resource\<close>. Its fields are indeterminate until
  \<open>resource_new\<close> sets them; no operation reads them before.
\<close>

definition blank_resource :: vaccel_resource where
  "blank_resource = \<lparr>res_id = 0, res_type = 0, res_data = None, cleanup_resource = None, refcount = 0, res_rundir = None\<rparr>"

definition malloc_res :: "'z res_state_scheme \<Rightarrow> ptr \<times> 'z res_state_scheme" where
  "malloc_res s = (case os_call malloc s of
       (None, s) \<Rightarrow> (None, s)
     | (Some a, s) \<Rightarrow> (Some a, s\<lparr>r_mem := (r_mem s)(a \<mapsto> blank_resource), r_links := add_entry (ResEntry a) RNull (r_links s)\<rparr>))"

definition free_res :: "ptr \<Rightarrow> 'z res_state_scheme \<Rightarrow> 'z res_state_scheme option" where
  "free_res res s = (case res of None \<Rightarrow> Some s
     | Some a \<Rightarrow> do {
         defined (r_mem s a \<noteq> None);
         Some (s\<lparr>r_mem := (r_mem s)(a := None), r_links := del_entry (ResEntry a) (r_links s)\<rparr>) })"

text \<open>Operations on a file that belongs to a structure, and a \<open>vaccel_file_destroy\<close> whose result is dropped.\<close>

definition os_do :: "(os_state \<Rightarrow> ('r \<times> os_state) option) \<Rightarrow> 'z rt_state_scheme \<Rightarrow> ('r \<times> 'z rt_state_scheme) option" where
  "os_do f s = do { (r, o') \<leftarrow> f (os s); Some (r, s\<lparr>os := o'\<rparr>) }"

definition destroy_file :: "vaccel_file \<Rightarrow> 'z rt_state_scheme \<Rightarrow> 'z rt_state_scheme option" where
  "destroy_file f s = do { (_, s) \<leftarrow> os_do (vaccel_file_destroy (Some f)) s; Some s }"

subsection \<open>Destructors\<close>

definition shared_object_destructor :: "ptr \<Rightarrow> 'z obj_state_scheme \<Rightarrow> (int \<times> 'z obj_state_scheme) option" where
  "shared_object_destructor data s = (case data of
       None \<Rightarrow> Some (VACCEL_EINVAL, s)
     | Some a \<Rightarrow> do {
         object \<leftarrow> so_mem s a;
         s \<leftarrow> destroy_file (o_file object) s;
         Some (VACCEL_OK, s) })"

definition tf_model_destructor :: "ptr \<Rightarrow> 'z obj_state_scheme \<Rightarrow> (int \<times> 'z obj_state_scheme) option" where
  "tf_model_destructor data s = (case data of
       None \<Rightarrow> Some (VACCEL_EINVAL, s)
     | Some a \<Rightarrow> do {
         model \<leftarrow> tfm_mem s a;
         s \<leftarrow> destroy_file (o_file model) s;
         Some (VACCEL_OK, s) })"

text \<open>The end of both saved-model destructors: the \<open>variables\<close> directory of the resource is removed.\<close>

definition remove_variables :: "ptr \<Rightarrow> 'z res_state_scheme \<Rightarrow> (int \<times> 'z res_state_scheme) option" where
  "remove_variables res s = (case res of
       None \<Rightarrow> Some (VACCEL_OK, s)
     | Some b \<Rightarrow> do {
         r \<leftarrow> r_mem s b;
         if res_rundir r = None then Some (VACCEL_OK, s)
         else do {
           rd \<leftarrow> get_str (res_rundir r) (os s);
           let (len, path) = snprintf MAX_PATH (rd @ ''/variables'');
           if MAX_PATH \<le> len then Some (VACCEL_ENAMETOOLONG, s)
           else do {
             let (found, s) = os_call (dir_exists path) s;
             let s = (if found then snd (os_call (rmdir path) s) else s);
             Some (VACCEL_OK, s) } } })"

definition tf_saved_model_destructor :: "ptr \<Rightarrow> 'z obj_state_scheme \<Rightarrow> (int \<times> 'z obj_state_scheme) option" where
  "tf_saved_model_destructor data s = (case data of
       None \<Rightarrow> Some (VACCEL_EINVAL, s)
     | Some a \<Rightarrow> do {
         model \<leftarrow> tsm_mem s a;
         s \<leftarrow> destroy_file (tsm_model model) s;
         s \<leftarrow> destroy_file (tsm_checkpoint model) s;
         s \<leftarrow> destroy_file (tsm_var_index model) s;
         remove_variables (tsm_resource model) s })"

definition torch_model_destructor :: "ptr \<Rightarrow> 'z obj_state_scheme \<Rightarrow> (int \<times> 'z obj_state_scheme) option" where
  "torch_model_destructor data s = (case data of
       None \<Rightarrow> Some (VACCEL_EINVAL, s)
     | Some a \<Rightarrow> do {
         model \<leftarrow> trm_mem s a;
         s \<leftarrow> destroy_file (trm_model model) s;
         remove_variables (trm_resource model) s })"

text \<open>The call \<open>resource->cleanup_resource(resource->data)\<close>, whose result the caller ignores.\<close>

definition call_destructor :: "destructor \<Rightarrow> ptr \<Rightarrow> 'z obj_state_scheme \<Rightarrow> 'z obj_state_scheme option" where
  "call_destructor d data s = do {
     (_, s) \<leftarrow> (case d of
         Shared_Object_Destructor \<Rightarrow> shared_object_destructor data s
       | Tf_Model_Destructor \<Rightarrow> tf_model_destructor data s
       | Tf_Saved_Model_Destructor \<Rightarrow> tf_saved_model_destructor data s
       | Torch_Saved_Model_Destructor \<Rightarrow> torch_model_destructor data s);
     Some s }"


subsection \<open>The files of an object\<close>

definition files_of :: "destructor \<Rightarrow> ptr \<Rightarrow> 'z obj_state_scheme \<Rightarrow> vaccel_file list" where
  "files_of d data s = (case data of None \<Rightarrow> [] | Some a \<Rightarrow> (case d of
       Shared_Object_Destructor \<Rightarrow> (case so_mem s a of None \<Rightarrow> [] | Some x \<Rightarrow> [o_file x])
     | Tf_Model_Destructor \<Rightarrow> (case tfm_mem s a of None \<Rightarrow> [] | Some x \<Rightarrow> [o_file x])
     | Tf_Saved_Model_Destructor \<Rightarrow> (case tsm_mem s a of None \<Rightarrow> [] | Some x \<Rightarrow> [tsm_model x, tsm_checkpoint x, tsm_var_index x])
     | Torch_Saved_Model_Destructor \<Rightarrow> (case trm_mem s a of None \<Rightarrow> [] | Some x \<Rightarrow> [trm_model x])))"

text \<open>The resource a saved model points back to.\<close>

definition back_of :: "destructor \<Rightarrow> ptr \<Rightarrow> 'z obj_state_scheme \<Rightarrow> ptr" where
  "back_of d data s = (case data of None \<Rightarrow> None | Some a \<Rightarrow> (case d of
       Tf_Saved_Model_Destructor \<Rightarrow> (case tsm_mem s a of None \<Rightarrow> None | Some x \<Rightarrow> tsm_resource x)
     | Torch_Saved_Model_Destructor \<Rightarrow> (case trm_mem s a of None \<Rightarrow> None | Some x \<Rightarrow> trm_resource x)
     | _ \<Rightarrow> None))"

definition has_object :: "destructor \<Rightarrow> ptr \<Rightarrow> 'z obj_state_scheme \<Rightarrow> bool" where
  "has_object d data s \<longleftrightarrow> (case data of None \<Rightarrow> True | Some a \<Rightarrow> (case d of
       Shared_Object_Destructor \<Rightarrow> so_mem s a \<noteq> None
     | Tf_Model_Destructor \<Rightarrow> tfm_mem s a \<noteq> None
     | Tf_Saved_Model_Destructor \<Rightarrow> tsm_mem s a \<noteq> None
     | Torch_Saved_Model_Destructor \<Rightarrow> trm_mem s a \<noteq> None))"

text \<open>The heap blocks a file owns: the string of its path and its mapping.\<close>

definition blocks :: "vaccel_file \<Rightarrow> addr list" where
  "blocks f = (case f_path f of None \<Rightarrow> [] | Some p \<Rightarrow> p # (case f_data f of Mapped m \<Rightarrow> [m] | _ \<Rightarrow> []))"

definition files_ok :: "vaccel_file list \<Rightarrow> os_state \<Rightarrow> bool" where
  "files_ok gs s \<longleftrightarrow> (\<forall>f\<in>set gs. file_ok f s) \<and> distinct (concat (map blocks gs))"

definition gone :: "os_state \<Rightarrow> vaccel_file \<Rightarrow> bool" where
  "gone s f \<longleftrightarrow> (case f_path f of None \<Rightarrow> True | Some p \<Rightarrow> strs s p = None \<and> (case f_data f of Mapped m \<Rightarrow> maps s m = None | _ \<Rightarrow> True))"

text \<open>A step that only frees, and only blocks in \<open>A\<close>.\<close>

definition frees :: "addr set \<Rightarrow> os_state \<Rightarrow> os_state \<Rightarrow> bool" where
  "frees A s s' \<longleftrightarrow> (\<forall>x. x \<notin> A \<longrightarrow> strs s' x = strs s x \<and> maps s' x = maps s x) \<and> strs s' \<subseteq>\<^sub>m strs s \<and> maps s' \<subseteq>\<^sub>m maps s
     \<and> alloc_next s' = alloc_next s \<and> alloc_ok s' = alloc_ok s"

lemma frees_refl [simp]: "frees A s s"
  by (simp add: frees_def)

lemma frees_trans: "frees A s t \<Longrightarrow> frees B t u \<Longrightarrow> frees (A \<union> B) s u"
  unfolding frees_def using map_le_trans by (metis Un_iff)

lemma frees_heap: "heap_of s' = heap_of s \<Longrightarrow> frees A s s'"
  by (simp add: frees_def heap_of_def)

lemma map_le_None: "m \<subseteq>\<^sub>m m' \<Longrightarrow> m' x = None \<Longrightarrow> m x = None"
  by (metis domIff map_le_def)

lemma frees_gone:
  assumes "frees A s s'" "gone s f" shows "gone s' f"
proof -
  have le: "strs s' \<subseteq>\<^sub>m strs s" "maps s' \<subseteq>\<^sub>m maps s" using assms(1) by (simp_all add: frees_def)
  show ?thesis
  proof (cases "f_path f")
    case (Some p)
    then show ?thesis using assms(2) map_le_None [OF le(1), of p] map_le_None [OF le(2)]
      by (cases "f_data f") (simp_all add: gone_def)
  qed (simp add: gone_def)
qed

lemma frees_file_ok:
  assumes "frees A s s'" "file_ok f s" "set (blocks f) \<inter> A = {}" shows "file_ok f s'"
proof (cases "f_path f")
  case None
  then show ?thesis by (simp add: file_ok_def)
next
  case (Some p)
  then have "p \<notin> A" "\<And>m. f_data f = Mapped m \<Longrightarrow> m \<notin> A" using assms(3) by (auto simp: blocks_def)
  then have "strs s' p = strs s p" "\<And>m. f_data f = Mapped m \<Longrightarrow> maps s' m = maps s m"
    using assms(1) unfolding frees_def by blast+
  then show ?thesis using assms(2) Some by (auto simp: file_ok_def split: dataptr.split)
qed

lemma frees_heap_ok: "frees A s s' \<Longrightarrow> heap_ok s \<Longrightarrow> heap_ok s'"
  unfolding frees_def heap_ok_def map_le_def by (metis domIff)

lemma destroy_file_ok:
  assumes "file_ok f (os s)"
  obtains o' where "destroy_file f s = Some (s\<lparr>os := o'\<rparr>)" "frees (set (blocks f)) (os s) o'" "gone o' f"
proof -
  obtain o' where o': "vaccel_file_destroy (Some f) (os s) = Some (VACCEL_OK, o')" "strs o' = strs_without f (os s)"
    "maps o' = maps_without f (os s)" "alloc_next o' = alloc_next (os s)" "alloc_ok o' = alloc_ok (os s)"
    by (rule vaccel_file_destroy_ok [OF assms])
  have "destroy_file f s = Some (s\<lparr>os := o'\<rparr>)" using o'(1) by (simp add: destroy_file_def os_do_def)
  moreover have "frees (set (blocks f)) (os s) o'"
    using o'(2-5) unfolding frees_def strs_without_def maps_without_def blocks_def
    by (auto simp: map_le_def split: option.splits dataptr.splits)
  moreover have "gone o' f"
    using o'(2,3) unfolding gone_def strs_without_def maps_without_def by (auto split: option.splits dataptr.splits)
  ultimately show thesis by (rule that)
qed

fun destroy_files :: "vaccel_file list \<Rightarrow> 'z rt_state_scheme \<Rightarrow> 'z rt_state_scheme option" where
  "destroy_files [] s = Some s"
| "destroy_files (f # gs) s = do { s \<leftarrow> destroy_file f s; destroy_files gs s }"

lemma destroy_files_Nil: "destroy_files [] = Some"
  by (simp add: fun_eq_iff)

abbreviation blocks_of :: "vaccel_file list \<Rightarrow> addr set" where
  "blocks_of gs \<equiv> set (concat (map blocks gs))"

lemma destroy_files_ok:
  "files_ok gs (os s) \<Longrightarrow> \<exists>o'. destroy_files gs s = Some (s\<lparr>os := o'\<rparr>) \<and> frees (blocks_of gs) (os s) o' \<and> (\<forall>f\<in>set gs. gone o' f)"
proof (induction gs arbitrary: s)
  case Nil
  show ?case by (rule exI [of _ "os s"]) simp
next
  case (Cons f gs)
  have d: "set (blocks f) \<inter> blocks_of gs = {}" using Cons.prems by (auto simp: files_ok_def)
  obtain o1 where o1: "destroy_file f s = Some (s\<lparr>os := o1\<rparr>)" "frees (set (blocks f)) (os s) o1" "gone o1 f"
    using destroy_file_ok [of f s] Cons.prems by (auto simp: files_ok_def)
  have "files_ok gs o1"
    unfolding files_ok_def
  proof (intro conjI ballI)
    fix g assume g: "g \<in> set gs"
    then have "file_ok g (os s)" "set (blocks g) \<inter> set (blocks f) = {}" using Cons.prems d by (auto simp: files_ok_def)
    then show "file_ok g o1" by (rule frees_file_ok [OF o1(2)])
  qed (use Cons.prems in \<open>simp add: files_ok_def\<close>)
  then obtain o2 where o2: "destroy_files gs (s\<lparr>os := o1\<rparr>) = Some (s\<lparr>os := o2\<rparr>)" "frees (blocks_of gs) o1 o2" "\<forall>g\<in>set gs. gone o2 g"
    using Cons.IH [of "s\<lparr>os := o1\<rparr>"] by auto
  have "frees (blocks_of (f # gs)) (os s) o2" using frees_trans [OF o1(2) o2(2)] by simp
  then show ?case using o1 o2 frees_gone by (intro exI [of _ o2]) auto
qed

lemma remove_variables_ok:
  assumes "\<And>b. res = Some b \<Longrightarrow> \<exists>r. r_mem s b = Some r \<and> (\<forall>p. res_rundir r = Some p \<longrightarrow> strs (os s) p \<noteq> None)"
  obtains ret o' where "remove_variables res s = Some (ret, s\<lparr>os := o'\<rparr>)" "heap_of o' = heap_of (os s)"
proof (cases res)
  case None
  then show thesis using that [of VACCEL_OK "os s"] by (simp add: remove_variables_def)
next
  case (Some b)
  then obtain r where r: "r_mem s b = Some r" "\<forall>p. res_rundir r = Some p \<longrightarrow> strs (os s) p \<noteq> None" using assms by blast
  show thesis
  proof (cases "res_rundir r")
    case None
    then show thesis using that [of VACCEL_OK "os s"] r(1) Some by (simp add: remove_variables_def)
  next
    case rd: (Some p)
    then obtain path0 where path0: "strs (os s) p = Some path0" using r(2) by auto
    obtain len path where sn: "snprintf MAX_PATH (path0 @ ''/variables'') = (len, path)" by (cases "snprintf MAX_PATH (path0 @ ''/variables'')")
    obtain found o1 where d: "dir_exists path (os s) = (found, o1)" by (cases "dir_exists path (os s)")
    note h1 = dir_exists_heap [OF d]
    have "heap_of (snd (rmdir path o1)) = heap_of (os s)" using heap_of_rmdir [of path o1] h1 by simp
    then show thesis
      using that [of VACCEL_ENAMETOOLONG "os s"] that [of VACCEL_OK o1] that [of VACCEL_OK "snd (rmdir path o1)"] r(1) Some rd path0 sn d h1
      by (cases "MAX_PATH \<le> len"; cases found) (simp_all add: remove_variables_def get_str_def os_call_def split: prod.splits)
  qed
qed

text \<open>A destructor runs the files of its object, then looks at the resource it points back to.\<close>

lemma call_destructor_files:
  assumes "has_object d data s" "data = Some a"
  shows "call_destructor d data s = do { s' \<leftarrow> destroy_files (files_of d data s) s; (_, s') \<leftarrow> remove_variables (back_of d data s) s'; Some s' }"
  using assms
  by (cases d) (auto simp: call_destructor_def has_object_def files_of_def back_of_def shared_object_destructor_def
      tf_model_destructor_def tf_saved_model_destructor_def torch_model_destructor_def remove_variables_def destroy_files_Nil split: option.splits)


subsection \<open>The destructors honour the contract of resources\<close>

definition back_ok :: "ptr \<Rightarrow> 'z res_state_scheme \<Rightarrow> bool" where
  "back_ok b s \<longleftrightarrow> (\<forall>a. b = Some a \<longrightarrow> (\<exists>r. r_mem s a = Some r \<and> (\<forall>p. res_rundir r = Some p \<longrightarrow> strs (os s) p \<noteq> None)))"

definition ready :: "destructor \<Rightarrow> ptr \<Rightarrow> 'z obj_state_scheme \<Rightarrow> bool" where
  "ready d data s \<longleftrightarrow> has_object d data s \<and> files_ok (files_of d data s) (os s) \<and> back_ok (back_of d data s) s
     \<and> (\<forall>x\<in>blocks_of (files_of d data s). \<forall>b. rundir_of s b \<noteq> Some x)"

lemma call_destructor_ok:
  assumes "ready d data s"
  obtains o' where "call_destructor d data s = Some (s\<lparr>os := o'\<rparr>)" "frees (blocks_of (files_of d data s)) (os s) o'"
    "\<forall>f\<in>set (files_of d data s). gone o' f"
proof (cases data)
  case None
  then show thesis using that [of "os s"]
    by (cases d) (simp_all add: call_destructor_def shared_object_destructor_def tf_model_destructor_def
        tf_saved_model_destructor_def torch_model_destructor_def files_of_def)
next
  case (Some a)
  have h: "has_object d data s" and ok: "files_ok (files_of d data s) (os s)" and b: "back_ok (back_of d data s) s"
    and apart: "\<And>x b. x \<in> blocks_of (files_of d data s) \<Longrightarrow> rundir_of s b \<noteq> Some x"
    using assms by (auto simp: ready_def)
  obtain o1 where o1: "destroy_files (files_of d data s) s = Some (s\<lparr>os := o1\<rparr>)"
    "frees (blocks_of (files_of d data s)) (os s) o1" "\<forall>f\<in>set (files_of d data s). gone o1 f"
    using destroy_files_ok [OF ok] by blast
  have "\<exists>r. r_mem (s\<lparr>os := o1\<rparr>) c = Some r \<and> (\<forall>p. res_rundir r = Some p \<longrightarrow> strs (os (s\<lparr>os := o1\<rparr>)) p \<noteq> None)"
    if c: "back_of d data s = Some c" for c
  proof -
    obtain r where r: "r_mem s c = Some r" "\<forall>p. res_rundir r = Some p \<longrightarrow> strs (os s) p \<noteq> None"
      using b c unfolding back_ok_def by blast
    have "strs o1 p = strs (os s) p" if "res_rundir r = Some p" for p
    proof -
      have "rundir_of s c = Some p" using r(1) that by (simp add: rundir_of_def)
      then have "p \<notin> blocks_of (files_of d data s)" using apart by blast
      then show ?thesis using o1(2) unfolding frees_def by blast
    qed
    then show ?thesis using r by simp
  qed
  then obtain ret o2 where o2: "remove_variables (back_of d data s) (s\<lparr>os := o1\<rparr>) = Some (ret, s\<lparr>os := o1\<rparr>\<lparr>os := o2\<rparr>)"
    "heap_of o2 = heap_of (os (s\<lparr>os := o1\<rparr>))" by (rule remove_variables_ok)
  have e: "frees {} o1 o2" by (rule frees_heap) (use o2(2) in simp)
  have "call_destructor d data s = Some (s\<lparr>os := o2\<rparr>)"
    using call_destructor_files [OF h Some] o1(1) o2(1) by simp
  moreover have "frees (blocks_of (files_of d data s)) (os s) o2" using frees_trans [OF o1(2) e] by simp
  moreover have "\<forall>f\<in>set (files_of d data s). gone o2 f" using o1(3) frees_gone [OF e] by blast
  ultimately show thesis by (rule that)
qed

lemma call_destructor_keeps:
  assumes "ready d data s" shows "\<exists>s'. call_destructor d data s = Some s' \<and> runtime_kept s s'"
proof -
  obtain o' where o': "call_destructor d data s = Some (s\<lparr>os := o'\<rparr>)" "frees (blocks_of (files_of d data s)) (os s) o'"
    by (rule call_destructor_ok [OF assms])
  have "strs o' p = strs (os s) p" if "rundir_of s b = Some p" for b p
  proof -
    have "p \<notin> blocks_of (files_of d data s)" using assms that unfolding ready_def by blast
    then show ?thesis using o'(2) unfolding frees_def by blast
  qed
  then have "runtime_kept s (s\<lparr>os := o'\<rparr>)" by (simp add: runtime_kept_def)
  then show ?thesis using o'(1) by blast
qed

definition same_objects :: "'z obj_state_scheme \<Rightarrow> 'z obj_state_scheme \<Rightarrow> bool" where
  "same_objects s s' \<longleftrightarrow> so_mem s' = so_mem s \<and> tfm_mem s' = tfm_mem s \<and> tsm_mem s' = tsm_mem s \<and> trm_mem s' = trm_mem s"

lemma object_cong:
  assumes "same_objects s s'"
  shows "files_of d data s' = files_of d data s" "back_of d data s' = back_of d data s" "has_object d data s' = has_object d data s"
  using assms unfolding same_objects_def files_of_def back_of_def has_object_def by (elim conjE, simp only:)+

lemma ready_core: "ready d data s \<Longrightarrow> ready d data (s\<lparr>r_pool := p, r_links := h\<rparr>)"
  using object_cong [of s "s\<lparr>r_pool := p, r_links := h\<rparr>" d data]
  by (simp add: ready_def back_ok_def rundir_of_def same_objects_def)

interpretation objects: cleanup_contract call_destructor ready
  by unfold_locales (fact call_destructor_keeps, fact ready_core)


subsection \<open>Ownership\<close>

definition owned_files :: "'z obj_state_scheme \<Rightarrow> addr \<Rightarrow> vaccel_file list" where
  "owned_files s a = (case r_mem s a of None \<Rightarrow> [] | Some r \<Rightarrow>
     (case cleanup_resource r of None \<Rightarrow> [] | Some d \<Rightarrow> files_of d (res_data r) s))"

definition owned :: "'z obj_state_scheme \<Rightarrow> addr \<Rightarrow> addr list" where
  "owned s a = concat (map blocks (owned_files s a))"

text \<open>The object of a live resource is there, and a saved model points back to this resource or to none.\<close>

definition object_ok :: "'z obj_state_scheme \<Rightarrow> addr \<Rightarrow> vaccel_resource \<Rightarrow> bool" where
  "object_ok s a r \<longleftrightarrow> (\<forall>d. cleanup_resource r = Some d \<longrightarrow> has_object d (res_data r) s \<and>
     (back_of d (res_data r) s = None \<or> back_of d (res_data r) s = Some a))"

text \<open>
  No two live resources own the same block, none owns the name of a directory, and everything that
  is owned is there.
\<close>

definition obj_ok :: "'z obj_state_scheme \<Rightarrow> addr list \<Rightarrow> bool" where
  "obj_ok s L \<longleftrightarrow> res_ok s L \<and> heap_ok (os s)
     \<and> (\<forall>a\<in>set L. \<forall>r. r_mem s a = Some r \<longrightarrow> object_ok s a r)
     \<and> (\<forall>a\<in>set L. \<forall>f\<in>set (owned_files s a). file_ok f (os s))
     \<and> distinct (concat (map (owned s) L))
     \<and> (\<forall>a\<in>set L. \<forall>x\<in>set (owned s a). \<forall>b. rundir_of s b \<noteq> Some x)
     \<and> (\<forall>b r. r_mem s b = Some r \<longrightarrow> b < alloc_next (os s) \<and> (\<forall>p. res_rundir r = Some p \<longrightarrow> p < alloc_next (os s)))"

lemma obj_okD:
  assumes "obj_ok s L"
  shows "res_ok s L" "heap_ok (os s)" "a \<in> set L \<Longrightarrow> r_mem s a = Some r \<Longrightarrow> object_ok s a r"
    "a \<in> set L \<Longrightarrow> f \<in> set (owned_files s a) \<Longrightarrow> file_ok f (os s)" "distinct (concat (map (owned s) L))"
    "a \<in> set L \<Longrightarrow> x \<in> set (owned s a) \<Longrightarrow> rundir_of s b \<noteq> Some x"
    "r_mem s b = Some r \<Longrightarrow> b < alloc_next (os s)" "r_mem s b = Some r \<Longrightarrow> res_rundir r = Some p \<Longrightarrow> p < alloc_next (os s)"
proof -
  note c1 = assms [unfolded obj_ok_def]
  note c2 = c1 [THEN conjunct2] note c3 = c2 [THEN conjunct2] note c4 = c3 [THEN conjunct2] note c5 = c4 [THEN conjunct2]
  note c6 = c5 [THEN conjunct2]
  note c = c1 [THEN conjunct1] c2 [THEN conjunct1] c3 [THEN conjunct1] c4 [THEN conjunct1] c5 [THEN conjunct1] c6 [THEN conjunct1]
    c6 [THEN conjunct2]
  show "res_ok s L" "heap_ok (os s)" "distinct (concat (map (owned s) L))" by (rule c(1), rule c(2), rule c(5))
  show "a \<in> set L \<Longrightarrow> r_mem s a = Some r \<Longrightarrow> object_ok s a r" using c(3) by blast
  show "a \<in> set L \<Longrightarrow> f \<in> set (owned_files s a) \<Longrightarrow> file_ok f (os s)" using c(4) by blast
  show "a \<in> set L \<Longrightarrow> x \<in> set (owned s a) \<Longrightarrow> rundir_of s b \<noteq> Some x" using c(6) by blast
  show "r_mem s b = Some r \<Longrightarrow> b < alloc_next (os s)" "r_mem s b = Some r \<Longrightarrow> res_rundir r = Some p \<Longrightarrow> p < alloc_next (os s)"
    using c(7) by blast+
qed

lemma owned_cong:
  assumes "same_objects s s'" "r_mem s' = r_mem s"
  shows "owned_files s' = owned_files s" "owned s' = owned s" "object_ok s' = object_ok s"
proof -
  show e: "owned_files s' = owned_files s" unfolding owned_files_def assms(2) object_cong [OF assms(1)] by simp
  then show "owned s' = owned s" unfolding owned_def by simp
  show "object_ok s' = object_ok s" unfolding object_ok_def object_cong [OF assms(1)] by simp
qed

lemma owned_disjoint:
  assumes "distinct (concat (map g L))" "a \<in> set L" "b \<in> set L" "b \<noteq> a" shows "set (g b) \<inter> set (g a) = {}"
proof -
  obtain L1 L2 where L: "L = L1 @ a # L2" using assms(2) by (metis split_list)
  then have "b \<in> set (L1 @ L2)" using assms(3,4) by auto
  then have "set (g b) \<subseteq> set (concat (map g (L1 @ L2)))" by fastforce
  moreover have "set (concat (map g (L1 @ L2))) \<inter> set (g a) = {}" using assms(1) unfolding L by (simp add: Int_Un_distrib Int_Un_distrib2) blast
  ultimately show ?thesis by blast
qed

lemma distinct_concat_remove1: "distinct (concat (map g L)) \<Longrightarrow> distinct (concat (map g (remove1 a L)))"
proof (induction L)
  case (Cons b L)
  have "set (concat (map g (remove1 a L))) \<subseteq> set (concat (map g L))" using set_remove1_subset [of a L] by auto
  then show ?case using Cons by auto
qed simp

lemma obj_ok_ready:
  assumes "obj_ok s L" "a \<in> set L" "r_mem s a = Some r" "cleanup_resource r = Some d" shows "ready d (res_data r) s"
proof -
  note D = obj_okD [OF assms(1)]
  have of: "owned_files s a = files_of d (res_data r) s" using assms(3,4) by (simp add: owned_files_def)
  obtain L1 L2 where L: "L = L1 @ a # L2" using assms(2) by (metis split_list)
  have "files_ok (files_of d (res_data r) s) (os s)"
    using D(4) [OF assms(2)] D(5) L unfolding files_ok_def of owned_def by (auto simp: owned_def of)
  moreover have "\<exists>q. r_mem s c = Some q \<and> (\<forall>p. res_rundir q = Some p \<longrightarrow> strs (os s) p \<noteq> None)"
    if "back_of d (res_data r) s = Some c" for c
  proof -
    have "c = a" using D(3) [OF assms(2,3)] assms(4) that unfolding object_ok_def by auto
    then show ?thesis using res_okD(7) [OF D(1)] assms(2,3) unfolding rundirs_ok_def by (auto simp: rundir_of_def)
  qed
  moreover have "has_object d (res_data r) s" using D(3) [OF assms(2,3)] assms(4) unfolding object_ok_def by blast
  ultimately show ?thesis
    using D(6) [OF assms(2)] unfolding ready_def back_ok_def owned_def of by blast
qed

text \<open>Destroying a resource that no session uses releases what its object owns, and keeps the others.\<close>

lemma destroy_object:
  assumes ok: "obj_ok s L" and i: "r_initialized s" and v: "virtio s = None" and a: "a \<in> set L"
    and r: "r_mem s a = Some r" "refcount r = 0"
  obtains s' where "resource_destroy call_destructor (Some a) s = Some (VACCEL_OK, s')" "obj_ok s' (remove1 a L)"
    "r_mem s' = r_mem s" "r_initialized s'" "virtio s' = None" "same_objects s s'" "free_ids (r_pool s') = res_id r # free_ids (r_pool s)"
    "\<forall>f\<in>set (owned_files s a). gone (os s') f" "frees (set (owned s a) \<union> set_option (res_rundir r)) (os s) (os s')"
    "\<And>p. res_rundir r = Some p \<Longrightarrow> strs (os s') p = None"
proof -
  note D = obj_okD [OF ok]
  have rdy: "\<And>d. cleanup_resource r = Some d \<Longrightarrow> ready d (res_data r) s" by (rule obj_ok_ready [OF ok a r(1)])
  obtain s' p h s2 o' where run: "resource_destroy call_destructor (Some a) s = Some (VACCEL_OK, s')"
    and k: "res_ok s' (remove1 a L)" "r_mem s' = r_mem s" "r_initialized s'" "virtio s' = None"
      "free_ids (r_pool s') = res_id r # free_ids (r_pool s)"
    and s2: "(case cleanup_resource r of None \<Rightarrow> Some (s\<lparr>r_pool := p, r_links := h\<rparr>)
      | Some d \<Rightarrow> call_destructor d (res_data r) (s\<lparr>r_pool := p, r_links := h\<rparr>)) = Some s2"
    and o': "s' = s2\<lparr>os := o'\<rparr>" "strs o' = (case res_rundir r of None \<Rightarrow> strs (os s2) | Some q \<Rightarrow> (strs (os s2))(q := None))"
      "maps o' = maps (os s2)" "alloc_next o' = alloc_next (os s2)" "alloc_ok o' = alloc_ok (os s2)"
    by (rule exE [OF objects.destroy_unused [OF D(1) i v a r]], erule rdy, elim exE conjE, rule that)
  let ?s1 = "s\<lparr>r_pool := p, r_links := h\<rparr>"
  have so: "same_objects s ?s1" by (simp add: same_objects_def)
  obtain o1 where o1: "s2 = ?s1\<lparr>os := o1\<rparr>" "frees (set (owned s a)) (os s) o1" "\<forall>f\<in>set (owned_files s a). gone o1 f"
  proof (cases "cleanup_resource r")
    case None
    then show thesis using that [of "os s"] s2 r(1) by (simp add: owned_files_def)
  next
    case (Some d)
    have fo: "owned_files s a = files_of d (res_data r) s" using r(1) Some by (simp add: owned_files_def)
    obtain o1 where "call_destructor d (res_data r) ?s1 = Some (?s1\<lparr>os := o1\<rparr>)"
      "frees (blocks_of (files_of d (res_data r) ?s1)) (os ?s1) o1" "\<forall>f\<in>set (files_of d (res_data r) ?s1). gone o1 f"
      by (rule call_destructor_ok [OF ready_core [OF rdy [OF Some]]])
    then show thesis using that [of o1] s2 Some unfolding object_cong [OF so] owned_def fo by simp
  qed
  have sh: "s' = ?s1\<lparr>os := o'\<rparr>" using o'(1) o1(1) by simp
  have same: "same_objects s s'" unfolding sh by (simp add: same_objects_def)
  have os2: "os s2 = o1" using o1(1) by simp
  have "frees (set_option (res_rundir r)) o1 o'"
    using o'(2-5) unfolding os2 frees_def by (auto simp: map_le_def split: option.splits)
  then have fr: "frees (set (owned s a) \<union> set_option (res_rundir r)) (os s) o'" by (rule frees_trans [OF o1(2)])
  have go: "\<forall>f\<in>set (owned_files s a). gone o' f"
    using o1(3) frees_gone [OF \<open>frees (set_option (res_rundir r)) o1 o'\<close>] by blast
  note eq = owned_cong [OF same k(2)]
  have L': "set (remove1 a L) \<subseteq> set L - {a}" using res_ok_distinct [OF D(1)] by (auto simp: set_remove1_eq)
  have "obj_ok s' (remove1 a L)"
    unfolding obj_ok_def eq k(2)
  proof (intro conjI ballI allI impI)
    show "res_ok s' (remove1 a L)" by (rule k(1))
    show "heap_ok (os s')" using frees_heap_ok [OF fr D(2)] unfolding sh by simp
    show "distinct (concat (map (owned s) (remove1 a L)))" by (rule distinct_concat_remove1 [OF D(5)])
    fix b assume b: "b \<in> set (remove1 a L)"
    then have bL: "b \<in> set L" "b \<noteq> a" using L' by auto
    fix q assume "r_mem s b = Some q" then show "object_ok s b q" using D(3) bL by blast
  next
    fix b f assume b: "b \<in> set (remove1 a L)" and f: "f \<in> set (owned_files s b)"
    then have bL: "b \<in> set L" "b \<noteq> a" using L' by auto
    have sub: "set (blocks f) \<subseteq> set (owned s b)" using f by (auto simp: owned_def)
    then have "set (blocks f) \<inter> set (owned s a) = {}" using owned_disjoint [OF D(5) a bL] by blast
    moreover have "rundir_of s a = res_rundir r" using r(1) by (simp add: rundir_of_def)
    then have "set (blocks f) \<inter> set_option (res_rundir r) = {}" using D(6) [OF bL(1), of _ a] sub by (cases "res_rundir r") auto
    ultimately have "set (blocks f) \<inter> (set (owned s a) \<union> set_option (res_rundir r)) = {}" by blast
    then show "file_ok f (os s')" using frees_file_ok [OF fr D(4) [OF bL(1) f]] unfolding sh by simp
  next
    fix b x c assume b: "b \<in> set (remove1 a L)" and x: "x \<in> set (owned s b)"
    have "rundir_of s' c = rundir_of s c" unfolding rundir_of_def k(2) by simp
    then show "rundir_of s' c \<noteq> Some x" using D(6) x L' b by auto
  next
    fix b q assume q: "r_mem s b = Some q"
    have "alloc_next (os s') = alloc_next (os s)" using fr unfolding sh frees_def by simp
    then show "b < alloc_next (os s')" "\<And>p. res_rundir q = Some p \<Longrightarrow> p < alloc_next (os s')" using D(7,8) [OF q] by simp_all
  qed
  moreover have "os s' = o'" unfolding sh by simp
  moreover have "strs o' p = None" if "res_rundir r = Some p" for p using o'(2) that by simp
  ultimately show thesis using that [OF run _ k(2,3,4) same k(5)] go fr by simp
qed


subsection \<open>Releasing everything\<close>

definition held :: "'z obj_state_scheme \<Rightarrow> addr \<Rightarrow> addr set" where
  "held s a = set (owned s a) \<union> set_option (rundir_of s a)"

text \<open>What has happened when the resources that are in \<open>L0\<close> but not in \<open>L\<close> have been destroyed.\<close>

definition swept :: "'z obj_state_scheme \<Rightarrow> addr list \<Rightarrow> addr list \<Rightarrow> 'z obj_state_scheme \<Rightarrow> bool" where
  "swept s L0 L s' \<longleftrightarrow> obj_ok s' L \<and> r_initialized s' \<and> virtio s' = None \<and> r_mem s' = r_mem s \<and> same_objects s s'
     \<and> (\<forall>a\<in>set L. refs_of s a = 0) \<and> set L \<subseteq> set L0
     \<and> (\<forall>a\<in>set L0 - set L. (\<forall>f\<in>set (owned_files s a). gone (os s') f) \<and> (\<forall>p. rundir_of s a = Some p \<longrightarrow> strs (os s') p = None))
     \<and> frees (\<Union>a\<in>set L0. held s a) (os s) (os s')"

lemma frees_mono: "frees A s s' \<Longrightarrow> A \<subseteq> B \<Longrightarrow> frees B s s'"
  unfolding frees_def by blast

lemma same_objects_trans: "same_objects s t \<Longrightarrow> same_objects t u \<Longrightarrow> same_objects s u"
  by (simp add: same_objects_def)

lemma swept_step:
  assumes "swept s L0 (a # L) t"
  shows "\<exists>t'. resource_destroy call_destructor (Some a) t = Some (VACCEL_OK, t') \<and> swept s L0 L t'"
proof -
  have ok: "obj_ok t (a # L)" and i: "r_initialized t" and v: "virtio t = None" and m: "r_mem t = r_mem s" and so: "same_objects s t"
    and refs: "\<forall>b\<in>set (a # L). refs_of s b = 0" and sub: "set (a # L) \<subseteq> set L0"
    and go: "\<forall>b\<in>set L0 - set (a # L). (\<forall>f\<in>set (owned_files s b). gone (os t) f) \<and> (\<forall>p. rundir_of s b = Some p \<longrightarrow> strs (os t) p = None)"
    and fr: "frees (\<Union>b\<in>set L0. held s b) (os s) (os t)"
    using assms unfolding swept_def by - (elim conjE, assumption)+
  obtain r where r: "r_mem t a = Some r" using res_okD(4) [OF obj_okD(1) [OF ok], of a] by auto
  have r0: "refcount r = 0" using refs r m by (simp add: refs_of_def)
  obtain t' where t': "resource_destroy call_destructor (Some a) t = Some (VACCEL_OK, t')" "obj_ok t' (remove1 a (a # L))"
    "r_mem t' = r_mem t" "r_initialized t'" "virtio t' = None" "same_objects t t'"
    "\<forall>f\<in>set (owned_files t a). gone (os t') f" "frees (set (owned t a) \<union> set_option (res_rundir r)) (os t) (os t')"
    "\<And>p. res_rundir r = Some p \<Longrightarrow> strs (os t') p = None"
    by (rule destroy_object [OF ok i v _ r r0]) (simp, rule that)
  note eq = owned_cong [OF so m]
  have rd: "rundir_of s a = res_rundir r" using r m by (simp add: rundir_of_def)
  have fr': "frees (\<Union>b\<in>set L0. held s b) (os t) (os t')"
    by (rule frees_mono [OF t'(8)]) (use sub rd eq in \<open>auto simp: held_def\<close>)
  have "(\<forall>f\<in>set (owned_files s b). gone (os t') f) \<and> (\<forall>p. rundir_of s b = Some p \<longrightarrow> strs (os t') p = None)"
    if b: "b \<in> set L0 - set L" for b
  proof (cases "b = a")
    case True
    then show ?thesis using t'(7,9) rd eq by simp
  next
    case False
    then have "b \<in> set L0 - set (a # L)" using b by simp
    note o = bspec [OF go this]
    have "strs (os t') \<subseteq>\<^sub>m strs (os t)" using fr' by (simp add: frees_def)
    note gl = frees_gone [OF fr'] and nl = map_le_None [OF this]
    show ?thesis
    proof (intro conjI ballI allI impI)
      show "gone (os t') f" if "f \<in> set (owned_files s b)" for f by (rule gl, rule bspec [OF conjunct1 [OF o] that])
      show "strs (os t') p = None" if "rundir_of s b = Some p" for p by (rule nl, rule mp [OF spec [OF conjunct2 [OF o]] that])
    qed
  qed
  moreover have "frees (\<Union>b\<in>set L0. held s b) (os s) (os t')" using frees_trans [OF fr fr'] by simp
  moreover have "r_mem t' = r_mem s" using t'(3) m by simp
  ultimately have "swept s L0 L t'"
    unfolding swept_def using t'(2,4,5) same_objects_trans [OF so t'(6)] refs sub by (intro conjI) simp_all
  then show ?thesis using t'(1) by blast
qed

interpretation sweep: resource_sweep call_destructor "swept s L0" for s L0
proof
  show "swept s L0 L t \<Longrightarrow> res_ok t L" for L t using obj_okD(1) by (auto simp: swept_def)
  show "swept s L0 L t \<Longrightarrow> r_initialized t" for L t by (simp add: swept_def)
qed (rule swept_step)

subsection \<open>Making new objects\<close>

text \<open>A step that touches only heap blocks that are new.\<close>

definition grows :: "os_state \<Rightarrow> os_state \<Rightarrow> bool" where
  "grows s s' \<longleftrightarrow> (\<forall>x<alloc_next s. strs s' x = strs s x \<and> maps s' x = maps s x) \<and> alloc_next s \<le> alloc_next s' \<and> heap_ok s'"

lemma grows_refl: "heap_ok s \<Longrightarrow> grows s s"
  by (simp add: grows_def)

lemma grows_trans: "grows s t \<Longrightarrow> grows t u \<Longrightarrow> grows s u"
  unfolding grows_def by (metis less_le_trans order_trans)

lemma heap_ok_below: "heap_ok s \<Longrightarrow> strs s x \<noteq> None \<Longrightarrow> x < alloc_next s" "heap_ok s \<Longrightarrow> maps s x \<noteq> None \<Longrightarrow> x < alloc_next s"
  unfolding heap_ok_def by (metis not_le)+

lemma blocks_below:
  assumes "heap_ok s" "file_ok f s" "x \<in> set (blocks f)" shows "x < alloc_next s"
proof (cases "f_path f")
  case None
  then show ?thesis using assms(3) by (simp add: blocks_def)
next
  case (Some p)
  then have "strs s p \<noteq> None" "\<And>m. f_data f = Mapped m \<Longrightarrow> maps s m \<noteq> None" using assms(2) by (simp_all add: file_ok_def)
  then show ?thesis using assms(1,3) Some heap_ok_below by (cases "f_data f") (auto simp: blocks_def)
qed

lemma grows_file_ok:
  assumes "grows s s'" "heap_ok s" "file_ok f s" shows "file_ok f s'"
proof (cases "f_path f")
  case None
  then show ?thesis by (simp add: file_ok_def)
next
  case (Some p)
  have eq: "strs s' x = strs s x" "maps s' x = maps s x" if "x < alloc_next s" for x using assms(1) that by (simp_all add: grows_def)
  have "strs s p \<noteq> None" "\<And>m. f_data f = Mapped m \<Longrightarrow> maps s m \<noteq> None" using assms(3) Some by (simp_all add: file_ok_def)
  then show ?thesis using eq heap_ok_below [OF assms(2)] assms(3) Some by (cases "f_data f") (simp_all add: file_ok_def)
qed

text \<open>
  The step of an operation that makes the resource \<open>n\<close>: what was live keeps its resource, its files
  and the resource they point back to; all other blocks are new.
\<close>

lemma obj_ok_grow:
  assumes ok: "obj_ok s L" and res: "res_ok s' (L @ N)" and g: "grows (os s) (os s')"
    and old: "\<And>a. a \<in> set L \<Longrightarrow> r_mem s' a = r_mem s a \<and> owned_files s' a = owned_files s a \<and> (\<forall>r. r_mem s a = Some r \<longrightarrow> object_ok s' a r)"
    and rd: "\<And>b p. rundir_of s' b = Some p \<Longrightarrow> (rundir_of s b = Some p \<or> alloc_next (os s) \<le> p) \<and> p < alloc_next (os s')"
    and dom: "\<And>b. r_mem s' b \<noteq> None \<Longrightarrow> b < alloc_next (os s')"
    and new: "\<And>a. a \<in> set N \<Longrightarrow> (\<forall>r. r_mem s' a = Some r \<longrightarrow> object_ok s' a r) \<and> (\<forall>f\<in>set (owned_files s' a). file_ok f (os s'))
      \<and> (\<forall>x\<in>set (owned s' a). alloc_next (os s) \<le> x \<and> (\<forall>b. rundir_of s' b \<noteq> Some x))"
    and dist: "distinct (concat (map (owned s') N))"
  shows "obj_ok s' (L @ N)"
proof -
  note D = obj_okD [OF ok]
  have own: "owned s' a = owned s a" if "a \<in> set L" for a using old [OF that] by (simp add: owned_def)
  have below: "x < alloc_next (os s)" if "a \<in> set L" "x \<in> set (owned s a)" for a x
    using blocks_below [OF D(2) D(4)] that unfolding owned_def by auto
  have mapL: "map (owned s') L = map (owned s) L" using own by simp
  show ?thesis
    unfolding obj_ok_def
  proof (intro conjI ballI allI impI)
    show "res_ok s' (L @ N)" by (rule res)
    show "heap_ok (os s')" using g by (simp add: grows_def)
    fix a assume a: "a \<in> set (L @ N)"
    show "object_ok s' a r" if "r_mem s' a = Some r" for r using a old [of a] new [of a] that by auto
    show "file_ok f (os s')" if f: "f \<in> set (owned_files s' a)" for f
    proof (cases "a \<in> set L")
      case True
      then show ?thesis using old [OF True] D(4) [OF True] f grows_file_ok [OF g D(2)] by simp
    next
      case False
      then show ?thesis using a new [of a] f by simp
    qed
    show "rundir_of s' b \<noteq> Some x" if x: "x \<in> set (owned s' a)" for x b
    proof (cases "a \<in> set L")
      case True
      then have "x \<in> set (owned s a)" using own x by simp
      then have "rundir_of s b \<noteq> Some x" "\<not> alloc_next (os s) \<le> x" using D(6) [OF True] below [OF True] by (blast, simp add: not_le)
      then show ?thesis using rd [of b x] by blast
    next
      case False
      then show ?thesis using a new [of a] x by simp
    qed
  next
    have "set (concat (map (owned s) L)) \<inter> set (concat (map (owned s') N)) = {}" using below new by fastforce
    then show "distinct (concat (map (owned s') (L @ N)))" using D(5) dist unfolding map_append concat_append distinct_append mapL by blast
  next
    fix b r assume r: "r_mem s' b = Some r"
    then show "b < alloc_next (os s')" using dom [of b] by simp
    show "p < alloc_next (os s')" if "res_rundir r = Some p" for p using rd [of b p] r that by (simp add: rundir_of_def)
  qed
qed

lemma malloc_res_cases:
  obtains "malloc_res s = (None, s\<lparr>os := (os s)\<lparr>alloc_next := Suc (alloc_next (os s))\<rparr>\<rparr>)" "\<not> alloc_ok (os s) (alloc_next (os s))"
  | "malloc_res s = (Some (alloc_next (os s)), s\<lparr>os := (os s)\<lparr>alloc_next := Suc (alloc_next (os s))\<rparr>,
      r_mem := (r_mem s)(alloc_next (os s) \<mapsto> blank_resource), r_links := add_entry (ResEntry (alloc_next (os s))) RNull (r_links s)\<rparr>)"
     "alloc_ok (os s) (alloc_next (os s))"
proof (cases "alloc_ok (os s) (alloc_next (os s))")
  case True
  then show thesis by (intro that(2)) (simp_all add: malloc_res_def os_call_def malloc_def)
next
  case False
  then show thesis by (intro that(1)) (simp_all add: malloc_res_def os_call_def malloc_def)
qed

lemma heap_ok_skip: "heap_ok o1 \<Longrightarrow> grows o1 (o1\<lparr>alloc_next := Suc (alloc_next o1)\<rparr>)"
  by (simp add: grows_def heap_ok_def)

text \<open>A resource that is not live can be changed at will: allocated, freed, given other fields.\<close>

lemma res_ok_other:
  assumes ok: "res_ok s L" and c: "c \<notin> set L"
    and links: "r_links s' = r_links s \<or> r_links s' = add_entry (ResEntry c) v (r_links s) \<or> r_links s' = del_entry (ResEntry c) (r_links s)"
    and m: "\<And>b. b \<noteq> c \<Longrightarrow> r_mem s' b = r_mem s b" and p: "r_pool s' = r_pool s"
    and rd: "\<And>a q. a \<in> set L \<Longrightarrow> rundir_of s a = Some q \<Longrightarrow> strs (os s') q = strs (os s) q"
  shows "res_ok s' L"
proof -
  note D = res_okD [OF ok]
  have eq: "rid_of s' a = rid_of s a" "rundir_of s' a = rundir_of s a" "r_mem s' a = r_mem s a" if "a \<in> set L" for a
  proof -
    have "a \<noteq> c" using that c by blast
    from m [OF this] show "rid_of s' a = rid_of s a" "rundir_of s' a = rundir_of s a" "r_mem s' a = r_mem s a"
      by (simp_all add: rid_of_def rundir_of_def)
  qed
  have nc: "ResEntry c \<notin> cover (live_fam L)" using c by (auto simp: live_cover)
  have f: "family (r_links s') (live_fam L)" using links family_add_entry [OF D(1) nc] family_del_entry [OF D(1) nc] D(1) by auto
  have i: "inj_on (rid_of s') (set L)" using D(5) eq(1) by (simp add: inj_on_def)
  have u: "used_ids (r_pool s') = rid_of s' ` set L" using D(6) eq(1) p by (simp cong: image_cong)
  have "rundirs_ok s' L"
    unfolding rundirs_ok_def
  proof (intro ballI allI impI conjI)
    fix a q assume a: "a \<in> set L" and q: "rundir_of s' a = Some q"
    then have q': "rundir_of s a = Some q" using eq(2) by simp
    show "strs (os s') q \<noteq> None" using D(7) a q' rd [OF a q'] unfolding rundirs_ok_def by metis
    show "b = a" if "b \<in> set L" "rundir_of s' b = Some q" for b using D(7) a q' that eq(2) unfolding rundirs_ok_def by metis
  qed
  moreover have "set L \<subseteq> dom (r_mem s')" using D(4) eq(3) by (auto simp: domIff)
  ultimately show ?thesis unfolding res_ok_def using f i u D(2,3) p by simp
qed

lemma res_rundirs_kept:
  assumes "obj_ok s L" "grows (os s) (os s')" "rundir_of s a = Some q" shows "strs (os s') q = strs (os s) q"
proof -
  obtain r where "r_mem s a = Some r" "res_rundir r = Some q" using assms(3) by (auto simp: rundir_of_def split: option.splits)
  then show ?thesis using obj_okD(8) [OF assms(1)] assms(2) by (auto simp: grows_def)
qed

text \<open>\<open>resource_create_rundir\<close> of a live resource without a directory.\<close>

lemma create_rundir_ok:
  assumes r: "r_mem s a = Some r" "res_rundir r = None"
  obtains (failed) ret o' where "resource_create_rundir (Some a) s = Some (ret, s\<lparr>os := o'\<rparr>)" "ret \<noteq> 0"
      "strs o' = strs (os s)" "maps o' = maps (os s)" "alloc_next (os s) \<le> alloc_next o'" "alloc_ok o' = alloc_ok (os s)"
    | (made) o' path where "resource_create_rundir (Some a) s =
        Some (VACCEL_OK, s\<lparr>os := o', r_mem := (r_mem s)(a \<mapsto> r\<lparr>res_rundir := Some (alloc_next (os s))\<rparr>)\<rparr>)"
      "strs o' = (strs (os s))(alloc_next (os s) \<mapsto> path)" "maps o' = maps (os s)" "alloc_next o' = Suc (alloc_next (os s))"
      "alloc_ok o' = alloc_ok (os s)"
proof -
  obtain len path where sn: "snprintf MAX_RESOURCE_RUNDIR (vaccel_rundir s @ ''/resource.'' @ int_digits (res_id r)) = (len, path)"
    by (cases "snprintf MAX_RESOURCE_RUNDIR (vaccel_rundir s @ ''/resource.'' @ int_digits (res_id r))")
  have short: "take MAX_RESOURCE_RUNDIR path = path" using sn by (auto simp: snprintf_def)
  have idem: "(r_mem s)(a \<mapsto> r\<lparr>res_rundir := None\<rparr>) = r_mem s" using r by (simp add: fun_upd_idem)
  show thesis
  proof (cases "len = MAX_RESOURCE_RUNDIR")
    case True
    then show thesis using failed [of VACCEL_ENAMETOOLONG "os s"] r sn by (simp add: resource_create_rundir_def)
  next
    case len: False
    obtain n o1 where m: "mkdir path (os s) = (n, o1)" by (cases "mkdir path (os s)")
    have h: "heap_of o1 = heap_of (os s)" using heap_of_mkdir [of path "os s"] m by simp
    note hd = heap_ofD [OF h]
    show thesis
    proof (cases "n = 0")
      case False
      then show thesis using failed [of "errno o1" o1] mkdir_failed [OF m False] r sn len m hd
        by (simp add: resource_create_rundir_def os_call_def)
    next
      case True
      show thesis
      proof (cases rule: new_str_cases [of path o1])
        case 1
        then show thesis using failed [of VACCEL_ENOMEM "o1\<lparr>alloc_next := Suc (alloc_next o1)\<rparr>"] r sn len m True hd short idem
          by (simp add: resource_create_rundir_def os_call_def strndup_def r_set_def)
      next
        case 2
        then show thesis
          using made [of "o1\<lparr>alloc_next := Suc (alloc_next o1), strs := (strs o1)(alloc_next o1 \<mapsto> path)\<rparr>" path] r sn len m True hd short
          by (simp add: resource_create_rundir_def os_call_def strndup_def r_set_def)
      qed
    qed
  qed
qed

lemma obj_ok_same:
  assumes ok: "obj_ok s L" and so: "same_objects s t" and m: "r_mem t = r_mem s" and res: "res_ok t L" and g: "grows (os s) (os t)"
  shows "obj_ok t L"
proof -
  note D = obj_okD [OF ok] and eq = owned_cong [OF so m]
  have rd: "rundir_of t = rundir_of s" using m by (simp add: rundir_of_def fun_eq_iff)
  have al: "alloc_next (os s) \<le> alloc_next (os t)" using g by (simp add: grows_def)
  have "obj_ok t (L @ [])"
  proof (rule obj_ok_grow [OF ok _ g])
    show "res_ok t (L @ [])" using res by simp
    fix a assume a: "a \<in> set L"
    show "r_mem t a = r_mem s a \<and> owned_files t a = owned_files s a \<and> (\<forall>r. r_mem s a = Some r \<longrightarrow> object_ok t a r)"
      unfolding eq using D(3) [OF a] m by simp
  next
    fix b p assume "rundir_of t b = Some p"
    then have p: "rundir_of s b = Some p" using rd by simp
    then obtain r where "r_mem s b = Some r" "res_rundir r = Some p" by (auto simp: rundir_of_def split: option.splits)
    then have "p < alloc_next (os s)" by (rule D(8))
    then show "(rundir_of s b = Some p \<or> alloc_next (os s) \<le> p) \<and> p < alloc_next (os t)" using p al by simp
  next
    fix b assume "r_mem t b \<noteq> None"
    then have "b < alloc_next (os s)" using D(7) [of b] m by auto
    then show "b < alloc_next (os t)" using al by simp
  qed simp_all
  then show ?thesis by simp
qed

lemma free_res_ok:
  assumes ok: "obj_ok s L" and c: "c \<notin> set L" "r_mem s c \<noteq> None"
  obtains s' where "free_res (Some c) s = Some s'" "obj_ok s' L" "r_mem s' = (r_mem s)(c := None)" "same_objects s s'"
    "os s' = os s" "r_pool s' = r_pool s" "virtio s' = virtio s" "r_initialized s' = r_initialized s"
proof -
  note D = obj_okD [OF ok]
  let ?s = "s\<lparr>r_mem := (r_mem s)(c := None), r_links := del_entry (ResEntry c) (r_links s)\<rparr>"
  have so: "same_objects s ?s" by (simp add: same_objects_def)
  have res: "res_ok ?s L" by (rule res_ok_other [OF D(1) c(1)]) simp_all
  have rd: "rundir_of ?s b = Some p \<Longrightarrow> rundir_of s b = Some p" for b p by (simp add: rundir_of_def split: if_splits)
  have "obj_ok ?s (L @ [])"
  proof (rule obj_ok_grow [OF ok])
    show "res_ok ?s (L @ [])" using res by simp
    show "grows (os s) (os ?s)" using grows_refl [OF D(2)] by simp
    fix a assume a: "a \<in> set L"
    then have m: "r_mem ?s a = r_mem s a" using c(1) by auto
    have "owned_files ?s a = owned_files s a" unfolding owned_files_def m object_cong [OF so] ..
    moreover have "object_ok ?s a r = object_ok s a r" for r unfolding object_ok_def object_cong [OF so] ..
    ultimately show "r_mem ?s a = r_mem s a \<and> owned_files ?s a = owned_files s a \<and> (\<forall>r. r_mem s a = Some r \<longrightarrow> object_ok ?s a r)"
      using D(3) [OF a] m by simp
  next
    fix b p assume "rundir_of ?s b = Some p"
    then have p: "rundir_of s b = Some p" by (rule rd)
    then obtain r where "r_mem s b = Some r" "res_rundir r = Some p" by (auto simp: rundir_of_def split: option.splits)
    then show "(rundir_of s b = Some p \<or> alloc_next (os s) \<le> p) \<and> p < alloc_next (os ?s)" using p D(8) by simp
  next
    fix b assume "r_mem ?s b \<noteq> None"
    then show "b < alloc_next (os ?s)" using D(7) [of b] by (auto split: if_splits)
  qed simp_all
  moreover have "free_res (Some c) s = Some ?s" using c(2) by (simp add: free_res_def)
  ultimately show thesis using that [of ?s] so by simp
qed

end
