(* ===== verification/Shared_Objects.thy ===== *)
theory Shared_Objects
  imports Objects
begin

text \<open>
  Shared objects (\<^verbatim>\<open>src/src/resources/shared_object.c\<close>) and TensorFlow models
  (\<^verbatim>\<open>src/src/resources/tf_model.c\<close>): a resource with one file, made from a path or from a buffer that
  is persisted in the resource's directory. The two files of the source differ in the resource
  type, the destructor and the name of the persisted file only, which is the \<open>kind\<close> here.
\<close>

subsection \<open>The two kinds of object\<close>

datatype kind = Shared_Obj | Tf_Model

definition kind_type :: "kind \<Rightarrow> nat" where
  "kind_type k = (case k of Shared_Obj \<Rightarrow> VACCEL_RES_SHARED_OBJ | Tf_Model \<Rightarrow> VACCEL_RES_TF_MODEL)"

definition kind_destructor :: "kind \<Rightarrow> destructor" where
  "kind_destructor k = (case k of Shared_Obj \<Rightarrow> Shared_Object_Destructor | Tf_Model \<Rightarrow> Tf_Model_Destructor)"

definition kind_file :: "kind \<Rightarrow> string \<times> bool" where
  "kind_file k = (case k of Shared_Obj \<Rightarrow> (''lib.so'', True) | Tf_Model \<Rightarrow> (''model.pb'', False))"

definition obj_mem :: "kind \<Rightarrow> 'z obj_state_scheme \<Rightarrow> addr \<Rightarrow> file_object option" where
  "obj_mem k s = (case k of Shared_Obj \<Rightarrow> so_mem s | Tf_Model \<Rightarrow> tfm_mem s)"

definition set_obj :: "kind \<Rightarrow> addr \<Rightarrow> file_object \<Rightarrow> 'z obj_state_scheme \<Rightarrow> 'z obj_state_scheme" where
  "set_obj k a x s = (case k of Shared_Obj \<Rightarrow> s\<lparr>so_mem := (so_mem s)(a \<mapsto> x)\<rparr> | Tf_Model \<Rightarrow> s\<lparr>tfm_mem := (tfm_mem s)(a \<mapsto> x)\<rparr>)"

subsection \<open>Operations\<close>

text \<open>Running a file operation on the file of an object, which it writes.\<close>

definition obj_file_op :: "kind \<Rightarrow> addr \<Rightarrow> (vaccel_file option \<Rightarrow> os_state \<Rightarrow> ('r \<times> vaccel_file option \<times> os_state) option)
    \<Rightarrow> 'z obj_state_scheme \<Rightarrow> ('r \<times> 'z obj_state_scheme) option" where
  "obj_file_op k a f s = do {
     x \<leftarrow> obj_mem k s a;
     (ret, file, o') \<leftarrow> f (Some (o_file x)) (os s);
     file \<leftarrow> file;
     Some (ret, set_obj k a (x\<lparr>o_file := file\<rparr>) (s\<lparr>os := o'\<rparr>)) }"

definition object_new :: "kind \<Rightarrow> ptr \<Rightarrow> string option \<Rightarrow> 'z obj_state_scheme \<Rightarrow> (int \<times> 'z obj_state_scheme) option" where
  "object_new k object path s = (case malloc_res s of
       (None, s) \<Rightarrow> Some (VACCEL_ENOMEM, s)
     | (Some res, s) \<Rightarrow> do {
         a \<leftarrow> object;
         (ret, s) \<leftarrow> obj_file_op k a (\<lambda>file o'. Some (vaccel_file_new file path o')) s;
         if ret \<noteq> 0 then do { s \<leftarrow> free_res (Some res) s; Some (ret, s) }
         else do {
           (ret, s) \<leftarrow> resource_new (Some res) (kind_type k) (Some a) (Some (kind_destructor k)) s;
           x \<leftarrow> obj_mem k s a;
           if ret \<noteq> 0
           then do { s \<leftarrow> destroy_file (o_file x) s; s \<leftarrow> free_res (Some res) s; Some (ret, s) }
           else Some (VACCEL_OK, set_obj k a (x\<lparr>o_resource := Some res\<rparr>) s) } })"

text \<open>The labels \<open>destroy_resource\<close>, \<open>destroy_file\<close> and \<open>free_resource\<close>, entered at the first.\<close>

definition undo_object :: "kind \<Rightarrow> addr \<Rightarrow> addr \<Rightarrow> 'z obj_state_scheme \<Rightarrow> 'z obj_state_scheme option" where
  "undo_object k a res s = do {
     (_, s) \<leftarrow> resource_destroy call_destructor (Some res) s;
     x \<leftarrow> obj_mem k s a;
     s \<leftarrow> destroy_file (o_file x) s;
     free_res (Some res) s }"

definition object_new_from_buffer :: "kind \<Rightarrow> ptr \<Rightarrow> dataptr \<Rightarrow> nat \<Rightarrow> 'z obj_state_scheme \<Rightarrow> (int \<times> 'z obj_state_scheme) option" where
  "object_new_from_buffer k object buff len s = (case object of
       None \<Rightarrow> Some (VACCEL_EINVAL, s)
     | Some a \<Rightarrow>
       if buff = DNull \<or> len = 0 then Some (VACCEL_EINVAL, s)
       else (case malloc_res s of
         (None, s) \<Rightarrow> Some (VACCEL_ENOMEM, s)
       | (Some res, s) \<Rightarrow> do {
           (ret, s) \<leftarrow> obj_file_op k a (\<lambda>file. vaccel_file_from_buffer file buff len None False None False) s;
           if ret \<noteq> 0 then do { s \<leftarrow> free_res (Some res) s; Some (ret, s) }
           else do {
             (ret, s) \<leftarrow> resource_new (Some res) (kind_type k) (Some a) (Some (kind_destructor k)) s;
             x \<leftarrow> obj_mem k s a;
             if ret \<noteq> 0
             then do { s \<leftarrow> destroy_file (o_file x) s; s \<leftarrow> free_res (Some res) s; Some (ret, s) }
             else do {
               (ret, s) \<leftarrow> resource_create_rundir (Some res) s;
               if ret \<noteq> 0 then do { s \<leftarrow> undo_object k a res s; Some (ret, s) }
               else do {
                 r \<leftarrow> r_mem s res;
                 let (name, randomize) = kind_file k;
                 rd \<leftarrow> get_str (res_rundir r) (os s);
                 (ret, s) \<leftarrow> obj_file_op k a (\<lambda>file. vaccel_file_persist file (Some rd) (Some name) randomize) s;
                 if ret \<noteq> 0 then do { s \<leftarrow> undo_object k a res s; Some (ret, s) }
                 else do {
                   x \<leftarrow> obj_mem k s a;
                   Some (VACCEL_OK, set_obj k a (x\<lparr>o_resource := Some res\<rparr>) s) } } } } }))"

definition object_get :: "kind \<Rightarrow> ptr \<Rightarrow> 'z obj_state_scheme \<Rightarrow> ((dataptr \<times> nat option) \<times> 'z obj_state_scheme) option" where
  "object_get k object s = (case object of
       None \<Rightarrow> Some ((DNull, None), s)
     | Some a \<Rightarrow> obj_file_op k a vaccel_file_data s)"

text \<open>The debug message reads the id of the resource; \<open>resource_destroy\<close>'s result is dropped.\<close>

definition object_destroy :: "kind \<Rightarrow> ptr \<Rightarrow> 'z obj_state_scheme \<Rightarrow> (int \<times> 'z obj_state_scheme) option" where
  "object_destroy k object s = (case object of
       None \<Rightarrow> Some (VACCEL_EINVAL, s)
     | Some a \<Rightarrow> do {
         x \<leftarrow> obj_mem k s a;
         res \<leftarrow> o_resource x;
         r \<leftarrow> r_mem s res;
         (_, s) \<leftarrow> resource_destroy call_destructor (Some res) s;
         x \<leftarrow> obj_mem k s a;
         s \<leftarrow> free_res (o_resource x) s;
         Some (VACCEL_OK, s) })"

definition object_get_id :: "kind \<Rightarrow> ptr \<Rightarrow> 'z obj_state_scheme \<Rightarrow> int option" where
  "object_get_id k object s = (case object of
       None \<Rightarrow> Some (- 1)
     | Some a \<Rightarrow> do {
         x \<leftarrow> obj_mem k s a;
         case o_resource x of None \<Rightarrow> Some (- 1) | Some res \<Rightarrow> do { r \<leftarrow> r_mem s res; Some (res_id r) } })"

text \<open>The functions of the two source files.\<close>

definition vaccel_shared_object_new :: "ptr \<Rightarrow> string option \<Rightarrow> 'z obj_state_scheme \<Rightarrow> (int \<times> 'z obj_state_scheme) option" where
  "vaccel_shared_object_new = object_new Shared_Obj"

definition vaccel_shared_object_new_from_buffer :: "ptr \<Rightarrow> dataptr \<Rightarrow> nat \<Rightarrow> 'z obj_state_scheme \<Rightarrow> (int \<times> 'z obj_state_scheme) option" where
  "vaccel_shared_object_new_from_buffer = object_new_from_buffer Shared_Obj"

definition vaccel_shared_object_get :: "ptr \<Rightarrow> 'z obj_state_scheme \<Rightarrow> ((dataptr \<times> nat option) \<times> 'z obj_state_scheme) option" where
  "vaccel_shared_object_get = object_get Shared_Obj"

definition vaccel_shared_object_destroy :: "ptr \<Rightarrow> 'z obj_state_scheme \<Rightarrow> (int \<times> 'z obj_state_scheme) option" where
  "vaccel_shared_object_destroy = object_destroy Shared_Obj"

definition vaccel_shared_object_get_id :: "ptr \<Rightarrow> 'z obj_state_scheme \<Rightarrow> int option" where
  "vaccel_shared_object_get_id = object_get_id Shared_Obj"

definition vaccel_tf_model_new :: "ptr \<Rightarrow> string option \<Rightarrow> 'z obj_state_scheme \<Rightarrow> (int \<times> 'z obj_state_scheme) option" where
  "vaccel_tf_model_new = object_new Tf_Model"

definition vaccel_tf_model_new_from_buffer :: "ptr \<Rightarrow> dataptr \<Rightarrow> nat \<Rightarrow> 'z obj_state_scheme \<Rightarrow> (int \<times> 'z obj_state_scheme) option" where
  "vaccel_tf_model_new_from_buffer = object_new_from_buffer Tf_Model"

definition vaccel_tf_model_destroy :: "ptr \<Rightarrow> 'z obj_state_scheme \<Rightarrow> (int \<times> 'z obj_state_scheme) option" where
  "vaccel_tf_model_destroy = object_destroy Tf_Model"

definition vaccel_tf_model_get_id :: "ptr \<Rightarrow> 'z obj_state_scheme \<Rightarrow> int option" where
  "vaccel_tf_model_get_id = object_get_id Tf_Model"


subsection \<open>States in which one object has changed\<close>

definition obj_upd :: "kind \<Rightarrow> addr \<Rightarrow> file_object \<Rightarrow> 'z obj_state_scheme \<Rightarrow> 'z obj_state_scheme \<Rightarrow> bool" where
  "obj_upd k a y s t \<longleftrightarrow> so_mem t = (if k = Shared_Obj then (so_mem s)(a \<mapsto> y) else so_mem s)
     \<and> tfm_mem t = (if k = Tf_Model then (tfm_mem s)(a \<mapsto> y) else tfm_mem s) \<and> tsm_mem t = tsm_mem s \<and> trm_mem t = trm_mem s"

lemma obj_upd_mem: "obj_upd k a y s t \<Longrightarrow> obj_mem k t a = Some y"
  by (cases k) (simp_all add: obj_upd_def obj_mem_def)

lemma obj_upd_other:
  assumes "obj_upd k a y s t" "\<not> (d = kind_destructor k \<and> data = Some a)"
  shows "files_of d data t = files_of d data s" "back_of d data t = back_of d data s" "has_object d data t = has_object d data s"
  using assms unfolding obj_upd_def files_of_def back_of_def has_object_def
  by (cases data; cases d; cases k; simp add: kind_destructor_def)+

lemma obj_upd_self:
  assumes "obj_upd k a y s t"
  shows "files_of (kind_destructor k) (Some a) t = [o_file y]" "back_of (kind_destructor k) (Some a) t = None"
    "has_object (kind_destructor k) (Some a) t"
  using assms unfolding obj_upd_def files_of_def back_of_def has_object_def
  by (cases k; simp add: kind_destructor_def)+

lemma set_obj_simps [simp]:
  "os (set_obj k a y s) = os s" "r_mem (set_obj k a y s) = r_mem s" "r_links (set_obj k a y s) = r_links s"
  "r_pool (set_obj k a y s) = r_pool s" "r_initialized (set_obj k a y s) = r_initialized s" "virtio (set_obj k a y s) = virtio s"
  "obj_mem k (set_obj k a y s) = (obj_mem k s)(a \<mapsto> y)"
  by (cases k; simp add: set_obj_def obj_mem_def)+

lemma obj_mem_frame [simp]:
  "obj_mem k (s\<lparr>os := o'\<rparr>) = obj_mem k s" "obj_mem k (s\<lparr>r_mem := m\<rparr>) = obj_mem k s"
  "obj_mem k (s\<lparr>r_links := h\<rparr>) = obj_mem k s" "obj_mem k (s\<lparr>r_pool := p\<rparr>) = obj_mem k s"
  by (cases k; simp add: obj_mem_def)+

lemma obj_updI:
  "same_objects s t \<Longrightarrow> obj_upd k a y s (set_obj k a y t)" "obj_upd k a x s t \<Longrightarrow> obj_upd k a y s (set_obj k a y t)"
  "obj_upd k a y s t \<Longrightarrow> same_objects t u \<Longrightarrow> obj_upd k a y s u"
  by (cases k; simp add: obj_upd_def same_objects_def set_obj_def)+

text \<open>No live resource has the object at \<open>a\<close>.\<close>

definition unused :: "kind \<Rightarrow> addr \<Rightarrow> 'z obj_state_scheme \<Rightarrow> addr list \<Rightarrow> bool" where
  "unused k a s L \<longleftrightarrow> (\<forall>b\<in>set L. \<forall>r. r_mem s b = Some r \<longrightarrow> \<not> (cleanup_resource r = Some (kind_destructor k) \<and> res_data r = Some a))"

lemma unusedD:
  assumes "unused k a s L" "b \<in> set L" "r_mem s b = Some r" "cleanup_resource r = Some d"
  shows "\<not> (d = kind_destructor k \<and> res_data r = Some a)"
  using assms unfolding unused_def by blast

text \<open>The object changes while no live resource has it, and the resource \<open>c\<close> at most is new.\<close>

lemma obj_ok_upd:
  assumes ok: "obj_ok s L" and un: "unused k a s L" and up: "obj_upd k a y s t" and g: "grows (os s) (os t)"
    and res: "res_ok t (L @ N)" and m: "\<And>b. b < alloc_next (os s) \<Longrightarrow> r_mem t b = r_mem s b"
    and dom: "\<And>b. r_mem t b \<noteq> None \<Longrightarrow> b < alloc_next (os t)"
    and rd: "\<And>b p. rundir_of t b = Some p \<Longrightarrow> (rundir_of s b = Some p \<or> alloc_next (os s) \<le> p) \<and> p < alloc_next (os t)"
    and N: "N = [] \<or> (\<exists>c r. N = [c] \<and> r_mem t c = Some r \<and> cleanup_resource r = Some (kind_destructor k) \<and> res_data r = Some a)"
    and y: "file_ok (o_file y) (os t)" "distinct (blocks (o_file y))"
      "\<And>x. x \<in> set (blocks (o_file y)) \<Longrightarrow> alloc_next (os s) \<le> x \<and> (\<forall>b. rundir_of t b \<noteq> Some x)"
  shows "obj_ok t (L @ N)"
proof (rule obj_ok_grow [OF ok res g])
  note D = obj_okD [OF ok]
  fix b assume b: "b \<in> set L"
  obtain r where r: "r_mem s b = Some r" using res_okD(4) [OF D(1) b] by blast
  have eq: "r_mem t b = r_mem s b" using m D(7) [OF r] by blast
  have ow: "owned_files t b = owned_files s b"
  proof (cases "cleanup_resource r")
    case (Some d)
    then show ?thesis using r eq obj_upd_other(1) [OF up unusedD [OF un b r Some]] by (simp add: owned_files_def)
  qed (use r eq in \<open>simp add: owned_files_def\<close>)
  have "object_ok t b r"
    unfolding object_ok_def
  proof (intro allI impI)
    fix d assume d: "cleanup_resource r = Some d"
    show "has_object d (res_data r) t \<and> (back_of d (res_data r) t = None \<or> back_of d (res_data r) t = Some b)"
      using D(3) [OF b r] d obj_upd_other(2,3) [OF up unusedD [OF un b r d]] by (simp add: object_ok_def)
  qed
  then show "r_mem t b = r_mem s b \<and> owned_files t b = owned_files s b \<and> (\<forall>r. r_mem s b = Some r \<longrightarrow> object_ok t b r)"
    using eq ow r by simp
next
  fix c assume "c \<in> set N"
  then obtain r where c: "N = [c]" "r_mem t c = Some r" "cleanup_resource r = Some (kind_destructor k)" "res_data r = Some a"
    using N by auto
  have "owned_files t c = [o_file y]" using c obj_upd_self(1) [OF up] by (simp add: owned_files_def)
  moreover have "object_ok t c r" using c obj_upd_self(2,3) [OF up] by (simp add: object_ok_def)
  ultimately show "(\<forall>r. r_mem t c = Some r \<longrightarrow> object_ok t c r) \<and> (\<forall>f\<in>set (owned_files t c). file_ok f (os t))
      \<and> (\<forall>x\<in>set (owned t c). alloc_next (os s) \<le> x \<and> (\<forall>b. rundir_of t b \<noteq> Some x))"
    using c y(1,3) by (simp add: owned_def)
next
  show "distinct (concat (map (owned t) N))"
  proof (cases "N = []")
    case False
    then obtain c r where c: "N = [c]" "r_mem t c = Some r" "cleanup_resource r = Some (kind_destructor k)" "res_data r = Some a"
      using N by auto
    then have "owned_files t c = [o_file y]" using obj_upd_self(1) [OF up] by (simp add: owned_files_def)
    then show ?thesis using c(1) y(2) by (simp add: owned_def)
  qed simp
qed (use rd dom in blast)+


subsection \<open>Creation from a buffer\<close>

lemma destroy_file_none: "f_path f = None \<Longrightarrow> destroy_file f s = Some s"
  by (simp add: destroy_file_def os_do_def vaccel_file_destroy_def)

text \<open>Undoing a creation whose file has no path: the resource is destroyed and its memory freed.\<close>

lemma undo_object_ok:
  assumes ok: "obj_ok t (L @ [c])" and i: "r_initialized t" and v: "virtio t = None"
    and r: "r_mem t c = Some r" "refcount r = 0" and y: "obj_mem k t a = Some y" "f_path (o_file y) = None"
  obtains t' where "undo_object k a c t = Some t'" "obj_ok t' L" "r_mem t' = (r_mem t)(c := None)" "r_initialized t'" "virtio t' = None"
    "free_ids (r_pool t') = res_id r # free_ids (r_pool t)" "alloc_next (os t') = alloc_next (os t)"
proof -
  have d: "distinct (L @ [c])" by (rule res_ok_distinct [OF obj_okD(1) [OF ok]])
  then have c: "c \<notin> set L" "remove1 c (L @ [c]) = L" by (simp_all add: remove1_append)
  obtain t1 where t1: "resource_destroy call_destructor (Some c) t = Some (VACCEL_OK, t1)" "obj_ok t1 (remove1 c (L @ [c]))" "r_mem t1 = r_mem t"
    "r_initialized t1" "virtio t1 = None" "same_objects t t1" "free_ids (r_pool t1) = res_id r # free_ids (r_pool t)"
    "alloc_next (os t1) = alloc_next (os t)"
    by (rule destroy_object [OF ok i v _ r]) (simp, rule that, assumption+, simp add: frees_def)
  note ok1 = t1(2) [unfolded c(2)]
  have y1: "obj_mem k t1 a = Some y" using t1(6) y(1) by (cases k) (simp_all add: same_objects_def obj_mem_def)
  have "r_mem t1 c \<noteq> None" using t1(3) r(1) by simp
  then obtain t2 where t2: "free_res (Some c) t1 = Some t2" "obj_ok t2 L" "r_mem t2 = (r_mem t1)(c := None)" "same_objects t1 t2"
    "os t2 = os t1" "r_pool t2 = r_pool t1" "virtio t2 = virtio t1" "r_initialized t2 = r_initialized t1"
    by (rule free_res_ok [OF ok1 c(1)])
  have "undo_object k a c t = Some t2" using t1(1) y1 t2(1) by (simp add: undo_object_def destroy_file_none [OF y(2)])
  then show thesis using that t1 t2 by simp
qed

text \<open>
  After \<open>malloc\<close> and an operation on the file of the object, which may have made new blocks: \<open>resource_new\<close>
  makes the object live, and \<open>free\<close> takes the resource back.
\<close>

definition with_file :: "kind \<Rightarrow> addr \<Rightarrow> file_object \<Rightarrow> os_state \<Rightarrow> 'z obj_state_scheme \<Rightarrow> 'z obj_state_scheme" where
  "with_file k a y o1 s = set_obj k a y (s\<lparr>os := o1, r_mem := (r_mem s)(alloc_next (os s) \<mapsto> blank_resource),
     r_links := add_entry (ResEntry (alloc_next (os s))) RNull (r_links s)\<rparr>)"

definition new_file :: "os_state \<Rightarrow> os_state \<Rightarrow> vaccel_file \<Rightarrow> bool" where
  "new_file o0 o1 f \<longleftrightarrow> grows o0 o1 \<and> alloc_next o0 < alloc_next o1 \<and> file_ok f o1 \<and> distinct (blocks f) \<and> (\<forall>x\<in>set (blocks f). alloc_next o0 < x)"

lemma fresh_resource:
  assumes "obj_ok s L"
  shows "r_mem s (alloc_next (os s)) = None" "alloc_next (os s) \<notin> set L"
proof -
  note D = obj_okD [OF assms]
  show "r_mem s (alloc_next (os s)) = None" using D(7) [of "alloc_next (os s)"] by (cases "r_mem s (alloc_next (os s))") auto
  then show "alloc_next (os s) \<notin> set L" using res_okD(4) [OF D(1), of "alloc_next (os s)"] by auto
qed

lemma with_file_ok:
  assumes ok: "obj_ok s L" and un: "unused k a s L" and F: "new_file (os s) o1 (o_file y)"
  shows "res_ok (with_file k a y o1 s) L" "r_mem (with_file k a y o1 s) = (r_mem s)(alloc_next (os s) \<mapsto> blank_resource)"
    "r_pool (with_file k a y o1 s) = r_pool s" "os (with_file k a y o1 s) = o1" "r_initialized (with_file k a y o1 s) = r_initialized s"
    "virtio (with_file k a y o1 s) = virtio s" "obj_upd k a y s (with_file k a y o1 s)"
    "allocated (r_links (with_file k a y o1 s)) (ResEntry (alloc_next (os s)))"
proof -
  note D = obj_okD [OF ok] and c = fresh_resource [OF ok]
  let ?t = "with_file k a y o1 s"
  show t: "r_mem ?t = (r_mem s)(alloc_next (os s) \<mapsto> blank_resource)" "r_pool ?t = r_pool s" "os ?t = o1" "r_initialized ?t = r_initialized s"
    "virtio ?t = virtio s" "allocated (r_links ?t) (ResEntry (alloc_next (os s)))"
    by (simp_all add: with_file_def)
  have g: "grows (os s) (os ?t)" using F t(3) by (simp add: new_file_def)
  show "res_ok ?t L"
    by (rule res_ok_other [OF D(1) c(2)]) (use t res_rundirs_kept [OF ok g] in \<open>auto simp: with_file_def\<close>)
  show "obj_upd k a y s ?t" unfolding with_file_def by (rule obj_updI(1)) (simp add: same_objects_def)
qed

lemma rundir_old: "obj_ok s L \<Longrightarrow> rundir_of s b = Some q \<Longrightarrow> q < alloc_next (os s)"
  using obj_okD(8) by (fastforce simp: rundir_of_def split: option.splits)

lemma object_registered_at:
  assumes ok: "obj_ok s L" and i: "r_initialized s" and v: "virtio s = None" and un: "unused k a s L"
    and fr: "free_ids (r_pool s) = rid # F" and new: "new_file (os s) o1 (o_file y)"
  defines "c \<equiv> alloc_next (os s)"
  obtains s3 where "resource_new (Some c) (kind_type k) (Some a) (Some (kind_destructor k)) (with_file k a y o1 s) = Some (VACCEL_OK, s3)"
    "obj_ok s3 (L @ [c])" "obj_upd k a y s s3" "r_mem s3 = (r_mem s)(c \<mapsto> blank_resource\<lparr>res_id := rid,
      res_type := kind_type k, res_data := Some a, cleanup_resource := Some (kind_destructor k)\<rparr>)"
    "os s3 = o1" "r_initialized s3" "virtio s3 = None" "free_ids (r_pool s3) = F"
proof -
  note D = obj_okD [OF ok] and c = fresh_resource [OF ok, folded c_def] and W = with_file_ok [OF ok un new, folded c_def]
  let ?s2 = "with_file k a y o1 s"
  have N: "grows (os s) o1" "c < alloc_next o1" "file_ok (o_file y) o1" "distinct (blocks (o_file y))" "\<And>x. x \<in> set (blocks (o_file y)) \<Longrightarrow> c < x"
    using new by (simp_all add: new_file_def c_def)
  have "r_mem ?s2 c = Some blank_resource" "kind_type k < VACCEL_RES_MAX" "free_ids (r_pool ?s2) = rid # F" "r_initialized ?s2" "virtio ?s2 = None"
    using W fr i v by (simp_all add: kind_type_def split: kind.split)
  then obtain s3 where s3: "resource_new (Some c) (kind_type k) (Some a) (Some (kind_destructor k)) ?s2 = Some (VACCEL_OK, s3)"
    "res_ok s3 (L @ [c])" "r_mem s3 = (r_mem ?s2)(c \<mapsto> blank_resource\<lparr>res_id := rid, res_type := kind_type k, res_data := Some a,
      cleanup_resource := Some (kind_destructor k), refcount := 0, res_rundir := None\<rparr>)" "free_ids (r_pool s3) = F"
    "\<exists>p h. s3 = ?s2\<lparr>r_pool := p, r_links := h, r_mem := r_mem s3\<rparr>"
    using resource_new_ok [OF W(1) _ _ _ _ c(2) W(8)] by metis
  let ?R = "blank_resource\<lparr>res_id := rid, res_type := kind_type k, res_data := Some a, cleanup_resource := Some (kind_destructor k)\<rparr>"
  from s3(5) obtain p h where sh: "s3 = ?s2\<lparr>r_pool := p, r_links := h, r_mem := r_mem s3\<rparr>" by blast
  have m3: "r_mem s3 = (r_mem s)(c \<mapsto> ?R)" using s3(3) W(2) by (simp add: blank_resource_def)
  have k3: "os s3 = o1" "r_initialized s3" "virtio s3 = None" by (subst sh, use W i v in simp)+
  have "same_objects ?s2 s3" by (subst sh) (simp add: same_objects_def)
  then have up: "obj_upd k a y s s3" by (rule obj_updI(3) [OF W(7)])
  have rd: "rundir_of s3 b = (if b = c then None else rundir_of s b)" for b using m3 by (simp add: rundir_of_def blank_resource_def)
  have "obj_ok s3 (L @ [c])"
  proof (rule obj_ok_upd [OF ok un up _ s3(2)])
    show "grows (os s) (os s3)" using N(1) k3(1) by simp
    show "r_mem s3 b = r_mem s b" if "b < alloc_next (os s)" for b using that m3 by (simp add: c_def)
    show "b < alloc_next (os s3)" if "r_mem s3 b \<noteq> None" for b
      using that m3 D(7) [of b] k3(1) N(2) by (auto simp: c_def split: if_splits)
    fix b q assume "rundir_of s3 b = Some q"
    then have q: "rundir_of s b = Some q" using rd by (simp split: if_splits)
    then show "(rundir_of s b = Some q \<or> alloc_next (os s) \<le> q) \<and> q < alloc_next (os s3)"
      using rundir_old [OF ok q] N(2) k3(1) by (simp add: c_def)
  next
    fix x assume x: "x \<in> set (blocks (o_file y))"
    then have "\<not> x < alloc_next (os s)" "alloc_next (os s) \<le> x" using N(5) [OF x] by (simp_all add: c_def)
    then show "alloc_next (os s) \<le> x \<and> (\<forall>b. rundir_of s3 b \<noteq> Some x)" using rd rundir_old [OF ok] by (metis option.distinct(1))
  qed (use m3 N k3(1) in auto)
  then show thesis using that [OF s3(1) _ up m3] k3 s3(4) by simp
qed

lemma object_undone:
  assumes ok: "obj_ok s L" and un: "unused k a s L" and new: "new_file (os s) o1 (o_file y)"
  obtains u where "free_res (Some (alloc_next (os s))) (with_file k a y o1 s) = Some u" "obj_ok u L" "r_mem u = r_mem s" "r_pool u = r_pool s" "os u = o1"
proof -
  let ?c = "alloc_next (os s)" and ?t = "with_file k a y o1 s"
  note D = obj_okD [OF ok] and c = fresh_resource [OF ok] and W = with_file_ok [OF ok un new]
  have N: "grows (os s) o1" "?c < alloc_next o1" "file_ok (o_file y) o1" "distinct (blocks (o_file y))" "\<And>x. x \<in> set (blocks (o_file y)) \<Longrightarrow> ?c < x"
    using new by (simp_all add: new_file_def)
  let ?u = "?t\<lparr>r_mem := (r_mem ?t)(?c := None), r_links := del_entry (ResEntry ?c) (r_links ?t)\<rparr>"
  have m: "r_mem ?u = r_mem s" using W(2) c(1) by (simp add: fun_upd_idem)
  have rd: "rundir_of ?u = rundir_of s" using m by (simp add: rundir_of_def fun_eq_iff)
  have "res_ok ?u L" by (rule res_ok_other [OF W(1) c(2)]) simp_all
  then have res: "res_ok ?u (L @ [])" by simp
  have up: "obj_upd k a y s ?u" by (rule obj_updI(3) [OF W(7)]) (simp add: same_objects_def)
  have "obj_ok ?u (L @ [])"
  proof (rule obj_ok_upd [OF ok un up _ res])
    show "grows (os s) (os ?u)" using N(1) W(4) by simp
    show "b < alloc_next (os ?u)" if b: "r_mem ?u b \<noteq> None" for b
    proof -
      obtain r where "r_mem s b = Some r" using b unfolding m by auto
      then show ?thesis using D(7) [of b r] N(2) W(4) by simp
    qed
  next
    fix b q assume "rundir_of ?u b = Some q"
    then have q: "rundir_of s b = Some q" using rd by simp
    then show "(rundir_of s b = Some q \<or> alloc_next (os s) \<le> q) \<and> q < alloc_next (os ?u)" using rundir_old [OF ok q] N(2) W(4) by simp
  next
    fix x assume x: "x \<in> set (blocks (o_file y))"
    then have "\<not> x < ?c" "?c \<le> x" using N(5) [OF x] by simp_all
    then show "?c \<le> x \<and> (\<forall>b. rundir_of ?u b \<noteq> Some x)" using rd rundir_old [OF ok] by metis
  qed (use N W(4) m in simp_all)
  moreover have "free_res (Some ?c) ?t = Some ?u" using W(2) by (simp add: free_res_def)
  ultimately show thesis using that [of ?u] m W(3,4) by simp
qed

lemma object_registered:
  assumes ok: "obj_ok s L" and i: "r_initialized s" and v: "virtio s = None" and x: "obj_mem k s a = Some x" and un: "unused k a s L"
    and fr: "free_ids (r_pool s) = rid # F" and F: "f_path F0 = None"
  defines "c \<equiv> alloc_next (os s)"
  defines "s2 \<equiv> set_obj k a (x\<lparr>o_file := F0\<rparr>) (s\<lparr>os := (os s)\<lparr>alloc_next := Suc c\<rparr>, r_mem := (r_mem s)(c \<mapsto> blank_resource),
    r_links := add_entry (ResEntry c) RNull (r_links s)\<rparr>)"
  obtains s3 where "resource_new (Some c) (kind_type k) (Some a) (Some (kind_destructor k)) s2 = Some (VACCEL_OK, s3)"
    "obj_ok s3 (L @ [c])" "obj_upd k a (x\<lparr>o_file := F0\<rparr>) s s3" "r_mem s3 = (r_mem s)(c \<mapsto> blank_resource\<lparr>res_id := rid,
      res_type := kind_type k, res_data := Some a, cleanup_resource := Some (kind_destructor k)\<rparr>)"
    "os s3 = (os s)\<lparr>alloc_next := Suc c\<rparr>" "r_initialized s3" "virtio s3 = None" "free_ids (r_pool s3) = F"
proof -
  have new: "new_file (os s) ((os s)\<lparr>alloc_next := Suc c\<rparr>) (o_file (x\<lparr>o_file := F0\<rparr>))"
    using F heap_ok_skip [OF obj_okD(2) [OF ok]] by (simp add: new_file_def file_ok_def blocks_def c_def)
  note s2 = s2_def [unfolded c_def, folded with_file_def]
  show thesis by (rule object_registered_at [OF ok i v un fr new [unfolded c_def]]) (rule that [unfolded s2 c_def], assumption+)
qed


text \<open>The states between \<open>resource_new\<close> and the end: a directory and a file may have been added.\<close>

lemma stage_ok:
  assumes ok: "obj_ok s L" and un: "unused k a s L" and c: "c = alloc_next (os s)"
    and s3: "obj_ok s3 (L @ [c])" "r_mem s3 = (r_mem s)(c \<mapsto> R)" "grows (os s) (os s3)" "alloc_next (os s3) = Suc c"
    and R: "cleanup_resource R = Some (kind_destructor k)" "res_data R = Some a" "res_rundir R = None"
    and t: "r_links t = r_links s3" "r_pool t = r_pool s3" "r_mem t = (r_mem s)(c \<mapsto> R\<lparr>res_rundir := rdp\<rparr>)" "obj_upd k a y s t"
      "grows (os s3) (os t)"
    and rdp: "\<And>q. rdp = Some q \<Longrightarrow> c < q \<and> q < alloc_next (os t) \<and> strs (os t) q \<noteq> None"
    and y: "file_ok (o_file y) (os t)" "distinct (blocks (o_file y))" "\<And>x. x \<in> set (blocks (o_file y)) \<Longrightarrow> c < x \<and> rdp \<noteq> Some x"
  shows "obj_ok t (L @ [c])"
proof (rule obj_ok_upd [OF ok un t(4) grows_trans [OF s3(3) t(5)]])
  note D = obj_okD [OF ok] and D3 = obj_okD [OF s3(1)]
  have al: "c < alloc_next (os t)" using t(5) s3(4) by (simp add: grows_def)
  have old: "q < c" if "rundir_of s b = Some q" for b q
    using D(8) that unfolding c by (auto simp: rundir_of_def split: option.splits)
  have rd: "rundir_of t b = (if b = c then rdp else rundir_of s b)" for b using t(3) by (simp add: rundir_of_def)
  have rd3: "rundir_of s3 b = (if b = c then None else rundir_of s b)" for b using s3(2) R(3) by (simp add: rundir_of_def)
  have rid: "rid_of t = rid_of s3" using t(3) s3(2) by (simp add: rid_of_def fun_eq_iff)
  have strs: "strs (os t) q = strs (os s3) q" if "q < c" for q using t(5) s3(4) that by (simp add: grows_def)
  have "rundirs_ok t (L @ [c])"
    unfolding rundirs_ok_def
  proof (intro ballI allI impI conjI)
    fix b q assume b: "b \<in> set (L @ [c])" and q: "rundir_of t b = Some q"
    show "strs (os t) q \<noteq> None"
    proof (cases "b = c")
      case True
      then show ?thesis using q rd rdp by simp
    next
      case False
      then have "rundir_of s3 b = Some q" "q < c" using q rd rd3 old by simp_all
      then show ?thesis using res_okD(7) [OF D3(1)] b strs unfolding rundirs_ok_def by metis
    qed
    fix b' assume b': "b' \<in> set (L @ [c])" and q': "rundir_of t b' = Some q"
    show "b' = b"
    proof (cases "b = c \<or> b' = c")
      case True
      then show ?thesis using q q' rd old [of _ q] rdp [of q] by (auto split: if_splits)
    next
      case False
      then have "rundir_of s3 b = Some q" "rundir_of s3 b' = Some q" using q q' rd rd3 by simp_all
      then show ?thesis using res_okD(7) [OF D3(1)] b b' unfolding rundirs_ok_def by metis
    qed
  qed
  moreover have "dom (r_mem t) = dom (r_mem s3)" using t(3) s3(2) by simp
  ultimately show "res_ok t (L @ [c])" using D3(1) unfolding res_ok_def t(1,2) rid by simp
  show "r_mem t b = r_mem s b" if "b < alloc_next (os s)" for b using that t(3) c by simp
  show "b < alloc_next (os t)" if "r_mem t b \<noteq> None" for b
    using that t(3) D(7) [of b] al c by (auto split: if_splits)
  show "(rundir_of s b = Some p \<or> alloc_next (os s) \<le> p) \<and> p < alloc_next (os t)" if "rundir_of t b = Some p" for b p
    using that rd rdp [of p] old [of b p] al c by (auto split: if_splits)
  show "[c] = [] \<or> (\<exists>c' r. [c] = [c'] \<and> r_mem t c' = Some r \<and> cleanup_resource r = Some (kind_destructor k) \<and> res_data r = Some a)"
    using t(3) R by simp
  show "file_ok (o_file y) (os t)" "distinct (blocks (o_file y))" by (rule y(1), rule y(2))
  show "alloc_next (os s) \<le> x \<and> (\<forall>b. rundir_of t b \<noteq> Some x)" if "x \<in> set (blocks (o_file y))" for x
    using y(3) [OF that] rd old [of _ x] c by (auto split: if_splits)
qed

lemma persisted_grows:
  assumes "persisted f bs o1 f' o2" "heap_ok o1" "alloc_next o1 < alloc_next o2"
  shows "grows o1 o2" "file_ok f' o2" "distinct (blocks f')" "x \<in> set (blocks f') \<Longrightarrow> alloc_next o1 \<le> x"
    "\<exists>path. get_str (f_path f') o2 = Some path \<and> written path bs o2"
proof -
  obtain path k where p: "f_path f' = Some (alloc_next o1)" "strs o2 = (strs o1)(alloc_next o1 \<mapsto> path)" "node o2 path = Some (File (if last_call_ok o2 then bs else take k bs))"
    "f_data f' = Map_Failed \<and> maps o2 = maps o1
       \<or> f_data f' = Mapped (Suc (alloc_next o1)) \<and> maps o2 = (maps o1)(Suc (alloc_next o1) \<mapsto> take k bs) \<and> Suc (alloc_next o1) < alloc_next o2"
    using assms(1) unfolding persisted_def by blast
  show "grows o1 o2"
    using assms(2,3) p(2,4) unfolding grows_def heap_ok_def by auto
  show "file_ok f' o2" by (rule persisted_file_ok [OF assms(1)])
  show "distinct (blocks f')" using p(1,4) by (auto simp: blocks_def)
  show "x \<in> set (blocks f') \<Longrightarrow> alloc_next o1 \<le> x" using p(1,4) by (auto simp: blocks_def)
  show "\<exists>path. get_str (f_path f') o2 = Some path \<and> written path bs o2" using p(1-3) unfolding written_def by (auto simp: get_str_def)
qed

lemma same_heap_grows:
  "heap_ok o1 \<Longrightarrow> strs o2 = strs o1 \<Longrightarrow> maps o2 = maps o1 \<Longrightarrow> alloc_next o1 \<le> alloc_next o2 \<Longrightarrow> grows o1 o2"
  by (simp add: grows_def heap_ok_def)


text \<open>
  The outcomes of creating an object from a buffer of the user: an error, after which nothing of it
  is left, or a live resource of the right type whose file is the persisted buffer.
\<close>

lemma object_new_from_buffer_ok:
  assumes ok: "obj_ok s L" and i: "r_initialized s" and v: "virtio s = None" and x: "obj_mem k s a = Some x" and un: "unused k a s L"
    and fr: "free_ids (r_pool s) = rid # F" and bs: "bs \<noteq> []"
  defines "c \<equiv> alloc_next (os s)"
  obtains (failed) ret s' where "object_new_from_buffer k (Some a) (User bs) (length bs) s = Some (ret, s')" "ret \<noteq> 0" "obj_ok s' L"
      "r_mem s' = r_mem s" "free_ids (r_pool s') = free_ids (r_pool s)" "alloc_next (os s) \<le> alloc_next (os s')"
    | (made) s' y R path where "object_new_from_buffer k (Some a) (User bs) (length bs) s = Some (VACCEL_OK, s')" "obj_ok s' (L @ [c])"
      "obj_upd k a y s s'" "o_resource y = Some c" "get_str (f_path (o_file y)) (os s') = Some path" "written path bs (os s')"
      "r_mem s' = (r_mem s)(c \<mapsto> R)" "res_id R = rid" "res_type R = kind_type k" "refcount R = 0" "free_ids (r_pool s') = F"
      "cleanup_resource R = Some (kind_destructor k)" "res_data R = Some a" "alloc_next (os s) \<le> alloc_next (os s')"
proof -
  note D = obj_okD [OF ok]
  have c: "r_mem s c = None" "c \<notin> set L"
  proof -
    show "r_mem s c = None" using D(7) [of c] by (cases "r_mem s c") (auto simp: c_def)
    then show "c \<notin> set L" using res_okD(4) [OF D(1), of c] by auto
  qed
  have undone: "((r_mem s)(c \<mapsto> R'))(c := None) = r_mem s" for R' using c(1) by (simp add: fun_upd_idem)
  let ?new = "object_new_from_buffer k (Some a) (User bs) (length bs) s"
  show thesis
  proof (cases rule: malloc_res_cases [of s])
    case 1
    let ?s = "s\<lparr>os := (os s)\<lparr>alloc_next := Suc (alloc_next (os s))\<rparr>\<rparr>"
    have "?new = Some (VACCEL_ENOMEM, ?s)" using 1(1) bs by (simp add: object_new_from_buffer_def)
    moreover have "obj_ok ?s L"
      by (rule obj_ok_same [OF ok]) (use heap_ok_skip [OF D(2)] in \<open>simp_all add: same_objects_def res_ok_cong [OF D(1)]\<close>)
    ultimately show thesis using failed [of VACCEL_ENOMEM ?s] by simp
  next
    case 2
    let ?F0 = "(o_file x)\<lparr>f_path := None, f_data := User bs, f_size := length bs\<rparr>"
    let ?R = "blank_resource\<lparr>res_id := rid, res_type := kind_type k, res_data := Some a, cleanup_resource := Some (kind_destructor k)\<rparr>"
    let ?y0 = "x\<lparr>o_file := ?F0\<rparr>"
    let ?s1 = "s\<lparr>os := (os s)\<lparr>alloc_next := Suc c\<rparr>, r_mem := (r_mem s)(c \<mapsto> blank_resource), r_links := add_entry (ResEntry c) RNull (r_links s)\<rparr>"
    have F0: "f_path ?F0 = None" by simp
    obtain s3 where s3: "resource_new (Some c) (kind_type k) (Some a) (Some (kind_destructor k)) (set_obj k a ?y0 ?s1) = Some (VACCEL_OK, s3)"
      "obj_ok s3 (L @ [c])" "obj_upd k a ?y0 s s3" "r_mem s3 = (r_mem s)(c \<mapsto> ?R)" "os s3 = (os s)\<lparr>alloc_next := Suc c\<rparr>"
      "r_initialized s3" "virtio s3 = None" "free_ids (r_pool s3) = F"
      unfolding c_def by (rule object_registered [OF ok i v x un fr F0])
    have y0: "obj_mem k s3 a = Some ?y0" by (rule obj_upd_mem [OF s3(3)])
    have op1: "obj_file_op k a (\<lambda>file. vaccel_file_from_buffer file (User bs) (length bs) None False None False) ?s1
        = Some (VACCEL_OK, set_obj k a ?y0 ?s1)"
      using x bs by (simp add: obj_file_op_def vaccel_file_from_buffer_def Let_def) (rule arg_cong [where f = "set_obj k a _"], simp)
    have R3: "r_mem s3 c = Some ?R" "res_rundir ?R = None" "refcount ?R = 0" using s3(4) by (simp_all add: blank_resource_def)
    have mr: "malloc_res s = (Some c, ?s1)" using 2(1) by (simp add: c_def)
    have run3: "?new = Option.bind (resource_create_rundir (Some c) s3) (\<lambda>(ret, s).
        if ret \<noteq> 0 then Option.bind (undo_object k a c s) (\<lambda>s. Some (ret, s))
        else Option.bind (r_mem s c) (\<lambda>r. let (name, randomize) = kind_file k in
          Option.bind (get_str (res_rundir r) (os s)) (\<lambda>rd.
          Option.bind (obj_file_op k a (\<lambda>file. vaccel_file_persist file (Some rd) (Some name) randomize) s) (\<lambda>(ret, s).
          if ret \<noteq> 0 then Option.bind (undo_object k a c s) (\<lambda>s. Some (ret, s))
          else Option.bind (obj_mem k s a) (\<lambda>x. Some (VACCEL_OK, set_obj k a (x\<lparr>o_resource := Some c\<rparr>) s))))))"
      using mr op1 s3(1) y0 bs by (simp add: object_new_from_buffer_def cong: if_cong)
    have g3: "grows (os s) (os s3)" "alloc_next (os s3) = Suc c" using heap_ok_skip [OF D(2)] s3(5) by (simp_all add: c_def)
    have Rc: "cleanup_resource ?R = Some (kind_destructor k)" "res_data ?R = Some a" "c = alloc_next (os s)" by (simp_all add: c_def)
    note stage = stage_ok [OF ok un Rc(3) s3(2,4) g3 Rc(1,2) R3(2)]
    have fail: thesis if t: "?new = Option.bind (undo_object k a c t) (\<lambda>s. Some (ret, s))" "ret \<noteq> 0" "obj_ok t (L @ [c])" "r_initialized t"
      "virtio t = None" "r_mem t = (r_mem s)(c \<mapsto> R')" "refcount R' = 0" "res_id R' = rid" "obj_mem k t a = Some y" "f_path (o_file y) = None"
      "r_pool t = r_pool s3" "grows (os s3) (os t)" for t ret R' y
    proof -
      have "r_mem t c = Some R'" using t(6) by simp
      from undo_object_ok [OF t(3,4,5) this t(7,9,10)] obtain t' where t': "undo_object k a c t = Some t'" "obj_ok t' L"
        "r_mem t' = (r_mem t)(c := None)" "free_ids (r_pool t') = res_id R' # free_ids (r_pool t)" "alloc_next (os t') = alloc_next (os t)" by metis
      have "alloc_next (os s) \<le> alloc_next (os t')" using t'(5) t(12) g3(2) by (simp add: grows_def c_def)
      then show thesis by (intro failed [of ret t']) (use t t' s3(8) fr undone in simp_all)
    qed
    show thesis
    proof (cases rule: create_rundir_ok [OF R3(1,2)])
      case f: (1 ret o')
      let ?t = "s3\<lparr>os := o'\<rparr>"
      have g: "grows (os s3) o'" by (rule same_heap_grows) (use f obj_okD(2) [OF s3(2)] in simp_all)
      have "obj_ok ?t (L @ [c])"
        by (rule obj_ok_same [OF s3(2)]) (use g f(3) in \<open>simp_all add: same_objects_def res_ok_cong [OF obj_okD(1) [OF s3(2)]]\<close>)
      then show thesis
        by (intro fail [of ?t ret ?R ?y0]) (use run3 f(1,2) s3 y0 R3 g in simp_all)
    next
      case m: (2 o4 rd)
      define q where "q = alloc_next (os s3)"
      let ?s4 = "s3\<lparr>os := o4, r_mem := (r_mem s3)(c \<mapsto> ?R\<lparr>res_rundir := Some q\<rparr>)\<rparr>"
      have h3: "heap_ok (os s3)" by (rule obj_okD(2) [OF s3(2)])
      have g4: "grows (os s3) o4" "heap_ok o4" using h3 m(2-4) by (auto simp: grows_def heap_ok_def)
      have q: "c < q" "q < alloc_next o4" "strs o4 q = Some rd" using g3(2) m(2,4) by (simp_all add: q_def)
      obtain name randomize where nm: "kind_file k = (name, randomize)" by (cases "kind_file k")
      have run4: "?new = Option.bind (obj_file_op k a (\<lambda>file. vaccel_file_persist file (Some rd) (Some name) randomize) ?s4) (\<lambda>(ret, s).
          if ret \<noteq> 0 then Option.bind (undo_object k a c s) (\<lambda>s. Some (ret, s))
          else Option.bind (obj_mem k s a) (\<lambda>x. Some (VACCEL_OK, set_obj k a (x\<lparr>o_resource := Some c\<rparr>) s)))"
        using run3 m(1) nm q(3) by (simp add: q_def get_str_def)
      have F: "f_data ?F0 = User bs" "f_size ?F0 = length bs" by simp_all
      have op: "obj_file_op k a f ?s4 = Option.bind (f (Some ?F0) o4) (\<lambda>(ret, file, o'). Option.bind file
          (\<lambda>file. Some (ret, set_obj k a (?y0\<lparr>o_file := file\<rparr>) (?s4\<lparr>os := o'\<rparr>))))" for f :: "vaccel_file option \<Rightarrow> os_state \<Rightarrow> (int \<times> vaccel_file option \<times> os_state) option"
        using y0 by (simp add: obj_file_op_def)
      show thesis
      proof (cases rule: vaccel_file_persist_ok [OF F bs F0 g4(2), of rd name randomize])
        case f: (1 ret f' o5)
        let ?y = "?y0\<lparr>o_file := f'\<rparr>"
        let ?t = "set_obj k a ?y (?s4\<lparr>os := o5\<rparr>)"
        have up: "obj_upd k a ?y s ?t" by (rule obj_updI(2), rule obj_updI(3) [OF s3(3)]) (simp add: same_objects_def)
        have g5: "grows (os s3) o5" using grows_trans [OF g4(1) same_heap_grows [OF g4(2) f(6-8)]] .
        have "obj_ok ?t (L @ [c])"
        proof (rule stage [OF _ _ _ up, where rdp = "Some q"])
          show "grows (os s3) (os ?t)" using g5 by simp
        qed (use s3(4) f(3,6,8) q in \<open>auto simp: file_ok_def blocks_def\<close>)
        then show thesis
          by (intro fail [of ?t ret "?R\<lparr>res_rundir := Some q\<rparr>" ?y]) (use run4 op f s3 R3 g5 in simp_all)
      next
        case p: (2 f' o5)
        define y1 where "y1 = ?y0\<lparr>o_file := f'\<rparr>"
        define t1 where "t1 = set_obj k a y1 (?s4\<lparr>os := o5\<rparr>)"
        let ?y = "y1\<lparr>o_resource := Some c\<rparr>"
        let ?t = "set_obj k a ?y t1"
        have t1: "obj_mem k t1 a = Some y1" "os t1 = o5" "r_links t1 = r_links s3" "r_pool t1 = r_pool s3" "o_file y1 = f'"
          "r_mem t1 = (r_mem s3)(c \<mapsto> ?R\<lparr>res_rundir := Some q\<rparr>)" by (simp_all add: t1_def y1_def)
        note pg = persisted_grows [OF p(2) g4(2) p(3)]
        have up: "obj_upd k a ?y s ?t"
          unfolding t1_def by (rule obj_updI(2), rule obj_updI(2), rule obj_updI(3) [OF s3(3)]) (simp add: same_objects_def)
        have q5: "strs o5 q = Some rd" "q < alloc_next o5" using pg(1) q by (simp_all add: grows_def)
        have "obj_ok ?t (L @ [c])"
        proof (rule stage [OF _ _ _ up, where rdp = "Some q"])
          show "grows (os s3) (os ?t)" using grows_trans [OF g4(1) pg(1)] t1 by simp
          show "c < z \<and> Some q \<noteq> Some z" if "z \<in> set (blocks (o_file ?y))" for z using pg(4) [of z] that q t1 by auto
        qed (use s3(4) q q5 pg t1 in auto)
        moreover have "?new = Some (VACCEL_OK, ?t)"
        proof -
          have "obj_file_op k a (\<lambda>file. vaccel_file_persist file (Some rd) (Some name) randomize) ?s4 = Some (VACCEL_OK, t1)"
            unfolding op p(1) t1_def y1_def by (simp only: Option.bind.simps prod.case)
          then show ?thesis unfolding run4 using t1(1) by simp
        qed
        moreover obtain path where "get_str (f_path f') o5 = Some path" "written path bs o5" using pg(5) by blast
        ultimately show thesis
          by (intro made [of ?t ?y path "?R\<lparr>res_rundir := Some q\<rparr>"])
            (use up s3(4,8) R3 t1 g3(2) grows_trans [OF g4(1) pg(1)] in \<open>simp_all add: grows_def c_def\<close>)
      qed
    qed
  qed
qed


text \<open>The outcomes of making an object from the path of a file.\<close>

lemma set_obj_same: "obj_mem k s a = Some x \<Longrightarrow> same_objects s (set_obj k a x s)"
  by (cases k) (auto simp: same_objects_def set_obj_def obj_mem_def fun_upd_idem)

lemma access_heap: "access p o1 = (n, o2) \<Longrightarrow> heap_of o2 = heap_of o1 \<and> node o2 = node o1 \<and> (n \<noteq> 0 \<longrightarrow> errno o2 \<noteq> 0) \<and> (n = 0 \<longrightarrow> node o1 p \<noteq> None \<or> p = [])"
  by (auto simp: access_def fail_def Let_def heap_of_def sys_call_def node_def fun_eq_iff split: if_splits prod.splits)

lemma object_new_ok:
  assumes ok: "obj_ok s L" and i: "r_initialized s" and v: "virtio s = None" and x: "obj_mem k s a = Some x" and un: "unused k a s L"
    and fr: "free_ids (r_pool s) = rid # F"
  defines "c \<equiv> alloc_next (os s)"
  obtains (failed) ret s' where "object_new k (Some a) (Some path) s = Some (ret, s')" "ret \<noteq> 0" "obj_ok s' L"
      "r_mem s' = r_mem s" "free_ids (r_pool s') = free_ids (r_pool s)" "alloc_next (os s) \<le> alloc_next (os s')"
    | (made) s' y R where "object_new k (Some a) (Some path) s = Some (VACCEL_OK, s')" "obj_ok s' (L @ [c])"
      "obj_upd k a y s s'" "o_resource y = Some c" "get_str (f_path (o_file y)) (os s') = Some path"
      "r_mem s' = (r_mem s)(c \<mapsto> R)" "res_id R = rid" "res_type R = kind_type k" "refcount R = 0" "free_ids (r_pool s') = F"
      "cleanup_resource R = Some (kind_destructor k)" "res_data R = Some a" "alloc_next (os s) \<le> alloc_next (os s')" "node (os s) path \<noteq> None \<or> path = []"
proof -
  note D = obj_okD [OF ok] and cf = fresh_resource [OF ok, folded c_def]
  show thesis
  proof (cases rule: malloc_res_cases [of s])
    case 1
    let ?s = "s\<lparr>os := (os s)\<lparr>alloc_next := Suc (alloc_next (os s))\<rparr>\<rparr>"
    have "obj_ok ?s L"
      by (rule obj_ok_same [OF ok]) (use heap_ok_skip [OF D(2)] in \<open>simp_all add: same_objects_def res_ok_cong [OF D(1)]\<close>)
    then show thesis using failed [of VACCEL_ENOMEM ?s] 1(1) by (simp add: object_new_def)
  next
    case 2
    let ?o1 = "(os s)\<lparr>alloc_next := Suc c\<rparr>"
    let ?s1 = "s\<lparr>os := ?o1, r_mem := (r_mem s)(c \<mapsto> blank_resource), r_links := add_entry (ResEntry c) RNull (r_links s)\<rparr>"
    have mr: "malloc_res s = (Some c, ?s1)" using 2(1) by (simp add: c_def)
    have op: "obj_file_op k a (\<lambda>file o'. Some (vaccel_file_new file (Some path) o')) ?s1
        = (case vaccel_file_new (Some (o_file x)) (Some path) ?o1 of (ret, Some f, o') \<Rightarrow> Some (ret, with_file k a (x\<lparr>o_file := f\<rparr>) o' s) | _ \<Rightarrow> None)"
      using x by (simp add: obj_file_op_def with_file_def c_def split: option.split prod.split) (intro allI impI, rule arg_cong [where f = "set_obj k a _"], simp)
    obtain n o2 where ac: "access path ?o1 = (n, o2)" by fastforce
    have h: "heap_of o2 = heap_of ?o1" "node o2 = node (os s)" using access_heap [OF ac] by (simp_all add: node_def fun_eq_iff)
    note hs = heap_of_strs [OF h(1)]
    have g1: "grows (os s) ?o1" using heap_ok_skip [OF D(2)] by (simp add: c_def)
    have g2: "grows ?o1 o2" by (rule same_heap_grows) (use g1 hs in \<open>simp_all add: grows_def\<close>)
    have h2: "heap_ok o2" using g2 by (simp add: grows_def)
    show thesis
    proof (cases "n = 0")
      case False
      let ?t = "with_file k a x o2 s"
      let ?u = "?t\<lparr>r_mem := (r_mem ?t)(c := None), r_links := del_entry (ResEntry c) (r_links ?t)\<rparr>"
      have t: "r_mem ?t = (r_mem s)(c \<mapsto> blank_resource)" "r_pool ?t = r_pool s" "os ?t = o2" by (simp_all add: with_file_def c_def)
      have m: "r_mem ?u = r_mem s" using t(1) cf(1) by (simp add: fun_upd_idem)
      have g: "grows (os s) (os ?u)" using grows_trans [OF g1 g2] t(3) by simp
      have "res_ok ?t L" by (rule res_ok_other [OF D(1) cf(2)]) (use t res_rundirs_kept [OF ok, of ?t] g in \<open>auto simp: with_file_def c_def\<close>)
      then have "res_ok ?u L" by (rule res_ok_other [OF _ cf(2)]) simp_all
      moreover have "same_objects s ?u"
        using set_obj_same [of k ?s1 a x] x by (cases k) (simp_all add: same_objects_def with_file_def set_obj_def obj_mem_def fun_upd_idem)
      ultimately have "obj_ok ?u L" using obj_ok_same [OF ok _ m _ g] by blast
      moreover have "object_new k (Some a) (Some path) s = Some (errno o2, ?u)"
        using mr op ac False access_heap [OF ac] t(1) by (simp add: object_new_def vaccel_file_new_def free_res_def)
      ultimately show thesis using access_heap [OF ac] False m t hs by (intro failed [of "errno o2" ?u]) (simp_all add: c_def)
    next
      case True
      show thesis
      proof (cases rule: new_str_cases [of path o2])
        case q: 1
        let ?o3 = "o2\<lparr>alloc_next := Suc (alloc_next o2)\<rparr>" and ?y = "x\<lparr>o_file := (o_file x)\<lparr>f_path := None\<rparr>\<rparr>"
        have nf: "new_file (os s) ?o3 (o_file ?y)"
          using grows_trans [OF grows_trans [OF g1 g2] heap_ok_skip [OF h2]] hs by (simp add: new_file_def file_ok_def blocks_def c_def)
        obtain u where u: "free_res (Some c) (with_file k a ?y ?o3 s) = Some u" "obj_ok u L" "r_mem u = r_mem s" "r_pool u = r_pool s" "os u = ?o3"
          unfolding c_def by (rule object_undone [OF ok un nf])
        have "object_new k (Some a) (Some path) s = Some (VACCEL_ENOMEM, u)"
          using mr op ac True q u(1) by (simp add: object_new_def vaccel_file_new_def strdup_def)
        then show thesis using u nf by (intro failed [of VACCEL_ENOMEM u]) (simp_all add: new_file_def)
      next
        case q: 2
        let ?p = "alloc_next o2"
        let ?o3 = "o2\<lparr>alloc_next := Suc ?p, strs := (strs o2)(?p \<mapsto> path)\<rparr>"
        let ?y = "x\<lparr>o_file := (o_file x)\<lparr>f_path := Some ?p, path_owned := False, f_data := DNull, f_size := 0\<rparr>\<rparr>"
        have "grows o2 ?o3" using h2 by (auto simp: grows_def heap_ok_def)
        then have nf: "new_file (os s) ?o3 (o_file ?y)"
          using grows_trans [OF grows_trans [OF g1 g2]] hs by (simp add: new_file_def file_ok_def blocks_def c_def)
        obtain s3 where s3: "resource_new (Some c) (kind_type k) (Some a) (Some (kind_destructor k)) (with_file k a ?y ?o3 s) = Some (VACCEL_OK, s3)"
          "obj_ok s3 (L @ [c])" "obj_upd k a ?y s s3" "r_mem s3 = (r_mem s)(c \<mapsto> blank_resource\<lparr>res_id := rid,
            res_type := kind_type k, res_data := Some a, cleanup_resource := Some (kind_destructor k)\<rparr>)"
          "os s3 = ?o3" "r_initialized s3" "virtio s3 = None" "free_ids (r_pool s3) = F"
          unfolding c_def by (rule object_registered_at [OF ok i v un fr nf])
        let ?z = "?y\<lparr>o_resource := Some c\<rparr>"
        let ?u = "set_obj k a ?z s3"
        have y: "obj_mem k s3 a = Some ?y" by (rule obj_upd_mem [OF s3(3)])
        have up: "obj_upd k a ?z s ?u" by (rule obj_updI(2) [OF s3(3)])
        have "object_new k (Some a) (Some path) s = Some (VACCEL_OK, ?u)"
          using mr op ac True q s3(1) y by (simp add: object_new_def vaccel_file_new_def strdup_def)
        moreover have "obj_ok ?u (L @ [c])"
        proof (rule obj_ok_upd [OF ok un up])
          show "grows (os s) (os ?u)" using nf s3(5) by (simp add: new_file_def)
          show "res_ok ?u (L @ [c])" by (rule res_ok_cong [OF obj_okD(1) [OF s3(2)]]) simp_all
          show "r_mem ?u b = r_mem s b" if "b < alloc_next (os s)" for b using that s3(4) by (simp add: c_def)
          show "b < alloc_next (os ?u)" if "r_mem ?u b \<noteq> None" for b using that obj_okD(7) [OF s3(2)] by auto
        next
          fix b r assume "rundir_of ?u b = Some r"
          then have r: "rundir_of s b = Some r" using s3(4) by (simp add: rundir_of_def blank_resource_def split: if_splits)
          then show "(rundir_of s b = Some r \<or> alloc_next (os s) \<le> r) \<and> r < alloc_next (os ?u)"
            using rundir_old [OF ok r] nf s3(5) by (simp add: new_file_def)
        next
          fix z assume "z \<in> set (blocks (o_file ?z))"
          then have z: "z = ?p" "c < ?p" using nf hs by (simp_all add: blocks_def)
          have "rundir_of s b \<noteq> Some ?p" for b using rundir_old [OF ok, of b ?p] z(2) by (auto simp: c_def)
          then show "alloc_next (os s) \<le> z \<and> (\<forall>b. rundir_of ?u b \<noteq> Some z)"
            using z s3(4) by (simp add: rundir_of_def blank_resource_def c_def split: option.splits if_splits)
        qed (use s3 nf in \<open>auto simp: new_file_def\<close>)
        moreover have "node (os s) path \<noteq> None \<or> path = []" using access_heap [OF ac] True by (simp add: node_def)
        ultimately show thesis
          by (intro made [of ?u ?z "blank_resource\<lparr>res_id := rid, res_type := kind_type k, res_data := Some a, cleanup_resource := Some (kind_destructor k)\<rparr>"])
              (use up s3 nf in \<open>simp_all add: blank_resource_def get_str_def new_file_def\<close>)
      qed
    qed
  qed
qed


subsection \<open>Destruction\<close>

text \<open>The object's resource is live and not in use: everything of it is released.\<close>

lemma object_destroy_ok:
  assumes ok: "obj_ok s L" and i: "r_initialized s" and v: "virtio s = None" and x: "obj_mem k s a = Some x" and c: "o_resource x = Some c" "c \<in> set L"
    and r: "r_mem s c = Some r" "refcount r = 0"
  obtains s' where "object_destroy k (Some a) s = Some (VACCEL_OK, s')" "obj_ok s' (remove1 c L)" "r_mem s' = (r_mem s)(c := None)"
    "same_objects s s'" "free_ids (r_pool s') = res_id r # free_ids (r_pool s)" "\<forall>f\<in>set (owned_files s c). gone (os s') f"
    "\<And>p. res_rundir r = Some p \<Longrightarrow> strs (os s') p = None" "frees (set (owned s c) \<union> set_option (res_rundir r)) (os s) (os s')"
proof -
  obtain t where t: "resource_destroy call_destructor (Some c) s = Some (VACCEL_OK, t)" "obj_ok t (remove1 c L)" "r_mem t = r_mem s"
    "r_initialized t" "virtio t = None" "same_objects s t" "free_ids (r_pool t) = res_id r # free_ids (r_pool s)"
    "\<forall>f\<in>set (owned_files s c). gone (os t) f" "frees (set (owned s c) \<union> set_option (res_rundir r)) (os s) (os t)"
    "\<And>p. res_rundir r = Some p \<Longrightarrow> strs (os t) p = None"
    by (rule destroy_object [OF ok i v c(2) r]) (rule that)
  have xt: "obj_mem k t a = Some x" using t(6) x by (cases k) (simp_all add: same_objects_def obj_mem_def)
  have nc: "c \<notin> set (remove1 c L)" using res_ok_distinct [OF obj_okD(1) [OF ok]] by (simp add: set_remove1_eq)
  have mc: "r_mem t c \<noteq> None" using t(3) r(1) by simp
  obtain u where u: "free_res (Some c) t = Some u" "obj_ok u (remove1 c L)" "r_mem u = (r_mem t)(c := None)" "same_objects t u"
    "os u = os t" "r_pool u = r_pool t" "virtio u = virtio t" "r_initialized u = r_initialized t"
    by (rule free_res_ok [OF t(2) nc mc])
  have "object_destroy k (Some a) s = Some (VACCEL_OK, u)" using x c(1) r(1) t(1) xt u(1) by (simp add: object_destroy_def)
  then show thesis by (rule that) (use t u same_objects_trans [OF t(6) u(4)] in simp_all)
qed

text \<open>While a session uses the resource its memory is freed all the same.\<close>

lemma object_destroy_busy:
  assumes i: "r_initialized s" and x: "obj_mem k s a = Some x" and c: "o_resource x = Some c"
    and r: "r_mem s c = Some r" "refcount r \<noteq> 0"
  shows "object_destroy k (Some a) s = Some (VACCEL_OK, s\<lparr>r_mem := (r_mem s)(c := None), r_links := del_entry (ResEntry c) (r_links s)\<rparr>)"
  using assms by (simp add: object_destroy_def resource_destroy_def free_res_def)


subsection \<open>A machine with one shared object\<close>

definition no_object :: file_object where
  "no_object = \<lparr>o_resource = None, o_file = \<lparr>f_path = None, path_owned = False, f_data = DNull, f_size = 0\<rparr>\<rparr>"

definition obj_booted :: obj_state where
  "obj_booted = sess_state.extend (res_state.extend (res_booted\<lparr>r_mem := Map.empty\<rparr>) \<lparr>s_initialized = False,
     s_ids = \<lparr>ids = Null, max_ids = 0, next_id = 0\<rparr>, running = [], s_links = self_linked, s_mem = (\<lambda>_. Some no_session),
     sr_mem = Map.empty, reg_mem = Map.empty\<rparr>)
     \<lparr>so_mem = (\<lambda>_. Some no_object), tfm_mem = (\<lambda>_. Some no_object), tsm_mem = Map.empty, trm_mem = Map.empty\<rparr>"

lemma obj_booted: "obj_ok obj_booted []" "r_initialized obj_booted" "virtio obj_booted = None" "obj_mem k obj_booted a = Some no_object"
  "unused k a obj_booted []" "free_ids (r_pool obj_booted) = 1 # map int [2..<Suc MAX_RESOURCES]" "r_mem obj_booted = Map.empty"
  "os obj_booted = calm_os\<lparr>alloc_next := 2\<rparr>"
proof -
  note d = obj_booted_def sess_state.defs res_state.defs
  have e: "r_mem obj_booted = Map.empty" "r_pool obj_booted = r_pool res_booted" "r_links obj_booted = r_links res_booted"
    "os obj_booted = calm_os\<lparr>alloc_next := 2\<rparr>" by (simp_all add: d res_booted)
  show "r_mem obj_booted = Map.empty" "os obj_booted = calm_os\<lparr>alloc_next := 2\<rparr>" "r_initialized obj_booted" "virtio obj_booted = None"
    by (simp_all add: e) (simp_all add: d res_booted)
  have "res_ok obj_booted []" using res_booted(1) by (simp add: res_ok_def rundirs_ok_def e)
  moreover have "heap_ok (os obj_booted)" by (simp add: e heap_ok_def calm_os_def)
  ultimately show "obj_ok obj_booted []" by (simp add: obj_ok_def e)
  show "obj_mem k obj_booted a = Some no_object" by (cases k) (simp_all add: obj_mem_def d)
  show "unused k a obj_booted []" by (simp add: unused_def)
  have "1 < Suc MAX_RESOURCES" by (simp add: MAX_RESOURCES_def)
  then have "[1..<Suc MAX_RESOURCES] = 1 # [Suc 1..<Suc MAX_RESOURCES]" by (rule upt_conv_Cons)
  then show "free_ids (r_pool obj_booted) = 1 # map int [2..<Suc MAX_RESOURCES]"
    unfolding e res_booted(5) by (simp add: numeral_2_eq_2 del: upt_Suc)
qed

text \<open>The shared object at 30 has the resource at 2, with id 1 and no file of its own.\<close>

lemma obj_one:
  obtains s :: obj_state where "obj_ok s [2]" "r_initialized s" "virtio s = None" "obj_mem Shared_Obj s 30 = Some (no_object\<lparr>o_resource := Some 2\<rparr>)"
    "r_mem s = [2 \<mapsto> blank_resource\<lparr>res_id := 1, res_type := 3, res_data := Some 30, cleanup_resource := Some Shared_Object_Destructor\<rparr>]"
proof -
  have a2: "alloc_next (os obj_booted) = 2" by (simp add: obj_booted(8))
  obtain t where t: "obj_ok t ([] @ [2])" "obj_upd Shared_Obj 30 no_object obj_booted t"
    "r_mem t = [2 \<mapsto> blank_resource\<lparr>res_id := 1, res_type := 3, res_data := Some 30, cleanup_resource := Some Shared_Object_Destructor\<rparr>]"
    "os t = (os obj_booted)\<lparr>alloc_next := Suc 2\<rparr>" "r_initialized t" "virtio t = None"
  proof (rule object_registered [OF obj_booted(1-6), of "o_file no_object" Shared_Obj 30], goal_cases)
    case 1 then show ?case by (simp add: no_object_def)
  next
    case (2 t) show ?case by (rule 2(1)) (use 2 a2 obj_booted(7) in \<open>simp_all add: kind_type_def kind_destructor_def no_object_def\<close>)
  qed
  let ?y = "no_object\<lparr>o_resource := Some 2\<rparr>"
  let ?u = "set_obj Shared_Obj 30 ?y t"
  have up: "obj_upd Shared_Obj 30 ?y obj_booted ?u" by (rule obj_updI(2) [OF t(2)])
  have "obj_ok ?u ([] @ [2])"
  proof (rule obj_ok_upd [OF obj_booted(1,5) up])
    show "res_ok ?u ([] @ [2])" by (rule res_ok_cong [OF obj_okD(1) [OF t(1)]]) simp_all
    show "grows (os obj_booted) (os ?u)" using heap_ok_skip [OF obj_okD(2) [OF obj_booted(1)]] t(4) a2 by simp
    show "[2] = [] \<or> (\<exists>c r. [2] = [c] \<and> r_mem ?u c = Some r \<and> cleanup_resource r = Some (kind_destructor Shared_Obj) \<and> res_data r = Some 30)"
      by (simp add: t(3) kind_destructor_def)
  qed (use t(3,4) a2 in \<open>auto simp: no_object_def file_ok_def blocks_def rundir_of_def blank_resource_def obj_booted(7) split: if_splits\<close>)
  then show thesis by (intro that [of ?u]) (use t in simp_all)
qed


subsection \<open>When nothing fails\<close>

lemma dirname_join: "CHR ''/'' \<notin> set name \<Longrightarrow> dirname (d @ ''/'' @ name) = d"
  by (simp add: dirname_def dropWhile_append)

lemma dec_digits_no_slash: "CHR ''/'' \<notin> set (dec_digits n)"
proof (induction n rule: dec_digits.induct)
  case (1 n)
  have "CHR ''/'' \<noteq> char_of (48 + d)" if "d < 10" for d :: nat
  proof
    assume "CHR ''/'' = char_of (48 + d)"
    then have "of_char (CHR ''/'') = (of_char (char_of (48 + d) :: char) :: nat)" by (rule arg_cong)
    then show False using that by (simp only: of_char_digit) simp
  qed
  then show ?case using 1 by (subst dec_digits.simps) simp
qed

lemma int_digits_no_slash: "CHR ''/'' \<notin> set (int_digits i)"
  by (simp add: int_digits_def dec_digits_no_slash)

lemma mkdir_calm_ok:
  assumes "calm s" "node s p = None" "is_dir s (dirname p)"
  obtains s' where "mkdir p s = (0, s')" "node s' = (node s)(p \<mapsto> Dir)" "calm s'" "heap_of s' = heap_of s"
proof -
  have "mkdir p s = (0, set_node p Dir (s\<lparr>sys_next := Suc (sys_next s)\<rparr>))"
    by (rule mkdir_calm) (use assms in \<open>simp_all add: calm_def\<close>)
  then show thesis using that mkdir_ok [of p s] assms(1) by (simp add: calm_def set_node_def)
qed

lemma create_rundir_new:
  assumes "r_mem s a = Some r" "calm (os s)" "node (os s) path = None" "is_dir (os s) (rundir s)" "length path < MAX_RESOURCE_RUNDIR"
    and path_def: "path = resource_path s (res_id r)"
  obtains o' where "resource_create_rundir (Some a) s = Some (VACCEL_OK, s\<lparr>os := o', r_mem := (r_mem s)(a \<mapsto> r\<lparr>res_rundir := Some (alloc_next (os s))\<rparr>)\<rparr>)"
    "node o' = (node (os s))(path \<mapsto> Dir)" "calm o'" "strs o' = (strs (os s))(alloc_next (os s) \<mapsto> path)" "alloc_next o' = Suc (alloc_next (os s))"
proof -
  have "resource_path s (res_id r) = rundir s @ ''/'' @ (''resource.'' @ int_digits (res_id r))" by (simp add: resource_path_def)
  then have "dirname path = rundir s" unfolding path_def by (simp only:) (rule dirname_join, simp add: int_digits_no_slash)
  then obtain o1 where m: "mkdir path (os s) = (0, o1)" "node o1 = (node (os s))(path \<mapsto> Dir)" "calm o1" "heap_of o1 = heap_of (os s)"
    using mkdir_calm_ok [of "os s" path] assms(2-4) by metis
  note h = heap_ofD [OF m(4)]
  let ?o = "o1\<lparr>alloc_next := Suc (alloc_next o1), strs := (strs o1)(alloc_next o1 \<mapsto> path)\<rparr>"
  have sn: "snprintf MAX_RESOURCE_RUNDIR (vaccel_rundir s @ ''/resource.'' @ int_digits (res_id r)) = (length path, path)"
    using assms(5) by (simp add: snprintf_def vaccel_rundir_def path_def resource_path_def del: MAX_RESOURCE_RUNDIR_def)
  have st: "strndup path MAX_RESOURCE_RUNDIR o1 = (Some (alloc_next o1), ?o)"
    using assms(5) m(3) by (simp add: strndup_def new_str_def malloc_def calm_def del: MAX_RESOURCE_RUNDIR_def)
  have "resource_create_rundir (Some a) s = Some (VACCEL_OK, s\<lparr>os := ?o, r_mem := (r_mem s)(a \<mapsto> r\<lparr>res_rundir := Some (alloc_next (os s))\<rparr>)\<rparr>)"
    using assms(1,5) sn st m(1) h(2) by (simp add: resource_create_rundir_def os_call_def r_set_def Let_def del: MAX_RESOURCE_RUNDIR_def)
  moreover have "node ?o = (node (os s))(path \<mapsto> Dir)" unfolding m(2) [symmetric] by (simp add: node_def fun_eq_iff)
  ultimately show thesis using that [of ?o] m(3) h by (simp add: calm_def)
qed

lemma rundir_kept: "r_do f s = Some s' \<Longrightarrow> rundir s' = rundir s" "r_pool_get s = Some (i, s') \<Longrightarrow> rundir s' = rundir s"
  by (auto simp: r_do_def r_pool_get_def bind_eq_Some_conv)

lemma resource_new_rundir:
  assumes "resource_new (Some a) ty data cl s = Some (VACCEL_OK, s')" "virtio s = None"
  shows "rundir s' = rundir s"
proof -
  have v: "get_virtio_plugin s = None" using assms(2) by (simp add: get_virtio_plugin_def)
  have "r_initialized s" "\<not> VACCEL_RES_MAX \<le> ty" using assms(1) by (auto simp: resource_new_def split: if_splits)
  then obtain r i s1 where "r_mem s a = Some r" and p: "r_pool_get s = Some (i, s1)"
    using assms(1) v by (auto simp: resource_new_def simp del: VACCEL_RES_MAX_def split: Option.bind_splits)
  then obtain r1 s2 s3 r3 where "r_do (list_init_entry (ResEntry a)) (r_set a r1 s1) = Some s2" "r_do (list_add_tail (LiveHead 0) (ResEntry a)) s2 = Some s3"
    "s' = r_set a r3 s3"
    using assms(1) v by (auto simp: resource_new_def Let_def split: if_splits Option.bind_splits)
  then show ?thesis using rundir_kept(2) [OF p] by (auto simp: r_set_def dest!: rundir_kept(1))
qed

lemma model_from_buffer_calm:
  assumes ok: "obj_ok s L" and i: "r_initialized s" and v: "virtio s = None" and x: "obj_mem Tf_Model s a = Some x" and un: "unused Tf_Model a s L"
    and fr: "free_ids (r_pool s) = rid # F" and bs: "bs \<noteq> []"
    and os: "calm (os s)" "is_dir (os s) (rundir s)" "node (os s) rd = None" "node (os s) (rd @ ''/model.pb'') = None"
      "length rd < MAX_RESOURCE_RUNDIR" "rd = resource_path s rid"
  shows "\<exists>s'. object_new_from_buffer Tf_Model (Some a) (User bs) (length bs) s = Some (VACCEL_OK, s') \<and> calm (os s')"
proof -
  let ?c = "alloc_next (os s)" and ?F0 = "(o_file x)\<lparr>f_path := None, f_data := User bs, f_size := length bs\<rparr>"
  let ?y0 = "x\<lparr>o_file := ?F0\<rparr>"
  let ?R = "blank_resource\<lparr>res_id := rid, res_type := kind_type Tf_Model, res_data := Some a, cleanup_resource := Some (kind_destructor Tf_Model)\<rparr>"
  let ?s1 = "s\<lparr>os := (os s)\<lparr>alloc_next := Suc ?c\<rparr>, r_mem := (r_mem s)(?c \<mapsto> blank_resource), r_links := add_entry (ResEntry ?c) RNull (r_links s)\<rparr>"
  have mr: "malloc_res s = (Some ?c, ?s1)" using os(1) by (cases rule: malloc_res_cases [of s]) (simp_all add: calm_def)
  have F0: "f_path ?F0 = None" by simp
  obtain s3 where s3: "resource_new (Some ?c) (kind_type Tf_Model) (Some a) (Some (kind_destructor Tf_Model)) (set_obj Tf_Model a ?y0 ?s1) = Some (VACCEL_OK, s3)"
    "obj_ok s3 (L @ [?c])" "obj_upd Tf_Model a ?y0 s s3" "r_mem s3 = (r_mem s)(?c \<mapsto> ?R)" "os s3 = (os s)\<lparr>alloc_next := Suc ?c\<rparr>"
    "r_initialized s3" "virtio s3 = None" "free_ids (r_pool s3) = F"
    by (rule object_registered [OF ok i v x un fr F0])
  have op1: "obj_file_op Tf_Model a (\<lambda>file. vaccel_file_from_buffer file (User bs) (length bs) None False None False) ?s1
      = Some (VACCEL_OK, set_obj Tf_Model a ?y0 ?s1)"
    using x bs by (simp add: obj_file_op_def vaccel_file_from_buffer_def Let_def) (rule arg_cong [where f = "set_obj Tf_Model a _"], simp)
  have "rundir s3 = rundir s" using resource_new_rundir [OF s3(1)] v by (simp add: set_obj_def)
  then have rd: "rundir s3 = rundir s" "rd = resource_path s3 (res_id ?R)" using os(6) by (simp_all add: resource_path_def)
  have nd: "node (os s3) = node (os s)" "calm (os s3)" using os(1) by (simp_all add: s3(5) node_def calm_def fun_eq_iff)
  have R: "r_mem s3 ?c = Some ?R" using s3(4) by simp
  obtain o' where o': "resource_create_rundir (Some ?c) s3 = Some (VACCEL_OK, s3\<lparr>os := o', r_mem := (r_mem s3)(?c \<mapsto> ?R\<lparr>res_rundir := Some (alloc_next (os s3))\<rparr>)\<rparr>)"
    "node o' = (node (os s3))(rd \<mapsto> Dir)" "calm o'" "strs o' = (strs (os s3))(alloc_next (os s3) \<mapsto> rd)"
    by (rule create_rundir_new [OF R nd(2) _ _ os(5) rd(2)]) (use os(2,3) nd(1) rd(1) in \<open>simp_all add: is_dir_def\<close>)
  let ?t = "s3\<lparr>os := o', r_mem := (r_mem s3)(?c \<mapsto> ?R\<lparr>res_rundir := Some (alloc_next (os s3))\<rparr>)\<rparr>"
  have y: "obj_mem Tf_Model s3 a = Some ?y0" by (rule obj_upd_mem [OF s3(3)])
  obtain f' o2 where p: "vaccel_file_persist (Some ?F0) (Some rd) (Some ''model.pb'') False o' = Some (VACCEL_OK, Some f', o2)" "calm o2"
  proof (rule persist_calm [of ?F0 bs o' rd "''model.pb''"])
    show "dirname (rd @ ''/'' @ ''model.pb'') = rd" by (rule dirname_join) simp
    show "node o' (rd @ ''/'' @ ''model.pb'') \<noteq> Some Dir" using o'(2) nd(1) os(4) by simp
  qed (use bs o'(2,3) that in \<open>simp_all add: is_dir_def\<close>)
  have "obj_file_op Tf_Model a (\<lambda>file. vaccel_file_persist file (Some rd) (Some ''model.pb'') False) ?t
      = Some (VACCEL_OK, set_obj Tf_Model a (?y0\<lparr>o_file := f'\<rparr>) (?t\<lparr>os := o2\<rparr>))"
    using y p by (simp add: obj_file_op_def obj_mem_def)
  moreover have "get_str (Some (alloc_next (os s3))) (os ?t) = Some rd" using o'(4) by (simp add: get_str_def)
  ultimately show ?thesis using mr op1 s3(1) y bs o'(1)
    using p(2) by (simp add: object_new_from_buffer_def kind_file_def obj_mem_def set_obj_def cong: if_cong)
qed

subsection \<open>Properties\<close>

text \<open>
  C9. Creating a shared object or a TensorFlow model from a non-empty buffer, in a library without a VirtIO plugin, with a free id and with the memory of an object
  that no live resource uses: either it fails, and the resource made for it is gone, its
  id is free again and everything that was owned still is; or the object has a new live resource with the first free id, and its file
  holds the bytes of the buffer, unless closing the file, the last system call, failed: then success is reported all the same, and the file holds a first part only.
\<close>

theorem object_new_from_buffer_correct:
  assumes "obj_ok s L" "r_initialized s" "virtio s = None" "obj_mem k s a = Some x" "unused k a s L" "free_ids (r_pool s) = rid # F" "bs \<noteq> []"
  shows "\<exists>ret s'. object_new_from_buffer k (Some a) (User bs) (length bs) s = Some (ret, s')
    \<and> (if ret \<noteq> VACCEL_OK then obj_ok s' L \<and> r_mem s' = r_mem s \<and> free_ids (r_pool s') = free_ids (r_pool s)
       else \<exists>y path. obj_ok s' (L @ [alloc_next (os s)]) \<and> obj_mem k s' a = Some y \<and> o_resource y = Some (alloc_next (os s))
         \<and> object_get_id k (Some a) s' = Some rid \<and> free_ids (r_pool s') = F
         \<and> get_str (f_path (o_file y)) (os s') = Some path
         \<and> (\<exists>n. node (os s') path = Some (File (if last_call_ok (os s') then bs else take n bs))))"
proof (cases rule: object_new_from_buffer_ok [OF assms])
  case (1 ret s')
  then show ?thesis by (intro exI [of _ ret] exI [of _ s']) simp
next
  case (2 s' y R path)
  have y: "obj_mem k s' a = Some y" by (rule obj_upd_mem [OF 2(3)])
  then have "object_get_id k (Some a) s' = Some rid" using 2(4,7,8) by (simp add: object_get_id_def)
  then show ?thesis using 2(1,2,4-6,11) [unfolded written_def] y by (intro exI [of _ "VACCEL_OK"] exI [of _ s']) auto
qed

theorem object_new_from_buffer_correct_witness:
  "\<exists>s' y path. object_new_from_buffer Tf_Model (Some 30) (User [1, 2]) 2 obj_booted = Some (VACCEL_OK, s') \<and> obj_mem Tf_Model s' 30 = Some y
    \<and> object_get_id Tf_Model (Some 30) s' = Some 1 \<and> get_str (f_path (o_file y)) (os s') = Some path \<and> node (os s') path = Some (File [1, 2])"
proof -
  have r: "rundir obj_booted = ''/run''" using res_booted(6) by (simp add: obj_booted_def sess_state.defs res_state.defs)
  have d: "dec_digits 1 = ''1''" by code_simp
  have c: "calm (os obj_booted)" "is_dir (os obj_booted) (rundir obj_booted)" "node (os obj_booted) ''/run/resource.1'' = None"
    "node (os obj_booted) (''/run/resource.1'' @ ''/model.pb'') = None" "length ''/run/resource.1'' < MAX_RESOURCE_RUNDIR"
    "''/run/resource.1'' = resource_path obj_booted 1"
    by (simp_all add: obj_booted(8) calm_def calm_os_def is_dir_def node_def r resource_path_def int_digits_def d d [unfolded One_nat_def])
  have n: "[1, 2] \<noteq> ([] :: u8 list)" by simp
  obtain s' where s': "object_new_from_buffer Tf_Model (Some 30) (User [1, 2]) (length [1 :: u8, 2]) obj_booted = Some (VACCEL_OK, s')" "calm (os s')"
    using model_from_buffer_calm [OF obj_booted(1-6) n c] by blast
  from object_new_from_buffer_correct [OF obj_booted(1-6) n, of Tf_Model 30] s'(1) obtain y path where
    "obj_mem Tf_Model s' 30 = Some y" "object_get_id Tf_Model (Some 30) s' = Some 1" "get_str (f_path (o_file y)) (os s') = Some path"
    "\<exists>n. node (os s') path = Some (File (if last_call_ok (os s') then [1, 2] else take n [1, 2]))" by auto
  moreover have "last_call_ok (os s')" using s'(2) by (simp add: calm_def last_call_ok_def)
  ultimately show ?thesis using s'(1) by (intro exI [of _ s'] exI [of _ y] exI [of _ path]) (simp add: numeral_2_eq_2)
qed

text \<open>
  C10. Destroying an object whose resource no session uses, in a library without a VirtIO plugin: its file and its directory's name are released and nothing else of the heap,
  the resource's memory is freed, its id is free again, and all other objects keep what they own.
\<close>

theorem object_destroy_correct:
  assumes "obj_ok s L" "r_initialized s" "virtio s = None" "obj_mem k s a = Some x" "o_resource x = Some c" "c \<in> set L"
    "r_mem s c = Some r" "refcount r = 0"
  shows "\<exists>s'. object_destroy k (Some a) s = Some (VACCEL_OK, s') \<and> obj_ok s' (remove1 c L) \<and> r_mem s' = (r_mem s)(c := None)
    \<and> free_ids (r_pool s') = res_id r # free_ids (r_pool s) \<and> (\<forall>f\<in>set (owned_files s c). gone (os s') f)
    \<and> (\<forall>p. res_rundir r = Some p \<longrightarrow> strs (os s') p = None) \<and> frees (held s c) (os s) (os s')"
proof (rule object_destroy_ok [OF assms])
  have h: "held s c = set (owned s c) \<union> set_option (res_rundir r)" using assms(7) by (simp add: held_def rundir_of_def)
  fix s' assume "object_destroy k (Some a) s = Some (VACCEL_OK, s')" "obj_ok s' (remove1 c L)" "r_mem s' = (r_mem s)(c := None)"
    "same_objects s s'" "free_ids (r_pool s') = res_id r # free_ids (r_pool s)" "\<forall>f\<in>set (owned_files s c). gone (os s') f"
    "\<And>p. res_rundir r = Some p \<Longrightarrow> strs (os s') p = None" "frees (set (owned s c) \<union> set_option (res_rundir r)) (os s) (os s')"
  then show ?thesis unfolding h by (intro exI [of _ s']) simp
qed

theorem object_destroy_correct_witness:
  "\<exists>(s :: obj_state) s'. object_destroy Shared_Obj (Some 30) s = Some (VACCEL_OK, s') \<and> r_mem s 2 \<noteq> None \<and> r_mem s' 2 = None"
proof (rule obj_one)
  fix s :: obj_state
  let ?r = "blank_resource\<lparr>res_id := 1, res_type := 3, res_data := Some 30, cleanup_resource := Some Shared_Object_Destructor\<rparr>"
  assume s: "obj_ok s [2]" "r_initialized s" "virtio s = None" "obj_mem Shared_Obj s 30 = Some (no_object\<lparr>o_resource := Some 2\<rparr>)"
    "r_mem s = [2 \<mapsto> ?r]"
  have "r_mem s 2 = Some ?r" by (simp add: s(5))
  from object_destroy_correct [OF s(1-4) _ _ this] s(5) show ?thesis by - (rule exI [of _ s], auto simp: blank_resource_def)
qed

text \<open>
  Destroying an object whose resource a session still uses reports success and frees the memory of the resource, although
  \<open>resource_destroy\<close> refused: the resource stays in the list of live ones, so that looking at it again (another destroy, its id) reads
  memory that is gone.
\<close>

theorem object_destroy_in_use:
  assumes "r_initialized s" "obj_mem k s a = Some x" "o_resource x = Some c" "r_mem s c = Some r" "refcount r \<noteq> 0"
  shows "\<exists>s'. object_destroy k (Some a) s = Some (VACCEL_OK, s') \<and> r_mem s' c = None \<and> r_pool s' = r_pool s
    \<and> object_get_id k (Some a) s' = None \<and> object_destroy k (Some a) s' = None"
  using object_destroy_busy [OF assms] assms by (simp add: object_get_id_def object_destroy_def)

theorem object_destroy_in_use_witness:
  "\<exists>(s :: obj_state) s'. object_destroy Shared_Obj (Some 30) s = Some (VACCEL_OK, s') \<and> object_get_id Shared_Obj (Some 30) s' = None"
proof -
  let ?s = "obj_booted\<lparr>r_mem := [2 \<mapsto> blank_resource\<lparr>refcount := 1\<rparr>], so_mem := [30 \<mapsto> no_object\<lparr>o_resource := Some 2\<rparr>]\<rparr>"
  have i: "r_initialized ?s" using obj_booted(2) by simp
  have "obj_mem Shared_Obj ?s 30 = Some (no_object\<lparr>o_resource := Some 2\<rparr>)" by (simp add: obj_mem_def)
  from object_destroy_in_use [OF i this, of 2 "blank_resource\<lparr>refcount := 1\<rparr>"] show ?thesis by auto
qed

text \<open>
  C21. At exit, with no resource in use by a session, \<open>resources_cleanup\<close> destroys every live resource:
  the path strings and mappings of all their files and the names of their directories are released,
  each once, no other block of the heap is touched, and the pool of ids is freed. As \<open>initialized\<close>
  stays true, a second \<open>resources_cleanup\<close> frees the pool again.
\<close>

theorem resources_cleanup_correct:
  assumes "obj_ok s L" "r_initialized s" "virtio s = None" "\<And>a. a \<in> set L \<Longrightarrow> refs_of s a = 0"
  shows "\<exists>s'. resources_cleanup call_destructor s = Some (VACCEL_OK, s')
    \<and> (\<forall>a\<in>set L. (\<forall>f\<in>set (owned_files s a). gone (os s') f) \<and> (\<forall>p. rundir_of s a = Some p \<longrightarrow> strs (os s') p = None))
    \<and> frees (\<Union>a\<in>set L. held s a) (os s) (os s') \<and> ids (r_pool s') = Freed
    \<and> resources_cleanup call_destructor s' = None"
proof -
  have "swept s L L s" using assms by (simp add: swept_def same_objects_def)
  from sweep.cleanup_all [OF this] obtain t p where t: "resources_cleanup call_destructor s = Some (VACCEL_OK, t\<lparr>r_pool := p\<rparr>)"
    "swept s L [] t" "ids p = Freed" "resources_cleanup call_destructor (t\<lparr>r_pool := p\<rparr>) = None" by blast
  then show ?thesis by (intro exI [of _ "t\<lparr>r_pool := p\<rparr>"]) (simp add: swept_def)
qed

theorem resources_cleanup_correct_witness:
  "\<exists>s s'. resources_cleanup call_destructor (s :: obj_state) = Some (VACCEL_OK, s') \<and> r_mem s 2 \<noteq> None \<and> ids (r_pool s') = Freed"
proof (rule obj_one)
  fix s :: obj_state
  assume s: "obj_ok s [2]" "r_initialized s" "virtio s = None"
    "r_mem s = [2 \<mapsto> blank_resource\<lparr>res_id := 1, res_type := 3, res_data := Some 30, cleanup_resource := Some Shared_Object_Destructor\<rparr>]"
  have "refs_of s a = 0" if "a \<in> set [2]" for a using that s(4) by (simp add: refs_of_def blank_resource_def)
  from resources_cleanup_correct [OF s(1-3) this] s(4) show ?thesis by - (rule exI [of _ s], auto)
qed

end
