(* ===== verification/Saved_Models.thy ===== *)
theory Saved_Models
  imports Shared_Objects
begin

text \<open>
  Saved models: TensorFlow (\<^verbatim>\<open>src/src/resources/tf_saved_model.c\<close>, three files) and Torch
  (\<^verbatim>\<open>src/src/resources/torch_saved_model.c\<close>, one file). A model is filled in from an export
  directory, where the files are found by regular expressions, or from buffers, and is then
  registered as a resource.
\<close>

subsection \<open>Regular expressions\<close>

text \<open>
  \<open>regexec\<close> for what the patterns of the source use of POSIX extended expressions: characters, the
  dot, a star after one of them and a dollar at the end; a match may start anywhere.
\<close>

function match_here :: "string \<Rightarrow> string \<Rightarrow> bool" where
  "match_here [] s = True"
| "match_here (c # p) s =
     (if p \<noteq> [] \<and> hd p = CHR ''*''
      then match_here (tl p) s \<or> (case s of [] \<Rightarrow> False | x # xs \<Rightarrow> (c = CHR ''.'' \<or> c = x) \<and> match_here (c # p) xs)
      else if c = CHR ''$'' \<and> p = [] then s = []
      else (case s of [] \<Rightarrow> False | x # xs \<Rightarrow> (c = CHR ''.'' \<or> c = x) \<and> match_here p xs))"
  by pat_completeness auto
termination
  by (relation "measure (\<lambda>(p, s). length p + length s)") auto

definition regexec :: "string \<Rightarrow> string \<Rightarrow> bool" where
  "regexec p name \<longleftrightarrow> list_ex (\<lambda>k. match_here p (drop k name)) [0..<Suc (length name)]"

text \<open>
  \<open>readdir\<close> also gives the entries dot and dot-dot, which none of the patterns matches. \<open>regcomp\<close>
  of a constant pattern fails only when it cannot allocate.
\<close>

definition file_from_regex :: "vaccel_file option \<Rightarrow> string \<Rightarrow> string \<Rightarrow> os_state \<Rightarrow> (int \<times> vaccel_file option \<times> os_state) option" where
  "file_from_regex file dirpath pattern s = (case malloc s of
       (None, s) \<Rightarrow> Some (VACCEL_EINVAL, file, s)
     | (Some _, s) \<Rightarrow> (let (found, s) = opendir dirpath s in
         if \<not> found then Some (VACCEL_EINVAL, file, s)
         else (case find (regexec pattern) (children s dirpath) of
             None \<Rightarrow> Some (VACCEL_OK, file, s)
           | Some name \<Rightarrow> (let (len, path) = snprintf MAX_PATH (dirpath @ ''/'' @ name) in
               if MAX_PATH \<le> len then Some (VACCEL_ENAMETOOLONG, file, s)
               else Some (vaccel_file_new file (Some path) s)))))"

subsection \<open>TensorFlow: the files of a model\<close>

datatype slot = Model | Checkpoint | Var_Index

definition tsm_file :: "slot \<Rightarrow> tf_saved_model \<Rightarrow> vaccel_file" where
  "tsm_file i m = (case i of Model \<Rightarrow> tsm_model m | Checkpoint \<Rightarrow> tsm_checkpoint m | Var_Index \<Rightarrow> tsm_var_index m)"

definition set_tsm_file :: "slot \<Rightarrow> vaccel_file \<Rightarrow> tf_saved_model \<Rightarrow> tf_saved_model" where
  "set_tsm_file i f m = (case i of Model \<Rightarrow> m\<lparr>tsm_model := f\<rparr> | Checkpoint \<Rightarrow> m\<lparr>tsm_checkpoint := f\<rparr> | Var_Index \<Rightarrow> m\<lparr>tsm_var_index := f\<rparr>)"

definition tsm_do :: "slot \<Rightarrow> addr \<Rightarrow> (vaccel_file option \<Rightarrow> os_state \<Rightarrow> ('r \<times> vaccel_file option \<times> os_state) option)
    \<Rightarrow> 'z obj_state_scheme \<Rightarrow> ('r \<times> 'z obj_state_scheme) option" where
  "tsm_do i a f s = do {
     m \<leftarrow> tsm_mem s a;
     (ret, file, o') \<leftarrow> f (Some (tsm_file i m)) (os s);
     file \<leftarrow> file;
     Some (ret, s\<lparr>os := o', tsm_mem := (tsm_mem s)(a \<mapsto> set_tsm_file i file m)\<rparr>) }"

fun tsm_destroy :: "slot list \<Rightarrow> addr \<Rightarrow> 'z obj_state_scheme \<Rightarrow> 'z obj_state_scheme option" where
  "tsm_destroy [] a s = Some s"
| "tsm_destroy (i # rest) a s = do { m \<leftarrow> tsm_mem s a; s \<leftarrow> destroy_file (tsm_file i m) s; tsm_destroy rest a s }"

subsection \<open>TensorFlow: operations\<close>

definition empty_file :: vaccel_file where
  "empty_file = \<lparr>f_path = None, path_owned = False, f_data = DNull, f_size = 0\<rparr>"

definition vaccel_tf_saved_model_new :: "'z obj_state_scheme \<Rightarrow> ptr \<times> 'z obj_state_scheme" where
  "vaccel_tf_saved_model_new s = (case os_call malloc s of
       (None, s) \<Rightarrow> (None, s)
     | (Some a, s) \<Rightarrow> (Some a, s\<lparr>tsm_mem := (tsm_mem s)(a \<mapsto> \<lparr>tsm_resource = None, tsm_path = None,
         tsm_model = empty_file, tsm_checkpoint = empty_file, tsm_var_index = empty_file\<rparr>)\<rparr>))"

definition vaccel_tf_saved_model_set_path :: "ptr \<Rightarrow> string \<Rightarrow> 'z obj_state_scheme \<Rightarrow> (int \<times> 'z obj_state_scheme) option" where
  "vaccel_tf_saved_model_set_path model path s = (case model of
       None \<Rightarrow> Some (VACCEL_EINVAL, s)
     | Some a \<Rightarrow>
       (let (found, s) = os_call (dir_exists path) s in
        if \<not> found then Some (VACCEL_EINVAL, s)
        else (let (len, var_path) = snprintf MAX_PATH (path @ ''/variables'') in
          if MAX_PATH \<le> len then Some (VACCEL_ENAMETOOLONG, s)
          else do {
            (ret, s) \<leftarrow> tsm_do Model a (\<lambda>f. file_from_regex f path ''saved_model.pb$'') s;
            if ret \<noteq> 0 then Some (VACCEL_ENOENT, s)
            else do {
              (ret, s) \<leftarrow> tsm_do Checkpoint a (\<lambda>f. file_from_regex f var_path ''variables.data-*'') s;
              if ret \<noteq> 0 then do { s \<leftarrow> tsm_destroy [Model] a s; Some (ret, s) }
              else do {
                (ret, s) \<leftarrow> tsm_do Var_Index a (\<lambda>f. file_from_regex f var_path ''variables.index'') s;
                if ret \<noteq> 0 then do { s \<leftarrow> tsm_destroy [Checkpoint, Model] a s; Some (ret, s) }
                else do {
                  let (p, s) = os_call (strdup path) s;
                  m \<leftarrow> tsm_mem s a;
                  let s = s\<lparr>tsm_mem := (tsm_mem s)(a \<mapsto> m\<lparr>tsm_path := p\<rparr>)\<rparr>;
                  if p = None then do { s \<leftarrow> tsm_destroy [Var_Index, Checkpoint, Model] a s; Some (VACCEL_ENOMEM, s) }
                  else Some (VACCEL_OK, s\<lparr>tsm_mem := (tsm_mem s)(a \<mapsto> m\<lparr>tsm_path := p, tsm_resource := None\<rparr>)\<rparr>) } } } })))"

definition vaccel_tf_saved_model_get_path :: "ptr \<Rightarrow> 'z obj_state_scheme \<Rightarrow> ptr option" where
  "vaccel_tf_saved_model_get_path model s = (case model of
       None \<Rightarrow> Some None
     | Some a \<Rightarrow> do { m \<leftarrow> tsm_mem s a; Some (tsm_path m) })"

text \<open>Setting each of the three files from a buffer, and reading it.\<close>

definition vaccel_tf_saved_model_set_model :: "ptr \<Rightarrow> dataptr \<Rightarrow> nat \<Rightarrow> 'z obj_state_scheme \<Rightarrow> (int \<times> 'z obj_state_scheme) option" where
  "vaccel_tf_saved_model_set_model model data len s = (case model of
       None \<Rightarrow> Some (VACCEL_EINVAL, s)
     | Some a \<Rightarrow>
       if data = DNull \<or> len = 0 then Some (VACCEL_EINVAL, s)
       else tsm_do Model a (\<lambda>f. vaccel_file_from_buffer f data len None False None False) s)"

definition vaccel_tf_saved_model_get_model :: "ptr \<Rightarrow> 'z obj_state_scheme \<Rightarrow> ((dataptr \<times> nat option) \<times> 'z obj_state_scheme) option" where
  "vaccel_tf_saved_model_get_model model s = (case model of
       None \<Rightarrow> Some ((DNull, None), s)
     | Some a \<Rightarrow> tsm_do Model a vaccel_file_data s)"

definition vaccel_tf_saved_model_set_checkpoint :: "ptr \<Rightarrow> dataptr \<Rightarrow> nat \<Rightarrow> 'z obj_state_scheme \<Rightarrow> (int \<times> 'z obj_state_scheme) option" where
  "vaccel_tf_saved_model_set_checkpoint model data len s = (case model of
       None \<Rightarrow> Some (VACCEL_EINVAL, s)
     | Some a \<Rightarrow>
       if data = DNull \<or> len = 0 then Some (VACCEL_EINVAL, s)
       else tsm_do Checkpoint a (\<lambda>f. vaccel_file_from_buffer f data len None False None False) s)"

definition vaccel_tf_saved_model_get_checkpoint :: "ptr \<Rightarrow> 'z obj_state_scheme \<Rightarrow> ((dataptr \<times> nat option) \<times> 'z obj_state_scheme) option" where
  "vaccel_tf_saved_model_get_checkpoint model s = (case model of
       None \<Rightarrow> Some ((DNull, None), s)
     | Some a \<Rightarrow> tsm_do Checkpoint a vaccel_file_data s)"

definition vaccel_tf_saved_model_set_var_index :: "ptr \<Rightarrow> dataptr \<Rightarrow> nat \<Rightarrow> 'z obj_state_scheme \<Rightarrow> (int \<times> 'z obj_state_scheme) option" where
  "vaccel_tf_saved_model_set_var_index model data len s = (case model of
       None \<Rightarrow> Some (VACCEL_EINVAL, s)
     | Some a \<Rightarrow>
       if data = DNull \<or> len = 0 then Some (VACCEL_EINVAL, s)
       else tsm_do Var_Index a (\<lambda>f. vaccel_file_from_buffer f data len None False None False) s)"

definition vaccel_tf_saved_model_get_var_index :: "ptr \<Rightarrow> 'z obj_state_scheme \<Rightarrow> ((dataptr \<times> nat option) \<times> 'z obj_state_scheme) option" where
  "vaccel_tf_saved_model_get_var_index model s = (case model of
       None \<Rightarrow> Some ((DNull, None), s)
     | Some a \<Rightarrow> tsm_do Var_Index a vaccel_file_data s)"

text \<open>The labels \<open>destroy_resource\<close> and \<open>free_resource\<close> of the two register functions.\<close>

definition undo_register :: "addr \<Rightarrow> 'z obj_state_scheme \<Rightarrow> 'z obj_state_scheme option" where
  "undo_register res s = do {
     (_, s) \<leftarrow> resource_destroy call_destructor (Some res) s;
     free_res (Some res) s }"

text \<open>The files of a model made from buffers, persisted one after the other until one fails.\<close>

fun tsm_persist :: "(slot \<times> string \<times> string) list \<Rightarrow> addr \<Rightarrow> 'z obj_state_scheme \<Rightarrow> (int \<times> 'z obj_state_scheme) option" where
  "tsm_persist [] a s = Some (VACCEL_OK, s)"
| "tsm_persist ((i, dir, name) # rest) a s = do {
     (ret, s) \<leftarrow> tsm_do i a (\<lambda>f. vaccel_file_persist f (Some dir) (Some name) False) s;
     if ret \<noteq> 0 then Some (ret, s) else tsm_persist rest a s }"

text \<open>Everything between \<open>resource_create_rundir\<close> and the label \<open>out\<close>.\<close>

definition tsm_populate :: "addr \<Rightarrow> addr \<Rightarrow> 'z obj_state_scheme \<Rightarrow> (int \<times> 'z obj_state_scheme) option" where
  "tsm_populate a res s = do {
     (ret, s) \<leftarrow> resource_create_rundir (Some res) s;
     if ret \<noteq> 0 then Some (ret, s)
     else do {
       r \<leftarrow> r_mem s res;
       rd \<leftarrow> get_str (res_rundir r) (os s);
       let (len, var_dir) = snprintf MAX_PATH (rd @ ''/variables'');
       if MAX_PATH \<le> len then Some (VACCEL_ENAMETOOLONG, s)
       else do {
         let (ret, s) = os_call (mkdir var_dir) s;
         if ret \<noteq> 0 then Some (errno (os s), s)
         else do {
           (ret, s) \<leftarrow> tsm_persist [(Model, rd, ''saved_model.pb''), (Checkpoint, var_dir, ''variables.data-00000-of-00001''),
             (Var_Index, var_dir, ''variables.index'')] a s;
           if ret \<noteq> 0 then Some (ret, s)
           else do {
             m \<leftarrow> tsm_mem s a;
             Some (VACCEL_OK, s\<lparr>tsm_mem := (tsm_mem s)(a \<mapsto> m\<lparr>tsm_path := res_rundir r\<rparr>)\<rparr>) } } } } }"

definition vaccel_tf_saved_model_register :: "ptr \<Rightarrow> 'z obj_state_scheme \<Rightarrow> (int \<times> 'z obj_state_scheme) option" where
  "vaccel_tf_saved_model_register model s = do {
     a \<leftarrow> model;
     m \<leftarrow> tsm_mem s a;
     if \<not> (vaccel_file_initialized (Some (tsm_model m)) \<and> vaccel_file_initialized (Some (tsm_checkpoint m))
         \<and> vaccel_file_initialized (Some (tsm_var_index m)))
     then Some (VACCEL_EINVAL, s)
     else (case malloc_res s of
         (None, s) \<Rightarrow> Some (VACCEL_ENOMEM, s)
       | (Some res, s) \<Rightarrow> do {
           (ret, s) \<leftarrow> resource_new (Some res) VACCEL_RES_TF_MODEL (Some a) (Some Tf_Saved_Model_Destructor) s;
           if ret \<noteq> 0 then do { s \<leftarrow> free_res (Some res) s; Some (ret, s) }
           else do {
             (ret, s) \<leftarrow> (if tsm_path m \<noteq> None then Some (VACCEL_OK, s) else tsm_populate a res s);
             if ret \<noteq> 0 then do { s \<leftarrow> undo_register res s; Some (ret, s) }
             else do {
               m \<leftarrow> tsm_mem s a;
               Some (VACCEL_OK, s\<lparr>tsm_mem := (tsm_mem s)(a \<mapsto> m\<lparr>tsm_resource := Some res\<rparr>)\<rparr>) } } }) }"

definition vaccel_tf_saved_model_destroy :: "ptr \<Rightarrow> 'z obj_state_scheme \<Rightarrow> (int \<times> 'z obj_state_scheme) option" where
  "vaccel_tf_saved_model_destroy model s = (case model of
       None \<Rightarrow> Some (VACCEL_EINVAL, s)
     | Some a \<Rightarrow> do {
         m \<leftarrow> tsm_mem s a;
         res \<leftarrow> tsm_resource m;
         r \<leftarrow> r_mem s res;
         (_, s) \<leftarrow> resource_destroy call_destructor (Some res) s;
         s \<leftarrow> free_res (Some res) s;
         Some (VACCEL_OK, s) })"

definition vaccel_tf_saved_model_id :: "ptr \<Rightarrow> 'z obj_state_scheme \<Rightarrow> int option" where
  "vaccel_tf_saved_model_id model s = (case model of
       None \<Rightarrow> Some (- 1)
     | Some a \<Rightarrow> do {
         m \<leftarrow> tsm_mem s a;
         case tsm_resource m of None \<Rightarrow> Some (- 1) | Some res \<Rightarrow> do { r \<leftarrow> r_mem s res; Some (res_id r) } })"

subsection \<open>Torch: operations\<close>

definition trm_do :: "addr \<Rightarrow> (vaccel_file option \<Rightarrow> os_state \<Rightarrow> ('r \<times> vaccel_file option \<times> os_state) option)
    \<Rightarrow> 'z obj_state_scheme \<Rightarrow> ('r \<times> 'z obj_state_scheme) option" where
  "trm_do a f s = do {
     m \<leftarrow> trm_mem s a;
     (ret, file, o') \<leftarrow> f (Some (trm_model m)) (os s);
     file \<leftarrow> file;
     Some (ret, s\<lparr>os := o', trm_mem := (trm_mem s)(a \<mapsto> m\<lparr>trm_model := file\<rparr>)\<rparr>) }"

definition vaccel_torch_saved_model_new :: "'z obj_state_scheme \<Rightarrow> ptr \<times> 'z obj_state_scheme" where
  "vaccel_torch_saved_model_new s = (case os_call malloc s of
       (None, s) \<Rightarrow> (None, s)
     | (Some a, s) \<Rightarrow> (Some a, s\<lparr>trm_mem := (trm_mem s)(a \<mapsto> \<lparr>trm_resource = None, trm_path = None, trm_model = empty_file\<rparr>)\<rparr>))"

text \<open>
  The path of the variables is measured though not used. That \<open>strdup\<close> fails does not stop the
  function, and its last two statements are not reached.
\<close>

definition vaccel_torch_saved_model_set_path :: "ptr \<Rightarrow> string \<Rightarrow> 'z obj_state_scheme \<Rightarrow> (int \<times> 'z obj_state_scheme) option" where
  "vaccel_torch_saved_model_set_path model path s = (case model of
       None \<Rightarrow> Some (VACCEL_EINVAL, s)
     | Some a \<Rightarrow>
       (let (found, s) = os_call (dir_exists path) s in
        if \<not> found then Some (VACCEL_EINVAL, s)
        else (let (len, var_path) = snprintf MAX_PATH (path @ ''/variables'') in
          if MAX_PATH \<le> len then Some (VACCEL_ENAMETOOLONG, s)
          else do {
            (ret, s) \<leftarrow> trm_do a (\<lambda>f. file_from_regex f path ''cnn_trace.pt'') s;
            if ret \<noteq> 0 then Some (VACCEL_ENOENT, s)
            else do {
              let (p, s) = os_call (strdup path) s;
              m \<leftarrow> trm_mem s a;
              Some (VACCEL_OK, s\<lparr>trm_mem := (trm_mem s)(a \<mapsto> m\<lparr>trm_path := p, trm_resource := None\<rparr>)\<rparr>) } })))"

definition vaccel_torch_saved_model_get_path :: "ptr \<Rightarrow> 'z obj_state_scheme \<Rightarrow> ptr option" where
  "vaccel_torch_saved_model_get_path model s = (case model of
       None \<Rightarrow> Some None
     | Some a \<Rightarrow> do { m \<leftarrow> trm_mem s a; Some (trm_path m) })"

definition vaccel_torch_saved_model_set_model :: "ptr \<Rightarrow> dataptr \<Rightarrow> nat \<Rightarrow> 'z obj_state_scheme \<Rightarrow> (int \<times> 'z obj_state_scheme) option" where
  "vaccel_torch_saved_model_set_model model data len s = (case model of
       None \<Rightarrow> Some (VACCEL_EINVAL, s)
     | Some a \<Rightarrow>
       if data = DNull \<or> len = 0 then Some (VACCEL_EINVAL, s)
       else trm_do a (\<lambda>f. vaccel_file_from_buffer f data len None False None False) s)"

definition vaccel_torch_saved_model_get_model :: "ptr \<Rightarrow> 'z obj_state_scheme \<Rightarrow> ((dataptr \<times> nat option) \<times> 'z obj_state_scheme) option" where
  "vaccel_torch_saved_model_get_model model s = (case model of
       None \<Rightarrow> Some ((DNull, None), s)
     | Some a \<Rightarrow> trm_do a vaccel_file_data s)"

definition trm_populate :: "addr \<Rightarrow> addr \<Rightarrow> 'z obj_state_scheme \<Rightarrow> (int \<times> 'z obj_state_scheme) option" where
  "trm_populate a res s = do {
     (ret, s) \<leftarrow> resource_create_rundir (Some res) s;
     if ret \<noteq> 0 then Some (ret, s)
     else do {
       r \<leftarrow> r_mem s res;
       rd \<leftarrow> get_str (res_rundir r) (os s);
       (ret, s) \<leftarrow> trm_do a (\<lambda>f. vaccel_file_persist f (Some rd) (Some ''cnn_trace.pt'') True) s;
       if ret \<noteq> 0 then Some (ret, s)
       else do {
         m \<leftarrow> trm_mem s a;
         Some (VACCEL_OK, s\<lparr>trm_mem := (trm_mem s)(a \<mapsto> m\<lparr>trm_path := res_rundir r\<rparr>)\<rparr>) } } }"

definition vaccel_torch_saved_model_register :: "ptr \<Rightarrow> 'z obj_state_scheme \<Rightarrow> (int \<times> 'z obj_state_scheme) option" where
  "vaccel_torch_saved_model_register model s = do {
     a \<leftarrow> model;
     m \<leftarrow> trm_mem s a;
     if \<not> vaccel_file_initialized (Some (trm_model m)) then Some (VACCEL_EINVAL, s)
     else (case malloc_res s of
         (None, s) \<Rightarrow> Some (VACCEL_ENOMEM, s)
       | (Some res, s) \<Rightarrow> do {
           (ret, s) \<leftarrow> resource_new (Some res) VACCEL_RES_TORCH_MODEL (Some a) (Some Torch_Saved_Model_Destructor) s;
           if ret \<noteq> 0 then do { s \<leftarrow> free_res (Some res) s; Some (ret, s) }
           else do {
             (ret, s) \<leftarrow> (if trm_path m \<noteq> None then Some (VACCEL_OK, s) else trm_populate a res s);
             if ret \<noteq> 0 then do { s \<leftarrow> undo_register res s; Some (ret, s) }
             else do {
               m \<leftarrow> trm_mem s a;
               Some (VACCEL_OK, s\<lparr>trm_mem := (trm_mem s)(a \<mapsto> m\<lparr>trm_resource := Some res\<rparr>)\<rparr>) } } }) }"

definition vaccel_torch_saved_model_destroy :: "ptr \<Rightarrow> 'z obj_state_scheme \<Rightarrow> (int \<times> 'z obj_state_scheme) option" where
  "vaccel_torch_saved_model_destroy model s = (case model of
       None \<Rightarrow> Some (VACCEL_EINVAL, s)
     | Some a \<Rightarrow> do {
         m \<leftarrow> trm_mem s a;
         res \<leftarrow> trm_resource m;
         r \<leftarrow> r_mem s res;
         (_, s) \<leftarrow> resource_destroy call_destructor (Some res) s;
         s \<leftarrow> free_res (Some res) s;
         Some (VACCEL_OK, s) })"

definition vaccel_torch_saved_model_id :: "ptr \<Rightarrow> 'z obj_state_scheme \<Rightarrow> int option" where
  "vaccel_torch_saved_model_id model s = (case model of
       None \<Rightarrow> Some (- 1)
     | Some a \<Rightarrow> do {
         m \<leftarrow> trm_mem s a;
         case trm_resource m of None \<Rightarrow> Some (- 1) | Some res \<Rightarrow> do { r \<leftarrow> r_mem s res; Some (res_id r) } })"


subsection \<open>Lemmas\<close>

lemma tsm_file_set [simp]: "tsm_file j (set_tsm_file i f m) = (if j = i then f else tsm_file j m)"
  by (cases i; cases j) (simp_all add: tsm_file_def set_tsm_file_def)

lemma set_tsm_file_other [simp]: "tsm_resource (set_tsm_file i f m) = tsm_resource m" "tsm_path (set_tsm_file i f m) = tsm_path m"
  by (cases i; simp add: set_tsm_file_def)+

lemma set_tsm_file_same [simp]: "set_tsm_file i (tsm_file i m) m = m"
  by (cases i) (simp_all add: tsm_file_def set_tsm_file_def)

text \<open>A directory that has no entry matching the pattern leaves the file as it was, and is no error.\<close>

lemma file_from_regex_none:
  assumes "alloc_ok s (alloc_next s)" "sys_err s (sys_next s) = 0" "node s d = Some Dir" "\<not> list_ex (regexec p) (children s d)"
  shows "file_from_regex f d p s = Some (VACCEL_OK, f, s\<lparr>alloc_next := Suc (alloc_next s), sys_next := Suc (sys_next s)\<rparr>)"
proof -
  have "find (regexec p) (children s d) = None" using assms(4) by (simp add: find_None_iff list_ex_iff)
  moreover have "children (s\<lparr>alloc_next := Suc (alloc_next s), sys_next := Suc (sys_next s)\<rparr>) d = children s d" by (simp add: children_def)
  ultimately show ?thesis
    using assms(1-3) by (simp add: file_from_regex_def malloc_def opendir_def sys_call_def is_dir_def node_def)
qed

text \<open>What a match gives: an initialised file with the name of an entry of the directory that matches.\<close>

lemma file_from_regex_found:
  assumes "file_from_regex (Some f) d p s = Some (VACCEL_OK, Some f', s')"
  shows "f' = f \<and> \<not> list_ex (regexec p) (children s d)
    \<or> (\<exists>name. name \<in> set (children s d) \<and> regexec p name \<and> get_str (f_path f') s' = Some (d @ ''/'' @ name)
        \<and> \<not> path_owned f' \<and> f_data f' = DNull \<and> vaccel_file_initialized (Some f'))"
proof -
  obtain q s1 where m: "malloc s = (q, s1)" by (cases "malloc s")
  have k1: "fs s1 = fs s" using m by (auto simp: malloc_def)
  obtain found s2 where o: "opendir d s1 = (found, s2)" by (cases "opendir d s1")
  have k2: "fs s2 = fs s" using o k1 by (auto simp: opendir_def sys_call_def Let_def split: if_splits)
  then have ch: "children s2 d = children s d" by (simp add: children_def)
  have f: "q \<noteq> None" "found" using assms m o by (auto simp: file_from_regex_def split: option.splits if_splits)
  show ?thesis
  proof (cases "find (regexec p) (children s d)")
    case None
    then have "f' = f" using assms m o f ch by (auto simp: file_from_regex_def)
    then show ?thesis using None by (auto simp: find_None_iff list_ex_iff)
  next
    case (Some name)
    then have n: "name \<in> set (children s d)" "regexec p name" by (auto simp: find_Some_iff)
    have "\<not> MAX_PATH \<le> length (d @ ''/'' @ name)" using assms m o f ch Some by (auto simp: file_from_regex_def snprintf_def)
    then have l: "take (MAX_PATH - 1) (d @ ''/'' @ name) = d @ ''/'' @ name" "\<not> MAX_PATH \<le> length (d @ ''/'' @ name)" by simp_all
    have "vaccel_file_new (Some f) (Some (d @ ''/'' @ name)) s2 = (VACCEL_OK, Some f', s')"
      using assms m o f ch Some l by (auto simp: file_from_regex_def snprintf_def simp del: MAX_PATH_def)
    moreover obtain r s3 where a: "access (d @ ''/'' @ name) s2 = (r, s3)" by (cases "access (d @ ''/'' @ name) s2")
    moreover have "r \<noteq> 0 \<Longrightarrow> errno s3 \<noteq> 0" using a by (auto simp: access_def fail_def sys_call_def Let_def split: if_splits)
    ultimately have st: "strdup (d @ ''/'' @ name) s3 \<noteq> (None, s')" "snd (strdup (d @ ''/'' @ name) s3) = s'"
      "f' = f\<lparr>f_path := fst (strdup (d @ ''/'' @ name) s3), path_owned := False, f_data := DNull, f_size := 0\<rparr>" "fst (strdup (d @ ''/'' @ name) s3) \<noteq> None"
      by (auto simp: vaccel_file_new_def Let_def split: if_splits prod.splits)
    then have "get_str (f_path f') s' = Some (d @ ''/'' @ name)"
      by (cases rule: new_str_cases [of "d @ ''/'' @ name" s3]) (auto simp: strdup_def get_str_def)
    then show ?thesis using n st by (auto simp: vaccel_file_initialized_def)
  qed
qed


lemma set_tsm_file_twice [simp]: "set_tsm_file i f (set_tsm_file i g m) = set_tsm_file i f m"
  by (cases i) (simp_all add: set_tsm_file_def)

text \<open>A search that finds nothing, as a step on a model.\<close>

lemma tsm_search_none:
  assumes "tsm_mem s a = Some m" "alloc_ok (os s) (alloc_next (os s))" "sys_err (os s) (sys_next (os s)) = 0" "node (os s) d = Some Dir"
    "\<not> list_ex (regexec p) (children (os s) d)"
  shows "tsm_do i a (\<lambda>f. file_from_regex f d p) s
    = Some (VACCEL_OK, s\<lparr>os := (os s)\<lparr>alloc_next := Suc (alloc_next (os s)), sys_next := Suc (sys_next (os s))\<rparr>\<rparr>)"
proof -
  have "(tsm_mem s)(a \<mapsto> m) = tsm_mem s" using assms(1) by (simp add: fun_upd_idem)
  then show ?thesis using assms(1) by (simp add: tsm_do_def file_from_regex_none [OF assms(2-5)])
qed

lemma os_call_strdup:
  "alloc_ok (os s) (alloc_next (os s)) \<Longrightarrow> os_call (strdup p) s = (Some (alloc_next (os s)),
     s\<lparr>os := (os s)\<lparr>alloc_next := Suc (alloc_next (os s)), strs := (strs (os s))(alloc_next (os s) \<mapsto> p)\<rparr>\<rparr>)"
  by (simp add: os_call_def strdup_def new_str_def malloc_def)

text \<open>The state in which \<open>resource_new\<close> is called for a new resource.\<close>

definition with_res :: "'z res_state_scheme \<Rightarrow> 'z res_state_scheme" where
  "with_res s = s\<lparr>os := (os s)\<lparr>alloc_next := Suc (alloc_next (os s))\<rparr>, r_mem := (r_mem s)(alloc_next (os s) \<mapsto> blank_resource),
     r_links := add_entry (ResEntry (alloc_next (os s))) RNull (r_links s)\<rparr>"

lemma with_res:
  assumes "res_ok s L" "r_mem s (alloc_next (os s)) = None" "alloc_ok (os s) (alloc_next (os s))"
  shows "malloc_res s = (Some (alloc_next (os s)), with_res s)" "res_ok (with_res s) L" "alloc_next (os s) \<notin> set L"
    "r_mem (with_res s) (alloc_next (os s)) = Some blank_resource" "allocated (r_links (with_res s)) (ResEntry (alloc_next (os s)))"
proof -
  show "malloc_res s = (Some (alloc_next (os s)), with_res s)" using assms(3) by (cases rule: malloc_res_cases [of s]) (simp_all add: with_res_def)
  show c: "alloc_next (os s) \<notin> set L" using res_okD(4) [OF assms(1)] assms(2) by force
  show "res_ok (with_res s) L" by (rule res_ok_other [OF assms(1) c, where v = RNull]) (simp_all add: with_res_def)
qed (simp_all add: with_res_def)


subsection \<open>Registering\<close>

definition saved_model_resource :: "int \<Rightarrow> addr \<Rightarrow> vaccel_resource" where
  "saved_model_resource rid a = \<lparr>res_id = rid, res_type = VACCEL_RES_TF_MODEL, res_data = Some a,
     cleanup_resource = Some Tf_Saved_Model_Destructor, refcount = 0, res_rundir = None\<rparr>"

lemma saved_model_registered:
  assumes "res_ok s L" "r_initialized s" "virtio s = None" "tsm_mem s a = Some m" "tsm_path m \<noteq> None"
    "\<And>i. vaccel_file_initialized (Some (tsm_file i m))" "r_mem s (alloc_next (os s)) = None" "alloc_ok (os s) (alloc_next (os s))"
    "free_ids (r_pool s) = rid # F"
  defines "c \<equiv> alloc_next (os s)"
  obtains p h where "vaccel_tf_saved_model_register (Some a) s = Some (VACCEL_OK, s\<lparr>os := (os s)\<lparr>alloc_next := Suc c\<rparr>, r_pool := p, r_links := h,
      r_mem := (r_mem s)(c \<mapsto> saved_model_resource rid a), tsm_mem := (tsm_mem s)(a \<mapsto> m\<lparr>tsm_resource := Some c\<rparr>)\<rparr>)" "free_ids p = F"
    "res_ok (s\<lparr>os := (os s)\<lparr>alloc_next := Suc c\<rparr>, r_pool := p, r_links := h, r_mem := (r_mem s)(c \<mapsto> saved_model_resource rid a),
      tsm_mem := (tsm_mem s)(a \<mapsto> m\<lparr>tsm_resource := Some c\<rparr>)\<rparr>) (L @ [c])"
proof -
  let ?s = "with_res s"
  note w = with_res [OF assms(1,7,8), folded c_def]
  have st: "r_initialized ?s" "virtio ?s = None" "r_pool ?s = r_pool s" "tsm_mem ?s = tsm_mem s" "r_mem ?s = (r_mem s)(c \<mapsto> blank_resource)"
    using assms(2,3) by (simp_all add: with_res_def c_def)
  have init: "vaccel_file_initialized (Some (tsm_model m))" "vaccel_file_initialized (Some (tsm_checkpoint m))" "vaccel_file_initialized (Some (tsm_var_index m))"
    using assms(6) [of Model] assms(6) [of Checkpoint] assms(6) [of Var_Index] by (simp_all add: tsm_file_def)
  let ?new = "resource_new (Some c) VACCEL_RES_TF_MODEL (Some a) (Some Tf_Saved_Model_Destructor) ?s"
  have run: "vaccel_tf_saved_model_register (Some a) s = Option.bind ?new (\<lambda>(ret, s). if ret \<noteq> 0 then Option.bind (free_res (Some c) s) (\<lambda>s. Some (ret, s))
      else Option.bind (tsm_mem s a) (\<lambda>m. Some (VACCEL_OK, s\<lparr>tsm_mem := (tsm_mem s)(a \<mapsto> m\<lparr>tsm_resource := Some c\<rparr>)\<rparr>)))"
    using assms(4,5) init w(1) by (simp add: vaccel_tf_saved_model_register_def cong: if_cong)
  have ty: "VACCEL_RES_TF_MODEL < VACCEL_RES_MAX" by simp
  have fr: "free_ids (r_pool ?s) = rid # F" using st(3) assms(9) by simp
  obtain t where t: "?new = Some (VACCEL_OK, t)" "res_ok t (L @ [c])" "free_ids (r_pool t) = F"
    "r_mem t = (r_mem ?s)(c \<mapsto> blank_resource\<lparr>res_id := rid, res_type := VACCEL_RES_TF_MODEL, res_data := Some a,
       cleanup_resource := Some Tf_Saved_Model_Destructor, refcount := 0, res_rundir := None\<rparr>)"
    "\<exists>p h. t = ?s\<lparr>r_pool := p, r_links := h, r_mem := r_mem t\<rparr>"
    by (rule resource_new_ok [OF w(2) st(1,2) ty w(4,3,5) fr]) (rule that)
  obtain p h where sh: "t = ?s\<lparr>r_pool := p, r_links := h, r_mem := r_mem t\<rparr>" using t(5) by blast
  let ?u = "s\<lparr>os := (os s)\<lparr>alloc_next := Suc c\<rparr>, r_pool := p, r_links := h, r_mem := (r_mem s)(c \<mapsto> saved_model_resource rid a),
      tsm_mem := (tsm_mem s)(a \<mapsto> m\<lparr>tsm_resource := Some c\<rparr>)\<rparr>"
  have mt: "r_mem t = (r_mem s)(c \<mapsto> saved_model_resource rid a)" using t(4) st(5) by (simp add: saved_model_resource_def blank_resource_def)
  have u: "t\<lparr>tsm_mem := (tsm_mem t)(a \<mapsto> m\<lparr>tsm_resource := Some c\<rparr>)\<rparr> = ?u" by (subst sh, subst (2) sh) (simp add: with_res_def c_def mt)
  have tm: "tsm_mem t a = Some m" by (subst sh) (simp add: st(4) assms(4))
  have "vaccel_tf_saved_model_register (Some a) s = Some (VACCEL_OK, ?u)" unfolding run t(1) using tm u by simp
  moreover have "free_ids p = F" using t(3) by (subst (asm) sh) simp
  moreover have "res_ok ?u (L @ [c])" unfolding u [symmetric] by (rule res_ok_cong [OF t(2)]) simp_all
  ultimately show thesis by (rule that)
qed

lemma saved_model_not_registered:
  assumes "res_ok s L" "r_initialized s" "virtio s = None" "tsm_mem s a = Some m" "tsm_path m \<noteq> None"
    "\<And>i. vaccel_file_initialized (Some (tsm_file i m))" "r_mem s (alloc_next (os s)) = None" "alloc_ok (os s) (alloc_next (os s))"
    "free_ids (r_pool s) = []"
  shows "\<exists>s'. vaccel_tf_saved_model_register (Some a) s = Some (VACCEL_EUSERS, s') \<and> r_mem s' = r_mem s \<and> tsm_mem s' = tsm_mem s"
proof -
  let ?s = "with_res s" and ?c = "alloc_next (os s)"
  note w = with_res [OF assms(1,7,8)]
  have st: "r_initialized ?s" "virtio ?s = None" "tsm_mem ?s = tsm_mem s" "r_mem ?s = (r_mem s)(?c \<mapsto> blank_resource)"
    "free_ids (r_pool ?s) = []" using assms(2,3,9) by (simp_all add: with_res_def)
  have init: "vaccel_file_initialized (Some (tsm_model m))" "vaccel_file_initialized (Some (tsm_checkpoint m))" "vaccel_file_initialized (Some (tsm_var_index m))"
    using assms(6) [of Model] assms(6) [of Checkpoint] assms(6) [of Var_Index] by (simp_all add: tsm_file_def)
  have ty: "VACCEL_RES_TF_MODEL < VACCEL_RES_MAX" by simp
  show ?thesis using resource_new_exhausted [OF st(1,2) ty w(4) res_okD(2) [OF w(2)] st(5)] assms(4,5,7) init w(1) st(3,4)
    by (simp add: vaccel_tf_saved_model_register_def free_res_def fun_upd_idem cong: if_cong)
qed

subsection \<open>Models made in memory\<close>

text \<open>The file of a buffer that the user owns.\<close>

definition buffered :: "vaccel_file \<Rightarrow> u8 list \<Rightarrow> vaccel_file" where
  "buffered f bs = f\<lparr>f_path := None, f_data := User bs, f_size := length bs\<rparr>"

lemma tsm_set:
  assumes "tsm_mem s a = Some m" "bs \<noteq> []"
  shows "tsm_do i a (\<lambda>f. vaccel_file_from_buffer f (User bs) (length bs) None False None False) s
    = Some (VACCEL_OK, s\<lparr>tsm_mem := (tsm_mem s)(a \<mapsto> set_tsm_file i (buffered (tsm_file i m) bs) m)\<rparr>)"
  using assms by (simp add: tsm_do_def vaccel_file_from_buffer_def buffered_def Let_def)

lemma tsm_get:
  assumes "tsm_mem s a = Some m" "tsm_file i m = buffered f bs" "bs \<noteq> []"
  shows "tsm_do i a vaccel_file_data s = Some ((User bs, Some (length bs)), s)"
proof -
  have "set_tsm_file i (buffered f bs) m = m" using assms(2) set_tsm_file_same [of i m] by simp
  then show ?thesis using assms by (simp add: tsm_do_def vaccel_file_data_def buffered_def fun_upd_idem)
qed

text \<open>One step of \<open>tsm_persist\<close> when nothing fails.\<close>

lemma tsm_persist_step:
  assumes "tsm_mem s a = Some m" "tsm_file i m = buffered f bs" "bs \<noteq> []" "calm (os s)" "is_dir (os s) d" "node (os s) (d @ ''/'' @ name) \<noteq> Some Dir"
    "CHR ''/'' \<notin> set name"
  obtains f' o' where "tsm_do i a (\<lambda>f. vaccel_file_persist f (Some d) (Some name) False) s
      = Some (VACCEL_OK, s\<lparr>os := o', tsm_mem := (tsm_mem s)(a \<mapsto> set_tsm_file i f' m)\<rparr>)"
    "node o' = (node (os s))(d @ ''/'' @ name \<mapsto> File bs)" "calm o'" "strs o' = (strs (os s))(alloc_next (os s) \<mapsto> d @ ''/'' @ name)"
    "alloc_next (os s) < alloc_next o'"
proof (rule persist_calm [of "buffered f bs" bs "os s" d name])
  fix f' o'
  assume p: "vaccel_file_persist (Some (buffered f bs)) (Some d) (Some name) False (os s) = Some (VACCEL_OK, Some f', o')"
    "node o' = (node (os s))(d @ ''/'' @ name \<mapsto> File bs)" "calm o'" "strs o' = (strs (os s))(alloc_next (os s) \<mapsto> d @ ''/'' @ name)"
    "alloc_next (os s) < alloc_next o'"
  have "tsm_do i a (\<lambda>f. vaccel_file_persist f (Some d) (Some name) False) s
      = Some (VACCEL_OK, s\<lparr>os := o', tsm_mem := (tsm_mem s)(a \<mapsto> set_tsm_file i f' m)\<rparr>)"
    using assms(1,2) p(1) by (simp add: tsm_do_def)
  then show thesis using p(2-5) by (rule that)
qed (use assms dirname_join [OF assms(7), of d] in \<open>simp_all add: buffered_def\<close>)

lemma tsm_populate_calm:
  assumes m: "tsm_mem s a = Some m" "tsm_model m = buffered f1 bs1" "tsm_checkpoint m = buffered f2 bs2" "tsm_var_index m = buffered f3 bs3"
      "bs1 \<noteq> []" "bs2 \<noteq> []" "bs3 \<noteq> []"
    and r: "r_mem s c = Some r" "path = resource_path s (res_id r)"
    and os: "calm (os s)" "is_dir (os s) (rundir s)" "\<And>q. node (os s) (path @ q) = None" "length path < 1000"
  obtains s' m' p where "tsm_populate a c s = Some (VACCEL_OK, s')" "tsm_mem s' = (tsm_mem s)(a \<mapsto> m')" "tsm_path m' = Some p"
    "strs (os s') p = Some path" "r_mem s' = (r_mem s)(c \<mapsto> r\<lparr>res_rundir := Some p\<rparr>)"
    "node (os s') (path @ ''/saved_model.pb'') = Some (File bs1)" "node (os s') (path @ ''/variables/variables.data-00000-of-00001'') = Some (File bs2)"
    "node (os s') (path @ ''/variables/variables.index'') = Some (File bs3)"
proof -
  define var where "var = path @ ''/variables''"
  have files: "tsm_file Model m = buffered f1 bs1" "tsm_file Checkpoint m = buffered f2 bs2" "tsm_file Var_Index m = buffered f3 bs3"
    using m(2-4) by (simp_all add: tsm_file_def)
  have none: "node (os s) path = None" "node (os s) var = None" "node (os s) (path @ ''/'' @ ''saved_model.pb'') = None"
    "node (os s) (var @ ''/'' @ n) = None" for n
    using os(3) [of "[]"] os(3) [of "''/variables''"] os(3) [of "''/saved_model.pb''"] os(3) [of "''/variables/'' @ n"] by (simp_all add: var_def)
  have paths: "path \<noteq> var" "path @ ''/saved_model.pb'' \<noteq> var" "path @ ''/saved_model.pb'' \<noteq> path" "path \<noteq> var @ ''/'' @ n"
    "path @ ''/saved_model.pb'' \<noteq> var @ ''/'' @ n" "var @ ''/'' @ n \<noteq> var" for n
    by (simp_all add: var_def)
  note paths = paths paths [THEN not_sym]
  obtain o1 where o1: "resource_create_rundir (Some c) s = Some (VACCEL_OK, s\<lparr>os := o1, r_mem := (r_mem s)(c \<mapsto> r\<lparr>res_rundir := Some (alloc_next (os s))\<rparr>)\<rparr>)"
    "node o1 = (node (os s))(path \<mapsto> Dir)" "calm o1" "strs o1 = (strs (os s))(alloc_next (os s) \<mapsto> path)" "alloc_next o1 = Suc (alloc_next (os s))"
    by (rule create_rundir_new [OF r(1) os(1) none(1) os(2) _ r(2)]) (use os(4) in simp)
  let ?p = "alloc_next (os s)"
  have "dirname var = path" unfolding var_def by (rule dirname_join [of "''variables''" path, simplified])
  then obtain o2 where o2: "mkdir var o1 = (0, o2)" "node o2 = (node o1)(var \<mapsto> Dir)" "calm o2" "heap_of o2 = heap_of o1"
    using mkdir_calm_ok [OF o1(3), of var] o1(2) none(2) paths(1) by (auto simp: is_dir_def)
  note h2 = heap_ofD [OF o2(4)]
  let ?s2 = "s\<lparr>r_mem := (r_mem s)(c \<mapsto> r\<lparr>res_rundir := Some ?p\<rparr>), os := o2\<rparr>"
  obtain g1 o3 where 3: "tsm_do Model a (\<lambda>f. vaccel_file_persist f (Some path) (Some ''saved_model.pb'') False) ?s2
      = Some (VACCEL_OK, ?s2\<lparr>os := o3, tsm_mem := (tsm_mem ?s2)(a \<mapsto> set_tsm_file Model g1 m)\<rparr>)"
    "node o3 = (node (os ?s2))(path @ ''/'' @ ''saved_model.pb'' \<mapsto> File bs1)" "calm o3"
    "strs o3 = (strs (os ?s2))(alloc_next (os ?s2) \<mapsto> path @ ''/'' @ ''saved_model.pb'')" "alloc_next (os ?s2) < alloc_next o3"
    by (rule tsm_persist_step [of ?s2 a m Model f1 bs1 path "''saved_model.pb''"])
      (use m(1,5) files(1) o2(2,3) o1(2) none paths in \<open>simp_all add: is_dir_def\<close>)
  let ?m1 = "set_tsm_file Model g1 m" and ?s3 = "?s2\<lparr>os := o3, tsm_mem := (tsm_mem ?s2)(a \<mapsto> set_tsm_file Model g1 m)\<rparr>"
  obtain g2 o4 where 4: "tsm_do Checkpoint a (\<lambda>f. vaccel_file_persist f (Some var) (Some ''variables.data-00000-of-00001'') False) ?s3
      = Some (VACCEL_OK, ?s3\<lparr>os := o4, tsm_mem := (tsm_mem ?s3)(a \<mapsto> set_tsm_file Checkpoint g2 ?m1)\<rparr>)"
    "node o4 = (node (os ?s3))(var @ ''/'' @ ''variables.data-00000-of-00001'' \<mapsto> File bs2)" "calm o4"
    "strs o4 = (strs (os ?s3))(alloc_next (os ?s3) \<mapsto> var @ ''/'' @ ''variables.data-00000-of-00001'')" "alloc_next (os ?s3) < alloc_next o4"
    by (rule tsm_persist_step [of ?s3 a ?m1 Checkpoint f2 bs2 var "''variables.data-00000-of-00001''"])
      (use m(6) files(2) 3(2,3) o2(2) o1(2) none paths in \<open>simp_all add: is_dir_def\<close>)
  let ?m2 = "set_tsm_file Checkpoint g2 ?m1" and ?s4 = "?s3\<lparr>os := o4, tsm_mem := (tsm_mem ?s3)(a \<mapsto> set_tsm_file Checkpoint g2 ?m1)\<rparr>"
  obtain g3 o5 where 5: "tsm_do Var_Index a (\<lambda>f. vaccel_file_persist f (Some var) (Some ''variables.index'') False) ?s4
      = Some (VACCEL_OK, ?s4\<lparr>os := o5, tsm_mem := (tsm_mem ?s4)(a \<mapsto> set_tsm_file Var_Index g3 ?m2)\<rparr>)"
    "node o5 = (node (os ?s4))(var @ ''/'' @ ''variables.index'' \<mapsto> File bs3)" "calm o5"
    "strs o5 = (strs (os ?s4))(alloc_next (os ?s4) \<mapsto> var @ ''/'' @ ''variables.index'')" "alloc_next (os ?s4) < alloc_next o5"
    by (rule tsm_persist_step [of ?s4 a ?m2 Var_Index f3 bs3 var "''variables.index''"])
      (use m(7) files(3) 4(2,3) 3(2) o2(2) o1(2) none paths in \<open>simp_all add: is_dir_def\<close>)
  let ?m3 = "set_tsm_file Var_Index g3 ?m2" and ?s5 = "?s4\<lparr>os := o5, tsm_mem := (tsm_mem ?s4)(a \<mapsto> set_tsm_file Var_Index g3 ?m2)\<rparr>"
  let ?t = "?s5\<lparr>tsm_mem := (tsm_mem ?s5)(a \<mapsto> ?m3\<lparr>tsm_path := Some ?p\<rparr>)\<rparr>"
  have sn: "snprintf MAX_PATH (path @ ''/variables'') = (length var, var)" "\<not> MAX_PATH \<le> length var"
    using os(4) by (simp_all add: snprintf_def var_def)
  have "get_str (Some ?p) o1 = Some path" using o1(4) by (simp add: get_str_def)
  then have run: "tsm_populate a c s = Some (VACCEL_OK, ?t)"
    using o1(1) sn o2(1) 3(1) 4(1) 5(1) by (simp add: tsm_populate_def os_call_def Let_def var_def [symmetric] del: MAX_PATH_def)
  have at: "strs o5 ?p = Some path" using 5(4,5) 4(4,5) 3(4,5) h2 o1(4,5) by simp
  have nodes: "node o5 (path @ ''/saved_model.pb'') = Some (File bs1)" "node o5 (var @ ''/variables.data-00000-of-00001'') = Some (File bs2)"
    "node o5 (var @ ''/variables.index'') = Some (File bs3)"
    using 5(2) 4(2) 3(2) paths(5) [of "''variables.index''"] paths(5) [of "''variables.data-00000-of-00001''"] by simp_all
  show thesis
    by (rule that [OF run, of "?m3\<lparr>tsm_path := Some ?p\<rparr>" ?p]) (use at nodes in \<open>simp_all add: var_def\<close>)
qed

text \<open>Registering a model that has no path yet, when nothing fails.\<close>

lemma saved_model_stored:
  assumes ok: "res_ok s L" "r_initialized s" "virtio s = None" "r_mem s (alloc_next (os s)) = None" "free_ids (r_pool s) = rid # F"
    and m: "tsm_mem s a = Some m" "tsm_model m = buffered f1 bs1" "tsm_checkpoint m = buffered f2 bs2" "tsm_var_index m = buffered f3 bs3"
      "bs1 \<noteq> []" "bs2 \<noteq> []" "bs3 \<noteq> []" "tsm_path m = None"
    and os: "calm (os s)" "is_dir (os s) (rundir s)" "\<And>q. node (os s) (path @ q) = None" "length path < 1000" "path = resource_path s rid"
  obtains s' m' p where "vaccel_tf_saved_model_register (Some a) s = Some (VACCEL_OK, s')" "tsm_mem s' a = Some m'" "tsm_path m' = Some p"
    "strs (os s') p = Some path" "vaccel_tf_saved_model_id (Some a) s' = Some rid"
    "node (os s') (path @ ''/saved_model.pb'') = Some (File bs1)" "node (os s') (path @ ''/variables/variables.data-00000-of-00001'') = Some (File bs2)"
    "node (os s') (path @ ''/variables/variables.index'') = Some (File bs3)"
proof -
  let ?c = "alloc_next (os s)" and ?s = "with_res s"
  have al: "alloc_ok (os s) ?c" using os(1) by (simp add: calm_def)
  note w = with_res [OF ok(1,4) al]
  have st: "r_initialized ?s" "virtio ?s = None" "free_ids (r_pool ?s) = rid # F" "tsm_mem ?s = tsm_mem s" "rundir ?s = rundir s"
    "node (os ?s) = node (os s)" "calm (os ?s)"
    using ok(2,3,5) os(1) by (simp_all add: with_res_def node_def calm_def fun_eq_iff)
  have ty: "VACCEL_RES_TF_MODEL < VACCEL_RES_MAX" by simp
  let ?new = "resource_new (Some ?c) VACCEL_RES_TF_MODEL (Some a) (Some Tf_Saved_Model_Destructor) ?s"
  let ?r = "blank_resource\<lparr>res_id := rid, res_type := VACCEL_RES_TF_MODEL, res_data := Some a,
       cleanup_resource := Some Tf_Saved_Model_Destructor, refcount := 0, res_rundir := None\<rparr>"
  obtain t where t: "?new = Some (VACCEL_OK, t)" "r_mem t = (r_mem ?s)(?c \<mapsto> ?r)" "\<exists>p h. t = ?s\<lparr>r_pool := p, r_links := h, r_mem := r_mem t\<rparr>"
    by (rule resource_new_ok [OF w(2) st(1,2) ty w(4,3,5) st(3)]) (rule that)
  obtain p h where sh: "t = ?s\<lparr>r_pool := p, r_links := h, r_mem := r_mem t\<rparr>" using t(3) by blast
  have k: "tsm_mem t = tsm_mem s" "rundir t = rundir s" "os t = os ?s" by (subst sh, simp add: st)+
  have rt: "r_mem t ?c = Some ?r" by (simp add: t(2))
  have pt: "path = resource_path t (res_id ?r)" using os(5) k(2) by (simp add: resource_path_def)
  obtain s' m' q where s': "tsm_populate a ?c t = Some (VACCEL_OK, s')" "tsm_mem s' = (tsm_mem t)(a \<mapsto> m')" "tsm_path m' = Some q"
    "strs (os s') q = Some path" "r_mem s' = (r_mem t)(?c \<mapsto> ?r\<lparr>res_rundir := Some q\<rparr>)"
    "node (os s') (path @ ''/saved_model.pb'') = Some (File bs1)" "node (os s') (path @ ''/variables/variables.data-00000-of-00001'') = Some (File bs2)"
    "node (os s') (path @ ''/variables/variables.index'') = Some (File bs3)"
    by (rule tsm_populate_calm [OF _ m(2-7) rt pt]) (use m(1) k st os(2-4) in \<open>simp_all add: is_dir_def\<close>)
  let ?u = "s'\<lparr>tsm_mem := (tsm_mem s')(a \<mapsto> m'\<lparr>tsm_resource := Some ?c\<rparr>)\<rparr>"
  have "vaccel_file_initialized (Some (tsm_model m))" "vaccel_file_initialized (Some (tsm_checkpoint m))" "vaccel_file_initialized (Some (tsm_var_index m))"
    using m(2-7) by (simp_all add: vaccel_file_initialized_def buffered_def)
  then have run: "vaccel_tf_saved_model_register (Some a) s = Some (VACCEL_OK, ?u)"
    using m(1,8) w(1) t(1) s'(1,2) by (simp add: vaccel_tf_saved_model_register_def cong: if_cong)
  show thesis
    by (rule that [OF run, of "m'\<lparr>tsm_resource := Some ?c\<rparr>" q]) (use s' in \<open>simp_all add: vaccel_tf_saved_model_id_def\<close>)
qed

subsection \<open>Properties\<close>

text \<open>
  C29. A TensorFlow saved model made in memory, in a library without a VirtIO plugin and where no allocation and no system call fails: each of its
  three files, set from a buffer, is read back with its own bytes and length after all three have been set; and registering the model, which gets the
  first free id, makes an export directory, whose path the model has from then on, that holds the three files with exactly these bytes under
  the names that a saved model has.
\<close>

theorem saved_model_data_roundtrip:
  assumes "res_ok s L" "r_initialized s" "virtio s = None" "r_mem s (alloc_next (os s)) = None" "free_ids (r_pool s) = rid # F"
    "tsm_mem s a = Some m" "tsm_path m = None" "bs1 \<noteq> []" "bs2 \<noteq> []" "bs3 \<noteq> []"
    "calm (os s)" "is_dir (os s) (rundir s)" "\<And>q. node (os s) (path @ q) = None" "length path < 1000" "path = resource_path s rid"
  shows "\<exists>s1 s2 s3 s'. vaccel_tf_saved_model_set_model (Some a) (User bs1) (length bs1) s = Some (VACCEL_OK, s1)
    \<and> vaccel_tf_saved_model_set_checkpoint (Some a) (User bs2) (length bs2) s1 = Some (VACCEL_OK, s2)
    \<and> vaccel_tf_saved_model_set_var_index (Some a) (User bs3) (length bs3) s2 = Some (VACCEL_OK, s3)
    \<and> vaccel_tf_saved_model_get_model (Some a) s3 = Some ((User bs1, Some (length bs1)), s3)
    \<and> vaccel_tf_saved_model_get_checkpoint (Some a) s3 = Some ((User bs2, Some (length bs2)), s3)
    \<and> vaccel_tf_saved_model_get_var_index (Some a) s3 = Some ((User bs3, Some (length bs3)), s3)
    \<and> vaccel_tf_saved_model_register (Some a) s3 = Some (VACCEL_OK, s') \<and> vaccel_tf_saved_model_id (Some a) s' = Some rid
    \<and> (\<exists>p. vaccel_tf_saved_model_get_path (Some a) s' = Some p \<and> get_str p (os s') = Some path)
    \<and> node (os s') (path @ ''/saved_model.pb'') = Some (File bs1)
    \<and> node (os s') (path @ ''/variables/variables.data-00000-of-00001'') = Some (File bs2)
    \<and> node (os s') (path @ ''/variables/variables.index'') = Some (File bs3)"
proof -
  let ?m1 = "set_tsm_file Model (buffered (tsm_file Model m) bs1) m"
  let ?m2 = "set_tsm_file Checkpoint (buffered (tsm_file Checkpoint ?m1) bs2) ?m1"
  let ?m3 = "set_tsm_file Var_Index (buffered (tsm_file Var_Index ?m2) bs3) ?m2"
  let ?put = "\<lambda>m. s\<lparr>tsm_mem := (tsm_mem s)(a \<mapsto> m)\<rparr>"
  have set: "vaccel_tf_saved_model_set_model (Some a) (User bs1) (length bs1) s = Some (VACCEL_OK, ?put ?m1)"
    "vaccel_tf_saved_model_set_checkpoint (Some a) (User bs2) (length bs2) (?put ?m1) = Some (VACCEL_OK, ?put ?m2)"
    "vaccel_tf_saved_model_set_var_index (Some a) (User bs3) (length bs3) (?put ?m2) = Some (VACCEL_OK, ?put ?m3)"
    using assms(6,8-10) tsm_set [of s a m bs1 Model] tsm_set [of "?put ?m1" a ?m1 bs2 Checkpoint] tsm_set [of "?put ?m2" a ?m2 bs3 Var_Index]
    by (simp_all add: vaccel_tf_saved_model_set_model_def vaccel_tf_saved_model_set_checkpoint_def vaccel_tf_saved_model_set_var_index_def)
  have slots: "tsm_file Model ?m3 = buffered (tsm_file Model m) bs1" "tsm_file Checkpoint ?m3 = buffered (tsm_file Checkpoint m) bs2"
    "tsm_file Var_Index ?m3 = buffered (tsm_file Var_Index m) bs3" by simp_all
  have at: "tsm_mem (?put ?m3) a = Some ?m3" by simp
  have got: "vaccel_tf_saved_model_get_model (Some a) (?put ?m3) = Some ((User bs1, Some (length bs1)), ?put ?m3)"
    "vaccel_tf_saved_model_get_checkpoint (Some a) (?put ?m3) = Some ((User bs2, Some (length bs2)), ?put ?m3)"
    "vaccel_tf_saved_model_get_var_index (Some a) (?put ?m3) = Some ((User bs3, Some (length bs3)), ?put ?m3)"
    using tsm_get [OF at slots(1) assms(8)] tsm_get [OF at slots(2) assms(9)] tsm_get [OF at slots(3) assms(10)]
    by (simp_all only: vaccel_tf_saved_model_get_model_def vaccel_tf_saved_model_get_checkpoint_def vaccel_tf_saved_model_get_var_index_def option.case)
  have f: "tsm_model ?m3 = buffered (tsm_file Model m) bs1" "tsm_checkpoint ?m3 = buffered (tsm_file Checkpoint m) bs2"
    "tsm_var_index ?m3 = buffered (tsm_file Var_Index m) bs3"
    using slots by (simp_all only: tsm_file_def slot.case)
  have k: "res_ok (?put ?m3) L" by (rule res_ok_cong [OF assms(1)]) simp_all
  have k': "path = resource_path (?put ?m3) rid" "tsm_path ?m3 = None" using assms(7,15) by (simp_all add: resource_path_def)
  have e: "os (?put ?m3) = os s" "rundir (?put ?m3) = rundir s" "r_mem (?put ?m3) = r_mem s" "r_pool (?put ?m3) = r_pool s"
    "r_initialized (?put ?m3) = r_initialized s" "virtio (?put ?m3) = virtio s" by simp_all
  obtain s' m' p where s': "vaccel_tf_saved_model_register (Some a) (?put ?m3) = Some (VACCEL_OK, s')" "tsm_mem s' a = Some m'" "tsm_path m' = Some p"
    "strs (os s') p = Some path" "vaccel_tf_saved_model_id (Some a) s' = Some rid"
    "node (os s') (path @ ''/saved_model.pb'') = Some (File bs1)" "node (os s') (path @ ''/variables/variables.data-00000-of-00001'') = Some (File bs2)"
    "node (os s') (path @ ''/variables/variables.index'') = Some (File bs3)"
    by (rule saved_model_stored [OF k _ _ _ _ at f assms(8-10) k'(2) _ _ _ assms(14) k'(1), unfolded e, OF assms(2-5,11-13)]) (rule that)
  have "vaccel_tf_saved_model_get_path (Some a) s' = Some (Some p)" "get_str (Some p) (os s') = Some path"
    using s'(2-4) by (simp_all add: vaccel_tf_saved_model_get_path_def get_str_def)
  then show ?thesis using set got s'(1,5-8) by blast
qed

definition model_booted :: obj_state where
  "model_booted = obj_booted\<lparr>tsm_mem := [40 \<mapsto> \<lparr>tsm_resource = None, tsm_path = None, tsm_model = empty_file,
     tsm_checkpoint = empty_file, tsm_var_index = empty_file\<rparr>]\<rparr>"

theorem saved_model_data_roundtrip_witness:
  "\<exists>s s'. vaccel_tf_saved_model_register (Some 40) s = Some (VACCEL_OK, s') \<and> tsm_mem (s :: obj_state) 40 \<noteq> None
    \<and> node (os s') ''/run/resource.1/variables/variables.index'' = Some (File [5, 6])"
proof -
  have r: "rundir model_booted = ''/run''" using res_booted(6) by (simp add: model_booted_def obj_booted_def sess_state.defs res_state.defs)
  have d: "dec_digits 1 = ''1''" by code_simp
  have ok: "res_ok model_booted []" by (rule res_ok_cong [OF obj_okD(1) [OF obj_booted(1)]]) (simp_all add: model_booted_def)
  have os: "os model_booted = calm_os\<lparr>alloc_next := 2\<rparr>" using obj_booted(8) by (simp add: model_booted_def)
  have c: "calm (os model_booted)" "is_dir (os model_booted) (rundir model_booted)" "node (os model_booted) (''/run/resource.1'' @ q) = None"
    "length ''/run/resource.1'' < 1000" "''/run/resource.1'' = resource_path model_booted 1" for q
    by (simp_all add: os calm_def calm_os_def is_dir_def node_def r resource_path_def int_digits_def d d [unfolded One_nat_def])
  have m: "tsm_mem model_booted 40 = Some \<lparr>tsm_resource = None, tsm_path = None, tsm_model = empty_file,
     tsm_checkpoint = empty_file, tsm_var_index = empty_file\<rparr>" by (simp add: model_booted_def)
  have "r_mem model_booted (alloc_next (os model_booted)) = None" "r_initialized model_booted" "virtio model_booted = None"
    "free_ids (r_pool model_booted) = 1 # map int [2..<Suc MAX_RESOURCES]"
    using obj_booted(2,3,6,7) by (simp_all add: model_booted_def)
  from saved_model_data_roundtrip [OF ok this(2,3,1,4) m _ _ _ _ c, of "[1, 2]" "[3]" "[5, 6]"] obtain s3 s' :: obj_state where
    "vaccel_tf_saved_model_register (Some 40) s3 = Some (VACCEL_OK, s')" "vaccel_tf_saved_model_get_model (Some 40) s3 = Some ((User [1, 2], Some 2), s3)"
    "node (os s') ''/run/resource.1/variables/variables.index'' = Some (File [5, 6])" by (simp add: numeral_2_eq_2) blast
  then show ?thesis by (intro exI [of _ s3] exI [of _ s'])
    (auto simp: vaccel_tf_saved_model_get_model_def tsm_do_def split: Option.bind_splits)
qed

text \<open>
  Setting the path of a TensorFlow saved model to an export directory without a single file of a model succeeds (the searches report
  no error when nothing matches); only the registration that follows refuses the model.
\<close>

theorem saved_model_empty_export:
  assumes "tsm_mem s a = Some m" "tsm_model m = empty_file" "tsm_checkpoint m = empty_file" "tsm_var_index m = empty_file"
    "\<And>n. alloc_ok (os s) n" "\<And>n. sys_err (os s) n = 0" "node (os s) path = Some Dir" "node (os s) (path @ ''/variables'') = Some Dir"
    "length path < 1000" "children (os s) (path @ ''/variables'') = []" "\<not> list_ex (regexec ''saved_model.pb$'') (children (os s) path)"
  shows "\<exists>s'. vaccel_tf_saved_model_set_path (Some a) path s = Some (VACCEL_OK, s')
    \<and> vaccel_tf_saved_model_register (Some a) s' = Some (VACCEL_EINVAL, s')"
proof -
  have dir: "os_call (dir_exists path) s = (True, s\<lparr>os := (os s)\<lparr>sys_next := Suc (sys_next (os s))\<rparr>\<rparr>)"
    using assms(6,7) by (simp add: os_call_def dir_exists_def opendir_def sys_call_def is_dir_def node_def)
  have v: "snprintf MAX_PATH (path @ ''/variables'') = (length path + 10, path @ ''/variables'')" "\<not> MAX_PATH \<le> length path + 10"
    using assms(9) by (simp_all add: snprintf_def)
  have ch: "children (os s\<lparr>alloc_next := n, sys_next := k\<rparr>) = children (os s)" "children (os s\<lparr>sys_next := k\<rparr>) = children (os s)" for n k
    by (simp_all add: children_def fun_eq_iff)
  have nd: "node (os s\<lparr>alloc_next := n, sys_next := k\<rparr>) = node (os s)" "node (os s\<lparr>sys_next := k\<rparr>) = node (os s)" for n k
    by (simp_all add: node_def fun_eq_iff)
  note search = tsm_search_none [where m = m]
  show ?thesis
    using assms
    by (simp add: vaccel_tf_saved_model_set_path_def dir v search ch nd Let_def os_call_strdup cong: if_cong del: MAX_PATH_def)
      (simp add: vaccel_tf_saved_model_register_def vaccel_file_initialized_def empty_file_def)
qed

definition model_export :: obj_state where
  "model_export = model_booted\<lparr>os := (os model_booted)\<lparr>fs := [(''/m'', Dir), (''/m/variables'', Dir)]\<rparr>\<rparr>"

theorem saved_model_empty_export_witness:
  "\<exists>s'. vaccel_tf_saved_model_set_path (Some 40) ''/m'' model_export = Some (VACCEL_OK, s')"
proof -
  let ?m = "\<lparr>tsm_resource = None, tsm_path = None, tsm_model = empty_file, tsm_checkpoint = empty_file, tsm_var_index = empty_file\<rparr>"
  have o: "os model_export = calm_os\<lparr>alloc_next := 2, fs := [(''/m'', Dir), (''/m/variables'', Dir)]\<rparr>"
    by (simp add: model_export_def model_booted_def obj_booted(8))
  have m: "tsm_mem model_export 40 = Some ?m" by (simp add: model_export_def model_booted_def)
  have c: "children (os model_export) ''/m/variables'' = []" "children (os model_export) ''/m'' = [''variables'']"
    by (simp_all add: o children_def dirname_def basename_def)
  have "\<not> regexec ''saved_model.pb$'' ''variables''" by code_simp
  then show ?thesis
    using saved_model_empty_export [OF m, of "''/m''"] c by (simp add: o calm_os_def node_def) blast
qed

text \<open>
  C28. Registering a TensorFlow saved model whose files come from an export directory, in a library without a VirtIO plugin and when the memory of the
  resource can be allocated: as long as ids are free it becomes the data of a new
  live resource with the first free id, which is the id of the model from then on (the type it is given is that of a single-file model);
  without a free id the memory of the resource is freed again.
\<close>

theorem saved_model_register_correct:
  assumes "res_ok s L" "r_initialized s" "virtio s = None" "tsm_mem s a = Some m" "tsm_path m \<noteq> None"
    "\<And>i. vaccel_file_initialized (Some (tsm_file i m))" "r_mem s (alloc_next (os s)) = None" "alloc_ok (os s) (alloc_next (os s))"
  shows "(free_ids (r_pool s) = [] \<longrightarrow> (\<exists>s'. vaccel_tf_saved_model_register (Some a) s = Some (VACCEL_EUSERS, s') \<and> r_mem s' = r_mem s
        \<and> tsm_mem s' = tsm_mem s))
    \<and> (\<forall>rid F. free_ids (r_pool s) = rid # F \<longrightarrow> (\<exists>s'. vaccel_tf_saved_model_register (Some a) s = Some (VACCEL_OK, s')
        \<and> res_ok s' (L @ [alloc_next (os s)]) \<and> free_ids (r_pool s') = F \<and> vaccel_tf_saved_model_id (Some a) s' = Some rid
        \<and> tsm_mem s' = (tsm_mem s)(a \<mapsto> m\<lparr>tsm_resource := Some (alloc_next (os s))\<rparr>)
        \<and> r_mem s' = (r_mem s)(alloc_next (os s) \<mapsto> \<lparr>res_id = rid, res_type = VACCEL_RES_TF_MODEL, res_data = Some a,
             cleanup_resource = Some Tf_Saved_Model_Destructor, refcount = 0, res_rundir = None\<rparr>)))"
proof (intro conjI allI impI)
  assume "free_ids (r_pool s) = []"
  then show "\<exists>s'. vaccel_tf_saved_model_register (Some a) s = Some (VACCEL_EUSERS, s') \<and> r_mem s' = r_mem s \<and> tsm_mem s' = tsm_mem s"
    by (rule saved_model_not_registered [OF assms])
next
  fix rid F assume "free_ids (r_pool s) = rid # F"
  from saved_model_registered [OF assms this] show "\<exists>s'. vaccel_tf_saved_model_register (Some a) s = Some (VACCEL_OK, s')
      \<and> res_ok s' (L @ [alloc_next (os s)]) \<and> free_ids (r_pool s') = F \<and> vaccel_tf_saved_model_id (Some a) s' = Some rid
      \<and> tsm_mem s' = (tsm_mem s)(a \<mapsto> m\<lparr>tsm_resource := Some (alloc_next (os s))\<rparr>)
      \<and> r_mem s' = (r_mem s)(alloc_next (os s) \<mapsto> \<lparr>res_id = rid, res_type = VACCEL_RES_TF_MODEL, res_data = Some a,
           cleanup_resource = Some Tf_Saved_Model_Destructor, refcount = 0, res_rundir = None\<rparr>)"
  proof cases
    case (1 p h)
    then show ?thesis by (intro exI conjI) (assumption | simp add: vaccel_tf_saved_model_id_def saved_model_resource_def)+
  qed
qed

definition model_found :: obj_state where
  "model_found = obj_booted\<lparr>tsm_mem := [40 \<mapsto> \<lparr>tsm_resource = None, tsm_path = Some 90, tsm_model = empty_file\<lparr>f_path := Some 91\<rparr>,
     tsm_checkpoint = empty_file\<lparr>f_path := Some 92\<rparr>, tsm_var_index = empty_file\<lparr>f_path := Some 93\<rparr>\<rparr>]\<rparr>"

theorem saved_model_register_correct_witness:
  "\<exists>s'. vaccel_tf_saved_model_register (Some 40) model_found = Some (VACCEL_OK, s') \<and> vaccel_tf_saved_model_id (Some 40) s' = Some 1"
proof -
  let ?m = "\<lparr>tsm_resource = None, tsm_path = Some 90, tsm_model = empty_file\<lparr>f_path := Some 91\<rparr>,
     tsm_checkpoint = empty_file\<lparr>f_path := Some 92\<rparr>, tsm_var_index = empty_file\<lparr>f_path := Some 93\<rparr>\<rparr>"
  have "res_ok model_found []" by (rule res_ok_cong [OF obj_okD(1) [OF obj_booted(1)]]) (simp_all add: model_found_def)
  moreover have "r_initialized model_found" "virtio model_found = None" "tsm_mem model_found 40 = Some ?m" "tsm_path ?m \<noteq> None"
    using obj_booted(2,3) by (simp_all add: model_found_def)
  moreover have "vaccel_file_initialized (Some (tsm_file i ?m))" for i by (cases i) (simp_all add: tsm_file_def vaccel_file_initialized_def)
  moreover have "r_mem model_found (alloc_next (os model_found)) = None" "alloc_ok (os model_found) (alloc_next (os model_found))"
    by (simp_all add: model_found_def obj_booted(7,8) calm_os_def)
  ultimately have "\<forall>rid F. free_ids (r_pool model_found) = rid # F \<longrightarrow> (\<exists>s'. vaccel_tf_saved_model_register (Some 40) model_found = Some (VACCEL_OK, s')
      \<and> vaccel_tf_saved_model_id (Some 40) s' = Some rid)"
    using saved_model_register_correct [of model_found "[]" 40 ?m] by blast
  moreover have "free_ids (r_pool model_found) = 1 # map int [2..<Suc MAX_RESOURCES]" using obj_booted(6) by (simp add: model_found_def del: upt_Suc)
  ultimately show ?thesis by blast
qed

end
