(* ===== verification/Profiling.thy ===== *)
theory Profiling
  imports Objects
begin

text \<open>
  Profiling regions (\<^verbatim>\<open>src/src/profiling/vaccel_prof.c\<close>): named arrays of samples that grow by
  doubling. A region is a value that the operations give back changed; its array of samples is a
  block of the heap whose elements are indeterminate until they are written.
\<close>

subsection \<open>State\<close>

text \<open>An indeterminate field is \<^const>\<open>None\<close>.\<close>

record vaccel_prof_sample =
  ps_start :: "u64 option"
  ps_time :: "u64 option"

record vaccel_prof_region =
  pr_name :: ptr
  name_owned :: bool
  nr_entries :: u64
  pr_samples :: ptr
  pr_size :: u64

text \<open>
  What \<open>CLOCK_MONOTONIC_RAW\<close> gives at the n-th reading, converted to nanoseconds (through a double,
  as the code does); the arrays of samples; the messages printed.
\<close>

record prof_state = obj_state +
  ticks :: nat
  clock :: "nat \<Rightarrow> u64"
  smp_mem :: "addr \<Rightarrow> vaccel_prof_sample list option"
  prof_log :: "string list"

definition MIN_SAMPLES :: u64 where [simp]: "MIN_SAMPLES = 1024"

definition no_sample :: vaccel_prof_sample where
  "no_sample = \<lparr>ps_start = None, ps_time = None\<rparr>"

definition VACCEL_PROF_REGION_INIT :: "ptr \<Rightarrow> vaccel_prof_region" where
  "VACCEL_PROF_REGION_INIT name = \<lparr>pr_name = name, name_owned = False, nr_entries = 0, pr_samples = None, pr_size = 0\<rparr>"

subsection \<open>Samples\<close>

definition get_tstamp_nsec :: "'z prof_state_scheme \<Rightarrow> u64 \<times> 'z prof_state_scheme" where
  "get_tstamp_nsec s = (clock s (ticks s), s\<lparr>ticks := Suc (ticks s)\<rparr>)"

definition vaccel_prof_enabled :: "'z rt_state_scheme \<Rightarrow> bool" where
  "vaccel_prof_enabled s = (case env (os s) ''VACCEL_PROF_ENABLED'' of
       None \<Rightarrow> False | Some e \<Rightarrow> take 7 e = ''enabled'')"

definition get_sample :: "ptr \<Rightarrow> nat \<Rightarrow> 'z prof_state_scheme \<Rightarrow> vaccel_prof_sample option" where
  "get_sample p i s = do { a \<leftarrow> p; A \<leftarrow> smp_mem s a; defined (i < length A); Some (A ! i) }"

definition set_sample :: "ptr \<Rightarrow> nat \<Rightarrow> vaccel_prof_sample \<Rightarrow> 'z prof_state_scheme \<Rightarrow> 'z prof_state_scheme option" where
  "set_sample p i x s = do { a \<leftarrow> p; A \<leftarrow> smp_mem s a; defined (i < length A); Some (s\<lparr>smp_mem := (smp_mem s)(a \<mapsto> A[i := x])\<rparr>) }"

definition prof_sample_start :: "ptr \<Rightarrow> nat \<Rightarrow> 'z prof_state_scheme \<Rightarrow> 'z prof_state_scheme option" where
  "prof_sample_start p i s = do {
     x \<leftarrow> get_sample p i s;
     let (t, s) = get_tstamp_nsec s;
     set_sample p i (x\<lparr>ps_start := Some t\<rparr>) s }"

definition prof_sample_stop :: "ptr \<Rightarrow> nat \<Rightarrow> 'z prof_state_scheme \<Rightarrow> 'z prof_state_scheme option" where
  "prof_sample_stop p i s = do {
     x \<leftarrow> get_sample p i s;
     let (t, s) = get_tstamp_nsec s;
     t0 \<leftarrow> ps_start x;
     set_sample p i (x\<lparr>ps_time := Some (t - t0)\<rparr>) s }"

text \<open>\<open>realloc\<close> of an array of \<open>n\<close> samples of 16 bytes, and \<open>free\<close> of one.\<close>

definition free_samples :: "ptr \<Rightarrow> 'z prof_state_scheme \<Rightarrow> 'z prof_state_scheme option" where
  "free_samples p s = (case p of None \<Rightarrow> Some s
     | Some a \<Rightarrow> do { defined (smp_mem s a \<noteq> None); Some (s\<lparr>smp_mem := (smp_mem s)(a := None)\<rparr>) })"

definition realloc_samples :: "ptr \<Rightarrow> u64 \<Rightarrow> 'z prof_state_scheme \<Rightarrow> (ptr \<times> 'z prof_state_scheme) option" where
  "realloc_samples p n s = do {
     let bytes = unat (n * 16);
     old \<leftarrow> (case p of None \<Rightarrow> Some [] | Some a \<Rightarrow> smp_mem s a);
     if 2 ^ 63 \<le> bytes then Some (None, s)
     else (case os_call malloc s of
         (None, s) \<Rightarrow> Some (None, s)
       | (Some b, s) \<Rightarrow> do {
           s \<leftarrow> free_samples p s;
           let len = bytes div 16;
           Some (Some b, s\<lparr>smp_mem := (smp_mem s)(b \<mapsto> take len old @ replicate (len - length old) no_sample)\<rparr>) }) }"

definition grow_samples_array :: "vaccel_prof_region \<Rightarrow> 'z prof_state_scheme \<Rightarrow> (int \<times> vaccel_prof_region \<times> 'z prof_state_scheme) option" where
  "grow_samples_array region s = do {
     let alloc_size = (if pr_size region \<noteq> 0 then pr_size region * 2 else MIN_SAMPLES);
     (new_ptr, s) \<leftarrow> realloc_samples (pr_samples region) alloc_size s;
     if new_ptr = None then Some (VACCEL_ENOMEM, region, s)
     else Some (VACCEL_OK, region\<lparr>pr_samples := new_ptr, pr_size := alloc_size\<rparr>, s) }"

text \<open>A pointer into the array of samples is the index of the sample.\<close>

definition get_last_sample :: "vaccel_prof_region \<Rightarrow> nat option" where
  "get_last_sample region = (if nr_entries region = 0 then None else Some (unat (nr_entries region - 1)))"

definition get_next_sample :: "vaccel_prof_region \<Rightarrow> 'z prof_state_scheme
    \<Rightarrow> (nat option \<times> vaccel_prof_region \<times> 'z prof_state_scheme) option" where
  "get_next_sample region s = do {
     let pos = nr_entries region;
     (ret, region, s) \<leftarrow> (if pr_size region \<le> pos then grow_samples_array region s else Some (VACCEL_OK, region, s));
     if ret \<noteq> VACCEL_OK then Some (None, region, s)
     else Some (Some (unat pos), region\<lparr>nr_entries := nr_entries region + 1\<rparr>, s) }"

subsection \<open>One region\<close>

definition start_sample :: "vaccel_prof_region \<Rightarrow> 'z prof_state_scheme \<Rightarrow> (int \<times> vaccel_prof_region \<times> 'z prof_state_scheme) option" where
  "start_sample region s = do {
     (i, region, s) \<leftarrow> get_next_sample region s;
     case i of None \<Rightarrow> Some (VACCEL_ENOMEM, region, s)
     | Some i \<Rightarrow> do { s \<leftarrow> prof_sample_start (pr_samples region) i s; Some (VACCEL_OK, region, s) } }"

definition stop_sample :: "vaccel_prof_region \<Rightarrow> 'z prof_state_scheme \<Rightarrow> (int \<times> 'z prof_state_scheme) option" where
  "stop_sample region s = (case get_last_sample region of
       None \<Rightarrow> Some (VACCEL_ENOENT, s)
     | Some i \<Rightarrow> do { s \<leftarrow> prof_sample_stop (pr_samples region) i s; Some (VACCEL_OK, s) })"

definition vaccel_prof_region_start :: "vaccel_prof_region option \<Rightarrow> 'z prof_state_scheme
    \<Rightarrow> (int \<times> vaccel_prof_region option \<times> 'z prof_state_scheme) option" where
  "vaccel_prof_region_start region s =
     (if \<not> vaccel_prof_enabled s then Some (VACCEL_OK, region, s)
      else case region of None \<Rightarrow> Some (VACCEL_EINVAL, None, s)
      | Some r \<Rightarrow> do { (ret, r, s) \<leftarrow> start_sample r s; Some (ret, Some r, s) })"

definition vaccel_prof_region_stop :: "vaccel_prof_region option \<Rightarrow> 'z prof_state_scheme \<Rightarrow> (int \<times> 'z prof_state_scheme) option" where
  "vaccel_prof_region_stop region s =
     (if \<not> vaccel_prof_enabled s then Some (VACCEL_OK, s)
      else case region of None \<Rightarrow> Some (VACCEL_EINVAL, s) | Some r \<Rightarrow> stop_sample r s)"

text \<open>Without a name the region gets a buffer of 256 zero bytes, an empty string.\<close>

definition vaccel_prof_region_init :: "vaccel_prof_region option \<Rightarrow> string option \<Rightarrow> 'z prof_state_scheme
    \<Rightarrow> (int \<times> vaccel_prof_region option \<times> 'z prof_state_scheme) option" where
  "vaccel_prof_region_init region name s =
     (if \<not> vaccel_prof_enabled s then Some (VACCEL_OK, region, s)
      else case region of None \<Rightarrow> Some (VACCEL_EINVAL, None, s)
      | Some r \<Rightarrow> do {
          let (p, s) = os_call (case name of None \<Rightarrow> new_str [] | Some n \<Rightarrow> strdup n) s;
          let r = r\<lparr>pr_name := p\<rparr>;
          if p = None then Some (VACCEL_ENOMEM, Some r, s)
          else do {
            (ret, r, s) \<leftarrow> grow_samples_array (r\<lparr>name_owned := True, nr_entries := 0\<rparr>) s;
            if ret \<noteq> VACCEL_OK
            then do { o' \<leftarrow> free_str (pr_name r) (os s); Some (VACCEL_ENOMEM, Some r, s\<lparr>os := o'\<rparr>) }
            else Some (VACCEL_OK, Some r, s) } })"

definition vaccel_prof_region_destroy :: "vaccel_prof_region option \<Rightarrow> 'z prof_state_scheme
    \<Rightarrow> (int \<times> vaccel_prof_region option \<times> 'z prof_state_scheme) option" where
  "vaccel_prof_region_destroy region s =
     (if \<not> vaccel_prof_enabled s then Some (VACCEL_OK, region, s)
      else case region of None \<Rightarrow> Some (VACCEL_EINVAL, None, s)
      | Some r \<Rightarrow> do {
          s \<leftarrow> free_samples (pr_samples r) s;
          o' \<leftarrow> (if name_owned r then free_str (pr_name r) (os s) else Some (os s));
          Some (VACCEL_OK, Some \<lparr>pr_name = None, name_owned = False, nr_entries = 0, pr_samples = None, pr_size = 0\<rparr>, s\<lparr>os := o'\<rparr>) })"

subsection \<open>Reports\<close>

fun sum_times :: "nat list \<Rightarrow> ptr \<Rightarrow> u64 \<Rightarrow> 'z prof_state_scheme \<Rightarrow> u64 option" where
  "sum_times [] p acc s = Some acc"
| "sum_times (i # rest) p acc s = do { x \<leftarrow> get_sample p i s; t \<leftarrow> ps_time x; sum_times rest p (acc + t) s }"

definition total_time :: "vaccel_prof_region \<Rightarrow> 'z prof_state_scheme \<Rightarrow> u64 option" where
  "total_time r s = sum_times [0..<unat (nr_entries r)] (pr_samples r) 0 s"

text \<open>The format with \<open>%s\<close> of a NULL name.\<close>

definition printed_name :: "vaccel_prof_region \<Rightarrow> 'z rt_state_scheme \<Rightarrow> string option" where
  "printed_name r s = (case pr_name r of None \<Rightarrow> Some ''(null)'' | Some a \<Rightarrow> strs (os s) a)"

definition prof_line :: "string \<Rightarrow> u64 \<Rightarrow> u64 \<Rightarrow> string" where
  "prof_line name tot n = ''[prof] '' @ name @ '': total_time: '' @ dec_digits (unat tot) @ '' nsec nr_entries: '' @ dec_digits (unat n)"

definition region_line :: "vaccel_prof_region \<Rightarrow> 'z prof_state_scheme \<Rightarrow> string option" where
  "region_line r s = do { tot \<leftarrow> total_time r s; name \<leftarrow> printed_name r s; Some (prof_line name tot (nr_entries r)) }"

definition vaccel_prof_region_print :: "vaccel_prof_region option \<Rightarrow> 'z prof_state_scheme \<Rightarrow> (int \<times> 'z prof_state_scheme) option" where
  "vaccel_prof_region_print region s =
     (if \<not> vaccel_prof_enabled s then Some (VACCEL_OK, s)
      else case region of None \<Rightarrow> Some (VACCEL_EINVAL, s)
      | Some r \<Rightarrow>
        if nr_entries r = 0 then Some (VACCEL_OK, s)
        else do { line \<leftarrow> region_line r s; Some (VACCEL_OK, s\<lparr>prof_log := prof_log s @ [line]\<rparr>) })"

subsection \<open>Arrays of regions\<close>

text \<open>The last region of the array with the name.\<close>

fun name_scan :: "nat list \<Rightarrow> vaccel_prof_region list \<Rightarrow> string \<Rightarrow> nat option \<Rightarrow> 'z rt_state_scheme \<Rightarrow> nat option option" where
  "name_scan [] regions name r s = Some r"
| "name_scan (i # rest) regions name r s = do {
     defined (i < length regions);
     n \<leftarrow> get_str (pr_name (regions ! i)) (os s);
     name_scan rest regions name (if n = name then Some i else r) s }"

definition prof_regions_get_by_name :: "vaccel_prof_region list \<Rightarrow> int \<Rightarrow> string \<Rightarrow> 'z rt_state_scheme \<Rightarrow> nat option option" where
  "prof_regions_get_by_name regions nregions name s = name_scan [0..<nat nregions] regions name None s"

definition vaccel_prof_regions_start_by_name :: "vaccel_prof_region list option \<Rightarrow> int \<Rightarrow> string \<Rightarrow> 'z prof_state_scheme
    \<Rightarrow> (int \<times> vaccel_prof_region list option \<times> 'z prof_state_scheme) option" where
  "vaccel_prof_regions_start_by_name regions nregions name s =
     (if \<not> vaccel_prof_enabled s then Some (VACCEL_OK, regions, s)
      else case regions of None \<Rightarrow> Some (VACCEL_EINVAL, None, s)
      | Some R \<Rightarrow> do {
          k \<leftarrow> prof_regions_get_by_name R nregions name s;
          case k of None \<Rightarrow> Some (VACCEL_EINVAL, Some R, s)
          | Some i \<Rightarrow> do { (ret, r, s) \<leftarrow> start_sample (R ! i) s; Some (ret, Some (R[i := r]), s) } })"

definition vaccel_prof_regions_stop_by_name :: "vaccel_prof_region list option \<Rightarrow> int \<Rightarrow> string \<Rightarrow> 'z prof_state_scheme
    \<Rightarrow> (int \<times> 'z prof_state_scheme) option" where
  "vaccel_prof_regions_stop_by_name regions nregions name s =
     (if \<not> vaccel_prof_enabled s then Some (VACCEL_OK, s)
      else case regions of None \<Rightarrow> Some (VACCEL_EINVAL, s)
      | Some R \<Rightarrow> do {
          k \<leftarrow> prof_regions_get_by_name R nregions name s;
          case k of None \<Rightarrow> Some (VACCEL_EINVAL, s) | Some i \<Rightarrow> stop_sample (R ! i) s })"

fun clear_regions :: "nat list \<Rightarrow> vaccel_prof_region list \<Rightarrow> 'z prof_state_scheme \<Rightarrow> (vaccel_prof_region list \<times> 'z prof_state_scheme) option" where
  "clear_regions [] R s = Some (R, s)"
| "clear_regions (i # rest) R s = do {
     defined (i < length R);
     s \<leftarrow> free_samples (pr_samples (R ! i)) s;
     clear_regions rest (R[i := (R ! i)\<lparr>pr_samples := None, pr_size := 0\<rparr>]) s }"

definition vaccel_prof_regions_clear :: "vaccel_prof_region list \<Rightarrow> int \<Rightarrow> 'z prof_state_scheme
    \<Rightarrow> (vaccel_prof_region list \<times> 'z prof_state_scheme) option" where
  "vaccel_prof_regions_clear R nregions s = clear_regions [0..<nat nregions] R s"

fun init_regions :: "nat list \<Rightarrow> vaccel_prof_region list \<Rightarrow> 'z prof_state_scheme
    \<Rightarrow> (int \<times> vaccel_prof_region list \<times> 'z prof_state_scheme) option" where
  "init_regions [] R s = Some (VACCEL_OK, R, s)"
| "init_regions (i # rest) R s = do {
     defined (i < length R);
     (ret, r, s) \<leftarrow> vaccel_prof_region_init (Some ((R ! i)\<lparr>pr_size := 0, pr_samples := None\<rparr>)) None s;
     r \<leftarrow> r;
     let R = R[i := r];
     if ret \<noteq> VACCEL_OK
     then do { (R, s) \<leftarrow> vaccel_prof_regions_clear R (int i) s; Some (ret, R, s) }
     else init_regions rest R s }"

definition vaccel_prof_regions_init :: "vaccel_prof_region list \<Rightarrow> int \<Rightarrow> 'z prof_state_scheme
    \<Rightarrow> (int \<times> vaccel_prof_region list \<times> 'z prof_state_scheme) option" where
  "vaccel_prof_regions_init R nregions s = init_regions [0..<nat nregions] R s"

fun print_regions :: "nat list \<Rightarrow> vaccel_prof_region list \<Rightarrow> 'z prof_state_scheme \<Rightarrow> 'z prof_state_scheme option" where
  "print_regions [] R s = Some s"
| "print_regions (i # rest) R s = do {
     defined (i < length R);
     if nr_entries (R ! i) = 0 then print_regions rest R s
     else do { line \<leftarrow> region_line (R ! i) s; print_regions rest R (s\<lparr>prof_log := prof_log s @ [line]\<rparr>) } }"

definition vaccel_prof_regions_print_all :: "vaccel_prof_region list option \<Rightarrow> int \<Rightarrow> 'z prof_state_scheme \<Rightarrow> (int \<times> 'z prof_state_scheme) option" where
  "vaccel_prof_regions_print_all regions nregions s =
     (if \<not> vaccel_prof_enabled s then Some (VACCEL_OK, s)
      else case regions of None \<Rightarrow> Some (VACCEL_EINVAL, s)
      | Some R \<Rightarrow> do { s \<leftarrow> print_regions [0..<nat nregions] R s; Some (VACCEL_OK, s) })"

text \<open>
  \<open>snprintf(buf + off, n, ...)\<close> for a size \<open>n\<close> that the caller has computed: it stores as much of the
  text as fits, and a terminating zero, where the buffer must have room for them.
\<close>

definition put_text :: "nat \<Rightarrow> u64 \<Rightarrow> string \<Rightarrow> char option list \<Rightarrow> char option list option" where
  "put_text off n t buf =
     (if n = 0 then Some buf
      else let w = take (unat n - 1) t @ [CHR 0x00] in do {
        defined (off + length w \<le> length buf);
        Some (take off buf @ map Some w @ drop (off + length w) buf) })"

text \<open>The lengths of the lines of the regions that have samples, each with its zero byte.\<close>

fun lines_of :: "nat list \<Rightarrow> vaccel_prof_region list \<Rightarrow> 'z prof_state_scheme \<Rightarrow> string list option" where
  "lines_of [] R s = Some []"
| "lines_of (i # rest) R s = do {
     defined (i < length R);
     if nr_entries (R ! i) = 0 then lines_of rest R s
     else do { line \<leftarrow> region_line (R ! i) s; ls \<leftarrow> lines_of rest R s; Some (line # ls) } }"

text \<open>The two totals \<open>ssize\<close> and \<open>tsize\<close> are of type \<open>int\<close>: a sum that does not fit has no result, and neither has a line for which
  \<^verbatim>\<open>snprintf\<close> could not return the length.\<close>

fun lines_size :: "string list \<Rightarrow> nat \<Rightarrow> nat option" where
  "lines_size [] ssize = Some ssize"
| "lines_size (l # ls) ssize = do {
     defined (ssize + length l + 1 < 2 ^ 31);
     lines_size ls (ssize + length l + 1) }"

fun put_lines :: "string list \<Rightarrow> nat \<Rightarrow> u64 \<Rightarrow> char option list \<Rightarrow> char option list option" where
  "put_lines [] tsize tbuf_len buf = Some buf"
| "put_lines (l # ls) tsize tbuf_len buf = do {
     buf \<leftarrow> put_text tsize (tbuf_len - of_nat tsize) l buf;
     defined (tsize + length l + 1 < 2 ^ 31);
     put_lines ls (tsize + length l + 1) tbuf_len buf }"

definition vaccel_prof_regions_print_all_to_buf :: "bool \<Rightarrow> u64 \<Rightarrow> vaccel_prof_region list option \<Rightarrow> int \<Rightarrow> 'z prof_state_scheme
    \<Rightarrow> (int \<times> char option list option \<times> 'z prof_state_scheme) option" where
  "vaccel_prof_regions_print_all_to_buf tbuf tbuf_len regions n s =
     (if \<not> vaccel_prof_enabled s then Some (0, None, s)
      else case regions of None \<Rightarrow> Some (- VACCEL_EINVAL, None, s)
      | Some R \<Rightarrow> do {
          defined (0 < n);
          ls \<leftarrow> lines_of [0..<nat n] R s;
          ssize \<leftarrow> lines_size ls 0;
          if \<not> tbuf then Some (int ssize, None, s)
          else (case os_call malloc s of
              (None, s) \<Rightarrow> Some (- VACCEL_ENOMEM, None, s)
            | (Some _, s) \<Rightarrow> do {
                buf \<leftarrow> put_lines ls 0 tbuf_len (replicate (unat tbuf_len) None);
                Some (n, Some buf, s) }) })"


subsection \<open>A region as the list of its samples\<close>

definition samples :: "vaccel_prof_region \<Rightarrow> 'z prof_state_scheme \<Rightarrow> vaccel_prof_sample list \<Rightarrow> bool" where
  "samples r s P \<longleftrightarrow> unat (nr_entries r) = length P \<and> length P \<le> unat (pr_size r)
     \<and> (case pr_samples r of None \<Rightarrow> pr_size r = 0
        | Some a \<Rightarrow> smp_mem s a = Some (P @ replicate (unat (pr_size r) - length P) no_sample))"

text \<open>All measurements of the region are complete, with these times.\<close>

definition region_ok :: "vaccel_prof_region \<Rightarrow> 'z prof_state_scheme \<Rightarrow> u64 list \<Rightarrow> bool" where
  "region_ok r s T \<longleftrightarrow> (\<exists>P. samples r s P \<and> map ps_time P = map Some T)"

lemma region_ok_init: "region_ok (VACCEL_PROF_REGION_INIT name) s []"
  by (simp add: region_ok_def samples_def VACCEL_PROF_REGION_INIT_def)

lemma sum_times_take:
  assumes "smp_mem s a = Some A" "n \<le> length A" "k \<le> n"
  shows "sum_times [k..<n] (Some a) acc s = map_option (\<lambda>T. acc + sum_list T) (those (map ps_time (drop k (take n A))))"
  using assms(3)
proof (induction "n - k" arbitrary: k acc)
  case (Suc m)
  then have k: "k < n" "m = n - Suc k" by simp_all
  then have u: "[k..<n] = k # [Suc k..<n]" "drop k (take n A) = A ! k # drop (Suc k) (take n A)"
    using assms(2) by (simp_all add: upt_conv_Cons Cons_nth_drop_Suc [symmetric])
  show ?case
    using k assms(1,2) Suc(1) [OF k(2)] unfolding u
    by (cases "ps_time (A ! k)") (simp_all add: get_sample_def option.map_comp comp_def add.assoc)
qed simp

lemma total_time_samples:
  assumes "samples r s P" shows "total_time r s = map_option sum_list (those (map ps_time P))"
proof (cases "pr_samples r")
  case None
  then show ?thesis using assms by (auto simp: samples_def total_time_def)
next
  case (Some a)
  let ?A = "P @ replicate (unat (pr_size r) - length P) no_sample"
  have A: "smp_mem s a = Some ?A" "unat (nr_entries r) = length P" using assms Some by (simp_all add: samples_def)
  have "sum_times [0..<length P] (Some a) 0 s = map_option (\<lambda>T. 0 + sum_list T) (those (map ps_time (drop 0 (take (length P) ?A))))"
    by (rule sum_times_take [OF A(1)]) simp_all
  then show ?thesis using A(2) Some by (simp add: total_time_def)
qed

lemma those_Some: "those (map Some T) = Some T"
  by (induction T) simp_all

lemma those_None: "None \<in> set xs \<Longrightarrow> those xs = None"
  by (induction xs) (auto split: option.splits)

lemma total_time_ok: "region_ok r s T \<Longrightarrow> total_time r s = Some (sum_list T)"
  by (auto simp: region_ok_def total_time_samples those_Some)

definition same_clock :: "'z prof_state_scheme \<Rightarrow> 'z prof_state_scheme \<Rightarrow> bool" where
  "same_clock s s' \<longleftrightarrow> clock s' = clock s \<and> env (os s') = env (os s)"

lemma same_clock_enabled: "same_clock s s' \<Longrightarrow> vaccel_prof_enabled s' = vaccel_prof_enabled s"
  by (simp add: same_clock_def vaccel_prof_enabled_def)

text \<open>The size that \<open>get_next_sample\<close> leaves: the old one, or twice as much when it was full.\<close>

definition room :: "vaccel_prof_region \<Rightarrow> u64" where
  "room r = (if nr_entries r < pr_size r then pr_size r else if pr_size r = 0 then MIN_SAMPLES else pr_size r * 2)"

lemma double_unat: "unat (n :: u64) < 2 ^ 57 \<Longrightarrow> unat (n * 2) = unat n * 2 \<and> unat (n * 2 * 16) = unat n * 32"
  by (simp add: unat_word_ariths)

lemma realloc_cases:
  assumes p: "case p of None \<Rightarrow> old = [] | Some a \<Rightarrow> smp_mem s a = Some old" and n: "unat (n * 16) = unat n * 16" "unat n * 16 < 2 ^ 63"
    and len: "length old \<le> unat n"
  obtains "realloc_samples p n s = Some (None, s\<lparr>os := (os s)\<lparr>alloc_next := Suc (alloc_next (os s))\<rparr>\<rparr>)"
      "\<not> alloc_ok (os s) (alloc_next (os s))"
  | s' where "realloc_samples p n s = Some (Some (alloc_next (os s)), s')" "same_clock s s'" "ticks s' = ticks s"
      "smp_mem s' (alloc_next (os s)) = Some (old @ replicate (unat n - length old) no_sample)" "alloc_ok (os s) (alloc_next (os s))"
proof (cases "alloc_ok (os s) (alloc_next (os s))")
  case False
  then show thesis using p n by (intro that(1)) (auto simp: realloc_samples_def os_call_def malloc_def split: option.splits)
next
  case True
  let ?s = "s\<lparr>os := (os s)\<lparr>alloc_next := Suc (alloc_next (os s))\<rparr>\<rparr>"
  have old: "(case p of None \<Rightarrow> Some [] | Some a \<Rightarrow> smp_mem s a) = Some old" using p by (cases p) auto
  obtain s1 where s1: "free_samples p ?s = Some s1" "same_clock s s1" "ticks s1 = ticks s"
    using p by (cases p) (auto simp: free_samples_def same_clock_def)
  show thesis
    by (rule that(2) [of "s1\<lparr>smp_mem := (smp_mem s1)(alloc_next (os s) \<mapsto> old @ replicate (unat n - length old) no_sample)\<rparr>"])
      (use True old s1 n len in \<open>simp_all add: realloc_samples_def os_call_def malloc_def same_clock_def\<close>)
qed

lemma get_next_sample_ok:
  assumes ok: "samples r s P" and bound: "unat (pr_size r) < 2 ^ 57"
  obtains s' where "get_next_sample r s = Some (None, r, s')" "samples r s' P" "nr_entries r = pr_size r" "same_clock s s'"
      "\<not> alloc_ok (os s) (alloc_next (os s))"
  | a s' where "get_next_sample r s = Some (Some (length P), r\<lparr>nr_entries := nr_entries r + 1, pr_samples := Some a, pr_size := room r\<rparr>, s')"
      "smp_mem s' a = Some (P @ replicate (unat (room r) - length P) no_sample)" "length P < unat (room r)" "same_clock s s'" "ticks s' = ticks s"
proof -
  have n: "unat (nr_entries r) = length P" "length P \<le> unat (pr_size r)" using ok by (simp_all add: samples_def)
  show thesis
  proof (cases "nr_entries r < pr_size r")
    case True
    then have lt: "length P < unat (pr_size r)" using n by (simp add: word_less_nat_alt)
    then have "pr_samples r \<noteq> None" using ok by (cases "pr_samples r") (auto simp: samples_def)
    then obtain a where a: "pr_samples r = Some a" "smp_mem s a = Some (P @ replicate (unat (pr_size r) - length P) no_sample)"
      using ok by (auto simp: samples_def)
    have "get_next_sample r s = Some (Some (length P), r\<lparr>nr_entries := nr_entries r + 1, pr_samples := Some a, pr_size := room r\<rparr>, s)"
      using True a(1) n(1) by (simp add: get_next_sample_def room_def Let_def linorder_not_less [symmetric])
    then show thesis by (rule that(2)) (use a lt True in \<open>simp_all add: room_def same_clock_def\<close>)
  next
    case False
    then have eq: "unat (pr_size r) = length P" using n by (simp add: word_less_nat_alt)
    then have eqw: "nr_entries r = pr_size r" using n(1) by (simp add: word_unat_eq_iff)
    have old: "case pr_samples r of None \<Rightarrow> P = [] | Some a \<Rightarrow> smp_mem s a = Some P"
      using ok eq by (auto simp: samples_def split: option.splits)
    have rm: "room r = (if pr_size r \<noteq> 0 then pr_size r * 2 else MIN_SAMPLES)" using False by (simp add: room_def)
    have "pr_size r \<noteq> 0 \<Longrightarrow> 0 < unat (pr_size r)" by (simp add: unat_gt_0)
    then have room: "unat (room r * 16) = unat (room r) * 16" "unat (room r) * 16 < 2 ^ 63" "length P < unat (room r)"
      using double_unat [OF bound] bound eq unfolding rm by auto
    show thesis
    proof (cases rule: realloc_cases [OF old room(1,2)])
      case 1
      show ?case using room(3) by simp
    next
      case 2
      let ?s = "s\<lparr>os := (os s)\<lparr>alloc_next := Suc (alloc_next (os s))\<rparr>\<rparr>"
      have "get_next_sample r s = Some (None, r, ?s)"
        using False 2 by (simp add: get_next_sample_def grow_samples_array_def Let_def rm linorder_not_less)
      moreover have "samples r ?s P" using ok by (simp add: samples_def split: option.splits)
      ultimately show thesis by (rule that(1)) (use eqw 2 in \<open>simp_all add: same_clock_def\<close>)
    next
      case (3 s')
      have "get_next_sample r s = Some (Some (length P), r\<lparr>nr_entries := nr_entries r + 1, pr_samples := Some (alloc_next (os s)), pr_size := room r\<rparr>, s')"
        using False 3 n(1) by (simp add: get_next_sample_def grow_samples_array_def Let_def rm linorder_not_less)
      then show thesis by (rule that(2)) (use 3 room(3) in simp_all)
    qed
  qed
qed

lemma update_next: "length P < n \<Longrightarrow> (P @ replicate (n - length P) y)[length P := x] = (P @ [x]) @ replicate (n - length (P @ [x])) y"
  by (simp add: list_update_append Suc_diff_Suc [symmetric] del: Suc_diff_Suc replicate_Suc) (metis Suc_diff_Suc list_update_code(2) replicate_Suc)

text \<open>A start adds a sample with the time of the clock; a stop completes the last sample.\<close>

lemma start_sample_ok:
  assumes ok: "samples r s P" and bound: "unat (pr_size r) < 2 ^ 57"
  obtains s' where "start_sample r s = Some (VACCEL_ENOMEM, r, s')" "samples r s' P" "nr_entries r = pr_size r" "same_clock s s'"
      "\<not> alloc_ok (os s) (alloc_next (os s))"
  | r' s' where "start_sample r s = Some (VACCEL_OK, r', s')" "samples r' s' (P @ [no_sample\<lparr>ps_start := Some (clock s (ticks s))\<rparr>])"
      "pr_size r' = room r" "same_clock s s'" "ticks s' = Suc (ticks s)"
proof (cases rule: get_next_sample_ok [OF ok bound])
  case (1 s')
  then show thesis by (intro that(1) [of s']) (simp_all add: start_sample_def)
next
  case (2 a s')
  let ?r = "r\<lparr>nr_entries := nr_entries r + 1, pr_samples := Some a, pr_size := room r\<rparr>"
  let ?x = "no_sample\<lparr>ps_start := Some (clock s (ticks s))\<rparr>"
  let ?s = "s'\<lparr>ticks := Suc (ticks s'), smp_mem := (smp_mem s')(a \<mapsto> (P @ [?x]) @ replicate (unat (room r) - length (P @ [?x])) no_sample)\<rparr>"
  have "unat (room r) < 2 ^ 64" by (rule order_less_le_trans [OF unsigned_less]) simp
  then have "Suc (length P) < 2 ^ 64" using 2(3) by simp
  moreover have "unat (nr_entries r) = length P" using ok by (simp add: samples_def)
  ultimately have "unat (nr_entries r + 1) = Suc (length P)" by (simp add: unat_word_ariths)
  then have "samples ?r ?s (P @ [?x])" using 2(3) by (simp add: samples_def)
  moreover have "clock s' = clock s" using 2(4) by (simp add: same_clock_def)
  then have "start_sample r s = Some (VACCEL_OK, ?r, ?s)"
    using 2 update_next [OF 2(3), of no_sample ?x]
    by (simp add: start_sample_def prof_sample_start_def get_sample_def set_sample_def get_tstamp_nsec_def nth_append)
  ultimately show thesis by (intro that(2) [of ?r ?s]) (use 2 in \<open>simp_all add: same_clock_def\<close>)
qed

lemma stop_sample_ok:
  assumes ok: "samples r s (P @ [x])" and t: "ps_start x = Some t"
  obtains s' where "stop_sample r s = Some (VACCEL_OK, s')" "samples r s' (P @ [x\<lparr>ps_time := Some (clock s (ticks s) - t)\<rparr>])" "same_clock s s'"
    "ticks s' = Suc (ticks s)"
proof -
  have n: "unat (nr_entries r) = Suc (length P)" "Suc (length P) \<le> unat (pr_size r)" using ok by (simp_all add: samples_def)
  then have n0: "nr_entries r \<noteq> 0" "pr_size r \<noteq> 0" by auto
  then have idx: "unat (nr_entries r - 1) = length P" using n(1) by (simp add: unat_minus_one)
  have "pr_samples r \<noteq> None" using ok n0 by (cases "pr_samples r") (auto simp: samples_def)
  then obtain a where a: "pr_samples r = Some a" "smp_mem s a = Some ((P @ [x]) @ replicate (unat (pr_size r) - length (P @ [x])) no_sample)"
    using ok by (auto simp: samples_def)
  let ?x = "x\<lparr>ps_time := Some (clock s (ticks s) - t)\<rparr>"
  let ?s = "s\<lparr>ticks := Suc (ticks s), smp_mem := (smp_mem s)(a \<mapsto> (P @ [?x]) @ replicate (unat (pr_size r) - length (P @ [?x])) no_sample)\<rparr>"
  have "stop_sample r s = Some (VACCEL_OK, ?s)"
    using a n0 idx t by (simp add: stop_sample_def get_last_sample_def prof_sample_stop_def get_sample_def set_sample_def get_tstamp_nsec_def nth_append list_update_append)
  moreover have "samples r ?s (P @ [?x])" using a n by (simp add: samples_def)
  ultimately show thesis by (rule that) (simp_all add: same_clock_def)
qed


subsection \<open>Properties\<close>

text \<open>
  C25. A region is a list of measured times. While profiling is on, a start either finds no memory and changes nothing, or the stop that
  follows it appends the time between the two readings of the clock; the array doubles exactly when it is full, and the total that is
  reported is the sum of the list (modulo \<open>2^64\<close>).
\<close>

theorem prof_start_stop_correct:
  assumes "region_ok r s T" "unat (pr_size r) < 2 ^ 57" "vaccel_prof_enabled s"
  shows "(\<exists>s'. vaccel_prof_region_start (Some r) s = Some (VACCEL_ENOMEM, Some r, s') \<and> region_ok r s' T \<and> nr_entries r = pr_size r
        \<and> \<not> alloc_ok (os s) (alloc_next (os s)))
    \<or> (\<exists>r' s' s''. vaccel_prof_region_start (Some r) s = Some (VACCEL_OK, Some r', s')
        \<and> vaccel_prof_region_stop (Some r') s' = Some (VACCEL_OK, s'')
        \<and> region_ok r' s'' (T @ [clock s (Suc (ticks s)) - clock s (ticks s)])
        \<and> total_time r' s'' = Some (sum_list T + (clock s (Suc (ticks s)) - clock s (ticks s)))
        \<and> pr_size r' = (if nr_entries r < pr_size r then pr_size r else if pr_size r = 0 then 1024 else pr_size r * 2))"
proof -
  obtain P where P: "samples r s P" "map ps_time P = map Some T" using assms(1) by (auto simp: region_ok_def)
  show ?thesis
  proof (cases rule: start_sample_ok [OF P(1) assms(2)])
    case (1 s')
    then show ?thesis using assms(3) P(2) by (intro disjI1) (auto simp: vaccel_prof_region_start_def region_ok_def)
  next
    case (2 r' s')
    let ?x = "no_sample\<lparr>ps_start := Some (clock s (ticks s))\<rparr>"
    have "ps_start ?x = Some (clock s (ticks s))" by simp
    from stop_sample_ok [OF 2(2) this] obtain s'' where st: "stop_sample r' s' = Some (VACCEL_OK, s'')"
      "samples r' s'' (P @ [?x\<lparr>ps_time := Some (clock s' (ticks s') - clock s (ticks s))\<rparr>])" by metis
    have c: "clock s' (ticks s') = clock s (Suc (ticks s))" using 2(4,5) by (simp add: same_clock_def)
    have "\<exists>Q. samples r' s'' Q \<and> map ps_time Q = map Some (T @ [clock s (Suc (ticks s)) - clock s (ticks s)])"
      using st(2) P(2) unfolding c by (intro exI [of _ "P @ [?x\<lparr>ps_time := Some (clock s (Suc (ticks s)) - clock s (ticks s))\<rparr>]"]) simp
    then have ok: "region_ok r' s'' (T @ [clock s (Suc (ticks s)) - clock s (ticks s)])" by (simp add: region_ok_def)
    have "vaccel_prof_enabled s'" using same_clock_enabled [OF 2(4)] assms(3) by simp
    then show ?thesis
      using assms(3) 2(1,3) st(1) ok total_time_ok [OF ok]
      by (intro disjI2) (simp add: vaccel_prof_region_start_def vaccel_prof_region_stop_def room_def)
  qed
qed

definition prof_booted :: prof_state where
  "prof_booted = obj_state.extend (sess_state.extend (res_state.extend res_booted \<lparr>s_initialized = False,
     s_ids = \<lparr>ids = Null, max_ids = 0, next_id = 0\<rparr>, running = [], s_links = self_linked, s_mem = (\<lambda>_. Some no_session),
     sr_mem = Map.empty, reg_mem = Map.empty\<rparr>) \<lparr>so_mem = Map.empty, tfm_mem = Map.empty, tsm_mem = Map.empty, trm_mem = Map.empty\<rparr>)
     \<lparr>ticks = 0, clock = (\<lambda>n. of_nat (100 * n)), smp_mem = Map.empty, prof_log = []\<rparr>
     \<lparr>os := calm_os\<lparr>env := [''VACCEL_PROF_ENABLED'' \<mapsto> ''enabled'']\<rparr>\<rparr>"

lemma prof_booted: "vaccel_prof_enabled prof_booted" "ticks prof_booted = 0" "clock prof_booted n = of_nat (100 * n)"
  "alloc_ok (os prof_booted) n"
  by (simp_all add: prof_booted_def vaccel_prof_enabled_def obj_state.defs sess_state.defs res_state.defs calm_os_def)

theorem prof_start_stop_correct_witness:
  "\<exists>r' s' s''. vaccel_prof_region_start (Some (VACCEL_PROF_REGION_INIT None)) prof_booted = Some (VACCEL_OK, Some r', s')
    \<and> vaccel_prof_region_stop (Some r') s' = Some (VACCEL_OK, s'') \<and> total_time r' s'' = Some 100"
proof -
  have "unat (pr_size (VACCEL_PROF_REGION_INIT None)) < 2 ^ 57" by (simp add: VACCEL_PROF_REGION_INIT_def)
  from prof_start_stop_correct [OF region_ok_init this prof_booted(1)] show ?thesis
    using prof_booted(4) unfolding prof_booted(2,3) by auto
qed

text \<open>
  The regions of the runtime are shared by all its users. When a second measurement starts before the first has stopped, both stops
  write the time of the second sample: the first one is counted but never gets a time, and reporting the region reads it.
\<close>

theorem prof_nested_undefined:
  assumes "region_ok r s T" "unat (pr_size r) < 2 ^ 56" "vaccel_prof_enabled s"
    "vaccel_prof_region_start (Some r) s = Some (VACCEL_OK, Some r1, s1)" "vaccel_prof_region_start (Some r1) s1 = Some (VACCEL_OK, Some r2, s2)"
  shows "\<exists>s3 s4. vaccel_prof_region_stop (Some r2) s2 = Some (VACCEL_OK, s3) \<and> vaccel_prof_region_stop (Some r2) s3 = Some (VACCEL_OK, s4)
    \<and> vaccel_prof_region_print (Some r2) s4 = None"
proof -
  obtain P where P: "samples r s P" using assms(1) by (auto simp: region_ok_def)
  let ?x = "\<lambda>t. no_sample\<lparr>ps_start := Some t\<rparr>"
  have b: "unat (pr_size r) < 2 ^ 57" using assms(2) by simp
  obtain r1' s1' where 1: "start_sample r s = Some (VACCEL_OK, r1', s1')" "samples r1' s1' (P @ [?x (clock s (ticks s))])" "pr_size r1' = room r" "same_clock s s1'"
    by (cases rule: start_sample_ok [OF P b]) (use assms(3,4) in \<open>auto simp: vaccel_prof_region_start_def\<close>)
  then have eq1: "r1' = r1" "s1' = s1" using assms(3,4) by (simp_all add: vaccel_prof_region_start_def)
  have e1: "vaccel_prof_enabled s1" using same_clock_enabled 1(4) assms(3) eq1 by blast
  have "unat (room r) < 2 ^ 57"
    using assms(2) double_unat [OF b] by (auto simp: room_def)
  then have b1: "unat (pr_size r1) < 2 ^ 57" using 1(3) eq1 by simp
  obtain r2' s2' where 2: "start_sample r1 s1 = Some (VACCEL_OK, r2', s2')" "samples r2' s2' ((P @ [?x (clock s (ticks s))]) @ [?x (clock s1 (ticks s1))])" "same_clock s1 s2'"
    by (cases rule: start_sample_ok [OF 1(2) [unfolded eq1] b1]) (use assms(5) e1 in \<open>auto simp: vaccel_prof_region_start_def\<close>)
  then have eq2: "r2' = r2" "s2' = s2" using assms(5) e1 by (simp_all add: vaccel_prof_region_start_def)
  have e2: "vaccel_prof_enabled s2" using same_clock_enabled 2(3) e1 eq2 by blast
  let ?Q = "P @ [?x (clock s (ticks s))]"
  obtain s3 where 3: "stop_sample r2 s2 = Some (VACCEL_OK, s3)" "same_clock s2 s3"
    "samples r2 s3 (?Q @ [(?x (clock s1 (ticks s1)))\<lparr>ps_time := Some (clock s2 (ticks s2) - clock s1 (ticks s1))\<rparr>])"
    by (rule stop_sample_ok [OF 2(2) [unfolded eq2]]) (simp, rule that)
  have t: "ps_start ((?x (clock s1 (ticks s1)))\<lparr>ps_time := Some (clock s2 (ticks s2) - clock s1 (ticks s1))\<rparr>) = Some (clock s1 (ticks s1))" by simp
  obtain s4 z where 4: "stop_sample r2 s3 = Some (VACCEL_OK, s4)" "samples r2 s4 (?Q @ [z])" "same_clock s3 s4"
    by (rule stop_sample_ok [OF 3(3) t]) (rule that)
  have e: "vaccel_prof_enabled s3" "vaccel_prof_enabled s4" using same_clock_enabled 3(2) 4(3) e2 by blast+
  have none: "None \<in> set (map ps_time (?Q @ [z]))" by (simp add: no_sample_def)
  have "total_time r2 s4 = None" unfolding total_time_samples [OF 4(2)] those_None [OF none] by simp
  moreover have "nr_entries r2 \<noteq> 0" using 4(2) by (auto simp: samples_def)
  ultimately have "vaccel_prof_region_print (Some r2) s4 = None" using e(2) by (simp add: vaccel_prof_region_print_def region_line_def)
  then show ?thesis using 3(1) 4(1) e2 e(1) by (simp add: vaccel_prof_region_stop_def)
qed

theorem prof_nested_undefined_witness:
  "\<exists>r1 s1 r2 s2 s3 s4. vaccel_prof_region_start (Some (VACCEL_PROF_REGION_INIT None)) prof_booted = Some (VACCEL_OK, Some r1, s1)
    \<and> vaccel_prof_region_start (Some r1) s1 = Some (VACCEL_OK, Some r2, s2) \<and> vaccel_prof_region_stop (Some r2) s2 = Some (VACCEL_OK, s3)
    \<and> vaccel_prof_region_stop (Some r2) s3 = Some (VACCEL_OK, s4) \<and> vaccel_prof_region_print (Some r2) s4 = None"
proof -
  let ?r = "VACCEL_PROF_REGION_INIT None"
  have ok: "samples ?r prof_booted []" by (simp add: samples_def VACCEL_PROF_REGION_INIT_def)
  have b: "unat (pr_size ?r) < 2 ^ 57" "unat (pr_size ?r) < 2 ^ 56" by (simp_all add: VACCEL_PROF_REGION_INIT_def)
  obtain r1 s1 where 1: "start_sample ?r prof_booted = Some (VACCEL_OK, r1, s1)" "samples r1 s1 ([] @ [no_sample\<lparr>ps_start := Some 0\<rparr>])"
    "pr_size r1 = room ?r" "same_clock prof_booted s1"
    by (cases rule: start_sample_ok [OF ok b(1)]) (use prof_booted(2-4) in auto)
  have rm: "room ?r = 1024" by (simp add: room_def VACCEL_PROF_REGION_INIT_def)
  then have "unat (pr_size r1) < 2 ^ 57" using 1(3) by simp
  moreover have "nr_entries r1 \<noteq> pr_size r1"
  proof
    assume "nr_entries r1 = pr_size r1"
    then have "unat (pr_size r1) = 1" using 1(2) by (simp add: samples_def)
    then show False using 1(3) rm by simp
  qed
  ultimately obtain r2 s2 where 2: "start_sample r1 s1 = Some (VACCEL_OK, r2, s2)"
    using start_sample_ok [OF 1(2)] by metis
  have e: "vaccel_prof_enabled s1" using same_clock_enabled [OF 1(4)] prof_booted(1) by simp
  have s1: "vaccel_prof_region_start (Some ?r) prof_booted = Some (VACCEL_OK, Some r1, s1)" using 1(1) prof_booted(1) by (simp add: vaccel_prof_region_start_def)
  have s2: "vaccel_prof_region_start (Some r1) s1 = Some (VACCEL_OK, Some r2, s2)" using 2 e by (simp add: vaccel_prof_region_start_def)
  show ?thesis using prof_nested_undefined [OF region_ok_init b(2) prof_booted(1) s1 s2] s1 s2 by blast
qed

text \<open>The bytes of a list of lines, each with its zero byte.\<close>

definition line_bytes :: "string list \<Rightarrow> string" where
  "line_bytes ls = concat (map (\<lambda>l. l @ [CHR 0x00]) ls)"

lemma line_bytes_simps [simp]: "line_bytes [] = []" "line_bytes (l # ls) = l @ CHR 0x00 # line_bytes ls"
  by (simp_all add: line_bytes_def)

lemma unat_room_left: "t \<le> unat (n :: u64) \<Longrightarrow> unat (n - of_nat t) = unat n - t"
proof -
  assume t: "t \<le> unat n"
  moreover have "unat n < 2 ^ 64" by (rule order_less_le_trans [OF unsigned_less]) simp
  ultimately have "unat (of_nat t :: u64) = t" by (simp add: unat_of_nat)
  then show ?thesis using t by (simp add: unat_sub word_le_nat_alt)
qed

lemma lines_size_total: "lines_size ls t = (if ls = [] \<or> t + length (line_bytes ls) < 2 ^ 31 then Some (t + length (line_bytes ls)) else None)"
  by (induction ls arbitrary: t) (auto simp: add.assoc)

lemma put_lines_fit:
  assumes "length buf = unat n" "length pre + length (line_bytes ls) \<le> unat n" "length pre + length (line_bytes ls) < 2 ^ 31" "take (length pre) buf = map Some pre"
  shows "\<exists>buf'. put_lines ls (length pre) n buf = Some buf' \<and> length buf' = unat n
    \<and> take (length pre + length (line_bytes ls)) buf' = map Some (pre @ line_bytes ls)"
  using assms
proof (induction ls arbitrary: pre buf)
  case (Cons l ls)
  let ?b = "take (length pre) buf @ map Some (l @ [CHR 0x00]) @ drop (length pre + Suc (length l)) buf"
  have left: "unat (n - of_nat (length pre)) = unat n - length pre" by (rule unat_room_left) (use Cons.prems in simp)
  then have "n - of_nat (length pre) \<noteq> 0" using Cons.prems(2) by auto
  then have put: "put_text (length pre) (n - of_nat (length pre)) l buf = Some ?b"
    using Cons.prems(1,2) left by (simp add: put_text_def Let_def)
  have "\<exists>buf'. put_lines ls (length (pre @ l @ [CHR 0x00])) n ?b = Some buf' \<and> length buf' = unat n
    \<and> take (length (pre @ l @ [CHR 0x00]) + length (line_bytes ls)) buf' = map Some ((pre @ l @ [CHR 0x00]) @ line_bytes ls)"
    by (rule Cons.IH) (use Cons.prems in \<open>simp_all add: min_def\<close>)
  then show ?case using put Cons.prems(3) by (simp add: add.assoc)
qed simp

lemma put_lines_overflow:
  assumes "length buf = unat n" "unat n < t + length (line_bytes L)" "t + length (line_bytes L) < 2 ^ 64"
  shows "put_lines (L @ l # L') t n buf = None"
  using assms
proof (induction L arbitrary: t buf)
  case Nil
  then have "unat (of_nat t :: u64) = t" by (simp add: unat_of_nat)
  then have "n - of_nat t \<noteq> 0" using Nil by auto
  then show ?case using Nil by (simp add: put_text_def Let_def)
next
  case (Cons k L)
  show ?case
  proof (cases "put_text t (n - of_nat t) k buf")
    case (Some b)
    then have "length b = unat n" using Cons.prems(1) by (auto simp: put_text_def Let_def split: if_splits)
    then have "put_lines (L @ l # L') (t + length k + 1) n b = None" by (rule Cons.IH) (use Cons.prems in simp_all)
    then show ?thesis using Some by (simp add: defined_def)
  qed simp
qed

text \<open>
  C40. The lines that \<open>vaccel_prof_regions_print_all_to_buf\<close> stores one after the other: a buffer of the announced total length holds them
  all, each with its zero byte, as long as this total is below \<open>2 ^ 31\<close>, and from there on the total does not fit its \<open>int\<close> and nothing is defined;
  but when a line other than the last does not fit, the room that is left wraps around and the next
  \<open>snprintf\<close> writes behind the buffer.
\<close>

theorem print_to_buf_bounds:
  assumes "vaccel_prof_enabled s" "0 < n" "lines_of [0..<nat n] R s = Some ls" "alloc_ok (os s) (alloc_next (os s))" "ls \<noteq> []"
  shows "(length (line_bytes ls) < 2 ^ 31 \<longrightarrow> (\<exists>s'. vaccel_prof_regions_print_all_to_buf False len (Some R) n s = Some (int (length (line_bytes ls)), None, s')))
    \<and> (2 ^ 31 \<le> length (line_bytes ls) \<longrightarrow> vaccel_prof_regions_print_all_to_buf tbuf len (Some R) n s = None)
    \<and> (length (line_bytes ls) < 2 ^ 31 \<and> length (line_bytes ls) \<le> unat len \<longrightarrow> (\<exists>buf s'. vaccel_prof_regions_print_all_to_buf True len (Some R) n s = Some (n, Some buf, s')
        \<and> length buf = unat len \<and> take (length (line_bytes ls)) buf = map Some (line_bytes ls)))
    \<and> (unat len < length (line_bytes (butlast ls)) \<longrightarrow> vaccel_prof_regions_print_all_to_buf True len (Some R) n s = None)"
proof (intro conjI impI)
  show "\<exists>s'. vaccel_prof_regions_print_all_to_buf False len (Some R) n s = Some (int (length (line_bytes ls)), None, s')"
    if "length (line_bytes ls) < 2 ^ 31"
    using assms(1-3) that by (simp add: vaccel_prof_regions_print_all_to_buf_def lines_size_total)
  have big: "vaccel_prof_regions_print_all_to_buf b len (Some R) n s = None" if "2 ^ 31 \<le> length (line_bytes ls)" for b
    using assms that by (simp add: vaccel_prof_regions_print_all_to_buf_def lines_size_total)
  then show "vaccel_prof_regions_print_all_to_buf tbuf len (Some R) n s = None" if "2 ^ 31 \<le> length (line_bytes ls)" using that .
  let ?buf = "replicate (unat len) None :: char option list"
  have run: "vaccel_prof_regions_print_all_to_buf True len (Some R) n s = Option.bind (put_lines ls 0 len ?buf)
      (\<lambda>buf. Some (n, Some buf, s\<lparr>os := (os s)\<lparr>alloc_next := Suc (alloc_next (os s))\<rparr>\<rparr>))"
    if "length (line_bytes ls) < 2 ^ 31"
    using assms(1-4) that by (simp add: vaccel_prof_regions_print_all_to_buf_def lines_size_total os_call_def malloc_def)
  {
    assume fit: "length (line_bytes ls) < 2 ^ 31 \<and> length (line_bytes ls) \<le> unat len"
    obtain buf where "put_lines ls (length ([] :: string)) len ?buf = Some buf" "length buf = unat len"
      "take (length ([] :: string) + length (line_bytes ls)) buf = map Some ([] @ line_bytes ls)"
      using put_lines_fit [of ?buf len "[]" ls] fit by (auto simp del: put_lines.simps)
    then show "\<exists>buf s'. vaccel_prof_regions_print_all_to_buf True len (Some R) n s = Some (n, Some buf, s')
        \<and> length buf = unat len \<and> take (length (line_bytes ls)) buf = map Some (line_bytes ls)"
      using run fit by simp
  next
    assume over: "unat len < length (line_bytes (butlast ls))"
    have ls: "ls = butlast ls @ last ls # []" using assms(5) by simp
    have le: "length (line_bytes (butlast ls)) \<le> length (line_bytes ls)" by (subst (2) ls) (simp add: line_bytes_def)
    show "vaccel_prof_regions_print_all_to_buf True len (Some R) n s = None"
    proof (cases "length (line_bytes ls) < 2 ^ 31")
      case True
      then have "put_lines (butlast ls @ last ls # []) 0 len ?buf = None"
        by (intro put_lines_overflow) (use over le in simp_all)
      then show ?thesis unfolding run [OF True] using ls by simp
    qed (use big in simp)
  }
qed

definition two_regions :: "vaccel_prof_region list" where
  "two_regions = [\<lparr>pr_name = Some 8, name_owned = True, nr_entries = 1, pr_samples = Some 9, pr_size = 1\<rparr>,
     \<lparr>pr_name = Some 8, name_owned = True, nr_entries = 1, pr_samples = Some 9, pr_size = 1\<rparr>]"

definition prof_named :: prof_state where
  "prof_named = prof_booted\<lparr>os := (os prof_booted)\<lparr>strs := [8 \<mapsto> ''x'']\<rparr>, smp_mem := [9 \<mapsto> [\<lparr>ps_start = Some 1, ps_time = Some 7\<rparr>]]\<rparr>"

theorem print_to_buf_bounds_witness:
  "vaccel_prof_regions_print_all_to_buf True 3 (Some two_regions) 2 prof_named = None"
proof -
  have e: "vaccel_prof_enabled prof_named" "alloc_ok (os prof_named) k" for k
    using prof_booted(1,4) by (simp_all add: prof_named_def vaccel_prof_enabled_def)
  let ?l = "prof_line ''x'' 7 1"
  have l: "region_line (two_regions ! i) prof_named = Some ?l" if "i < 2" for i
    using that by (cases i) (simp_all add: two_regions_def prof_named_def region_line_def total_time_def get_sample_def printed_name_def)
  have nz: "nr_entries (two_regions ! i) \<noteq> 0" if "i < 2" for i using that by (cases i) (simp_all add: two_regions_def)
  have u: "[0..<nat 2] = [0, 1]" by (simp add: upt_rec)
  have "length two_regions = 2" by (simp add: two_regions_def)
  then have ls: "lines_of [0..<nat 2] two_regions prof_named = Some [?l, ?l]"
    unfolding u using l [of 0] l [of 1] nz [of 0] nz [of 1] by (simp add: numeral_2_eq_2)
  have d: "dec_digits 7 = ''7''" "dec_digits 1 = ''1''" by code_simp+
  have len: "length ?l = 42" by (simp add: prof_line_def d d(2) [unfolded One_nat_def])
  show ?thesis using print_to_buf_bounds [OF e(1) _ ls e(2), of 3 True] len by simp
qed

end
