(* ===== verification/Ops.thy ===== *)
theory Ops
  imports Profiling
begin

text \<open>
  The operations that plugins implement (\<^verbatim>\<open>src/src/ops/\<close>): each finds the implementation for the
  hint of the session and calls it, and each has an unpacking function that \<open>vaccel_genop\<close> calls
  for arguments given as arrays of \<open>struct vaccel_arg\<close>. The implementation is code of a plugin: the
  parameter \<open>call\<close>, which is given the address of the function and the arguments of the C call.
\<close>

subsection \<open>State\<close>

text \<open>Memory of the users of the library, by block; an array of arguments is a list.\<close>

record vaccel_arg =
  arg_size :: u32
  arg_buf :: ptr

type_synonym args = "vaccel_arg list option"

text \<open>A value passed to a plugin's function. A float is its bit pattern.\<close>

datatype carg = APtr ptr | AInt "32 word" | ALong "64 word" | ASize u64 | AFloat u32 | AArgs args

record ops_state = prof_state +
  mem :: "addr \<Rightarrow> u8 list option"
  \<comment> \<open>what an uninitialised pointer on the stack holds\<close>
  junk :: ptr
  image_op_stats :: vaccel_prof_region
  tf_load_stats :: vaccel_prof_region
  tf_session_run_stats :: vaccel_prof_region
  tf_session_delete_stats :: vaccel_prof_region

type_synonym 'z impl = "addr \<Rightarrow> carg list \<Rightarrow> 'z ops_state_scheme \<Rightarrow> (int \<times> 'z ops_state_scheme) option"

text \<open>\<open>*(T *)buf\<close> for a little-endian integer or a float of \<open>n\<close> bytes at the start of a block.\<close>

definition load :: "nat \<Rightarrow> ptr \<Rightarrow> 'z ops_state_scheme \<Rightarrow> u8 list option" where
  "load n p s = do { a \<leftarrow> p; b \<leftarrow> mem s a; defined (n \<le> length b); Some (take n b) }"

definition le_word :: "u8 list \<Rightarrow> 'a::len word" where
  "le_word bs = word_rcat (rev bs)"

definition load32 :: "ptr \<Rightarrow> 'z ops_state_scheme \<Rightarrow> 32 word option" where
  "load32 p s = map_option le_word (load 4 p s)"

definition load64 :: "ptr \<Rightarrow> 'z ops_state_scheme \<Rightarrow> 64 word option" where
  "load64 p s = map_option le_word (load 8 p s)"

definition nth_arg :: "args \<Rightarrow> nat \<Rightarrow> vaccel_arg option" where
  "nth_arg A i = do { l \<leftarrow> A; defined (i < length l); Some (l ! i) }"

text \<open>\<open>&read[n]\<close>\<close>

definition args_from :: "nat \<Rightarrow> args \<Rightarrow> args option" where
  "args_from n A = do { l \<leftarrow> A; defined (n \<le> length l); Some (Some (drop n l)) }"

subsection \<open>Operation types\<close>

definition VACCEL_NO_OP :: nat where [simp]: "VACCEL_NO_OP = 0"
definition VACCEL_BLAS_SGEMM :: nat where [simp]: "VACCEL_BLAS_SGEMM = 1"
definition VACCEL_IMG_CLASS :: nat where [simp]: "VACCEL_IMG_CLASS = 2"
definition VACCEL_IMG_DETEC :: nat where [simp]: "VACCEL_IMG_DETEC = 3"
definition VACCEL_IMG_SEGME :: nat where [simp]: "VACCEL_IMG_SEGME = 4"
definition VACCEL_IMG_POSE :: nat where [simp]: "VACCEL_IMG_POSE = 5"
definition VACCEL_IMG_DEPTH :: nat where [simp]: "VACCEL_IMG_DEPTH = 6"
definition VACCEL_EXEC :: nat where [simp]: "VACCEL_EXEC = 7"
definition VACCEL_TF_SESSION_LOAD :: nat where [simp]: "VACCEL_TF_SESSION_LOAD = 12"
definition VACCEL_TF_SESSION_RUN :: nat where [simp]: "VACCEL_TF_SESSION_RUN = 13"
definition VACCEL_TF_SESSION_DELETE :: nat where [simp]: "VACCEL_TF_SESSION_DELETE = 14"
definition VACCEL_MINMAX :: nat where [simp]: "VACCEL_MINMAX = 15"
definition VACCEL_F_ARRAYCOPY :: nat where [simp]: "VACCEL_F_ARRAYCOPY = 16"
definition VACCEL_F_MMULT :: nat where [simp]: "VACCEL_F_MMULT = 17"
definition VACCEL_F_PARALLEL :: nat where [simp]: "VACCEL_F_PARALLEL = 18"
definition VACCEL_F_VECTORADD :: nat where [simp]: "VACCEL_F_VECTORADD = 19"
definition VACCEL_EXEC_WITH_RESOURCE :: nat where [simp]: "VACCEL_EXEC_WITH_RESOURCE = 20"
definition VACCEL_TORCH_JITLOAD_FORWARD :: nat where [simp]: "VACCEL_TORCH_JITLOAD_FORWARD = 21"
definition VACCEL_TORCH_SGEMM :: nat where [simp]: "VACCEL_TORCH_SGEMM = 22"
definition VACCEL_OPENCV :: nat where [simp]: "VACCEL_OPENCV = 23"

subsection \<open>Finding and calling the implementation\<close>

text \<open>
  The common shape of the operations: a session, the implementation of the type for its hint, and
  the call, whose first argument is the session.
\<close>

definition find_op :: "nat \<Rightarrow> addr \<Rightarrow> 'z ops_state_scheme \<Rightarrow> ptr option" where
  "find_op ty se s = do { x \<leftarrow> s_mem s se; get_plugin_op ty (hint x) s }"

definition dispatch :: "'z impl \<Rightarrow> nat \<Rightarrow> ptr \<Rightarrow> carg list \<Rightarrow> 'z ops_state_scheme \<Rightarrow> (int \<times> 'z ops_state_scheme) option" where
  "dispatch call ty sess args s = (case sess of
       None \<Rightarrow> Some (VACCEL_EINVAL, s)
     | Some se \<Rightarrow> do {
         plugin_op \<leftarrow> find_op ty se s;
         case plugin_op of None \<Rightarrow> Some (VACCEL_ENOTSUP, s) | Some f \<Rightarrow> call f (APtr sess # args) s })"

definition vaccel_noop :: "'z impl \<Rightarrow> ptr \<Rightarrow> 'z ops_state_scheme \<Rightarrow> (int \<times> 'z ops_state_scheme) option" where
  "vaccel_noop call sess = dispatch call VACCEL_NO_OP sess []"

definition vaccel_sgemm :: "'z impl \<Rightarrow> ptr \<Rightarrow> 64 word \<Rightarrow> 64 word \<Rightarrow> 64 word \<Rightarrow> u32 \<Rightarrow> ptr \<Rightarrow> 64 word \<Rightarrow> ptr \<Rightarrow> 64 word \<Rightarrow> u32 \<Rightarrow> ptr \<Rightarrow> 64 word
    \<Rightarrow> 'z ops_state_scheme \<Rightarrow> (int \<times> 'z ops_state_scheme) option" where
  "vaccel_sgemm call sess m n k alpha a lda b ldb beta c ldc =
     dispatch call VACCEL_BLAS_SGEMM sess
       [ALong m, ALong n, ALong k, AFloat alpha, APtr a, ALong lda, APtr b, ALong ldb, AFloat beta, APtr c, ALong ldc]"

definition vaccel_minmax :: "'z impl \<Rightarrow> ptr \<Rightarrow> ptr \<Rightarrow> 32 word \<Rightarrow> 32 word \<Rightarrow> 32 word \<Rightarrow> ptr \<Rightarrow> ptr \<Rightarrow> ptr
    \<Rightarrow> 'z ops_state_scheme \<Rightarrow> (int \<times> 'z ops_state_scheme) option" where
  "vaccel_minmax call sess indata ndata low_threshold high_threshold outdata mn mx =
     dispatch call VACCEL_MINMAX sess
       [APtr indata, AInt ndata, AInt low_threshold, AInt high_threshold, APtr outdata, APtr mn, APtr mx]"

definition vaccel_exec :: "'z impl \<Rightarrow> ptr \<Rightarrow> ptr \<Rightarrow> ptr \<Rightarrow> args \<Rightarrow> u64 \<Rightarrow> args \<Rightarrow> u64
    \<Rightarrow> 'z ops_state_scheme \<Rightarrow> (int \<times> 'z ops_state_scheme) option" where
  "vaccel_exec call sess library fn_symbol read nr_read write nr_write =
     dispatch call VACCEL_EXEC sess
       [APtr library, APtr fn_symbol, AArgs read, ASize nr_read, AArgs write, ASize nr_write]"

definition vaccel_exec_with_resource :: "'z impl \<Rightarrow> ptr \<Rightarrow> ptr \<Rightarrow> ptr \<Rightarrow> args \<Rightarrow> u64 \<Rightarrow> args \<Rightarrow> u64
    \<Rightarrow> 'z ops_state_scheme \<Rightarrow> (int \<times> 'z ops_state_scheme) option" where
  "vaccel_exec_with_resource call sess object fn_symbol read nr_read write nr_write =
     dispatch call VACCEL_EXEC_WITH_RESOURCE sess
       [APtr object, APtr fn_symbol, AArgs read, ASize nr_read, AArgs write, ASize nr_write]"

definition vaccel_opencv :: "'z impl \<Rightarrow> ptr \<Rightarrow> args \<Rightarrow> int \<Rightarrow> args \<Rightarrow> int
    \<Rightarrow> 'z ops_state_scheme \<Rightarrow> (int \<times> 'z ops_state_scheme) option" where
  "vaccel_opencv call sess read nr_read write nr_write =
     dispatch call VACCEL_OPENCV sess [AArgs read, AInt (of_int nr_read), AArgs write, AInt (of_int nr_write)]"

definition vaccel_fpga_arraycopy :: "'z impl \<Rightarrow> ptr \<Rightarrow> ptr \<Rightarrow> ptr \<Rightarrow> u64 \<Rightarrow> 'z ops_state_scheme \<Rightarrow> (int \<times> 'z ops_state_scheme) option" where
  "vaccel_fpga_arraycopy call sess array out_array len_array =
     dispatch call VACCEL_F_ARRAYCOPY sess [APtr array, APtr out_array, ASize len_array]"

definition vaccel_fpga_mmult :: "'z impl \<Rightarrow> ptr \<Rightarrow> ptr \<Rightarrow> ptr \<Rightarrow> ptr \<Rightarrow> u64 \<Rightarrow> 'z ops_state_scheme \<Rightarrow> (int \<times> 'z ops_state_scheme) option" where
  "vaccel_fpga_mmult call sess A_array B_array C_array lenA =
     dispatch call VACCEL_F_MMULT sess [APtr A_array, APtr B_array, APtr C_array, ASize lenA]"

definition vaccel_fpga_parallel :: "'z impl \<Rightarrow> ptr \<Rightarrow> ptr \<Rightarrow> ptr \<Rightarrow> ptr \<Rightarrow> ptr \<Rightarrow> u64
    \<Rightarrow> 'z ops_state_scheme \<Rightarrow> (int \<times> 'z ops_state_scheme) option" where
  "vaccel_fpga_parallel call sess A_array B_array add_output mult_output len_a =
     dispatch call VACCEL_F_PARALLEL sess [APtr A_array, APtr B_array, APtr add_output, APtr mult_output, ASize len_a]"

definition vaccel_fpga_vadd :: "'z impl \<Rightarrow> ptr \<Rightarrow> ptr \<Rightarrow> ptr \<Rightarrow> ptr \<Rightarrow> u64 \<Rightarrow> u64
    \<Rightarrow> 'z ops_state_scheme \<Rightarrow> (int \<times> 'z ops_state_scheme) option" where
  "vaccel_fpga_vadd call sess A B C len_a len_b =
     dispatch call VACCEL_F_VECTORADD sess [APtr A, APtr B, APtr C, ASize len_a, ASize len_b]"

subsection \<open>Profiled operations\<close>

text \<open>Starting and stopping one of the regions of the library; the results are dropped.\<close>

definition image_start :: "'z ops_state_scheme \<Rightarrow> 'z ops_state_scheme option" where
  "image_start s = do {
     (_, r, s) \<leftarrow> vaccel_prof_region_start (Some (image_op_stats s)) s;
     r \<leftarrow> r;
     Some (s\<lparr>image_op_stats := r\<rparr>) }"

definition image_stop :: "'z ops_state_scheme \<Rightarrow> 'z ops_state_scheme option" where
  "image_stop s = do { (_, s) \<leftarrow> vaccel_prof_region_stop (Some (image_op_stats s)) s; Some s }"

definition vaccel_image_op :: "'z impl \<Rightarrow> nat \<Rightarrow> ptr \<Rightarrow> ptr \<Rightarrow> ptr \<Rightarrow> ptr \<Rightarrow> u64 \<Rightarrow> u64 \<Rightarrow> u64
    \<Rightarrow> 'z ops_state_scheme \<Rightarrow> (int \<times> 'z ops_state_scheme) option" where
  "vaccel_image_op call ty sess img out_text out_imgname len_img len_out_text len_out_imgname s = (case sess of
       None \<Rightarrow> Some (VACCEL_EINVAL, s)
     | Some se \<Rightarrow> do {
         s \<leftarrow> image_start s;
         plugin_op \<leftarrow> find_op ty se s;
         (ret, s) \<leftarrow> (case plugin_op of
             None \<Rightarrow> Some (VACCEL_ENOTSUP, s)
           | Some f \<Rightarrow>
             if out_text \<noteq> None \<and> 0 < len_out_text
             then call f [APtr sess, APtr img, APtr out_text, APtr out_imgname, ASize len_img, ASize len_out_text, ASize len_out_imgname] s
             else call f [APtr sess, APtr img, APtr out_imgname, ASize len_img, ASize len_out_imgname] s);
         s \<leftarrow> image_stop s;
         Some (ret, s) })"

definition vaccel_image_op_no_text :: "'z impl \<Rightarrow> nat \<Rightarrow> ptr \<Rightarrow> ptr \<Rightarrow> ptr \<Rightarrow> u64 \<Rightarrow> u64
    \<Rightarrow> 'z ops_state_scheme \<Rightarrow> (int \<times> 'z ops_state_scheme) option" where
  "vaccel_image_op_no_text call ty sess img out_imgname len_img len_out_imgname =
     vaccel_image_op call ty sess img None out_imgname len_img 0 len_out_imgname"

definition vaccel_image_classification :: "'z impl \<Rightarrow> ptr \<Rightarrow> ptr \<Rightarrow> ptr \<Rightarrow> ptr \<Rightarrow> u64 \<Rightarrow> u64 \<Rightarrow> u64
    \<Rightarrow> 'z ops_state_scheme \<Rightarrow> (int \<times> 'z ops_state_scheme) option" where
  "vaccel_image_classification call sess img out_text out_imgname len_img len_out_text len_out_imgname =
     vaccel_image_op call VACCEL_IMG_CLASS sess img out_text out_imgname len_img len_out_text len_out_imgname"

definition vaccel_image_detection :: "'z impl \<Rightarrow> ptr \<Rightarrow> ptr \<Rightarrow> ptr \<Rightarrow> u64 \<Rightarrow> u64 \<Rightarrow> 'z ops_state_scheme \<Rightarrow> (int \<times> 'z ops_state_scheme) option" where
  "vaccel_image_detection call = vaccel_image_op_no_text call VACCEL_IMG_DETEC"

definition vaccel_image_segmentation :: "'z impl \<Rightarrow> ptr \<Rightarrow> ptr \<Rightarrow> ptr \<Rightarrow> u64 \<Rightarrow> u64 \<Rightarrow> 'z ops_state_scheme \<Rightarrow> (int \<times> 'z ops_state_scheme) option" where
  "vaccel_image_segmentation call = vaccel_image_op_no_text call VACCEL_IMG_SEGME"

definition vaccel_image_pose :: "'z impl \<Rightarrow> ptr \<Rightarrow> ptr \<Rightarrow> ptr \<Rightarrow> u64 \<Rightarrow> u64 \<Rightarrow> 'z ops_state_scheme \<Rightarrow> (int \<times> 'z ops_state_scheme) option" where
  "vaccel_image_pose call = vaccel_image_op_no_text call VACCEL_IMG_POSE"

definition vaccel_image_depth :: "'z impl \<Rightarrow> ptr \<Rightarrow> ptr \<Rightarrow> ptr \<Rightarrow> u64 \<Rightarrow> u64 \<Rightarrow> 'z ops_state_scheme \<Rightarrow> (int \<times> 'z ops_state_scheme) option" where
  "vaccel_image_depth call = vaccel_image_op_no_text call VACCEL_IMG_DEPTH"

subsection \<open>Unpacking\<close>

type_synonym 'z unpack = "ptr \<Rightarrow> args \<Rightarrow> int \<Rightarrow> args \<Rightarrow> int \<Rightarrow> 'z ops_state_scheme \<Rightarrow> (int \<times> 'z ops_state_scheme) option"

definition vaccel_noop_unpack :: "'z impl \<Rightarrow> 'z unpack" where
  "vaccel_noop_unpack call sess read nr_read write nr_write s =
     (if nr_read \<noteq> 0 \<or> read \<noteq> None then Some (VACCEL_EINVAL, s)
      else if nr_write \<noteq> 0 \<or> write \<noteq> None then Some (VACCEL_EINVAL, s)
      else vaccel_noop call sess s)"

definition vaccel_sgemm_unpack :: "'z impl \<Rightarrow> 'z unpack" where
  "vaccel_sgemm_unpack call sess read nr_read write nr_write s =
     (if nr_read \<noteq> 7 then Some (VACCEL_EINVAL, s)
      else if nr_write \<noteq> 1 then Some (VACCEL_EINVAL, s)
      else do {
        r0 \<leftarrow> nth_arg read 0; m \<leftarrow> load64 (arg_buf r0) s;
        r1 \<leftarrow> nth_arg read 1; n \<leftarrow> load64 (arg_buf r1) s;
        r2 \<leftarrow> nth_arg read 2; k \<leftarrow> load64 (arg_buf r2) s;
        r3 \<leftarrow> nth_arg read 3; alpha \<leftarrow> load32 (arg_buf r3) s;
        r4 \<leftarrow> nth_arg read 4;
        r5 \<leftarrow> nth_arg read 5;
        r6 \<leftarrow> nth_arg read 6; beta \<leftarrow> load32 (arg_buf r6) s;
        w0 \<leftarrow> nth_arg write 0;
        vaccel_sgemm call sess m n k alpha (arg_buf r4) (ucast (arg_size r4)) (arg_buf r5) (ucast (arg_size r5)) beta
          (arg_buf w0) (ucast (arg_size w0)) s })"

definition vaccel_minmax_unpack :: "'z impl \<Rightarrow> 'z unpack" where
  "vaccel_minmax_unpack call sess read nr_read write nr_write s =
     (if nr_read \<noteq> 4 then Some (VACCEL_EINVAL, s)
      else if nr_write \<noteq> 3 then Some (VACCEL_EINVAL, s)
      else do {
        r0 \<leftarrow> nth_arg read 0;
        r1 \<leftarrow> nth_arg read 1; ndata \<leftarrow> load32 (arg_buf r1) s;
        r2 \<leftarrow> nth_arg read 2; low_threshold \<leftarrow> load32 (arg_buf r2) s;
        r3 \<leftarrow> nth_arg read 3; high_threshold \<leftarrow> load32 (arg_buf r3) s;
        w0 \<leftarrow> nth_arg write 0; w1 \<leftarrow> nth_arg write 1; w2 \<leftarrow> nth_arg write 2;
        vaccel_minmax call sess (arg_buf r0) ndata low_threshold high_threshold (arg_buf w0) (arg_buf w1) (arg_buf w2) s })"

definition vaccel_exec_unpack :: "'z impl \<Rightarrow> 'z unpack" where
  "vaccel_exec_unpack call sess read nr_read write nr_write s =
     (if nr_read < 2 then Some (VACCEL_EINVAL, s)
      else do {
        r0 \<leftarrow> nth_arg read 0; r1 \<leftarrow> nth_arg read 1;
        rest \<leftarrow> args_from 2 read;
        vaccel_exec call sess (arg_buf r0) (arg_buf r1) rest (of_int (nr_read - 2)) write (of_int nr_write) s })"

text \<open>
  \<open>resource\<close> is not initialised before \<open>resource_get_by_id\<close>; whatever its type, the data of the
  resource is taken for a shared object; and it is \<open>vaccel_exec\<close> that is called at the end.
\<close>

definition vaccel_exec_with_res_unpack :: "'z impl \<Rightarrow> 'z unpack" where
  "vaccel_exec_with_res_unpack call sess read nr_read write nr_write s =
     (if nr_read < 2 then Some (VACCEL_EINVAL, s)
      else do {
        r0 \<leftarrow> nth_arg read 0; rid \<leftarrow> load64 (arg_buf r0) s;
        (ret, resource) \<leftarrow> resource_get_by_id (junk s) (sint rid) s;
        if ret \<noteq> 0 then Some (ret, s)
        else do {
          a \<leftarrow> resource;
          r \<leftarrow> r_mem s a;
          case res_data r of None \<Rightarrow> Some (VACCEL_EINVAL, s)
          | Some d \<Rightarrow> do {
              object \<leftarrow> so_mem s d;
              r1 \<leftarrow> nth_arg read 1;
              rest \<leftarrow> args_from 2 read;
              vaccel_exec call sess (f_path (o_file object)) (arg_buf r1) rest (of_int (nr_read - 2)) write (of_int nr_write) s } } })"

definition vaccel_image_op_unpack :: "'z impl \<Rightarrow> nat \<Rightarrow> ptr \<Rightarrow> args \<Rightarrow> int \<Rightarrow> int \<Rightarrow> args \<Rightarrow> int \<Rightarrow> int
    \<Rightarrow> 'z ops_state_scheme \<Rightarrow> (int \<times> 'z ops_state_scheme) option" where
  "vaccel_image_op_unpack call ty sess read nr_read nr_read_req write nr_write nr_write_req s =
     (if nr_read \<noteq> nr_read_req then Some (VACCEL_EINVAL, s)
      else if nr_write \<noteq> nr_write_req then Some (VACCEL_EINVAL, s)
      else do {
        r0 \<leftarrow> nth_arg read 0;
        w0 \<leftarrow> nth_arg write 0;
        if nr_write_req = 2
        then do {
          w1 \<leftarrow> nth_arg write 1;
          vaccel_image_op call ty sess (arg_buf r0) (arg_buf w0) (arg_buf w1) (ucast (arg_size r0)) (ucast (arg_size w0)) (ucast (arg_size w1)) s }
        else vaccel_image_op_no_text call ty sess (arg_buf r0) (arg_buf w0) (ucast (arg_size r0)) (ucast (arg_size w0)) s })"

definition vaccel_image_classification_unpack :: "'z impl \<Rightarrow> 'z unpack" where
  "vaccel_image_classification_unpack call sess read nr_read write nr_write = vaccel_image_op_unpack call VACCEL_IMG_CLASS sess read nr_read 1 write nr_write 2"

definition vaccel_image_detection_unpack :: "'z impl \<Rightarrow> 'z unpack" where
  "vaccel_image_detection_unpack call sess read nr_read write nr_write = vaccel_image_op_unpack call VACCEL_IMG_DETEC sess read nr_read 1 write nr_write 1"

definition vaccel_image_segmentation_unpack :: "'z impl \<Rightarrow> 'z unpack" where
  "vaccel_image_segmentation_unpack call sess read nr_read write nr_write = vaccel_image_op_unpack call VACCEL_IMG_SEGME sess read nr_read 1 write nr_write 1"

definition vaccel_image_pose_unpack :: "'z impl \<Rightarrow> 'z unpack" where
  "vaccel_image_pose_unpack call sess read nr_read write nr_write = vaccel_image_op_unpack call VACCEL_IMG_POSE sess read nr_read 1 write nr_write 1"

definition vaccel_image_depth_unpack :: "'z impl \<Rightarrow> 'z unpack" where
  "vaccel_image_depth_unpack call sess read nr_read write nr_write = vaccel_image_op_unpack call VACCEL_IMG_DEPTH sess read nr_read 1 write nr_write 1"

definition vaccel_fpga_arraycopy_unpack :: "'z impl \<Rightarrow> 'z unpack" where
  "vaccel_fpga_arraycopy_unpack call sess read nr_read write nr_write s =
     (if nr_read \<noteq> 1 then Some (VACCEL_EINVAL, s)
      else if nr_write \<noteq> 1 then Some (VACCEL_EINVAL, s)
      else do {
        r0 \<leftarrow> nth_arg read 0; w0 \<leftarrow> nth_arg write 0;
        vaccel_fpga_arraycopy call sess (arg_buf r0) (arg_buf w0) (ucast (arg_size r0) div 4) s })"

text \<open>A pointer converted to an integer.\<close>

definition ptr_word :: "ptr \<Rightarrow> u64" where
  "ptr_word p = (case p of None \<Rightarrow> 0 | Some a \<Rightarrow> of_nat a)"

definition vaccel_fpga_mmult_unpack :: "'z impl \<Rightarrow> 'z unpack" where
  "vaccel_fpga_mmult_unpack call sess read nr_read write nr_write s =
     (if nr_read \<noteq> 2 then Some (VACCEL_EINVAL, s)
      else if nr_write \<noteq> 1 then Some (VACCEL_EINVAL, s)
      else do {
        r0 \<leftarrow> nth_arg read 0; r1 \<leftarrow> nth_arg read 1; w0 \<leftarrow> nth_arg write 0;
        vaccel_fpga_mmult call sess (arg_buf r0) (arg_buf r1) (arg_buf w0) (ptr_word (arg_buf r0)) s })"

definition vaccel_fpga_parallel_unpack :: "'z impl \<Rightarrow> 'z unpack" where
  "vaccel_fpga_parallel_unpack call sess read nr_read write nr_write s =
     (if nr_read \<noteq> 2 then Some (VACCEL_EINVAL, s)
      else if nr_write \<noteq> 2 then Some (VACCEL_EINVAL, s)
      else do {
        r0 \<leftarrow> nth_arg read 0; r1 \<leftarrow> nth_arg read 1; w0 \<leftarrow> nth_arg write 0; w1 \<leftarrow> nth_arg write 1;
        vaccel_fpga_parallel call sess (arg_buf r0) (arg_buf r1) (arg_buf w0) (arg_buf w1) (ucast (arg_size r0) div 4) s })"

definition vaccel_fpga_vadd_unpack :: "'z impl \<Rightarrow> 'z unpack" where
  "vaccel_fpga_vadd_unpack call sess read nr_read write nr_write s =
     (if nr_read \<noteq> 2 then Some (VACCEL_EINVAL, s)
      else if nr_write \<noteq> 1 then Some (VACCEL_EINVAL, s)
      else do {
        r0 \<leftarrow> nth_arg read 0; r1 \<leftarrow> nth_arg read 1; w0 \<leftarrow> nth_arg write 0;
        vaccel_fpga_vadd call sess (arg_buf r0) (arg_buf r1) (arg_buf w0) (ucast (arg_size r0) div 4) (ucast (arg_size r1) div 4) s })"

definition vaccel_opencv_unpack :: "'z impl \<Rightarrow> 'z unpack" where
  "vaccel_opencv_unpack call sess read nr_read write nr_write = vaccel_opencv call sess read nr_read write nr_write"

subsection \<open>The generic operation\<close>

text \<open>The table of unpacking functions, by operation type.\<close>

definition callbacks :: "'z impl \<Rightarrow> 'z unpack list" where
  "callbacks call = [
     vaccel_noop_unpack call, vaccel_sgemm_unpack call, vaccel_image_classification_unpack call, vaccel_image_detection_unpack call,
     vaccel_image_segmentation_unpack call, vaccel_image_pose_unpack call, vaccel_image_depth_unpack call, vaccel_exec_unpack call,
     vaccel_noop_unpack call, vaccel_noop_unpack call, vaccel_noop_unpack call, vaccel_noop_unpack call,
     vaccel_noop_unpack call, vaccel_noop_unpack call, vaccel_noop_unpack call, vaccel_minmax_unpack call,
     vaccel_fpga_arraycopy_unpack call, vaccel_fpga_mmult_unpack call, vaccel_fpga_parallel_unpack call, vaccel_fpga_vadd_unpack call,
     vaccel_exec_with_res_unpack call, vaccel_noop_unpack call, vaccel_noop_unpack call, vaccel_opencv_unpack call]"

definition vaccel_genop :: "'z impl \<Rightarrow> 'z unpack" where
  "vaccel_genop call sess read nr_read write nr_write s =
     (if nr_read = 0 then Some (VACCEL_EINVAL, s)
      else do {
        r0 \<leftarrow> nth_arg read 0;
        op \<leftarrow> load32 (arg_buf r0) s;
        if VACCEL_FUNCTIONS_NR \<le> unat op then Some (VACCEL_EINVAL, s)
        else do {
          rest \<leftarrow> args_from 1 read;
          (callbacks call ! unat op) sess rest (nr_read - 1) write nr_write s } })"

end
