(* ===== verification/Generic_Ops.thy ===== *)
theory Generic_Ops
  imports Ops
begin

text \<open>
  Clients of \<open>vaccel_genop\<close> (\<^verbatim>\<open>src/examples/sgemm_generic.c\<close> and the other generic examples): how
  a request is packed into arrays of arguments, and that unpacking gives the request back.
\<close>

subsection \<open>Integers in memory\<close>

definition le_bytes :: "nat \<Rightarrow> 'a::len word \<Rightarrow> u8 list" where
  "le_bytes n w = map (\<lambda>i. ucast (drop_bit (8 * i) w)) [0..<n]"

lemma le_word_bytes:
  assumes "LENGTH('a) = 8 * n" shows "le_word (le_bytes n (w :: 'a::len word)) = w"
proof (rule bit_word_eqI)
  fix k assume k: "k < LENGTH('a)"
  have "bit (le_word (le_bytes n w) :: 'a word) k \<longleftrightarrow> bit (le_bytes n w ! (k div 8)) (k mod 8)"
    using k assms by (simp add: le_word_def word_rcat_def bit_word_of_int_iff bit_horner_sum_uint_exp_iff [where 'a = 8, simplified] le_bytes_def less_mult_imp_div_less mult.commute)
  also have "le_bytes n w ! (k div 8) = ucast (drop_bit (8 * (k div 8)) w)"
    using k assms by (simp add: le_bytes_def less_mult_imp_div_less mult.commute)
  also have "bit (ucast (drop_bit (8 * (k div 8)) w) :: u8) (k mod 8) \<longleftrightarrow> bit w k"
    by (simp add: bit_simps)
  finally show "bit (le_word (le_bytes n w) :: 'a word) k = bit w k" .
qed
lemma length_le_bytes [simp]: "length (le_bytes n w) = n"
  by (simp add: le_bytes_def)

lemma load_bytes:
  assumes "mem s p = Some (le_bytes n w)" shows "load n (Some p) s = Some (le_bytes n w)"
  using assms by (simp add: load_def)

lemma load32_bytes: "mem s p = Some (le_bytes 4 (w :: 32 word)) \<Longrightarrow> load32 (Some p) s = Some w"
  by (simp add: load32_def load_bytes le_word_bytes)

lemma load64_bytes: "mem s p = Some (le_bytes 8 (w :: 64 word)) \<Longrightarrow> load64 (Some p) s = Some w"
  by (simp add: load64_def load_bytes le_word_bytes)

lemma nth_arg_Some [simp]: "nth_arg (Some l) i = (if i < length l then Some (l ! i) else None)"
  by (simp add: nth_arg_def)

lemma args_from_Some [simp]: "args_from n (Some l) = (if n \<le> length l then Some (Some (drop n l)) else None)"
  by (simp add: args_from_def)

subsection \<open>Requests\<close>

datatype request =
    Sgemm "64 word" "64 word" "64 word" u32 ptr u32 ptr u32 u32 ptr u32
  | Minmax vaccel_arg "32 word" "32 word" "32 word" vaccel_arg vaccel_arg vaccel_arg
  | Classify vaccel_arg vaccel_arg vaccel_arg
  | Image nat vaccel_arg vaccel_arg
  | Exec vaccel_arg vaccel_arg "vaccel_arg list" "vaccel_arg list"
  | Arraycopy vaccel_arg vaccel_arg
  | Parallel vaccel_arg vaccel_arg vaccel_arg vaccel_arg
  | Vadd vaccel_arg vaccel_arg vaccel_arg
  | Opencv "vaccel_arg list" "vaccel_arg list"
  | Mmult vaccel_arg vaccel_arg vaccel_arg
  | Exec_Registered "64 word" vaccel_arg "vaccel_arg list" "vaccel_arg list"

fun request_op :: "request \<Rightarrow> nat" where
  "request_op (Sgemm _ _ _ _ _ _ _ _ _ _ _) = VACCEL_BLAS_SGEMM"
| "request_op (Minmax _ _ _ _ _ _ _) = VACCEL_MINMAX"
| "request_op (Classify _ _ _) = VACCEL_IMG_CLASS"
| "request_op (Image ty _ _) = ty"
| "request_op (Exec _ _ _ _) = VACCEL_EXEC"
| "request_op (Arraycopy _ _) = VACCEL_F_ARRAYCOPY"
| "request_op (Parallel _ _ _ _) = VACCEL_F_PARALLEL"
| "request_op (Vadd _ _ _) = VACCEL_F_VECTORADD"
| "request_op (Opencv _ _) = VACCEL_OPENCV"
| "request_op (Mmult _ _ _) = VACCEL_F_MMULT"
| "request_op (Exec_Registered _ _ _ _) = VACCEL_EXEC_WITH_RESOURCE"

text \<open>The operation type and the scalars of the request are variables of the client, at \<open>loc\<close>.\<close>

definition scalar :: "u32 \<Rightarrow> addr \<Rightarrow> vaccel_arg" where
  "scalar n p = \<lparr>arg_size = n, arg_buf = Some p\<rparr>"

fun request_read :: "(nat \<Rightarrow> addr) \<Rightarrow> request \<Rightarrow> vaccel_arg list" where
  "request_read loc (Sgemm _ _ _ _ a sa b sb _ _ _) = [scalar 4 (loc 1), scalar 4 (loc 2), scalar 4 (loc 3), scalar 4 (loc 4),
     \<lparr>arg_size = sa, arg_buf = a\<rparr>, \<lparr>arg_size = sb, arg_buf = b\<rparr>, scalar 4 (loc 5)]"
| "request_read loc (Minmax indata _ _ _ _ _ _) = [indata, scalar 4 (loc 1), scalar 4 (loc 2), scalar 4 (loc 3)]"
| "request_read loc (Classify img _ _) = [img]"
| "request_read loc (Image _ img _) = [img]"
| "request_read loc (Exec library symbol read _) = library # symbol # read"
| "request_read loc (Arraycopy a _) = [a]"
| "request_read loc (Parallel a b _ _) = [a, b]"
| "request_read loc (Vadd a b _) = [a, b]"
| "request_read loc (Opencv read _) = read"
| "request_read loc (Mmult a b _) = [a, b]"
| "request_read loc (Exec_Registered _ symbol read _) = scalar 8 (loc 1) # symbol # read"

fun request_write :: "request \<Rightarrow> vaccel_arg list" where
  "request_write (Sgemm _ _ _ _ _ _ _ _ _ c sc) = [\<lparr>arg_size = sc, arg_buf = c\<rparr>]"
| "request_write (Minmax _ _ _ _ outdata mn mx) = [outdata, mn, mx]"
| "request_write (Classify _ out_text out_imgname) = [out_text, out_imgname]"
| "request_write (Image _ _ out_imgname) = [out_imgname]"
| "request_write (Exec _ _ _ write) = write"
| "request_write (Arraycopy _ b) = [b]"
| "request_write (Parallel _ _ c d) = [c, d]"
| "request_write (Vadd _ _ c) = [c]"
| "request_write (Opencv _ write) = write"
| "request_write (Mmult _ _ c) = [c]"
| "request_write (Exec_Registered _ _ _ write) = write"

fun request_scalars :: "(nat \<Rightarrow> addr) \<Rightarrow> request \<Rightarrow> (addr \<times> u8 list) list" where
  "request_scalars loc (Sgemm m n k alpha _ _ _ _ beta _ _) =
     [(loc 1, le_bytes 8 m), (loc 2, le_bytes 8 n), (loc 3, le_bytes 8 k), (loc 4, le_bytes 4 alpha), (loc 5, le_bytes 4 beta)]"
| "request_scalars loc (Minmax _ ndata low high _ _ _) = [(loc 1, le_bytes 4 ndata), (loc 2, le_bytes 4 low), (loc 3, le_bytes 4 high)]"
| "request_scalars loc (Exec_Registered rid _ _ _) = [(loc 1, le_bytes 8 rid)]"
| "request_scalars loc _ = []"

definition packed :: "(nat \<Rightarrow> addr) \<Rightarrow> request \<Rightarrow> 'z ops_state_scheme \<Rightarrow> bool" where
  "packed loc q s \<longleftrightarrow> (\<forall>(p, bs) \<in> set ((loc 0, le_bytes 4 (of_nat (request_op q) :: u32)) # request_scalars loc q). mem s p = Some bs)"

definition generic_call :: "'z impl \<Rightarrow> ptr \<Rightarrow> (nat \<Rightarrow> addr) \<Rightarrow> request \<Rightarrow> 'z ops_state_scheme \<Rightarrow> (int \<times> 'z ops_state_scheme) option" where
  "generic_call call sess loc q =
     (let read = scalar 4 (loc 0) # request_read loc q; write = request_write q
      in vaccel_genop call sess (Some read) (int (length read)) (Some write) (int (length write)))"

text \<open>
  The function of the library that the request is for, called directly; an object that is named by the id of its resource is looked up.
\<close>

fun direct_call :: "'z impl \<Rightarrow> ptr \<Rightarrow> request \<Rightarrow> 'z ops_state_scheme \<Rightarrow> (int \<times> 'z ops_state_scheme) option" where
  "direct_call call sess (Sgemm m n k alpha a sa b sb beta c sc) = vaccel_sgemm call sess m n k alpha a (ucast sa) b (ucast sb) beta c (ucast sc)"
| "direct_call call sess (Minmax indata ndata low high outdata mn mx) =
     vaccel_minmax call sess (arg_buf indata) ndata low high (arg_buf outdata) (arg_buf mn) (arg_buf mx)"
| "direct_call call sess (Classify img out_text out_imgname) = vaccel_image_classification call sess (arg_buf img) (arg_buf out_text)
     (arg_buf out_imgname) (ucast (arg_size img)) (ucast (arg_size out_text)) (ucast (arg_size out_imgname))"
| "direct_call call sess (Image ty img out_imgname) =
     (if ty = VACCEL_IMG_DETEC then vaccel_image_detection else if ty = VACCEL_IMG_SEGME then vaccel_image_segmentation
      else if ty = VACCEL_IMG_POSE then vaccel_image_pose else vaccel_image_depth)
     call sess (arg_buf img) (arg_buf out_imgname) (ucast (arg_size img)) (ucast (arg_size out_imgname))"
| "direct_call call sess (Exec library symbol read write) =
     vaccel_exec call sess (arg_buf library) (arg_buf symbol) (Some read) (of_nat (length read)) (Some write) (of_nat (length write))"
| "direct_call call sess (Arraycopy a b) = vaccel_fpga_arraycopy call sess (arg_buf a) (arg_buf b) (ucast (arg_size a) div 4)"
| "direct_call call sess (Parallel a b c d) =
     vaccel_fpga_parallel call sess (arg_buf a) (arg_buf b) (arg_buf c) (arg_buf d) (ucast (arg_size a) div 4)"
| "direct_call call sess (Vadd a b c) =
     vaccel_fpga_vadd call sess (arg_buf a) (arg_buf b) (arg_buf c) (ucast (arg_size a) div 4) (ucast (arg_size b) div 4)"
| "direct_call call sess (Opencv read write) = vaccel_opencv call sess (Some read) (int (length read)) (Some write) (int (length write))"
| "direct_call call sess (Mmult a b c) = vaccel_fpga_mmult call sess (arg_buf a) (arg_buf b) (arg_buf c) (ucast (arg_size a) div 4)"
| "direct_call call sess (Exec_Registered rid symbol read write) = (\<lambda>s. do {
     (_, resource) \<leftarrow> resource_get_by_id None (sint rid) s;
     r \<leftarrow> Option.bind resource (r_mem s);
     vaccel_exec_with_resource call sess (res_data r) (arg_buf symbol) (Some read) (of_nat (length read)) (Some write) (of_nat (length write)) s })"

text \<open>The requests that are unpacked to the values that were packed.\<close>

definition valid_request :: "request \<Rightarrow> bool" where
  "valid_request q = (case q of Image ty _ _ \<Rightarrow> ty \<in> {VACCEL_IMG_DETEC, VACCEL_IMG_SEGME, VACCEL_IMG_POSE, VACCEL_IMG_DEPTH}
     | Mmult _ _ _ \<Rightarrow> False | Exec_Registered _ _ _ _ \<Rightarrow> False | _ \<Rightarrow> True)"

subsection \<open>Lemmas\<close>

lemma genop_run:
  assumes "mem s p = Some (le_bytes 4 (of_nat ty :: u32))" "ty < VACCEL_FUNCTIONS_NR"
  shows "vaccel_genop call sess (Some (scalar n p # read)) nr write nw s
    = (if nr = 0 then Some (VACCEL_EINVAL, s) else (callbacks call ! ty) sess (Some read) (nr - 1) write nw s)"
proof -
  have "unat (of_nat ty :: u32) = ty" using assms(2) by (simp add: unat_of_nat)
  then show ?thesis using assms load32_bytes [OF assms(1)] by (simp add: vaccel_genop_def scalar_def)
qed

lemma request_op_valid: "valid_request q \<Longrightarrow> request_op q < VACCEL_FUNCTIONS_NR"
  by (cases q) (auto simp: valid_request_def)

lemma nth_callbacks:
  "callbacks call ! 1 = vaccel_sgemm_unpack call" "callbacks call ! 2 = vaccel_image_classification_unpack call"
  "callbacks call ! 3 = vaccel_image_detection_unpack call" "callbacks call ! 4 = vaccel_image_segmentation_unpack call"
  "callbacks call ! 5 = vaccel_image_pose_unpack call" "callbacks call ! 6 = vaccel_image_depth_unpack call"
  "callbacks call ! 7 = vaccel_exec_unpack call" "callbacks call ! 15 = vaccel_minmax_unpack call"
  "callbacks call ! 16 = vaccel_fpga_arraycopy_unpack call" "callbacks call ! 17 = vaccel_fpga_mmult_unpack call"
  "callbacks call ! 18 = vaccel_fpga_parallel_unpack call"
  "callbacks call ! 19 = vaccel_fpga_vadd_unpack call" "callbacks call ! 20 = vaccel_exec_with_res_unpack call"
  "callbacks call ! 23 = vaccel_opencv_unpack call"
  by (simp_all add: callbacks_def)

lemma unpack_request:
  assumes "packed loc q s" "valid_request q"
  shows "(callbacks call ! request_op q) sess (Some (request_read loc q)) (int (length (request_read loc q))) (Some (request_write q))
    (int (length (request_write q))) s = direct_call call sess q s"
proof (cases q)
  case (Sgemm m n k alpha a sa b sb beta c sc)
  then have "load64 (Some (loc 1)) s = Some m" "load64 (Some (loc 2)) s = Some n" "load64 (Some (loc 3)) s = Some k"
    "load32 (Some (loc 4)) s = Some alpha" "load32 (Some (loc 5)) s = Some beta"
    using assms(1) by (simp_all add: packed_def load64_bytes load32_bytes)
  then show ?thesis unfolding Sgemm by (simp add: nth_callbacks [simplified] vaccel_sgemm_unpack_def scalar_def)
next
  case (Minmax indata ndata low high outdata mn mx)
  then have "load32 (Some (loc 1)) s = Some ndata" "load32 (Some (loc 2)) s = Some low" "load32 (Some (loc 3)) s = Some high"
    using assms(1) by (simp_all add: packed_def load32_bytes)
  then show ?thesis unfolding Minmax by (simp add: nth_callbacks vaccel_minmax_unpack_def scalar_def)
next
  case (Classify img out_text out_imgname)
  then show ?thesis by (simp add: nth_callbacks vaccel_image_classification_unpack_def vaccel_image_op_unpack_def vaccel_image_classification_def)
next
  case (Image ty img out_imgname)
  note d = vaccel_image_op_unpack_def vaccel_image_detection_unpack_def vaccel_image_segmentation_unpack_def vaccel_image_pose_unpack_def
    vaccel_image_depth_unpack_def vaccel_image_detection_def vaccel_image_segmentation_def vaccel_image_pose_def vaccel_image_depth_def
  have "ty = 3 \<or> ty = 4 \<or> ty = 5 \<or> ty = 6" using assms(2) Image by (auto simp: valid_request_def)
  then show ?thesis unfolding Image by (elim disjE) (simp_all add: nth_callbacks d)
next
  case (Exec library symbol rd wr)
  then show ?thesis by (simp add: nth_callbacks vaccel_exec_unpack_def)
next
  case (Arraycopy a b)
  then show ?thesis by (simp add: nth_callbacks vaccel_fpga_arraycopy_unpack_def)
next
  case (Parallel a b c d)
  then show ?thesis by (simp add: nth_callbacks vaccel_fpga_parallel_unpack_def)
next
  case (Vadd a b c)
  then show ?thesis by (simp add: nth_callbacks vaccel_fpga_vadd_unpack_def)
next
  case (Opencv rd wr)
  then show ?thesis by (simp add: nth_callbacks vaccel_opencv_unpack_def)
qed (use assms(2) in \<open>simp_all add: valid_request_def\<close>)

lemma generic_call_direct:
  assumes "packed loc q s" "valid_request q"
  shows "generic_call call sess loc q s = direct_call call sess q s"
proof -
  have "mem s (loc 0) = Some (le_bytes 4 (of_nat (request_op q) :: u32))" using assms(1) by (simp add: packed_def)
  then show ?thesis
    using unpack_request [OF assms] request_op_valid [OF assms(2)]
    by (simp add: generic_call_def genop_run Let_def)
qed

text \<open>The two operations that do not get what was packed.\<close>

lemma generic_call_mmult:
  assumes "packed loc (Mmult a b c) s"
  shows "generic_call call sess loc (Mmult a b c) s = vaccel_fpga_mmult call sess (arg_buf a) (arg_buf b) (arg_buf c) (ptr_word (arg_buf a)) s"
proof -
  have "mem s (loc 0) = Some (le_bytes 4 (of_nat (request_op (Mmult a b c)) :: u32))" using assms by (simp add: packed_def)
  from genop_run [OF this] show ?thesis by (simp add: generic_call_def nth_callbacks vaccel_fpga_mmult_unpack_def)
qed

lemma generic_call_registered:
  assumes "packed loc (Exec_Registered rid symbol read write) s" "res_ok s L" "r_initialized s" "c \<in> set L" "rid_of s c = sint rid"
    "r_mem s c = Some r" "res_data r = Some d" "so_mem s d = Some ob"
  shows "generic_call call sess loc (Exec_Registered rid symbol read write) s
    = vaccel_exec call sess (f_path (o_file ob)) (arg_buf symbol) (Some read) (of_nat (length read)) (Some write) (of_nat (length write)) s"
proof -
  have "mem s (loc 0) = Some (le_bytes 4 (of_nat (request_op (Exec_Registered rid symbol read write)) :: u32))" "mem s (loc 1) = Some (le_bytes 8 rid)"
    using assms(1) by (simp_all add: packed_def)
  moreover have "resource_get_by_id (junk s) (sint rid) s = Some (VACCEL_OK, Some c)"
    using resource_get_by_id_found [OF assms(2,3)] assms(4,5) by metis
  ultimately show ?thesis using genop_run [of s "loc 0" "request_op (Exec_Registered rid symbol read write)"] load64_bytes [of s "loc 1" rid] assms(6-8)
    by (simp add: generic_call_def nth_callbacks vaccel_exec_with_res_unpack_def scalar_def)
qed

text \<open>What a call leaves alone when it does not measure anything itself.\<close>

definition quiet :: "'z impl \<Rightarrow> bool" where
  "quiet call \<longleftrightarrow> (\<forall>f args s ret t. call f args s = Some (ret, t) \<longrightarrow> image_op_stats t = image_op_stats s \<and> smp_mem t = smp_mem s
     \<and> ticks t = ticks s \<and> same_clock s t)"

lemma samples_cong: "smp_mem t = smp_mem s \<Longrightarrow> samples r t P = samples r s P"
  by (cases "pr_samples r") (simp_all add: samples_def)

lemma same_clock_trans: "same_clock s t \<Longrightarrow> same_clock t u \<Longrightarrow> same_clock s u"
  by (simp add: same_clock_def)

lemma image_start_ok:
  assumes r: "samples (image_op_stats s) s P" "unat (pr_size (image_op_stats s)) < 2 ^ 57" and e: "vaccel_prof_enabled s"
    and m: "alloc_ok (os s) (alloc_next (os s))"
  obtains s1 where "image_start s = Some s1" "samples (image_op_stats s1) s1 (P @ [no_sample\<lparr>ps_start := Some (clock s (ticks s))\<rparr>])"
    "same_clock s s1" "ticks s1 = Suc (ticks s)"
proof (cases rule: start_sample_ok [OF r])
  case (1 s')
  then show thesis using m by simp
next
  case (2 r' s')
  let ?s = "s'\<lparr>image_op_stats := r'\<rparr>"
  have "image_start s = Some ?s" using 2(1) e by (simp add: image_start_def vaccel_prof_region_start_def)
  moreover have "samples r' ?s (P @ [no_sample\<lparr>ps_start := Some (clock s (ticks s))\<rparr>])" using 2(2) samples_cong [of ?s s'] by simp
  ultimately show thesis by (intro that [of ?s]) (use 2 in \<open>simp_all add: same_clock_def\<close>)
qed

lemma stop_sample_stats: "stop_sample r s = Some (ret, t) \<Longrightarrow> image_op_stats t = image_op_stats s"
  by (auto simp: stop_sample_def prof_sample_stop_def get_tstamp_nsec_def set_sample_def split: option.splits Option.bind_splits if_splits)

text \<open>Measuring leaves the plugins and the sessions alone.\<close>

definition frame :: "'z prof_state_scheme \<Rightarrow> 'z prof_state_scheme \<Rightarrow> bool" where
  "frame s t \<longleftrightarrow> p_links t = p_links s \<and> plugins t = plugins s \<and> ops t = ops s \<and> s_mem t = s_mem s"

lemma free_samples_frame: "free_samples p s = Some t \<Longrightarrow> frame s t"
  by (auto simp: free_samples_def frame_def split: option.splits if_splits)

lemma realloc_frame: "realloc_samples p n s = Some (q, t) \<Longrightarrow> frame s t"
  by (auto simp: realloc_samples_def frame_def os_call_def Let_def split: option.splits Option.bind_splits if_splits prod.splits
      dest!: free_samples_frame)

lemma get_next_frame: "get_next_sample r s = Some (i, r', t) \<Longrightarrow> frame s t"
  by (auto simp: get_next_sample_def grow_samples_array_def Let_def split: Option.bind_splits if_splits prod.splits dest: realloc_frame)
    (simp_all add: frame_def)

lemma start_sample_frame: "start_sample r s = Some (ret, r', t) \<Longrightarrow> frame s t"
  by (auto simp: start_sample_def prof_sample_start_def set_sample_def get_tstamp_nsec_def frame_def
      split: option.splits Option.bind_splits if_splits dest!: get_next_frame)

lemma image_start_frame:
  assumes "image_start s = Some t" shows "p_links t = p_links s" "plugins t = plugins s" "ops t = ops s" "s_mem t = s_mem s"
  using assms
  by (auto simp: image_start_def vaccel_prof_region_start_def frame_def split: Option.bind_splits if_splits dest!: start_sample_frame)

lemma image_stop_ok:
  assumes r: "samples (image_op_stats s) s (P @ [x])" "ps_start x = Some t" and e: "vaccel_prof_enabled s"
  obtains s1 where "image_stop s = Some s1" "samples (image_op_stats s1) s1 (P @ [x\<lparr>ps_time := Some (clock s (ticks s) - t)\<rparr>])"
proof (rule stop_sample_ok [OF r])
  fix s1 assume s1: "stop_sample (image_op_stats s) s = Some (VACCEL_OK, s1)"
    "samples (image_op_stats s) s1 (P @ [x\<lparr>ps_time := Some (clock s (ticks s) - t)\<rparr>])"
  have "image_stop s = Some s1" using s1(1) e by (simp add: image_stop_def vaccel_prof_region_stop_def)
  then show thesis by (rule that) (use s1 stop_sample_stats in metis)
qed

subsection \<open>Properties\<close>

text \<open>
  C22. A request that a client packs into arrays of arguments, as the generic examples do, and gives to \<open>vaccel_genop\<close>: for sgemm, minmax, the five
  image operations, exec, array copy, parallel, vector addition and OpenCV it is unpacked to the same values, and the effect is that of calling
  the function of the library directly, for every implementation. (The leading dimensions of an sgemm are the sizes of the buffers in bytes.)
  For the other two that are unpacked it is not: a matrix multiplication gets the address of its first array as the length, and a function of an object that is given
  by the id of its live resource is run as a plain exec with the path of the object, not as the operation with a resource that was asked for.
\<close>

theorem genop_roundtrip:
  assumes "packed loc q s"
  shows "(valid_request q \<longrightarrow> generic_call call sess loc q s = direct_call call sess q s)
    \<and> (\<forall>a b c. q = Mmult a b c \<longrightarrow> generic_call call sess loc q s
        = vaccel_fpga_mmult call sess (arg_buf a) (arg_buf b) (arg_buf c) (ptr_word (arg_buf a)) s)
    \<and> (\<forall>rid symbol read write L c r d ob. q = Exec_Registered rid symbol read write \<and> res_ok s L \<and> r_initialized s \<and> c \<in> set L
        \<and> rid_of s c = sint rid \<and> r_mem s c = Some r \<and> res_data r = Some d \<and> so_mem s d = Some ob
        \<longrightarrow> generic_call call sess loc q s
          = vaccel_exec call sess (f_path (o_file ob)) (arg_buf symbol) (Some read) (of_nat (length read)) (Some write) (of_nat (length write)) s)"
proof (intro conjI allI impI)
  show "generic_call call sess loc q s = direct_call call sess q s" if "valid_request q" by (rule generic_call_direct [OF assms that])
  show "generic_call call sess loc q s = vaccel_fpga_mmult call sess (arg_buf a) (arg_buf b) (arg_buf c) (ptr_word (arg_buf a)) s"
    if "q = Mmult a b c" for a b c using generic_call_mmult [of loc a b c s] assms that by simp
qed (use generic_call_registered assms in blast)

definition ops_booted :: ops_state where
  "ops_booted = prof_state.extend prof_booted \<lparr>mem = Map.empty, junk = None, image_op_stats = VACCEL_PROF_REGION_INIT None,
     tf_load_stats = VACCEL_PROF_REGION_INIT None, tf_session_run_stats = VACCEL_PROF_REGION_INIT None,
     tf_session_delete_stats = VACCEL_PROF_REGION_INIT None\<rparr>"

definition minmax_request :: request where
  "minmax_request = Minmax \<lparr>arg_size = 16, arg_buf = Some 60\<rparr> 2 10 100 \<lparr>arg_size = 16, arg_buf = Some 61\<rparr>
     \<lparr>arg_size = 8, arg_buf = Some 62\<rparr> \<lparr>arg_size = 8, arg_buf = Some 63\<rparr>"

theorem genop_roundtrip_witness:
  "\<exists>s. packed id minmax_request s \<and> generic_call (\<lambda>f args s. Some (7, s)) (Some 20) id minmax_request (s :: ops_state)
    = vaccel_minmax (\<lambda>f args s. Some (7, s)) (Some 20) (Some 60) 2 10 100 (Some 61) (Some 62) (Some 63) s"
proof -
  let ?s = "ops_booted\<lparr>mem := [0 \<mapsto> le_bytes 4 (15 :: u32), 1 \<mapsto> le_bytes 4 (2 :: u32), 2 \<mapsto> le_bytes 4 (10 :: u32), 3 \<mapsto> le_bytes 4 (100 :: u32)]\<rparr>"
  have "packed id minmax_request ?s" "valid_request minmax_request" by (simp_all add: packed_def minmax_request_def valid_request_def)
  from genop_roundtrip [OF this(1), of "\<lambda>f args s. Some (7, s)" "Some 20"] this show ?thesis by (auto simp: minmax_request_def)
qed

text \<open>
  Some operations cannot be invoked by \<open>vaccel_genop\<close> at all: with the type of the no-op, of one of the TensorFlow or Torch operations, or
  with no operation type, it returns EINVAL whatever the arguments, because the pointer behind the operation type that the unpacking
  function of the no-op is given is never NULL.
\<close>

theorem genop_refuses:
  assumes "mem s p = Some (le_bytes 4 (of_nat ty :: u32))" "ty < 2 ^ 32"
    "ty \<in> {VACCEL_NO_OP, VACCEL_TF_SESSION_LOAD, VACCEL_TF_SESSION_RUN, VACCEL_TF_SESSION_DELETE, VACCEL_TORCH_JITLOAD_FORWARD, VACCEL_TORCH_SGEMM} \<or> VACCEL_FUNCTIONS_NR \<le> ty"
  shows "vaccel_genop call sess (Some (scalar n p # read)) nr_read write nr_write s = Some (VACCEL_EINVAL, s)"
proof (cases "ty < VACCEL_FUNCTIONS_NR")
  case True
  have "callbacks call ! ty = vaccel_noop_unpack call" using assms(3) True by (auto simp: callbacks_def)
  then show ?thesis using genop_run [OF assms(1) True] by (simp add: vaccel_noop_unpack_def)
next
  case False
  have "unat (of_nat ty :: u32) = ty" using assms(2) by (simp add: unat_of_nat)
  then show ?thesis using False load32_bytes [OF assms(1)] by (simp add: vaccel_genop_def scalar_def)
qed

theorem genop_refuses_witness:
  "vaccel_genop (\<lambda>f args s. Some (0, s)) (Some 20) (Some [scalar 4 1]) 1 None 0 (ops_booted\<lparr>mem := [1 \<mapsto> le_bytes 4 (0 :: u32)]\<rparr>)
    = Some (VACCEL_EINVAL, ops_booted\<lparr>mem := [1 \<mapsto> le_bytes 4 (0 :: u32)]\<rparr>)"
  using genop_refuses [of "ops_booted\<lparr>mem := [1 \<mapsto> le_bytes 4 (0 :: u32)]\<rparr>" 1 0] by simp

text \<open>
  Executing a function of a registered library by the id of its resource, with an id that no live resource has: the pointer to the resource
  that was never initialised is used when it happens not to be NULL, and there is no defined result unless a resource lies there.
\<close>

theorem exec_with_res_uninitialised:
  assumes "res_ok s L" "r_initialized s" "arg_buf r0 = Some p" "mem s p = Some (le_bytes 8 (rid :: u64))" "2 \<le> nr_read" "sint rid \<notin> rid_of s ` set L"
  shows "(junk s = None \<longrightarrow> vaccel_exec_with_res_unpack call sess (Some (r0 # read)) nr_read write nr_write s = Some (VACCEL_EINVAL, s))
    \<and> (\<forall>a. junk s = Some a \<and> r_mem s a = None \<longrightarrow> vaccel_exec_with_res_unpack call sess (Some (r0 # read)) nr_read write nr_write s = None)"
proof -
  have "resource_get_by_id (junk s) (sint rid) s = Some (if junk s = None then VACCEL_EINVAL else VACCEL_OK, junk s)"
    by (rule resource_get_by_id_missing [OF assms(1,2)]) (use assms(6) res_okD(6) [OF assms(1)] in simp)
  then show ?thesis using assms(3,5) load64_bytes [OF assms(4)] by (cases "junk s") (simp_all add: vaccel_exec_with_res_unpack_def)
qed

definition exec_stale :: ops_state where
  "exec_stale = ops_booted\<lparr>r_mem := Map.empty, junk := Some 77, mem := [1 \<mapsto> le_bytes 8 (5 :: u64)]\<rparr>"

lemma exec_stale: "res_ok exec_stale []" "r_initialized exec_stale"
proof -
  note d = exec_stale_def ops_booted_def prof_booted_def prof_state.defs obj_state.defs sess_state.defs res_state.defs
  have e: "r_mem exec_stale = Map.empty" "r_pool exec_stale = r_pool res_booted" "r_links exec_stale = r_links res_booted" by (simp_all add: d)
  show "res_ok exec_stale []" using res_booted(1) by (simp add: res_ok_def rundirs_ok_def e)
  show "r_initialized exec_stale" by (simp add: d res_booted)
qed

theorem exec_with_res_uninitialised_witness:
  "vaccel_exec_with_res_unpack (\<lambda>f args s. Some (0, s)) (Some 20) (Some [\<lparr>arg_size = 8, arg_buf = Some 1\<rparr>, \<lparr>arg_size = 0, arg_buf = None\<rparr>]) 2 None 0 exec_stale = None"
  using exec_with_res_uninitialised [OF exec_stale, of "\<lparr>arg_size = 8, arg_buf = Some 1\<rparr>" 1 5 2]
  by (simp add: exec_stale_def)

text \<open>
  Every image operation on a session is measured exactly once, also when no plugin implements it: with profiling on, and memory for the
  sample, the region of the image operations gets one more time, provided the implementation does not measure image operations itself.
\<close>

theorem image_op_measured:
  assumes "region_ok (image_op_stats s) s T" "unat (pr_size (image_op_stats s)) < 2 ^ 57" "vaccel_prof_enabled s"
    "alloc_ok (os s) (alloc_next (os s))" "quiet call" "vaccel_image_op call ty (Some se) img out_text out_imgname n k m s = Some (ret, s')"
  shows "region_ok (image_op_stats s') s' (T @ [clock s (Suc (ticks s)) - clock s (ticks s)])"
proof -
  obtain P where P: "samples (image_op_stats s) s P" "map ps_time P = map Some T" using assms(1) by (auto simp: region_ok_def)
  obtain s1 where 1: "image_start s = Some s1" "samples (image_op_stats s1) s1 (P @ [no_sample\<lparr>ps_start := Some (clock s (ticks s))\<rparr>])"
    "same_clock s s1" "ticks s1 = Suc (ticks s)"
    by (rule image_start_ok [OF P(1) assms(2-4)])
  obtain s2 where 2: "image_stop s2 = Some s'" "image_op_stats s2 = image_op_stats s1 \<and> smp_mem s2 = smp_mem s1 \<and> ticks s2 = ticks s1 \<and> same_clock s1 s2"
    using assms(6) 1(1) assms(5) unfolding vaccel_image_op_def quiet_def
    by (auto simp: same_clock_def split: Option.bind_splits option.splits if_splits)
  then have c: "same_clock s s2" "ticks s2 = Suc (ticks s)" using 1(3,4) same_clock_trans by auto
  have s: "samples (image_op_stats s2) s2 (P @ [no_sample\<lparr>ps_start := Some (clock s (ticks s))\<rparr>])" using 1(2) 2(2) samples_cong by metis
  have e: "vaccel_prof_enabled s2" using same_clock_enabled [OF c(1)] assms(3) by simp
  have t: "ps_start (no_sample\<lparr>ps_start := Some (clock s (ticks s))\<rparr>) = Some (clock s (ticks s))" by simp
  let ?x = "no_sample\<lparr>ps_start := Some (clock s (ticks s)), ps_time := Some (clock s2 (ticks s2) - clock s (ticks s))\<rparr>"
  have "samples (image_op_stats s') s' (P @ [?x])" by (rule image_stop_ok [OF s t e]) (use 2(1) in simp)
  moreover have "clock s2 (ticks s2) = clock s (Suc (ticks s))" using c by (simp add: same_clock_def)
  ultimately show ?thesis using P(2) by (auto simp: region_ok_def intro!: exI [of _ "P @ [?x]"])
qed

text \<open>The session at 20 with two plugins, of which the first implements the detection of objects.\<close>

definition image_ready :: ops_state where
  "image_ready = ops_booted\<lparr>p_links := p_links two_registered, plugins := plugins two_registered, ops := ops two_registered,
     s_mem := [20 \<mapsto> no_session]\<rparr>"

lemma image_ready: "plug_ok image_ready registry_2" "vaccel_prof_enabled image_ready" "alloc_ok (os image_ready) n" "ticks image_ready = 0"
  "clock image_ready k = of_nat (100 * k)" "image_op_stats image_ready = VACCEL_PROF_REGION_INIT None" "s_mem image_ready 20 = Some no_session"
proof -
  have o: "os image_ready = os prof_booted" "env (os image_ready) = env (os prof_booted)" by (simp_all add: image_ready_def ops_booted_def prof_state.defs)
  show "plug_ok image_ready registry_2" using two_registered_ok(1) by (simp add: plug_ok_def image_ready_def)
  show "vaccel_prof_enabled image_ready" using prof_booted(1) by (simp add: vaccel_prof_enabled_def o)
  show "alloc_ok (os image_ready) n" using prof_booted(4) by (simp add: o)
  show "ticks image_ready = 0" "clock image_ready k = of_nat (100 * k)" "image_op_stats image_ready = VACCEL_PROF_REGION_INIT None"
    "s_mem image_ready 20 = Some no_session"
    using prof_booted(2,3) by (simp_all add: image_ready_def ops_booted_def prof_state.defs)
qed

theorem image_op_measured_witness:
  "\<exists>s'. vaccel_image_op (\<lambda>f args s. Some (0, s)) VACCEL_IMG_DETEC (Some 20) (Some 60) None (Some 61) 9 0 8 image_ready = Some (0, s')
    \<and> region_ok (image_op_stats s') s' [100]"
proof -
  let ?call = "\<lambda>f args s. Some (0, s) :: (int \<times> ops_state) option"
  have b: "unat (pr_size (image_op_stats image_ready)) < 2 ^ 57" by (simp add: image_ready(6) VACCEL_PROF_REGION_INIT_def)
  have r: "region_ok (image_op_stats image_ready) image_ready []" unfolding image_ready(6) by (rule region_ok_init)
  have q: "quiet ?call" by (simp add: quiet_def same_clock_def)
  have "samples (image_op_stats image_ready) image_ready []" by (simp add: image_ready(6) samples_def VACCEL_PROF_REGION_INIT_def)
  from image_start_ok [OF this b image_ready(2,3)] obtain s1 where s1: "image_start image_ready = Some s1"
    "samples (image_op_stats s1) s1 ([] @ [no_sample\<lparr>ps_start := Some 0\<rparr>])" "same_clock image_ready s1"
    unfolding image_ready(4,5) by auto
  note f = image_start_frame [OF s1(1)]
  have "plug_ok s1 registry_2" using image_ready(1) f by (simp add: plug_ok_def)
  from get_plugin_op_spec [OF this, of 3 0] have "find_op 3 20 s1 = Some (Some 100)"
    using f image_ready(7) registry_2(2) two_registered_ok(4)
    by (simp add: find_op_def no_session_def choose_op_def image_ready_def two_loaded_def)
  moreover have e: "vaccel_prof_enabled s1" using same_clock_enabled [OF s1(3)] image_ready(2) by simp
  have "ps_start (no_sample\<lparr>ps_start := Some 0\<rparr>) = Some 0" by simp
  from image_stop_ok [OF s1(2) this e] obtain s' where "image_stop s1 = Some s'" by metis
  ultimately have run: "vaccel_image_op ?call VACCEL_IMG_DETEC (Some 20) (Some 60) None (Some 61) 9 0 8 image_ready = Some (0, s')"
    using s1(1) by (simp add: vaccel_image_op_def)
  from image_op_measured [OF r b image_ready(2,3) q run] show ?thesis
    using run unfolding image_ready(4,5) by auto
qed

end
