(* ===== verification/Tensors.thy ===== *)
theory Tensors
  imports Generic_Ops
begin

text \<open>
  The data types and the operations of TensorFlow (\<^verbatim>\<open>src/src/ops/tf.c\<close>, \<^verbatim>\<open>src/src/include/ops/tf.h\<close>) and Torch
  (\<^verbatim>\<open>src/src/ops/torch.c\<close>, \<^verbatim>\<open>src/src/include/ops/torch.h\<close>): buffers, nodes and tensors on the heap, who owns
  their data, and the calls into the plugins. The two sources declare the same structures; they
  differ in the type of a tensor's dimensions.
\<close>

subsection \<open>State\<close>

text \<open>\<open>struct vaccel_tf_buffer\<close> and \<open>struct vaccel_torch_buffer\<close>, \<open>struct vaccel_tf_node\<close>, and both tensors.\<close>

record buffer =
  b_data :: ptr
  b_size :: u64

record tf_node =
  n_name :: ptr
  n_id :: int

record tensor =
  t_data :: ptr
  t_size :: u64
  t_owned :: bool
  t_nr_dims :: int
  t_dims :: ptr
  t_type :: nat

text \<open>
  The structures are kept by address. A block of dimensions is an array of 32-bit words, which is
  the type both tensors give to \<open>dims\<close>. \<open>stale\<close> is what freshly allocated memory holds.
\<close>

record tensor_state = ops_state +
  stale :: "addr \<Rightarrow> nat \<Rightarrow> u8"
  buf_mem :: "addr \<Rightarrow> buffer option"
  node_mem :: "addr \<Rightarrow> tf_node option"
  ten_mem :: "addr \<Rightarrow> tensor option"
  dims_mem :: "addr \<Rightarrow> u32 list option"

subsection \<open>Allocation of data\<close>

definition malloc_bytes :: "u64 \<Rightarrow> 'z tensor_state_scheme \<Rightarrow> ptr \<times> 'z tensor_state_scheme" where
  "malloc_bytes n s = (case os_call malloc s of
       (None, s) \<Rightarrow> (None, s)
     | (Some a, s) \<Rightarrow> (Some a, s\<lparr>mem := (mem s)(a \<mapsto> map (stale s a) [0..<unat n])\<rparr>))"

definition free_bytes :: "ptr \<Rightarrow> 'z ops_state_scheme \<Rightarrow> 'z ops_state_scheme option" where
  "free_bytes p s = (case p of None \<Rightarrow> Some s
     | Some a \<Rightarrow> do { defined (mem s a \<noteq> None); Some (s\<lparr>mem := (mem s)(a := None)\<rparr>) })"

subsection \<open>Buffers\<close>

definition buffer_new :: "ptr \<Rightarrow> u64 \<Rightarrow> 'z tensor_state_scheme \<Rightarrow> ptr \<times> 'z tensor_state_scheme" where
  "buffer_new data n s = (case os_call malloc s of
       (None, s) \<Rightarrow> (None, s)
     | (Some a, s) \<Rightarrow> (Some a, s\<lparr>buf_mem := (buf_mem s)(a \<mapsto> \<lparr>b_data = data, b_size = n\<rparr>)\<rparr>))"

definition buffer_destroy :: "ptr \<Rightarrow> 'z tensor_state_scheme \<Rightarrow> 'z tensor_state_scheme option" where
  "buffer_destroy buffer s = do {
     a \<leftarrow> buffer;
     b \<leftarrow> buf_mem s a;
     s \<leftarrow> free_bytes (b_data b) s;
     Some (s\<lparr>buf_mem := (buf_mem s)(a := None)\<rparr>) }"

text \<open>The size is stored through the caller's pointer unless the buffer is NULL.\<close>

definition buffer_take_data :: "ptr \<Rightarrow> 'z tensor_state_scheme \<Rightarrow> (ptr \<times> u64 option \<times> 'z tensor_state_scheme) option" where
  "buffer_take_data buffer s = (case buffer of
       None \<Rightarrow> Some (None, None, s)
     | Some a \<Rightarrow> do {
         b \<leftarrow> buf_mem s a;
         Some (b_data b, Some (b_size b), s\<lparr>buf_mem := (buf_mem s)(a \<mapsto> \<lparr>b_data = None, b_size = 0\<rparr>)\<rparr>) })"

definition buffer_get_data :: "ptr \<Rightarrow> 'z tensor_state_scheme \<Rightarrow> (ptr \<times> u64 option) option" where
  "buffer_get_data buffer s = (case buffer of
       None \<Rightarrow> Some (None, None)
     | Some a \<Rightarrow> do { b \<leftarrow> buf_mem s a; Some (b_data b, Some (b_size b)) })"

definition vaccel_tf_buffer_new :: "ptr \<Rightarrow> u64 \<Rightarrow> 'z tensor_state_scheme \<Rightarrow> ptr \<times> 'z tensor_state_scheme" where
  "vaccel_tf_buffer_new = buffer_new"

definition vaccel_tf_buffer_destroy :: "ptr \<Rightarrow> 'z tensor_state_scheme \<Rightarrow> 'z tensor_state_scheme option" where
  "vaccel_tf_buffer_destroy = buffer_destroy"

definition vaccel_tf_buffer_take_data :: "ptr \<Rightarrow> 'z tensor_state_scheme \<Rightarrow> (ptr \<times> u64 option \<times> 'z tensor_state_scheme) option" where
  "vaccel_tf_buffer_take_data = buffer_take_data"

definition vaccel_tf_buffer_get_data :: "ptr \<Rightarrow> 'z tensor_state_scheme \<Rightarrow> (ptr \<times> u64 option) option" where
  "vaccel_tf_buffer_get_data = buffer_get_data"

definition vaccel_torch_buffer_new :: "ptr \<Rightarrow> u64 \<Rightarrow> 'z tensor_state_scheme \<Rightarrow> ptr \<times> 'z tensor_state_scheme" where
  "vaccel_torch_buffer_new = buffer_new"

definition vaccel_torch_buffer_destroy :: "ptr \<Rightarrow> 'z tensor_state_scheme \<Rightarrow> 'z tensor_state_scheme option" where
  "vaccel_torch_buffer_destroy = buffer_destroy"

definition vaccel_torch_buffer_take_data :: "ptr \<Rightarrow> 'z tensor_state_scheme \<Rightarrow> (ptr \<times> u64 option \<times> 'z tensor_state_scheme) option" where
  "vaccel_torch_buffer_take_data = buffer_take_data"

definition vaccel_torch_buffer_get_data :: "ptr \<Rightarrow> 'z tensor_state_scheme \<Rightarrow> (ptr \<times> u64 option) option" where
  "vaccel_torch_buffer_get_data = buffer_get_data"

subsection \<open>Nodes\<close>

definition vaccel_tf_node_new :: "string \<Rightarrow> int \<Rightarrow> 'z tensor_state_scheme \<Rightarrow> (ptr \<times> 'z tensor_state_scheme) option" where
  "vaccel_tf_node_new name i s = (case os_call malloc s of
       (None, s) \<Rightarrow> Some (None, s)
     | (Some a, s) \<Rightarrow>
       (let (p, s) = os_call (strdup name) s in
        if p = None then Some (None, s)
        else Some (Some a, s\<lparr>node_mem := (node_mem s)(a \<mapsto> \<lparr>n_name = p, n_id = i\<rparr>)\<rparr>)))"

definition vaccel_tf_node_destroy :: "ptr \<Rightarrow> 'z tensor_state_scheme \<Rightarrow> 'z tensor_state_scheme option" where
  "vaccel_tf_node_destroy nd s = (case nd of None \<Rightarrow> Some s
     | Some a \<Rightarrow> do {
         n \<leftarrow> node_mem s a;
         o' \<leftarrow> free_str (n_name n) (os s);
         Some (s\<lparr>os := o', node_mem := (node_mem s)(a := None)\<rparr>) })"

definition vaccel_tf_node_get_name :: "ptr \<Rightarrow> 'z tensor_state_scheme \<Rightarrow> ptr option" where
  "vaccel_tf_node_get_name nd s = (case nd of None \<Rightarrow> Some None | Some a \<Rightarrow> map_option n_name (node_mem s a))"

definition vaccel_tf_node_get_id :: "ptr \<Rightarrow> 'z tensor_state_scheme \<Rightarrow> int option" where
  "vaccel_tf_node_get_id nd s = (case nd of None \<Rightarrow> Some (- VACCEL_EINVAL) | Some a \<Rightarrow> map_option n_id (node_mem s a))"

subsection \<open>Tensors\<close>

text \<open>
  The caller's dimensions are an array of elements of \<open>w\<close> words; \<open>memcpy\<close> reads \<open>nr_dims\<close> of them.
  A negative \<open>nr_dims\<close> becomes a huge count, which \<open>calloc\<close> refuses.
\<close>

definition tensor_new :: "nat \<Rightarrow> int \<Rightarrow> u32 list option \<Rightarrow> nat \<Rightarrow> 'z tensor_state_scheme \<Rightarrow> (ptr \<times> 'z tensor_state_scheme) option" where
  "tensor_new w nr_dims dims ty s = (case os_call malloc s of
       (None, s) \<Rightarrow> Some (None, s)
     | (Some a, s) \<Rightarrow>
       (let n = nat (nr_dims mod 2 ^ 64) in
        case os_call (calloc n (4 * w)) s of
          (None, s) \<Rightarrow> Some (None, s)
        | (Some d, s) \<Rightarrow> do {
            words \<leftarrow> (case dims of None \<Rightarrow> Some (replicate (n * w) 0)
                    | Some ds \<Rightarrow> do { defined (n * w \<le> length ds); Some (take (n * w) ds) });
            Some (Some a, s\<lparr>dims_mem := (dims_mem s)(d \<mapsto> words),
              ten_mem := (ten_mem s)(a \<mapsto> \<lparr>t_data = None, t_size = 0, t_owned = False, t_nr_dims = nr_dims, t_dims = Some d, t_type = ty\<rparr>)\<rparr>) }))"

text \<open>The test after the allocation of the data is of the tensor, not of the data.\<close>

definition tensor_allocate :: "nat \<Rightarrow> int \<Rightarrow> u32 list option \<Rightarrow> nat \<Rightarrow> u64 \<Rightarrow> 'z tensor_state_scheme
    \<Rightarrow> (ptr \<times> 'z tensor_state_scheme) option" where
  "tensor_allocate w nr_dims dims ty total_size s = do {
     (ret, s) \<leftarrow> tensor_new w nr_dims dims ty s;
     case ret of None \<Rightarrow> Some (None, s)
     | Some a \<Rightarrow>
       if total_size = 0 then Some (ret, s)
       else do {
         let (p, s) = malloc_bytes total_size s;
         t \<leftarrow> ten_mem s a;
         Some (ret, s\<lparr>ten_mem := (ten_mem s)(a \<mapsto> t\<lparr>t_data := p, t_size := total_size, t_owned := True\<rparr>)\<rparr>) } }"

definition free_dims :: "ptr \<Rightarrow> 'z tensor_state_scheme \<Rightarrow> 'z tensor_state_scheme option" where
  "free_dims p s = (case p of None \<Rightarrow> Some s
     | Some a \<Rightarrow> do { defined (dims_mem s a \<noteq> None); Some (s\<lparr>dims_mem := (dims_mem s)(a := None)\<rparr>) })"

definition tensor_destroy :: "ptr \<Rightarrow> 'z tensor_state_scheme \<Rightarrow> (int \<times> 'z tensor_state_scheme) option" where
  "tensor_destroy tensor s = (case tensor of None \<Rightarrow> Some (VACCEL_EINVAL, s)
     | Some a \<Rightarrow> do {
         t \<leftarrow> ten_mem s a;
         s \<leftarrow> free_dims (t_dims t) s;
         s \<leftarrow> (if t_data t \<noteq> None \<and> t_owned t then free_bytes (t_data t) s else Some s);
         Some (VACCEL_OK, s\<lparr>ten_mem := (ten_mem s)(a := None)\<rparr>) })"

definition tensor_set_data :: "ptr \<Rightarrow> ptr \<Rightarrow> u64 \<Rightarrow> 'z tensor_state_scheme \<Rightarrow> (int \<times> 'z tensor_state_scheme) option" where
  "tensor_set_data tensor data n s = (case tensor of None \<Rightarrow> Some (VACCEL_EINVAL, s)
     | Some a \<Rightarrow> do {
         t \<leftarrow> ten_mem s a;
         s \<leftarrow> (if t_data t \<noteq> None \<and> t_owned t then free_bytes (t_data t) s else Some s);
         Some (VACCEL_OK, s\<lparr>ten_mem := (ten_mem s)(a \<mapsto> t\<lparr>t_data := data, t_size := n\<rparr>)\<rparr>) })"

definition tensor_get_data :: "ptr \<Rightarrow> 'z tensor_state_scheme \<Rightarrow> ptr option" where
  "tensor_get_data tensor s = (case tensor of None \<Rightarrow> Some None | Some a \<Rightarrow> map_option t_data (ten_mem s a))"

definition vaccel_tf_tensor_new :: "int \<Rightarrow> u32 list option \<Rightarrow> nat \<Rightarrow> 'z tensor_state_scheme \<Rightarrow> (ptr \<times> 'z tensor_state_scheme) option" where
  "vaccel_tf_tensor_new = tensor_new 1"

definition vaccel_tf_tensor_allocate :: "int \<Rightarrow> u32 list option \<Rightarrow> nat \<Rightarrow> u64 \<Rightarrow> 'z tensor_state_scheme \<Rightarrow> (ptr \<times> 'z tensor_state_scheme) option" where
  "vaccel_tf_tensor_allocate = tensor_allocate 1"

definition vaccel_tf_tensor_destroy :: "ptr \<Rightarrow> 'z tensor_state_scheme \<Rightarrow> (int \<times> 'z tensor_state_scheme) option" where
  "vaccel_tf_tensor_destroy = tensor_destroy"

definition vaccel_tf_tensor_set_data :: "ptr \<Rightarrow> ptr \<Rightarrow> u64 \<Rightarrow> 'z tensor_state_scheme \<Rightarrow> (int \<times> 'z tensor_state_scheme) option" where
  "vaccel_tf_tensor_set_data = tensor_set_data"

definition vaccel_tf_tensor_get_data :: "ptr \<Rightarrow> 'z tensor_state_scheme \<Rightarrow> ptr option" where
  "vaccel_tf_tensor_get_data = tensor_get_data"

text \<open>
  Torch's dimensions are 64-bit integers of the caller: two little-endian words each, copied as
  they are into the block that the tensor reads as 32-bit integers.
\<close>

definition dim_words :: "64 word list \<Rightarrow> u32 list" where
  "dim_words ds = concat (map (\<lambda>d. [ucast d, ucast (drop_bit 32 d)]) ds)"

definition vaccel_torch_tensor_new :: "int \<Rightarrow> 64 word list option \<Rightarrow> nat \<Rightarrow> 'z tensor_state_scheme \<Rightarrow> (ptr \<times> 'z tensor_state_scheme) option" where
  "vaccel_torch_tensor_new nr_dims dims = tensor_new 2 nr_dims (map_option dim_words dims)"

definition vaccel_torch_tensor_allocate :: "int \<Rightarrow> 64 word list option \<Rightarrow> nat \<Rightarrow> u64 \<Rightarrow> 'z tensor_state_scheme
    \<Rightarrow> (ptr \<times> 'z tensor_state_scheme) option" where
  "vaccel_torch_tensor_allocate nr_dims dims = tensor_allocate 2 nr_dims (map_option dim_words dims)"

definition vaccel_torch_tensor_destroy :: "ptr \<Rightarrow> 'z tensor_state_scheme \<Rightarrow> (int \<times> 'z tensor_state_scheme) option" where
  "vaccel_torch_tensor_destroy = tensor_destroy"

definition vaccel_torch_tensor_set_data :: "ptr \<Rightarrow> ptr \<Rightarrow> u64 \<Rightarrow> 'z tensor_state_scheme \<Rightarrow> (int \<times> 'z tensor_state_scheme) option" where
  "vaccel_torch_tensor_set_data = tensor_set_data"

definition vaccel_torch_tensor_get_data :: "ptr \<Rightarrow> 'z tensor_state_scheme \<Rightarrow> ptr option" where
  "vaccel_torch_tensor_get_data = tensor_get_data"

text \<open>\<open>tensor->dims[i]\<close>\<close>

definition tensor_dim :: "ptr \<Rightarrow> nat \<Rightarrow> 'z tensor_state_scheme \<Rightarrow> u32 option" where
  "tensor_dim tensor i s = do {
     a \<leftarrow> tensor; t \<leftarrow> ten_mem s a; d \<leftarrow> t_dims t; ds \<leftarrow> dims_mem s d;
     defined (i < length ds); Some (ds ! i) }"

subsection \<open>Calls into the plugins\<close>

text \<open>A profiled call; the region is one of the fields of the state.\<close>

definition prof_start :: "('z ops_state_scheme \<Rightarrow> vaccel_prof_region) \<Rightarrow> (vaccel_prof_region \<Rightarrow> 'z ops_state_scheme \<Rightarrow> 'z ops_state_scheme)
    \<Rightarrow> 'z ops_state_scheme \<Rightarrow> 'z ops_state_scheme option" where
  "prof_start sel upd s = do { (_, r, s) \<leftarrow> vaccel_prof_region_start (Some (sel s)) s; r \<leftarrow> r; Some (upd r s) }"

definition prof_stop :: "('z ops_state_scheme \<Rightarrow> vaccel_prof_region) \<Rightarrow> 'z ops_state_scheme \<Rightarrow> 'z ops_state_scheme option" where
  "prof_stop sel s = do { (_, s) \<leftarrow> vaccel_prof_region_stop (Some (sel s)) s; Some s }"

definition vaccel_tf_session_load :: "'z impl \<Rightarrow> ptr \<Rightarrow> ptr \<Rightarrow> ptr \<Rightarrow> 'z ops_state_scheme \<Rightarrow> (int \<times> 'z ops_state_scheme) option" where
  "vaccel_tf_session_load call session model status s = (case session of
       None \<Rightarrow> Some (VACCEL_EINVAL, s)
     | Some se \<Rightarrow> do {
         s \<leftarrow> prof_start tf_load_stats (\<lambda>r. tf_load_stats_update (\<lambda>_. r)) s;
         plugin_op \<leftarrow> find_op VACCEL_TF_SESSION_LOAD se s;
         (ret, s) \<leftarrow> (case plugin_op of None \<Rightarrow> Some (VACCEL_ENOTSUP, s) | Some f \<Rightarrow> call f [APtr session, APtr model, APtr status] s);
         s \<leftarrow> prof_stop tf_load_stats s;
         Some (ret, s) })"

definition vaccel_tf_session_run :: "'z impl \<Rightarrow> ptr \<Rightarrow> ptr \<Rightarrow> ptr \<Rightarrow> ptr \<Rightarrow> ptr \<Rightarrow> 32 word \<Rightarrow> ptr \<Rightarrow> ptr \<Rightarrow> 32 word \<Rightarrow> ptr
    \<Rightarrow> 'z ops_state_scheme \<Rightarrow> (int \<times> 'z ops_state_scheme) option" where
  "vaccel_tf_session_run call session model run_options in_nodes inp nr_inputs out_nodes out nr_outputs status s = (case session of
       None \<Rightarrow> Some (VACCEL_EINVAL, s)
     | Some se \<Rightarrow> do {
         s \<leftarrow> prof_start tf_session_run_stats (\<lambda>r. tf_session_run_stats_update (\<lambda>_. r)) s;
         plugin_op \<leftarrow> find_op VACCEL_TF_SESSION_RUN se s;
         (ret, s) \<leftarrow> (case plugin_op of None \<Rightarrow> Some (VACCEL_ENOTSUP, s)
           | Some f \<Rightarrow> call f [APtr session, APtr model, APtr run_options, APtr in_nodes, APtr inp, AInt nr_inputs,
               APtr out_nodes, APtr out, AInt nr_outputs, APtr status] s);
         s \<leftarrow> prof_stop tf_session_run_stats s;
         Some (ret, s) })"

text \<open>The region is stopped here but never started.\<close>

definition vaccel_tf_session_delete :: "'z impl \<Rightarrow> ptr \<Rightarrow> ptr \<Rightarrow> ptr \<Rightarrow> 'z ops_state_scheme \<Rightarrow> (int \<times> 'z ops_state_scheme) option" where
  "vaccel_tf_session_delete call session model status s = (case session of
       None \<Rightarrow> Some (VACCEL_EINVAL, s)
     | Some se \<Rightarrow> do {
         plugin_op \<leftarrow> find_op VACCEL_TF_SESSION_DELETE se s;
         (ret, s) \<leftarrow> (case plugin_op of None \<Rightarrow> Some (VACCEL_ENOTSUP, s) | Some f \<Rightarrow> call f [APtr session, APtr model, APtr status] s);
         s \<leftarrow> prof_stop tf_session_delete_stats s;
         Some (ret, s) })"

definition vaccel_tf_ops_fini :: "'z ops_state_scheme \<Rightarrow> 'z ops_state_scheme option" where
  "vaccel_tf_ops_fini s = do {
     (_, s) \<leftarrow> vaccel_prof_region_print (Some (tf_load_stats s)) s;
     (_, s) \<leftarrow> vaccel_prof_region_print (Some (tf_session_run_stats s)) s;
     (_, s) \<leftarrow> vaccel_prof_region_print (Some (tf_session_delete_stats s)) s;
     Some s }"

definition vaccel_torch_jitload_forward :: "'z impl \<Rightarrow> ptr \<Rightarrow> ptr \<Rightarrow> ptr \<Rightarrow> ptr \<Rightarrow> 32 word \<Rightarrow> ptr \<Rightarrow> 32 word
    \<Rightarrow> 'z ops_state_scheme \<Rightarrow> (int \<times> 'z ops_state_scheme) option" where
  "vaccel_torch_jitload_forward call sess model run_options in_tensor nr_read out_tensor nr_write =
     dispatch call VACCEL_TORCH_JITLOAD_FORWARD sess
       [APtr model, APtr run_options, APtr in_tensor, AInt nr_read, APtr out_tensor, AInt nr_write]"

definition vaccel_torch_sgemm :: "'z impl \<Rightarrow> ptr \<Rightarrow> ptr \<Rightarrow> ptr \<Rightarrow> ptr \<Rightarrow> 32 word \<Rightarrow> 32 word \<Rightarrow> 32 word \<Rightarrow> ptr
    \<Rightarrow> 'z ops_state_scheme \<Rightarrow> (int \<times> 'z ops_state_scheme) option" where
  "vaccel_torch_sgemm call sess in_A in_B in_C M N K out =
     dispatch call VACCEL_TORCH_SGEMM sess [APtr in_A, APtr in_B, APtr in_C, AInt M, AInt N, AInt K, APtr out]"


subsection \<open>Lemmas\<close>

text \<open>Nothing lives at the addresses that the allocator has not given out yet.\<close>

definition fresh :: "'z tensor_state_scheme \<Rightarrow> bool" where
  "fresh s \<longleftrightarrow> (\<forall>a\<ge>alloc_next (os s). ten_mem s a = None \<and> dims_mem s a = None \<and> mem s a = None)"

lemma tensor_new_ok:
  assumes f: "fresh s" and n: "0 \<le> nr_dims" "nr_dims < 2 ^ 31" and w: "w = 1 \<or> w = 2" and d: "\<And>ds. dims = Some ds \<Longrightarrow> nat nr_dims * w \<le> length ds"
  obtains o' where "tensor_new w nr_dims dims ty s = Some (None, s\<lparr>os := o'\<rparr>)"
  | o' where "tensor_new w nr_dims dims ty s = Some (Some (alloc_next (os s)), s\<lparr>os := o',
        dims_mem := (dims_mem s)(Suc (alloc_next (os s)) \<mapsto> (case dims of None \<Rightarrow> replicate (nat nr_dims * w) 0 | Some ds \<Rightarrow> take (nat nr_dims * w) ds)),
        ten_mem := (ten_mem s)(alloc_next (os s) \<mapsto> \<lparr>t_data = None, t_size = 0, t_owned = False, t_nr_dims = nr_dims,
          t_dims = Some (Suc (alloc_next (os s))), t_type = ty\<rparr>)\<rparr>)" "alloc_next o' = Suc (Suc (alloc_next (os s)))" "alloc_ok o' = alloc_ok (os s)"
proof -
  have m: "nat (nr_dims mod 2 ^ 64) = nat nr_dims" using n by simp
  have c: "nat nr_dims * (4 * w) < 2 ^ 63" "nat nr_dims * w < 2305843009213693952" using n w by auto
  show thesis
  proof (cases "alloc_ok (os s) (alloc_next (os s)) \<and> alloc_ok (os s) (Suc (alloc_next (os s)))")
    case True
    let ?o = "(os s)\<lparr>alloc_next := Suc (Suc (alloc_next (os s)))\<rparr>"
    show thesis
      by (rule that(2) [of ?o]) (use True m c d in \<open>auto simp: tensor_new_def os_call_def malloc_def calloc_def Let_def split: option.splits\<close>)
  next
    case False
    then show thesis
      by (cases "alloc_ok (os s) (alloc_next (os s))") (use m c in \<open>auto simp: tensor_new_def os_call_def malloc_def calloc_def Let_def intro: that(1)\<close>)
  qed
qed

lemma malloc_bytes_cases:
  obtains o' where "malloc_bytes n s = (None, s\<lparr>os := o'\<rparr>)"
  | o' bs where "malloc_bytes n s = (Some (alloc_next (os s)), s\<lparr>os := o', mem := (mem s)(alloc_next (os s) \<mapsto> bs)\<rparr>)"
  by (cases "alloc_ok (os s) (alloc_next (os s))") (auto simp: malloc_bytes_def os_call_def malloc_def)

text \<open>What an allocated tensor looks like: its data are missing, or in the block after the dimensions.\<close>

definition allocated_tensor :: "addr \<Rightarrow> u64 \<Rightarrow> tensor \<Rightarrow> 'z tensor_state_scheme \<Rightarrow> 'z tensor_state_scheme \<Rightarrow> bool" where
  "allocated_tensor A n t s s1 \<longleftrightarrow> t_owned t = (n \<noteq> 0)
     \<and> (t_data t = None \<and> mem s1 = mem s \<or> n \<noteq> 0 \<and> t_data t = Some (Suc (Suc A)) \<and> (\<exists>bs. mem s1 = (mem s)(Suc (Suc A) \<mapsto> bs)))"

lemma tensor_allocate_ok:
  assumes f: "fresh s" and n: "0 \<le> nr_dims" "nr_dims < 2 ^ 31" and w: "w = 1 \<or> w = 2" and d: "length ds = nat nr_dims * w"
    and run: "tensor_allocate w nr_dims (Some ds) ty n s = Some (Some a, s1)"
  obtains t where "a = alloc_next (os s)" "ten_mem s1 = (ten_mem s)(a \<mapsto> t)" "dims_mem s1 = (dims_mem s)(Suc a \<mapsto> ds)"
    "t_dims t = Some (Suc a)" "allocated_tensor a n t s s1"
proof (cases rule: tensor_new_ok [OF f n w, of "Some ds" ty])
  case (1 ds')
  then show ?case using d by simp
next
  case (2 o')
  then show thesis using run by (simp add: tensor_allocate_def)
next
  case (3 o')
  let ?A = "alloc_next (os s)"
  let ?t = "\<lparr>t_data = None, t_size = 0, t_owned = False, t_nr_dims = nr_dims, t_dims = Some (Suc ?A), t_type = ty\<rparr>"
  let ?s = "s\<lparr>os := o', dims_mem := (dims_mem s)(Suc ?A \<mapsto> ds), ten_mem := (ten_mem s)(?A \<mapsto> ?t)\<rparr>"
  have new: "tensor_new w nr_dims (Some ds) ty s = Some (Some ?A, ?s)" using 3(1) d by simp
  show thesis
  proof (cases "n = 0")
    case True
    then have "a = ?A" "s1 = ?s" using run new by (auto simp: tensor_allocate_def)
    then show thesis by (intro that [of ?t]) (use True in \<open>simp_all add: allocated_tensor_def\<close>)
  next
    case False
    show thesis
    proof (cases rule: malloc_bytes_cases [of n ?s])
      case (1 o2)
      let ?u = "?t\<lparr>t_size := n, t_owned := True\<rparr>"
      have "a = ?A" "s1 = ?s\<lparr>os := o2, ten_mem := (ten_mem ?s)(?A \<mapsto> ?u)\<rparr>"
        using run new False 1 by (auto simp: tensor_allocate_def)
      then show thesis by (intro that [of ?u]) (use False in \<open>simp_all add: allocated_tensor_def\<close>)
    next
      case (2 o2 bs)
      let ?u = "?t\<lparr>t_data := Some (Suc (Suc ?A)), t_size := n, t_owned := True\<rparr>"
      have "a = ?A" "s1 = ?s\<lparr>os := o2, mem := (mem s)(Suc (Suc ?A) \<mapsto> bs), ten_mem := (ten_mem ?s)(?A \<mapsto> ?u)\<rparr>"
        using run new False 2 3(2) by (auto simp: tensor_allocate_def)
      then show thesis by (intro that [of ?u]) (use False in \<open>auto simp: allocated_tensor_def\<close>)
    qed
  qed
qed

text \<open>Freeing the data that a tensor owns.\<close>

lemma free_own_data:
  assumes "allocated_tensor a n t s s1" "mem s (Suc (Suc a)) = None"
  obtains "(if t_data t \<noteq> None \<and> t_owned t then free_bytes (t_data t) s1 else Some s1) = Some (s1\<lparr>mem := mem s\<rparr>)"
proof (cases "t_data t")
  case None
  then have "mem s1 = mem s" using assms(1) by (auto simp: allocated_tensor_def)
  then have "s1\<lparr>mem := mem s\<rparr> = s1" by simp
  then show thesis using that None by simp
next
  case (Some q)
  then obtain bs where "q = Suc (Suc a)" "mem s1 = (mem s)(Suc (Suc a) \<mapsto> bs)" "t_owned t"
    using assms(1) by (auto simp: allocated_tensor_def)
  then show thesis using that Some assms(2) by (simp add: free_bytes_def fun_upd_idem)
qed

subsection \<open>Properties\<close>

text \<open>
  C27. A tensor owns its structure, its dimensions and the data allocated with it: destroying it gives back exactly these blocks. This holds
  whether or not the data could be allocated. Once data of the user have been set on a tensor that owned its data, it goes on owning, and
  destroying it frees the data of the user.
\<close>

theorem tensor_ownership:
  assumes "fresh s" "0 \<le> nr_dims" "nr_dims < 2 ^ 31" "length ds = nat nr_dims"
    "vaccel_tf_tensor_allocate nr_dims (Some ds) ty n s = Some (Some a, s1)"
  shows "(\<exists>s2. vaccel_tf_tensor_destroy (Some a) s1 = Some (VACCEL_OK, s2)
        \<and> ten_mem s2 = ten_mem s \<and> dims_mem s2 = dims_mem s \<and> mem s2 = mem s)
    \<and> (\<forall>i<length ds. tensor_dim (Some a) i s1 = Some (ds ! i))
    \<and> (\<forall>p bs k. mem s p = Some bs \<longrightarrow> (\<exists>s2 s3. vaccel_tf_tensor_set_data (Some a) (Some p) k s1 = Some (VACCEL_OK, s2)
        \<and> vaccel_tf_tensor_get_data (Some a) s2 = Some (Some p)
        \<and> vaccel_tf_tensor_destroy (Some a) s2 = Some (VACCEL_OK, s3) \<and> mem s3 = (if n = 0 then mem s else (mem s)(p := None))))"
proof -
  have d: "length ds = nat nr_dims * 1" using assms(4) by simp
  obtain t where t: "a = alloc_next (os s)" "ten_mem s1 = (ten_mem s)(a \<mapsto> t)" "dims_mem s1 = (dims_mem s)(Suc a \<mapsto> ds)"
    "t_dims t = Some (Suc a)" "allocated_tensor a n t s s1"
    by (rule tensor_allocate_ok [OF assms(1-3) _ d, of ty n a s1]) (use assms(5) in \<open>simp_all add: vaccel_tf_tensor_allocate_def\<close>)
  have f: "ten_mem s a = None" "dims_mem s (Suc a) = None" "mem s (Suc (Suc a)) = None"
    using assms(1) t(1) by (simp_all add: fresh_def)
  have restored: "(ten_mem s)(a := None) = ten_mem s" "(dims_mem s)(Suc a := None) = dims_mem s" using f by (simp_all add: fun_upd_idem)
  have free: "(if t_data t \<noteq> None \<and> t_owned t then free_bytes (t_data t) s1 else Some s1) = Some (s1\<lparr>mem := mem s\<rparr>)"
    by (rule free_own_data [OF t(5) f(3)])
  show ?thesis
  proof (intro conjI allI impI)
    let ?s1 = "s1\<lparr>dims_mem := dims_mem s\<rparr>"
    have "allocated_tensor a n t s ?s1" using t(5) by (simp add: allocated_tensor_def)
    then have "(if t_data t \<noteq> None \<and> t_owned t then free_bytes (t_data t) ?s1 else Some ?s1) = Some (?s1\<lparr>mem := mem s\<rparr>)"
      by (rule free_own_data [OF _ f(3)])
    then show "\<exists>s2. vaccel_tf_tensor_destroy (Some a) s1 = Some (VACCEL_OK, s2)
        \<and> ten_mem s2 = ten_mem s \<and> dims_mem s2 = dims_mem s \<and> mem s2 = mem s"
      using t(2,3,4) restored by (simp add: vaccel_tf_tensor_destroy_def tensor_destroy_def free_dims_def cong: if_cong)
  next
    fix i assume "i < length ds"
    then show "tensor_dim (Some a) i s1 = Some (ds ! i)" using t by (simp add: tensor_dim_def)
  next
    fix p bs k assume p: "mem s p = Some bs"
    let ?t = "t\<lparr>t_data := Some p, t_size := k\<rparr>"
    let ?s2 = "s1\<lparr>mem := mem s, ten_mem := (ten_mem s)(a \<mapsto> ?t)\<rparr>"
    have set: "vaccel_tf_tensor_set_data (Some a) (Some p) k s1 = Some (VACCEL_OK, ?s2)"
      using t(2) free by (simp add: vaccel_tf_tensor_set_data_def tensor_set_data_def cong: if_cong)
    have get: "vaccel_tf_tensor_get_data (Some a) ?s2 = Some (Some p)"
      by (simp add: vaccel_tf_tensor_get_data_def tensor_get_data_def)
    have own: "t_owned t = (n \<noteq> 0)" using t(5) by (simp add: allocated_tensor_def)
    have "\<exists>s3. vaccel_tf_tensor_destroy (Some a) ?s2 = Some (VACCEL_OK, s3) \<and> mem s3 = (if n = 0 then mem s else (mem s)(p := None))"
      using t(3,4) p own by (simp add: vaccel_tf_tensor_destroy_def tensor_destroy_def free_dims_def free_bytes_def)
    then show "\<exists>s2 s3. vaccel_tf_tensor_set_data (Some a) (Some p) k s1 = Some (VACCEL_OK, s2)
        \<and> vaccel_tf_tensor_get_data (Some a) s2 = Some (Some p)
        \<and> vaccel_tf_tensor_destroy (Some a) s2 = Some (VACCEL_OK, s3) \<and> mem s3 = (if n = 0 then mem s else (mem s)(p := None))"
      using set get by blast
  qed
qed

definition tensors_booted :: tensor_state where
  "tensors_booted = ops_state.extend ops_booted \<lparr>stale = (\<lambda>_ _. 0), buf_mem = Map.empty, node_mem = Map.empty, ten_mem = Map.empty, dims_mem = Map.empty\<rparr>"

lemma tensors_booted: "fresh (tensors_booted\<lparr>mem := [0 \<mapsto> bs]\<rparr>)" "os tensors_booted = os prof_booted" "alloc_next (os prof_booted) = 1"
  by (simp_all add: fresh_def tensors_booted_def ops_booted_def prof_booted_def ops_state.defs prof_state.defs obj_state.defs sess_state.defs res_state.defs calm_os_def)

theorem tensor_ownership_witness:
  "\<exists>a s1 s2 s3. vaccel_tf_tensor_allocate 2 (Some [3, 4]) 1 8 (tensors_booted\<lparr>mem := [0 \<mapsto> [7]]\<rparr>) = Some (Some a, s1)
    \<and> vaccel_tf_tensor_set_data (Some a) (Some 0) 1 s1 = Some (VACCEL_OK, s2)
    \<and> vaccel_tf_tensor_destroy (Some a) s2 = Some (VACCEL_OK, s3) \<and> mem s3 0 = None"
proof -
  let ?s = "tensors_booted\<lparr>mem := [0 \<mapsto> [7]]\<rparr>"
  have "\<exists>a s1. vaccel_tf_tensor_allocate 2 (Some [3, 4]) 1 8 ?s = Some (Some a, s1)"
    using tensors_booted(2) prof_booted(4)
    by (simp add: vaccel_tf_tensor_allocate_def tensor_allocate_def tensor_new_def os_call_def malloc_def calloc_def malloc_bytes_def Let_def)
  then obtain a s1 where run: "vaccel_tf_tensor_allocate 2 (Some [3, 4]) 1 8 ?s = Some (Some a, s1)" by blast
  have m: "mem ?s 0 = Some [7]" by simp
  have "\<forall>p bs k. mem ?s p = Some bs \<longrightarrow> (\<exists>s2 s3. vaccel_tf_tensor_set_data (Some a) (Some p) k s1 = Some (VACCEL_OK, s2)
      \<and> vaccel_tf_tensor_get_data (Some a) s2 = Some (Some p)
      \<and> vaccel_tf_tensor_destroy (Some a) s2 = Some (VACCEL_OK, s3) \<and> mem s3 = (if (8 :: u64) = 0 then mem ?s else (mem ?s)(p := None)))"
    using tensor_ownership [OF tensors_booted(1) _ _ _ run] by simp
  from this [rule_format, OF m, of 1] show ?thesis using run by auto
qed

text \<open>
  A Torch tensor is given 64-bit dimensions, copies their bytes and reads them as 32-bit integers: the dimension at an even index is the
  low half of a dimension of the caller, the one at an odd index the high half (zero for every dimension that fits 32 bits).
\<close>

theorem torch_dims_interleaved:
  assumes "fresh s" "0 \<le> nr_dims" "nr_dims < 2 ^ 31" "length ds = nat nr_dims"
    "vaccel_torch_tensor_allocate nr_dims (Some ds) ty n s = Some (Some a, s1)" "i < length ds"
  shows "tensor_dim (Some a) (2 * i) s1 = Some (ucast (ds ! i)) \<and> tensor_dim (Some a) (2 * i + 1) s1 = Some (ucast (drop_bit 32 (ds ! i)))"
proof -
  have len: "length (dim_words xs) = 2 * length xs" for xs by (induction xs) (simp_all add: dim_words_def)
  have nth: "dim_words xs ! (2 * j) = ucast (xs ! j) \<and> dim_words xs ! (2 * j + 1) = ucast (drop_bit 32 (xs ! j))" if "j < length xs" for xs j
    using that
  proof (induction xs arbitrary: j)
    case (Cons x xs)
    then show ?case by (cases j) (auto simp: dim_words_def)
  qed simp
  have d: "length (dim_words ds) = nat nr_dims * 2" using len assms(4) by simp
  obtain t where t: "ten_mem s1 = (ten_mem s)(a \<mapsto> t)" "dims_mem s1 = (dims_mem s)(Suc a \<mapsto> dim_words ds)" "t_dims t = Some (Suc a)"
    by (rule tensor_allocate_ok [OF assms(1-3) _ d, of ty n a s1]) (use assms(5) in \<open>simp_all add: vaccel_torch_tensor_allocate_def\<close>)
  then show ?thesis using assms(6) nth [of i ds] len [of ds] by (simp add: tensor_dim_def)
qed

theorem torch_dims_interleaved_witness:
  "\<exists>a s1. vaccel_torch_tensor_allocate 2 (Some [3, 4]) 1 0 (tensors_booted\<lparr>mem := [0 \<mapsto> [7]]\<rparr>) = Some (Some a, s1)
    \<and> tensor_dim (Some a) 0 s1 = Some 3 \<and> tensor_dim (Some a) 1 s1 = Some 0"
proof -
  let ?s = "tensors_booted\<lparr>mem := [0 \<mapsto> [7]]\<rparr>"
  have "\<exists>a s1. vaccel_torch_tensor_allocate 2 (Some [3, 4]) 1 0 ?s = Some (Some a, s1)"
    using tensors_booted(2) prof_booted(4)
    by (simp add: vaccel_torch_tensor_allocate_def tensor_allocate_def tensor_new_def os_call_def malloc_def calloc_def Let_def dim_words_def)
  then obtain a s1 where run: "vaccel_torch_tensor_allocate 2 (Some [3, 4]) 1 0 ?s = Some (Some a, s1)" by blast
  from torch_dims_interleaved [OF tensors_booted(1) _ _ _ run, of 0] run show ?thesis by auto
qed

end
