(* ===== verification/Example_Files.thy ===== *)
theory Example_Files
  imports Tensors
begin

text \<open>
  How the example programs read their input files: \<^verbatim>\<open>read_file\<close> of
  \<^verbatim>\<open>src/examples/exec_with_res.c\<close> (the same as in \<^verbatim>\<open>tf_model.c\<close>) and of \<^verbatim>\<open>src/examples/classify.c\<close> (the same as in
  the other image examples). Both loop over \<^verbatim>\<open>read\<close>, which may transfer fewer bytes than asked for.
  The results of the calls are a parameter: \<open>rd n\<close> is the number of bytes that call \<open>n\<close> is ready to
  transfer, or negative for an error. \<^verbatim>\<open>read\<close> gives 0 only at the end of the file.
\<close>

subsection \<open>The loops\<close>

text \<open>The bytes a call transfers, from the offset \<open>off\<close> of a file that holds \<open>c\<close>.\<close>

definition sys_read :: "(nat \<Rightarrow> int) \<Rightarrow> nat \<Rightarrow> u8 list \<Rightarrow> nat \<Rightarrow> nat \<Rightarrow> u8 list option" where
  "sys_read rd n c off count = (if rd n < 0 then None else Some (take (min (nat (rd n)) count) (drop off c)))"

text \<open>
  The bytes read so far go to the front of the buffer, so that \<open>buff\<close> is also the position in the file; the
  result is None inside when a call fails. A loop that never ends has no result.
\<close>

partial_function (option) append_reads :: "(nat \<Rightarrow> int) \<Rightarrow> u8 list \<Rightarrow> nat \<Rightarrow> nat \<Rightarrow> u8 list \<Rightarrow> u8 list option option" where
  "append_reads rd c n bytes buff = (if bytes = 0 then Some (Some buff)
     else (case sys_read rd n c (length buff) bytes of
         None \<Rightarrow> Some None
       | Some d \<Rightarrow> append_reads rd c (Suc n) (bytes - length d) (buff @ d)))"

text \<open>Every call asks for the whole file and writes to the start of the buffer; \<open>off\<close> counts the bytes.\<close>

partial_function (option) overwrite_reads :: "(nat \<Rightarrow> int) \<Rightarrow> u8 list \<Rightarrow> nat \<Rightarrow> nat \<Rightarrow> nat \<Rightarrow> u8 list \<Rightarrow> u8 list option option" where
  "overwrite_reads rd c st_size n off buff = (case sys_read rd n c off st_size of
       None \<Rightarrow> Some None
     | Some d \<Rightarrow> (let buff = d @ drop (length d) buff; off = off + length d
         in if off < st_size then overwrite_reads rd c st_size (Suc n) off buff else Some (Some buff)))"

subsection \<open>Reading a file\<close>

text \<open>
  \<^verbatim>\<open>open\<close> and \<^verbatim>\<open>fstat\<close> may fail; \<open>st_size\<close> is what \<^verbatim>\<open>fstat\<close> reports of the file. Reading from a directory fails.
\<close>

definition st_size_of :: "fnode \<Rightarrow> nat" where
  "st_size_of n = (case n of File c \<Rightarrow> length c | Dir \<Rightarrow> 4096)"

definition read_buffer :: "(nat \<Rightarrow> int) \<Rightarrow> string \<Rightarrow> 'z tensor_state_scheme \<Rightarrow> ((ptr \<times> nat) \<times> 'z tensor_state_scheme) option" where
  "read_buffer rd path s =
     (let (e, s) = os_call sys_call s in
      if e \<noteq> 0 then Some ((None, 0), s)
      else case node (os s) path of
        None \<Rightarrow> Some ((None, 0), s)
      | Some f \<Rightarrow>
        (let (e, s) = os_call sys_call s in
         if e \<noteq> 0 then Some ((None, 0), s)
         else let (p, s) = malloc_bytes (of_nat (st_size_of f)) s in
           (case p of
              None \<Rightarrow> Some ((None, 0), s)
            | Some a \<Rightarrow> do {
                r \<leftarrow> (case f of File c \<Rightarrow> append_reads rd c 0 (st_size_of f) [] | Dir \<Rightarrow> Some None);
                case r of
                  None \<Rightarrow> do { s \<leftarrow> free_bytes p s; Some ((None, 0), s) }
                | Some bs \<Rightarrow> Some ((p, length bs), s\<lparr>mem := (mem s)(a \<mapsto> bs)\<rparr>) })))"

text \<open>The result of the image examples' function: 0 and the image with its size, or 1 and nothing.\<close>

definition read_image :: "(nat \<Rightarrow> int) \<Rightarrow> string \<Rightarrow> 'z tensor_state_scheme \<Rightarrow> ((int \<times> (addr \<times> nat) option) \<times> 'z tensor_state_scheme) option" where
  "read_image rd filename s =
     (let (e, s) = os_call sys_call s in
      if e \<noteq> 0 then Some ((1, None), s)
      else case node (os s) filename of
        None \<Rightarrow> Some ((1, None), s)
      | Some f \<Rightarrow>
        (let (e, s) = os_call sys_call s in
         if e \<noteq> 0 then None
         else let (p, s) = malloc_bytes (of_nat (st_size_of f)) s in
           (case p of
              None \<Rightarrow> Some ((1, None), s)
            | Some a \<Rightarrow> do {
                buf \<leftarrow> mem s a;
                r \<leftarrow> (case f of File c \<Rightarrow> overwrite_reads rd c (st_size_of f) 0 0 buf | Dir \<Rightarrow> Some None);
                case r of
                  None \<Rightarrow> do { s \<leftarrow> free_bytes p s; Some ((1, None), s) }
                | Some bs \<Rightarrow> Some ((0, Some (a, st_size_of f)), s\<lparr>mem := (mem s)(a \<mapsto> bs)\<rparr>) })))"

subsection \<open>Lemmas\<close>

text \<open>What the kernel promises of \<^verbatim>\<open>read\<close> on a regular file.\<close>

definition reads_progress :: "(nat \<Rightarrow> int) \<Rightarrow> bool" where
  "reads_progress rd \<longleftrightarrow> (\<forall>n. 0 < rd n)"

lemma append_reads_all:
  assumes "reads_progress rd" "length buff + bytes \<le> length c"
  shows "append_reads rd c n bytes buff = Some (Some (buff @ take bytes (drop (length buff) c)))"
  using assms(2)
proof (induction bytes arbitrary: n buff rule: less_induct)
  case (less bytes)
  show ?case
  proof (cases "bytes = 0")
    case True
    then show ?thesis by (simp add: append_reads.simps)
  next
    case False
    define k where "k = min (nat (rd n)) bytes"
    have k: "0 < k" "k \<le> bytes" using assms(1) False by (auto simp: k_def reads_progress_def)
    let ?d = "take k (drop (length buff) c)"
    have d: "sys_read rd n c (length buff) bytes = Some ?d"
      using assms(1) by (simp add: sys_read_def k_def reads_progress_def not_less less_imp_le)
    have l: "length ?d = k" using k less.prems by simp
    have "append_reads rd c n bytes buff = append_reads rd c (Suc n) (bytes - k) (buff @ ?d)"
      using d l False by (simp add: append_reads.simps [of rd c n])
    also have "\<dots> = Some (Some ((buff @ ?d) @ take (bytes - k) (drop (length (buff @ ?d)) c)))"
      by (rule less.IH) (use k l less.prems in auto)
    also have "(buff @ ?d) @ take (bytes - k) (drop (length (buff @ ?d)) c) = buff @ take bytes (drop (length buff) c)"
      using k l take_add [of k "bytes - k" "drop (length buff) c"] by (simp add: add.commute)
    finally show ?thesis .
  qed
qed

text \<open>A call before the end of the file transfers something or fails; then the loop ends too, with all of the bytes or with the error.\<close>

definition reads_answer :: "(nat \<Rightarrow> int) \<Rightarrow> bool" where
  "reads_answer rd \<longleftrightarrow> (\<forall>n. rd n \<noteq> 0)"

lemma append_reads_answer:
  assumes "reads_answer rd" "length buff + bytes \<le> length c"
  shows "append_reads rd c n bytes buff = Some None \<or> append_reads rd c n bytes buff = Some (Some (buff @ take bytes (drop (length buff) c)))"
  using assms(2)
proof (induction bytes arbitrary: n buff rule: less_induct)
  case (less bytes)
  consider "bytes = 0" | "bytes \<noteq> 0" "rd n < 0" | "bytes \<noteq> 0" "0 < rd n" using assms(1) unfolding reads_answer_def by (metis linorder_neqE)
  then show ?case
  proof cases
    case 1
    then show ?thesis by (simp add: append_reads.simps)
  next
    case 2
    then show ?thesis by (simp add: append_reads.simps [of rd c n] sys_read_def)
  next
    case 3
    define k where "k = min (nat (rd n)) bytes"
    have k: "0 < k" "k \<le> bytes" using 3 by (auto simp: k_def)
    let ?d = "take k (drop (length buff) c)"
    have l: "length ?d = k" using k less.prems by simp
    have "sys_read rd n c (length buff) bytes = Some ?d" using 3 by (simp add: sys_read_def k_def)
    then have run: "append_reads rd c n bytes buff = append_reads rd c (Suc n) (bytes - k) (buff @ ?d)"
      using l 3 by (simp add: append_reads.simps [of rd c n])
    have "append_reads rd c (Suc n) (bytes - k) (buff @ ?d) = Some None
        \<or> append_reads rd c (Suc n) (bytes - k) (buff @ ?d) = Some (Some ((buff @ ?d) @ take (bytes - k) (drop (length (buff @ ?d)) c)))"
      by (rule less.IH) (use k l less.prems in auto)
    moreover have "(buff @ ?d) @ take (bytes - k) (drop (length (buff @ ?d)) c) = buff @ take bytes (drop (length buff) c)"
      using k l take_add [of k "bytes - k" "drop (length buff) c"] by (simp add: add.commute)
    ultimately show ?thesis unfolding run by simp
  qed
qed

text \<open>Once the file ends before the buffer is full, every call gives 0 bytes and the loop goes on for ever.\<close>

lemma append_reads_stuck:
  assumes "\<And>n. 0 \<le> rd n" "length buff \<le> length c" "length c < length buff + bytes"
  shows "append_reads rd c n bytes buff = None"
proof (rule ccontr)
  assume "append_reads rd c n bytes buff \<noteq> None"
  then obtain r where "append_reads rd c n bytes buff = Some r" by blast
  then have "(\<forall>n. 0 \<le> rd n) \<longrightarrow> length buff \<le> length c \<longrightarrow> \<not> length c < length buff + bytes"
  proof (rule append_reads.raw_induct [rotated], intro impI notI)
    fix f rd c n bytes buff y
    assume IH: "\<And>rd c n bytes buff y. f rd c n bytes buff = Some y \<Longrightarrow>
        (\<forall>n. 0 \<le> rd n) \<longrightarrow> length buff \<le> length c \<longrightarrow> \<not> length c < length buff + bytes"
      and run: "(if bytes = 0 then Some (Some buff) else case sys_read rd n c (length buff) bytes of None \<Rightarrow> Some None
          | Some d \<Rightarrow> f rd c (Suc n) (bytes - length d) (buff @ d)) = Some y"
      and rd: "\<forall>n. (0 :: int) \<le> rd n" and l: "length buff \<le> length c" "length c < length buff + bytes"
    define d where "d = take (min (nat (rd n)) bytes) (drop (length buff) c)"
    have "sys_read rd n c (length buff) bytes = Some d" using rd by (simp add: sys_read_def d_def not_less)
    then have "f rd c (Suc n) (bytes - length d) (buff @ d) = Some y" using run l by simp
    moreover have "length d \<le> bytes" "length buff + length d \<le> length c" using l by (auto simp: d_def min_def)
    ultimately show False using IH [of rd c "Suc n" "bytes - length d" "buff @ d" y] rd l by auto
  qed
  then show False using assms by auto
qed

lemma overwrite_reads_once:
  assumes "0 \<le> rd n" "st_size \<le> nat (rd n)" "length c = st_size" "length buff = st_size"
  shows "overwrite_reads rd c st_size n 0 buff = Some (Some c)"
  using assms by (simp add: overwrite_reads.simps sys_read_def Let_def not_less)

lemma overwrite_reads_twice:
  assumes "0 < rd n" "nat (rd n) < st_size" "st_size \<le> nat (rd n) + nat (rd (Suc n))" "0 < rd (Suc n)" "length c = st_size" "length buff = st_size"
  shows "overwrite_reads rd c st_size n 0 buff =
    Some (Some (drop (nat (rd n)) c @ drop (st_size - nat (rd n)) (take (nat (rd n)) c @ drop (nat (rd n)) buff)))"
proof -
  let ?k = "nat (rd n)" and ?j = "nat (rd (Suc n))"
  have 1: "sys_read rd n c 0 st_size = Some (take ?k c)" using assms(1,2) by (simp add: sys_read_def min_def not_less)
  have 2: "sys_read rd (Suc n) c ?k st_size = Some (drop ?k c)"
    using assms by (simp add: sys_read_def not_less min_def) arith
  have "overwrite_reads rd c st_size n 0 buff = overwrite_reads rd c st_size (Suc n) ?k (take ?k c @ drop ?k buff)"
    using 1 assms by (subst overwrite_reads.simps) (simp add: Let_def)
  also have "\<dots> = Some (Some (drop ?k c @ drop (st_size - ?k) (take ?k c @ drop ?k buff)))"
    using 2 assms by (subst overwrite_reads.simps) (simp add: Let_def)
  finally show ?thesis .
qed

subsection \<open>Properties\<close>

text \<open>
  C26. The loop that reads a file into a buffer of the size \<^verbatim>\<open>fstat\<close> gave: when every call transfers something it ends with exactly the bytes of the file,
  however they are split over the calls; when the file has become shorter it never ends, because the end of the file is not looked for.
\<close>

theorem append_reads_ends:
  assumes "reads_progress rd"
  shows "append_reads rd c 0 bytes [] = (if bytes \<le> length c then Some (Some (take bytes c)) else None)"
proof (cases "bytes \<le> length c")
  case True
  then show ?thesis using append_reads_all [OF assms, of "[]" bytes c 0] by simp
next
  case False
  have "0 \<le> rd n" for n using assms by (simp add: reads_progress_def less_imp_le)
  then show ?thesis using append_reads_stuck [of rd "[]" c bytes 0] False by simp
qed

theorem append_reads_ends_witness:
  "append_reads (\<lambda>_. 2) [1, 2, 3] 0 3 [] = Some (Some [1, 2, 3]) \<and> append_reads (\<lambda>_. 2) [1, 2, 3] 0 4 [] = None"
proof -
  have "reads_progress (\<lambda>_. 2)" by (simp add: reads_progress_def)
  from append_reads_ends [OF this] show ?thesis by simp
qed

text \<open>
  The loop of the image examples writes every part of the file to the start of the buffer: an image that arrives in one call is read as it is;
  one that takes two calls ends up with its second part in front.
\<close>

theorem overwrite_reads_parts:
  assumes "0 < rd 0" "0 < rd 1" "length buff = length c" "length c \<le> nat (rd 0) + nat (rd 1)"
  shows "overwrite_reads rd c (length c) 0 0 buff = Some (Some (if length c \<le> nat (rd 0) then c
    else drop (nat (rd 0)) c @ drop (length c - nat (rd 0)) (take (nat (rd 0)) c @ drop (nat (rd 0)) buff)))"
  using overwrite_reads_once [of rd 0 "length c" c buff] overwrite_reads_twice [of rd 0 "length c" c buff] assms by (simp add: not_le)

theorem overwrite_reads_parts_witness:
  "overwrite_reads (\<lambda>_. 2) [1, 2, 3] 3 0 0 [9, 9, 9] = Some (Some [3, 2, 9])"
  using overwrite_reads_parts [of "\<lambda>_. 2" "[9, 9, 9]" "[1, 2, 3]"] by (simp add: numeral_2_eq_2 numeral_3_eq_3)

end
