(* ===== verification/Modules.thy ===== *)
theory Modules
  imports Plugins
begin

text \<open>
  What the plugins of the repository have in common (\<^verbatim>\<open>VACCEL_MODULE\<close> and \<^verbatim>\<open>VACCEL_OP_INIT\<close> in
  \<^verbatim>\<open>src/src/include/plugin.h\<close>): a table of operations, one for each of some distinct types, that
  \<open>init\<close> registers. The locale \<open>plugin_module\<close> says what follows for the registry.
\<close>

subsection \<open>Tables\<close>

text \<open>
  Entry \<open>i\<close> of a table of operations of the given types, owned by the plugin \<open>p\<close>; the functions
  have the addresses from \<open>fn\<close> on.
\<close>

definition module_op :: "nat list \<Rightarrow> addr \<Rightarrow> addr \<Rightarrow> nat \<Rightarrow> vaccel_op" where
  "module_op types fn p i = \<lparr>op_type = of_nat (types ! i), op_func = Some (fn + i), op_owner = Some p\<rparr>"

definition module_init :: "nat list \<Rightarrow> addr \<Rightarrow> 'z plug_state_scheme \<Rightarrow> (int \<times> 'z plug_state_scheme) option" where
  "module_init types base s = register_plugin_functions (map ((+) base) [0..<length types]) s"

definition module_info :: "string \<Rightarrow> u32 \<Rightarrow> addr \<Rightarrow> addr \<Rightarrow> vaccel_plugin_info" where
  "module_info name ty init_fn fini_fn = \<lparr>pname = Some name, pinit = Some init_fn, pfini = Some fini_fn, ptype = ty, v_sess_init = None,
     v_sess_update = None, v_sess_free = None, v_sess_register = None, v_sess_unregister = None,
     v_resource_new = None, v_resource_destroy = None\<rparr>"

text \<open>The function that the table has for a type of operation.\<close>

definition module_function :: "nat list \<Rightarrow> addr \<Rightarrow> nat \<Rightarrow> ptr" where
  "module_function types fn t = (case filter (\<lambda>i. types ! i = t) [0..<length types] of [] \<Rightarrow> None | i # _ \<Rightarrow> Some (fn + i))"

text \<open>The entries that the table, lying at \<open>base\<close>, has for it.\<close>

definition module_impls :: "nat list \<Rightarrow> addr \<Rightarrow> nat \<Rightarrow> addr list" where
  "module_impls types base t = map ((+) base) (filter (\<lambda>i. types ! i = t) [0..<length types])"

text \<open>The table lies at \<open>base\<close>, the plugin has its information, and no entry is registered.\<close>

definition module_loaded :: "nat list \<Rightarrow> addr \<Rightarrow> addr \<Rightarrow> addr \<Rightarrow> 'z plug_state_scheme \<Rightarrow> registry \<Rightarrow> bool" where
  "module_loaded types fn p base s R \<longleftrightarrow> (\<exists>pl info. plugins s p = Some pl \<and> pinfo pl = Some info)
     \<and> (\<forall>i<length types. ops s (base + i) = Some (module_op types fn p i) \<and> op_unlinked s R (base + i))"

lemma filter_nth_eq:
  assumes "distinct xs"
  shows "filter (\<lambda>i. xs ! i = x) [0..<length xs] = [] \<or> (\<exists>i<length xs. xs ! i = x \<and> filter (\<lambda>i. xs ! i = x) [0..<length xs] = [i])"
proof -
  let ?f = "filter (\<lambda>i. xs ! i = x) [0..<length xs]"
  have "i = j" if "i \<in> set ?f" "j \<in> set ?f" for i j using that assms by (auto simp: nth_eq_iff_index_eq)
  moreover have "distinct ?f" by simp
  ultimately show ?thesis by (cases ?f rule: list.exhaust; cases "tl ?f") (fastforce dest: arg_cong [of _ _ set])+
qed

lemma get_plugin_op_cong:
  assumes "plug_ok s R" "t < VACCEL_FUNCTIONS_NR" "plugins s' = plugins s" "ops s' = ops s" "p_links s' = p_links s"
  shows "get_plugin_op t h s' = get_plugin_op t h s"
proof -
  have ok: "plug_ok s' R" using assms(1,3-5) by (simp add: plug_ok_def)
  have "hint_matches s' = hint_matches s"
    using assms(3,4) by (intro ext) (simp add: hint_matches_def owner_info_def [abs_def])
  then have "choose_op s' = choose_op s" by (intro ext) (simp add: choose_op_def)
  then show ?thesis using get_plugin_op_spec [OF ok assms(2)] get_plugin_op_spec [OF assms(1,2)] assms(4) by (simp cong: option.case_cong)
qed

lemma hint_matches_entry:
  assumes "ops s a = Some (module_op types fn p i)" "plugins s p = Some pl" "pinfo pl = Some (module_info name ty f g)"
  shows "hint_matches s hnt a \<longleftrightarrow> hnt AND ty \<noteq> 0"
  using assms by (simp add: hint_matches_def owner_info_def module_op_def module_info_def)

lemma r_ops_fold:
  assumes "\<And>a. a \<in> set as \<Longrightarrow> \<exists>op. opm a = Some op \<and> op_owner op = Some p"
  shows "r_ops (fold (reg_op opm) as R) q = r_ops R q @ (if q = p then as else [])"
  using assms
proof (induction as arbitrary: R)
  case (Cons a as)
  then obtain op where "opm a = Some op" "op_owner op = Some p" by auto
  then show ?case using Cons by (simp add: reg_op_def reg_function_def)
qed simp

lemma r_plugins_fold: "r_plugins (fold (reg_op opm) as R) = r_plugins R"
  by (induction as arbitrary: R) (simp_all add: reg_op_def reg_function_def split: option.split)

lemma module_loaded_cong:
  assumes "module_loaded types fn p base s R" "plugins t = plugins s" "ops t = ops s" "r_ops R' = r_ops R"
  shows "module_loaded types fn p base t R'"
  using assms by (simp add: module_loaded_def op_unlinked_def)

subsection \<open>The interface\<close>

locale plugin_module =
  fixes types :: "nat list"
  assumes distinct_types: "distinct types"
    and types_less: "t \<in> set types \<Longrightarrow> t < VACCEL_FUNCTIONS_NR"
begin

lemma function_cases:
  obtains "module_function types fn t = None" "t \<notin> set types" "filter (\<lambda>i. types ! i = t) [0..<length types] = []"
  | i where "i < length types" "types ! i = t" "module_function types fn t = Some (fn + i)" "filter (\<lambda>i. types ! i = t) [0..<length types] = [i]"
proof (cases rule: disjE [OF filter_nth_eq [OF distinct_types, of t]])
  case 1
  then have "t \<notin> set types" by (auto simp: filter_empty_conv in_set_conv_nth)
  then show thesis using that(1) 1 by (simp add: module_function_def)
next
  case 2
  then show thesis using that(2) by (auto simp: module_function_def)
qed

lemma function_None: "module_function types fn t = None \<longleftrightarrow> t \<notin> set types"
  by (cases rule: function_cases [of fn t]) auto

lemma impls_cases:
  obtains "module_function types fn t = None" "t \<notin> set types" "module_impls types base t = []"
  | i where "i < length types" "t \<in> set types" "module_function types fn t = Some (fn + i)" "module_impls types base t = [base + i]"
  by (cases rule: function_cases [of fn t]) (auto simp: module_impls_def that)

lemma op_type_word: "i < length types \<Longrightarrow> unat (of_nat (types ! i) :: u8) = types ! i"
  using types_less [of "types ! i"] by (simp add: unat_of_nat)

lemma entry_valid:
  assumes "module_loaded types fn p base s R" "a \<in> set (map ((+) base) [0..<length types])"
  shows "valid_op s a \<and> op_unlinked s R a"
proof -
  from assms(2) obtain i where "a = base + i" "i \<in> set [0..<length types]" unfolding set_map by (rule imageE)
  then show ?thesis using assms(1) op_type_word [of i] types_less [of "types ! i"] by (auto simp: module_loaded_def valid_op_def module_op_def)
qed

lemma init_ok:
  assumes "plug_ok s R" and loaded: "module_loaded types fn p base s R"
  obtains h R' where "module_init types base s = Some (VACCEL_OK, s\<lparr>p_links := h\<rparr>)" "plug_ok (s\<lparr>p_links := h\<rparr>) R'"
    "r_plugins R' = r_plugins R" "\<And>t. r_impls R' t = r_impls R t @ module_impls types base t" "\<And>t. length (module_impls types base t) \<le> 1"
    "\<And>q. r_ops R' q = r_ops R q @ (if q = p then map ((+) base) [0..<length types] else [])"
    "\<And>t hnt. t < VACCEL_FUNCTIONS_NR \<Longrightarrow> r_impls R t = [] \<Longrightarrow> get_plugin_op t hnt (s\<lparr>p_links := h\<rparr>) = Some (module_function types fn t)"
proof -
  let ?as = "map ((+) base) [0..<length types]"
  have entry: "ops s (base + i) = Some (module_op types fn p i)" if "i < length types" for i
    using loaded that by (simp add: module_loaded_def)
  have "\<exists>h. register_plugin_functions ?as s = Some (VACCEL_OK, s\<lparr>p_links := h\<rparr>)
    \<and> plug_ok (s\<lparr>p_links := h\<rparr>) (fold (reg_op (ops s)) ?as R)
    \<and> (\<forall>t. r_impls (fold (reg_op (ops s)) ?as R) t = r_impls R t @ filter (\<lambda>a. type_of (ops s) a = t) ?as)"
    by (rule register_plugin_functions_ok [OF assms(1)]) (use entry_valid [OF loaded] in \<open>auto simp: distinct_map\<close>)
  then obtain h R' where h: "module_init types base s = Some (VACCEL_OK, s\<lparr>p_links := h\<rparr>)" "plug_ok (s\<lparr>p_links := h\<rparr>) R'"
    "\<And>t. r_impls R' t = r_impls R t @ filter (\<lambda>a. type_of (ops s) a = t) ?as" "r_plugins R' = r_plugins R"
    "R' = fold (reg_op (ops s)) ?as R"
    by (auto simp: module_init_def r_plugins_fold)
  have "filter (\<lambda>a. type_of (ops s) a = t) ?as = module_impls types base t" for t
    unfolding filter_map o_def module_impls_def using entry op_type_word
    by (auto simp: type_of_def module_op_def intro!: arg_cong [where f = "map _"] filter_cong)
  note l = h(3) [unfolded this]
  have one: "length (module_impls types base t) \<le> 1" for t by (rule function_cases [of fn t]) (simp_all add: module_impls_def)
  have "r_ops R' q = r_ops R q @ (if q = p then ?as else [])" for q
    unfolding h(5)
  proof (rule r_ops_fold)
    fix a assume "a \<in> set ?as"
    then obtain i where "a = base + i" "i \<in> set [0..<length types]" unfolding set_map by (rule imageE)
    then show "\<exists>op. ops s a = Some op \<and> op_owner op = Some p" using entry [of i] by (simp add: module_op_def)
  qed
  moreover have "get_plugin_op t hnt (s\<lparr>p_links := h\<rparr>) = Some (module_function types fn t)" if t: "t < VACCEL_FUNCTIONS_NR" "r_impls R t = []" for t hnt
  proof -
    have g: "get_plugin_op t hnt (s\<lparr>p_links := h\<rparr>) = Some (case choose_op (s\<lparr>p_links := h\<rparr>) hnt (r_impls R' t) of
        None \<Rightarrow> None | Some a \<Rightarrow> Option.bind (ops (s\<lparr>p_links := h\<rparr>) a) op_func)"
      by (rule get_plugin_op_spec [OF h(2) t(1)])
    have r: "r_impls R' t = map ((+) base) (filter (\<lambda>i. types ! i = t) [0..<length types])" using l [of t] t(2) by (simp add: module_impls_def)
    show ?thesis
    proof (cases rule: function_cases [of fn t])
      case 1
      then show ?thesis using g r by (simp add: choose_op_def)
    next
      case (2 i)
      then have "choose_op (s\<lparr>p_links := h\<rparr>) hnt (r_impls R' t) = Some (base + i)"
        unfolding r by (simp add: choose_op_def)
      then show ?thesis using g 2 entry [OF 2(1)] by (simp add: module_op_def)
    qed
  qed
  ultimately show thesis using h(1,2,4) l one that by blast
qed

end

end
