(* ===== verification/Noop_Plugin.thy ===== *)
theory Noop_Plugin
  imports Tensors Modules
begin

text \<open>
  The debugging plugin (\<^verbatim>\<open>src/plugins/noop/vaccel.c\<close>): its table of operations, their functions on the
  memory of the users, and its registration. What the functions print is left out; arithmetic on
  floats is the parameter \<open>fadd\<close>, on bit patterns.
\<close>

subsection \<open>State\<close>

text \<open>\<open>struct vaccel_tf_status\<close>, arrays of nodes and arrays of pointers to tensors.\<close>

record tf_status =
  error_code :: u8
  st_message :: ptr

record noop_state = tensor_state +
  status_mem :: "addr \<Rightarrow> tf_status option"
  node_arr :: "addr \<Rightarrow> tf_node list option"
  ten_arr :: "addr \<Rightarrow> ptr list option"

subsection \<open>Accesses to memory\<close>

definition load_at :: "ptr \<Rightarrow> nat \<Rightarrow> nat \<Rightarrow> 'z ops_state_scheme \<Rightarrow> u8 list option" where
  "load_at p off n s = do { a \<leftarrow> p; b \<leftarrow> mem s a; defined (off + n \<le> length b); Some (take n (drop off b)) }"

definition store_at :: "ptr \<Rightarrow> nat \<Rightarrow> u8 list \<Rightarrow> 'z ops_state_scheme \<Rightarrow> 'z ops_state_scheme option" where
  "store_at p off bs s = do {
     a \<leftarrow> p; b \<leftarrow> mem s a;
     defined (off + length bs \<le> length b);
     Some (s\<lparr>mem := (mem s)(a \<mapsto> take off b @ bs @ drop (off + length bs) b)\<rparr>) }"

text \<open>\<open>memcpy\<close> between blocks, and \<open>sprintf\<close>, which does not know the size of its buffer.\<close>

definition memcpy :: "ptr \<Rightarrow> ptr \<Rightarrow> nat \<Rightarrow> 'z ops_state_scheme \<Rightarrow> 'z ops_state_scheme option" where
  "memcpy dst src n s = do { bs \<leftarrow> load_at src 0 n s; store_at dst 0 bs s }"

definition c_string :: "string \<Rightarrow> u8 list" where
  "c_string t = map of_char t @ [0]"

text \<open>A string in memory.\<close>

definition mem_str :: "ptr \<Rightarrow> 'z ops_state_scheme \<Rightarrow> string option" where
  "mem_str p s = do { a \<leftarrow> p; b \<leftarrow> mem s a; defined (0 \<in> set b); Some (map (\<lambda>x. char_of (unat x)) (takeWhile (\<lambda>x. x \<noteq> 0) b)) }"

text \<open>A string that is printed; the C library prints a null pointer too.\<close>

definition print_str :: "ptr \<Rightarrow> 'z ops_state_scheme \<Rightarrow> unit option" where
  "print_str p s = (if p = None then Some () else map_option (\<lambda>_. ()) (mem_str p s))"

lemma unat_char: "unat (of_char c :: u8) = of_char c"
  by (cases c) (simp add: of_char_def horner_sum_simps)

lemma mem_str_c_string:
  assumes "mem s p = Some (c_string t)" "CHR 0x00 \<notin> set t"
  shows "mem_str (Some p) s = Some t"
proof -
  have nz: "(of_char c :: u8) \<noteq> 0" if "c \<in> set t" for c
  proof
    assume "(of_char c :: u8) = 0"
    then have "(of_char c :: nat) = of_char (CHR 0x00)" using unat_char [of c] by simp
    then show False using assms(2) that by (simp only: of_char_eq_iff)
  qed
  then have "takeWhile (\<lambda>x. x \<noteq> 0) (c_string t) = map of_char t"
    by (simp add: c_string_def takeWhile_append)
  moreover have "map (\<lambda>x. char_of (unat x)) (map of_char t :: u8 list) = t" by (simp add: o_def unat_char)
  ultimately show ?thesis using assms(1) by (simp add: mem_str_def c_string_def)
qed

definition sprintf :: "ptr \<Rightarrow> string \<Rightarrow> 'z ops_state_scheme \<Rightarrow> 'z ops_state_scheme option" where
  "sprintf p t s = store_at p 0 (c_string t) s"

definition session_of :: "ptr \<Rightarrow> 'z ops_state_scheme \<Rightarrow> vaccel_session option" where
  "session_of sess s = do { a \<leftarrow> sess; s_mem s a }"

subsection \<open>Functions that only print\<close>

definition noop_noop :: "ptr \<Rightarrow> 'z ops_state_scheme \<Rightarrow> (int \<times> 'z ops_state_scheme) option" where
  "noop_noop sess s = do { _ \<leftarrow> session_of sess s; Some (VACCEL_OK, s) }"

definition noop_sgemm :: "ptr \<Rightarrow> 'z ops_state_scheme \<Rightarrow> (int \<times> 'z ops_state_scheme) option" where
  "noop_sgemm sess s = do { _ \<leftarrow> session_of sess s; Some (VACCEL_OK, s) }"

definition noop_img_detect :: "ptr \<Rightarrow> 'z ops_state_scheme \<Rightarrow> (int \<times> 'z ops_state_scheme) option" where
  "noop_img_detect sess s = do { _ \<leftarrow> session_of sess s; Some (VACCEL_OK, s) }"

definition noop_img_segme :: "ptr \<Rightarrow> 'z ops_state_scheme \<Rightarrow> (int \<times> 'z ops_state_scheme) option" where
  "noop_img_segme sess s = do { _ \<leftarrow> session_of sess s; Some (VACCEL_OK, s) }"

definition noop_img_pose :: "ptr \<Rightarrow> 'z ops_state_scheme \<Rightarrow> (int \<times> 'z ops_state_scheme) option" where
  "noop_img_pose sess s = do { _ \<leftarrow> session_of sess s; Some (VACCEL_OK, s) }"

definition noop_img_depth :: "ptr \<Rightarrow> 'z ops_state_scheme \<Rightarrow> (int \<times> 'z ops_state_scheme) option" where
  "noop_img_depth sess s = do { _ \<leftarrow> session_of sess s; Some (VACCEL_OK, s) }"

definition noop_exec :: "ptr \<Rightarrow> ptr \<Rightarrow> ptr \<Rightarrow> 'z ops_state_scheme \<Rightarrow> (int \<times> 'z ops_state_scheme) option" where
  "noop_exec sess library fn_symbol s = do {
     _ \<leftarrow> session_of sess s;
     _ \<leftarrow> print_str library s;
     _ \<leftarrow> print_str fn_symbol s;
     Some (VACCEL_OK, s) }"

definition noop_torch_sgemm :: "ptr \<Rightarrow> 'z ops_state_scheme \<Rightarrow> (int \<times> 'z ops_state_scheme) option" where
  "noop_torch_sgemm session s = (case session of None \<Rightarrow> Some (VACCEL_EINVAL, s)
     | Some _ \<Rightarrow> do { _ \<leftarrow> session_of session s; Some (VACCEL_OK, s) })"

subsection \<open>Functions that write their results\<close>

text \<open>The doubles -1.0 and 10000.0.\<close>

definition noop_minmax :: "ptr \<Rightarrow> ptr \<Rightarrow> 32 word \<Rightarrow> ptr \<Rightarrow> ptr \<Rightarrow> ptr \<Rightarrow> 'z ops_state_scheme \<Rightarrow> (int \<times> 'z ops_state_scheme) option" where
  "noop_minmax sess indata ndata outdata mn mx s = (case sess of None \<Rightarrow> Some (VACCEL_EINVAL, s)
     | Some _ \<Rightarrow> do {
         _ \<leftarrow> session_of sess s;
         defined (0 \<le> sint ndata);
         s \<leftarrow> memcpy outdata indata (unat ndata * 8) s;
         s \<leftarrow> store_at mx 0 (le_bytes 8 (0xBFF0000000000000 :: u64)) s;
         s \<leftarrow> store_at mn 0 (le_bytes 8 (0x40C3880000000000 :: u64)) s;
         Some (VACCEL_OK, s) })"

definition noop_img_class :: "ptr \<Rightarrow> ptr \<Rightarrow> 'z ops_state_scheme \<Rightarrow> (int \<times> 'z ops_state_scheme) option" where
  "noop_img_class sess out_text s = do {
     _ \<leftarrow> session_of sess s;
     s \<leftarrow> sprintf out_text ''This is a dummy classification tag!'' s;
     Some (VACCEL_OK, s) }"

definition noop_exec_with_resource :: "ptr \<Rightarrow> ptr \<Rightarrow> ptr \<Rightarrow> args \<Rightarrow> args \<Rightarrow> u64 \<Rightarrow> 'z ops_state_scheme \<Rightarrow> (int \<times> 'z ops_state_scheme) option" where
  "noop_exec_with_resource sess object fn_symbol read write nr_write s = (case sess of None \<Rightarrow> Some (VACCEL_EINVAL, s)
     | Some _ \<Rightarrow> (case object of None \<Rightarrow> Some (VACCEL_EINVAL, s)
       | Some d \<Rightarrow> do {
           obj \<leftarrow> so_mem s d;
           found \<leftarrow> vaccel_sess_has_resource sess (o_resource obj) s;
           if \<not> found then Some (VACCEL_ENOENT, s)
           else do {
             _ \<leftarrow> session_of sess s;
             _ \<leftarrow> (if f_path (o_file obj) = None then Some () else map_option (\<lambda>_. ()) (get_str (f_path (o_file obj)) (os s)));
             _ \<leftarrow> print_str fn_symbol s;
             if nr_write = 0 then Some (VACCEL_OK, s)
             else do {
               w0 \<leftarrow> nth_arg write 0;
               r0 \<leftarrow> nth_arg read 0;
               x \<leftarrow> load32 (arg_buf r0) s;
               s \<leftarrow> sprintf (arg_buf w0) (''I got this input: '' @ int_digits (sint x) @ [CHR 0x0A]) s;
               Some (VACCEL_OK, s) } } }))"

subsection \<open>Vectors\<close>

text \<open>
  The four loops over arrays of 32-bit elements. Their counter is an \<open>int\<close> compared with a \<open>size_t\<close>: a loop that
  does not stop before \<open>2 ^ 31\<close> has no defined result.
\<close>

definition load_elem :: "ptr \<Rightarrow> nat \<Rightarrow> 'z ops_state_scheme \<Rightarrow> u32 option" where
  "load_elem p i s = map_option le_word (load_at p (4 * i) 4 s)"

definition store_elem :: "ptr \<Rightarrow> nat \<Rightarrow> u32 \<Rightarrow> 'z ops_state_scheme \<Rightarrow> 'z ops_state_scheme option" where
  "store_elem p i x s = store_at p (4 * i) (le_bytes 4 x) s"

fun loop :: "(nat \<Rightarrow> 's \<Rightarrow> 's option) \<Rightarrow> nat list \<Rightarrow> 's \<Rightarrow> 's option" where
  "loop body [] s = Some s"
| "loop body (i # rest) s = do { s \<leftarrow> body i s; loop body rest s }"

definition v_arraycopy :: "ptr \<Rightarrow> ptr \<Rightarrow> u64 \<Rightarrow> 'z ops_state_scheme \<Rightarrow> (int \<times> 'z ops_state_scheme) option" where
  "v_arraycopy a b c s = do {
     defined (unat c < 2 ^ 31);
     s \<leftarrow> loop (\<lambda>i s. do { x \<leftarrow> load_elem a i s; store_elem b i x s }) [0..<unat c] s;
     Some (VACCEL_OK, s) }"

definition v_vectoradd :: "(u32 \<Rightarrow> u32 \<Rightarrow> u32) \<Rightarrow> ptr \<Rightarrow> ptr \<Rightarrow> ptr \<Rightarrow> u64 \<Rightarrow> 'z ops_state_scheme \<Rightarrow> (int \<times> 'z ops_state_scheme) option" where
  "v_vectoradd fadd a b c len_a s = do {
     defined (unat len_a < 2 ^ 31);
     s \<leftarrow> loop (\<lambda>i s. do { x \<leftarrow> load_elem a i s; y \<leftarrow> load_elem b i s; store_elem c i (fadd x y) s }) [0..<unat len_a] s;
     Some (VACCEL_OK, s) }"

text \<open>The floats 1 and 9.1.\<close>

definition v_parallel :: "(u32 \<Rightarrow> u32 \<Rightarrow> u32) \<Rightarrow> ptr \<Rightarrow> ptr \<Rightarrow> ptr \<Rightarrow> ptr \<Rightarrow> u64 \<Rightarrow> 'z ops_state_scheme \<Rightarrow> (int \<times> 'z ops_state_scheme) option" where
  "v_parallel fadd a b add_out mult_out len_a s = do {
     defined (unat len_a < 2 ^ 31);
     s \<leftarrow> loop (\<lambda>i s. do {
         x \<leftarrow> load_elem a i s; y \<leftarrow> load_elem b i s;
         s \<leftarrow> store_elem add_out i (fadd x y) s;
         store_elem mult_out i 0x3F800000 s }) [0..<unat len_a] s;
     Some (VACCEL_OK, s) }"

definition v_mmult :: "ptr \<Rightarrow> u64 \<Rightarrow> 'z ops_state_scheme \<Rightarrow> (int \<times> 'z ops_state_scheme) option" where
  "v_mmult c_out len_a s = do {
     defined (unat len_a < 2 ^ 31);
     s \<leftarrow> loop (\<lambda>i s. store_elem c_out i 0x4111999A s) [0..<unat len_a] s;
     Some (VACCEL_OK, s) }"

subsection \<open>TensorFlow and Torch\<close>

definition set_status :: "ptr \<Rightarrow> 'z noop_state_scheme \<Rightarrow> (int \<times> 'z noop_state_scheme) option" where
  "set_status status s = (case status of None \<Rightarrow> Some (VACCEL_OK, s)
     | Some a \<Rightarrow> do {
         st \<leftarrow> status_mem s a;
         let (p, s) = os_call (strdup ''Operation handled by noop plugin'') s;
         let s = s\<lparr>status_mem := (status_mem s)(a \<mapsto> st\<lparr>st_message := p\<rparr>)\<rparr>;
         if p = None then Some (VACCEL_ENOMEM, s) else Some (VACCEL_OK, s) })"

definition noop_tf_session_load :: "ptr \<Rightarrow> ptr \<Rightarrow> ptr \<Rightarrow> 'z noop_state_scheme \<Rightarrow> (int \<times> 'z noop_state_scheme) option" where
  "noop_tf_session_load session model status s = (case session of None \<Rightarrow> Some (VACCEL_EINVAL, s)
     | Some _ \<Rightarrow> (case model of None \<Rightarrow> Some (VACCEL_EINVAL, s)
       | Some m \<Rightarrow> do {
           md \<leftarrow> tsm_mem s m;
           found \<leftarrow> vaccel_sess_has_resource session (tsm_resource md) s;
           if \<not> found then Some (VACCEL_ENOENT, s) else set_status status s }))"

definition noop_tf_session_delete :: "ptr \<Rightarrow> ptr \<Rightarrow> ptr \<Rightarrow> 'z noop_state_scheme \<Rightarrow> (int \<times> 'z noop_state_scheme) option" where
  "noop_tf_session_delete session model status s = (case session of None \<Rightarrow> Some (VACCEL_EINVAL, s)
     | Some _ \<Rightarrow> (case model of None \<Rightarrow> Some (VACCEL_EINVAL, s) | Some _ \<Rightarrow> set_status status s))"

text \<open>An element of an array of pointers to tensors, and the tensor it points to.\<close>

definition nth_ptr :: "ptr \<Rightarrow> nat \<Rightarrow> 'z noop_state_scheme \<Rightarrow> ptr option" where
  "nth_ptr arr i s = do { a \<leftarrow> arr; ps \<leftarrow> ten_arr s a; defined (i < length ps); Some (ps ! i) }"

definition tensor_at :: "ptr \<Rightarrow> nat \<Rightarrow> 'z noop_state_scheme \<Rightarrow> tensor option" where
  "tensor_at arr i s = do { p \<leftarrow> nth_ptr arr i s; a \<leftarrow> p; ten_mem s a }"

definition node_at :: "ptr \<Rightarrow> nat \<Rightarrow> 'z noop_state_scheme \<Rightarrow> tf_node option" where
  "node_at arr i s = do { a \<leftarrow> arr; ns \<leftarrow> node_arr s a; defined (i < length ns); Some (ns ! i) }"

text \<open>The body of the first loop reads the dimensions of the tensor to print them.\<close>

definition print_tensor :: "ptr \<Rightarrow> nat \<Rightarrow> 'z noop_state_scheme \<Rightarrow> 'z noop_state_scheme option" where
  "print_tensor inp i s = do {
     t \<leftarrow> tensor_at inp i s;
     if t_nr_dims t \<le> 0 then Some s
     else do { d \<leftarrow> t_dims t; ds \<leftarrow> dims_mem s d; defined (t_nr_dims t \<le> int (length ds)); Some s } }"

text \<open>
  The body of the second loop: \<open>out[i]\<close> becomes a copy of \<open>in[i]\<close>. None of the four allocations is
  tested; the block for the data has eight times the size; \<open>owned\<close> is not set.
\<close>

definition copy_tensor :: "ptr \<Rightarrow> ptr \<Rightarrow> nat \<Rightarrow> 'z noop_state_scheme \<Rightarrow> 'z noop_state_scheme option" where
  "copy_tensor inp out i s = do {
     arr \<leftarrow> out;
     ps \<leftarrow> ten_arr s arr;
     defined (i < length ps);
     let (p, s) = os_call malloc s;
     let s = s\<lparr>ten_arr := (ten_arr s)(arr \<mapsto> ps[i := p])\<rparr>;
     a \<leftarrow> p;
     t \<leftarrow> tensor_at inp i s;
     defined (0 \<le> t_nr_dims t);
     let (d, s) = os_call malloc s;
     d \<leftarrow> d;
     src \<leftarrow> t_dims t;
     ds \<leftarrow> dims_mem s src;
     defined (nat (t_nr_dims t) \<le> length ds);
     let s = s\<lparr>dims_mem := (dims_mem s)(d \<mapsto> take (nat (t_nr_dims t)) ds)\<rparr>;
     let (q, s) = malloc_bytes (t_size t * 8) s;
     s \<leftarrow> memcpy q (t_data t) (unat (t_size t)) s;
     Some (s\<lparr>ten_mem := (ten_mem s)(a \<mapsto> \<lparr>t_data = q, t_size = t_size t, t_owned = stale s a 16 \<noteq> 0, t_nr_dims = t_nr_dims t,
       t_dims = Some d, t_type = t_type t\<rparr>)\<rparr>) }"

text \<open>The number of iterations of a loop from zero up to an \<open>int\<close>.\<close>

definition count :: "32 word \<Rightarrow> nat" where
  "count n = nat (sint n)"

definition noop_tf_session_run :: "ptr \<Rightarrow> ptr \<Rightarrow> ptr \<Rightarrow> ptr \<Rightarrow> ptr \<Rightarrow> 32 word \<Rightarrow> ptr \<Rightarrow> ptr \<Rightarrow> 32 word \<Rightarrow> ptr
    \<Rightarrow> 'z noop_state_scheme \<Rightarrow> (int \<times> 'z noop_state_scheme) option" where
  "noop_tf_session_run session model run_options in_nodes inp nr_inputs out_nodes out nr_outputs status s = (case session of
       None \<Rightarrow> Some (VACCEL_EINVAL, s)
     | Some _ \<Rightarrow> (case model of None \<Rightarrow> Some (VACCEL_EINVAL, s)
       | Some _ \<Rightarrow> do {
           _ \<leftarrow> (case run_options of None \<Rightarrow> Some () | Some b \<Rightarrow> map_option (\<lambda>_. ()) (buf_mem s b));
           s \<leftarrow> loop (\<lambda>i s. do { _ \<leftarrow> node_at in_nodes i s; print_tensor inp i s }) [0..<count nr_inputs] s;
           s \<leftarrow> loop (\<lambda>i s. do { _ \<leftarrow> node_at out_nodes i s; copy_tensor inp out i s }) [0..<count nr_outputs] s;
           set_status status s }))"

definition noop_torch_jitload_forward :: "ptr \<Rightarrow> ptr \<Rightarrow> ptr \<Rightarrow> 32 word \<Rightarrow> ptr \<Rightarrow> 32 word
    \<Rightarrow> 'z noop_state_scheme \<Rightarrow> (int \<times> 'z noop_state_scheme) option" where
  "noop_torch_jitload_forward session model in_tensor nr_read out_tensor nr_write s = (case session of
       None \<Rightarrow> Some (VACCEL_EINVAL, s)
     | Some _ \<Rightarrow> (case model of None \<Rightarrow> Some (VACCEL_EINVAL, s)
       | Some _ \<Rightarrow> do {
           _ \<leftarrow> session_of session s;
           s \<leftarrow> loop (print_tensor in_tensor) [0..<count nr_read] s;
           s \<leftarrow> loop (copy_tensor in_tensor out_tensor) [0..<count nr_write] s;
           Some (VACCEL_OK, s) }))"

subsection \<open>OpenCV\<close>

definition noop_opencv :: "ptr \<Rightarrow> args \<Rightarrow> u64 \<Rightarrow> args \<Rightarrow> u64 \<Rightarrow> 'z ops_state_scheme \<Rightarrow> (int \<times> 'z ops_state_scheme) option" where
  "noop_opencv sess read nr_read write nr_write s = do {
     _ \<leftarrow> session_of sess s;
     r0 \<leftarrow> nth_arg read 0;
     _ \<leftarrow> load 1 (arg_buf r0) s;
     s \<leftarrow> loop (\<lambda>i s. do { _ \<leftarrow> nth_arg read i; Some s }) [1..<unat nr_read] s;
     s \<leftarrow> loop (\<lambda>i s. do { w \<leftarrow> nth_arg write i; store_at (arg_buf w) 0 (le_bytes 8 (ucast (arg_size w) div 4 :: u64)) s }) [0..<unat nr_write] s;
     Some (VACCEL_OK, s) }"

subsection \<open>The table of operations\<close>

text \<open>
  A call through the pointer that the runtime has: the address of a function is its index in the
  table. A call with other arguments than the function declares has no defined result.
\<close>

definition noop_call :: "(u32 \<Rightarrow> u32 \<Rightarrow> u32) \<Rightarrow> addr \<Rightarrow> carg list \<Rightarrow> 'z noop_state_scheme \<Rightarrow> (int \<times> 'z noop_state_scheme) option" where
  "noop_call fadd f args s = (case (f, args) of
       (Suc f, APtr sess # rest) \<Rightarrow>
         (case rest of
            [] \<Rightarrow> if f = 0 then noop_noop sess s else None
          | [ALong _, ALong _, ALong _, AFloat _, APtr _, ALong _, APtr _, ALong _, AFloat _, APtr _, ALong _] \<Rightarrow> if f = 1 then noop_sgemm sess s else None
          | [APtr _, APtr out_text, APtr _, ASize _, ASize _, ASize _] \<Rightarrow> if f = 2 then noop_img_class sess out_text s else None
          | [APtr _, APtr _, ASize _, ASize _] \<Rightarrow> if f = 3 then noop_img_detect sess s else if f = 4 then noop_img_segme sess s
              else if f = 5 then noop_img_pose sess s else if f = 6 then noop_img_depth sess s else None
          | [APtr p, APtr fn_symbol, AArgs rd, ASize _, AArgs wr, ASize nw] \<Rightarrow> if f = 7 then noop_exec sess p fn_symbol s
              else if f = 16 then noop_exec_with_resource sess p fn_symbol rd wr nw s else None
          | [APtr model, APtr status] \<Rightarrow> if f = 8 then noop_tf_session_load sess model status s
              else if f = 10 then noop_tf_session_delete sess model status s else None
          | [APtr model, APtr opts, APtr in_nodes, APtr inp, AInt ni, APtr out_nodes, APtr out, AInt no, APtr status] \<Rightarrow>
              if f = 9 then noop_tf_session_run sess model opts in_nodes inp ni out_nodes out no status s else None
          | [APtr indata, AInt n, AInt _, AInt _, APtr outdata, APtr mn, APtr mx] \<Rightarrow> if f = 11 then noop_minmax sess indata n outdata mn mx s else None
          | [APtr a, APtr b, ASize n] \<Rightarrow> if f = 12 then v_arraycopy a b n s else None
          | [APtr a, APtr b, APtr c, ASize n, ASize _] \<Rightarrow> if f = 13 then v_vectoradd fadd a b c n s else None
          | [APtr a, APtr b, APtr c, APtr d, ASize n] \<Rightarrow> if f = 14 then v_parallel fadd a b c d n s else None
          | [APtr _, APtr _, APtr c, ASize n] \<Rightarrow> if f = 15 then v_mmult c n s else None
          | [APtr model, APtr _, APtr inp, AInt ni, APtr out, AInt no] \<Rightarrow> if f = 17 then noop_torch_jitload_forward sess model inp ni out no s else None
          | [APtr _, APtr _, APtr _, AInt _, AInt _, AInt _, APtr _] \<Rightarrow> if f = 18 then noop_torch_sgemm sess s else None
          | [AArgs rd, AInt nr, AArgs wr, AInt nw] \<Rightarrow> if f = 19 then noop_opencv sess rd (scast nr) wr (scast nw) s else None
          | _ \<Rightarrow> None)
     | _ \<Rightarrow> None)"

subsection \<open>The module\<close>

text \<open>The types of the table's entries, and \<open>init\<close> and \<open>fini\<close>.\<close>

definition noop_types :: "nat list" where
  "noop_types = [VACCEL_NO_OP, VACCEL_BLAS_SGEMM, VACCEL_IMG_CLASS, VACCEL_IMG_DETEC, VACCEL_IMG_SEGME, VACCEL_IMG_POSE, VACCEL_IMG_DEPTH,
     VACCEL_EXEC, VACCEL_TF_SESSION_LOAD, VACCEL_TF_SESSION_RUN, VACCEL_TF_SESSION_DELETE, VACCEL_MINMAX, VACCEL_F_ARRAYCOPY, VACCEL_F_VECTORADD,
     VACCEL_F_PARALLEL, VACCEL_F_MMULT, VACCEL_EXEC_WITH_RESOURCE, VACCEL_TORCH_JITLOAD_FORWARD, VACCEL_TORCH_SGEMM, VACCEL_OPENCV]"

definition noop_init :: "addr \<Rightarrow> 'z plug_state_scheme \<Rightarrow> (int \<times> 'z plug_state_scheme) option" where
  "noop_init base s = module_init noop_types base s"

definition noop_fini :: int where
  "noop_fini = VACCEL_OK"

definition noop_info :: "addr \<Rightarrow> addr \<Rightarrow> vaccel_plugin_info" where
  "noop_info init_fn fini_fn = module_info ''noop'' 0x100 init_fn fini_fn"

definition noop_function :: "nat \<Rightarrow> ptr" where
  "noop_function t = module_function noop_types 1 t"

end
