(* ===== verification/Noop_Module.thy ===== *)
theory Noop_Module
  imports Noop_Plugin
begin

text \<open>
  The noop plugin as a module of the registry, and requests to it that go through the whole library
  (\<^verbatim>\<open>src/plugins/noop/vaccel.c\<close>).
\<close>

subsection \<open>The module\<close>

lemma length_noop_types [simp]: "length noop_types = 20"
  by (simp add: noop_types_def)

interpretation noop: plugin_module noop_types
  by unfold_locales (auto simp: noop_types_def)

lemmas noop_init_ok = noop.init_ok [where fn = 1, folded noop_init_def noop_function_def]

lemma noop_function_None: "t < VACCEL_FUNCTIONS_NR \<Longrightarrow> noop_function t = None \<longleftrightarrow> t \<in> {8, 9, 10, 11}"
proof -
  assume t: "t < VACCEL_FUNCTIONS_NR"
  have "noop_function t = None \<longleftrightarrow> t \<notin> set noop_types" unfolding noop_function_def by (rule noop.function_None)
  moreover have "\<forall>t\<in>set [0..<24]. t \<notin> set noop_types \<longleftrightarrow> t \<in> {8, 9, 10, 11}" by code_simp
  ultimately show ?thesis using t by simp
qed

text \<open>
  The noop plugin's \<open>init\<close> registers its twenty operations: a type that had no implementation before is found with every hint, and the
  function found is that of the table; the four operations on TensorFlow models that the table does not have stay without implementation. A type that
  had implementations keeps them in front.
\<close>

theorem noop_init_correct:
  assumes "plug_ok s R" "module_loaded noop_types 1 p base s R"
  shows "\<exists>s' R'. noop_init base s = Some (VACCEL_OK, s') \<and> plug_ok s' R'
    \<and> (\<forall>t<VACCEL_FUNCTIONS_NR. \<exists>l. r_impls R' t = r_impls R t @ l \<and> length l \<le> 1)
    \<and> (\<forall>t<VACCEL_FUNCTIONS_NR. \<forall>hnt. r_impls R t = [] \<longrightarrow> get_plugin_op t hnt s' = Some (noop_function t))
    \<and> (\<forall>t<VACCEL_FUNCTIONS_NR. noop_function t = None \<longleftrightarrow> t \<in> {8, 9, 10, 11})"
proof -
  obtain h R' where "noop_init base s = Some (VACCEL_OK, s\<lparr>p_links := h\<rparr>)" "plug_ok (s\<lparr>p_links := h\<rparr>) R'"
    "\<And>t. r_impls R' t = r_impls R t @ module_impls noop_types base t" "\<And>t. length (module_impls noop_types base t) \<le> 1"
    "\<And>t hnt. t < VACCEL_FUNCTIONS_NR \<Longrightarrow> r_impls R t = [] \<Longrightarrow> get_plugin_op t hnt (s\<lparr>p_links := h\<rparr>) = Some (noop_function t)"
    by (rule noop_init_ok [OF assms]) (rule that)
  then show ?thesis using noop_function_None by (metis (no_types))
qed

text \<open>The plugin in memory at 1 with its table at 100, and a session at 20.\<close>

definition noop_loaded :: "(addr \<Rightarrow> u8 list option) \<Rightarrow> noop_state" where
  "noop_loaded m = tensor_state.extend (tensors_booted\<lparr>os := (os tensors_booted)\<lparr>env := Map.empty\<rparr>, mem := m, p_links := self_linked, s_mem := [20 \<mapsto> no_session],
       plugins := [1 \<mapsto> \<lparr>dl_handle = None, pinfo = Some (noop_info 50 51)\<rparr>], plug_initialized := True,
       ops := (\<lambda>a. if 100 \<le> a \<and> a < 120 then Some (module_op noop_types 1 1 (a - 100)) else None)\<rparr>)
     \<lparr>status_mem = Map.empty, node_arr = Map.empty, ten_arr = Map.empty\<rparr>"

lemma noop_loaded_ok: "plug_ok (noop_loaded m) no_plugins" "module_loaded noop_types 1 1 100 (noop_loaded m) no_plugins"
  "s_mem (noop_loaded m) 20 = Some no_session" "plug_initialized (noop_loaded m)"
  "plugins (noop_loaded m) 1 = Some \<lparr>dl_handle = None, pinfo = Some (noop_info 50 51)\<rparr>"
proof -
  have "family self_linked (plug_fam (dom (plugins (noop_loaded m))) (dom (ops (noop_loaded m))) no_plugins)"
    by (rule self_linked_family) (rule no_plugins_lists)
  then show "plug_ok (noop_loaded m) no_plugins" by (simp add: plug_ok_def noop_loaded_def tensor_state.defs plug_rel_def no_plugins_def)
  show "s_mem (noop_loaded m) 20 = Some no_session" "plug_initialized (noop_loaded m)"
    "plugins (noop_loaded m) 1 = Some \<lparr>dl_handle = None, pinfo = Some (noop_info 50 51)\<rparr>"
    by (simp_all add: noop_loaded_def tensor_state.defs)
  show "module_loaded noop_types 1 1 100 (noop_loaded m) no_plugins"
    by (simp add: module_loaded_def noop_loaded_def tensor_state.defs op_unlinked_def no_plugins_def)
qed

theorem noop_init_correct_witness:
  "\<exists>s'. noop_init 100 (noop_loaded Map.empty) = Some (VACCEL_OK, s') \<and> get_plugin_op VACCEL_F_ARRAYCOPY 0 s' = Some (Some 13)
    \<and> get_plugin_op 8 0 s' = Some None"
proof -
  have t: "16 < VACCEL_FUNCTIONS_NR" "8 < VACCEL_FUNCTIONS_NR" "r_impls no_plugins 16 = []" "r_impls no_plugins 8 = []" by (simp_all add: no_plugins_def)
  have "noop_function 16 = Some 13" "noop_function 8 = None" by code_simp+
  with noop_init_correct [OF noop_loaded_ok(1,2)] t show ?thesis by (metis VACCEL_F_ARRAYCOPY_def)
qed

subsection \<open>Arrays of 32-bit elements\<close>

definition words :: "u32 list \<Rightarrow> u8 list" where
  "words xs = concat (map (le_bytes 4) xs)"

lemma length_words [simp]: "length (words xs) = 4 * length xs"
  by (induction xs) (simp_all add: words_def)

lemma words_split:
  assumes "i < length xs"
  shows "words xs = words (take i xs) @ le_bytes 4 (xs ! i) @ words (drop (Suc i) xs)"
proof -
  have "words xs = words (take i xs @ xs ! i # drop (Suc i) xs)" using assms by (simp add: id_take_nth_drop [symmetric])
  then show ?thesis by (simp add: words_def)
qed

lemma load_elem_words:
  assumes "mem s p = Some (words xs)"
  shows "load_elem (Some p) i s = (if i < length xs then Some (xs ! i) else None)"
proof (cases "i < length xs")
  case True
  then have "take 4 (drop (4 * i) (words xs)) = le_bytes 4 (xs ! i)" by (subst words_split [OF True]) (simp add: min_absorb2)
  moreover have "le_word (le_bytes 4 (xs ! i)) = xs ! i" by (rule le_word_bytes) simp
  ultimately show ?thesis using assms True by (simp add: load_elem_def load_at_def)
next
  case False
  then show ?thesis using assms by (simp add: load_elem_def load_at_def)
qed

lemma store_elem_words:
  assumes "mem s p = Some (words xs)" "i < length xs"
  shows "store_elem (Some p) i x s = Some (s\<lparr>mem := (mem s)(p \<mapsto> words (xs[i := x]))\<rparr>)"
proof -
  have "take (4 * i) (words xs) @ le_bytes 4 x @ drop (4 * i + 4) (words xs) = words (xs[i := x])"
    using assms(2) words_split [of i "xs[i := x]"] by (subst (1 2) words_split [OF assms(2)]) (simp add: min_absorb2)
  then show ?thesis using assms by (simp add: store_elem_def store_at_def)
qed

lemma loop_append: "loop body (is @ js) s = do { s \<leftarrow> loop body is s; loop body js s }"
  by (induction "is" arbitrary: s) (auto split: Option.bind_splits)

text \<open>A loop that sets the elements of one array in turn, each to a value that does not depend on this array.\<close>

lemma loop_fill:
  assumes "\<And>i ys. i < n \<Longrightarrow> length ys = m \<Longrightarrow> body i (put ys) = Some (put (ys[i := f i]))" "length ys = m" "n \<le> m"
  shows "loop body [0..<n] (put ys) = Some (put (map f [0..<n] @ drop n ys))"
  using assms
proof (induction n)
  case (Suc n)
  have "(map f [0..<n] @ drop n ys)[n := f n] = map f [0..<Suc n] @ drop (Suc n) ys"
    using Suc.prems(2,3) by (simp add: list_update_append Cons_nth_drop_Suc [symmetric])
  then show ?case using Suc by (simp add: loop_append)
qed simp

text \<open>\<open>fpga\<close> arrays \<open>p\<close> and \<open>q\<close> are read and \<open>r\<close> is written.\<close>

lemma v_arraycopy_words:
  assumes "mem s p = Some (words xs)" "mem s q = Some (words ys)" "p \<noteq> q" "unat n \<le> length xs" "unat n \<le> length ys" "unat n < 2 ^ 31"
  shows "v_arraycopy (Some p) (Some q) n s = Some (VACCEL_OK, s\<lparr>mem := (mem s)(q \<mapsto> words (take (unat n) xs @ drop (unat n) ys))\<rparr>)"
proof -
  let ?put = "\<lambda>ys. s\<lparr>mem := (mem s)(q \<mapsto> words ys)\<rparr>"
  have "loop (\<lambda>i s. do { x \<leftarrow> load_elem (Some p) i s; store_elem (Some q) i x s }) [0..<unat n] (?put ys)
    = Some (?put (map (\<lambda>i. xs ! i) [0..<unat n] @ drop (unat n) ys))"
    by (rule loop_fill [where put = ?put and m = "length ys"]) (use assms in \<open>simp_all add: load_elem_words [of _ p xs] store_elem_words [of _ q]\<close>)
  moreover have "?put ys = s" using assms(2) by (simp add: fun_upd_idem)
  moreover have "map (\<lambda>i. xs ! i) [0..<unat n] = take (unat n) xs" using assms(4) by (simp add: list_eq_iff_nth_eq)
  ultimately show ?thesis using assms(6) by (simp add: v_arraycopy_def)
qed

lemma v_vectoradd_words:
  assumes "mem s p = Some (words xs)" "mem s q = Some (words ys)" "mem s r = Some (words zs)" "r \<noteq> p" "r \<noteq> q"
    "unat n \<le> length xs" "unat n \<le> length zs" "unat n < 2 ^ 31"
  shows "v_vectoradd fadd (Some p) (Some q) (Some r) n s =
    (if unat n \<le> length ys then Some (VACCEL_OK, s\<lparr>mem := (mem s)(r \<mapsto> words (map2 fadd (take (unat n) xs) (take (unat n) ys) @ drop (unat n) zs))\<rparr>)
     else None)"
proof -
  let ?put = "\<lambda>zs. s\<lparr>mem := (mem s)(r \<mapsto> words zs)\<rparr>" and ?f = "\<lambda>i. fadd (xs ! i) (ys ! i)"
  let ?body = "\<lambda>i s. do { x \<leftarrow> load_elem (Some p) i s; y \<leftarrow> load_elem (Some q) i s; store_elem (Some r) i (fadd x y) s }"
  have step: "?body i (?put zs') = Some (?put (zs'[i := ?f i]))" if "i < unat n" "i < length ys" "length zs' = length zs" for i zs'
    using that assms by (simp add: load_elem_words [of _ p xs] load_elem_words [of _ q ys] store_elem_words [of _ r])
  have run: "loop ?body [0..<k] (?put zs) = Some (?put (map ?f [0..<k] @ drop k zs))" if "k \<le> unat n" "k \<le> length ys" for k
    by (rule loop_fill [where put = ?put and m = "length zs"]) (use that assms(7) step in simp_all)
  have s: "?put zs = s" using assms(3) by (simp add: fun_upd_idem)
  show ?thesis
  proof (cases "unat n \<le> length ys")
    case True
    then have "map ?f [0..<unat n] = map2 fadd (take (unat n) xs) (take (unat n) ys)" using assms(6) by (simp add: list_eq_iff_nth_eq)
    then show ?thesis using run [of "unat n"] True s assms(8) by (simp add: v_vectoradd_def)
  next
    case False
    let ?k = "length ys"
    have "[0..<unat n] = [0..<?k] @ ?k # [Suc ?k..<unat n]" using False upt_add_eq_append [of 0 ?k "unat n - ?k"] by (simp add: upt_conv_Cons)
    moreover have "load_elem (Some p) ?k (?put zs') = Some (xs ! ?k)" "load_elem (Some q) ?k (?put zs') = None" for zs'
      using assms False load_elem_words [of "?put zs'" p xs ?k] load_elem_words [of "?put zs'" q ys ?k] by simp_all
    ultimately have "loop ?body [0..<unat n] s = None" using run [of ?k] False s by (simp add: loop_append)
    then show ?thesis using False assms(8) by (simp add: v_vectoradd_def)
  qed
qed

text \<open>
  The path of a request from a generic client to the plugin and back: copying and adding arrays through \<open>vaccel_genop\<close>, the unpacking, the
  dispatch and the noop plugin's loops gives the copy and the sums in the output array, and nothing else changes. An addition whose second array is
  shorter than the first has no defined result, because the length of the second array is not looked at.
\<close>

theorem noop_arrays:
  assumes "find_op VACCEL_F_ARRAYCOPY se s = Some (noop_function VACCEL_F_ARRAYCOPY)" "find_op VACCEL_F_VECTORADD se s = Some (noop_function VACCEL_F_VECTORADD)"
    "mem s p = Some (words xs)" "mem s q = Some (words ys)" "mem s r = Some (words zs)" "distinct [p, q, r]"
    "arg_size a = of_nat (4 * length xs)" "arg_buf a = Some p" "4 * length xs < 2 ^ 32" "length xs \<le> length zs"
    "arg_buf b = Some q" "arg_buf c = Some r"
  shows "(packed loc (Arraycopy a c) s \<longrightarrow> generic_call (noop_call fadd) (Some se) loc (Arraycopy a c) s
      = Some (VACCEL_OK, s\<lparr>mem := (mem s)(r \<mapsto> words (xs @ drop (length xs) zs))\<rparr>))
    \<and> (packed loc (Vadd a b c) s \<longrightarrow> generic_call (noop_call fadd) (Some se) loc (Vadd a b c) s
      = (if length xs \<le> length ys then Some (VACCEL_OK, s\<lparr>mem := (mem s)(r \<mapsto> words (map2 fadd xs ys @ drop (length xs) zs))\<rparr>) else None))"
proof -
  have z: "unat (arg_size a) = 4 * length xs" using assms(9) by (subst assms(7), subst unat_of_nat) simp
  have n: "unat (ucast (arg_size a) div 4 :: u64) = length xs"
    using z assms(9) by (simp add: unat_div unsigned_ucast_eq take_bit_nat_eq_self)
  have f: "noop_function 16 = Some 13" "noop_function 19 = Some 14" by code_simp+
  show ?thesis
  proof (intro conjI impI)
    assume "packed loc (Arraycopy a c) s"
    then have "generic_call (noop_call fadd) (Some se) loc (Arraycopy a c) s = direct_call (noop_call fadd) (Some se) (Arraycopy a c) s"
      by (rule generic_call_direct) (simp add: valid_request_def)
    also have "\<dots> = v_arraycopy (Some p) (Some r) (ucast (arg_size a) div 4) s"
      using assms(1,8,12) f by (simp add: vaccel_fpga_arraycopy_def dispatch_def noop_call_def)
    also have "\<dots> = Some (VACCEL_OK, s\<lparr>mem := (mem s)(r \<mapsto> words (take (length xs) xs @ drop (length xs) zs))\<rparr>)"
      using v_arraycopy_words [OF assms(3,5), of "ucast (arg_size a) div 4"] assms(6,9,10) unfolding n by simp
    finally show "generic_call (noop_call fadd) (Some se) loc (Arraycopy a c) s
      = Some (VACCEL_OK, s\<lparr>mem := (mem s)(r \<mapsto> words (xs @ drop (length xs) zs))\<rparr>)" by simp
  next
    assume "packed loc (Vadd a b c) s"
    then have "generic_call (noop_call fadd) (Some se) loc (Vadd a b c) s = direct_call (noop_call fadd) (Some se) (Vadd a b c) s"
      by (rule generic_call_direct) (simp add: valid_request_def)
    also have "\<dots> = v_vectoradd fadd (Some p) (Some q) (Some r) (ucast (arg_size a) div 4) s"
      using assms(2,8,11,12) f by (simp add: vaccel_fpga_vadd_def dispatch_def noop_call_def)
    also have "\<dots> = (if length xs \<le> length ys then Some (VACCEL_OK, s\<lparr>mem := (mem s)(r \<mapsto> words (map2 fadd xs (take (length xs) ys) @ drop (length xs) zs))\<rparr>) else None)"
      using v_vectoradd_words [OF assms(3-5), of "ucast (arg_size a) div 4" fadd] assms(6,9,10) unfolding n by simp
    also have "map2 fadd xs (take (length xs) ys) = map2 fadd xs ys" by (simp add: list_eq_iff_nth_eq)
    finally show "generic_call (noop_call fadd) (Some se) loc (Vadd a b c) s
      = (if length xs \<le> length ys then Some (VACCEL_OK, s\<lparr>mem := (mem s)(r \<mapsto> words (map2 fadd xs ys @ drop (length xs) zs))\<rparr>) else None)" .
  qed
qed


definition noop_ready :: "(addr \<Rightarrow> u8 list option) \<Rightarrow> noop_state" where
  "noop_ready m = snd (the (noop_init 100 (noop_loaded m)))"

lemma noop_ready: "t < VACCEL_FUNCTIONS_NR \<Longrightarrow> find_op t 20 (noop_ready m) = Some (noop_function t)" "s_mem (noop_ready m) 20 = Some no_session"
  "\<not> vaccel_prof_enabled (noop_ready m)" "mem (noop_ready m) = m"
proof -
  obtain h R' where h: "noop_init 100 (noop_loaded m) = Some (VACCEL_OK, (noop_loaded m)\<lparr>p_links := h\<rparr>)"
    "\<And>t hnt. t < VACCEL_FUNCTIONS_NR \<Longrightarrow> r_impls no_plugins t = [] \<Longrightarrow> get_plugin_op t hnt ((noop_loaded m)\<lparr>p_links := h\<rparr>) = Some (noop_function t)"
    by (rule noop_init_ok [OF noop_loaded_ok(1,2)]) (rule that)
  then have r: "noop_ready m = (noop_loaded m)\<lparr>p_links := h\<rparr>" by (simp add: noop_ready_def)
  show "s_mem (noop_ready m) 20 = Some no_session" by (simp add: r noop_loaded_ok)
  then show "find_op t 20 (noop_ready m) = Some (noop_function t)" if "t < VACCEL_FUNCTIONS_NR"
    using h(2) [OF that] by (simp add: find_op_def r no_plugins_def)
  show "\<not> vaccel_prof_enabled (noop_ready m)" "mem (noop_ready m) = m"
    by (simp_all add: vaccel_prof_enabled_def r noop_loaded_def tensor_state.defs)
qed

theorem noop_arrays_witness:
  "\<exists>loc s a b c. generic_call (noop_call (+)) (Some 20) loc (Vadd a b c) (s :: noop_state) = Some (VACCEL_OK, s\<lparr>mem := (mem s)(3 \<mapsto> words [11, 22])\<rparr>)"
proof -
  let ?m = "[0 \<mapsto> le_bytes 4 (19 :: u32), 1 \<mapsto> words [1, 2], 2 \<mapsto> words [10, 20], 3 \<mapsto> words [0 :: u32, 0]]"
  let ?arg = "\<lambda>p. \<lparr>arg_size = 8, arg_buf = Some p\<rparr>"
  have p: "packed id (Vadd (?arg 1) (?arg 2) (?arg 3)) (noop_ready ?m)" by (simp add: packed_def noop_ready)
  have f: "find_op VACCEL_F_ARRAYCOPY 20 (noop_ready ?m) = Some (noop_function VACCEL_F_ARRAYCOPY)"
    "find_op VACCEL_F_VECTORADD 20 (noop_ready ?m) = Some (noop_function VACCEL_F_VECTORADD)" by (rule noop_ready; simp)+
  have m: "mem (noop_ready ?m) 1 = Some (words [1, 2])" "mem (noop_ready ?m) 2 = Some (words [10, 20])" "mem (noop_ready ?m) 3 = Some (words [0, 0])"
    by (simp_all add: noop_ready)
  have "generic_call (noop_call (+)) (Some 20) id (Vadd (?arg 1) (?arg 2) (?arg 3)) (noop_ready ?m)
      = Some (VACCEL_OK, (noop_ready ?m)\<lparr>mem := (mem (noop_ready ?m))(3 \<mapsto> words [11, 22])\<rparr>)"
    using noop_arrays [OF f m, of "?arg 1" "?arg 2" "?arg 3" id "(+)"] p by simp
  then show ?thesis by blast
qed

text \<open>
  An image classified by the noop plugin: without a text to write to, the function is called with five arguments although it takes
  seven; with one, the tag is stored and its 36 bytes are what must fit, whatever size the caller has given.
\<close>

theorem noop_classification:
  assumes "find_op VACCEL_IMG_CLASS se s = Some (noop_function VACCEL_IMG_CLASS)" "s_mem s se = Some x" "\<not> vaccel_prof_enabled s"
  shows "(out_text = None \<or> k = 0 \<longrightarrow> vaccel_image_classification (noop_call fadd) (Some se) img out_text out_imgname n k m s = None)
    \<and> (\<forall>t bs. out_text = Some t \<and> 0 < k \<and> mem s t = Some bs \<longrightarrow> vaccel_image_classification (noop_call fadd) (Some se) img out_text out_imgname n k m s =
        (if 36 \<le> length bs then Some (VACCEL_OK, s\<lparr>mem := (mem s)(t \<mapsto> c_string ''This is a dummy classification tag!'' @ drop 36 bs)\<rparr>) else None))"
proof -
  have f: "noop_function 2 = Some 3" by code_simp
  have start: "image_start s = Some s" "image_stop (s\<lparr>mem := m\<rparr>) = Some (s\<lparr>mem := m\<rparr>)" for m
    using assms(3) by (simp_all add: image_start_def image_stop_def vaccel_prof_region_start_def vaccel_prof_region_stop_def vaccel_prof_enabled_def)
  have l: "length (c_string ''This is a dummy classification tag!'') = 36" by (simp add: c_string_def)
  show ?thesis using assms(1,2) f start l
    by (auto simp: vaccel_image_classification_def vaccel_image_op_def noop_call_def noop_img_class_def session_of_def sprintf_def store_at_def)
qed

theorem noop_classification_witness:
  "\<exists>s. vaccel_image_classification (noop_call (+)) (Some 20) None None None 0 0 0 (s :: noop_state) = None
    \<and> (\<exists>s'. vaccel_image_classification (noop_call (+)) (Some 20) None (Some 1) None 0 1 0 s = Some (VACCEL_OK, s'))"
proof -
  let ?s = "noop_ready [1 \<mapsto> replicate 36 0]"
  have "find_op VACCEL_IMG_CLASS 20 ?s = Some (noop_function VACCEL_IMG_CLASS)" by (rule noop_ready) simp
  from noop_classification [OF this noop_ready(2,3), of None 0 "(+)" None None 0 0]
    noop_classification [OF this noop_ready(2,3), of "Some 1" 1 "(+)" None None 0 0]
  show ?thesis by (intro exI [of _ ?s]) (simp add: noop_ready)
qed
end
