(* ===== verification/Noop_Run.thy ===== *)
theory Noop_Run
  imports Noop_Module
begin

text \<open>
  What a run of a model by the noop plugin gives (\<^verbatim>\<open>src/plugins/noop/vaccel.c\<close>): outputs that are
  copies of the inputs.
\<close>

subsection \<open>Running a model\<close>

text \<open>What a tensor stands for: its type, its dimensions and its data.\<close>

definition tensor_value :: "addr \<Rightarrow> 'z noop_state_scheme \<Rightarrow> (nat \<times> u32 list \<times> u8 list) option" where
  "tensor_value a s = do {
     t \<leftarrow> ten_mem s a; d \<leftarrow> t_dims t; ds \<leftarrow> dims_mem s d; q \<leftarrow> t_data t; bs \<leftarrow> mem s q;
     defined (0 \<le> t_nr_dims t \<and> t_nr_dims t \<le> int (length ds) \<and> unat (t_size t) \<le> length bs \<and> unat (t_size t) < 2 ^ 61);
     Some (t_type t, take (nat (t_nr_dims t)) ds, take (unat (t_size t)) bs) }"

text \<open>A tensor whose blocks have addresses below \<open>n\<close>, and states that agree on these addresses.\<close>

definition tensor_below :: "addr \<Rightarrow> addr \<Rightarrow> 'z noop_state_scheme \<Rightarrow> bool" where
  "tensor_below n a s \<longleftrightarrow> a < n \<and> (\<forall>t. ten_mem s a = Some t \<longrightarrow> (\<forall>p. t_dims t = Some p \<or> t_data t = Some p \<longrightarrow> p < n))"

definition agree_below :: "addr \<Rightarrow> 'z noop_state_scheme \<Rightarrow> 'z noop_state_scheme \<Rightarrow> bool" where
  "agree_below n s s' \<longleftrightarrow> (\<forall>a<n. ten_mem s' a = ten_mem s a \<and> dims_mem s' a = dims_mem s a \<and> mem s' a = mem s a)"

lemma agree_below_trans: "agree_below n s s' \<Longrightarrow> agree_below m s' s'' \<Longrightarrow> n \<le> m \<Longrightarrow> agree_below n s s''"
  by (simp add: agree_below_def)

lemma tensor_value_agree:
  assumes "agree_below n s s'" "tensor_below n a s"
  shows "tensor_value a s' = tensor_value a s" "n \<le> m \<Longrightarrow> tensor_below m a s'"
proof -
  have t: "ten_mem s' a = ten_mem s a" using assms by (simp add: agree_below_def tensor_below_def)
  show "tensor_value a s' = tensor_value a s"
  proof (cases "ten_mem s a")
    case (Some u)
    have "t_dims u = Some p \<or> t_data u = Some p \<Longrightarrow> dims_mem s' p = dims_mem s p \<and> mem s' p = mem s p" for p
      using assms Some by (auto simp: agree_below_def tensor_below_def)
    then show ?thesis using t Some by (cases "t_dims u"; cases "t_data u") (simp_all add: tensor_value_def)
  qed (simp add: tensor_value_def t)
  show "n \<le> m \<Longrightarrow> tensor_below m a s'" using assms(2) t by (fastforce simp: tensor_below_def)
qed

text \<open>The blocks of a tensor: the structure, its dimensions and its data.\<close>

definition tensor_blocks :: "addr \<Rightarrow> 'z noop_state_scheme \<Rightarrow> addr set" where
  "tensor_blocks a s = insert a (case ten_mem s a of None \<Rightarrow> {} | Some t \<Rightarrow> set_option (t_dims t) \<union> set_option (t_data t))"

lemma tensor_blocks_below: "tensor_below n a s \<longleftrightarrow> tensor_blocks a s \<subseteq> {..<n}"
  by (cases "ten_mem s a") (auto simp: tensor_below_def tensor_blocks_def)

lemma tensor_blocks_agree: "agree_below n s s' \<Longrightarrow> tensor_below n a s \<Longrightarrow> tensor_blocks a s' = tensor_blocks a s"
  by (simp add: agree_below_def tensor_below_def tensor_blocks_def)

definition plenty :: "'z rt_state_scheme \<Rightarrow> bool" where
  "plenty s \<longleftrightarrow> (\<forall>n. alloc_ok (os s) n)"

lemma tensor_valueE:
  assumes "tensor_value a s = Some v"
  obtains t d ds q bs where "ten_mem s a = Some t" "t_dims t = Some d" "dims_mem s d = Some ds" "t_data t = Some q" "mem s q = Some bs"
    "0 \<le> t_nr_dims t" "t_nr_dims t \<le> int (length ds)" "unat (t_size t) \<le> length bs" "unat (t_size t) < 2 ^ 61"
    "v = (t_type t, take (nat (t_nr_dims t)) ds, take (unat (t_size t)) bs)"
  using assms unfolding tensor_value_def bind_eq_Some_conv defined_eq_Some by blast

text \<open>One output: a new tensor of the same value.\<close>

lemma copy_tensor_ok:
  assumes p: "plenty s" and o: "ten_arr s arr = Some qs" "i < length qs"
    and inp: "ten_arr s inp = Some ps" "i < length ps" "ps ! i = Some a" "inp \<noteq> arr"
    and v: "tensor_value a s = Some v" "tensor_below (alloc_next (os s)) a s"
  obtains s' where "copy_tensor (Some inp) (Some arr) i s = Some s'" "ten_arr s' = (ten_arr s)(arr \<mapsto> qs[i := Some (alloc_next (os s))])"
    "tensor_value (alloc_next (os s)) s' = Some v" "tensor_blocks (alloc_next (os s)) s' \<subseteq> {alloc_next (os s)..<alloc_next (os s')}"
    "agree_below (alloc_next (os s)) s s'" "alloc_next (os s) \<le> alloc_next (os s')" "plenty s'"
    "node_arr s' = node_arr s" "status_mem s' = status_mem s"
proof -
  let ?A = "alloc_next (os s)"
  obtain t d ds q bs where t: "ten_mem s a = Some t" "t_dims t = Some d" "dims_mem s d = Some ds" "t_data t = Some q" "mem s q = Some bs"
    "0 \<le> t_nr_dims t" "t_nr_dims t \<le> int (length ds)" "unat (t_size t) \<le> length bs" "unat (t_size t) < 2 ^ 61"
    and ve: "v = (t_type t, take (nat (t_nr_dims t)) ds, take (unat (t_size t)) bs)"
    by (rule tensor_valueE [OF v(1)])
  have lt: "a < ?A" "d < ?A" "q < ?A" using v(2) t by (auto simp: tensor_below_def)
  have sz: "unat (t_size t * 8) = unat (t_size t) * 8" using t(9) by (simp add: unat_word_ariths)
  have al: "alloc_ok (os s) n" for n using p by (simp add: plenty_def)
  define junk where "junk = map (stale s (Suc (Suc ?A))) [0..<unat (t_size t * 8)]"
  let ?u = "\<lparr>t_data = Some (Suc (Suc ?A)), t_size = t_size t, t_owned = stale s ?A 16 \<noteq> 0, t_nr_dims = t_nr_dims t, t_dims = Some (Suc ?A), t_type = t_type t\<rparr>"
  let ?bs = "take (unat (t_size t)) bs @ drop (unat (t_size t)) junk"
  let ?s = "s\<lparr>os := (os s)\<lparr>alloc_next := Suc (Suc (Suc ?A))\<rparr>, ten_arr := (ten_arr s)(arr \<mapsto> qs[i := Some ?A]),
     dims_mem := (dims_mem s)(Suc ?A \<mapsto> take (nat (t_nr_dims t)) ds), mem := (mem s)(Suc (Suc ?A) \<mapsto> ?bs), ten_mem := (ten_mem s)(?A \<mapsto> ?u)\<rparr>"
  have run: "copy_tensor (Some inp) (Some arr) i s = Some ?s"
    using o inp t lt al sz
    by (simp add: copy_tensor_def os_call_def malloc_def malloc_bytes_def tensor_at_def nth_ptr_def memcpy_def load_at_def store_at_def Let_def junk_def nat_le_iff)
  show thesis
    by (rule that [OF run]) (use t sz ve lt p in \<open>auto simp: tensor_value_def tensor_blocks_def agree_below_def plenty_def junk_def\<close>)
qed

text \<open>The inputs of a run: nodes, and tensors that have values.\<close>

definition run_inputs :: "addr \<Rightarrow> addr list \<Rightarrow> (addr \<Rightarrow> nat \<times> u32 list \<times> u8 list) \<Rightarrow> 'z noop_state_scheme \<Rightarrow> bool" where
  "run_inputs inp as val s \<longleftrightarrow> ten_arr s inp = Some (map Some as)
     \<and> (\<forall>a\<in>set as. tensor_value a s = Some (val a) \<and> tensor_below (alloc_next (os s)) a s)"

definition has_nodes :: "ptr \<Rightarrow> nat \<Rightarrow> 'z noop_state_scheme \<Rightarrow> bool" where
  "has_nodes nodes n s \<longleftrightarrow> (\<forall>i<n. node_at nodes i s \<noteq> None)"

text \<open>
  After some outputs have been made, with all blocks before them below \<open>lo\<close>: they have the values of the inputs, in blocks that are new and that
  no two of them share.
\<close>

definition copied :: "addr \<Rightarrow> addr \<Rightarrow> addr \<Rightarrow> addr list \<Rightarrow> (addr \<Rightarrow> nat \<times> u32 list \<times> u8 list) \<Rightarrow> ptr list \<Rightarrow> nat \<Rightarrow> 'z noop_state_scheme \<Rightarrow> bool" where
  "copied lo inp out as val qs k s \<longleftrightarrow> (\<exists>bs. length bs = k \<and> ten_arr s out = Some (map Some bs @ drop k qs)
     \<and> (\<forall>j<k. tensor_value (bs ! j) s = Some (val (as ! j)) \<and> tensor_blocks (bs ! j) s \<subseteq> {lo..<alloc_next (os s)})
     \<and> (\<forall>j<k. \<forall>i<j. tensor_blocks (bs ! i) s \<inter> tensor_blocks (bs ! j) s = {}))
     \<and> run_inputs inp as val s \<and> plenty s \<and> lo \<le> alloc_next (os s)"

lemma run_inputs_keep:
  assumes "run_inputs inp as val s" "agree_below (alloc_next (os s)) s s'" "alloc_next (os s) \<le> alloc_next (os s')" "ten_arr s' inp = ten_arr s inp"
  shows "run_inputs inp as val s'"
  using assms tensor_value_agree [OF assms(2)] by (auto simp: run_inputs_def)

lemma copied_step:
  assumes c: "copied lo inp out as val qs k s" and k: "k < length qs" "k < length as" and ne: "inp \<noteq> out"
  obtains s' where "copy_tensor (Some inp) (Some out) k s = Some s'" "copied lo inp out as val qs (Suc k) s'" "agree_below lo s s'"
    "node_arr s' = node_arr s" "status_mem s' = status_mem s"
proof -
  let ?A = "alloc_next (os s)"
  obtain bs where bs: "length bs = k" "ten_arr s out = Some (map Some bs @ drop k qs)"
    "\<And>j. j < k \<Longrightarrow> tensor_value (bs ! j) s = Some (val (as ! j)) \<and> tensor_blocks (bs ! j) s \<subseteq> {lo..<?A}"
    "\<And>i j. j < k \<Longrightarrow> i < j \<Longrightarrow> tensor_blocks (bs ! i) s \<inter> tensor_blocks (bs ! j) s = {}"
    and inp: "run_inputs inp as val s" and p: "plenty s" and lo: "lo \<le> ?A" using c unfolding copied_def by blast
  have a: "as ! k \<in> set as" "ten_arr s inp = Some (map Some as)" using k inp by (simp_all add: run_inputs_def)
  then have v: "tensor_value (as ! k) s = Some (val (as ! k))" "tensor_below ?A (as ! k) s"
    using inp by (simp_all add: run_inputs_def)
  obtain s' where s': "copy_tensor (Some inp) (Some out) k s = Some s'"
    "ten_arr s' = (ten_arr s)(out \<mapsto> (map Some bs @ drop k qs)[k := Some ?A])"
    "tensor_value ?A s' = Some (val (as ! k))" "tensor_blocks ?A s' \<subseteq> {?A..<alloc_next (os s')}"
    "agree_below ?A s s'" "?A \<le> alloc_next (os s')" "plenty s'"
    "node_arr s' = node_arr s" "status_mem s' = status_mem s"
  proof (rule copy_tensor_ok [OF p bs(2) _ a(2) _ _ ne v])
    show "k < length (map Some bs @ drop k qs)" "k < length (map Some as)" "map Some as ! k = Some (as ! k)"
      using bs(1) k by simp_all
  qed (rule that)
  let ?bs = "bs @ [?A]"
  have arr: "(map Some bs @ drop k qs)[k := Some ?A] = map Some ?bs @ drop (Suc k) qs"
    using bs(1) k(1) by (simp add: list_update_append Cons_nth_drop_Suc [symmetric])
  have old: "tensor_value (?bs ! j) s' = Some (val (as ! j))" "tensor_blocks (?bs ! j) s' = tensor_blocks (bs ! j) s"
    "tensor_blocks (bs ! j) s \<subseteq> {lo..<?A}" if "j < k" for j
  proof -
    have b: "tensor_below ?A (bs ! j) s" unfolding tensor_blocks_below using bs(3) [OF that] by auto
    have e: "?bs ! j = bs ! j" using that bs(1) by (simp add: nth_append)
    show "tensor_value (?bs ! j) s' = Some (val (as ! j))" unfolding e tensor_value_agree(1) [OF s'(5) b] using bs(3) [OF that] by blast
    show "tensor_blocks (?bs ! j) s' = tensor_blocks (bs ! j) s" unfolding e by (rule tensor_blocks_agree [OF s'(5) b])
    show "tensor_blocks (bs ! j) s \<subseteq> {lo..<?A}" using bs(3) [OF that] by blast
  qed
  have new: "?bs ! k = ?A" using bs(1) by (simp add: nth_append)
  have "tensor_value (?bs ! j) s' = Some (val (as ! j)) \<and> tensor_blocks (?bs ! j) s' \<subseteq> {lo..<alloc_next (os s')}" if "j < Suc k" for j
  proof (cases "j = k")
    case True
    then show ?thesis using new s'(3,4) lo by auto
  next
    case False
    then have "j < k" using that by simp
    then show ?thesis using old [of j] s'(6) by auto
  qed
  moreover have "tensor_blocks (?bs ! i) s' \<inter> tensor_blocks (?bs ! j) s' = {}" if "j < Suc k" "i < j" for i j
  proof (cases "j = k")
    case True
    then have "tensor_blocks (?bs ! i) s' \<subseteq> {lo..<?A}" "tensor_blocks (?bs ! j) s' \<subseteq> {?A..<alloc_next (os s')}"
      using that old [of i] new s'(4) by simp_all
    then show ?thesis by fastforce
  next
    case False
    then have "j < k" using that by simp
    then show ?thesis using that(2) old(2) [of i] old(2) [of j] bs(4) [of j i] by simp
  qed
  ultimately have "copied lo inp out as val qs (Suc k) s'"
    unfolding copied_def using bs(1) s'(2,6,7) lo ne arr run_inputs_keep [OF inp s'(5,6)] by (intro conjI exI [of _ ?bs]) auto
  moreover have "agree_below lo s s'" using s'(5) lo by (simp add: agree_below_def)
  ultimately show thesis using that s' by blast
qed

lemma copy_outputs:
  assumes "copied lo inp out as val qs 0 s" "n \<le> length qs" "n \<le> length as" "inp \<noteq> out" "has_nodes out_nodes n s"
  shows "\<exists>s'. loop (\<lambda>i s. do { _ \<leftarrow> node_at out_nodes i s; copy_tensor (Some inp) (Some out) i s }) [0..<n] s = Some s' \<and> copied lo inp out as val qs n s'
    \<and> agree_below lo s s' \<and> node_arr s' = node_arr s \<and> status_mem s' = status_mem s"
  using assms
proof (induction n)
  case 0
  then show ?case by (simp add: agree_below_def)
next
  case (Suc n)
  let ?body = "\<lambda>i s. do { _ \<leftarrow> node_at out_nodes i s; copy_tensor (Some inp) (Some out) i s }"
  have "has_nodes out_nodes n s" using Suc.prems(5) by (simp add: has_nodes_def)
  with Suc obtain s1 where s1: "loop ?body [0..<n] s = Some s1" "copied lo inp out as val qs n s1" "agree_below lo s s1" "node_arr s1 = node_arr s"
    "status_mem s1 = status_mem s" by auto
  obtain s' where s': "copy_tensor (Some inp) (Some out) n s1 = Some s'" "copied lo inp out as val qs (Suc n) s'" "agree_below lo s1 s'"
    "node_arr s' = node_arr s1" "status_mem s' = status_mem s1"
    by (rule copied_step [OF s1(2) _ _ Suc.prems(4)]) (use Suc.prems in simp_all)
  have "node_at out_nodes n s1 = node_at out_nodes n s" by (simp add: node_at_def s1(4))
  then have "node_at out_nodes n s1 \<noteq> None" using Suc.prems(5) by (simp add: has_nodes_def)
  then show ?case using s1 s' agree_below_trans [OF s1(3) s'(3)] by (auto simp: loop_append)
qed

lemma print_inputs:
  assumes "run_inputs inp as val s" "n \<le> length as" "has_nodes in_nodes n s"
  shows "loop (\<lambda>i s. do { _ \<leftarrow> node_at in_nodes i s; print_tensor (Some inp) i s }) [0..<n] s = Some s"
  using assms
proof (induction n)
  case (Suc n)
  have "tensor_value (as ! n) s = Some (val (as ! n))" using Suc.prems(1,2) by (simp add: run_inputs_def)
  then have "print_tensor (Some inp) n s = Some s"
    by (rule tensor_valueE) (use Suc.prems(1,2) in \<open>simp add: print_tensor_def tensor_at_def nth_ptr_def run_inputs_def\<close>)
  moreover have "node_at in_nodes n s \<noteq> None" "has_nodes in_nodes n s" using Suc.prems(3) by (simp_all add: has_nodes_def)
  ultimately show ?case using Suc by (auto simp: loop_append)
qed simp

lemma copy_tensor_past_inputs:
  assumes "ten_arr s inp = Some ps" "length ps \<le> i" "inp \<noteq> out"
  shows "copy_tensor (Some inp) (Some out) i s = None"
  using assms
  by (auto simp: copy_tensor_def os_call_def malloc_def tensor_at_def nth_ptr_def Let_def split: Option.bind_splits option.splits)

lemma set_status_ok:
  assumes "plenty s" "\<And>a. status = Some a \<Longrightarrow> status_mem s a \<noteq> None"
  shows "\<exists>s'. set_status status s = Some (VACCEL_OK, s') \<and> ten_arr s' = ten_arr s \<and> (\<forall>a. tensor_value a s' = tensor_value a s)
    \<and> (\<forall>a. tensor_blocks a s' = tensor_blocks a s)"
  using assms
  by (cases status) (auto simp: set_status_def plenty_def strdup_def new_str_def malloc_def os_call_def tensor_value_def tensor_blocks_def)

text \<open>
  C23. The noop plugin's function that runs a model, with run options that are a buffer or NULL, on inputs that are tensors with values and with memory enough:
  every output asked for becomes a new tensor with the type, the dimensions and the data of the input at its index. New means that the structure,
  the dimensions and the data of an output are in blocks that were not in use before and that it shares with no other output and with no input; the
  inputs keep their values. When more outputs are asked for than there are inputs, the plugin reads behind the array of inputs.
\<close>

theorem noop_run_correct:
  assumes "plenty s" "run_inputs inp as val s" "ten_arr s out = Some qs" "inp \<noteq> out"
    "has_nodes in_nodes (count ni) s" "has_nodes out_nodes (count no) s" "count ni \<le> length as" "count no \<le> length qs"
    "\<And>a. status = Some a \<Longrightarrow> status_mem s a \<noteq> None" "\<And>b. opts = Some b \<Longrightarrow> buf_mem s b \<noteq> None"
  shows "(count no \<le> length as \<longrightarrow> (\<exists>s' bs. noop_tf_session_run (Some se) (Some m) opts in_nodes (Some inp) ni out_nodes (Some out) no status s = Some (VACCEL_OK, s')
        \<and> ten_arr s' out = Some (map Some bs @ drop (count no) qs) \<and> length bs = count no
        \<and> (\<forall>j<count no. tensor_value (bs ! j) s' = tensor_value (as ! j) s \<and> tensor_blocks (bs ! j) s' \<subseteq> {alloc_next (os s)..})
        \<and> (\<forall>j<count no. \<forall>i<j. tensor_blocks (bs ! i) s' \<inter> tensor_blocks (bs ! j) s' = {})
        \<and> (\<forall>a\<in>set as. tensor_value a s' = tensor_value a s \<and> (\<forall>j<count no. tensor_blocks (bs ! j) s' \<inter> tensor_blocks a s' = {}))))
    \<and> (length as < count no \<longrightarrow> noop_tf_session_run (Some se) (Some m) opts in_nodes (Some inp) ni out_nodes (Some out) no status s = None)"
proof -
  let ?body = "\<lambda>i s. do { _ \<leftarrow> node_at out_nodes i s; copy_tensor (Some inp) (Some out) i s }"
  let ?lo = "alloc_next (os s)"
  have c: "copied ?lo inp out as val qs 0 s" using assms(1-3) by (simp add: copied_def)
  have run: "noop_tf_session_run (Some se) (Some m) opts in_nodes (Some inp) ni out_nodes (Some out) no status s
    = do { s \<leftarrow> loop ?body [0..<count no] s; set_status status s }"
    using print_inputs [OF assms(2,7,5)] assms(10) by (cases opts) (auto simp: noop_tf_session_run_def)
  show ?thesis
  proof (intro conjI impI)
    assume n: "count no \<le> length as"
    from copy_outputs [OF c assms(8) n assms(4,6)] obtain s1 where s1: "loop ?body [0..<count no] s = Some s1" "copied ?lo inp out as val qs (count no) s1"
      "agree_below ?lo s s1" "status_mem s1 = status_mem s" by blast
    obtain s2 where s2: "set_status status s1 = Some (VACCEL_OK, s2)" "ten_arr s2 = ten_arr s1" "\<And>a. tensor_value a s2 = tensor_value a s1"
      "\<And>a. tensor_blocks a s2 = tensor_blocks a s1"
      using set_status_ok [of s1 status] s1(2,4) assms(9) by (auto simp: copied_def)
    obtain bs where bs: "length bs = count no" "ten_arr s1 out = Some (map Some bs @ drop (count no) qs)"
      "\<And>j. j < count no \<Longrightarrow> tensor_value (bs ! j) s1 = Some (val (as ! j)) \<and> tensor_blocks (bs ! j) s1 \<subseteq> {?lo..<alloc_next (os s1)}"
      "\<And>i j. j < count no \<Longrightarrow> i < j \<Longrightarrow> tensor_blocks (bs ! i) s1 \<inter> tensor_blocks (bs ! j) s1 = {}"
      using s1(2) unfolding copied_def by blast
    have val: "tensor_value (as ! j) s = Some (val (as ! j))" if "j < count no" for j using assms(2) n that by (simp add: run_inputs_def)
    have ins: "tensor_value a s1 = tensor_value a s" "tensor_blocks a s1 \<subseteq> {..<?lo}" if "a \<in> set as" for a
    proof -
      have b: "tensor_below ?lo a s" using assms(2) that by (simp add: run_inputs_def)
      show "tensor_value a s1 = tensor_value a s" by (rule tensor_value_agree(1) [OF s1(3) b])
      show "tensor_blocks a s1 \<subseteq> {..<?lo}" unfolding tensor_blocks_agree [OF s1(3) b] using b by (simp add: tensor_blocks_below)
    qed
    have apart: "tensor_blocks (bs ! j) s1 \<inter> tensor_blocks a s1 = {}" if "a \<in> set as" "j < count no" for a j
      using bs(3) [OF that(2)] ins(2) [OF that(1)] by fastforce
    have new: "tensor_blocks (bs ! j) s1 \<subseteq> {?lo..}" if "j < count no" for j using bs(3) [OF that] by auto
    show "\<exists>s' bs. noop_tf_session_run (Some se) (Some m) opts in_nodes (Some inp) ni out_nodes (Some out) no status s = Some (VACCEL_OK, s')
        \<and> ten_arr s' out = Some (map Some bs @ drop (count no) qs) \<and> length bs = count no
        \<and> (\<forall>j<count no. tensor_value (bs ! j) s' = tensor_value (as ! j) s \<and> tensor_blocks (bs ! j) s' \<subseteq> {?lo..})
        \<and> (\<forall>j<count no. \<forall>i<j. tensor_blocks (bs ! i) s' \<inter> tensor_blocks (bs ! j) s' = {})
        \<and> (\<forall>a\<in>set as. tensor_value a s' = tensor_value a s \<and> (\<forall>j<count no. tensor_blocks (bs ! j) s' \<inter> tensor_blocks a s' = {}))"
      unfolding run s2(2-4) using s1(1) s2 bs val ins(1) apart new by (intro exI [of _ s2] exI [of _ bs]) simp
  next
    assume n: "length as < count no"
    let ?k = "length as"
    have "has_nodes out_nodes ?k s" using assms(6) n by (simp add: has_nodes_def)
    with copy_outputs [OF c _ _ assms(4), of ?k out_nodes] n assms(8) obtain s1 where s1: "loop ?body [0..<?k] s = Some s1" "copied ?lo inp out as val qs ?k s1" by auto
    have "ten_arr s1 inp = Some (map Some as)" using s1(2) by (simp add: copied_def run_inputs_def)
    then have "copy_tensor (Some inp) (Some out) ?k s1 = None" by (rule copy_tensor_past_inputs) (use assms(4) in simp_all)
    moreover have "[0..<count no] = [0..<?k] @ ?k # [Suc ?k..<count no]" using n upt_add_eq_append [of 0 ?k "count no - ?k"] by (simp add: upt_conv_Cons)
    ultimately have "loop ?body [0..<count no] s = None" using s1(1) by (cases "node_at out_nodes ?k s1") (simp_all add: loop_append)
    then show "noop_tf_session_run (Some se) (Some m) opts in_nodes (Some inp) ni out_nodes (Some out) no status s = None" unfolding run by simp
  qed
qed

text \<open>A tensor at 200 with the dimension 2 and two bytes, and room for two outputs.\<close>

definition run_ready :: noop_state where
  "run_ready = (noop_loaded [202 \<mapsto> [5, 6]])\<lparr>os := (os tensors_booted)\<lparr>alloc_next := 300\<rparr>,
     ten_mem := [200 \<mapsto> \<lparr>t_data = Some 202, t_size = 2, t_owned = False, t_nr_dims = 1, t_dims = Some 201, t_type = 4\<rparr>],
     dims_mem := [201 \<mapsto> [2]], ten_arr := [210 \<mapsto> [Some 200], 211 \<mapsto> [None, None]],
     node_arr := [220 \<mapsto> [\<lparr>n_name = None, n_id = 0\<rparr>, \<lparr>n_name = None, n_id = 1\<rparr>]]\<rparr>"

theorem noop_run_correct_witness:
  "(\<exists>s' b. noop_tf_session_run (Some 20) (Some 1) None (Some 220) (Some 210) 1 (Some 220) (Some 211) 1 None run_ready = Some (VACCEL_OK, s')
      \<and> ten_arr s' 211 = Some [Some b, None] \<and> tensor_value b s' = Some (4, [2], [5, 6]))
    \<and> noop_tf_session_run (Some 20) (Some 1) None (Some 220) (Some 210) 1 (Some 220) (Some 211) 2 None run_ready = None"
proof -
  have p: "plenty run_ready" using prof_booted(4) by (simp add: plenty_def run_ready_def tensors_booted)
  have v: "tensor_value 200 run_ready = Some (4, [2], [5, 6])"
    by (simp add: tensor_value_def run_ready_def noop_loaded_def tensor_state.defs)
  have inp: "run_inputs 210 [200] (\<lambda>_. (4, [2], [5, 6])) run_ready"
    using v by (simp add: run_inputs_def run_ready_def tensor_below_def)
  have out: "ten_arr run_ready 211 = Some [None, None]" by (simp add: run_ready_def)
  have nodes: "has_nodes (Some 220) n run_ready" if "n \<le> 2" for n
    using that by (auto simp: has_nodes_def node_at_def run_ready_def)
  have c: "count 1 = 1" "count 2 = 2" by (simp_all add: count_def)
  have "\<exists>s' bs. noop_tf_session_run (Some 20) (Some 1) None (Some 220) (Some 210) 1 (Some 220) (Some 211) 1 None run_ready = Some (VACCEL_OK, s')
      \<and> ten_arr s' 211 = Some (map Some bs @ [None]) \<and> length bs = 1 \<and> tensor_value (bs ! 0) s' = tensor_value 200 run_ready"
    using noop_run_correct [OF p inp out, of "Some 220" 1 "Some 220" 1 None None 20 1] nodes by (simp add: c numeral_2_eq_2) blast
  then obtain s' bs where s': "noop_tf_session_run (Some 20) (Some 1) None (Some 220) (Some 210) 1 (Some 220) (Some 211) 1 None run_ready = Some (VACCEL_OK, s')"
    "ten_arr s' 211 = Some (map Some bs @ [None])" "length bs = 1" "tensor_value (bs ! 0) s' = tensor_value 200 run_ready" by blast
  from s'(3) obtain b where "bs = [b]" by (cases bs) auto
  then have "ten_arr s' 211 = Some [Some b, None]" "tensor_value b s' = Some (4, [2], [5, 6])" using s'(2,4) v by simp_all
  moreover have "noop_tf_session_run (Some 20) (Some 1) None (Some 220) (Some 210) 1 (Some 220) (Some 211) 2 None run_ready = None"
    using noop_run_correct [OF p inp out, of "Some 220" 1 "Some 220" 2 None None 20 1] nodes by (simp add: c)
  ultimately show ?thesis using s'(1) by blast
qed
end
