(* ===== verification/Startup.thy ===== *)
theory Startup
  imports Noop_Run
begin

text \<open>
  Loading the library (\<^verbatim>\<open>src/src/vaccel.c\<close>): the runtime directory, the start of the components,
  the plugins that \<^verbatim>\<open>VACCEL_BACKENDS\<close> names, and the end of the process. The dynamic linker and
  the code of the plugins are a parameter, the record \<open>linker\<close>.
\<close>

subsection \<open>The dynamic linker\<close>

text \<open>
  \<open>dlsym\<close> gives the value of the variable that a symbol names, when the library has it;
  \<open>call_fn\<close> is a call of a function without arguments by its address.
\<close>

record 's linker =
  dlopen :: "string \<Rightarrow> ptr"
  dlsym :: "addr \<Rightarrow> string \<Rightarrow> ptr option"
  call_fn :: "addr \<Rightarrow> 's \<Rightarrow> (int \<times> 's) option"

definition dlclose :: "addr \<Rightarrow> 'z plug_state_scheme \<Rightarrow> 'z plug_state_scheme" where
  "dlclose dl s = s\<lparr>p_events := p_events s @ [Dlclose dl]\<rparr>"

definition load_backend_plugin :: "'z plug_state_scheme linker \<Rightarrow> string \<Rightarrow> 'z plug_state_scheme \<Rightarrow> (int \<times> 'z plug_state_scheme) option" where
  "load_backend_plugin ld path s = (case dlopen ld path of
       None \<Rightarrow> Some (VACCEL_ENOENT, s)
     | Some dl \<Rightarrow> (case dlsym ld dl ''vaccel_plugin'' of
         None \<Rightarrow> Some (VACCEL_ELIBBAD, dlclose dl s)
       | Some plugin \<Rightarrow> do {
           (ret, s) \<leftarrow> register_plugin plugin s;
           if ret \<noteq> VACCEL_OK then Some (ret, dlclose dl s)
           else do {
             p \<leftarrow> plugin;
             pl \<leftarrow> plugins s p;
             info \<leftarrow> pinfo pl;
             f \<leftarrow> pinit info;
             (ret, s) \<leftarrow> call_fn ld f s;
             if ret \<noteq> VACCEL_OK then Some (ret, dlclose dl s)
             else do {
               pl \<leftarrow> plugins s p;
               Some (VACCEL_OK, s\<lparr>plugins := (plugins s)(p \<mapsto> pl\<lparr>dl_handle := Some dl\<rparr>)\<rparr>) } } }))"

text \<open>What repeated calls of \<open>strtok\<close> give: the parts between delimiters that are not empty.\<close>

function strtok :: "char \<Rightarrow> string \<Rightarrow> string list" where
  "strtok d str = (let rest = dropWhile (\<lambda>c. c = d) str in
     if rest = [] then [] else takeWhile (\<lambda>c. c \<noteq> d) rest # strtok d (dropWhile (\<lambda>c. c \<noteq> d) rest))"
  by pat_completeness auto
termination
proof (relation "measure (\<lambda>(d, str). length str)")
  fix d :: char and str rest assume r: "rest = dropWhile (\<lambda>c. c = d) str" "rest \<noteq> []"
  then have "hd rest \<noteq> d" using hd_dropWhile [of "\<lambda>c. c = d" str] by simp
  then have "dropWhile (\<lambda>c. c \<noteq> d) rest = dropWhile (\<lambda>c. c \<noteq> d) (tl rest)" using r(2) by (cases rest) auto
  then have "length (dropWhile (\<lambda>c. c \<noteq> d) rest) \<le> length (tl rest)" using length_dropWhile_le [of "\<lambda>c. c \<noteq> d" "tl rest"] by simp
  also have "\<dots> < length rest" using r(2) by simp
  also have "\<dots> \<le> length str" unfolding r(1) by (rule length_dropWhile_le)
  finally show "((d, dropWhile (\<lambda>c. c \<noteq> d) rest), d, str) \<in> measure (\<lambda>(d, str). length str)" by simp
qed simp

declare strtok.simps [simp del]

fun load_each :: "'z plug_state_scheme linker \<Rightarrow> string list \<Rightarrow> 'z plug_state_scheme \<Rightarrow> (int \<times> 'z plug_state_scheme) option" where
  "load_each ld [] s = Some (VACCEL_OK, s)"
| "load_each ld (path # rest) s = do {
     (ret, s) \<leftarrow> load_backend_plugin ld path s;
     if ret \<noteq> VACCEL_OK then Some (ret, s) else load_each ld rest s }"

definition load_backend_plugins :: "'z plug_state_scheme linker \<Rightarrow> string \<Rightarrow> 'z plug_state_scheme \<Rightarrow> (int \<times> 'z plug_state_scheme) option" where
  "load_backend_plugins ld names s =
     (let (plugins_tmp, s) = os_call (strdup names) s in
      if plugins_tmp = None then Some (VACCEL_ENOMEM, s)
      else do {
        (ret, s) \<leftarrow> load_each ld (strtok (CHR '':'') names) s;
        if ret \<noteq> VACCEL_OK then Some (ret, s)
        else do { o' \<leftarrow> free_str plugins_tmp (os s); Some (VACCEL_OK, s\<lparr>os := o'\<rparr>) } })"

subsection \<open>The runtime directory\<close>

definition MAX_RUNDIR_PATH :: nat where [simp]: "MAX_RUNDIR_PATH = 1024"

definition user_rundir :: "'z rt_state_scheme \<Rightarrow> string" where
  "user_rundir s = ''/run/user/'' @ dec_digits (unat (uid (os s)))"

text \<open>The directories above the runtime directory; the result is 0 or the error.\<close>

definition make_user_rundir :: "'z rt_state_scheme \<Rightarrow> int \<times> 'z rt_state_scheme" where
  "make_user_rundir s =
     (let (found, s) = os_call (dir_exists (rundir s)) s in
      if found then (0, s)
      else let (found, s) = os_call (dir_exists ''/run/user'') s;
               (ret, s) = (if found then (0, s) else os_call (mkdir ''/run/user'') s)
           in if ret \<noteq> 0 then (VACCEL_ENOENT, s)
              else let (ret, s) = os_call (mkdir (rundir s)) s
                   in if ret \<noteq> 0 then (VACCEL_ENOENT, s) else (0, s))"

text \<open>When \<open>mkdtemp\<close> fails the buffer keeps the template.\<close>

definition create_vaccel_rundir :: "'z rt_state_scheme \<Rightarrow> int \<times> 'z rt_state_scheme" where
  "create_vaccel_rundir s =
     (let (len, dir) = snprintf MAX_RUNDIR_PATH (user_rundir s);
          s = s\<lparr>rundir := dir\<rparr>
      in if len = MAX_RUNDIR_PATH then (VACCEL_ENAMETOOLONG, s)
         else let (ret, s) = make_user_rundir s
              in if ret \<noteq> 0 then (ret, s)
                 else let (len, dir) = snprintf MAX_RUNDIR_PATH (user_rundir s @ ''/vaccel.XXXXXX'');
                          s = s\<lparr>rundir := dir\<rparr>
                      in if len = MAX_RUNDIR_PATH then (VACCEL_ENAMETOOLONG, s)
                         else case os_call (mkdtemp (rundir s)) s of
                             (None, s) \<Rightarrow> (errno (os s), s)
                           | (Some dir, s) \<Rightarrow> (VACCEL_OK, s\<lparr>rundir := dir\<rparr>))"

definition cleanup_vaccel_rundir :: "'z rt_state_scheme \<Rightarrow> int \<times> 'z rt_state_scheme" where
  "cleanup_vaccel_rundir s = (let (_, s) = os_call (cleanup_rundir (rundir s)) s in (VACCEL_OK, s))"

subsection \<open>Constructor and destructor of the library\<close>

text \<open>
  The result of the constructor is the code with which the process exits, if it does. Its first call, which sets up the log, is left out
  here: only the log reads what it sets. It is the definition \<^verbatim>\<open>vaccel_log_init\<close> of the theory \<^verbatim>\<open>Logging\<close>.
\<close>

definition vaccel_init :: "'z sess_state_scheme linker \<Rightarrow> 'z sess_state_scheme \<Rightarrow> (int option \<times> 'z sess_state_scheme) option" where
  "vaccel_init ld s =
     (let (ret, s) = create_vaccel_rundir s in
      if ret \<noteq> 0 then Some (Some ret, s)
      else let (ret, s) = sessions_bootstrap s in
           if ret \<noteq> 0 then Some (Some ret, s)
           else do {
             (ret, s) \<leftarrow> resources_bootstrap s;
             if ret \<noteq> 0 then Some (Some ret, s)
             else do {
               (_, s) \<leftarrow> plugins_bootstrap s;
               case env (os s) ''VACCEL_BACKENDS'' of
                 None \<Rightarrow> Some (None, s)
               | Some names \<Rightarrow> do { (_, s) \<leftarrow> load_backend_plugins ld names s; Some (None, s) } } })"

definition vaccel_fini :: "(destructor \<Rightarrow> ptr \<Rightarrow> 'z sess_state_scheme \<Rightarrow> 'z sess_state_scheme option)
    \<Rightarrow> 'z sess_state_scheme \<Rightarrow> 'z sess_state_scheme option" where
  "vaccel_fini call_cleanup s = do {
     (_, s) \<leftarrow> plugins_shutdown s;
     (_, s) \<leftarrow> resources_cleanup call_cleanup s;
     (_, s) \<leftarrow> sessions_cleanup s;
     let (_, s) = cleanup_vaccel_rundir s;
     Some s }"


subsection \<open>Lemmas on the runtime directory\<close>

lemma length_dec_digits: "n < 10 ^ k \<Longrightarrow> 0 < k \<Longrightarrow> length (dec_digits n) \<le> k"
proof (induction n arbitrary: k rule: dec_digits.induct)
  case (1 n)
  show ?case
  proof (cases "n < 10")
    case True
    then show ?thesis using 1(3) by (subst dec_digits.simps) simp
  next
    case False
    then obtain j where j: "k = Suc j" "0 < j" using 1(2,3) by (cases k; cases "k - 1") auto
    then have "length (dec_digits (n div 10)) \<le> j" using 1(1) [OF False, of j] 1(2) by simp
    then show ?thesis using False j by (subst dec_digits.simps) simp
  qed
qed

lemma length_user_rundir: "length (user_rundir s) \<le> 20"
proof -
  have "unat (uid (os s)) < 2 ^ 32" using unsigned_less [of "uid (os s)", where 'a = nat] by simp
  then have "length (dec_digits (unat (uid (os s)))) \<le> 10" by (intro length_dec_digits) simp_all
  then show ?thesis by (simp add: user_rundir_def)
qed

lemma dirname_append: "CHR ''/'' \<notin> set b \<Longrightarrow> dirname (p @ CHR ''/'' # b) = p"
proof -
  assume "CHR ''/'' \<notin> set b"
  then have "dropWhile (\<lambda>c. c \<noteq> CHR ''/'') (rev b @ CHR ''/'' # rev p) = dropWhile (\<lambda>c. c \<noteq> CHR ''/'') (CHR ''/'' # rev p)"
    by (intro dropWhile_append2) auto
  then show ?thesis by (simp add: dirname_def)
qed

lemma digits_no_slash: "CHR ''/'' \<notin> set (dec_digits n)"
proof (induction n rule: dec_digits.induct)
  case (1 n)
  have d: "CHR ''/'' \<noteq> char_of (48 + d)" if "d < 10" for d :: nat
  proof
    assume "CHR ''/'' = char_of (48 + d)"
    then have "of_char (CHR ''/'') = 48 + d" using of_char_digit [OF that] by simp
    then show False by simp
  qed
  show ?case
  proof (cases "n < 10")
    case True
    then show ?thesis using d by (subst dec_digits.simps) auto
  next
    case False
    then show ?thesis using 1 [OF False] d [of "n mod 10"] by (subst dec_digits.simps) auto
  qed
qed

text \<open>
  A machine on which no system call fails, with the directory of the users and, if it is there, that
  of this user; the names \<open>mkdtemp\<close> draws are names of files and not taken.
\<close>

definition calm_machine :: "'z rt_state_scheme \<Rightarrow> bool" where
  "calm_machine s \<longleftrightarrow> (\<forall>n. sys_err (os s) n = 0) \<and> node (os s) ''/run/user'' = Some Dir \<and> node (os s) (user_rundir s) \<in> {None, Some Dir}
     \<and> (\<forall>n. CHR ''/'' \<notin> set (rnd (os s) n) \<and> node (os s) (user_rundir s @ ''/vaccel.'' @ rnd (os s) n) = None)"

lemma user_rundir_cong: "uid (os s') = uid (os s) \<Longrightarrow> user_rundir s' = user_rundir s"
  by (simp add: user_rundir_def)

text \<open>What the calls leave alone: everything but the files, the last error and the count of the calls.\<close>

definition only_files :: "os_state \<Rightarrow> os_state \<Rightarrow> bool" where
  "only_files o' o'' \<longleftrightarrow> o''\<lparr>sys_next := sys_next o', errno := errno o', fs := fs o'\<rparr> = o'"

lemma only_files_set: "only_files o' (set_node p n o'') = only_files o' o''"
  by (simp add: only_files_def set_node_def)

lemma only_filesD:
  assumes "only_files o' o''"
  shows "alloc_next o'' = alloc_next o'" "alloc_ok o'' = alloc_ok o'" "strs o'' = strs o'" "maps o'' = maps o'" "sys_err o'' = sys_err o'"
    "rnd o'' = rnd o'" "env o'' = env o'" "uid o'' = uid o'" "host_next o'' = host_next o'"
  using assms by (cases o'; cases o''; simp add: only_files_def)+

lemma opendir_dir: "sys_err s (sys_next s) = 0 \<Longrightarrow> node s p = Some Dir \<Longrightarrow> opendir p s = (True, s\<lparr>sys_next := Suc (sys_next s)\<rparr>)"
  by (simp add: opendir_def sys_call_def node_def is_dir_def)

lemma opendir_none: "sys_err s (sys_next s) = 0 \<Longrightarrow> node s p = None \<Longrightarrow> p \<noteq> [] \<Longrightarrow>
  opendir p s = (False, s\<lparr>sys_next := Suc (sys_next s), errno := VACCEL_ENOENT\<rparr>)"
  by (simp add: opendir_def sys_call_def node_def)

lemma node_simps [simp]: "node (s\<lparr>sys_next := n\<rparr>) = node s" "node (s\<lparr>errno := e\<rparr>) = node s"
  by (simp_all add: node_def fun_eq_iff)

lemma make_user_rundir_ok:
  assumes m: "calm_machine s" and r: "rundir s = user_rundir s"
  obtains o' where "make_user_rundir s = (0, s\<lparr>os := o'\<rparr>)" "node o' (user_rundir s) = Some Dir"
    "\<And>p. p \<noteq> user_rundir s \<Longrightarrow> node o' p = node (os s) p" "only_files (os s) o'"
proof -
  have z: "sys_err (os s) n = 0" for n using m by (simp add: calm_machine_def)
  have u: "node (os s) ''/run/user'' = Some Dir" using m by (simp add: calm_machine_def)
  have ne: "user_rundir s \<noteq> []" "dirname (user_rundir s) = ''/run/user''"
    using dirname_append [OF digits_no_slash, of "''/run/user''"] by (simp_all add: user_rundir_def)
  show thesis
  proof (cases "node (os s) (user_rundir s)")
    case None
    let ?o = "(os s)\<lparr>errno := VACCEL_ENOENT, sys_next := Suc (Suc (sys_next (os s)))\<rparr>"
    have "mkdir (user_rundir s) ?o = (0, set_node (user_rundir s) Dir (?o\<lparr>sys_next := Suc (sys_next ?o)\<rparr>))"
      by (rule mkdir_calm) (use z None u ne in \<open>simp_all add: is_dir_def\<close>)
    then have run: "make_user_rundir s = (0, s\<lparr>os := set_node (user_rundir s) Dir (?o\<lparr>sys_next := Suc (sys_next ?o)\<rparr>)\<rparr>)"
      using z u ne None r by (simp add: make_user_rundir_def os_call_def dir_exists_def opendir_dir opendir_none)
    show thesis by (rule that [OF run]) (simp_all add: only_files_set, simp add: only_files_def)
  next
    case (Some x)
    then have "x = Dir" using m by (simp add: calm_machine_def)
    then have run: "make_user_rundir s = (0, s\<lparr>os := (os s)\<lparr>sys_next := Suc (sys_next (os s))\<rparr>\<rparr>)"
      using z Some r by (simp add: make_user_rundir_def os_call_def dir_exists_def opendir_dir)
    show thesis by (rule that [OF run]) (use Some \<open>x = Dir\<close> in \<open>simp_all add: only_files_def\<close>)
  qed
qed

lemma create_vaccel_rundir_ok:
  assumes m: "calm_machine s"
  obtains o' dir where "create_vaccel_rundir s = (VACCEL_OK, s\<lparr>rundir := dir, os := o'\<rparr>)" "node o' dir = Some Dir" "node (os s) dir = None"
    "only_files (os s) o'"
proof -
  let ?u = "user_rundir s" and ?t = "user_rundir s @ ''/vaccel.XXXXXX''"
  let ?s = "s\<lparr>rundir := ?u\<rparr>"
  have len: "length ?u \<le> 20" by (rule length_user_rundir)
  have u0: "user_rundir ?s = ?u" by (simp add: user_rundir_def)
  have c: "calm_machine ?s" using m unfolding calm_machine_def u0 by simp
  obtain o1 where o1: "make_user_rundir ?s = (0, ?s\<lparr>os := o1\<rparr>)" "node o1 ?u = Some Dir"
    "\<And>p. p \<noteq> ?u \<Longrightarrow> node o1 p = node (os s) p" "only_files (os s) o1"
  proof (rule make_user_rundir_ok [OF c, unfolded u0])
    show "rundir ?s = ?u" by simp
  qed (rule that, simp_all)
  have o1f: "sys_err o1 n = 0" "rnd o1 = rnd (os s)" "uid o1 = uid (os s)" for n using only_filesD [OF o1(4)] m by (simp_all add: calm_machine_def)
  have u1: "user_rundir (?s\<lparr>os := o1\<rparr>) = ?u" using o1f by (simp add: user_rundir_def)
  let ?dir = "?u @ ''/vaccel.'' @ rnd o1 (sys_next o1)"
  have tn: "temp_name ?t o1 = ?dir" by (simp add: temp_name_def)
  have new: "node (os s) ?dir = None" "CHR ''/'' \<notin> set (rnd o1 (sys_next o1))" using m o1f by (simp_all add: calm_machine_def)
  have "dirname ?dir = ?u" using dirname_append [of "''vaccel.'' @ rnd o1 (sys_next o1)" ?u] new(2) by simp
  then have mk: "mkdir ?dir o1 = (0, set_node ?dir Dir (o1\<lparr>sys_next := Suc (sys_next o1)\<rparr>))"
    by (intro mkdir_calm) (use o1 o1f new in \<open>simp_all add: is_dir_def\<close>)
  have run: "create_vaccel_rundir s = (VACCEL_OK, s\<lparr>rundir := ?dir, os := set_node ?dir Dir (o1\<lparr>sys_next := Suc (sys_next o1)\<rparr>)\<rparr>)"
    using len o1(1) u1 mk tn by (simp add: create_vaccel_rundir_def snprintf_def Let_def os_call_def mkdtemp_def)
  show thesis
    by (rule that [OF run]) (use new o1(4) in \<open>simp_all add: only_files_set, simp add: only_files_def\<close>)
qed

subsection \<open>Properties\<close>

text \<open>The handle of a library is no part of the registry.\<close>

lemma plug_ok_handle:
  assumes "plug_ok s R" "plugins s p = Some pl"
  shows "plug_ok (s\<lparr>plugins := (plugins s)(p \<mapsto> pl\<lparr>dl_handle := Some dl\<rparr>)\<rparr>) R"
proof -
  let ?m = "(plugins s)(p \<mapsto> pl\<lparr>dl_handle := Some dl\<rparr>)"
  have d: "dom ?m = dom (plugins s)" using assms(2) by auto
  have m: "\<exists>pl'. ?m q = Some pl' \<and> pinfo pl' = Some info" if "plugins s q = Some x" "pinfo x = Some info" for q x info
    using that assms(2) by (cases "q = p") auto
  have rel: "plug_rel (plugins s) (ops s) R" using assms(1) by (simp add: plug_ok_def)
  have "plug_rel ?m (ops s) R" unfolding plug_rel_def d
  proof (intro conjI ballI allI impI)
    show "set (r_plugins R) \<subseteq> dom (plugins s)" using rel unfolding plug_rel_def by blast
    show "\<exists>pl info. ?m q = Some pl \<and> pinfo pl = Some info \<and> check_plugin_info info = VACCEL_OK" if "q \<in> set (r_plugins R)" for q
      using plug_rel_plugin [OF rel that] m by metis
    show "\<exists>op q pl info. ops s a = Some op \<and> unat (op_type op) = t \<and> op_owner op = Some q \<and> ?m q = Some pl \<and> pinfo pl = Some info \<and> a \<in> set (r_ops R q)
        \<and> op_func op \<noteq> None"
      if "t < VACCEL_FUNCTIONS_NR" "a \<in> set (r_impls R t)" for t a
      using plug_rel_impl [OF rel that] plug_rel_func [OF rel that] m by metis
    show "\<exists>op. ops s a = Some op \<and> op_owner op = Some q \<and> unat (op_type op) < VACCEL_FUNCTIONS_NR \<and> a \<in> set (r_impls R (unat (op_type op)))"
      if "q \<in> dom (plugins s)" "a \<in> set (r_ops R q)" for q a
      using plug_rel_op [OF rel that] by metis
  qed
  then show ?thesis using assms(1) d by (simp add: plug_ok_def)
qed

lemma unbooted_cong: "p_links s' = p_links s \<Longrightarrow> plugins s' = plugins s \<Longrightarrow> ops s' = ops s \<Longrightarrow> unbooted s \<Longrightarrow> unbooted s'"
  by (simp add: unbooted_def cong: if_cong)

text \<open>
  C18. On a machine where nothing fails, the constructor of the library makes a new runtime directory and leaves every component in its
  invariant: no plugin and no resource, all 1024 session ids and all 2048 resource ids free. It then loads the plugins that
  \<^verbatim>\<open>VACCEL_BACKENDS\<close> names, if it is set, and does not look at the result.
\<close>

theorem vaccel_init_correct:
  assumes "calm_machine s" "plenty s" "unbooted s" "\<And>i. i < VACCEL_RES_MAX \<Longrightarrow> allocated (r_links s) (LiveHead i)"
    "sr_mem s = Map.empty" "reg_mem s = Map.empty"
  shows "\<exists>s'. vaccel_init ld s = (case env (os s) ''VACCEL_BACKENDS'' of None \<Rightarrow> Some (None, s')
        | Some names \<Rightarrow> map_option (\<lambda>(_, t). (None, t)) (load_backend_plugins ld names s'))
    \<and> plug_ok s' no_plugins \<and> sess_ok s' [] (\<lambda>_ _. []) \<and> plug_initialized s' \<and> r_initialized s' \<and> s_initialized s'
    \<and> free_ids (r_pool s') = map int [1..<Suc MAX_RESOURCES] \<and> free_ids (s_ids s') = map int [1..<Suc MAX_VACCEL_SESSIONS]
    \<and> node (os s') (rundir s') = Some Dir \<and> node (os s) (rundir s') = None"
proof -
  have al: "alloc_ok (os s) n" for n using assms(2) by (simp add: plenty_def)
  obtain o1 dir where 1: "create_vaccel_rundir s = (VACCEL_OK, s\<lparr>rundir := dir, os := o1\<rparr>)" "node o1 dir = Some Dir" "node (os s) dir = None"
    "only_files (os s) o1" by (rule create_vaccel_rundir_ok [OF assms(1)])
  note f1 = only_filesD [OF 1(4)]
  let ?s1 = "s\<lparr>rundir := dir, os := o1\<rparr>"
  obtain p where 2: "sessions_bootstrap ?s1 = (VACCEL_OK, ?s1\<lparr>s_ids := p, os := (os ?s1)\<lparr>alloc_next := Suc (alloc_next (os ?s1))\<rparr>,
       running := replicate MAX_VACCEL_SESSIONS None, s_initialized := True\<rparr>)"
    "pool_wf p" "pool_cap p = int MAX_VACCEL_SESSIONS" "free_ids p = map int [1..<Suc MAX_VACCEL_SESSIONS]"
    by (rule sessions_bootstrap_run [of ?s1]) (use al f1 in simp_all)
  define s2 where "s2 = ?s1\<lparr>s_ids := p, os := (os ?s1)\<lparr>alloc_next := Suc (alloc_next (os ?s1))\<rparr>,
       running := replicate MAX_VACCEL_SESSIONS None, s_initialized := True\<rparr>"
  obtain s3 where 3: "resources_bootstrap s2 = Some (VACCEL_OK, s3)" "res_ok s3 []" "r_initialized s3"
    "free_ids (r_pool s3) = map int [1..<Suc MAX_RESOURCES]"
    and r3: "\<exists>p h. s3 = s2\<lparr>r_pool := p, os := (os s2)\<lparr>alloc_next := Suc (alloc_next (os s2))\<rparr>, r_links := h, r_initialized := True\<rparr>"
    by (rule resources_bootstrap_ok [of s2]) (use al f1 assms(4) in \<open>simp_all add: s2_def\<close>)
  from r3 obtain rp h where s3: "s3 = s2\<lparr>r_pool := rp, os := (os s2)\<lparr>alloc_next := Suc (alloc_next (os s2))\<rparr>, r_links := h, r_initialized := True\<rparr>" by blast
  have "unbooted s3" by (rule unbooted_cong [OF _ _ _ assms(3)]) (simp_all add: s3 s2_def)
  then obtain k where 4: "plugins_bootstrap s3 = Some (VACCEL_OK, s3\<lparr>p_links := k, plug_initialized := True\<rparr>)"
    "plug_ok (s3\<lparr>p_links := k\<rparr>) no_plugins" by (rule plugins_bootstrap_ok)
  let ?s4 = "s3\<lparr>p_links := k, plug_initialized := True\<rparr>"
  have "plug_ok ?s4 no_plugins" using 4(2) by (simp add: plug_ok_def)
  moreover have "sess_ok ?s4 [] (\<lambda>_ _. [])"
    by (rule sess_ok_start) (use 2 3(2) assms(5,6) in \<open>simp_all add: s3 s2_def res_ok_def rundirs_ok_def\<close>)
  moreover have e: "env (os ?s4) = env (os s)" "rundir ?s4 = dir" "node (os ?s4) = node o1" "free_ids (s_ids ?s4) = free_ids p" "s_initialized ?s4"
    using f1 by (simp_all add: s3 s2_def node_def fun_eq_iff)
  moreover have "vaccel_init ld s = (case env (os ?s4) ''VACCEL_BACKENDS'' of None \<Rightarrow> Some (None, ?s4)
        | Some names \<Rightarrow> map_option (\<lambda>(_, t). (None, t)) (load_backend_plugins ld names ?s4))"
    using 1(1) 2(1) [folded s2_def] 3(1) 4(1) by (auto simp: vaccel_init_def map_option_case split: option.split Option.bind_split)
  ultimately show ?thesis using 1(2,3) 2(4) 3(3,4) by (intro exI [of _ ?s4]) simp
qed

definition at_start :: sess_state where
  "at_start = res_state.extend (plug_state.extend (zeroed\<lparr>os := calm_os\<lparr>fs := [(''/run/user'', Dir)]\<rparr>\<rparr>)
     \<lparr>r_initialized = False, r_pool = \<lparr>ids = Null, max_ids = 0, next_id = 0\<rparr>, r_links = self_linked, r_mem = Map.empty\<rparr>)
     \<lparr>s_initialized = False, s_ids = \<lparr>ids = Null, max_ids = 0, next_id = 0\<rparr>, running = [], s_links = self_linked,
       s_mem = Map.empty, sr_mem = Map.empty, reg_mem = Map.empty\<rparr>"

lemma at_start: "calm_machine at_start" "plenty at_start" "unbooted at_start" "allocated (r_links at_start) (LiveHead i)"
  "sr_mem at_start = Map.empty" "reg_mem at_start = Map.empty" "env (os at_start) = Map.empty"
proof -
  note d = at_start_def res_state.defs plug_state.defs
  have z: "is_list (p_links zeroed) e []" if "\<not> is_head e" for e
    using that by (simp add: is_list_nil zeroed_def)
  have "unbooted zeroed"
    unfolding unbooted_def family_def using no_plugins_lists z
    by (fastforce simp: zeroed_def allocated_def split: if_splits)
  then show "unbooted at_start" by (simp add: unbooted_def d cong: if_cong)
  have "uid (os at_start) = 0" by (simp add: d calm_os_def)
  moreover have "dec_digits 0 = ''0''" by code_simp
  ultimately have u: "user_rundir at_start = ''/run/user/0''" by (simp add: user_rundir_def)
  show "calm_machine at_start" unfolding calm_machine_def u by (simp add: d calm_os_def node_def)
  show "plenty at_start" "allocated (r_links at_start) (LiveHead i)" "sr_mem at_start = Map.empty" "reg_mem at_start = Map.empty"
    "env (os at_start) = Map.empty"
    by (simp_all add: d plenty_def calm_os_def self_linked_def allocated_def)
qed

theorem vaccel_init_correct_witness:
  "\<exists>s'. vaccel_init \<lparr>dlopen = \<lambda>_. None, dlsym = \<lambda>_ _. None, call_fn = \<lambda>_ _. None\<rparr> at_start = Some (None, s') \<and> sess_ok s' [] (\<lambda>_ _. [])"
  using vaccel_init_correct [OF at_start(1-6), of "\<lparr>dlopen = \<lambda>_. None, dlsym = \<lambda>_ _. None, call_fn = \<lambda>_ _. None\<rparr>"] at_start(7) by auto

text \<open>
  With a VirtIO plugin the destructor of the library has no defined result when a resource is still alive: the plugins are shut down first,
  so that the id of the resource, which came from the host, is given back to the library's own pool, where no id was ever taken, and is stored
  before the array of ids.
\<close>

theorem vaccel_fini_virtio:
  assumes "plug_ok s R" "plug_initialized s" "virtio s = Some v" "r_initialized s"
    "is_list (r_links s) (LiveHead 0) (map ResEntry (a # L))" "r_mem s a = Some r" "refcount r = 0"
    "ids (r_pool s) = Live A" "next_id (r_pool s) = 0" "0 < res_id r" "res_id r \<le> sint (max_ids (r_pool s))"
  shows "vaccel_fini call_cleanup s = None"
proof -
  obtain h where h: "plugins_shutdown s = Some (VACCEL_OK, s\<lparr>p_links := h,
      p_events := p_events s @ shut_events s (r_plugins R), virtio := None, plug_initialized := False\<rparr>)"
    by (rule plugins_shutdown_ok [OF assms(1,2)])
  let ?s = "s\<lparr>p_links := h, p_events := p_events s @ shut_events s (r_plugins R), virtio := None, plug_initialized := False\<rparr>"
  have rel: "r_pool_release (res_id r) ?s = None"
    using id_pool_release_underrun [OF assms(8) _ assms(10,11)] assms(9) by (simp add: r_pool_release_def)
  have "resource_destroy call_cleanup (Some a) ?s = None"
    using assms(4,6,7,10) rel by (simp add: resource_destroy_def get_virtio_plugin_def)
  then have body: "destroy_entry call_cleanup (ResEntry a) ?s = None" by (simp add: destroy_entry_def)
  have il: "is_list (r_links s) (LiveHead 0) ([] @ map ResEntry (a # L))" using assms(5) by simp
  have f: "r_next ?s (LiveHead 0) = Some (ResEntry a)" using is_list_first [OF assms(5)] by (simp add: r_next_def)
  obtain n where "r_next ?s (ResEntry a) = Some n" using next_of_first [OF il] by (auto simp: r_next_def)
  then have "for_each_container_safe r_next (LiveHead 0) (destroy_entry call_cleanup) ?s = None"
    using f body by (simp add: for_each_container_safe_def for_each_safe_loop.simps)
  moreover have "[0..<VACCEL_RES_MAX] = 0 # [1..<VACCEL_RES_MAX]" by (simp add: upt_conv_Cons)
  ultimately have "destroy_lists call_cleanup [0..<VACCEL_RES_MAX] ?s = None" by simp
  then have "resources_cleanup call_cleanup ?s = None" using assms(4) by (simp add: resources_cleanup_def)
  then show ?thesis using h by (simp add: vaccel_fini_def)
qed

theorem vaccel_fini_virtio_witness:
  "\<exists>s :: sess_state. get_virtio_plugin s \<noteq> None \<and> vaccel_fini (\<lambda>_ _ s. Some s) s = None"
proof -
  let ?s = "sess_base\<lparr>p_links := self_linked, plugins := Map.empty, ops := Map.empty, plug_initialized := True, virtio := Some 1,
    r_pool := \<lparr>ids = Live [0, 0], max_ids = 2, next_id = 0\<rparr>\<rparr>"
  have "family self_linked (plug_fam {} {} no_plugins)" by (rule self_linked_family) (rule no_plugins_lists)
  then have p: "plug_ok ?s no_plugins" by (simp add: plug_ok_def plug_rel_def no_plugins_def)
  have "is_list (r_links sess_base) (LiveHead 0) (map ResEntry [7])"
    by (rule family_is_list [OF res_okD(1) [OF sess_base(1)]]) simp
  then have l: "is_list (r_links ?s) (LiveHead 0) (map ResEntry (7 # []))" by simp
  have r: "r_mem ?s 7 = Some (no_resource\<lparr>res_id := 1, res_type := 3\<rparr>)" using sess_base(5) by simp
  have "vaccel_fini (\<lambda>_ _ s. Some s) ?s = None"
    by (rule vaccel_fini_virtio [OF p _ _ _ l r, of 1 "[0, 0]"]) (simp_all add: sess_base(6) no_resource_def)
  then show ?thesis by (intro exI [of _ ?s]) (simp add: get_virtio_plugin_def)
qed

text \<open>The same for a plugin that the linker finds and whose \<open>init\<close> succeeds, with the state at the end.\<close>

lemma load_backend_plugin_run:
  assumes "plug_ok s R" "plug_initialized s" "dlopen ld path = Some dl" "dlsym ld dl ''vaccel_plugin'' = Some (Some p)"
    "plugins s p = Some pl" "pinfo pl = Some info" "check_plugin_info info = VACCEL_OK" "pinit info = Some f" "\<not> is_virtio_plugin info"
    "p \<notin> set (r_plugins R)" "r_ops R p = []"
    "\<And>t. plug_ok t (reg_plugin p R) \<Longrightarrow> plugins t = plugins s \<Longrightarrow> ops t = ops s \<Longrightarrow>
      \<exists>h. call_fn ld f t = Some (VACCEL_OK, t\<lparr>p_links := h\<rparr>) \<and> plug_ok (t\<lparr>p_links := h\<rparr>) R'"
  obtains h where "load_backend_plugin ld path s = Some (VACCEL_OK, s\<lparr>p_links := h, plugins := (plugins s)(p \<mapsto> pl\<lparr>dl_handle := Some dl\<rparr>)\<rparr>)"
    "plug_ok (s\<lparr>p_links := h, plugins := (plugins s)(p \<mapsto> pl\<lparr>dl_handle := Some dl\<rparr>)\<rparr>) R'"
proof -
  obtain h where h: "register_plugin (Some p) s = Some (VACCEL_OK, s\<lparr>p_links := h\<rparr>)" "plug_ok (s\<lparr>p_links := h\<rparr>) (reg_plugin p R)"
    by (rule register_plugin_ok [OF assms(1,2,5,6,7,10,11)]) (use assms(9) in simp)
  from assms(12) [OF h(2)] obtain k where k: "call_fn ld f (s\<lparr>p_links := h\<rparr>) = Some (VACCEL_OK, s\<lparr>p_links := k\<rparr>)" "plug_ok (s\<lparr>p_links := k\<rparr>) R'"
    by auto
  have "load_backend_plugin ld path s = Some (VACCEL_OK, s\<lparr>p_links := k, plugins := (plugins s)(p \<mapsto> pl\<lparr>dl_handle := Some dl\<rparr>)\<rparr>)"
    using assms(3-6,8) h(1) k(1) by (simp add: load_backend_plugin_def)
  moreover have "plug_ok (s\<lparr>p_links := k, plugins := (plugins s)(p \<mapsto> pl\<lparr>dl_handle := Some dl\<rparr>)\<rparr>) R'"
    using plug_ok_handle [OF k(2), of p pl dl] assms(5) by simp
  ultimately show thesis by (rule that)
qed

text \<open>
  C37. Loading a plugin whose library opens, exports the plugin and is not registered yet, with an \<open>init\<close> that registers operations of the
  plugin: the plugin is registered last and, if \<open>init\<close> succeeds, knows the handle with which its library is closed at the end. If \<open>init\<close>
  fails, the error is given back and the library closed, but the plugin stays registered.
\<close>

theorem load_backend_plugin_correct:
  assumes "plug_ok s R" "plug_initialized s" "dlopen ld path = Some dl" "dlsym ld dl ''vaccel_plugin'' = Some (Some p)"
    "plugins s p = Some pl" "pinfo pl = Some info" "check_plugin_info info = VACCEL_OK" "pinit info = Some f"
    "p \<notin> set (r_plugins R)" "r_ops R p = []"
    "\<And>t. plug_ok t (reg_plugin p R) \<Longrightarrow> plugins t = plugins s \<Longrightarrow> ops t = ops s \<Longrightarrow>
      \<exists>h R'. call_fn ld f t = Some (ret, t\<lparr>p_links := h\<rparr>) \<and> plug_ok (t\<lparr>p_links := h\<rparr>) R' \<and> r_plugins R' = r_plugins R @ [p]"
  shows "\<exists>s' R'. load_backend_plugin ld path s = Some (ret, s') \<and> plug_ok s' R' \<and> r_plugins R' = r_plugins R @ [p]
    \<and> (if ret = VACCEL_OK then plugins s' p = Some (pl\<lparr>dl_handle := Some dl\<rparr>) \<and> p_events s' = p_events s
       else plugins s' p = Some pl \<and> p_events s' = p_events s @ [Dlclose dl])"
proof -
  obtain h where h: "register_plugin (Some p) s = Some (VACCEL_OK, s\<lparr>p_links := h,
      virtio := (if is_virtio_plugin info \<and> virtio s = None then Some p else virtio s)\<rparr>)"
    "plug_ok (s\<lparr>p_links := h\<rparr>) (reg_plugin p R)"
    by (rule register_plugin_ok [OF assms(1,2,5,6,7,9,10)])
  let ?t = "s\<lparr>p_links := h, virtio := (if is_virtio_plugin info \<and> virtio s = None then Some p else virtio s)\<rparr>"
  have "plug_ok ?t (reg_plugin p R)" using h(2) by (simp add: plug_ok_def)
  with assms(11) [of ?t] obtain k R' where k: "call_fn ld f ?t = Some (ret, ?t\<lparr>p_links := k\<rparr>)" "plug_ok (?t\<lparr>p_links := k\<rparr>) R'"
    "r_plugins R' = r_plugins R @ [p]" by auto
  let ?u = "?t\<lparr>p_links := k\<rparr>"
  let ?v = "if ret = VACCEL_OK then ?u\<lparr>plugins := (plugins ?u)(p \<mapsto> pl\<lparr>dl_handle := Some dl\<rparr>)\<rparr> else dlclose dl ?u"
  have run: "load_backend_plugin ld path s = Some (ret, ?v)"
    using assms(3-6,8) h(1) k(1) by (simp add: load_backend_plugin_def)
  have "plug_ok ?v R'"
  proof (cases "ret = VACCEL_OK")
    case True
    then show ?thesis using plug_ok_handle [OF k(2), of p pl dl] assms(5) by simp
  next
    case False
    then show ?thesis using k(2) by (simp add: dlclose_def)
  qed
  then show ?thesis using run k(3) assms(5) by (intro exI [of _ ?v] exI [of _ R']) (simp add: dlclose_def)
qed

text \<open>A linker that finds the noop plugin, loaded at 1, under every path.\<close>

definition noop_linker :: "noop_state linker" where
  "noop_linker = \<lparr>dlopen = \<lambda>_. Some 7, dlsym = \<lambda>_ _. Some (Some 1), call_fn = \<lambda>f t. if f = 50 then noop_init 100 t else None\<rparr>"

theorem load_backend_plugin_correct_witness:
  "\<exists>s'. load_backend_plugin noop_linker ''libvaccel-noop.so'' (noop_loaded Map.empty) = Some (VACCEL_OK, s')
    \<and> plugins s' 1 = Some \<lparr>dl_handle = Some 7, pinfo = Some (noop_info 50 51)\<rparr>"
proof -
  let ?s = "noop_loaded Map.empty"
  have c: "\<exists>h R'. call_fn noop_linker 50 t = Some (VACCEL_OK, t\<lparr>p_links := h\<rparr>) \<and> plug_ok (t\<lparr>p_links := h\<rparr>) R'
      \<and> r_plugins R' = r_plugins no_plugins @ [1]"
    if t: "plug_ok t (reg_plugin 1 no_plugins)" "plugins t = plugins ?s" "ops t = ops ?s" for t
  proof -
    have l: "module_loaded noop_types 1 1 100 t (reg_plugin 1 no_plugins)"
      by (rule module_loaded_cong [OF noop_loaded_ok(2)]) (simp_all add: t reg_plugin_def)
    obtain h R' where "noop_init 100 t = Some (VACCEL_OK, t\<lparr>p_links := h\<rparr>)" "plug_ok (t\<lparr>p_links := h\<rparr>) R'"
      "r_plugins R' = r_plugins (reg_plugin 1 no_plugins)" by (rule noop_init_ok [OF t(1) l]) (rule that)
    then show ?thesis by (auto simp: noop_linker_def reg_plugin_def)
  qed
  have i: "pinfo \<lparr>dl_handle = None, pinfo = Some (noop_info 50 51)\<rparr> = Some (noop_info 50 51)" "check_plugin_info (noop_info 50 51) = VACCEL_OK"
    "pinit (noop_info 50 51) = Some 50" "1 \<notin> set (r_plugins no_plugins)" "r_ops no_plugins 1 = []"
    by (simp_all add: noop_info_def module_info_def check_plugin_info_def no_plugins_def)
  have d: "dlopen noop_linker ''libvaccel-noop.so'' = Some 7" "dlsym noop_linker 7 ''vaccel_plugin'' = Some (Some 1)"
    by (simp_all add: noop_linker_def)
  from load_backend_plugin_correct [OF noop_loaded_ok(1,4) d noop_loaded_ok(5) i c]
  show ?thesis by auto
qed

end
