(* ===== verification/Exec_Plugin.thy ===== *)
theory Exec_Plugin
  imports Startup
begin

text \<open>
  The plugin that runs functions of shared libraries (\<^verbatim>\<open>src/plugins/exec/vaccel.c\<close>) and the library
  of the examples (\<^verbatim>\<open>src/examples/mytestlib.c\<close>). What a library holds and what its functions do is a
  parameter, the record \<open>libs\<close>; what a file loads as depends on the files.
\<close>

subsection \<open>Libraries\<close>

text \<open>
  Without a name \<open>dl_open\<close> opens the program itself. A function of a library may change the array of
  arguments it writes to, and returns it changed.
\<close>

record 's libs =
  dl_open :: "string option \<Rightarrow> os_state \<Rightarrow> ptr"
  dl_sym :: "addr \<Rightarrow> string \<Rightarrow> ptr"
  dl_run :: "addr \<Rightarrow> args \<Rightarrow> u64 \<Rightarrow> args \<Rightarrow> u64 \<Rightarrow> 's \<Rightarrow> (int \<times> args \<times> 's) option"

text \<open>
  The part that \<open>exec\<close> and \<open>exec_with_resource\<close> share; the library stays open. The second result is the array of
  arguments to write to as the caller finds it afterwards.
\<close>

definition run_symbol :: "'z ops_state_scheme libs \<Rightarrow> string option \<Rightarrow> ptr \<Rightarrow> args \<Rightarrow> u64 \<Rightarrow> args \<Rightarrow> u64
    \<Rightarrow> 'z ops_state_scheme \<Rightarrow> (int \<times> args \<times> 'z ops_state_scheme) option" where
  "run_symbol L library fn_symbol read nr_read write nr_write s = (case dl_open L library (os s) of
       None \<Rightarrow> Some (VACCEL_EINVAL, write, s)
     | Some dl \<Rightarrow> do {
         sym \<leftarrow> mem_str fn_symbol s;
         case dl_sym L dl sym of
           None \<Rightarrow> Some (VACCEL_EINVAL, write, s)
         | Some fptr \<Rightarrow> do {
             (ret, write, s) \<leftarrow> dl_run L fptr read nr_read write nr_write s;
             if ret \<noteq> 0 then Some (VACCEL_ENOEXEC, write, s) else Some (VACCEL_OK, write, s) } })"

subsection \<open>The functions of the plugin\<close>

definition exec_noop :: "ptr \<Rightarrow> 'z ops_state_scheme \<Rightarrow> (int \<times> 'z ops_state_scheme) option" where
  "exec_noop session s = do { _ \<leftarrow> session_of session s; Some (VACCEL_OK, s) }"

definition exec_exec :: "'z ops_state_scheme libs \<Rightarrow> ptr \<Rightarrow> ptr \<Rightarrow> ptr \<Rightarrow> args \<Rightarrow> u64 \<Rightarrow> args \<Rightarrow> u64
    \<Rightarrow> 'z ops_state_scheme \<Rightarrow> (int \<times> args \<times> 'z ops_state_scheme) option" where
  "exec_exec L session library fn_symbol read nr_read write nr_write s = do {
     _ \<leftarrow> session_of session s;
     name \<leftarrow> (if library = None then Some None else map_option Some (mem_str library s));
     run_symbol L name fn_symbol read nr_read write nr_write s }"

definition exec_with_resource :: "'z ops_state_scheme libs \<Rightarrow> ptr \<Rightarrow> ptr \<Rightarrow> ptr \<Rightarrow> args \<Rightarrow> u64 \<Rightarrow> args \<Rightarrow> u64
    \<Rightarrow> 'z ops_state_scheme \<Rightarrow> (int \<times> args \<times> 'z ops_state_scheme) option" where
  "exec_with_resource L session object fn_symbol read nr_read write nr_write s = do {
     _ \<leftarrow> session_of session s;
     d \<leftarrow> object;
     obj \<leftarrow> so_mem s d;
     let library = f_path (o_file obj);
     name \<leftarrow> (if library = None then Some None else map_option Some (get_str library (os s)));
     run_symbol L name fn_symbol read nr_read write nr_write s }"

subsection \<open>The module\<close>

definition exec_types :: "nat list" where
  "exec_types = [VACCEL_NO_OP, VACCEL_EXEC, VACCEL_EXEC_WITH_RESOURCE]"

definition exec_init :: "addr \<Rightarrow> 'z plug_state_scheme \<Rightarrow> (int \<times> 'z plug_state_scheme) option" where
  "exec_init base s = module_init exec_types base s"

definition exec_fini :: int where
  "exec_fini = VACCEL_OK"

text \<open>A software plugin for general purposes on the CPU.\<close>

definition exec_info :: "addr \<Rightarrow> addr \<Rightarrow> vaccel_plugin_info" where
  "exec_info init_fn fini_fn = module_info ''exec'' (0x8 OR 0x80 OR 0x1) init_fn fini_fn"

text \<open>
  The functions have the addresses from 41 on. The runtime's operations pass the arrays on by value, so a call drops the
  changed array: no code between this plugin and the program reads it.
\<close>

definition exec_function :: "nat \<Rightarrow> ptr" where
  "exec_function t = module_function exec_types 41 t"

definition exec_call :: "'z ops_state_scheme libs \<Rightarrow> addr \<Rightarrow> carg list \<Rightarrow> 'z ops_state_scheme \<Rightarrow> (int \<times> 'z ops_state_scheme) option" where
  "exec_call L f args s = (case args of
       [APtr session] \<Rightarrow> if f = 41 then exec_noop session s else None
     | [APtr session, APtr p, APtr fn_symbol, AArgs read, ASize nr_read, AArgs write, ASize nr_write] \<Rightarrow>
         if f = 42 then map_option (\<lambda>(ret, _, s). (ret, s)) (exec_exec L session p fn_symbol read nr_read write nr_write s)
         else if f = 43 then map_option (\<lambda>(ret, _, s). (ret, s)) (exec_with_resource L session p fn_symbol read nr_read write nr_write s)
         else None
     | _ \<Rightarrow> None)"

subsection \<open>The library of the examples\<close>

text \<open>The assertions come after the first use of the arguments.\<close>

definition mytestfunc :: "args \<Rightarrow> u64 \<Rightarrow> args \<Rightarrow> u64 \<Rightarrow> 'z ops_state_scheme \<Rightarrow> (int \<times> args \<times> 'z ops_state_scheme) option" where
  "mytestfunc input nr_in output nr_out s = do {
     i0 \<leftarrow> nth_arg input 0;
     a \<leftarrow> load32 (arg_buf i0) s;
     defined (1 \<le> nr_in);
     defined (1 \<le> nr_out);
     o0 \<leftarrow> nth_arg output 0;
     let line = ''I got this input: '' @ int_digits (sint a) @ [CHR 0x0A];
     s \<leftarrow> sprintf (arg_buf o0) line s;
     Some (0, map_option (\<lambda>l. l[0 := o0\<lparr>arg_size := of_nat (length line)\<rparr>]) output, s) }"

end
