(* ===== verification/Frames.thy ===== *)
theory Frames
  imports Shared_Objects
begin

text \<open>
  What the operations leave alone: the operations of sessions change the session system and the
  reference counts only (\<open>sessions_only\<close>), making and destroying objects changes the resources and the objects
  only (\<open>objects_only\<close>).
\<close>

subsection \<open>What starting and ending a session change\<close>

definition store_kept :: "'z res_state_scheme \<Rightarrow> 'z res_state_scheme \<Rightarrow> bool" where
  "store_kept s t \<longleftrightarrow> strs (os t) = strs (os s) \<and> maps (os t) = maps (os s) \<and> alloc_next (os s) \<le> alloc_next (os t)
     \<and> (\<forall>b. map_option (\<lambda>r. r\<lparr>refcount := 0\<rparr>) (r_mem t b) = map_option (\<lambda>r. r\<lparr>refcount := 0\<rparr>) (r_mem s b))"

definition sessions_only :: "'z sess_state_scheme \<Rightarrow> 'z sess_state_scheme \<Rightarrow> bool" where
  "sessions_only s t \<longleftrightarrow> t = s\<lparr>os := os t, r_mem := r_mem t, s_ids := s_ids t, running := running t, s_links := s_links t, s_mem := s_mem t,
     sr_mem := sr_mem t, reg_mem := reg_mem t\<rparr> \<and> store_kept s t"

lemma sessions_onlyE:
  assumes "sessions_only s t"
  obtains o' m p r l sm sr rg where "t = s\<lparr>os := o', r_mem := m, s_ids := p, running := r, s_links := l, s_mem := sm, sr_mem := sr, reg_mem := rg\<rparr>"
    "store_kept s t"
  using assms unfolding sessions_only_def by (blast intro: that)

lemma store_kept_refl [simp]: "store_kept s s"
  by (simp add: store_kept_def)

lemma store_kept_trans: "store_kept s t \<Longrightarrow> store_kept t u \<Longrightarrow> store_kept s u"
  by (auto simp: store_kept_def)

lemma sessions_only_refl [simp]: "sessions_only s s"
  by (simp add: sessions_only_def)

lemma sessions_only_trans [trans]:
  assumes "sessions_only s t" "sessions_only t u" shows "sessions_only s u"
proof -
  have "store_kept s u" using assms store_kept_trans unfolding sessions_only_def by blast
  moreover obtain o' m p r l sm sr rg where t: "t = s\<lparr>os := o', r_mem := m, s_ids := p, running := r, s_links := l, s_mem := sm, sr_mem := sr, reg_mem := rg\<rparr>"
    using assms(1) by (rule sessions_onlyE)
  obtain o' m p r l sm sr rg where "u = t\<lparr>os := o', r_mem := m, s_ids := p, running := r, s_links := l, s_mem := sm, sr_mem := sr, reg_mem := rg\<rparr>"
    using assms(2) by (rule sessions_onlyE)
  then have "u = s\<lparr>os := os u, r_mem := r_mem u, s_ids := s_ids u, running := running u, s_links := s_links u, s_mem := s_mem u,
     sr_mem := sr_mem u, reg_mem := reg_mem u\<rparr>" by (simp add: t)
  ultimately show ?thesis unfolding sessions_only_def by simp
qed

lemma sessions_onlyD:
  assumes "sessions_only s t"
  shows "plugins t = plugins s" "ops t = ops s" "p_links t = p_links s" "virtio t = virtio s" "s_initialized t = s_initialized s"
    "sess_state.more t = sess_state.more s" "r_links t = r_links s" "r_pool t = r_pool s" "r_initialized t = r_initialized s" "store_kept s t"
  using assms by (auto elim: sessions_onlyE)

lemma sessions_only_call:
  "sessions_only t (s_set a se t)" "sessions_only t (t\<lparr>sr_mem := x\<rparr>)" "sessions_only t (t\<lparr>reg_mem := y\<rparr>)"
  "s_do g t = Some u \<Longrightarrow> sessions_only t u" "get_sess_id t = Some (i, u) \<Longrightarrow> sessions_only t u"
  "put_sess_id i t = Some u \<Longrightarrow> sessions_only t u" "free_sr c t = Some u \<Longrightarrow> sessions_only t u" "free_reg c t = Some u \<Longrightarrow> sessions_only t u"
  "set_running i v t = Some u \<Longrightarrow> sessions_only t u" "malloc_sr t = (p, u) \<Longrightarrow> sessions_only t u" "malloc_reg t = (p, u) \<Longrightarrow> sessions_only t u"
  "resource_refcount_inc v t = Some u \<Longrightarrow> sessions_only t u" "resource_refcount_dec v t = Some u \<Longrightarrow> sessions_only t u"
  by (auto simp: sessions_only_def store_kept_def s_set_def r_set_def os_call_def s_do_def get_sess_id_def put_sess_id_def free_sr_def free_reg_def set_running_def
      malloc_sr_def malloc_reg_def malloc_def resource_refcount_inc_def resource_refcount_dec_def
      split: prod.splits Option.bind_split_asm option.split_asm if_split_asm)

lemma sessions_only_dirs:
  "os_call (mkdir p) t = (q, u) \<Longrightarrow> sessions_only t u" "os_call (cleanup_rundir p) t = (q, u) \<Longrightarrow> sessions_only t u"
proof -
  have h: "sessions_only t (t\<lparr>os := o'\<rparr>)" if "heap_of o' = heap_of (os t)" for o'
    using heap_of_strs [OF that] by (simp add: sessions_only_def store_kept_def)
  show "os_call (mkdir p) t = (q, u) \<Longrightarrow> sessions_only t u"
    using h [of "snd (mkdir p (os t))"] heap_of_mkdir [of p "os t"] by (auto simp: os_call_def split: prod.split_asm)
  show "os_call (cleanup_rundir p) t = (q, u) \<Longrightarrow> sessions_only t u"
    using h [of "snd (cleanup_rundir p (os t))"] cleanup_rundir_heap [of p "os t"] by (auto simp: os_call_def split: prod.split_asm)
qed

lemma sessions_only_steps:
  "sessions_only s t \<Longrightarrow> sessions_only s (s_set a se t)" "sessions_only s t \<Longrightarrow> sessions_only s (t\<lparr>sr_mem := x\<rparr>)"
  "sessions_only s t \<Longrightarrow> sessions_only s (t\<lparr>reg_mem := y\<rparr>)"
  "os_call (mkdir d) t = (q, u) \<Longrightarrow> sessions_only s t \<Longrightarrow> sessions_only s u" "os_call (cleanup_rundir d) t = (q, u) \<Longrightarrow> sessions_only s t \<Longrightarrow> sessions_only s u"
  "s_do g t = Some u \<Longrightarrow> sessions_only s t \<Longrightarrow> sessions_only s u"
  "get_sess_id t = Some (i, u) \<Longrightarrow> sessions_only s t \<Longrightarrow> sessions_only s u" "put_sess_id i t = Some u \<Longrightarrow> sessions_only s t \<Longrightarrow> sessions_only s u"
  "free_sr c t = Some u \<Longrightarrow> sessions_only s t \<Longrightarrow> sessions_only s u" "free_reg c t = Some u \<Longrightarrow> sessions_only s t \<Longrightarrow> sessions_only s u"
  "set_running i v t = Some u \<Longrightarrow> sessions_only s t \<Longrightarrow> sessions_only s u" "malloc_sr t = (p, u) \<Longrightarrow> sessions_only s t \<Longrightarrow> sessions_only s u"
  "malloc_reg t = (p, u) \<Longrightarrow> sessions_only s t \<Longrightarrow> sessions_only s u"
  "resource_refcount_inc v t = Some u \<Longrightarrow> sessions_only s t \<Longrightarrow> sessions_only s u" "resource_refcount_dec v t = Some u \<Longrightarrow> sessions_only s t \<Longrightarrow> sessions_only s u"
  by (blast intro: sessions_only_trans sessions_only_call sessions_only_dirs)+

lemma sessions_only_initialize:
  assumes "initialize_session_resources (Some a) s = Some (ret, t)"
  shows "sessions_only s t"
  using assms
  by (auto simp: initialize_session_resources_def Let_def elim!: bind_SomeE split: prod.split_asm option.split_asm if_split_asm)
    ((rule sessions_only_refl sessions_only_steps(1-3) | erule sessions_only_steps(4-))+)

lemma sessions_only_init:
  assumes "vaccel_sess_init (Some a) flags s = Some (ret, t)" "virtio s = None"
  shows "sessions_only s t"
  using assms
  by (auto simp: vaccel_sess_init_def get_virtio_plugin_def Let_def elim!: bind_SomeE dest!: sessions_only_initialize split: prod.split_asm option.split_asm if_split_asm)
    ((rule sessions_only_refl sessions_only_steps(1-3) | erule sessions_only_steps(4-) sessions_only_trans [rotated])+)

lemma sessions_only_register:
  assumes "vaccel_sess_register (Some a) res s = Some (ret, t)" "virtio s = None"
  shows "sessions_only s t"
proof -
  have v: "virtio u = None" if "malloc_reg s = (p, u)" for p u using sessions_onlyD(4) [OF sessions_only_call(11) [OF that]] assms(2) by simp
  show ?thesis
    using assms
    by (auto simp: vaccel_sess_register_def get_virtio_plugin_def v Let_def elim!: bind_SomeE split: prod.split_asm option.split_asm if_split_asm)
      ((rule sessions_only_refl sessions_only_steps(1-3) | erule sessions_only_steps(4-))+)
qed

lemma sessions_only_unregister:
  assumes "vaccel_sess_unregister (Some a) res s = Some (ret, t)" "virtio s = None"
  shows "sessions_only s t"
  using assms
  by (auto simp: vaccel_sess_unregister_def get_virtio_plugin_def Let_def elim!: bind_SomeE split: prod.split_asm option.split_asm if_split_asm)
    ((rule sessions_only_refl sessions_only_steps(1-3) | erule sessions_only_steps(4-))+)

text \<open>A loop keeps what its body keeps.\<close>

lemma for_each_safe_loop_keeps:
  assumes "\<And>e s r t. Q s \<Longrightarrow> body e s = Some (r, t) \<Longrightarrow> rel s t \<and> Q t" "\<And>s. rel s s" "\<And>s t u. rel s t \<Longrightarrow> rel t u \<Longrightarrow> rel s u"
    "for_each_safe_loop rd l body iter tmp s = Some (r, t)" "Q s"
  shows "rel s t \<and> Q t"
proof -
  have "(\<forall>e s r t. Q s \<longrightarrow> body e s = Some (r, t) \<longrightarrow> rel s t \<and> Q t) \<longrightarrow> Q s \<longrightarrow> rel s (snd x) \<and> Q (snd x)"
    if "for_each_safe_loop rd l body iter tmp s = Some x" for x
    using that
  proof (rule for_each_safe_loop.raw_induct [rotated], intro impI)
    fix f rd l body iter tmp s y
    assume IH: "\<And>rd l body iter tmp s y. f rd l body iter tmp s = Some y \<Longrightarrow>
        (\<forall>e s r t. Q s \<longrightarrow> body e s = Some (r, t) \<longrightarrow> rel s t \<and> Q t) \<longrightarrow> Q s \<longrightarrow> rel s (snd y) \<and> Q (snd y)"
      and run: "(if iter = l then Some (None, s) else Option.bind (body iter s) (\<lambda>(r, s'). case r of Some x \<Rightarrow> Some (Some x, s')
          | None \<Rightarrow> Option.bind (rd s' tmp) (\<lambda>tmp'. f rd l body tmp tmp' s'))) = Some y"
      and keeps: "\<forall>e s r t. Q s \<longrightarrow> body e s = Some (r, t) \<longrightarrow> rel s t \<and> Q t" and Q: "Q s"
    show "rel s (snd y) \<and> Q (snd y)"
    proof (cases "iter = l")
      case True
      then show ?thesis using run Q assms(2) by auto
    next
      case False
      then obtain r u where u: "body iter s = Some (r, u)" "rel s u" "Q u" using run keeps Q by (auto elim!: bind_SomeE)
      show ?thesis
      proof (cases r)
        case None
        then obtain tmp' where "f rd l body tmp tmp' u = Some y" using run u(1) False by (auto elim!: bind_SomeE)
        then show ?thesis using IH [of rd l body tmp tmp' u y] keeps u(2,3) assms(3) by blast
      next
        case (Some x)
        then show ?thesis using run u False by auto
      qed
    qed
  qed
  from this [OF assms(4)] show ?thesis using assms(1,5) by auto
qed

lemma sessions_only_entry:
  assumes "unregister_entry (Some a) e s = Some (r, t)" "virtio s = None"
  shows "sessions_only s t \<and> virtio t = None"
proof -
  obtain c q ret where "vaccel_sess_unregister (Some a) q s = Some (ret, t)"
    using assms(1) by (cases e) (auto simp: unregister_entry_def elim!: bind_SomeE)
  then show ?thesis using sessions_only_unregister assms(2) sessions_onlyD(4) by metis
qed

lemma sessions_only_lists:
  "unregister_lists (Some a) r ts s = Some t \<Longrightarrow> virtio s = None \<Longrightarrow> sessions_only s t"
proof (induction ts arbitrary: s)
  case (Cons i ts)
  then obtain x u where "for_each_container_safe s_next (RegHead r i) (unregister_entry (Some a)) s = Some (x, u)" "unregister_lists (Some a) r ts u = Some t"
    by (auto elim!: bind_SomeE)
  moreover from this(1) obtain iter tmp where "for_each_safe_loop s_next (RegHead r i) (unregister_entry (Some a)) iter tmp s = Some (x, u)"
    by (auto simp: for_each_container_safe_def elim!: bind_SomeE)
  then have "sessions_only s u \<and> virtio u = None"
    by (rule for_each_safe_loop_keeps [rotated 3, where Q = "\<lambda>s. virtio s = None"]) (auto simp: Cons.prems(2) dest: sessions_only_entry intro: sessions_only_trans)
  ultimately show ?case using Cons.IH sessions_only_trans by blast
qed simp

lemma sessions_only_cleanup:
  assumes "cleanup_session_resources (Some a) s = Some (ret, t)" "virtio s = None"
  shows "sessions_only s t"
  using assms
  by (auto simp: cleanup_session_resources_def Let_def elim!: bind_SomeE dest!: sessions_only_lists split: prod.split_asm option.split_asm)
    ((rule sessions_only_refl sessions_only_steps(1-3) | erule sessions_only_steps(4-) | assumption)+)

lemma sessions_only_free:
  assumes "vaccel_sess_free (Some a) s = Some (ret, t)" "virtio s = None"
  shows "sessions_only s t"
proof (cases "s_initialized s")
  case True
  then obtain i u r v j where "put_sess_id i s = Some u" "cleanup_session_resources (Some a) u = Some (r, v)" "set_running j None v = Some t"
    using assms by (auto simp: vaccel_sess_free_def get_virtio_plugin_def elim!: bind_SomeE)
  moreover from this(1) have "sessions_only s u" by (rule sessions_only_call)
  moreover from this have "virtio u = None" using assms(2) sessions_onlyD(4) by metis
  ultimately show ?thesis using sessions_only_cleanup sessions_only_call(9) sessions_only_trans by metis
next
  case False
  then show ?thesis using assms(1) by (simp add: vaccel_sess_free_def)
qed

subsection \<open>What creating an object changes\<close>

definition objects_only :: "'z obj_state_scheme \<Rightarrow> 'z obj_state_scheme \<Rightarrow> bool" where
  "objects_only s s' \<longleftrightarrow> s' = s\<lparr>r_pool := r_pool s', r_links := r_links s', r_mem := r_mem s', os := os s', so_mem := so_mem s', tfm_mem := tfm_mem s',
     tsm_mem := tsm_mem s'\<rparr>"

lemma objects_onlyE:
  assumes "objects_only s s'"
  obtains p h m o' x y z where "s' = s\<lparr>r_pool := p, r_links := h, r_mem := m, os := o', so_mem := x, tfm_mem := y, tsm_mem := z\<rparr>"
  using assms unfolding objects_only_def by (rule that)

lemma objects_only_trans [trans]: "objects_only s s' \<Longrightarrow> objects_only s' s'' \<Longrightarrow> objects_only s s''"
  by (elim objects_onlyE) (simp add: objects_only_def)

lemma objects_onlyD:
  assumes "objects_only s s'"
  shows "plugins s' = plugins s" "ops s' = ops s" "p_links s' = p_links s" "virtio s' = virtio s" "r_initialized s' = r_initialized s"
    "s_mem s' = s_mem s" "obj_state.more s' = obj_state.more s"
  using assms by (auto elim: objects_onlyE)

lemma objects_only_set: "objects_only s s" "objects_only s (r_set a r s)" "objects_only s (s\<lparr>os := o'\<rparr>)" "objects_only s (set_obj k a x s)"
  by (simp_all add: objects_only_def r_set_def set_obj_def split: kind.split)

lemma objects_only_calls:
  "os_call f s = (r, s') \<Longrightarrow> objects_only s s'" "r_do g s = Some s' \<Longrightarrow> objects_only s s'" "r_pool_get s = Some (i, s') \<Longrightarrow> objects_only s s'"
  "r_pool_release i s = Some s' \<Longrightarrow> objects_only s s'" "destroy_file x s = Some s' \<Longrightarrow> objects_only s s'" "free_res c s = Some s' \<Longrightarrow> objects_only s s'"
  "free_rundir d s = Some s' \<Longrightarrow> objects_only s s'" "remove_variables d s = Some (n, s') \<Longrightarrow> objects_only s s'"
  by (auto simp: objects_only_def os_call_def r_do_def r_pool_get_def r_pool_release_def destroy_file_def os_do_def free_res_def free_rundir_def remove_variables_def Let_def
      split: prod.splits Option.bind_splits option.splits if_splits)

lemma objects_only_steps:
  "objects_only s t \<Longrightarrow> objects_only s (r_set a r t)" "os_call f t = (q, u) \<Longrightarrow> objects_only s t \<Longrightarrow> objects_only s u"
  "r_do g t = Some u \<Longrightarrow> objects_only s t \<Longrightarrow> objects_only s u" "r_pool_get t = Some (i, u) \<Longrightarrow> objects_only s t \<Longrightarrow> objects_only s u"
  "r_pool_release i t = Some u \<Longrightarrow> objects_only s t \<Longrightarrow> objects_only s u" "destroy_file x t = Some u \<Longrightarrow> objects_only s t \<Longrightarrow> objects_only s u"
  "free_res c t = Some u \<Longrightarrow> objects_only s t \<Longrightarrow> objects_only s u" "free_rundir d t = Some u \<Longrightarrow> objects_only s t \<Longrightarrow> objects_only s u"
  "remove_variables d t = Some (n, u) \<Longrightarrow> objects_only s t \<Longrightarrow> objects_only s u"
  by (blast intro: objects_only_trans objects_only_set objects_only_calls)+

lemma objects_only_destructor:
  assumes "call_destructor d data s = Some t"
  shows "objects_only s t"
  using assms
  by (cases d)
    (auto simp: call_destructor_def shared_object_destructor_def tf_model_destructor_def tf_saved_model_destructor_def torch_model_destructor_def
      elim!: bind_SomeE split: option.split_asm, ((rule objects_only_set(1) | erule objects_only_steps(2-))+))

lemma objects_only_destroy:
  assumes "resource_destroy call_destructor (Some a) s = Some (ret, t)" "virtio s = None"
  shows "objects_only s t"
proof -
  have step: "call_destructor d data u = Some w \<Longrightarrow> objects_only s u \<Longrightarrow> objects_only s w" for d data u w
    by (rule objects_only_trans [OF _ objects_only_destructor])
  show ?thesis
    using assms
    by (auto simp: resource_destroy_def get_virtio_plugin_def elim!: bind_SomeE split: option.split_asm if_split_asm)
      ((rule objects_only_set(1) | erule step objects_only_steps(2-))+)
qed

lemma objects_only_malloc:
  assumes "malloc_res s = (p, s')"
  shows "objects_only s s'"
proof -
  obtain q t where t: "os_call malloc s = (q, t)" by fastforce
  then have "objects_only t s'" using assms by (cases q) (auto simp: malloc_res_def objects_only_def)
  then show ?thesis by (rule objects_only_trans [OF objects_only_calls(1) [OF t]])
qed

lemma objects_only_file:
  assumes "obj_file_op k a f s = Some (r, s')"
  shows "objects_only s s'"
proof -
  from assms obtain x o' where "s' = set_obj k a x (s\<lparr>os := o'\<rparr>)" by (auto simp: obj_file_op_def split: Option.bind_splits)
  then show ?thesis using objects_only_trans [OF objects_only_set(3,4)] by simp
qed

lemma objects_only_new:
  assumes "resource_new (Some a) ty data cleanup s = Some (ret, s')" "virtio s = None"
  shows "objects_only s s'"
  using assms
  by (auto simp: resource_new_def get_virtio_plugin_def Let_def elim!: bind_SomeE split: if_split_asm)
    ((rule objects_only_set(1) objects_only_steps(1) | erule objects_only_steps(2-))+)

lemma objects_only_rundir:
  assumes "resource_create_rundir (Some a) s = Some (r, s')"
  shows "objects_only s s'"
  using assms
  by (auto simp: resource_create_rundir_def Let_def split: Option.bind_splits if_splits prod.splits)
    (blast intro: objects_only_set(1) objects_only_steps)+

text \<open>The operations on objects; the intermediate states have no VirtIO plugin either.\<close>

definition objects_here :: "'z obj_state_scheme \<Rightarrow> 'z obj_state_scheme \<Rightarrow> bool" where
  "objects_here s t \<longleftrightarrow> objects_only s t \<and> virtio t = None"

lemma objects_here_refl: "virtio s = None \<Longrightarrow> objects_here s s"
  by (simp add: objects_here_def objects_only_set(1))

lemma objects_here_steps:
  "objects_here s t \<Longrightarrow> objects_here s (set_obj k a x t)" "malloc_res t = (p, u) \<Longrightarrow> objects_here s t \<Longrightarrow> objects_here s u"
  "obj_file_op k a f t = Some (r, u) \<Longrightarrow> objects_here s t \<Longrightarrow> objects_here s u" "free_res c t = Some u \<Longrightarrow> objects_here s t \<Longrightarrow> objects_here s u"
  "destroy_file x' t = Some u \<Longrightarrow> objects_here s t \<Longrightarrow> objects_here s u"
  "resource_new (Some b) ty data cleanup t = Some (ret, u) \<Longrightarrow> objects_here s t \<Longrightarrow> objects_here s u"
  "resource_create_rundir (Some b) t = Some (ret, u) \<Longrightarrow> objects_here s t \<Longrightarrow> objects_here s u"
  "resource_destroy call_destructor (Some b) t = Some (ret, u) \<Longrightarrow> objects_here s t \<Longrightarrow> objects_here s u"
proof -
  have go: "objects_here s t \<Longrightarrow> objects_only t u \<Longrightarrow> objects_here s u" for u
    using objects_only_trans objects_onlyD(4) unfolding objects_here_def by metis
  show "objects_here s t \<Longrightarrow> objects_here s (set_obj k a x t)" by (rule go [OF _ objects_only_set(4)])
  show "malloc_res t = (p, u) \<Longrightarrow> objects_here s t \<Longrightarrow> objects_here s u" by (rule go [OF _ objects_only_malloc])
  show "obj_file_op k a f t = Some (r, u) \<Longrightarrow> objects_here s t \<Longrightarrow> objects_here s u" by (rule go [OF _ objects_only_file])
  show "free_res c t = Some u \<Longrightarrow> objects_here s t \<Longrightarrow> objects_here s u" by (rule go [OF _ objects_only_calls(6)])
  show "destroy_file x' t = Some u \<Longrightarrow> objects_here s t \<Longrightarrow> objects_here s u" by (rule go [OF _ objects_only_calls(5)])
  show "resource_create_rundir (Some b) t = Some (ret, u) \<Longrightarrow> objects_here s t \<Longrightarrow> objects_here s u" by (rule go [OF _ objects_only_rundir])
  show "resource_new (Some b) ty data cleanup t = Some (ret, u) \<Longrightarrow> objects_here s t \<Longrightarrow> objects_here s u"
    using go objects_only_new unfolding objects_here_def by blast
  show "resource_destroy call_destructor (Some b) t = Some (ret, u) \<Longrightarrow> objects_here s t \<Longrightarrow> objects_here s u"
    using go objects_only_destroy unfolding objects_here_def by blast
qed

lemma objects_only_create:
  assumes "object_new_from_buffer k (Some a) buff n s = Some (ret, s')" "virtio s = None"
  shows "objects_only s s'"
proof -
  have "objects_here s s'"
    using assms
    by (auto simp: object_new_from_buffer_def undo_object_def Let_def elim!: bind_SomeE split: prod.split_asm option.split_asm if_split_asm)
      ((rule objects_here_steps(1) | assumption | erule objects_here_refl | erule objects_here_steps(2-))+)
  then show ?thesis by (simp add: objects_here_def)
qed

lemma objects_only_path:
  assumes "object_new k (Some a) path s = Some (ret, s')" "virtio s = None"
  shows "objects_only s s'"
proof -
  have "objects_here s s'"
    using assms
    by (auto simp: object_new_def Let_def elim!: bind_SomeE split: prod.split_asm option.split_asm if_split_asm)
      ((rule objects_here_steps(1) | assumption | erule objects_here_refl | erule objects_here_steps(2-))+)
  then show ?thesis by (simp add: objects_here_def)
qed

lemma objects_only_end:
  assumes "object_destroy k (Some a) s = Some (ret, s')" "virtio s = None"
  shows "objects_only s s'"
proof -
  have "objects_here s s'"
    using assms
    by (auto simp: object_destroy_def elim!: bind_SomeE) ((rule objects_here_steps(1) | assumption | erule objects_here_refl | erule objects_here_steps(2-))+)
  then show ?thesis by (simp add: objects_here_def)
qed

end
