(* ===== verification/Exec_Module.thy ===== *)
theory Exec_Module
  imports Exec_Plugin Frames
begin

text \<open>
  The exec plugin in the registry, alone and behind the noop plugin, and the path of a shared object
  from a buffer to the function that runs (\<^verbatim>\<open>src/plugins/exec/vaccel.c\<close> with
  \<^verbatim>\<open>src/src/resources/shared_object.c\<close>, \<^verbatim>\<open>src/src/ops/exec.c\<close> and \<^verbatim>\<open>src/src/vaccel.c\<close>).
\<close>

subsection \<open>The module\<close>

lemma length_exec_types [simp]: "length exec_types = 3"
  by (simp add: exec_types_def)

interpretation exec: plugin_module exec_types
  by unfold_locales (auto simp: exec_types_def)

lemmas exec_init_ok = exec.init_ok [where fn = 41, folded exec_init_def exec_function_def]

subsection \<open>Two plugins\<close>

lemma strtok_pair:
  assumes "x \<noteq> []" "y \<noteq> []" "d \<notin> set x" "d \<notin> set y"
  shows "strtok d (x @ d # y) = [x, y]"
proof -
  have dropped: "dropWhile (\<lambda>c. c = d) (z @ w) = z @ w" if "z \<noteq> []" "d \<notin> set z" for z w using that by (cases z) auto
  have kept: "takeWhile (\<lambda>c. c \<noteq> d) z = z" "dropWhile (\<lambda>c. c \<noteq> d) z = []" if "d \<notin> set z" for z using that by (auto simp: takeWhile_eq_all_conv)
  have last: "strtok d (d # y) = [y]"
    using dropped [OF assms(2,4), of "[]"] assms(2) by (subst strtok.simps) (simp add: kept [OF assms(4)] strtok.simps [of d "[]"])
  have "takeWhile (\<lambda>c. c \<noteq> d) (x @ d # y) = x" "dropWhile (\<lambda>c. c \<noteq> d) (x @ d # y) = d # y"
    using assms(3) by (auto simp: takeWhile_append dropWhile_append)
  then show ?thesis using dropped [OF assms(1,3), of "d # y"] assms(1) last by (subst strtok.simps) simp
qed

text \<open>
  A noop plugin at \<open>p\<close> with its table at \<open>a\<close> and an exec plugin at \<open>q\<close> with its table at \<open>b\<close>, both in memory
  and not registered, and a linker that finds them.
\<close>

definition backends_loaded :: "'z plug_state_scheme linker \<Rightarrow> string \<Rightarrow> string \<Rightarrow> addr \<Rightarrow> addr \<Rightarrow> addr \<Rightarrow> addr \<Rightarrow> 'z plug_state_scheme \<Rightarrow> bool" where
  "backends_loaded ld x y p a q b s \<longleftrightarrow> p \<noteq> q \<and> {a..<a + 20} \<inter> {b..<b + 3} = {}
     \<and> (\<exists>f f' h. plugins s p = Some \<lparr>dl_handle = h, pinfo = Some (noop_info f f')\<rparr> \<and> (\<forall>t. call_fn ld f t = noop_init a t))
     \<and> (\<exists>g g' h. plugins s q = Some \<lparr>dl_handle = h, pinfo = Some (exec_info g g')\<rparr> \<and> (\<forall>t. call_fn ld g t = exec_init b t))
     \<and> (\<forall>i<20. ops s (a + i) = Some (module_op noop_types 1 p i)) \<and> (\<forall>i<3. ops s (b + i) = Some (module_op exec_types 41 q i))
     \<and> (\<exists>d. dlopen ld x = Some d \<and> dlsym ld d ''vaccel_plugin'' = Some (Some p))
     \<and> (\<exists>d. dlopen ld y = Some d \<and> dlsym ld d ''vaccel_plugin'' = Some (Some q))"

lemma plain_infos:
  "check_plugin_info (noop_info f g) = VACCEL_OK" "\<not> is_virtio_plugin (noop_info f g)" "pinit (noop_info f g) = Some f"
  "check_plugin_info (exec_info f g) = VACCEL_OK" "\<not> is_virtio_plugin (exec_info f g)" "pinit (exec_info f g) = Some f"
  by (simp_all add: noop_info_def exec_info_def module_info_def check_plugin_info_def is_virtio_plugin_def)

text \<open>The registry after the first and after the second plugin.\<close>

definition noop_only :: "addr \<Rightarrow> addr \<Rightarrow> registry" where
  "noop_only p a = \<lparr>r_plugins = [p], r_impls = module_impls noop_types a, r_ops = (\<lambda>_. [])(p := map ((+) a) [0..<20])\<rparr>"

definition noop_exec :: "addr \<Rightarrow> addr \<Rightarrow> addr \<Rightarrow> addr \<Rightarrow> registry" where
  "noop_exec p a q b = \<lparr>r_plugins = [p, q], r_impls = \<lambda>t. module_impls noop_types a t @ module_impls exec_types b t,
     r_ops = (r_ops (noop_only p a))(q := map ((+) b) [0..<3])\<rparr>"

lemma noop_registers:
  assumes "plug_ok t (reg_plugin p no_plugins)" "plugins t p = Some \<lparr>dl_handle = h, pinfo = Some info\<rparr>"
    "\<And>i. i < 20 \<Longrightarrow> ops t (a + i) = Some (module_op noop_types 1 p i)"
  shows "\<exists>h. noop_init a t = Some (VACCEL_OK, t\<lparr>p_links := h\<rparr>) \<and> plug_ok (t\<lparr>p_links := h\<rparr>) (noop_only p a)"
proof -
  have l: "module_loaded noop_types 1 p a t (reg_plugin p no_plugins)"
    using assms(2,3) by (simp add: module_loaded_def op_unlinked_def reg_plugin_def no_plugins_def)
  obtain h R' where h: "noop_init a t = Some (VACCEL_OK, t\<lparr>p_links := h\<rparr>)" "plug_ok (t\<lparr>p_links := h\<rparr>) R'"
    "r_plugins R' = r_plugins (reg_plugin p no_plugins)" "\<And>t. r_impls R' t = r_impls (reg_plugin p no_plugins) t @ module_impls noop_types a t"
    "\<And>q. r_ops R' q = r_ops (reg_plugin p no_plugins) q @ (if q = p then map ((+) a) [0..<length noop_types] else [])"
    by (rule noop_init_ok [OF assms(1) l]) (rule that)
  have "R' = noop_only p a" using h(3-5) by (cases R') (simp add: reg_plugin_def no_plugins_def noop_only_def fun_eq_iff)
  then show ?thesis using h(1,2) by auto
qed

lemma exec_registers:
  assumes "plug_ok t (reg_plugin q (noop_only p a))" "plugins t q = Some \<lparr>dl_handle = h, pinfo = Some info\<rparr>"
    "\<And>i. i < 3 \<Longrightarrow> ops t (b + i) = Some (module_op exec_types 41 q i)" "p \<noteq> q" "{a..<a + 20} \<inter> {b..<b + 3} = {}"
  shows "\<exists>h. exec_init b t = Some (VACCEL_OK, t\<lparr>p_links := h\<rparr>) \<and> plug_ok (t\<lparr>p_links := h\<rparr>) (noop_exec p a q b)"
proof -
  have free: "\<not> (a \<le> b + i \<and> b + i < 20 + a)" if "i < 3" for i
  proof
    assume "a \<le> b + i \<and> b + i < 20 + a"
    then have "b + i \<in> {a..<a + 20} \<inter> {b..<b + 3}" using that by simp
    then show False using assms(5) by blast
  qed
  have l: "module_loaded exec_types 41 q b t (reg_plugin q (noop_only p a))"
    unfolding module_loaded_def op_unlinked_def
  proof (intro conjI allI impI ballI)
    fix i q' assume "i < length exec_types"
    then show "b + i \<notin> set (r_ops (reg_plugin q (noop_only p a)) q')" using free [of i] by (simp add: reg_plugin_def noop_only_def)
  qed (use assms(2,3) in simp_all)
  obtain h R' where h: "exec_init b t = Some (VACCEL_OK, t\<lparr>p_links := h\<rparr>)" "plug_ok (t\<lparr>p_links := h\<rparr>) R'"
    "r_plugins R' = r_plugins (reg_plugin q (noop_only p a))" "\<And>t. r_impls R' t = r_impls (reg_plugin q (noop_only p a)) t @ module_impls exec_types b t"
    "\<And>q'. r_ops R' q' = r_ops (reg_plugin q (noop_only p a)) q' @ (if q' = q then map ((+) b) [0..<length exec_types] else [])"
    by (rule exec_init_ok [OF assms(1) l]) (rule that)
  have "R' = noop_exec p a q b" using h(3-5) assms(4) by (cases R') (simp add: reg_plugin_def noop_only_def noop_exec_def fun_eq_iff)
  then show ?thesis using h(1,2) by auto
qed

lemma load_both:
  assumes "plug_ok s no_plugins" "plug_initialized s" "backends_loaded ld x y p a q b s"
  obtains s' where "load_each ld [x, y] s = Some (VACCEL_OK, s')" "os s' = os s" "plug_ok s' (noop_exec p a q b)" "ops s' = ops s"
    "Option.bind (plugins s' p) pinfo = Option.bind (plugins s p) pinfo" "Option.bind (plugins s' q) pinfo = Option.bind (plugins s q) pinfo"
proof -
  note B = assms(3) [unfolded backends_loaded_def]
  from B obtain f f' hp d where p: "plugins s p = Some \<lparr>dl_handle = hp, pinfo = Some (noop_info f f')\<rparr>" "\<And>t. call_fn ld f t = noop_init a t"
    "dlopen ld x = Some d" "dlsym ld d ''vaccel_plugin'' = Some (Some p)" "\<And>i. i < 20 \<Longrightarrow> ops s (a + i) = Some (module_op noop_types 1 p i)" by blast
  from B obtain g g' hq e where q: "plugins s q = Some \<lparr>dl_handle = hq, pinfo = Some (exec_info g g')\<rparr>" "\<And>t. call_fn ld g t = exec_init b t"
    "dlopen ld y = Some e" "dlsym ld e ''vaccel_plugin'' = Some (Some q)" "\<And>i. i < 3 \<Longrightarrow> ops s (b + i) = Some (module_op exec_types 41 q i)" by blast
  have ne: "p \<noteq> q" "{a..<a + 20} \<inter> {b..<b + 3} = {}" using B by blast+
  let ?p = "\<lparr>dl_handle = Some d, pinfo = Some (noop_info f f')\<rparr>" and ?q = "\<lparr>dl_handle = Some e, pinfo = Some (exec_info g g')\<rparr>"
  have init1: "\<exists>h. call_fn ld f t = Some (VACCEL_OK, t\<lparr>p_links := h\<rparr>) \<and> plug_ok (t\<lparr>p_links := h\<rparr>) (noop_only p a)"
    if "plug_ok t (reg_plugin p no_plugins)" "plugins t = plugins s" "ops t = ops s" for t
    unfolding p(2) by (rule noop_registers [OF that(1)]) (use that p(1,5) in auto)
  obtain h1 where 1: "load_backend_plugin ld x s = Some (VACCEL_OK, s\<lparr>p_links := h1, plugins := (plugins s)(p \<mapsto> ?p)\<rparr>)"
    "plug_ok (s\<lparr>p_links := h1, plugins := (plugins s)(p \<mapsto> ?p)\<rparr>) (noop_only p a)"
    by (rule load_backend_plugin_run [OF assms(1,2) p(3,4,1) _ _ _ _ _ _ init1]) (auto simp: plain_infos no_plugins_def)
  let ?s = "s\<lparr>p_links := h1, plugins := (plugins s)(p \<mapsto> ?p)\<rparr>"
  have q': "plugins ?s q = Some \<lparr>dl_handle = hq, pinfo = Some (exec_info g g')\<rparr>" "plug_initialized ?s" using q(1) ne(1) assms(2) by simp_all
  have init2: "\<exists>h. call_fn ld g t = Some (VACCEL_OK, t\<lparr>p_links := h\<rparr>) \<and> plug_ok (t\<lparr>p_links := h\<rparr>) (noop_exec p a q b)"
    if "plug_ok t (reg_plugin q (noop_only p a))" "plugins t = plugins ?s" "ops t = ops ?s" for t
    unfolding q(2) by (rule exec_registers [OF that(1) _ _ ne]) (use that q' q(5) in auto)
  obtain h2 where 2: "load_backend_plugin ld y ?s = Some (VACCEL_OK, ?s\<lparr>p_links := h2, plugins := (plugins ?s)(q \<mapsto> ?q)\<rparr>)"
    "plug_ok (?s\<lparr>p_links := h2, plugins := (plugins ?s)(q \<mapsto> ?q)\<rparr>) (noop_exec p a q b)"
    by (rule load_backend_plugin_run [OF 1(2) q'(2) q(3,4) q'(1) _ _ _ _ _ _ init2]) (use ne(1) in \<open>auto simp: plain_infos noop_only_def\<close>)
  show thesis by (rule that [OF _ _ 2(2)]) (use 1(1) 2(1) p(1) q(1) ne(1) in simp_all)
qed

text \<open>
  Which of the two tables a request is served from: the first whose plugin has a type of the hint, else the
  first that has the operation.
\<close>

lemma choose_of_two:
  assumes "plug_ok s (noop_exec p a q b)" "t < VACCEL_FUNCTIONS_NR"
    "\<And>i. i < 20 \<Longrightarrow> ops s (a + i) = Some (module_op noop_types 1 p i)" "\<And>i. i < 3 \<Longrightarrow> ops s (b + i) = Some (module_op exec_types 41 q i)"
    "Option.bind (plugins s p) pinfo = Some (noop_info f f')" "Option.bind (plugins s q) pinfo = Some (exec_info g g')"
  shows "get_plugin_op t hnt s = Some (if t \<in> {VACCEL_NO_OP, VACCEL_EXEC, VACCEL_EXEC_WITH_RESOURCE} \<and> hnt AND 0x100 = 0 \<and> hnt AND 0x89 \<noteq> 0
    then exec_function t else noop_function t)"
proof -
  have g: "get_plugin_op t hnt s = Some (case choose_op s hnt (module_impls noop_types a t @ module_impls exec_types b t) of
        None \<Rightarrow> None | Some a \<Rightarrow> Option.bind (ops s a) op_func)"
    using get_plugin_op_spec [OF assms(1,2)] by (simp add: noop_exec_def)
  have hp: "hint_matches s hnt (a + i) \<longleftrightarrow> hnt AND 0x100 \<noteq> 0" if "i < 20" for i
    using hint_matches_entry [OF assms(3) [OF that]] assms(5) by (auto simp: noop_info_def bind_eq_Some_conv)
  have hq: "hint_matches s hnt (b + i) \<longleftrightarrow> hnt AND 0x89 \<noteq> 0" if "i < 3" for i
    using hint_matches_entry [OF assms(4) [OF that]] assms(6) by (auto simp: exec_info_def bind_eq_Some_conv)
  have types: "t \<in> set exec_types \<longleftrightarrow> t \<in> {VACCEL_NO_OP, VACCEL_EXEC, VACCEL_EXEC_WITH_RESOURCE}" "t \<in> set exec_types \<Longrightarrow> t \<in> set noop_types"
    by (auto simp: exec_types_def noop_types_def)
  show ?thesis
  proof (cases rule: exec.impls_cases [of 41 t b])
    case 1
    then show ?thesis using types(1) g assms(3) hp
      by (cases rule: noop.impls_cases [of 1 t a]) (auto simp: choose_op_def noop_function_def module_op_def)
  next
    case (2 j)
    then obtain i where i: "i < 20" "noop_function t = Some (1 + i)" "module_impls noop_types a t = [a + i]"
      using types(2) by (cases rule: noop.impls_cases [of 1 t a]) (auto simp: noop_function_def)
    have "j < 3" "exec_function t = Some (41 + j)" using 2 by (simp_all add: exec_function_def)
    then show ?thesis using g i 2(2,4) types(1) assms(3) [OF i(1)] assms(4) [of j] hp [OF i(1)] hq [of j]
      by (simp add: choose_op_def module_op_def)
  qed
qed

text \<open>
  C12. The whole start of a library with two backends: loading a noop and an exec plugin in this order, as \<^verbatim>\<open>VACCEL_BACKENDS\<close> names them, gives a
  registry in which a request whose hint has a type of the exec plugin and not the type of the noop plugin is served by the exec plugin where it
  has the operation, and every other request by the noop plugin.
\<close>

theorem backends_by_hint:
  assumes "plug_ok s no_plugins" "plug_initialized s" "backends_loaded ld x y p a q b s" "alloc_ok (os s) (alloc_next (os s))"
    "x \<noteq> []" "y \<noteq> []" "CHR '':'' \<notin> set x" "CHR '':'' \<notin> set y"
  shows "\<exists>s'. load_backend_plugins ld (x @ '':'' @ y) s = Some (VACCEL_OK, s')
    \<and> (\<forall>t<VACCEL_FUNCTIONS_NR. \<forall>hnt. get_plugin_op t hnt s' = Some
        (if t \<in> {VACCEL_NO_OP, VACCEL_EXEC, VACCEL_EXEC_WITH_RESOURCE} \<and> hnt AND 0x100 = 0 \<and> hnt AND 0x89 \<noteq> 0 then exec_function t else noop_function t))"
proof -
  let ?s = "s\<lparr>os := (os s)\<lparr>alloc_next := Suc (alloc_next (os s)), strs := (strs (os s))(alloc_next (os s) \<mapsto> x @ '':'' @ y)\<rparr>\<rparr>"
  have "plug_ok ?s no_plugins" "plug_initialized ?s" "backends_loaded ld x y p a q b ?s"
    using assms(1-3) by (simp_all add: plug_ok_def backends_loaded_def)
  then obtain s1 where s1: "load_each ld [x, y] ?s = Some (VACCEL_OK, s1)" "os s1 = os ?s" "plug_ok s1 (noop_exec p a q b)" "ops s1 = ops s"
    "Option.bind (plugins s1 p) pinfo = Option.bind (plugins s p) pinfo" "Option.bind (plugins s1 q) pinfo = Option.bind (plugins s q) pinfo"
    by (rule load_both) simp
  let ?t = "s1\<lparr>os := (os s1)\<lparr>strs := (strs (os s1))(alloc_next (os s) := None)\<rparr>\<rparr>"
  have "strtok (CHR '':'') (x @ '':'' @ y) = [x, y]" using strtok_pair [OF assms(5-8)] by simp
  then have run: "load_backend_plugins ld (x @ '':'' @ y) s = Some (VACCEL_OK, ?t)"
    using s1(1,2) assms(4) by (simp add: load_backend_plugins_def os_call_def strdup_def new_str_def malloc_def free_str_def Let_def del: load_each.simps)
  have ok: "plug_ok ?t (noop_exec p a q b)" using s1(3) by (simp add: plug_ok_def)
  from assms(3) obtain f f' g g' where i: "Option.bind (plugins s p) pinfo = Some (noop_info f f')" "Option.bind (plugins s q) pinfo = Some (exec_info g g')"
    unfolding backends_loaded_def by fastforce
  have "get_plugin_op t hnt ?t = Some
      (if t \<in> {VACCEL_NO_OP, VACCEL_EXEC, VACCEL_EXEC_WITH_RESOURCE} \<and> hnt AND 0x100 = 0 \<and> hnt AND 0x89 \<noteq> 0 then exec_function t else noop_function t)"
    if "t < VACCEL_FUNCTIONS_NR" for t hnt
    by (rule choose_of_two [OF ok that, of f f' g g']) (use assms(3) s1(4-6) i in \<open>simp_all add: backends_loaded_def\<close>)
  then show ?thesis using run by blast
qed

text \<open>Both plugins in memory, and a linker that finds them.\<close>

definition both_loaded :: noop_state where
  "both_loaded = (noop_loaded Map.empty)\<lparr>plugins := [1 \<mapsto> \<lparr>dl_handle = None, pinfo = Some (noop_info 50 51)\<rparr>, 2 \<mapsto> \<lparr>dl_handle = None, pinfo = Some (exec_info 60 61)\<rparr>],
     ops := (\<lambda>a. if 100 \<le> a \<and> a < 120 then Some (module_op noop_types 1 1 (a - 100)) else if 130 \<le> a \<and> a < 133 then Some (module_op exec_types 41 2 (a - 130)) else None)\<rparr>"

definition both_linker :: "noop_state linker" where
  "both_linker = \<lparr>dlopen = \<lambda>path. if path = ''noop'' then Some 7 else if path = ''exec'' then Some 8 else None,
     dlsym = \<lambda>dl _. Some (Some (if dl = 7 then 1 else 2)), call_fn = \<lambda>f t. if f = 50 then noop_init 100 t else if f = 60 then exec_init 130 t else None\<rparr>"

theorem backends_by_hint_witness:
  "\<exists>s'. load_backend_plugins both_linker ''noop:exec'' both_loaded = Some (VACCEL_OK, s') \<and> get_plugin_op VACCEL_EXEC 0x1 s' = Some (Some 42)
    \<and> get_plugin_op VACCEL_EXEC 0 s' = Some (Some 8) \<and> get_plugin_op VACCEL_MINMAX 0x1 s' = Some (Some 12)"
proof -
  have "family self_linked (plug_fam (dom (plugins both_loaded)) (dom (ops both_loaded)) no_plugins)"
    by (rule self_linked_family) (rule no_plugins_lists)
  then have ok: "plug_ok both_loaded no_plugins" by (simp add: plug_ok_def both_loaded_def noop_loaded_def tensor_state.defs plug_rel_def no_plugins_def)
  have pi: "plug_initialized both_loaded" using noop_loaded_ok(4) by (simp add: both_loaded_def)
  have al: "alloc_ok (os both_loaded) (alloc_next (os both_loaded))"
    using prof_booted(4) by (simp add: both_loaded_def noop_loaded_def tensor_state.defs tensors_booted)
  have l: "backends_loaded both_linker ''noop'' ''exec'' 1 100 2 130 both_loaded"
    by (auto simp: backends_loaded_def both_linker_def both_loaded_def)
  have f: "exec_function VACCEL_EXEC = Some 42" "noop_function VACCEL_EXEC = Some 8" "noop_function VACCEL_MINMAX = Some 12" by code_simp+
  from backends_by_hint [OF ok pi l al] obtain s' where s': "load_backend_plugins both_linker ''noop:exec'' both_loaded = Some (VACCEL_OK, s')"
    "\<And>t hnt. t < VACCEL_FUNCTIONS_NR \<Longrightarrow> get_plugin_op t hnt s' = Some (if t \<in> {VACCEL_NO_OP, VACCEL_EXEC, VACCEL_EXEC_WITH_RESOURCE}
        \<and> hnt AND 0x100 = 0 \<and> hnt AND 0x89 \<noteq> 0 then exec_function t else noop_function t)"
    by auto
  have "(1 :: u32) AND 0x100 = 0" "(1 :: u32) AND 0x89 \<noteq> 0" by code_simp+
  then show ?thesis using s' f by (intro exI [of _ s']) simp
qed

subsection \<open>The function of the examples\<close>

lemma exec_functions: "exec_function VACCEL_EXEC = Some 42" "exec_function VACCEL_EXEC_WITH_RESOURCE = Some 43"
  by code_simp+

lemma exec_dispatched:
  assumes "find_op VACCEL_EXEC_WITH_RESOURCE se s = Some (exec_function VACCEL_EXEC_WITH_RESOURCE)"
  shows "vaccel_exec_with_resource (exec_call lib) (Some se) object fn read nr_read write nr_write s
    = map_option (\<lambda>(ret, _, t). (ret, t)) (exec_with_resource lib (Some se) object fn read nr_read write nr_write s)"
  using assms exec_functions(2) by (simp add: vaccel_exec_with_resource_def dispatch_def exec_call_def)

lemma exec_runs_object:
  assumes "s_mem s se = Some x" "so_mem s d = Some obj" "get_str (f_path (o_file obj)) (os s) = Some path"
    "dl_open lib (Some path) (os s) = Some dl" "mem_str fn s = Some sname" "dl_sym lib dl sname = Some f"
  shows "exec_with_resource lib (Some se) (Some d) fn read nr_read write nr_write s
    = map_option (\<lambda>(ret, w, t). (if ret \<noteq> 0 then VACCEL_ENOEXEC else VACCEL_OK, w, t)) (dl_run lib f read nr_read write nr_write s)"
proof -
  have "f_path (o_file obj) \<noteq> None" using assms(3) by (cases "f_path (o_file obj)") (simp_all add: get_str_def)
  then show ?thesis using assms
    by (auto simp: exec_with_resource_def session_of_def run_symbol_def map_option_case split: option.split Option.bind_split)
qed


subsection \<open>Looking an operation up again\<close>

lemma find_op_cong:
  assumes "plug_ok s R" "t < VACCEL_FUNCTIONS_NR" "plugins s' = plugins s" "ops s' = ops s" "p_links s' = p_links s" "s_mem s' = s_mem s"
  shows "find_op t se s' = find_op t se s"
  using get_plugin_op_cong [OF assms(1-5)] assms(6) by (simp add: find_op_def)


subsection \<open>A library with the plugin, and the examples' library\<close>

text \<open>
  The plugin is at 2 with its table at 130, a session at 20; the name of the function is at 5, its input at 6 and its output at 7. Every file is the
  examples' library.
\<close>

definition exec_loaded :: ops_state where
  "exec_loaded = prof_state.extend (obj_state.extend (obj_booted\<lparr>p_links := self_linked, plugins := [2 \<mapsto> \<lparr>dl_handle = None, pinfo = Some (exec_info 60 61)\<rparr>],
       ops := (\<lambda>a. if 130 \<le> a \<and> a < 133 then Some (module_op exec_types 41 2 (a - 130)) else None), plug_initialized := True,
       s_mem := [20 \<mapsto> no_session\<lparr>sess_resources := Some 40\<rparr>]\<rparr>)
       \<lparr>ticks = 0, clock = (\<lambda>_. 0), smp_mem = Map.empty, prof_log = []\<rparr>)
     \<lparr>mem = [5 \<mapsto> c_string ''mytestfunc'', 6 \<mapsto> le_bytes 4 (10 :: u32), 7 \<mapsto> replicate 24 0], junk = None, image_op_stats = VACCEL_PROF_REGION_INIT None,
       tf_load_stats = VACCEL_PROF_REGION_INIT None, tf_session_run_stats = VACCEL_PROF_REGION_INIT None, tf_session_delete_stats = VACCEL_PROF_REGION_INIT None\<rparr>"

definition exec_ready :: ops_state where
  "exec_ready = snd (the (exec_init 130 exec_loaded))"

definition testlib :: "ops_state libs" where
  "testlib = \<lparr>dl_open = \<lambda>name o'. (case name of None \<Rightarrow> None | Some path \<Rightarrow> (case node o' path of Some (File c) \<Rightarrow> Some 80 | _ \<Rightarrow> None)),
     dl_sym = \<lambda>_ name. if name = ''mytestfunc'' then Some 90 else None, dl_run = \<lambda>_. mytestfunc\<rparr>"

lemma exec_ready:
  obtains h R where "exec_ready = exec_loaded\<lparr>p_links := h\<rparr>" "plug_ok exec_ready R"
    "\<And>se. s_mem exec_loaded se = Some y \<Longrightarrow> find_op VACCEL_EXEC_WITH_RESOURCE se exec_ready = Some (exec_function VACCEL_EXEC_WITH_RESOURCE)"
proof -
  note d = exec_loaded_def prof_state.defs obj_state.defs
  have "family self_linked (plug_fam (dom (plugins exec_loaded)) (dom (ops exec_loaded)) no_plugins)"
    by (rule self_linked_family) (rule no_plugins_lists)
  then have ok: "plug_ok exec_loaded no_plugins" by (simp add: plug_ok_def plug_rel_def no_plugins_def d)
  have l: "module_loaded exec_types 41 2 130 exec_loaded no_plugins"
    by (simp add: module_loaded_def op_unlinked_def no_plugins_def d)
  obtain h R where h: "exec_init 130 exec_loaded = Some (VACCEL_OK, exec_loaded\<lparr>p_links := h\<rparr>)" "plug_ok (exec_loaded\<lparr>p_links := h\<rparr>) R"
    "\<And>t hnt. t < VACCEL_FUNCTIONS_NR \<Longrightarrow> r_impls no_plugins t = [] \<Longrightarrow> get_plugin_op t hnt (exec_loaded\<lparr>p_links := h\<rparr>) = Some (exec_function t)"
    by (rule exec_init_ok [OF ok l]) (rule that)
  then have e: "exec_ready = exec_loaded\<lparr>p_links := h\<rparr>" by (simp add: exec_ready_def)
  show thesis
    by (rule that [OF e]) (use h(2,3) in \<open>simp_all add: e find_op_def no_plugins_def\<close>)
qed

lemma exec_loaded:
  "obj_ok (exec_loaded\<lparr>p_links := h\<rparr>) []" "r_initialized exec_loaded" "virtio exec_loaded = None" "so_mem exec_loaded d = Some no_object"
  "free_ids (r_pool exec_loaded) = 1 # map int [2..<Suc MAX_RESOURCES]" "s_mem exec_loaded 20 = Some (no_session\<lparr>sess_resources := Some 40\<rparr>)"
  "mem_str (Some 5) exec_loaded = Some ''mytestfunc''" "mem exec_loaded 6 = Some (le_bytes 4 (10 :: u32))" "mem exec_loaded 7 = Some (replicate 24 0)"
proof -
  note d = exec_loaded_def prof_state.defs obj_state.defs
  have "obj_ok obj_booted []" by (rule obj_booted(1))
  then show "obj_ok (exec_loaded\<lparr>p_links := h\<rparr>) []"
    using obj_booted(7) by (simp add: obj_ok_def res_ok_def rundirs_ok_def d)
  show "r_initialized exec_loaded" "virtio exec_loaded = None" "free_ids (r_pool exec_loaded) = 1 # map int [2..<Suc MAX_RESOURCES]"
    using obj_booted(2,3,6) by (simp_all add: d)
  show "so_mem exec_loaded d = Some no_object" using obj_booted(4) [of Shared_Obj d] by (simp add: d obj_mem_def)
  show "s_mem exec_loaded 20 = Some (no_session\<lparr>sess_resources := Some 40\<rparr>)" "mem exec_loaded 6 = Some (le_bytes 4 (10 :: u32))"
    "mem exec_loaded 7 = Some (replicate 24 0)" by (simp_all add: d)
  have "mem exec_loaded 5 = Some (c_string ''mytestfunc'')" by (simp add: d)
  then show "mem_str (Some 5) exec_loaded = Some ''mytestfunc''" by (rule mem_str_c_string) simp
qed


text \<open>The session at 20 has registered the resource at 9 of the object at 30.\<close>

definition exec_registered :: ops_state where
  "exec_registered = exec_ready\<lparr>os := (os exec_ready)\<lparr>strs := [11 \<mapsto> ''/lib.so''], fs := [(''/lib.so'', File [])]\<rparr>,
     so_mem := [30 \<mapsto> no_object\<lparr>o_resource := Some 9, o_file := (o_file no_object)\<lparr>f_path := Some 11\<rparr>\<rparr>],
     r_mem := [9 \<mapsto> no_resource\<lparr>res_type := 3\<rparr>], reg_mem := [41 \<mapsto> Some 9],
     s_links := self_linked\<lparr>nxt := (nxt self_linked)(RegHead 40 3 \<mapsto> RegEntry 41, RegEntry 41 \<mapsto> RegHead 40 3)\<rparr>\<rparr>"


end
