(* ===== verification/Examples.thy ===== *)
theory Examples
  imports Example_Files Exec_Module
begin

text \<open>
  The example programs that run an operation in a session of their own (\<^verbatim>\<open>src/examples/\<close>): the no-op,
  \<^verbatim>\<open>exec\<close>, the image operations, the FPGA operations, and the variants of them that go through
  \<^verbatim>\<open>vaccel_genop\<close>. The result is what \<^verbatim>\<open>main\<close> returns. The local variables lie at the addresses \<open>a\<close> (the
  session) and \<open>loc i\<close>, at each of which the state has a block for an array that is not initialised; what
  the programs print is left out, but the strings and the array elements they print are read.
\<close>

subsection \<open>Command line and local variables\<close>

definition is_space :: "char \<Rightarrow> bool" where
  "is_space c \<longleftrightarrow> c \<in> {CHR 0x20, CHR 0x09, CHR 0x0A, CHR 0x0B, CHR 0x0C, CHR 0x0D}"

definition is_digit :: "char \<Rightarrow> bool" where
  "is_digit c \<longleftrightarrow> c \<in> set ''0123456789''"

text \<open>A value that is not an \<^verbatim>\<open>int\<close> is undefined.\<close>

definition atoi :: "string \<Rightarrow> int option" where
  "atoi str = (let t = dropWhile is_space str;
       neg = (t \<noteq> [] \<and> hd t = CHR ''-'');
       t = (if t \<noteq> [] \<and> hd t \<in> {CHR ''-'', CHR ''+''} then tl t else t);
       n = int (undigits (takeWhile is_digit t));
       i = (if neg then - n else n)
     in do { defined (- (2 ^ 31) \<le> i \<and> i < 2 ^ 31); Some i })"

definition set_local :: "addr \<Rightarrow> u8 list \<Rightarrow> 'z ops_state_scheme \<Rightarrow> 'z ops_state_scheme" where
  "set_local p bs s = s\<lparr>mem := (mem s)(p \<mapsto> bs)\<rparr>"

text \<open>Printing a string reads it up to its zero byte, printing the first \<open>n\<close> elements of an array reads them.\<close>

definition print_string :: "addr \<Rightarrow> 'z ops_state_scheme \<Rightarrow> 'z ops_state_scheme option" where
  "print_string p s = do { _ \<leftarrow> mem_str (Some p) s; Some s }"

definition print_array :: "addr \<Rightarrow> nat \<Rightarrow> 'z ops_state_scheme \<Rightarrow> 'z ops_state_scheme option" where
  "print_array p n s = loop (\<lambda>i s. do { _ \<leftarrow> load_elem (Some p) i s; Some s }) [0..<n] s"

subsection \<open>The common shape\<close>

text \<open>Start a session, do something in it, end it; the result is that of what was done.\<close>

definition with_session :: "(addr \<Rightarrow> 'z sess_state_scheme \<Rightarrow> (int \<times> 'z sess_state_scheme) option) \<Rightarrow> addr \<Rightarrow> u32
    \<Rightarrow> 'z sess_state_scheme \<Rightarrow> (int \<times> 'z sess_state_scheme) option" where
  "with_session body a flags s = do {
     (ret, s) \<leftarrow> vaccel_sess_init (Some a) flags s;
     if ret \<noteq> VACCEL_OK then Some (1, s)
     else do {
       (ret, s) \<leftarrow> body a s;
       (err, s) \<leftarrow> vaccel_sess_free (Some a) s;
       if err \<noteq> VACCEL_OK then Some (1, s) else Some (ret, s) } }"

text \<open>The loop over the number of iterations, left at the first error.\<close>

fun iterate :: "nat \<Rightarrow> ('s \<Rightarrow> (int \<times> 's) option) \<Rightarrow> 's \<Rightarrow> (int \<times> 's) option" where
  "iterate 0 op s = Some (0, s)"
| "iterate (Suc n) op s = do { (ret, s) \<leftarrow> op s; if ret \<noteq> 0 then Some (ret, s) else iterate n op s }"

text \<open>Printing comes after an operation that has succeeded.\<close>

definition and_print :: "(int \<times> 's) option \<Rightarrow> ('s \<Rightarrow> 's option) \<Rightarrow> (int \<times> 's) option" where
  "and_print r pr = do { (ret, s) \<leftarrow> r; if ret \<noteq> 0 then Some (ret, s) else do { s \<leftarrow> pr s; Some (ret, s) } }"

text \<open>The loop of the image examples, which print after their first iteration.\<close>

fun iterate_first :: "nat \<Rightarrow> ('s \<Rightarrow> (int \<times> 's) option) \<Rightarrow> ('s \<Rightarrow> 's option) \<Rightarrow> 's \<Rightarrow> (int \<times> 's) option" where
  "iterate_first 0 op pr s = Some (0, s)"
| "iterate_first (Suc n) op pr s = do { (ret, s) \<leftarrow> and_print (op s) pr; if ret \<noteq> 0 then Some (ret, s) else iterate n op s }"

subsection \<open>No-op and exec\<close>

definition noop_main :: "'z impl \<Rightarrow> addr \<Rightarrow> 'z ops_state_scheme \<Rightarrow> (int \<times> 'z ops_state_scheme) option" where
  "noop_main call a = with_session (\<lambda>a. vaccel_noop call (Some a)) a 0"

definition exec_library :: string where
  "exec_library = ''/usr/local/lib/libmytestlib.so''"

definition exec_main :: "'z impl \<Rightarrow> string list \<Rightarrow> addr \<Rightarrow> (nat \<Rightarrow> addr) \<Rightarrow> 'z ops_state_scheme \<Rightarrow> (int \<times> 'z ops_state_scheme) option" where
  "exec_main call argv a loc s = (case argv of
       _ # n # _ \<Rightarrow> do {
         se \<leftarrow> s_mem s a;
         let s = s_set a (se\<lparr>hint := 0x100\<rparr>) s;
         let s = set_local (loc 0) (c_string exec_library) (set_local (loc 1) (c_string ''mytestfunc'') s);
         with_session (\<lambda>a s. do {
             let s = set_local (loc 2) (le_bytes 4 (10 :: u32)) s;
             n \<leftarrow> atoi n;
             and_print (iterate (nat n) (vaccel_exec call (Some a) (Some (loc 0)) (Some (loc 1)) (Some [scalar 4 (loc 2)]) 1 (Some [scalar 512 (loc 3)]) 1) s)
               (print_string (loc 3)) })
           a 0x100 s }
     | _ \<Rightarrow> Some (1, s))"

definition exec_generic_main :: "'z impl \<Rightarrow> string list \<Rightarrow> addr \<Rightarrow> (nat \<Rightarrow> addr) \<Rightarrow> 'z ops_state_scheme \<Rightarrow> (int \<times> 'z ops_state_scheme) option" where
  "exec_generic_main call argv a loc s = (case argv of
       _ # n # _ \<Rightarrow> (
         let s = set_local (loc 0) (c_string exec_library) (set_local (loc 1) (c_string ''mytestfunc'') s)
         in with_session (\<lambda>a s. do {
             let s = set_local (loc 2) (le_bytes 4 (10 :: u32)) s;
             let s = set_local (loc 4) (le_bytes 4 (of_nat VACCEL_EXEC :: u32)) s;
             n \<leftarrow> atoi n;
             and_print (iterate (nat n) (vaccel_genop call (Some a)
                 (Some [scalar 1 (loc 4), scalar (of_nat (length exec_library)) (loc 0), scalar 10 (loc 1), scalar 4 (loc 2)]) 4
                 (Some [scalar 512 (loc 3)]) 1) s)
               (print_string (loc 3)) })
           a 0 s)
     | _ \<Rightarrow> Some (1, s))"

subsection \<open>Images\<close>

text \<open>
  The loop of an image example over its operation, for the session, the image and its size; after the first
  iteration the string at \<open>out\<close> is printed. When the image could not be read, \<^verbatim>\<open>free\<close> is called
  with a pointer that was never set.
\<close>

definition image_main :: "(addr \<Rightarrow> addr \<Rightarrow> nat \<Rightarrow> 'z tensor_state_scheme \<Rightarrow> (int \<times> 'z tensor_state_scheme) option) \<Rightarrow> addr \<Rightarrow> (nat \<Rightarrow> int) \<Rightarrow> string list
    \<Rightarrow> addr \<Rightarrow> 'z tensor_state_scheme \<Rightarrow> (int \<times> 'z tensor_state_scheme) option" where
  "image_main op out rd argv a s = (case argv of
       [_, filename, n] \<Rightarrow> with_session (\<lambda>a s. do {
           ((ret, img), s) \<leftarrow> read_image rd filename s;
           (p, img_size) \<leftarrow> img;
           n \<leftarrow> atoi n;
           (ret, s) \<leftarrow> iterate_first (nat n) (op a p img_size) (print_string out) s;
           s \<leftarrow> free_bytes (Some p) s;
           Some (ret, s) }) a 0 s
     | _ \<Rightarrow> Some (0, s))"

definition classify_main where
  "classify_main call loc = image_main (\<lambda>a img n. vaccel_image_classification call (Some a) (Some img) (Some (loc 0)) (Some (loc 1)) (of_nat n) 512 512) (loc 0)"

definition detect_main where
  "detect_main call loc = image_main (\<lambda>a img n. vaccel_image_detection call (Some a) (Some img) (Some (loc 1)) (of_nat n) 512) (loc 1)"

definition segment_main where
  "segment_main call loc = image_main (\<lambda>a img n. vaccel_image_segmentation call (Some a) (Some img) (Some (loc 1)) (of_nat n) 512) (loc 1)"

definition pose_main where
  "pose_main call loc = image_main (\<lambda>a img n. vaccel_image_pose call (Some a) (Some img) (Some (loc 1)) (of_nat n) 512) (loc 1)"

definition depth_main where
  "depth_main call loc = image_main (\<lambda>a img n. vaccel_image_depth call (Some a) (Some img) (Some (loc 1)) (of_nat n) 512) (loc 1)"

text \<open>The generic variants, with the type of the operation and the array of arguments to write.\<close>

definition image_generic :: "_ \<Rightarrow> nat \<Rightarrow> (nat \<Rightarrow> addr) \<Rightarrow> vaccel_arg list \<Rightarrow> addr \<Rightarrow> addr \<Rightarrow> nat \<Rightarrow> _" where
  "image_generic call ty loc write a img n s =
     vaccel_genop call (Some a) (Some [scalar 4 (loc 2), scalar (of_nat n) img]) 2 (Some write) (int (length write))
       (set_local (loc 2) (le_bytes 4 (of_nat ty :: u32)) s)"

definition classify_generic_main where
  "classify_generic_main call loc = image_main (image_generic call VACCEL_IMG_CLASS loc [scalar 512 (loc 0), scalar 512 (loc 1)]) (loc 0)"

definition detect_generic_main where
  "detect_generic_main call loc = image_main (image_generic call VACCEL_IMG_DETEC loc [scalar 512 (loc 1)]) (loc 1)"

definition segment_generic_main where
  "segment_generic_main call loc = image_main (image_generic call VACCEL_IMG_SEGME loc [scalar 512 (loc 1)]) (loc 1)"

definition pose_generic_main where
  "pose_generic_main call loc = image_main (image_generic call VACCEL_IMG_POSE loc [scalar 512 (loc 1)]) (loc 1)"

definition depth_generic_main where
  "depth_generic_main call loc = image_main (image_generic call VACCEL_IMG_DEPTH loc [scalar 512 (loc 1)]) (loc 1)"

subsection \<open>FPGA\<close>

text \<open>Arrays are at \<open>loc 0\<close> and so on in the order of their declaration, the type of a generic operation is at \<open>loc 4\<close>.\<close>

definition pynq_array_copy_main :: "'z impl \<Rightarrow> addr \<Rightarrow> (nat \<Rightarrow> addr) \<Rightarrow> 'z ops_state_scheme \<Rightarrow> (int \<times> 'z ops_state_scheme) option" where
  "pynq_array_copy_main call a loc s =
     (let s = set_local (loc 0) (words [12, 15, 12, 15, 12, 15]) s
      in with_session (\<lambda>a s. and_print (vaccel_fpga_arraycopy call (Some a) (Some (loc 0)) (Some (loc 1)) 6 s) (print_array (loc 1) 6)) a 0 s)"

definition pynq_array_copy_generic_main :: "'z impl \<Rightarrow> addr \<Rightarrow> (nat \<Rightarrow> addr) \<Rightarrow> 'z ops_state_scheme \<Rightarrow> (int \<times> 'z ops_state_scheme) option" where
  "pynq_array_copy_generic_main call a loc s =
     (let s = set_local (loc 0) (words [12, 15, 12, 15, 12, 11]) s
      in with_session (\<lambda>a s.
        let s = set_local (loc 4) (le_bytes 4 (of_nat VACCEL_F_ARRAYCOPY :: u32)) s
        in and_print (vaccel_genop call (Some a) (Some [scalar 4 (loc 4), scalar 24 (loc 0)]) 2 (Some [scalar 24 (loc 1), \<lparr>arg_size = 0, arg_buf = None\<rparr>]) 1 s)
             (print_array (loc 1) 6)) a 0 s)"

definition pynq_vector_add_main :: "'z impl \<Rightarrow> addr \<Rightarrow> (nat \<Rightarrow> addr) \<Rightarrow> 'z ops_state_scheme \<Rightarrow> (int \<times> 'z ops_state_scheme) option" where
  "pynq_vector_add_main call a loc s =
     (let s = set_local (loc 0) (words [0x40A00000, 0x3F800000, 0x40066666, 0x3F99999A, 0x40A66666]) s;
          s = set_local (loc 1) (words [0xC00CCCCD, 0x3F8CCCCD, 0x40CCCCCD, 0x40133333, 0x40C33333]) s;
          s = set_local (loc 2) (words [0, 0, 0, 0, 0]) s
      in with_session (\<lambda>a s. and_print (vaccel_fpga_vadd call (Some a) (Some (loc 0)) (Some (loc 1)) (Some (loc 2)) 5 5 s) (print_array (loc 2) 5)) a 0 s)"

definition pynq_vector_add_generic_main :: "'z impl \<Rightarrow> addr \<Rightarrow> (nat \<Rightarrow> addr) \<Rightarrow> 'z ops_state_scheme \<Rightarrow> (int \<times> 'z ops_state_scheme) option" where
  "pynq_vector_add_generic_main call a loc s =
     (let s = set_local (loc 0) (words [0x40A00000, 0x3F800000, 0x40066666, 0x3F99999A, 0x40A66666, 0x41026666]) s;
          s = set_local (loc 1) (words [0xC00CCCCD, 0x3F8CCCCD, 0x40CCCCCD, 0x40133333, 0x40C33333]) s;
          s = set_local (loc 2) (words [0, 0, 0, 0, 0, 0]) s
      in with_session (\<lambda>a s.
        let s = set_local (loc 4) (le_bytes 4 (of_nat VACCEL_F_VECTORADD :: u32)) s
        in and_print (vaccel_genop call (Some a) (Some [scalar 4 (loc 4), scalar 24 (loc 0), scalar 20 (loc 1)]) 3 (Some [scalar 6 (loc 2)]) 1 s)
             (print_array (loc 2) 6)) a 0 s)"

text \<open>The output arrays \<open>c\<close> at \<open>loc 2\<close> and \<open>d\<close> at \<open>loc 3\<close> have four elements.\<close>

definition pynq_parallel_main :: "'z impl \<Rightarrow> addr \<Rightarrow> (nat \<Rightarrow> addr) \<Rightarrow> 'z ops_state_scheme \<Rightarrow> (int \<times> 'z ops_state_scheme) option" where
  "pynq_parallel_main call a loc s =
     (let s = set_local (loc 0) (words [0x3F800000, 0x40000000, 0x40400000, 0x40800000]) s;
          s = set_local (loc 1) (words [0x40000000, 0x40400000, 0x40800000, 0x40A00000]) s
      in with_session (\<lambda>a s. and_print (vaccel_fpga_parallel call (Some a) (Some (loc 0)) (Some (loc 1)) (Some (loc 2)) (Some (loc 3)) 4 s)
        (\<lambda>s. do { s \<leftarrow> print_array (loc 2) 4 s; print_array (loc 3) 4 s })) a 0 s)"

definition pynq_parallel_generic_main :: "'z impl \<Rightarrow> addr \<Rightarrow> (nat \<Rightarrow> addr) \<Rightarrow> 'z ops_state_scheme \<Rightarrow> (int \<times> 'z ops_state_scheme) option" where
  "pynq_parallel_generic_main call a loc s =
     (let s = set_local (loc 0) (words [0x3F800000, 0x40000000, 0x40400000, 0x40800000]) s;
          s = set_local (loc 1) (words [0x40000000, 0x40400000, 0x40800000, 0x40A00000]) s
      in with_session (\<lambda>a s. do {
        let s = set_local (loc 4) (le_bytes 4 (of_nat VACCEL_F_PARALLEL :: u32)) s;
        (ret, s) \<leftarrow> and_print (vaccel_genop call (Some a) (Some [scalar 4 (loc 4), scalar 16 (loc 0), scalar 16 (loc 1)]) 3
             (Some [scalar 16 (loc 2), scalar 16 (loc 3)]) 2 s)
          (\<lambda>s. do { s \<leftarrow> print_array (loc 2) 16 s; print_array (loc 3) 16 s });
        if ret \<noteq> 0 then Some (ret, s)
        else and_print (vaccel_fpga_parallel call (Some a) (Some (loc 0)) (Some (loc 1)) (Some (loc 2)) (Some (loc 3)) 4 s)
          (\<lambda>s. do { s \<leftarrow> print_array (loc 2) 4 s; print_array (loc 3) 4 s }) }) a 0 s)"

end
