(* ===== verification/Examples_Run.thy ===== *)
theory Examples_Run
  imports Examples
begin

text \<open>
  The example programs run to their end. Starting and ending a session changes only the session system
  (\<open>sessions_only\<close> of \<open>Frames\<close>); the locale \<open>session_client\<close> is the contract of what a program may do in between.
\<close>

subsection \<open>Programs in a session\<close>

text \<open>
  What a program may do between the start and the end of its session: anything that keeps the invariant of the session system, its table and
  its sessions. \<open>ready\<close> says when it runs to its end.
\<close>

locale session_client =
  fixes body :: "addr \<Rightarrow> 'z sess_state_scheme \<Rightarrow> (int \<times> 'z sess_state_scheme) option"
    and ready :: "addr \<Rightarrow> 'z sess_state_scheme \<Rightarrow> bool"
  assumes runs: "ready a s \<Longrightarrow> \<exists>ret t. body a s = Some (ret, t)"
    and keeps: "ready a s \<Longrightarrow> body a s = Some (ret, t) \<Longrightarrow> sess_ok s L G \<Longrightarrow> sess_ok t L G"
    and table: "ready a s \<Longrightarrow> body a s = Some (ret, t) \<Longrightarrow> s_ids t = s_ids s \<and> running t = running s \<and> s_mem t = s_mem s
      \<and> virtio t = virtio s \<and> s_initialized t = s_initialized s"
begin

lemma with_session_ok:
  assumes ok: "sess_ok s L G" and i: "s_initialized s" and v: "virtio s = None" and a: "s_mem s a = Some se" and idle: "\<And>j. \<not> runs_at s j a"
    and fr: "free_ids (s_ids s) = i # F" and c: "setup_code (os s) (session_path s (nat i)) = 0"
    and ready: "\<And>t. sessions_only s t \<Longrightarrow> \<exists>r. s_mem t = (s_mem s)(a \<mapsto> se\<lparr>session_id := of_int i, sess_resources := Some r, hint := flags\<rparr>) \<Longrightarrow> ready a t"
  obtains s1 ret s2 s3 where "vaccel_sess_init (Some a) flags s = Some (VACCEL_OK, s1)" "ready a s1" "body a s1 = Some (ret, s2)" "sessions_only s2 s3"
    "with_session body a flags s = Some (ret, s3)" "sess_ok s3 L (no_regs (no_regs G (alloc_next (os s))) (alloc_next (os s)))"
    "free_ids (s_ids s3) = free_ids (s_ids s)" "running s3 = running s"
proof (cases rule: vaccel_sess_init_ok [OF ok i v a idle fr, of flags])
  case (1 ret s')
  then show thesis using c by simp
next
  case (2 s1)
  have so1: "sessions_only s s1" by (rule sessions_only_init [OF 2(1) v])
  have rd: "ready a s1" by (rule ready [OF so1]) (use 2(6) in blast)
  then obtain ret s2 where b: "body a s1 = Some (ret, s2)" using runs by blast
  note t2 = table [OF rd b]
  have ok2: "sess_ok s2 L (no_regs G (alloc_next (os s)))" by (rule keeps [OF rd b 2(3)])
  note T = table_okD [OF sess_okD(3) [OF ok]]
  have ir: "1 \<le> i" "i \<le> int MAX_VACCEL_SESSIONS" "i \<notin> used_ids (s_ids s)"
    using pool.free_range [OF T(1)] fr T(2) by (auto simp: used_ids_def)
  define k where "k = nat (i - 1)"
  have k: "k < MAX_VACCEL_SESSIONS" "int k + 1 = i" "running s ! k = None"
    using ir T(4) [of k] by (auto simp: k_def)
  have at: "runs_at s2 k a" using k(1) t2 2(5) T(3) by (simp add: runs_at_def k_def [symmetric])
  have sm: "s_mem s2 a = Some (se\<lparr>session_id := of_int i, sess_resources := Some (alloc_next (os s)), hint := flags\<rparr>)" using t2 2(6) by simp
  have i2: "s_initialized s2" "virtio s2 = None" using t2 2(12,13) by simp_all
  obtain r s3 where f: "vaccel_sess_free (Some a) s2 = Some (VACCEL_OK, s3)" "sres_of s2 a = Some r" "sess_ok s3 L (no_regs (no_regs G (alloc_next (os s))) r)"
    "free_ids (s_ids s3) = (int k + 1) # free_ids (s_ids s2)" "running s3 = (running s2)[k := None]"
    by (rule vaccel_sess_free_ok [OF ok2 i2 at sm])
  have r: "r = alloc_next (os s)" using f(2) sm by (simp add: sres_of_def)
  have "running s3 = running s" using f(5) t2 2(5) k(3) list_update_id [of "running s" k] by (simp add: k_def [symmetric])
  moreover have "free_ids (s_ids s3) = free_ids (s_ids s)" using f(4) t2 2(4) k(2) fr by simp
  moreover have "with_session body a flags s = Some (ret, s3)" using 2(1) b f(1) by (simp add: with_session_def)
  ultimately show thesis using that 2(1) rd b sessions_only_free [OF f(1) i2(2)] f(3) unfolding r by blast
qed

end

subsection \<open>Programs that only write their arrays\<close>

lemma sess_ok_mem: "sess_ok s L G \<Longrightarrow> sess_ok (s\<lparr>mem := m\<rparr>) L G"
  unfolding sess_ok_def using res_ok_cong [of s L "s\<lparr>mem := m\<rparr>"] reg_ok_other [of s L G "s\<lparr>mem := m\<rparr>"] table_ok_frame [of s "s\<lparr>mem := m\<rparr>"]
  by simp

lemma print_array_words:
  assumes "mem s p = Some (words xs)"
  shows "print_array p n s = (if n \<le> length xs then Some s else None)"
proof -
  have "loop (\<lambda>i s. do { _ \<leftarrow> load_elem (Some p) i s; Some s }) is s = (if \<forall>i\<in>set is. i < length xs then Some s else None)" for "is"
    by (induction "is") (auto simp: load_elem_words [OF assms])
  then show ?thesis unfolding print_array_def by (cases n) auto
qed

text \<open>The vector addition served by the noop plugin, on arrays at \<open>p\<close>, \<open>q\<close> and \<open>r\<close>.\<close>

definition vadd_body :: "(u32 \<Rightarrow> u32 \<Rightarrow> u32) \<Rightarrow> addr \<Rightarrow> addr \<Rightarrow> addr \<Rightarrow> u64 \<Rightarrow> u64 \<Rightarrow> nat \<Rightarrow> addr \<Rightarrow> 'z noop_state_scheme \<Rightarrow> (int \<times> 'z noop_state_scheme) option" where
  "vadd_body fadd p q r na nb k a s =
     and_print (vaccel_fpga_vadd (noop_call fadd) (Some a) (Some p) (Some q) (Some r) na nb s) (print_array r k)"

definition vadd_ready :: "addr \<Rightarrow> addr \<Rightarrow> addr \<Rightarrow> u64 \<Rightarrow> nat \<Rightarrow> u32 list \<Rightarrow> u32 list \<Rightarrow> u32 list \<Rightarrow> addr \<Rightarrow> 'z noop_state_scheme \<Rightarrow> bool" where
  "vadd_ready p q r na k xs ys zs a s \<longleftrightarrow> find_op VACCEL_F_VECTORADD a s = Some (noop_function VACCEL_F_VECTORADD)
     \<and> mem s p = Some (words xs) \<and> mem s q = Some (words ys) \<and> mem s r = Some (words zs) \<and> distinct [p, q, r]
     \<and> unat na = length xs \<and> length xs < 2 ^ 31 \<and> length xs \<le> length ys \<and> length xs \<le> length zs \<and> k \<le> length zs"

lemma vadd_body_run:
  assumes "vadd_ready p q r na k xs ys zs a s"
  shows "vadd_body fadd p q r na nb k a s = Some (VACCEL_OK, s\<lparr>mem := (mem s)(r \<mapsto> words (map2 fadd xs ys @ drop (length xs) zs))\<rparr>)"
proof -
  let ?t = "s\<lparr>mem := (mem s)(r \<mapsto> words (map2 fadd xs ys @ drop (length xs) zs))\<rparr>"
  note R = assms [unfolded vadd_ready_def]
  have "noop_function VACCEL_F_VECTORADD = Some 14" by code_simp
  then have "vaccel_fpga_vadd (noop_call fadd) (Some a) (Some p) (Some q) (Some r) na nb s = v_vectoradd fadd (Some p) (Some q) (Some r) na s"
    using R by (simp add: vaccel_fpga_vadd_def dispatch_def noop_call_def)
  also have "\<dots> = Some (VACCEL_OK, s\<lparr>mem := (mem s)(r \<mapsto> words (map2 fadd xs (take (length xs) ys) @ drop (length xs) zs))\<rparr>)"
    using v_vectoradd_words [of s p xs q ys r zs na fadd] R by simp
  also have "map2 fadd xs (take (length xs) ys) = map2 fadd xs ys" using R by (simp add: list_eq_iff_nth_eq)
  finally have op: "vaccel_fpga_vadd (noop_call fadd) (Some a) (Some p) (Some q) (Some r) na nb s = Some (VACCEL_OK, ?t)" .
  have m: "mem ?t r = Some (words (map2 fadd xs ys @ drop (length xs) zs))" by simp
  have "print_array r k ?t = Some ?t" using R by (subst print_array_words [OF m]) simp
  then show ?thesis unfolding vadd_body_def op and_print_def by simp
qed

interpretation vadd: session_client "vadd_body fadd p q r na nb k" "vadd_ready p q r na k xs ys zs" for fadd p q r na nb k xs ys zs
proof
  fix a :: addr and s t :: "'z noop_state_scheme" and ret L G
  assume rd: "vadd_ready p q r na k xs ys zs a s"
  show "\<exists>ret t. vadd_body fadd p q r na nb k a s = Some (ret, t)" using vadd_body_run [OF rd] by blast
  assume "vadd_body fadd p q r na nb k a s = Some (ret, t)"
  then have t: "t = s\<lparr>mem := (mem s)(r \<mapsto> words (map2 fadd xs ys @ drop (length xs) zs))\<rparr>" using vadd_body_run [OF rd, of fadd nb] by simp
  show "s_ids t = s_ids s \<and> running t = running s \<and> s_mem t = s_mem s \<and> virtio t = virtio s \<and> s_initialized t = s_initialized s" by (simp add: t)
  assume "sess_ok s L G"
  then show "sess_ok t L G" unfolding t by (rule sess_ok_mem)
qed

lemma vadd_session:
  assumes u: "sess_ok u L G" "s_initialized u" "virtio u = None" "s_mem u a = Some se" "\<And>j. \<not> runs_at u j a" "free_ids (s_ids u) = i # F"
    "setup_code (os u) (session_path u (nat i)) = 0"
    and op: "plug_ok u R" "get_plugin_op VACCEL_F_VECTORADD 0 u = Some (noop_function VACCEL_F_VECTORADD)"
    and m: "mem u p = Some (words xs)" "mem u q = Some (words ys)" "mem u r = Some (words zs)" "distinct [p, q, r]"
    and l: "unat na = length xs" "length xs < 2 ^ 31" "length xs \<le> length ys" "length xs \<le> length zs" "k \<le> length zs"
  shows "\<exists>s'. with_session (vadd_body fadd p q r na nb k) a 0 u = Some (0, s') \<and> mem s' r = Some (words (map2 fadd xs ys @ drop (length xs) zs))
    \<and> (\<exists>G. sess_ok s' L G) \<and> free_ids (s_ids s') = free_ids (s_ids u) \<and> running s' = running u"
proof -
  have rd: "vadd_ready p q r na k xs ys zs a t"
    if t: "sessions_only u t" "\<exists>r. s_mem t = (s_mem u)(a \<mapsto> se\<lparr>session_id := of_int i, sess_resources := Some r, hint := 0\<rparr>)" for t
  proof -
    have "get_plugin_op VACCEL_F_VECTORADD 0 t = get_plugin_op VACCEL_F_VECTORADD 0 u"
      by (rule get_plugin_op_cong [OF op(1)]) (use sessions_onlyD [OF t(1)] in simp_all)
    moreover obtain x where "s_mem t a = Some x" "hint x = 0" using t(2) by fastforce
    ultimately have "find_op VACCEL_F_VECTORADD a t = Some (noop_function VACCEL_F_VECTORADD)" using op(2) by (simp add: find_op_def)
    moreover have "mem t = mem u" using t(1) by (auto elim: sessions_onlyE)
    ultimately show ?thesis using m l by (simp add: vadd_ready_def)
  qed
  obtain s1 ret s2 s3 where r: "vaccel_sess_init (Some a) 0 u = Some (VACCEL_OK, s1)" "vadd_ready p q r na k xs ys zs a s1"
    "vadd_body fadd p q r na nb k a s1 = Some (ret, s2)" "sessions_only s2 s3" "with_session (vadd_body fadd p q r na nb k) a 0 u = Some (ret, s3)"
    "sess_ok s3 L (no_regs (no_regs G (alloc_next (os u))) (alloc_next (os u)))" "free_ids (s_ids s3) = free_ids (s_ids u)" "running s3 = running u"
    by (rule vadd.with_session_ok [OF u rd, where fadd = fadd and nb = nb and flags = 0]) (assumption, assumption, erule (7) that)
  have "mem s3 = mem s2" using r(4) by (auto elim: sessions_onlyE)
  then show ?thesis using vadd_body_run [OF r(2), of fadd nb] r(3,5-8) by (intro exI [of _ s3]) auto
qed

subsection \<open>Properties\<close>

text \<open>
  C17. An example program from its start to its end: \<^verbatim>\<open>pynq_vector_add\<close>, run where the noop plugin serves the operation and a session can be started, returns 0
  with the sums of its two arrays in the third; afterwards the session system is as before, with the same ids free in the same order and the
  same sessions running.
\<close>

theorem pynq_vector_add_correct:
  assumes "sess_ok s L G" "s_initialized s" "virtio s = None" "s_mem s a = Some se" "\<And>j. \<not> runs_at s j a" "free_ids (s_ids s) = i # F"
    "setup_code (os s) (session_path s (nat i)) = 0" "plug_ok s R" "get_plugin_op VACCEL_F_VECTORADD 0 s = Some (noop_function VACCEL_F_VECTORADD)"
    "distinct [loc 0, loc 1, loc 2]"
  shows "\<exists>s'. pynq_vector_add_main (noop_call fadd) a loc s = Some (0, s')
    \<and> mem s' (loc 2) = Some (words (map2 fadd [0x40A00000, 0x3F800000, 0x40066666, 0x3F99999A, 0x40A66666] [0xC00CCCCD, 0x3F8CCCCD, 0x40CCCCCD, 0x40133333, 0x40C33333]))
    \<and> (\<exists>G. sess_ok s' L G) \<and> free_ids (s_ids s') = free_ids (s_ids s) \<and> running s' = running s"
proof -
  let ?xs = "[0x40A00000, 0x3F800000, 0x40066666, 0x3F99999A, 0x40A66666]" and ?ys = "[0xC00CCCCD, 0x3F8CCCCD, 0x40CCCCCD, 0x40133333, 0x40C33333]"
  define u where "u = s\<lparr>mem := (mem s)(loc 0 \<mapsto> words ?xs, loc 1 \<mapsto> words ?ys, loc 2 \<mapsto> words [0, 0, 0, 0, 0])\<rparr>"
  have u: "sess_ok u L G" "s_initialized u" "virtio u = None" "s_mem u a = Some se" "\<not> runs_at u j a" "free_ids (s_ids u) = i # F"
    "setup_code (os u) (session_path u (nat i)) = 0" "plug_ok u R" "s_ids u = s_ids s" "running u = running s" for j
    using sess_ok_mem [OF assms(1)] assms(2-8) by (simp_all add: u_def runs_at_def session_path_def plug_ok_def)
  have op: "get_plugin_op VACCEL_F_VECTORADD 0 u = Some (noop_function VACCEL_F_VECTORADD)"
    using get_plugin_op_cong [OF assms(8), of VACCEL_F_VECTORADD u 0] assms(9) by (simp add: u_def)
  have m: "mem u (loc 0) = Some (words ?xs)" "mem u (loc 1) = Some (words ?ys)" "mem u (loc 2) = Some (words [0, 0, 0, 0, 0])"
    using assms(10) by (simp_all add: u_def)
  have "pynq_vector_add_main (noop_call fadd) a loc s = with_session (vadd_body fadd (loc 0) (loc 1) (loc 2) 5 5 5) a 0 u"
    by (simp add: pynq_vector_add_main_def vadd_body_def [abs_def] set_local_def u_def)
  then show ?thesis using vadd_session [OF u(1-8) op m assms(10), of 5 5 fadd 5] u(9,10) by simp
qed

text \<open>A library with the noop plugin, whose sessions are those of \<open>sess_booted\<close>.\<close>

definition client_loaded :: noop_state where
  "client_loaded = tensor_state.extend (ops_state.extend (prof_state.extend (obj_state.extend (sess_state.extend
       (sess_booted\<lparr>p_links := self_linked, plugins := [1 \<mapsto> \<lparr>dl_handle = None, pinfo = Some (noop_info 50 51)\<rparr>],
          ops := (\<lambda>a. if 100 \<le> a \<and> a < 120 then Some (module_op noop_types 1 1 (a - 100)) else None)\<rparr>)
       \<lparr>so_mem = Map.empty, tfm_mem = Map.empty, tsm_mem = Map.empty, trm_mem = Map.empty\<rparr>)
       \<lparr>ticks = 0, clock = (\<lambda>_. 0), smp_mem = Map.empty, prof_log = []\<rparr>)
       \<lparr>mem = Map.empty, junk = None, image_op_stats = VACCEL_PROF_REGION_INIT None, tf_load_stats = VACCEL_PROF_REGION_INIT None,
         tf_session_run_stats = VACCEL_PROF_REGION_INIT None, tf_session_delete_stats = VACCEL_PROF_REGION_INIT None\<rparr>)
       \<lparr>stale = (\<lambda>_ _. 0), buf_mem = Map.empty, node_mem = Map.empty, ten_mem = Map.empty, dims_mem = Map.empty\<rparr>)
     \<lparr>status_mem = Map.empty, node_arr = Map.empty, ten_arr = Map.empty\<rparr>"

lemma client_loaded:
  "sess_ok (client_loaded\<lparr>p_links := h\<rparr>) [7] (\<lambda>_ _. [])" "s_initialized client_loaded" "virtio client_loaded = None" "s_mem client_loaded 20 = Some no_session"
  "\<not> runs_at client_loaded j 20" "free_ids (s_ids client_loaded) = 1 # map int [2..<Suc MAX_VACCEL_SESSIONS]"
  "setup_code (os client_loaded) (session_path client_loaded 1) = 0"
  "plug_ok client_loaded no_plugins" "module_loaded noop_types 1 1 100 client_loaded no_plugins"
proof -
  note d = client_loaded_def tensor_state.defs ops_state.defs prof_state.defs obj_state.defs sess_state.defs
  note ok = sess_okD [OF sess_booted(1)]
  have "res_ok (client_loaded\<lparr>p_links := h\<rparr>) [7]" by (rule res_ok_cong [OF ok(1)]) (simp_all add: d)
  moreover have "reg_ok (client_loaded\<lparr>p_links := h\<rparr>) [7] (\<lambda>_ _. [])" by (rule reg_ok_other [OF ok(2)]) (simp_all add: d)
  moreover have "table_ok (client_loaded\<lparr>p_links := h\<rparr>)" by (rule table_ok_frame [OF ok(3)]) (simp_all add: d)
  ultimately show "sess_ok (client_loaded\<lparr>p_links := h\<rparr>) [7] (\<lambda>_ _. [])" by (simp add: sess_ok_def)
  show "s_initialized client_loaded" "virtio client_loaded = None" "s_mem client_loaded 20 = Some no_session"
    "free_ids (s_ids client_loaded) = 1 # map int [2..<Suc MAX_VACCEL_SESSIONS]"
    using sess_booted(2-5) by (simp_all add: d)
  show "\<not> runs_at client_loaded j 20" using sess_booted(6) [of j 20] by (simp add: d runs_at_def)
  show "setup_code (os client_loaded) (session_path client_loaded 1) = 0" using setup_booted by (simp add: d session_path_def vaccel_rundir_def)
  have "family self_linked (plug_fam (dom (plugins client_loaded)) (dom (ops client_loaded)) no_plugins)"
    by (rule self_linked_family) (rule no_plugins_lists)
  then show "plug_ok client_loaded no_plugins" by (simp add: plug_ok_def plug_rel_def no_plugins_def d)
  show "module_loaded noop_types 1 1 100 client_loaded no_plugins" by (simp add: module_loaded_def op_unlinked_def no_plugins_def d)
qed

theorem pynq_vector_add_correct_witness:
  "\<exists>(s :: noop_state) s'. pynq_vector_add_main (noop_call (+)) 20 id s = Some (0, s') \<and> mem s' 2 = Some (words (map2 (+) [0x40A00000, 0x3F800000, 0x40066666, 0x3F99999A, 0x40A66666] [0xC00CCCCD, 0x3F8CCCCD, 0x40CCCCCD, 0x40133333, 0x40C33333]))"
proof -
  obtain h R where h: "plug_ok (client_loaded\<lparr>p_links := h\<rparr>) R"
    "\<And>t hnt. t < VACCEL_FUNCTIONS_NR \<Longrightarrow> r_impls no_plugins t = [] \<Longrightarrow> get_plugin_op t hnt (client_loaded\<lparr>p_links := h\<rparr>) = Some (noop_function t)"
    by (rule noop_init_ok [OF client_loaded(8,9)]) (rule that)
  let ?s = "client_loaded\<lparr>p_links := h\<rparr>"
  have "get_plugin_op VACCEL_F_VECTORADD 0 ?s = Some (noop_function VACCEL_F_VECTORADD)" using h(2) by (simp add: no_plugins_def)
  moreover have "\<not> runs_at ?s j 20" for j using client_loaded(5) [of j] by (simp add: runs_at_def)
  moreover have "setup_code (os ?s) (session_path ?s (nat 1)) = 0" using client_loaded(7) by (simp add: session_path_def)
  ultimately have "\<exists>s'. pynq_vector_add_main (noop_call (+)) 20 id ?s = Some (0, s')
    \<and> mem s' 2 = Some (words (map2 (+) [0x40A00000, 0x3F800000, 0x40066666, 0x3F99999A, 0x40A66666] [0xC00CCCCD, 0x3F8CCCCD, 0x40CCCCCD, 0x40133333, 0x40C33333]))"
    using pynq_vector_add_correct [OF client_loaded(1) _ _ _ _ _ _ h(1), of 20 no_session 1 "map int [2..<Suc MAX_VACCEL_SESSIONS]" id "(+)"] client_loaded(2-4,6)
    by (simp only: id_apply) fastforce
  then show ?thesis by (rule exI [of _ ?s])
qed

end
