(* ===== verification/Resource_Examples.thy ===== *)
theory Resource_Examples
  imports Examples Saved_Models
begin

text \<open>
  The example programs that make resources (\<^verbatim>\<open>src/examples/\<close>): TensorFlow models and shared objects, each from a path and from a
  buffer, saved models, and inference with one. As in \<open>Examples\<close> the result is the exit code of the program and local variables lie at
  given addresses; the objects are at \<open>m1\<close> and \<open>m2\<close>, the session is at \<open>a\<close>.
\<close>

subsection \<open>Statements\<close>

text \<open>\<^verbatim>\<open>exit(1)\<close> at the first error, or returning it.\<close>

definition or_exit :: "(int \<times> 's) option \<Rightarrow> ('s \<Rightarrow> (int \<times> 's) option) \<Rightarrow> (int \<times> 's) option" where
  "or_exit r k = do { (ret, s) \<leftarrow> r; if ret \<noteq> 0 then Some (1, s) else k s }"

definition or_return :: "(int \<times> 's) option \<Rightarrow> ('s \<Rightarrow> (int \<times> 's) option) \<Rightarrow> (int \<times> 's) option" where
  "or_return r k = do { (ret, s) \<leftarrow> r; if ret \<noteq> 0 then Some (ret, s) else k s }"

subsection \<open>TensorFlow models and shared objects\<close>

text \<open>
  \<^verbatim>\<open>tf_model.c\<close> and \<^verbatim>\<open>exec_with_res.c\<close> have the same shape: an object is made from a path and registered with a new session, a second one
  is made from the contents of the file and registered, something is done with them (\<open>body\<close>), and all of it is taken back.
\<close>

definition resource_end :: "kind \<Rightarrow> ptr \<Rightarrow> ptr \<Rightarrow> ptr \<Rightarrow> addr \<Rightarrow> addr \<Rightarrow> addr \<Rightarrow> 'z tensor_state_scheme \<Rightarrow> (int \<times> 'z tensor_state_scheme) option" where
  "resource_end k buff r1 r2 m1 a m2 s =
     or_exit (vaccel_sess_unregister (Some a) r1 s) (\<lambda>s.
     or_exit (vaccel_sess_unregister (Some a) r2 s) (\<lambda>s.
     or_exit (object_destroy k (Some m1) s) (\<lambda>s.
     or_exit (object_destroy k (Some m2) s) (\<lambda>s.
     or_exit (vaccel_sess_free (Some a) s) (\<lambda>s. do {
       s \<leftarrow> free_bytes buff s;
       Some (0, s) })))))"

definition resource_second :: "kind \<Rightarrow> ('z tensor_state_scheme \<Rightarrow> 'z tensor_state_scheme option) \<Rightarrow> (nat \<Rightarrow> int) \<Rightarrow> string \<Rightarrow> ptr \<Rightarrow> addr \<Rightarrow> addr \<Rightarrow> addr
    \<Rightarrow> 'z tensor_state_scheme \<Rightarrow> (int \<times> 'z tensor_state_scheme) option" where
  "resource_second k body rd path r1 m1 a m2 s = do {
     ((buff, len), s) \<leftarrow> read_buffer rd path s;
     case buff of
       None \<Rightarrow> Some (1, s)
     | Some p \<Rightarrow> do {
         bs \<leftarrow> mem s p;
         or_exit (object_new_from_buffer k (Some m2) (User bs) len s) (\<lambda>s. do {
           object2 \<leftarrow> obj_mem k s m2;
           or_exit (vaccel_sess_register (Some a) (o_resource object2) s) (\<lambda>s. do {
             s \<leftarrow> body s;
             resource_end k buff r1 (o_resource object2) m1 a m2 s }) }) } }"

definition resource_main :: "kind \<Rightarrow> ('z tensor_state_scheme \<Rightarrow> 'z tensor_state_scheme option) \<Rightarrow> (nat \<Rightarrow> int) \<Rightarrow> string \<Rightarrow> addr \<Rightarrow> addr \<Rightarrow> addr
    \<Rightarrow> 'z tensor_state_scheme \<Rightarrow> (int \<times> 'z tensor_state_scheme) option" where
  "resource_main k body rd path m1 a m2 s =
     or_exit (object_new k (Some m1) (Some path) s) (\<lambda>s.
     or_exit (vaccel_sess_init (Some a) 0 s) (\<lambda>s. do {
       object \<leftarrow> obj_mem k s m1;
       or_exit (vaccel_sess_register (Some a) (o_resource object) s) (\<lambda>s.
         resource_second k body rd path (o_resource object) m1 a m2 s) }))"

definition tf_model_main :: "(nat \<Rightarrow> int) \<Rightarrow> string list \<Rightarrow> addr \<Rightarrow> addr \<Rightarrow> addr \<Rightarrow> 'z tensor_state_scheme \<Rightarrow> (int \<times> 'z tensor_state_scheme) option" where
  "tf_model_main rd argv m1 a m2 s = (case argv of
       [_, path] \<Rightarrow> resource_main Tf_Model Some rd path m1 a m2 s
     | _ \<Rightarrow> Some (0, s))"

text \<open>
  The two loops with what is printed after them; \<open>out_text\<close> is at \<open>loc 3\<close> and \<open>out_text2\<close> at \<open>loc 4\<close>. When the operation fails they
  jump to the label \<open>close_session\<close>, where the same is done as at the end and \<open>ret\<close> is overwritten, so that their result is lost.
\<close>

definition exec_twice :: "'z impl \<Rightarrow> nat \<Rightarrow> addr \<Rightarrow> (nat \<Rightarrow> addr) \<Rightarrow> addr \<Rightarrow> addr \<Rightarrow> 'z ops_state_scheme \<Rightarrow> (int \<times> 'z ops_state_scheme) option" where
  "exec_twice call n a loc m1 m2 s =
     or_return (and_print (iterate n (vaccel_exec_with_resource call (Some a) (Some m1) (Some (loc 1)) (Some [scalar 4 (loc 2)]) 1 (Some [scalar 512 (loc 3)]) 1) s)
       (print_string (loc 3))) (\<lambda>s.
     and_print (iterate n (vaccel_exec_with_resource call (Some a) (Some m2) (Some (loc 1)) (Some [scalar 4 (loc 2)]) 1 (Some [scalar 512 (loc 4)]) 1) s)
       (print_string (loc 4)))"

definition exec_with_res_body :: "'z impl \<Rightarrow> string \<Rightarrow> addr \<Rightarrow> (nat \<Rightarrow> addr) \<Rightarrow> addr \<Rightarrow> addr \<Rightarrow> 'z ops_state_scheme \<Rightarrow> 'z ops_state_scheme option" where
  "exec_with_res_body call n a loc m1 m2 s = do {
     let s = set_local (loc 2) (le_bytes 4 (10 :: u32)) (set_local (loc 1) (c_string ''mytestfunc'') s);
     n \<leftarrow> atoi n;
     (_, s) \<leftarrow> exec_twice call (nat n) a loc m1 m2 s;
     Some s }"

definition exec_with_res_main :: "_ \<Rightarrow> (nat \<Rightarrow> int) \<Rightarrow> string list \<Rightarrow> addr \<Rightarrow> addr \<Rightarrow> addr \<Rightarrow> (nat \<Rightarrow> addr)
    \<Rightarrow> 'z tensor_state_scheme \<Rightarrow> (int \<times> 'z tensor_state_scheme) option" where
  "exec_with_res_main call rd argv m1 a m2 loc s = (case argv of
       [_, path, n] \<Rightarrow> resource_main Shared_Obj (exec_with_res_body call n a loc m1 m2) rd path m1 a m2 s
     | _ \<Rightarrow> Some (0, s))"

subsection \<open>Saved models\<close>

text \<open>
  \<^verbatim>\<open>read_file\<close> of this example maps the file; that \<^verbatim>\<open>mmap\<close> has failed is not noticed. \<open>len\<close> is the size of the file,
  not changed when nothing is read.
\<close>

definition map_file :: "string \<Rightarrow> nat \<Rightarrow> 'z rt_state_scheme \<Rightarrow> (dataptr \<times> nat) \<times> 'z rt_state_scheme" where
  "map_file path len s =
     (let (e, s) = os_call sys_call s in
      if e \<noteq> 0 then ((DNull, len), s)
      else case node (os s) path of
        None \<Rightarrow> ((DNull, len), s)
      | Some f \<Rightarrow>
        (let (e, s) = os_call sys_call s in
         if e \<noteq> 0 then ((DNull, len), s)
         else case f of
           Dir \<Rightarrow> ((Map_Failed, st_size_of Dir), s)
         | File c \<Rightarrow> (let (p, s) = os_call (mmap_file c) s in ((p, length c), s))))"

definition read_file_from_dir :: "string \<Rightarrow> string \<Rightarrow> nat \<Rightarrow> 'z rt_state_scheme \<Rightarrow> (dataptr \<times> nat) \<times> 'z rt_state_scheme" where
  "read_file_from_dir dir path len s = (let (_, fpath) = snprintf 1024 (dir @ ''/'' @ path) in map_file fpath len s)"

definition create_session :: "addr \<Rightarrow> 'z sess_state_scheme \<Rightarrow> (int \<times> 'z sess_state_scheme) option" where
  "create_session a = vaccel_sess_init (Some a) 0"

definition destroy_session :: "addr \<Rightarrow> 'z sess_state_scheme \<Rightarrow> (int \<times> 'z sess_state_scheme) option" where
  "destroy_session a s = do { (_, s) \<leftarrow> vaccel_sess_free (Some a) s; Some (VACCEL_OK, s) }"

text \<open>What both functions do with the model once its files are set.\<close>

definition use_model :: "addr \<Rightarrow> addr \<Rightarrow> 'z obj_state_scheme \<Rightarrow> (int \<times> 'z obj_state_scheme) option" where
  "use_model m a s =
     or_return (vaccel_tf_saved_model_register (Some m) s) (\<lambda>s. do {
     _ \<leftarrow> vaccel_tf_saved_model_id (Some m) s;
     or_return (create_session a s) (\<lambda>s. do {
       model \<leftarrow> tsm_mem s m;
       or_return (vaccel_sess_register (Some a) (tsm_resource model) s) (\<lambda>s.
       or_return (vaccel_sess_unregister (Some a) (tsm_resource model) s) (\<lambda>s.
       or_return (vaccel_tf_saved_model_destroy (Some m) s) (\<lambda>s.
       destroy_session a s))) }) })"

definition create_from_path :: "string \<Rightarrow> addr \<Rightarrow> 'z obj_state_scheme \<Rightarrow> (int \<times> 'z obj_state_scheme) option" where
  "create_from_path path a s = (case vaccel_tf_saved_model_new s of
       (None, s) \<Rightarrow> Some (VACCEL_ENOMEM, s)
     | (Some m, s) \<Rightarrow> or_return (vaccel_tf_saved_model_set_path (Some m) path s) (use_model m a))"

text \<open>The checkpoint is read from the file of the variable index. \<open>len\<close> is not initialised.\<close>

definition create_from_in_mem :: "string \<Rightarrow> nat \<Rightarrow> addr \<Rightarrow> 'z obj_state_scheme \<Rightarrow> (int \<times> 'z obj_state_scheme) option" where
  "create_from_in_mem path len a s = (case vaccel_tf_saved_model_new s of
       (None, s) \<Rightarrow> Some (VACCEL_ENOMEM, s)
     | (Some m, s) \<Rightarrow>
       (let ((p, len), s) = read_file_from_dir path ''saved_model.pb'' len s in
        if p = DNull then Some (VACCEL_ENOMEM, s)
        else or_return (vaccel_tf_saved_model_set_model (Some m) p len s) (\<lambda>s.
          let ((p, len), s) = read_file_from_dir path ''variables/variables.index'' len s in
          if p = DNull then Some (VACCEL_ENOMEM, s)
          else or_return (vaccel_tf_saved_model_set_checkpoint (Some m) p len s) (\<lambda>s.
            let ((p, len), s) = read_file_from_dir path ''variables/variables.index'' len s in
            if p = DNull then Some (VACCEL_ENOMEM, s)
            else or_return (vaccel_tf_saved_model_set_var_index (Some m) p len s) (use_model m a)))))"

definition tf_saved_model_main :: "string list \<Rightarrow> nat \<Rightarrow> addr \<Rightarrow> 'z obj_state_scheme \<Rightarrow> (int \<times> 'z obj_state_scheme) option" where
  "tf_saved_model_main argv len a s = (case argv of
       [_, path] \<Rightarrow> or_return (create_from_path path a s) (create_from_in_mem path len a)
     | _ \<Rightarrow> Some (0, s))"

end
