(* ===== verification/Library.thy ===== *)
theory Library
  imports Frames
begin

text \<open>
  The library as a whole: the calls an application makes on sessions and on objects, the state they keep
  (\<open>lib_ok\<close>, which joins the invariants of \<open>Sessions\<close> and \<open>Objects\<close>), and what an application must observe
  (\<open>call_allowed\<close>). The calls are the steps of a machine; whatever sequence of allowed calls is made, every call
  returns and the invariant holds.
\<close>

subsection \<open>The invariant\<close>

definition lib_ok :: "'z obj_state_scheme \<Rightarrow> addr list \<Rightarrow> (addr \<Rightarrow> nat \<Rightarrow> addr list) \<Rightarrow> bool" where
  "lib_ok s L G \<longleftrightarrow> obj_ok s L \<and> sess_ok s L G \<and> dom (r_mem s) = set L \<and> (\<forall>b r. r_mem s b = Some r \<longrightarrow> res_type r < VACCEL_RES_MAX)
     \<and> r_initialized s \<and> s_initialized s \<and> virtio s = None"

lemma lib_okD:
  assumes "lib_ok s L G"
  shows "obj_ok s L" "sess_ok s L G" "dom (r_mem s) = set L" "r_mem s b = Some r \<Longrightarrow> res_type r < VACCEL_RES_MAX"
    "r_initialized s" "s_initialized s" "virtio s = None"
  using assms unfolding lib_ok_def by blast+

lemma lib_live: "lib_ok s L G \<Longrightarrow> r_mem s b = Some r \<Longrightarrow> b \<in> set L"
  using lib_okD(3) by blast

text \<open>Reference counts do not matter to the objects.\<close>

lemma obj_ok_refs:
  assumes ok: "obj_ok s L" and so: "same_objects s t" and st: "store_kept s t" and res: "res_ok t L"
  shows "obj_ok t L"
proof -
  note D = obj_okD [OF ok]
  have e: "map_option res_rundir (r_mem t b) = map_option res_rundir (r_mem s b)" "r_mem t b = None \<longleftrightarrow> r_mem s b = None"
    "map_option res_data (r_mem t b) = map_option res_data (r_mem s b)" "map_option cleanup_resource (r_mem t b) = map_option cleanup_resource (r_mem s b)" for b
    using st refcount_erase_fields [of "r_mem t b" "r_mem s b"] by (auto simp: store_kept_def)
  have g: "grows (os s) (os t)" using D(2) st same_heap_grows by (auto simp: store_kept_def)
  have own: "owned_files t a = owned_files s a" for a
    using e(2-4) [of a] unfolding owned_files_def object_cong [OF so] by (cases "r_mem s a"; cases "r_mem t a") (auto split: option.split)
  have rd: "rundir_of t b = rundir_of s b" for b using e(1,2) [of b] by (cases "r_mem s b"; cases "r_mem t b") (simp_all add: rundir_of_def)
  have below: "b < alloc_next (os s)" if "r_mem s b \<noteq> None" for b using that D(7) by blast
  have obj: "object_ok t a r" if a: "a \<in> set L" and r: "r_mem t a = Some r" for a r
  proof -
    obtain q where q: "r_mem s a = Some q" using e(2) [of a] r by (cases "r_mem s a") auto
    then have "res_data r = res_data q" "cleanup_resource r = cleanup_resource q" using e(3,4) [of a] r by auto
    then show ?thesis using D(3) [OF a q] unfolding object_ok_def object_cong [OF so] by simp
  qed
  show ?thesis
    unfolding obj_ok_def
  proof (intro conjI ballI allI impI)
    show "res_ok t L" by (rule res)
    show "heap_ok (os t)" using g by (simp add: grows_def)
    fix a assume a: "a \<in> set L"
    show "object_ok t a r" if "r_mem t a = Some r" for r by (rule obj [OF a that])
    show "file_ok f (os t)" if "f \<in> set (owned_files t a)" for f using grows_file_ok [OF g D(2) D(4) [OF a]] that by (simp add: own)
    show "rundir_of t b \<noteq> Some x" if "x \<in> set (owned t a)" for x b using D(6) [OF a] that by (simp add: owned_def own rd)
  next
    show "distinct (concat (map (owned t) L))" using D(5) by (simp add: owned_def own cong: map_cong)
  next
    fix b r assume r: "r_mem t b = Some r"
    then show "b < alloc_next (os t)" using below [of b] e(2) [of b] g by (auto simp: grows_def)
    show "p < alloc_next (os t)" if "res_rundir r = Some p" for p
    proof -
      have "rundir_of s b = Some p" using rd [of b] r that by (simp add: rundir_of_def)
      then show ?thesis using rundir_old [OF ok] g by (fastforce simp: grows_def)
    qed
  qed
qed

text \<open>A call of the session system.\<close>

lemma lib_session:
  assumes ok: "lib_ok s L G" and fr: "sessions_only s t" and so: "sess_ok t L G'"
  shows "lib_ok t L G'"
proof -
  note D = lib_okD [OF ok] and F = sessions_onlyD [OF fr]
  have e: "map_option res_type (r_mem t b) = map_option res_type (r_mem s b)" "r_mem t b = None \<longleftrightarrow> r_mem s b = None" for b
    using F(10) refcount_erase_fields [of "r_mem t b" "r_mem s b"] by (auto simp: store_kept_def)
  have "same_objects s t" using fr by (auto elim: sessions_onlyE simp: same_objects_def)
  then have "obj_ok t L" by (rule obj_ok_refs [OF D(1) _ F(10) sess_okD(1) [OF so]])
  moreover have "dom (r_mem t) = set L" using e(2) D(3) by (auto simp: dom_def)
  moreover have "res_type r < VACCEL_RES_MAX" if r: "r_mem t b = Some r" for b r
  proof -
    obtain q where "r_mem s b = Some q" "res_type q = res_type r" using e [of b] r by (cases "r_mem s b") auto
    then show ?thesis using D(4) by metis
  qed
  ultimately show ?thesis using so D(5-7) F(4,5,9) by (simp add: lib_ok_def)
qed

text \<open>A call that makes or destroys objects: other resources stay, and what goes or comes has no registrations.\<close>

lemma no_registrations:
  assumes "sess_ok s L G" "b \<notin> set L"
  shows "regs_of s b = {}"
proof -
  note R = reg_okD [OF sess_okD(2) [OF assms(1)]]
  have "c \<notin> regs_of s b" for c
  proof
    assume c: "c \<in> regs_of s b"
    then have "in_lists (dom (sr_mem s)) G c" using R(3) [of c] by (auto simp: regs_of_def)
    then obtain r t where "r \<in> dom (sr_mem s)" "t < VACCEL_RES_MAX" "c \<in> set (G r t)" by (auto simp: in_lists_def)
    then have "reg_typed s L t c" by (rule R(2))
    then show False using c assms(2) by (auto simp: reg_typed_def regs_of_def)
  qed
  then show ?thesis by blast
qed

lemma lib_objects:
  assumes ok: "lib_ok s L G" and fr: "objects_only s t" and obj: "obj_ok t L'" and dom: "dom (r_mem t) = set L'"
    and al: "alloc_next (os s) \<le> alloc_next (os t)"
    and ty: "\<And>b r. b \<in> set L' \<Longrightarrow> r_mem t b = Some r \<Longrightarrow> res_type r < VACCEL_RES_MAX"
    and keep: "\<And>b. b \<in> set L' \<Longrightarrow> b \<in> set L \<Longrightarrow> r_mem t b = r_mem s b" and new: "\<And>b. b \<in> set L' \<Longrightarrow> b \<notin> set L \<Longrightarrow> refs_of t b = 0"
    and gone: "\<And>b. b \<in> set L \<Longrightarrow> b \<notin> set L' \<Longrightarrow> regs_of s b = {}"
  shows "lib_ok t L' G"
proof -
  note D = lib_okD [OF ok]
  note R = reg_okD [OF sess_okD(2) [OF D(2)]]
  have F: "s_links t = s_links s" "sr_mem t = sr_mem s" "reg_mem t = reg_mem s" "s_ids t = s_ids s" "running t = running s" "s_mem t = s_mem s"
    "virtio t = virtio s" "r_initialized t = r_initialized s" "s_initialized t = s_initialized s"
    using fr by (auto elim: objects_onlyE)
  have rg: "regs_of t = regs_of s" using F(3) by (simp add: regs_of_def fun_eq_iff)
  have "reg_ok t L' G"
    unfolding reg_ok_def F(1-3)
  proof (intro conjI ballI allI impI)
    fix r ty c assume "r \<in> dom (sr_mem s)" "ty < VACCEL_RES_MAX" "c \<in> set (G r ty)"
    then have "reg_typed s L ty c" by (rule R(2))
    then obtain b rr where b: "reg_mem s c = Some (Some b)" "b \<in> set L" "r_mem s b = Some rr" "res_type rr = ty" by (auto simp: reg_typed_def)
    have b': "b \<in> set L'"
    proof (rule ccontr)
      assume "b \<notin> set L'"
      then have "regs_of s b = {}" by (rule gone [OF b(2)])
      then show False using b(1) by (auto simp: regs_of_def)
    qed
    then show "reg_typed t L' ty c" using b F(3) keep [OF b' b(2)] by (auto simp: reg_typed_def)
  next
    fix b assume b: "b \<in> set L'"
    show "refs_of t b = of_nat (card (regs_of t b))"
    proof (cases "b \<in> set L")
      case True
      then show ?thesis using R(5) keep [OF b] by (simp add: refs_of_def rg)
    next
      case False
      then show ?thesis using new [OF b] no_registrations [OF D(2) False] by (simp add: rg)
    qed
  next
    fix x assume "x \<in> dom (reg_mem s) \<union> dom (sr_mem s)"
    then have "x < alloc_next (os s)" using R(6,7) by blast
    then show "x < alloc_next (os t)" using al by simp
  qed (use R(1,3,4) in simp_all)
  moreover have "table_ok t" by (rule table_ok_frame [OF sess_okD(3) [OF D(2)]]) (use F in simp_all)
  ultimately have "sess_ok t L' G" using obj_okD(1) [OF obj] by (simp add: sess_ok_def)
  moreover have "res_type r < VACCEL_RES_MAX" if "r_mem t b = Some r" for b r using ty [of b r] that dom by blast
  ultimately show ?thesis using obj dom F(7-9) D(5-7) by (simp add: lib_ok_def)
qed


subsection \<open>The calls\<close>

datatype api_call =
    Sess_Init addr u32
  | Sess_Update addr u32
  | Sess_Free addr
  | Sess_Register addr addr
  | Sess_Unregister addr addr
  | Object_New kind addr string
  | Object_From_Buffer kind addr "u8 list"
  | Object_Destroy kind addr

fun run_call :: "api_call \<Rightarrow> 'z obj_state_scheme \<Rightarrow> (int \<times> 'z obj_state_scheme) option" where
  "run_call (Sess_Init a flags) s = vaccel_sess_init (Some a) flags s"
| "run_call (Sess_Update a flags) s = vaccel_sess_update (Some a) flags s"
| "run_call (Sess_Free a) s = vaccel_sess_free (Some a) s"
| "run_call (Sess_Register a b) s = vaccel_sess_register (Some a) (Some b) s"
| "run_call (Sess_Unregister a b) s = vaccel_sess_unregister (Some a) (Some b) s"
| "run_call (Object_New k a path) s = object_new k (Some a) (Some path) s"
| "run_call (Object_From_Buffer k a bs) s = object_new_from_buffer k (Some a) (User bs) (length bs) s"
| "run_call (Object_Destroy k a) s = object_destroy k (Some a) s"

text \<open>
  What the application must observe: a structure is not used for two sessions or objects at once, an id is left for a new
  session or resource, only running sessions are used, and a resource is destroyed after its last unregistration.
\<close>

definition free_for :: "kind \<Rightarrow> addr \<Rightarrow> 'z obj_state_scheme \<Rightarrow> bool" where
  "free_for k a s \<longleftrightarrow> obj_mem k s a \<noteq> None \<and> free_ids (r_pool s) \<noteq> []
     \<and> (\<forall>b r. r_mem s b = Some r \<longrightarrow> \<not> (cleanup_resource r = Some (kind_destructor k) \<and> res_data r = Some a))"

fun call_allowed :: "api_call \<Rightarrow> 'z obj_state_scheme \<Rightarrow> bool" where
  "call_allowed (Sess_Init a _) s \<longleftrightarrow> s_mem s a \<noteq> None \<and> (\<forall>j. \<not> runs_at s j a) \<and> free_ids (s_ids s) \<noteq> []"
| "call_allowed (Sess_Update a _) s \<longleftrightarrow> s_mem s a \<noteq> None"
| "call_allowed (Sess_Free a) s \<longleftrightarrow> (\<exists>j. runs_at s j a)"
| "call_allowed (Sess_Register a b) s \<longleftrightarrow> (\<exists>j. runs_at s j a) \<and> r_mem s b \<noteq> None"
| "call_allowed (Sess_Unregister a b) s \<longleftrightarrow> (\<exists>j. runs_at s j a) \<and> r_mem s b \<noteq> None"
| "call_allowed (Object_New k a _) s \<longleftrightarrow> free_for k a s"
| "call_allowed (Object_From_Buffer k a _) s \<longleftrightarrow> free_for k a s"
| "call_allowed (Object_Destroy k a) s \<longleftrightarrow> (\<exists>x c. obj_mem k s a = Some x \<and> o_resource x = Some c \<and> r_mem s c \<noteq> None \<and> regs_of s c = {})"

text \<open>One lemma for each call.\<close>

lemma running_session:
  assumes "sess_ok s L G" "runs_at s j a"
  obtains se r where "s_mem s a = Some se" "sess_resources se = Some r" "r \<in> dom (sr_mem s)"
  using table_okD(6) [OF sess_okD(3) [OF assms(1)] assms(2)] that by (auto simp: sres_of_def split: option.splits)

lemma sess_ok_skip:
  assumes "sess_ok s L G"
  shows "sess_ok (s\<lparr>os := (os s)\<lparr>alloc_next := Suc (alloc_next (os s))\<rparr>\<rparr>) L G" (is "sess_ok ?t L G")
proof -
  note ok3 = sess_okD [OF assms]
  have "reg_ok (s\<lparr>os := os ?t, s_links := s_links s\<rparr>) L G" by (rule reg_ok_links [OF ok3(2) reg_okD(1) [OF ok3(2)]]) simp
  moreover have "res_ok ?t L" by (rule res_ok_cong [OF ok3(1)]) simp_all
  moreover have "table_ok ?t" by (rule table_ok_frame [OF ok3(3)]) simp_all
  ultimately show ?thesis by (simp add: sess_ok_def)
qed

lemma lib_init:
  assumes ok: "lib_ok s L G" and a: "call_allowed (Sess_Init a flags) s"
  shows "\<exists>ret t L G. run_call (Sess_Init a flags) s = Some (ret, t) \<and> lib_ok t L G"
proof -
  note D = lib_okD [OF ok]
  from a obtain se i F where se: "s_mem s a = Some se" and idle: "\<not> runs_at s j a" and fr: "free_ids (s_ids s) = i # F" for j
    by (auto simp: neq_Nil_conv)
  show ?thesis
  proof (cases rule: vaccel_sess_init_ok [OF D(2,6,7) se idle fr, of flags])
    case (1 ret t)
    then show ?thesis using lib_session [OF ok sessions_only_init [OF 1(1) D(7)] 1(4)] by auto
  next
    case (2 t)
    then show ?thesis using lib_session [OF ok sessions_only_init [OF 2(1) D(7)] 2(3)] by auto
  qed
qed

lemma lib_update:
  assumes ok: "lib_ok s L G" and a: "call_allowed (Sess_Update a flags) s"
  shows "\<exists>ret t L G. run_call (Sess_Update a flags) s = Some (ret, t) \<and> lib_ok t L G"
proof -
  note D = lib_okD [OF ok]
  from a obtain se where se: "s_mem s a = Some se" by auto
  let ?t = "s_set a (se\<lparr>hint := flags\<rparr>) s"
  have run: "run_call (Sess_Update a flags) s = Some (VACCEL_OK, ?t)" using D(6,7) se by (simp add: vaccel_sess_update_def get_virtio_plugin_def)
  have "runs_at ?t = runs_at s" "sid_of ?t = sid_of s" "sres_of ?t = sres_of s"
    using se by (simp_all add: runs_at_def sid_of_def sres_of_def s_set_def fun_eq_iff)
  then have "table_ok ?t" using sess_okD(3) [OF D(2)] by (simp add: table_ok_def s_set_def)
  moreover have "res_ok ?t L" by (rule res_ok_cong [OF sess_okD(1) [OF D(2)]]) (simp_all add: s_set_def)
  moreover have "reg_ok ?t L G" by (rule reg_ok_other [OF sess_okD(2) [OF D(2)]]) (simp_all add: s_set_def)
  ultimately have "sess_ok ?t L G" by (simp add: sess_ok_def)
  then show ?thesis using lib_session [OF ok sessions_only_call(1)] run by blast
qed

lemma lib_free:
  assumes ok: "lib_ok s L G" and a: "call_allowed (Sess_Free a) s"
  shows "\<exists>ret t L G. run_call (Sess_Free a) s = Some (ret, t) \<and> lib_ok t L G"
proof -
  note D = lib_okD [OF ok]
  from a obtain j where j: "runs_at s j a" by auto
  obtain se r where se: "s_mem s a = Some se" by (rule running_session [OF D(2) j])
  obtain r t where t: "vaccel_sess_free (Some a) s = Some (VACCEL_OK, t)" "sess_ok t L (no_regs G r)"
    by (rule vaccel_sess_free_ok [OF D(2,6,7) j se])
  have "lib_ok t L (no_regs G r)" by (rule lib_session [OF ok sessions_only_free [OF t(1) D(7)] t(2)])
  then show ?thesis using t(1) by auto
qed

lemma lib_register:
  assumes ok: "lib_ok s L G" and a: "call_allowed (Sess_Register a b) s"
  shows "\<exists>ret t L G. run_call (Sess_Register a b) s = Some (ret, t) \<and> lib_ok t L G"
proof -
  note D = lib_okD [OF ok] and ok3 = sess_okD [OF lib_okD(2) [OF ok]]
  from a obtain j rr where j: "runs_at s j a" and rr: "r_mem s b = Some rr" by auto
  obtain se r where se: "s_mem s a = Some se" "sess_resources se = Some r" "r \<in> dom (sr_mem s)" by (rule running_session [OF D(2) j])
  note b = lib_live [OF ok rr] rr D(4) [OF rr]
  have "\<exists>ret t G'. vaccel_sess_register (Some a) (Some b) s = Some (ret, t) \<and> sess_ok t L G'"
  proof (cases "alloc_ok (os s) (alloc_next (os s))")
    case True
    obtain t G' where t: "vaccel_sess_register (Some a) (Some b) s = Some (VACCEL_OK, t)" "reg_ok t L G'" "reg_frame s t"
      by (rule vaccel_sess_register_ok [OF ok3(2) D(7) True se b])
    have "sess_ok t L G'"
      using reg_frame_res_ok [OF t(3) ok3(1)] t(2) table_ok_frame [OF ok3(3)] reg_frame_fields [OF t(3)] by (simp add: sess_ok_def)
    then show ?thesis using t(1) by blast
  next
    case False
    let ?t = "s\<lparr>os := (os s)\<lparr>alloc_next := Suc (alloc_next (os s))\<rparr>\<rparr>"
    have "sess_ok ?t L G" by (rule sess_ok_skip [OF D(2)])
    then show ?thesis using vaccel_sess_register_refused(4) [OF se(1,2) b(2,3) False] by blast
  qed
  then show ?thesis using lib_session [OF ok sessions_only_register [OF _ D(7)]] by (metis run_call.simps(4))
qed

lemma lib_unregister:
  assumes ok: "lib_ok s L G" and a: "call_allowed (Sess_Unregister a b) s"
  shows "\<exists>ret t L G. run_call (Sess_Unregister a b) s = Some (ret, t) \<and> lib_ok t L G"
proof -
  note D = lib_okD [OF ok] and ok3 = sess_okD [OF lib_okD(2) [OF ok]]
  from a obtain j rr where j: "runs_at s j a" and rr: "r_mem s b = Some rr" by auto
  obtain se r where se: "s_mem s a = Some se" "sess_resources se = Some r" "r \<in> dom (sr_mem s)" by (rule running_session [OF D(2) j])
  note b = rr D(4) [OF rr]
  show ?thesis
  proof (cases "registration s b (G r (res_type rr))")
    case None
    then show ?thesis using vaccel_sess_unregister_refused(3) [OF ok3(2) se b] ok by auto
  next
    case (Some c)
    obtain t G' where t: "vaccel_sess_unregister (Some a) (Some b) s = Some (VACCEL_OK, t)" "reg_ok t L G'" "reg_frame s t"
      by (rule vaccel_sess_unregister_ok [OF ok3(2) D(7) se b Some])
    have "sess_ok t L G'"
      using reg_frame_res_ok [OF t(3) ok3(1)] t(2) table_ok_frame [OF ok3(3)] reg_frame_fields [OF t(3)] by (simp add: sess_ok_def)
    then show ?thesis using lib_session [OF ok sessions_only_unregister [OF t(1) D(7)]] t(1) by auto
  qed
qed

text \<open>The two ways to make an object leave the resource \<open>alloc_next\<close> behind, or nothing.\<close>

lemma free_forD:
  assumes "free_for k a s" "lib_ok s L G"
  obtains x rid F where "obj_mem k s a = Some x" "free_ids (r_pool s) = rid # F" "unused k a s L"
  using assms that by (auto simp: free_for_def unused_def neq_Nil_conv)

lemma lib_made:
  assumes ok: "lib_ok s L G" and fr: "objects_only s t" and obj: "obj_ok t (L @ [alloc_next (os s)])"
    and m: "r_mem t = (r_mem s)(alloc_next (os s) \<mapsto> R)" "res_type R = kind_type k" "refcount R = 0" and al: "alloc_next (os s) \<le> alloc_next (os t)"
  shows "lib_ok t (L @ [alloc_next (os s)]) G"
proof (rule lib_objects [OF ok fr obj _ al])
  note D = lib_okD [OF ok] and c = fresh_resource [OF lib_okD(1) [OF ok]]
  show "dom (r_mem t) = set (L @ [alloc_next (os s)])" using m(1) D(3) by auto
  show "res_type r < VACCEL_RES_MAX" if "r_mem t b = Some r" for b r
    using that D(4) m(1,2) by (cases k) (auto simp: kind_type_def split: if_splits)
  show "r_mem t b = r_mem s b" if "b \<in> set L" for b using that c(2) m(1) by auto
  show "refs_of t b = 0" if "b \<in> set (L @ [alloc_next (os s)])" "b \<notin> set L" for b using that m(1,3) by (simp add: refs_of_def)
qed simp

lemma lib_not_made:
  assumes ok: "lib_ok s L G" and fr: "objects_only s t" and obj: "obj_ok t L" and m: "r_mem t = r_mem s" and al: "alloc_next (os s) \<le> alloc_next (os t)"
  shows "lib_ok t L G"
  by (rule lib_objects [OF ok fr obj _ al]) (use m lib_okD(3,4) [OF ok] in auto)

lemma lib_new:
  assumes ok: "lib_ok s L G" and a: "call_allowed (Object_New k a path) s"
  shows "\<exists>ret t L G. run_call (Object_New k a path) s = Some (ret, t) \<and> lib_ok t L G"
proof -
  note D = lib_okD [OF ok]
  obtain x rid F where x: "obj_mem k s a = Some x" "free_ids (r_pool s) = rid # F" "unused k a s L"
    using a by (auto intro: free_forD [OF _ ok])
  show ?thesis
  proof (cases rule: object_new_ok [OF D(1,5,7) x(1,3,2), of path])
    case (1 ret t)
    then show ?thesis using lib_not_made [OF ok objects_only_path [OF 1(1) D(7)] 1(3,4,6)] by auto
  next
    case (2 t y R)
    then show ?thesis using lib_made [OF ok objects_only_path [OF 2(1) D(7)] 2(2,6,8,9,13)] by auto
  qed
qed

lemma lib_from_buffer:
  assumes ok: "lib_ok s L G" and a: "call_allowed (Object_From_Buffer k a bs) s"
  shows "\<exists>ret t L G. run_call (Object_From_Buffer k a bs) s = Some (ret, t) \<and> lib_ok t L G"
proof (cases "bs = []")
  case True
  then show ?thesis using ok by (auto simp: object_new_from_buffer_def)
next
  case False
  note D = lib_okD [OF ok]
  obtain x rid F where x: "obj_mem k s a = Some x" "free_ids (r_pool s) = rid # F" "unused k a s L"
    using a by (auto intro: free_forD [OF _ ok])
  show ?thesis
  proof (cases rule: object_new_from_buffer_ok [OF D(1,5,7) x(1,3,2) False])
    case (1 ret t)
    then show ?thesis using lib_not_made [OF ok objects_only_create [OF 1(1) D(7)] 1(3,4,6)] by auto
  next
    case (2 t y R path)
    then show ?thesis using lib_made [OF ok objects_only_create [OF 2(1) D(7)] 2(2,7,9,10,14)] by auto
  qed
qed

lemma lib_gone:
  assumes ok: "lib_ok s L G" and fr: "objects_only s t" and obj: "obj_ok t (remove1 c L)" and m: "r_mem t = (r_mem s)(c := None)"
    and c: "regs_of s c = {}" and al: "alloc_next (os s) \<le> alloc_next (os t)"
  shows "lib_ok t (remove1 c L) G"
proof (rule lib_objects [OF ok fr obj _ al])
  note D = lib_okD [OF ok]
  have L': "set (remove1 c L) = set L - {c}" using res_ok_distinct [OF obj_okD(1) [OF D(1)]] by (simp add: set_remove1_eq)
  show "dom (r_mem t) = set (remove1 c L)" using m D(3) L' by auto
  show "res_type r < VACCEL_RES_MAX" if "r_mem t b = Some r" for b r using that m D(4) by (auto split: if_splits)
  show "r_mem t b = r_mem s b" if "b \<in> set (remove1 c L)" for b using that m L' by auto
  show "refs_of t b = 0" if "b \<in> set (remove1 c L)" "b \<notin> set L" for b using that L' by simp
  show "regs_of s b = {}" if "b \<in> set L" "b \<notin> set (remove1 c L)" for b using that c L' by auto
qed

lemma lib_destroy:
  assumes ok: "lib_ok s L G" and a: "call_allowed (Object_Destroy k a) s"
  shows "\<exists>ret t L G. run_call (Object_Destroy k a) s = Some (ret, t) \<and> lib_ok t L G"
proof -
  note D = lib_okD [OF ok]
  from a obtain x c r where x: "obj_mem k s a = Some x" "o_resource x = Some c" "r_mem s c = Some r" "regs_of s c = {}" by auto
  have c: "c \<in> set L" by (rule lib_live [OF ok x(3)])
  have "refs_of s c = 0" using reg_okD(5) [OF sess_okD(2) [OF D(2)] c] x(4) by simp
  then have r0: "refcount r = 0" using x(3) by (simp add: refs_of_def)
  obtain t where t: "object_destroy k (Some a) s = Some (VACCEL_OK, t)" "obj_ok t (remove1 c L)" "r_mem t = (r_mem s)(c := None)"
    "frees (set (owned s c) \<union> set_option (res_rundir r)) (os s) (os t)"
    by (rule object_destroy_ok [OF D(1,5,7) x(1,2) c x(3) r0])
  have "lib_ok t (remove1 c L) G"
    by (rule lib_gone [OF ok objects_only_end [OF t(1) D(7)] t(2,3) x(4)]) (use t(4) in \<open>simp add: frees_def\<close>)
  then show ?thesis using t(1) by auto
qed

lemma lib_call:
  assumes "lib_ok s L G" "call_allowed c s"
  shows "\<exists>ret t L G. run_call c s = Some (ret, t) \<and> lib_ok t L G"
  using assms by (cases c) (simp_all only: lib_init lib_update lib_free lib_register lib_unregister lib_new lib_from_buffer lib_destroy)

subsection \<open>The machine\<close>

inductive lib_step :: "'z obj_state_scheme \<Rightarrow> 'z obj_state_scheme \<Rightarrow> bool" where
  call: "call_allowed c s \<Longrightarrow> run_call c s = Some (ret, t) \<Longrightarrow> lib_step s t"

inductive_cases lib_stepE: "lib_step s t"

lemma lib_reachable:
  assumes "lib_step\<^sup>*\<^sup>* s t" "lib_ok s L G"
  shows "\<exists>L G. lib_ok t L G"
  using assms
proof (induction rule: rtranclp_induct)
  case (step t u)
  then obtain L G where ok: "lib_ok t L G" by blast
  from step(2) obtain c ret where c: "call_allowed c t" "run_call c t = Some (ret, u)" by (rule lib_stepE)
  show ?case using lib_call [OF ok c(1)] c(2) by auto
qed blast

subsection \<open>A library that has started\<close>

lemma lib_ok_start:
  assumes "sess_ok s [] G" "heap_ok (os s)" "r_mem s = Map.empty" "r_initialized s" "s_initialized s" "virtio s = None"
  shows "lib_ok s [] G"
  using assms sess_okD(1) [OF assms(1)] by (simp add: lib_ok_def obj_ok_def)

definition lib_booted :: obj_state where
  "lib_booted = snd (sessions_bootstrap obj_booted)"

lemma lib_booted: "lib_ok lib_booted [] (\<lambda>_ _. [])" "s_mem lib_booted a = Some no_session" "\<not> runs_at lib_booted j a"
  "free_ids (s_ids lib_booted) \<noteq> []" "free_ids (r_pool lib_booted) \<noteq> []" "obj_mem k lib_booted a = Some no_object" "r_mem lib_booted = Map.empty"
  "os lib_booted = calm_os\<lparr>alloc_next := 3\<rparr>" "free_ids (r_pool lib_booted) = map int [1..<Suc MAX_RESOURCES]"
proof -
  have clean: "sr_mem obj_booted = Map.empty" "reg_mem obj_booted = Map.empty" "s_mem obj_booted a = Some no_session"
    by (simp_all add: obj_booted_def sess_state.defs res_state.defs)
  have mem: "alloc_ok (os obj_booted) (alloc_next (os obj_booted))" by (simp add: obj_booted(8) calm_os_def)
  obtain s' where s': "sessions_bootstrap obj_booted = (VACCEL_OK, s')" "sess_ok s' [] (\<lambda>_ _. [])" "s_initialized s'"
    "free_ids (s_ids s') = map int [1..<Suc MAX_VACCEL_SESSIONS]"
    "\<exists>p. s' = obj_booted\<lparr>s_ids := p, os := (os obj_booted)\<lparr>alloc_next := Suc (alloc_next (os obj_booted))\<rparr>,
       running := replicate MAX_VACCEL_SESSIONS None, s_initialized := True\<rparr>"
    by (rule sessions_bootstrap_ok [OF obj_okD(1) [OF obj_booted(1)] mem clean(1,2)]) (simp, rule that)
  from s'(5) obtain p where sh: "s' = obj_booted\<lparr>s_ids := p, os := (os obj_booted)\<lparr>alloc_next := Suc (alloc_next (os obj_booted))\<rparr>,
       running := replicate MAX_VACCEL_SESSIONS None, s_initialized := True\<rparr>" by blast
  have b: "lib_booted = s'" using s'(1) by (simp add: lib_booted_def)
  have f: "r_mem s' = Map.empty" "r_initialized s'" "virtio s' = None" "os s' = (os obj_booted)\<lparr>alloc_next := Suc (alloc_next (os obj_booted))\<rparr>"
    "r_pool s' = r_pool obj_booted" "s_mem s' = s_mem obj_booted" "running s' = replicate MAX_VACCEL_SESSIONS None" "obj_mem k s' = obj_mem k obj_booted"
    unfolding sh using obj_booted by (cases k; simp add: obj_mem_def)+
  have "heap_ok (os s')" unfolding f(4) using obj_okD(2) [OF obj_booted(1)] by (simp add: heap_ok_def)
  then show "lib_ok lib_booted [] (\<lambda>_ _. [])" unfolding b by (rule lib_ok_start [OF s'(2) _ f(1,2) s'(3) f(3)])
  show "s_mem lib_booted a = Some no_session" "\<not> runs_at lib_booted j a" "obj_mem k lib_booted a = Some no_object" "r_mem lib_booted = Map.empty"
    unfolding b using f clean obj_booted(4) by (auto simp: runs_at_def)
  show "free_ids (s_ids lib_booted) \<noteq> []" "free_ids (r_pool lib_booted) \<noteq> []"
    unfolding b s'(4) f(5) obj_booted(6) by (simp_all add: MAX_VACCEL_SESSIONS_def)
  show "os lib_booted = calm_os\<lparr>alloc_next := 3\<rparr>" unfolding b f(4) obj_booted(8) by simp
  have "1 < Suc MAX_RESOURCES" by (simp add: MAX_RESOURCES_def)
  then show "free_ids (r_pool lib_booted) = map int [1..<Suc MAX_RESOURCES]" unfolding b f(5) obj_booted(6) by (simp only: upt_conv_Cons) (simp add: numeral_2_eq_2)
qed

lemma booted_calls:
  "call_allowed (Sess_Init a flags) lib_booted" "call_allowed (Object_From_Buffer k a bs) lib_booted"
  using lib_booted by (simp_all add: free_for_def)

subsection \<open>Properties\<close>

text \<open>
  C1. Type soundness of the library: in a state that satisfies the invariant of sessions, resources, objects and heap, every call that the
  application may make (starting, changing and ending a session, registering and unregistering a resource, making an object from a path or a buffer, destroying
  one), whether it succeeds or fails for want of memory or because of the operating system, returns, and leaves a state that satisfies the invariant.
\<close>

theorem library_calls_safe:
  assumes "lib_ok s L G" "call_allowed c s"
  shows "\<exists>ret t L' G'. run_call c s = Some (ret, t) \<and> lib_ok t L' G'"
  by (rule lib_call [OF assms])

theorem library_calls_safe_witness:
  "\<exists>ret t L G. run_call (Object_From_Buffer Shared_Obj 30 [1, 2]) lib_booted = Some (ret, t) \<and> lib_ok t L G"
  by (rule library_calls_safe [OF lib_booted(1) booted_calls(2)])

text \<open>
  C2. After any sequence of allowed calls: no two resources have the same id; the reference count of every resource is the number of its
  registrations with sessions, modulo \<open>2\<^sup>3\<^sup>2\<close>; every running session has the id of its place in the table, so that the ids are different; no two resources own the
  same path string, mapping or directory name, and all they own is allocated; and every further allowed call returns.
\<close>

theorem library_reachable:
  assumes "lib_step\<^sup>*\<^sup>* s t" "lib_ok s L G"
  shows "inj_on (rid_of t) (dom (r_mem t))
    \<and> (\<forall>b r. r_mem t b = Some r \<longrightarrow> refcount r = of_nat (card (regs_of t b)))
    \<and> (\<forall>i a. runs_at t i a \<longrightarrow> sid_of t a = int i + 1)
    \<and> (\<forall>b c. b \<in> dom (r_mem t) \<longrightarrow> c \<in> dom (r_mem t) \<longrightarrow> b \<noteq> c \<longrightarrow> held t b \<inter> held t c = {})
    \<and> (\<forall>b\<in>dom (r_mem t). (\<forall>f\<in>set (owned_files t b). file_ok f (os t)) \<and> (\<forall>p. rundir_of t b = Some p \<longrightarrow> strs (os t) p \<noteq> None))
    \<and> (\<forall>c. call_allowed c t \<longrightarrow> run_call c t \<noteq> None)"
proof -
  obtain M H where ok: "lib_ok t M H" using lib_reachable [OF assms] by blast
  note D = lib_okD [OF ok] and O = obj_okD [OF lib_okD(1) [OF ok]] and S = sess_okD [OF lib_okD(2) [OF ok]]
  have "refcount r = of_nat (card (regs_of t b))" if "r_mem t b = Some r" for b r
    using reg_okD(5) [OF S(2) lib_live [OF ok that]] that by (simp add: refs_of_def)
  moreover have "call_allowed c t \<Longrightarrow> run_call c t \<noteq> None" for c using lib_call [OF ok] by fastforce
  moreover have dirs: "rundirs_ok t M" using S(1) by (simp add: res_ok_def)
  have "held t b \<inter> held t c = {}" if "b \<in> dom (r_mem t)" "c \<in> dom (r_mem t)" "b \<noteq> c" for b c
  proof -
    have bc: "b \<in> set M" "c \<in> set M" using that D(3) by simp_all
    have "set (owned t b) \<inter> set (owned t c) = {}" using owned_disjoint [OF O(5)] bc that(3) by metis
    moreover have "set_option (rundir_of t b) \<inter> set_option (rundir_of t c) = {}" using dirs bc that(3) by (auto simp: rundirs_ok_def)
    moreover have "x \<notin> set_option (rundir_of t c)" if "x \<in> set (owned t b)" for x using O(6) [OF bc(1) that] by simp
    moreover have "x \<notin> set_option (rundir_of t b)" if "x \<in> set (owned t c)" for x using O(6) [OF bc(2) that] by simp
    ultimately show ?thesis unfolding held_def by blast
  qed
  moreover have "strs (os t) p \<noteq> None" if "b \<in> dom (r_mem t)" "rundir_of t b = Some p" for b p using dirs that D(3) by (simp add: rundirs_ok_def)
  ultimately show ?thesis using res_okD(5) [OF S(1)] table_okD(5) [OF S(3)] O(4) D(3) by simp
qed

theorem library_reachable_witness:
  "\<exists>t. lib_step lib_booted t \<and> (\<forall>i a. runs_at t i a \<longrightarrow> sid_of t a = int i + 1) \<and> (\<forall>c. call_allowed c t \<longrightarrow> run_call c t \<noteq> None)"
proof -
  obtain ret t where "run_call (Sess_Init 20 0) lib_booted = Some (ret, t)" using lib_call [OF lib_booted(1) booted_calls(1)] by blast
  then have st: "lib_step lib_booted t" by (rule call [OF booted_calls(1)])
  show ?thesis using library_reachable [OF r_into_rtranclp [where r = lib_step, OF st] lib_booted(1)] st by blast
qed

end
