(* ===== verification/Clients.thy ===== *)
theory Clients
  imports Library
begin

text \<open>
  The calls of \<open>Library\<close> as a client sees them that knows which object it has made (\<open>in_use\<close>), which session it runs
  (\<open>in_session\<close>) and what is registered with it (\<open>reg_in\<close>): what each call gives to such a client, and that it leaves what the client knows of
  everything else alone.
\<close>

subsection \<open>What a client knows\<close>

text \<open>The object at \<open>m\<close> has the live resource \<open>c\<close>.\<close>

definition in_use :: "kind \<Rightarrow> addr \<Rightarrow> addr \<Rightarrow> 'z obj_state_scheme \<Rightarrow> bool" where
  "in_use k m c s \<longleftrightarrow> (\<exists>x r. obj_mem k s m = Some x \<and> o_resource x = Some c \<and> r_mem s c = Some r \<and> res_type r = kind_type k
     \<and> cleanup_resource r = Some (kind_destructor k) \<and> res_data r = Some m)"

text \<open>\<open>c\<close> is a live resource of the type of \<open>k\<close>.\<close>

definition live_as :: "kind \<Rightarrow> addr \<Rightarrow> 'z res_state_scheme \<Rightarrow> bool" where
  "live_as k c s \<longleftrightarrow> (\<exists>r. r_mem s c = Some r \<and> res_type r = kind_type k)"

lemma in_use_live_as: "in_use k m c s \<Longrightarrow> live_as k c s"
  by (auto simp: in_use_def live_as_def)

text \<open>The session at \<open>a\<close> runs in place \<open>j\<close> of the table, with its lists at \<open>q\<close>.\<close>

definition in_session :: "addr list \<Rightarrow> (addr \<Rightarrow> nat \<Rightarrow> addr list) \<Rightarrow> addr \<Rightarrow> nat \<Rightarrow> addr \<Rightarrow> 'z obj_state_scheme \<Rightarrow> bool" where
  "in_session L G a j q s \<longleftrightarrow> lib_ok s L G \<and> runs_at s j a \<and> sres_of s a = Some q"

text \<open>The resource \<open>c\<close> has one registration, in the list of its type at \<open>q\<close>.\<close>

definition reg_in :: "(addr \<Rightarrow> nat \<Rightarrow> addr list) \<Rightarrow> addr \<Rightarrow> kind \<Rightarrow> addr \<Rightarrow> 'z sess_state_scheme \<Rightarrow> bool" where
  "reg_in G q k c s \<longleftrightarrow> (\<exists>e. e \<in> set (G q (kind_type k)) \<and> regs_of s c = {e})"

lemma in_sessionD:
  assumes "in_session L G a j q s"
  obtains se where "lib_ok s L G" "runs_at s j a" "s_mem s a = Some se" "sess_resources se = Some q" "q \<in> dom (sr_mem s)"
proof -
  from assms have s: "lib_ok s L G" "runs_at s j a" "sres_of s a = Some q" by (simp_all add: in_session_def)
  then obtain se where "s_mem s a = Some se" "sess_resources se = Some q" by (auto simp: sres_of_def split: option.splits)
  moreover have "q \<in> dom (sr_mem s)" using table_okD(6) [OF sess_okD(3) [OF lib_okD(2) [OF s(1)]] s(2)] s(3) by simp
  ultimately show thesis using that s by blast
qed

lemma in_use_live: "in_use k m c s \<Longrightarrow> lib_ok s L G \<Longrightarrow> c \<in> set L"
  using lib_live unfolding in_use_def by blast

lemma in_use_session:
  assumes "in_use k m c s" "sessions_only s t"
  shows "in_use k m c t"
proof -
  obtain x r where x: "obj_mem k s m = Some x" "o_resource x = Some c" and r: "r_mem s c = Some r" "res_type r = kind_type k"
    "cleanup_resource r = Some (kind_destructor k)" "res_data r = Some m" using assms(1) unfolding in_use_def by blast
  have "obj_mem k t = obj_mem k s" using assms(2) by (cases k) (auto elim!: sessions_onlyE simp: obj_mem_def)
  moreover have "map_option (\<lambda>r. r\<lparr>refcount := 0\<rparr>) (r_mem t c) = map_option (\<lambda>r. r\<lparr>refcount := 0\<rparr>) (r_mem s c)"
    using sessions_onlyD(10) [OF assms(2)] by (simp add: store_kept_def)
  note e = refcount_erase_fields [OF this]
  then obtain r' where "r_mem t c = Some r'" using r(1) by (cases "r_mem t c") auto
  moreover from this have "res_type r' = res_type r" "cleanup_resource r' = cleanup_resource r" "res_data r' = res_data r" using e r(1) by simp_all
  ultimately show ?thesis using x r unfolding in_use_def by metis
qed

subsection \<open>Making an object\<close>

text \<open>The outcome \<open>ret\<close>, \<open>t\<close> of making the object at \<open>m\<close>.\<close>

definition creates :: "kind \<Rightarrow> addr \<Rightarrow> addr list \<Rightarrow> (addr \<Rightarrow> nat \<Rightarrow> addr list) \<Rightarrow> 'z obj_state_scheme \<Rightarrow> int \<Rightarrow> 'z obj_state_scheme \<Rightarrow> bool" where
  "creates k m L G s ret t \<longleftrightarrow> objects_only s t \<and> alloc_next (os s) \<le> alloc_next (os t) \<and> (if ret \<noteq> 0 then lib_ok t L G
     else \<exists>y R. lib_ok t (L @ [alloc_next (os s)]) G \<and> obj_upd k m y s t \<and> o_resource y = Some (alloc_next (os s))
       \<and> r_mem t = (r_mem s)(alloc_next (os s) \<mapsto> R) \<and> res_type R = kind_type k \<and> cleanup_resource R = Some (kind_destructor k) \<and> res_data R = Some m
       \<and> free_ids (r_pool s) = res_id R # free_ids (r_pool t))"

lemma creates_path:
  assumes ok: "lib_ok s L G" and a: "free_for k m s"
  shows "\<exists>ret t. object_new k (Some m) (Some path) s = Some (ret, t) \<and> creates k m L G s ret t"
proof -
  note D = lib_okD [OF ok]
  obtain x rid F where x: "obj_mem k s m = Some x" "free_ids (r_pool s) = rid # F" "unused k m s L" by (rule free_forD [OF a ok])
  show ?thesis
  proof (cases rule: object_new_ok [OF D(1,5,7) x(1,3,2), of path])
    case (1 ret t)
    note fr = objects_only_path [OF 1(1) D(7)]
    show ?thesis using lib_not_made [OF ok fr 1(3,4,6)] fr 1(1,2,6) by (auto simp: creates_def)
  next
    case (2 t y R)
    note fr = objects_only_path [OF 2(1) D(7)]
    show ?thesis using lib_made [OF ok fr 2(2,6,8,9,13)] fr 2 x(2) by (intro exI [of _ "VACCEL_OK"] exI [of _ t]) (auto simp: creates_def)
  qed
qed

lemma creates_buffer:
  assumes ok: "lib_ok s L G" and a: "free_for k m s"
  shows "\<exists>ret t. object_new_from_buffer k (Some m) (User bs) (length bs) s = Some (ret, t) \<and> creates k m L G s ret t"
proof (cases "bs = []")
  case True
  then show ?thesis using ok objects_only_set(1) by (auto simp: object_new_from_buffer_def creates_def)
next
  case False
  note D = lib_okD [OF ok]
  obtain x rid F where x: "obj_mem k s m = Some x" "free_ids (r_pool s) = rid # F" "unused k m s L" by (rule free_forD [OF a ok])
  show ?thesis
  proof (cases rule: object_new_from_buffer_ok [OF D(1,5,7) x(1,3,2) False])
    case (1 ret t)
    note fr = objects_only_create [OF 1(1) D(7)]
    show ?thesis using lib_not_made [OF ok fr 1(3,4,6)] fr 1(1,2,6) by (auto simp: creates_def)
  next
    case (2 t y R path)
    note fr = objects_only_create [OF 2(1) D(7)]
    show ?thesis using lib_made [OF ok fr 2(2,7,9,10,14)] fr 2 x(2) by (intro exI [of _ "VACCEL_OK"] exI [of _ t]) (auto simp: creates_def)
  qed
qed

text \<open>What a client knows after it has made an object.\<close>

lemma objects_only_regs: "objects_only s t \<Longrightarrow> regs_of t = regs_of s"
  by (auto elim!: objects_onlyE simp: regs_of_def fun_eq_iff)

lemma creates_failed: "creates k m L G s ret t \<Longrightarrow> ret \<noteq> 0 \<Longrightarrow> lib_ok t L G"
  by (simp add: creates_def)

lemma creates_ok:
  assumes ok: "lib_ok s L G" and cr: "creates k m L G s 0 t"
  defines "c \<equiv> alloc_next (os s)"
  shows "lib_ok t (L @ [c]) G" "in_use k m c t" "objects_only s t" "regs_of t c = {}" "c \<notin> set L"
    "in_use k m' c' s \<Longrightarrow> m' \<noteq> m \<Longrightarrow> in_use k m' c' t"
    "free_for k m' s \<Longrightarrow> m' \<noteq> m \<Longrightarrow> free_ids (r_pool t) \<noteq> [] \<Longrightarrow> free_for k m' t"
    "length (free_ids (r_pool s)) = Suc (length (free_ids (r_pool t)))"
    "set (free_ids (r_pool s)) = insert (rid_of t c) (set (free_ids (r_pool t)))" "alloc_next (os s) \<le> alloc_next (os t)"
proof -
  from cr obtain y R where fr: "objects_only s t" "alloc_next (os s) \<le> alloc_next (os t)" and c: "lib_ok t (L @ [c]) G" "obj_upd k m y s t" "o_resource y = Some c"
    "r_mem t = (r_mem s)(c \<mapsto> R)" "res_type R = kind_type k" "cleanup_resource R = Some (kind_destructor k)" "res_data R = Some m"
    "free_ids (r_pool s) = res_id R # free_ids (r_pool t)"
    by (auto simp: creates_def c_def)
  note new = fresh_resource [OF lib_okD(1) [OF ok], folded c_def]
  have y: "obj_mem k t m = Some y" "\<And>m'. m' \<noteq> m \<Longrightarrow> obj_mem k t m' = obj_mem k s m'"
    using c(2) by (cases k; auto simp: obj_upd_def obj_mem_def)+
  show "lib_ok t (L @ [c]) G" "objects_only s t" "c \<notin> set L" "alloc_next (os s) \<le> alloc_next (os t)" by (fact c(1) fr new(2))+
  show "in_use k m c t" using y c by (simp add: in_use_def)
  show "regs_of t c = {}" using no_registrations [OF lib_okD(2) [OF ok] new(2)] objects_only_regs [OF fr(1)] by simp
  show "in_use k m' c' s \<Longrightarrow> m' \<noteq> m \<Longrightarrow> in_use k m' c' t" using y(2) c(4) new(1) by (auto simp: in_use_def)
  show "free_for k m' s \<Longrightarrow> m' \<noteq> m \<Longrightarrow> free_ids (r_pool t) \<noteq> [] \<Longrightarrow> free_for k m' t"
    using y(2) c(4,7) by (auto simp: free_for_def)
  show "length (free_ids (r_pool s)) = Suc (length (free_ids (r_pool t)))" "set (free_ids (r_pool s)) = insert (rid_of t c) (set (free_ids (r_pool t)))"
    using c(4,8) by (simp_all add: rid_of_def)
qed

subsection \<open>Starting and ending a session\<close>

lemma in_session_objects:
  assumes "in_session L G a j q s" "objects_only s t" "lib_ok t L' G"
  shows "in_session L' G a j q t"
proof -
  have "running t = running s" "s_mem t = s_mem s" using assms(2) by (auto elim: objects_onlyE)
  then show ?thesis using assms(1,3) by (simp add: in_session_def runs_at_def sres_of_def)
qed

lemma use_init:
  assumes ok: "lib_ok s L G" and se: "s_mem s a = Some se" and idle: "\<And>j. \<not> runs_at s j a" and fr: "free_ids (s_ids s) = i # F"
  shows "\<exists>ret t. vaccel_sess_init (Some a) flags s = Some (ret, t) \<and> sessions_only s t
    \<and> (if ret \<noteq> 0 then lib_ok t L G else in_session L (no_regs G (alloc_next (os s))) a (nat (i - 1)) (alloc_next (os s)) t
      \<and> regs_of t = regs_of s \<and> free_ids (s_ids t) = F \<and> running t = (running s)[nat (i - 1) := Some a] \<and> running s ! nat (i - 1) = None \<and> int (nat (i - 1)) + 1 = i)"
proof -
  note D = lib_okD [OF ok]
  note T = table_okD [OF sess_okD(3) [OF D(2)]]
  show ?thesis
  proof (cases rule: vaccel_sess_init_ok [OF D(2,6,7) se idle fr, of flags])
    case (1 ret t)
    note so = sessions_only_init [OF 1(1) D(7)]
    show ?thesis using lib_session [OF ok so 1(4)] so 1(1,3) by (intro exI [of _ ret] exI [of _ t]) simp
  next
    case (2 t)
    note so = sessions_only_init [OF 2(1) D(7)]
    have i: "1 \<le> i" "i \<le> int MAX_VACCEL_SESSIONS" "i \<notin> used_ids (s_ids s)"
      using pool.free_range [OF T(1)] fr T(2) by (auto simp: used_ids_def)
    define j where "j = nat (i - 1)"
    have j: "j < MAX_VACCEL_SESSIONS" "int j + 1 = i" "running s ! j = None" using i T(4) [of j] by (auto simp: j_def)
    have "runs_at t j a" using 2(5) j(1) T(3) by (simp add: runs_at_def j_def [symmetric])
    moreover have "sres_of t a = Some (alloc_next (os s))" using 2(6) by (simp add: sres_of_def)
    moreover have "regs_of t = regs_of s" using 2(11) by (simp add: regs_of_def fun_eq_iff)
    ultimately show ?thesis
      using 2(1,4,5) so lib_session [OF ok so 2(3)] j(2,3) unfolding j_def
      by (intro exI [of _ VACCEL_OK] exI [of _ t]) (simp add: in_session_def)
  qed
qed

lemma use_free:
  assumes u: "in_session L G a j q s"
  shows "\<exists>t G'. vaccel_sess_free (Some a) s = Some (VACCEL_OK, t) \<and> sessions_only s t \<and> lib_ok t L G'
    \<and> free_ids (s_ids t) = (int j + 1) # free_ids (s_ids s) \<and> running t = (running s)[j := None] \<and> (\<forall>b. regs_of t b \<subseteq> regs_of s b)"
proof -
  obtain se where s: "lib_ok s L G" "runs_at s j a" "s_mem s a = Some se" by (rule in_sessionD [OF u])
  note D = lib_okD [OF s(1)]
  obtain r t where t: "vaccel_sess_free (Some a) s = Some (VACCEL_OK, t)" "sess_ok t L (no_regs G r)"
    "free_ids (s_ids t) = (int j + 1) # free_ids (s_ids s)" "running t = (running s)[j := None]" and sub: "reg_mem t \<subseteq>\<^sub>m reg_mem s"
    by (rule vaccel_sess_free_ok [OF D(2,6,7) s(2,3)])
  have so: "sessions_only s t" by (rule sessions_only_free [OF t(1) D(7)])
  have "regs_of t b \<subseteq> regs_of s b" for b using sub unfolding regs_of_def map_le_def by (auto simp: dom_def)
  then show ?thesis using t so lib_session [OF s(1) so t(2)] by blast
qed

subsection \<open>Registrations\<close>

text \<open>What registering and unregistering leave alone.\<close>

definition same_session :: "'z sess_state_scheme \<Rightarrow> 'z sess_state_scheme \<Rightarrow> bool" where
  "same_session s t \<longleftrightarrow> sessions_only s t \<and> s_ids t = s_ids s \<and> running t = running s \<and> s_mem t = s_mem s"

lemma in_session_same:
  assumes "in_session L G a j q s" "same_session s t" "sess_ok t L G'"
  shows "in_session L G' a j q t"
  using assms lib_session [of s L G t G'] by (simp add: in_session_def same_session_def runs_at_def sres_of_def)

lemma live_register:
  assumes u: "in_session L G a j q s" and c: "live_as k c s" "regs_of s c = {}"
  shows "\<exists>ret t. vaccel_sess_register (Some a) (Some c) s = Some (ret, t) \<and> sessions_only s t \<and> (alloc_ok (os s) (alloc_next (os s)) \<longrightarrow> ret = 0)
    \<and> (if ret \<noteq> 0 then \<exists>G'. lib_ok t L G'
       else \<exists>G'. in_session L G' a j q t \<and> same_session s t \<and> reg_in G' q k c t \<and> (\<forall>k' c'. c' \<noteq> c \<longrightarrow> regs_of t c' = regs_of s c' \<and> (reg_in G q k' c' s \<longrightarrow> reg_in G' q k' c' t)))"
proof -
  obtain se where s: "lib_ok s L G" "runs_at s j a" "s_mem s a = Some se" "sess_resources se = Some q" "q \<in> dom (sr_mem s)" by (rule in_sessionD [OF u])
  note D = lib_okD [OF s(1)] and ok3 = sess_okD [OF lib_okD(2) [OF s(1)]]
  from c(1) obtain r where r: "r_mem s c = Some r" "res_type r = kind_type k" by (auto simp: live_as_def)
  show ?thesis
  proof (cases "alloc_ok (os s) (alloc_next (os s))")
    case True
    let ?e = "alloc_next (os s)" and ?ty = "kind_type k"
    let ?G = "upd_reg G q ?ty (G q ?ty @ [?e])"
    obtain t where t: "vaccel_sess_register (Some a) (Some c) s = Some (VACCEL_OK, t)" "reg_ok t L ?G" "reg_frame s t" "reg_mem t = (reg_mem s)(?e \<mapsto> Some c)"
      by (rule vaccel_sess_register_ok [OF ok3(2) D(7) True s(3-5) lib_live [OF s(1) r(1)] r(1) D(4) [OF r(1)], unfolded r(2)])
    note so = sessions_only_register [OF t(1) D(7)] and F = reg_frame_fields [OF t(3)]
    have sok: "sess_ok t L ?G" using reg_frame_res_ok [OF t(3) ok3(1)] t(2) table_ok_frame [OF ok3(3)] F by (simp add: sess_ok_def)
    have same: "same_session s t" using so F by (simp add: same_session_def)
    have "?e \<notin> dom (reg_mem s)" using reg_okD(6) [OF ok3(2)] by blast
    then have regs: "regs_of t c = insert ?e (regs_of s c)" "c' \<noteq> c \<Longrightarrow> regs_of t c' = regs_of s c'" for c'
      unfolding regs_of_def t(4) by auto
    have "reg_in ?G q k c t" using regs(1) c(2) by (simp add: reg_in_def)
    moreover have "reg_in ?G q k' c' t" if "c' \<noteq> c" "reg_in G q k' c' s" for k' c' using that regs(2) by (auto simp: reg_in_def)
    ultimately show ?thesis using t(1) so same in_session_same [OF u same sok] regs(2)
      by (intro exI [of _ VACCEL_OK] exI [of _ t]) (simp, intro exI [of _ ?G], simp)
  next
    case False
    let ?t = "s\<lparr>os := (os s)\<lparr>alloc_next := Suc (alloc_next (os s))\<rparr>\<rparr>"
    have run: "vaccel_sess_register (Some a) (Some c) s = Some (VACCEL_ENOMEM, ?t)"
      by (rule vaccel_sess_register_refused(4) [OF s(3,4) r(1) D(4) [OF r(1)] False])
    have "sess_ok ?t L G" by (rule sess_ok_skip [OF D(2)])
    then show ?thesis using run lib_session [OF s(1) sessions_only_register [OF run D(7)]] sessions_only_register [OF run D(7)]
      by (intro exI [of _ VACCEL_ENOMEM] exI [of _ ?t]) (auto simp: False)
  qed
qed

lemma live_unregister:
  assumes u: "in_session L G a j q s" and c: "live_as k c s" "reg_in G q k c s"
  shows "\<exists>t G'. vaccel_sess_unregister (Some a) (Some c) s = Some (VACCEL_OK, t) \<and> in_session L G' a j q t \<and> same_session s t
    \<and> regs_of t c = {} \<and> (\<forall>k' c'. c' \<noteq> c \<longrightarrow> regs_of t c' = regs_of s c' \<and> (reg_in G q k' c' s \<longrightarrow> reg_in G' q k' c' t))"
proof -
  obtain se where s: "lib_ok s L G" "runs_at s j a" "s_mem s a = Some se" "sess_resources se = Some q" "q \<in> dom (sr_mem s)" by (rule in_sessionD [OF u])
  note D = lib_okD [OF s(1)] and ok3 = sess_okD [OF lib_okD(2) [OF s(1)]]
  from c(1) obtain r where r: "r_mem s c = Some r" "res_type r = kind_type k" by (auto simp: live_as_def)
  from c(2) obtain e where e: "e \<in> set (G q (kind_type k))" "regs_of s c = {e}" by (auto simp: reg_in_def)
  have re: "reg_mem s x = Some (Some c) \<longleftrightarrow> x = e" for x using e(2) unfolding regs_of_def by blast
  have found: "registration s c (G q (kind_type k)) = Some e"
  proof (cases "registration s c (G q (kind_type k))")
    case None
    then have "reg_mem s e \<noteq> Some (Some c)" unfolding registration_None using e(1) by blast
    then show ?thesis using re by simp
  next
    case (Some x)
    then have "reg_mem s x = Some (Some c)" by (rule conjunct2 [OF registration_Some])
    then show ?thesis using re Some by simp
  qed
  let ?G = "upd_reg G q (kind_type k) (remove1 e (G q (kind_type k)))"
  obtain t where t: "vaccel_sess_unregister (Some a) (Some c) s = Some (VACCEL_OK, t)" "reg_ok t L ?G" "reg_frame s t" "reg_mem t = (reg_mem s)(e := None)"
    by (rule vaccel_sess_unregister_ok [OF ok3(2) D(7) s(3-5) r(1) D(4) [OF r(1)], unfolded r(2), OF found])
  note so = sessions_only_unregister [OF t(1) D(7)] and F = reg_frame_fields [OF t(3)]
  have sok: "sess_ok t L ?G" using reg_frame_res_ok [OF t(3) ok3(1)] t(2) table_ok_frame [OF ok3(3)] F by (simp add: sess_ok_def)
  have same: "same_session s t" using so F by (simp add: same_session_def)
  have gone: "regs_of t c = {}" unfolding regs_of_def t(4) using re by auto
  have regs: "regs_of t c' = regs_of s c'" if "c' \<noteq> c" for c'
    unfolding regs_of_def t(4) using that iffD2 [OF re refl] by auto
  have "reg_in ?G q k' c' t" if c': "c' \<noteq> c" "reg_in G q k' c' s" for k' c'
  proof -
    obtain x where x: "x \<in> set (G q (kind_type k'))" "regs_of s c' = {x}" using c'(2) by (auto simp: reg_in_def)
    then have "reg_mem s x = Some (Some c')" unfolding regs_of_def by blast
    then have "x \<noteq> e" using re c'(1) by (metis option.inject)
    then show ?thesis using x regs [OF c'(1)] by (auto simp: reg_in_def)
  qed
  then show ?thesis using t(1) same in_session_same [OF u same sok] gone regs by (intro exI [of _ t] exI [of _ ?G]) simp
qed

lemma live_registered:
  assumes u: "in_session L G a j q s" and c: "live_as k c s" "reg_in G q k c s"
  shows "vaccel_sess_has_resource (Some a) (Some c) s = Some True"
proof -
  obtain se where s: "lib_ok s L G" "s_mem s a = Some se" "sess_resources se = Some q" "q \<in> dom (sr_mem s)" by (rule in_sessionD [OF u])
  from c(1) obtain r where r: "r_mem s c = Some r" "res_type r = kind_type k" by (auto simp: live_as_def)
  from c(2) obtain e where e: "e \<in> set (G q (kind_type k))" "e \<in> regs_of s c" by (auto simp: reg_in_def)
  have "find_registered_resource (Some a) (Some c) s = Some (registration s c (G q (kind_type k)))"
    using find_registered_ok [OF sess_okD(2) [OF lib_okD(2) [OF s(1)]] s(2-4) r(1) lib_okD(4) [OF s(1) r(1)]] r(2) by simp
  moreover have "registration s c (G q (kind_type k)) \<noteq> None" unfolding registration_None using e by (auto simp: regs_of_def)
  ultimately show ?thesis by (simp add: vaccel_sess_has_resource_def)
qed

lemmas use_register = live_register [OF _ in_use_live_as]
lemmas use_unregister = live_unregister [OF _ in_use_live_as]
lemmas use_registered = live_registered [OF _ in_use_live_as]

subsection \<open>Destroying an object\<close>

lemma use_destroy:
  assumes ok: "lib_ok s L G" and c: "in_use k m c s" "regs_of s c = {}"
  shows "\<exists>t. object_destroy k (Some m) s = Some (VACCEL_OK, t) \<and> objects_only s t \<and> lib_ok t (remove1 c L) G
    \<and> (\<forall>k' m' c'. c' \<noteq> c \<longrightarrow> in_use k' m' c' s \<longrightarrow> in_use k' m' c' t)
    \<and> free_ids (r_pool t) = rid_of s c # free_ids (r_pool s)"
proof -
  note D = lib_okD [OF ok]
  from c(1) obtain x r where x: "obj_mem k s m = Some x" "o_resource x = Some c" "r_mem s c = Some r" by (auto simp: in_use_def)
  have cl: "c \<in> set L" by (rule lib_live [OF ok x(3)])
  have "refs_of s c = 0" using reg_okD(5) [OF sess_okD(2) [OF D(2)] cl] c(2) by simp
  then have r0: "refcount r = 0" using x(3) by (simp add: refs_of_def)
  obtain t where t: "object_destroy k (Some m) s = Some (VACCEL_OK, t)" "obj_ok t (remove1 c L)" "r_mem t = (r_mem s)(c := None)" "same_objects s t"
    "free_ids (r_pool t) = res_id r # free_ids (r_pool s)" "frees (set (owned s c) \<union> set_option (res_rundir r)) (os s) (os t)"
    by (rule object_destroy_ok [OF D(1,5,7) x(1,2) cl x(3) r0])
  have fr: "objects_only s t" by (rule objects_only_end [OF t(1) D(7)])
  have "lib_ok t (remove1 c L) G" by (rule lib_gone [OF ok fr t(2,3) c(2)]) (use t(6) in \<open>simp add: frees_def\<close>)
  moreover have "in_use k' m' c' t" if "c' \<noteq> c" "in_use k' m' c' s" for k' m' c'
  proof -
    have "obj_mem k' t = obj_mem k' s" using t(4) by (cases k') (simp_all add: obj_mem_def same_objects_def)
    then show ?thesis using that t(3) by (auto simp: in_use_def)
  qed
  moreover have "res_id r = rid_of s c" using x(3) by (simp add: rid_of_def)
  ultimately show ?thesis using t(1,5) fr by (intro exI [of _ t]) simp
qed

end
