(* ===== verification/Resource_Run.thy ===== *)
theory Resource_Run
  imports Resource_Examples Clients
begin

text \<open>
  The programs of \<open>Resource_Examples\<close> that make two objects run to their end, whatever fails on the way: the locale
  \<open>resource_client\<close> is the contract of what such a program does between registering the objects and taking them back.
\<close>

subsection \<open>Steps outside the library\<close>

text \<open>What reading a file and writing to local variables leave alone.\<close>

definition outside :: "'z obj_state_scheme \<Rightarrow> 'z obj_state_scheme \<Rightarrow> bool" where
  "outside s t \<longleftrightarrow> obj_state.truncate t = (obj_state.truncate s)\<lparr>os := os t\<rparr>
     \<and> strs (os t) = strs (os s) \<and> maps (os t) = maps (os s) \<and> alloc_next (os s) \<le> alloc_next (os t)"

lemma outsideD:
  assumes "outside s t"
  shows "plugins t = plugins s" "ops t = ops s" "p_links t = p_links s" "virtio t = virtio s" "r_mem t = r_mem s" "r_links t = r_links s"
    "r_pool t = r_pool s" "r_initialized t = r_initialized s" "s_links t = s_links s" "sr_mem t = sr_mem s" "reg_mem t = reg_mem s" "s_mem t = s_mem s"
    "s_ids t = s_ids s" "running t = running s" "s_initialized t = s_initialized s" "same_objects s t"
    "strs (os t) = strs (os s)" "maps (os t) = maps (os s)" "alloc_next (os s) \<le> alloc_next (os t)"
  using assms by (auto simp: outside_def obj_state.defs same_objects_def)

lemma outside_refl [simp]: "outside s s"
  by (simp add: outside_def obj_state.defs)

lemma outside_trans: "outside s t \<Longrightarrow> outside t u \<Longrightarrow> outside s u"
  by (auto simp: outside_def obj_state.defs)

lemma outside_os:
  "strs o' = strs (os s) \<Longrightarrow> maps o' = maps (os s) \<Longrightarrow> alloc_next (os s) \<le> alloc_next o' \<Longrightarrow> outside s (s\<lparr>os := o'\<rparr>)"
  by (simp add: outside_def obj_state.defs)

lemma outside_mem [simp]: "outside s (s\<lparr>mem := m\<rparr>)"
  by (simp add: outside_def obj_state.defs)

text \<open>More generally, a step may make new strings and mappings; the library does not notice either.\<close>

definition beside :: "'z obj_state_scheme \<Rightarrow> 'z obj_state_scheme \<Rightarrow> bool" where
  "beside s t \<longleftrightarrow> obj_state.truncate t = (obj_state.truncate s)\<lparr>os := os t\<rparr> \<and> (heap_ok (os s) \<longrightarrow> grows (os s) (os t))"

lemma besideD:
  assumes "beside s t"
  shows "plugins t = plugins s" "ops t = ops s" "p_links t = p_links s" "virtio t = virtio s" "r_mem t = r_mem s" "r_links t = r_links s"
    "r_pool t = r_pool s" "r_initialized t = r_initialized s" "s_links t = s_links s" "sr_mem t = sr_mem s" "reg_mem t = reg_mem s" "s_mem t = s_mem s"
    "s_ids t = s_ids s" "running t = running s" "s_initialized t = s_initialized s" "same_objects s t"
  using assms by (auto simp: beside_def obj_state.defs same_objects_def)

lemma beside_refl [simp]: "beside s s"
  by (simp add: beside_def obj_state.defs grows_refl)

lemma beside_trans: "beside s t \<Longrightarrow> beside t u \<Longrightarrow> beside s u"
  unfolding beside_def by (auto simp: obj_state.defs grows_def intro: grows_trans [unfolded grows_def])

lemma outside_beside: "outside s t \<Longrightarrow> beside s t"
  unfolding outside_def beside_def by (auto intro: same_heap_grows)

lemma beside_more: "obj_state.truncate t = obj_state.truncate s \<Longrightarrow> beside s t"
  by (auto simp: beside_def obj_state.defs grows_refl)

lemma lib_beside:
  assumes ok: "lib_ok s L G" and out: "beside s t"
  shows "lib_ok t L G"
proof -
  note D = lib_okD [OF ok] and O = besideD [OF out]
  note S = sess_okD [OF D(2)]
  have g: "grows (os s) (os t)" using out obj_okD(2) [OF D(1)] by (simp add: beside_def)
  have res: "res_ok t L" by (rule res_ok_cong [OF S(1)]) (use O res_rundirs_kept [OF D(1) g] in simp_all)
  have obj: "obj_ok t L" by (rule obj_ok_same [OF D(1) O(16,5) res g])
  have "regs_of t = regs_of s" "refs_of t = refs_of s" "reg_typed t = reg_typed s"
    using O by (simp_all add: regs_of_def refs_of_def reg_typed_def fun_eq_iff)
  then have "reg_ok t L G" using S(2) O(9-11) g unfolding reg_ok_def grows_def by (auto intro: less_le_trans)
  moreover have "table_ok t" by (rule table_ok_frame [OF S(3)]) (use O in simp_all)
  ultimately show ?thesis using obj res D(3-7) O by (simp add: lib_ok_def sess_ok_def)
qed

lemmas lib_outside = lib_beside [OF _ outside_beside]

lemma known_outside:
  assumes "outside s t"
  shows "regs_of t = regs_of s" "in_use k m c t \<longleftrightarrow> in_use k m c s" "reg_in G q k c t \<longleftrightarrow> reg_in G q k c s" "free_for k m t \<longleftrightarrow> free_for k m s"
    "in_session L G a j q s \<Longrightarrow> in_session L G a j q t"
proof -
  note O = outsideD [OF assms]
  show r: "regs_of t = regs_of s" using O by (simp add: regs_of_def fun_eq_iff)
  have m: "obj_mem k t = obj_mem k s" using O(16) by (cases k) (simp_all add: same_objects_def obj_mem_def)
  show "in_use k m c t \<longleftrightarrow> in_use k m c s" "free_for k m t \<longleftrightarrow> free_for k m s" using m O by (simp_all add: in_use_def free_for_def)
  show "reg_in G q k c t \<longleftrightarrow> reg_in G q k c s" using r by (simp add: reg_in_def)
  show "in_session L G a j q s \<Longrightarrow> in_session L G a j q t" using lib_outside [OF _ assms] O by (simp add: in_session_def runs_at_def sres_of_def)
qed

subsection \<open>Reading the file\<close>

text \<open>New blocks are not in use.\<close>

definition mem_fresh :: "'z ops_state_scheme \<Rightarrow> bool" where
  "mem_fresh s \<longleftrightarrow> (\<forall>x\<ge>alloc_next (os s). mem s x = None)"

lemma sys_call_outside:
  assumes "os_call sys_call s = (e, t)"
  shows "outside s t" "t = s\<lparr>os := os t\<rparr>" "alloc_next (os t) = alloc_next (os s)"
proof -
  obtain o' where o': "sys_call (os s) = (e, o')" "t = s\<lparr>os := o'\<rparr>" using assms by (auto simp: os_call_def split: prod.split_asm)
  then show "t = s\<lparr>os := os t\<rparr>" by simp
  show "outside s t" unfolding o'(2) by (rule outside_os) (use o'(1) in \<open>auto simp: sys_call_def\<close>)
  show "alloc_next (os t) = alloc_next (os s)" using o' by (auto simp: sys_call_def)
qed

lemma malloc_bytes_outside:
  assumes "malloc_bytes n s = (p, t)"
  shows "outside s t" "case p of None \<Rightarrow> mem t = mem s | Some a \<Rightarrow> a = alloc_next (os s) \<and> (\<exists>b. mem t = (mem s)(a \<mapsto> b))"
proof -
  let ?o = "(os s)\<lparr>alloc_next := Suc (alloc_next (os s))\<rparr>"
  have t: "t = s\<lparr>os := ?o\<rparr> \<and> p = None \<or> (\<exists>m. t = s\<lparr>os := ?o, mem := (mem s)(alloc_next (os s) \<mapsto> m)\<rparr>) \<and> p = Some (alloc_next (os s))"
    using assms by (auto simp: malloc_bytes_def os_call_def malloc_def split: if_splits)
  have o0: "outside s (s\<lparr>os := ?o\<rparr>)" by (rule outside_os) simp_all
  then have "outside s (s\<lparr>os := ?o, mem := m\<rparr>)" for m using outside_trans [OF _ outside_mem] by blast
  then show "outside s t" using t o0 by auto
  show "case p of None \<Rightarrow> mem t = mem s | Some a \<Rightarrow> a = alloc_next (os s) \<and> (\<exists>b. mem t = (mem s)(a \<mapsto> b))" using t by auto
qed

definition reads_ok :: "'z ops_state_scheme \<Rightarrow> ptr \<Rightarrow> nat \<Rightarrow> 'z ops_state_scheme \<Rightarrow> bool" where
  "reads_ok s p len t \<longleftrightarrow> outside s t \<and> (\<forall>x. mem s x \<noteq> None \<longrightarrow> mem t x = mem s x)
     \<and> (case p of None \<Rightarrow> True | Some b \<Rightarrow> mem s b = None \<and> (\<exists>bs. mem t b = Some bs \<and> len = length bs))"

lemma reads_ok_nothing: "outside s t \<Longrightarrow> mem t = mem s \<Longrightarrow> reads_ok s None len t"
  by (simp add: reads_ok_def)

lemma read_buffer_ok:
  assumes rd: "reads_answer rd" and fresh: "mem_fresh s"
  shows "\<exists>p len t. read_buffer rd path s = Some ((p, len), t) \<and> reads_ok s p len t"
proof -
  obtain e1 s1 where 1: "os_call sys_call s = (e1, s1)" by fastforce
  note o1 = sys_call_outside [OF 1]
  have m1: "mem s1 = mem s" by (subst o1(2)) simp
  obtain e2 s2 where 2: "os_call sys_call s1 = (e2, s2)" by fastforce
  note o2 = sys_call_outside [OF 2]
  have out2: "outside s s2" by (rule outside_trans [OF o1(1) o2(1)])
  have m2: "mem s2 = mem s" by (subst o2(2)) (simp add: m1)
  show ?thesis
  proof (cases "e1 = 0 \<and> node (os s1) path \<noteq> None \<and> e2 = 0")
    case False
    then have "read_buffer rd path s = Some ((None, 0), s1) \<or> read_buffer rd path s = Some ((None, 0), s2)"
      using 1 2 by (auto simp: read_buffer_def split: option.split)
    then show ?thesis using reads_ok_nothing [OF o1(1) m1] reads_ok_nothing [OF out2 m2] by blast
  next
    case True
    then obtain f where f: "node (os s1) path = Some f" by blast
    obtain p s3 where 3: "malloc_bytes (of_nat (st_size_of f)) s2 = (p, s3)" by fastforce
    note o3 = malloc_bytes_outside [OF 3]
    have out3: "outside s s3" by (rule outside_trans [OF out2 o3(1)])
    show ?thesis
    proof (cases p)
      case None
      then have "read_buffer rd path s = Some ((None, 0), s3)" using 1 2 3 True f by (simp add: read_buffer_def)
      then show ?thesis using reads_ok_nothing [OF out3] o3(2) None m2 by auto
    next
      case (Some a)
      then obtain b where a: "a = alloc_next (os s)" "mem s3 = (mem s)(a \<mapsto> b)" using o3(2) o1(3) o2(3) m2 by auto
      have new: "mem s a = None" using fresh a(1) by (simp add: mem_fresh_def)
      show ?thesis
      proof (cases f)
        case Dir
        let ?t = "s3\<lparr>mem := (mem s3)(a := None)\<rparr>"
        have "read_buffer rd path s = Some ((None, 0), ?t)" using 1 2 3 True f Some Dir a(2) by (simp add: read_buffer_def free_bytes_def)
        moreover have "mem ?t = mem s" using a(2) new by (simp add: fun_upd_idem)
        ultimately show ?thesis using reads_ok_nothing [OF outside_trans [OF out3 outside_mem]] by blast
      next
        case (File c)
        let ?t = "s3\<lparr>mem := (mem s3)(a \<mapsto> c)\<rparr>"
        consider "append_reads rd c 0 (st_size_of f) [] = Some None" | "append_reads rd c 0 (st_size_of f) [] = Some (Some c)"
          using append_reads_answer [OF rd, of "[]" "length c" c 0] File by (auto simp: st_size_of_def)
        then show ?thesis
        proof cases
          case 1
          let ?u = "s3\<lparr>mem := (mem s3)(a := None)\<rparr>"
          have "read_buffer rd path s = Some ((None, 0), ?u)"
            using \<open>os_call sys_call s = _\<close> 1 2 3 True f Some File a(2) by (simp add: read_buffer_def free_bytes_def)
          moreover have "mem ?u = mem s" using a(2) new by (simp add: fun_upd_idem)
          ultimately show ?thesis using reads_ok_nothing [OF outside_trans [OF out3 outside_mem]] by blast
        next
          case 2
          then have "read_buffer rd path s = Some ((Some a, length c), ?t)"
            using \<open>os_call sys_call s = _\<close> \<open>os_call sys_call s1 = _\<close> 3 True f Some File by (simp add: read_buffer_def)
          moreover have "reads_ok s (Some a) (length c) ?t"
            using outside_trans [OF out3 outside_mem] a(2) new by (auto simp: reads_ok_def)
          ultimately show ?thesis by blast
        qed
      qed
    qed
  qed
qed

subsection \<open>What a program needs of the rest\<close>

text \<open>The registry of plugins and the memory in use stay as they are.\<close>

definition kept :: "'z ops_state_scheme \<Rightarrow> 'z ops_state_scheme \<Rightarrow> bool" where
  "kept s t \<longleftrightarrow> plugins t = plugins s \<and> ops t = ops s \<and> p_links t = p_links s \<and> (\<forall>x. mem s x \<noteq> None \<longrightarrow> mem t x = mem s x)"

lemma kept_trans: "kept s t \<Longrightarrow> kept t u \<Longrightarrow> kept s u"
  by (auto simp: kept_def)

lemma kept_refl [simp]: "kept s s"
  by (simp add: kept_def)

lemma mem_sessions:
  assumes "sessions_only s t" shows "mem t = mem s" "kept s t" "mem_fresh s \<Longrightarrow> mem_fresh t" "r_pool t = r_pool s"
proof -
  show m: "mem t = mem s" using assms by (auto elim: sessions_onlyE)
  show "kept s t" "r_pool t = r_pool s" using sessions_onlyD [OF assms] m by (simp_all add: kept_def)
  show "mem_fresh s \<Longrightarrow> mem_fresh t" using sessions_onlyD(10) [OF assms] m by (simp add: mem_fresh_def store_kept_def)
qed

lemma mem_objects:
  assumes "objects_only s t" shows "mem t = mem s" "kept s t" "s_ids t = s_ids s" "running t = running s" "s_mem t = s_mem s"
  using assms by (auto elim: objects_onlyE simp: kept_def)

lemma kept_reads: "reads_ok s p len t \<Longrightarrow> kept s t"
  using outsideD(1-3) by (auto simp: reads_ok_def kept_def)

subsection \<open>The end of the program\<close>

lemma resource_end_ok:
  assumes u: "in_session L G a j q s" and o1: "in_use k m1 c1 s" "reg_in G q k c1 s" and o2: "in_use k m2 c2 s" "reg_in G q k c2 s" and c: "c1 \<noteq> c2"
    and p: "mem s p \<noteq> None"
  shows "\<exists>t G'. resource_end k (Some p) (Some c1) (Some c2) m1 a m2 s = Some (0, t) \<and> lib_ok t (remove1 c2 (remove1 c1 L)) G'
    \<and> free_ids (s_ids t) = (int j + 1) # free_ids (s_ids s) \<and> running t = (running s)[j := None]
    \<and> length (free_ids (r_pool t)) = Suc (Suc (length (free_ids (r_pool s)))) \<and> mem t = (mem s)(p := None)"
proof -
  obtain s1 G1 where 1: "vaccel_sess_unregister (Some a) (Some c1) s = Some (VACCEL_OK, s1)" "in_session L G1 a j q s1" "same_session s s1" "regs_of s1 c1 = {}"
    "reg_in G1 q k c2 s1" using use_unregister [OF u o1] o2(2) c by metis
  have so1: "sessions_only s s1" using 1(3) by (simp add: same_session_def)
  note k1 = in_use_session [OF o1(1) so1] in_use_session [OF o2(1) so1]
  obtain s2 G2 where 2: "vaccel_sess_unregister (Some a) (Some c2) s1 = Some (VACCEL_OK, s2)" "in_session L G2 a j q s2" "same_session s1 s2" "regs_of s2 c2 = {}"
    "regs_of s2 c1 = {}" using use_unregister [OF 1(2) k1(2) 1(5)] 1(4) c by metis
  have so2: "sessions_only s1 s2" using 2(3) by (simp add: same_session_def)
  note k2 = in_use_session [OF k1(1) so2] in_use_session [OF k1(2) so2]
  have ok2: "lib_ok s2 L G2" using 2(2) by (simp add: in_session_def)
  obtain s3 where 3: "object_destroy k (Some m1) s2 = Some (VACCEL_OK, s3)" "objects_only s2 s3" "lib_ok s3 (remove1 c1 L) G2" "in_use k m2 c2 s3"
    "free_ids (r_pool s3) = rid_of s2 c1 # free_ids (r_pool s2)" using use_destroy [OF ok2 k2(1) 2(5)] k2(2) c by metis
  note u3 = in_session_objects [OF 2(2) 3(2,3)]
  have r3: "regs_of s3 c2 = {}" using objects_only_regs [OF 3(2)] 2(4) by simp
  obtain s4 where 4: "object_destroy k (Some m2) s3 = Some (VACCEL_OK, s4)" "objects_only s3 s4" "lib_ok s4 (remove1 c2 (remove1 c1 L)) G2"
    "free_ids (r_pool s4) = rid_of s3 c2 # free_ids (r_pool s3)" using use_destroy [OF 3(3,4) r3] by metis
  obtain t G' where 5: "vaccel_sess_free (Some a) s4 = Some (VACCEL_OK, t)" "sessions_only s4 t" "lib_ok t (remove1 c2 (remove1 c1 L)) G'"
    "free_ids (s_ids t) = (int j + 1) # free_ids (s_ids s4)" "running t = (running s4)[j := None]"
    using use_free [OF in_session_objects [OF u3 4(2,3)]] by blast
  have m: "mem t = mem s" using mem_sessions(1) [OF so1] mem_sessions(1) [OF so2] mem_objects(1) [OF 3(2)] mem_objects(1) [OF 4(2)] mem_sessions(1) [OF 5(2)] by simp
  let ?t = "t\<lparr>mem := (mem t)(p := None)\<rparr>"
  have "resource_end k (Some p) (Some c1) (Some c2) m1 a m2 s = Some (0, ?t)"
    using 1(1) 2(1) 3(1) 4(1) 5(1) m p by (simp add: resource_end_def or_exit_def free_bytes_def)
  moreover have "lib_ok ?t (remove1 c2 (remove1 c1 L)) G'" by (rule lib_outside [OF 5(3) outside_mem])
  moreover have "s_ids s4 = s_ids s" "running s4 = running s"
    using 1(3) 2(3) mem_objects(3,4) [OF 3(2)] mem_objects(3,4) [OF 4(2)] by (simp_all add: same_session_def)
  moreover have "length (free_ids (r_pool t)) = Suc (Suc (length (free_ids (r_pool s))))"
    using mem_sessions(4) [OF so1] mem_sessions(4) [OF so2] 3(5) 4(4) mem_sessions(4) [OF 5(2)] by simp
  ultimately show ?thesis using 5(4,5) m by (intro exI [of _ ?t] exI [of _ G']) simp
qed

subsection \<open>Programs with two objects\<close>

lemma free_for_session:
  assumes "free_for k m s" "sessions_only s t"
  shows "free_for k m t"
proof -
  have "obj_mem k t = obj_mem k s" using assms(2) by (cases k) (auto elim!: sessions_onlyE simp: obj_mem_def)
  moreover have "\<not> (cleanup_resource r = Some (kind_destructor k) \<and> res_data r = Some m)" if r: "r_mem t b = Some r" for b r
  proof -
    have "map_option (\<lambda>r. r\<lparr>refcount := 0\<rparr>) (r_mem t b) = map_option (\<lambda>r. r\<lparr>refcount := 0\<rparr>) (r_mem s b)"
      using sessions_onlyD(10) [OF assms(2)] by (simp add: store_kept_def)
    note e = refcount_erase_fields [OF this]
    obtain r' where "r_mem s b = Some r'" using e(4) r by (cases "r_mem s b") auto
    moreover from this have "cleanup_resource r' = cleanup_resource r" "res_data r' = res_data r" using e r by simp_all
    ultimately show ?thesis using assms(1) unfolding free_for_def by metis
  qed
  ultimately show ?thesis using assms(1) sessions_onlyD(8) [OF assms(2)] unfolding free_for_def by simp
qed

text \<open>
  How a program ends: with an error, or with everything taken back, so that the resources \<open>L\<close> are live, the ids and sessions \<open>se\<close> are as
  before and \<open>n\<close> ids of resources are free, and with the results \<open>out\<close> in its local variables.
\<close>

definition ends :: "(addr \<rightharpoonup> u8 list) \<Rightarrow> addr list \<Rightarrow> int list \<times> ptr list \<Rightarrow> nat \<Rightarrow> int \<Rightarrow> 'z ops_state_scheme \<Rightarrow> bool" where
  "ends out L se n ret t \<longleftrightarrow> (\<exists>L G. lib_ok t L G) \<and> (ret = 0 \<or> ret = 1)
     \<and> (ret = 0 \<longrightarrow> (\<exists>G. lib_ok t L G) \<and> free_ids (s_ids t) = fst se \<and> running t = snd se \<and> length (free_ids (r_pool t)) = n \<and> out \<subseteq>\<^sub>m mem t)"

lemma ends_failed: "lib_ok t L' G \<Longrightarrow> ends out L se n 1 t"
  by (auto simp: ends_def)

lemma or_exit_ends:
  assumes "r = Some (ret, t)" "ret \<noteq> 0 \<Longrightarrow> \<exists>L G. lib_ok t L G" "ret = 0 \<Longrightarrow> \<exists>ret u. cont t = Some (ret, u) \<and> ends out L se n ret u"
  shows "\<exists>ret u. or_exit r cont = Some (ret, u) \<and> ends out L se n ret u"
  using assms by (cases "ret = 0") (auto simp: or_exit_def intro: ends_failed)

locale resource_client =
  fixes k :: kind and m1 a m2 :: addr and body :: "'z tensor_state_scheme \<Rightarrow> 'z tensor_state_scheme option" and env :: "'z tensor_state_scheme \<Rightarrow> bool"
    and out :: "addr \<rightharpoonup> u8 list"
  assumes stable: "env s \<Longrightarrow> kept s t \<Longrightarrow> env t"
    and locals: "env s \<Longrightarrow> dom out \<subseteq> dom (mem s)"
    and runs: "env s \<Longrightarrow> in_session L G a j q s \<Longrightarrow> in_use k m1 c1 s \<Longrightarrow> reg_in G q k c1 s \<Longrightarrow> in_use k m2 c2 s \<Longrightarrow> reg_in G q k c2 s
      \<Longrightarrow> \<exists>t. body s = Some t \<and> t = s\<lparr>mem := mem t\<rparr> \<and> dom (mem s) \<subseteq> dom (mem t) \<and> out \<subseteq>\<^sub>m mem t"
begin

lemma body_end:
  assumes env: "env s" and u: "in_session L G a j q s" and o1: "in_use k m1 c1 s" "reg_in G q k c1 s" and o2: "in_use k m2 c2 s" "reg_in G q k c2 s" and c: "c1 \<noteq> c2"
    and p: "mem s p \<noteq> None" "p \<notin> dom out"
  shows "\<exists>ret u. Option.bind (body s) (\<lambda>s. resource_end k (Some p) (Some c1) (Some c2) m1 a m2 s) = Some (ret, u)
    \<and> ends out (remove1 c2 (remove1 c1 L)) ((int j + 1) # free_ids (s_ids s), (running s)[j := None]) (Suc (Suc (length (free_ids (r_pool s))))) ret u"
proof -
  obtain t where t: "body s = Some t" "t = s\<lparr>mem := mem t\<rparr>" "dom (mem s) \<subseteq> dom (mem t)" "out \<subseteq>\<^sub>m mem t"
    using runs [OF env u o1 o2] by blast
  have out: "outside s t" by (subst t(2)) simp
  note O = outsideD [OF out] and K = known_outside [OF out]
  have pt: "mem t p \<noteq> None" using t(3) p(1) by blast
  obtain w G' where w: "resource_end k (Some p) (Some c1) (Some c2) m1 a m2 t = Some (0, w)" "lib_ok w (remove1 c2 (remove1 c1 L)) G'"
    "free_ids (s_ids w) = (int j + 1) # free_ids (s_ids t)" "running w = (running t)[j := None]" "length (free_ids (r_pool w)) = Suc (Suc (length (free_ids (r_pool t))))"
    "mem w = (mem t)(p := None)"
    using resource_end_ok [OF K(5) [OF u], of k m1 c1 m2 c2 p] K(2,3) o1 o2 c pt by blast
  have "out \<subseteq>\<^sub>m mem w" using t(4) p(2) w(6) by (auto simp: map_le_def)
  then show ?thesis using w(1-5) t(1) O by (intro exI [of _ 0] exI [of _ w]) (auto simp: ends_def)
qed

lemma second_ok:
  assumes rd: "reads_answer rd" "mem_fresh s" and env: "env s" and u: "in_session L G a j q s" and o1: "in_use k m1 c1 s" "reg_in G q k c1 s"
    and m2: "free_for k m2 s" "m1 \<noteq> m2"
  shows "\<exists>ret t. resource_second k body rd path (Some c1) m1 a m2 s = Some (ret, t)
    \<and> ends out (remove1 c1 L) ((int j + 1) # free_ids (s_ids s), (running s)[j := None]) (Suc (length (free_ids (r_pool s)))) ret t"
proof -
  obtain p len s1 where 1: "read_buffer rd path s = Some ((p, len), s1)" "reads_ok s p len s1" using read_buffer_ok [OF rd] by blast
  have out: "outside s s1" using 1(2) by (simp add: reads_ok_def)
  note O = outsideD [OF out] and K = known_outside [OF out]
  note u1 = K(5) [OF u]
  have ok1: "lib_ok s1 L G" using u1 by (simp add: in_session_def)
  show ?thesis
  proof (cases p)
    case None
    then show ?thesis using 1(1) ends_failed [OF ok1] by (intro exI [of _ 1] exI [of _ s1]) (simp add: resource_second_def)
  next
    case (Some b)
    then obtain bs where bs: "mem s1 b = Some bs" "len = length bs" using 1(2) by (auto simp: reads_ok_def)
    have f1: "free_for k m2 s1" using K(4) m2(1) by simp
    obtain ret s2 where 2: "object_new_from_buffer k (Some m2) (User bs) len s1 = Some (ret, s2)" "creates k m2 L G s1 ret s2"
      using creates_buffer [OF ok1 f1] bs(2) by blast
    have "resource_second k body rd path (Some c1) m1 a m2 s = or_exit (Some (ret, s2)) (\<lambda>s. Option.bind (obj_mem k s m2) (\<lambda>object2.
        or_exit (vaccel_sess_register (Some a) (o_resource object2) s) (\<lambda>s. Option.bind (body s) (\<lambda>s. resource_end k (Some b) (Some c1) (o_resource object2) m1 a m2 s))))"
      using 1(1) Some bs(1) 2(1) by (simp add: resource_second_def)
    moreover have "\<exists>v u. or_exit (Some (ret, s2)) (\<lambda>s. Option.bind (obj_mem k s m2) (\<lambda>object2.
        or_exit (vaccel_sess_register (Some a) (o_resource object2) s) (\<lambda>s. Option.bind (body s) (\<lambda>s. resource_end k (Some b) (Some c1) (o_resource object2) m1 a m2 s)))) = Some (v, u)
      \<and> ends out (remove1 c1 L) ((int j + 1) # free_ids (s_ids s), (running s)[j := None]) (Suc (length (free_ids (r_pool s)))) v u"
    proof (rule or_exit_ends [OF refl])
      show "\<exists>L G. lib_ok s2 L G" if "ret \<noteq> 0" using creates_failed [OF 2(2) that] by blast
    next
      assume "ret = 0"
      then have cr: "creates k m2 L G s1 0 s2" using 2(2) by simp
      let ?c = "alloc_next (os s1)"
      note C = creates_ok [OF ok1 cr] and M = mem_objects [OF creates_ok(3) [OF ok1 cr]]
      note u2 = in_session_objects [OF u1 C(3,1)]
      have o12: "in_use k m1 c1 s2" by (rule C(6)) (use K(2) o1(1) m2(2) in simp_all)
      have r12: "reg_in G q k c1 s2" using o1(2) K(1) objects_only_regs [OF C(3)] by (simp add: reg_in_def)
      have c: "c1 \<noteq> ?c" "c1 \<in> set L" using in_use_live [of k m1 c1 s1 L G] K(2) o1(1) ok1 C(5) by auto
      obtain y where y: "obj_mem k s2 m2 = Some y" "o_resource y = Some ?c" using C(2) by (auto simp: in_use_def)
      obtain ret3 s3 where 3: "vaccel_sess_register (Some a) (Some ?c) s2 = Some (ret3, s3)" "sessions_only s2 s3" "ret3 \<noteq> 0 \<Longrightarrow> \<exists>G'. lib_ok s3 (L @ [?c]) G'"
        "ret3 = 0 \<Longrightarrow> \<exists>G'. in_session (L @ [?c]) G' a j q s3 \<and> same_session s2 s3 \<and> reg_in G' q k ?c s3 \<and> reg_in G' q k c1 s3"
        using use_register [OF u2 C(2,4)] r12 c(1) by metis
      have "\<exists>ret u. or_exit (vaccel_sess_register (Some a) (Some ?c) s2) (\<lambda>s. Option.bind (body s) (\<lambda>s. resource_end k (Some b) (Some c1) (Some ?c) m1 a m2 s)) = Some (ret, u)
        \<and> ends out (remove1 c1 L) ((int j + 1) # free_ids (s_ids s), (running s)[j := None]) (Suc (length (free_ids (r_pool s)))) ret u"
      proof (rule or_exit_ends [OF 3(1)])
        show "\<exists>L G. lib_ok s3 L G" if "ret3 \<noteq> 0" using 3(3) [OF that] by blast
      next
        assume "ret3 = 0"
        then obtain G' where G': "in_session (L @ [?c]) G' a j q s3" "same_session s2 s3" "reg_in G' q k ?c s3" "reg_in G' q k c1 s3" using 3(4) by blast
        have e3: "env s3" by (rule stable [OF stable [OF stable [OF env kept_reads [OF 1(2)]] M(2)] mem_sessions(2) [OF 3(2)]])
        have b3: "mem s3 b \<noteq> None" using mem_sessions(1) [OF 3(2)] M(1) bs(1) by simp
        have b4: "b \<notin> dom out" using locals [OF env] 1(2) Some by (auto simp: reads_ok_def)
        have L': "remove1 ?c (remove1 c1 (L @ [?c])) = remove1 c1 L"
          using c C(5) set_remove1_subset [of c1 L] by (auto simp: remove1_append)
        have n: "free_ids (s_ids s3) = free_ids (s_ids s)" "running s3 = running s" "length (free_ids (r_pool s)) = Suc (length (free_ids (r_pool s3)))"
          using G'(2) M(3,4) O C(8) mem_sessions(4) [OF 3(2)] by (simp_all add: same_session_def)
        show "\<exists>ret u. Option.bind (body s3) (\<lambda>s. resource_end k (Some b) (Some c1) (Some ?c) m1 a m2 s) = Some (ret, u)
          \<and> ends out (remove1 c1 L) ((int j + 1) # free_ids (s_ids s), (running s)[j := None]) (Suc (length (free_ids (r_pool s)))) ret u"
          using body_end [OF e3 G'(1) in_use_session [OF o12 3(2)] G'(4) in_use_session [OF C(2) 3(2)] G'(3) c(1) b3 b4] unfolding L' n by simp
      qed
      then show "\<exists>ret u. Option.bind (obj_mem k s2 m2) (\<lambda>object2. or_exit (vaccel_sess_register (Some a) (o_resource object2) s2)
          (\<lambda>s. Option.bind (body s) (\<lambda>s. resource_end k (Some b) (Some c1) (o_resource object2) m1 a m2 s))) = Some (ret, u)
        \<and> ends out (remove1 c1 L) ((int j + 1) # free_ids (s_ids s), (running s)[j := None]) (Suc (length (free_ids (r_pool s)))) ret u"
        using y by simp
    qed
    ultimately show ?thesis by simp
  qed
qed

lemma main_ok:
  assumes rd: "reads_answer rd" "mem_fresh s" and env: "env s" and ok: "lib_ok s L G" and m: "free_for k m1 s" "free_for k m2 s" "2 \<le> length (free_ids (r_pool s))" "m1 \<noteq> m2"
    and se: "s_mem s a = Some se" "\<And>j. \<not> runs_at s j a" "free_ids (s_ids s) \<noteq> []"
  shows "\<exists>ret t. resource_main k body rd path m1 a m2 s = Some (ret, t) \<and> ends out L (free_ids (s_ids s), running s) (length (free_ids (r_pool s))) ret t"
proof -
  let ?c = "alloc_next (os s)" and ?ends = "ends out L (free_ids (s_ids s), running s) (length (free_ids (r_pool s)))"
  obtain i F where iF: "free_ids (s_ids s) = i # F" using se(3) by (cases "free_ids (s_ids s)") simp_all
  obtain ret s1 where 1: "object_new k (Some m1) (Some path) s = Some (ret, s1)" "creates k m1 L G s ret s1" using creates_path [OF ok m(1)] by blast
  show ?thesis unfolding resource_main_def
  proof (rule or_exit_ends [OF 1(1)])
    show "\<exists>L G. lib_ok s1 L G" if "ret \<noteq> 0" using creates_failed [OF 1(2) that] by blast
  next
    assume "ret = 0"
    then have cr: "creates k m1 L G s 0 s1" using 1(2) by simp
    note C = creates_ok [OF ok cr] and M = mem_objects [OF creates_ok(3) [OF ok cr]]
    have fr1: "mem_fresh s1" using rd(2) M(1) C(10) by (simp add: mem_fresh_def)
    have n1: "free_ids (r_pool s1) \<noteq> []" using m(3) C(8) by auto
    note f2 = C(7) [OF m(2) m(4) [symmetric] n1]
    obtain y where y: "obj_mem k s1 m1 = Some y" "o_resource y = Some ?c" using C(2) by (auto simp: in_use_def)
    have idle: "\<not> runs_at s1 j a" for j using se(2) M(4) by (simp add: runs_at_def)
    let ?j = "nat (i - 1)"
    obtain ret2 s2 where 2: "vaccel_sess_init (Some a) 0 s1 = Some (ret2, s2)" "sessions_only s1 s2"
      "if ret2 \<noteq> 0 then lib_ok s2 (L @ [?c]) G else in_session (L @ [?c]) (no_regs G (alloc_next (os s1))) a ?j (alloc_next (os s1)) s2
        \<and> regs_of s2 = regs_of s1 \<and> free_ids (s_ids s2) = F \<and> running s2 = (running s1)[?j := Some a] \<and> running s1 ! ?j = None \<and> int ?j + 1 = i"
      using use_init [OF C(1), of a se i F 0] se(1) M(3,5) iF idle by auto
    show "\<exists>ret u. or_exit (vaccel_sess_init (Some a) 0 s1) (\<lambda>s. Option.bind (obj_mem k s m1) (\<lambda>object. or_exit (vaccel_sess_register (Some a) (o_resource object) s)
        (\<lambda>s. resource_second k body rd path (o_resource object) m1 a m2 s))) = Some (ret, u) \<and> ?ends ret u"
    proof (rule or_exit_ends [OF 2(1)])
      show "\<exists>L G. lib_ok s2 L G" if "ret2 \<noteq> 0" using 2(3) that by auto
    next
      assume "ret2 = 0"
      then obtain G2 q where s2: "in_session (L @ [?c]) G2 a ?j q s2" "regs_of s2 = regs_of s1" "free_ids (s_ids s2) = F" "running s2 = (running s1)[?j := Some a]"
        "running s1 ! ?j = None" "int ?j + 1 = i" using 2(3) by auto
      note i2 = in_use_session [OF C(2) 2(2)]
      have om: "obj_mem k s2 = obj_mem k s1" using 2(2) by (cases k) (auto elim!: sessions_onlyE simp: obj_mem_def)
      have r2: "regs_of s2 ?c = {}" using s2(2) C(4) by simp
      obtain ret3 s3 where 3: "vaccel_sess_register (Some a) (Some ?c) s2 = Some (ret3, s3)" "sessions_only s2 s3" "ret3 \<noteq> 0 \<Longrightarrow> \<exists>G'. lib_ok s3 (L @ [?c]) G'"
        "ret3 = 0 \<Longrightarrow> \<exists>G'. in_session (L @ [?c]) G' a ?j q s3 \<and> same_session s2 s3 \<and> reg_in G' q k ?c s3"
        using use_register [OF s2(1) i2 r2] by metis
      have "\<exists>ret u. or_exit (vaccel_sess_register (Some a) (Some ?c) s2) (\<lambda>s. resource_second k body rd path (Some ?c) m1 a m2 s) = Some (ret, u) \<and> ?ends ret u"
      proof (rule or_exit_ends [OF 3(1)])
        show "\<exists>L G. lib_ok s3 L G" if "ret3 \<noteq> 0" using 3(3) [OF that] by blast
      next
        assume "ret3 = 0"
        then obtain G' where G': "in_session (L @ [?c]) G' a ?j q s3" "same_session s2 s3" "reg_in G' q k ?c s3" using 3(4) by blast
        have e3: "env s3" by (rule stable [OF stable [OF stable [OF env M(2)] mem_sessions(2) [OF 2(2)]] mem_sessions(2) [OF 3(2)]])
        have fr3: "mem_fresh s3" by (rule mem_sessions(3) [OF 3(2) mem_sessions(3) [OF 2(2) fr1]])
        have f3: "free_for k m2 s3" by (rule free_for_session [OF free_for_session [OF f2 2(2)] 3(2)])
        have L': "remove1 ?c (L @ [?c]) = L" using C(5) by (simp add: remove1_append)
        have n: "(int ?j + 1) # free_ids (s_ids s3) = free_ids (s_ids s)" "(running s3)[?j := None] = running s"
          "Suc (length (free_ids (r_pool s3))) = length (free_ids (r_pool s))"
          using G'(2) s2(3-6) iF M(4) C(8) mem_sessions(4) [OF 2(2)] mem_sessions(4) [OF 3(2)] list_update_id [of "running s" ?j] by (simp_all add: same_session_def)
        show "\<exists>ret u. resource_second k body rd path (Some ?c) m1 a m2 s3 = Some (ret, u) \<and> ?ends ret u"
          using second_ok [OF rd(1) fr3 e3 G'(1) in_use_session [OF i2 3(2)] G'(3) f3 m(4), of path] unfolding L' n .
      qed
      then show "\<exists>ret u. Option.bind (obj_mem k s2 m1) (\<lambda>object. or_exit (vaccel_sess_register (Some a) (o_resource object) s2)
          (\<lambda>s. resource_second k body rd path (o_resource object) m1 a m2 s)) = Some (ret, u) \<and> ?ends ret u"
        using om y by simp
    qed
  qed
qed

end

subsection \<open>The programs\<close>

interpretation tf_model: resource_client Tf_Model m1 a m2 Some "\<lambda>_. True" Map.empty for m1 a m2
  by unfold_locales auto

text \<open>What the noop plugin writes to an output of 512 bytes when the input is 10.\<close>

definition greeting :: "u8 list" where
  "greeting = c_string (''I got this input: 10'' @ [CHR 0x0A])"

definition greet :: "u8 list \<Rightarrow> u8 list" where
  "greet b = greeting @ drop (length greeting) b"

lemma greeting: "length greeting = 22" "CHR 0x00 \<notin> set (''I got this input: 10'' @ [CHR 0x0A])" "''I got this input: '' @ int_digits 10 @ [CHR 0x0A] = ''I got this input: 10'' @ [CHR 0x0A]"
  by (simp_all add: greeting_def c_string_def) code_simp

lemma greet_again: "22 \<le> length b \<Longrightarrow> greet (greet b) = greet b" "22 \<le> length b \<Longrightarrow> length (greet b) = length b"
  by (simp_all add: greet_def greeting)

definition served :: "addr \<Rightarrow> addr \<Rightarrow> addr \<Rightarrow> addr \<Rightarrow> 'z tensor_state_scheme \<Rightarrow> bool" where
  "served a d fn q s \<longleftrightarrow> (\<exists>R. plug_ok s R) \<and> find_op VACCEL_EXEC_WITH_RESOURCE a s = Some (noop_function VACCEL_EXEC_WITH_RESOURCE)
     \<and> (\<exists>L G j r c. in_session L G a j r s \<and> in_use Shared_Obj d c s \<and> reg_in G r Shared_Obj c s) \<and> mem s q = Some (le_bytes 4 (10 :: u32))
     \<and> mem s fn = Some (c_string ''mytestfunc'')"

lemma served_mem:
  assumes "served a d fn q s" "m q = mem s q" "m fn = mem s fn"
  shows "served a d fn q (s\<lparr>mem := m\<rparr>)"
proof -
  from assms(1) obtain R where R: "plug_ok s R" by (auto simp: served_def)
  from assms(1) obtain L G j r c where u: "in_session L G a j r s" "in_use Shared_Obj d c s" "reg_in G r Shared_Obj c s" by (auto simp: served_def)
  note K = known_outside [OF outside_mem [of s m]]
  have "find_op VACCEL_EXEC_WITH_RESOURCE a (s\<lparr>mem := m\<rparr>) = find_op VACCEL_EXEC_WITH_RESOURCE a s" by (rule find_op_cong [OF R]) simp_all
  moreover have "plug_ok (s\<lparr>mem := m\<rparr>) R" using R by (simp add: plug_ok_def)
  moreover have "in_session L G a j r (s\<lparr>mem := m\<rparr>)" "in_use Shared_Obj d c (s\<lparr>mem := m\<rparr>)" "reg_in G r Shared_Obj c (s\<lparr>mem := m\<rparr>)"
    using K(5) [OF u(1)] K(2,3) u(2,3) by simp_all
  moreover have "find_op VACCEL_EXEC_WITH_RESOURCE a s = Some (noop_function VACCEL_EXEC_WITH_RESOURCE)" "mem s q = Some (le_bytes 4 (10 :: u32))"
    "mem s fn = Some (c_string ''mytestfunc'')" using assms(1) by (simp_all add: served_def)
  ultimately show ?thesis using assms(2,3) unfolding served_def by (intro conjI exI) (assumption | simp)+
qed

text \<open>The path of an object of a live resource can be read.\<close>

lemma use_path:
  assumes "in_session L G a j q s" "in_use Shared_Obj d c s" "so_mem s d = Some obj"
  shows "f_path (o_file obj) = None \<or> get_str (f_path (o_file obj)) (os s) \<noteq> None"
proof -
  have ok: "lib_ok s L G" using assms(1) by (simp add: in_session_def)
  obtain r where r: "r_mem s c = Some r" "cleanup_resource r = Some Shared_Object_Destructor" "res_data r = Some d"
    using assms(2) by (auto simp: in_use_def kind_destructor_def)
  have "o_file obj \<in> set (owned_files s c)" using r assms(3) by (simp add: owned_files_def files_of_def)
  then have "file_ok (o_file obj) (os s)" using obj_okD(4) [OF lib_okD(1) [OF ok]] in_use_live [OF assms(2) ok] by blast
  then show ?thesis by (auto simp: file_ok_def get_str_def split: option.splits)
qed

lemma exec_once:
  assumes "served a d fn q s" "mem s p = Some b" "22 \<le> length b"
  shows "vaccel_exec_with_resource (noop_call fadd) (Some a) (Some d) (Some fn) (Some [scalar 4 q]) 1 (Some [scalar 512 p]) 1 s
    = Some (0, s\<lparr>mem := (mem s)(p \<mapsto> greet b)\<rparr>)"
proof -
  from assms(1) obtain L G j r c where u: "in_session L G a j r s" "in_use Shared_Obj d c s" "reg_in G r Shared_Obj c s" by (auto simp: served_def)
  then obtain obj where obj: "so_mem s d = Some obj" "vaccel_sess_has_resource (Some a) (o_resource obj) s = Some True"
    using use_registered [OF u] by (auto simp: in_use_def obj_mem_def)
  have "noop_function VACCEL_EXEC_WITH_RESOURCE = Some 17" by code_simp
  then have "vaccel_exec_with_resource (noop_call fadd) (Some a) (Some d) (Some fn) (Some [scalar 4 q]) 1 (Some [scalar 512 p]) 1 s
      = noop_exec_with_resource (Some a) (Some d) (Some fn) (Some [scalar 4 q]) (Some [scalar 512 p]) 1 s"
    using assms(1) by (simp add: vaccel_exec_with_resource_def dispatch_def noop_call_def served_def)
  moreover have "load32 (Some q) s = Some 10" using assms(1) le_word_bytes [of 4 "10 :: u32"] by (simp add: served_def load32_def load_def)
  moreover have "sprintf (Some p) (''I got this input: '' @ int_digits 10 @ [CHR 0x0A]) s = Some (s\<lparr>mem := (mem s)(p \<mapsto> greet b)\<rparr>)"
    unfolding greeting(3) sprintf_def greeting_def [symmetric] using assms(2,3) by (simp add: store_at_def greeting greet_def)
  moreover have "print_str (Some fn) s = Some ()" using assms(1) mem_str_c_string [of s fn "''mytestfunc''"] by (simp add: served_def print_str_def)
  moreover have "f_path (o_file obj) = None \<or> get_str (f_path (o_file obj)) (os s) \<noteq> None" using use_path [OF u(1,2) obj(1)] .
  moreover obtain se where "s_mem s a = Some se" by (rule in_sessionD [OF u(1)])
  ultimately show ?thesis using obj by (auto simp: noop_exec_with_resource_def nth_arg_def scalar_def session_of_def)
qed

lemma exec_loop:
  assumes "served a d fn q s" "mem s p = Some b" "22 \<le> length b" "p \<noteq> q" "0 < n" "p \<noteq> fn"
  shows "iterate n (vaccel_exec_with_resource (noop_call fadd) (Some a) (Some d) (Some fn) (Some [scalar 4 q]) 1 (Some [scalar 512 p]) 1) s
    = Some (0, s\<lparr>mem := (mem s)(p \<mapsto> greet b)\<rparr>)"
proof -
  let ?op = "vaccel_exec_with_resource (noop_call fadd) (Some a) (Some d) (Some fn) (Some [scalar 4 q]) 1 (Some [scalar 512 p]) 1"
  let ?t = "s\<lparr>mem := (mem s)(p \<mapsto> greet b)\<rparr>"
  have "served a d fn q ?t" by (rule served_mem [OF assms(1)]) (use assms(4,6) in simp_all)
  then have "?op ?t = Some (0, ?t)" using exec_once [of a d fn q ?t p "greet b"] greet_again [OF assms(3)] assms(3) by simp
  then have "iterate n ?op ?t = Some (0, ?t)" for n by (induction n) simp_all
  moreover obtain n' where "n = Suc n'" using assms(5) by (cases n) simp_all
  ultimately show ?thesis using exec_once [OF assms(1-3)] by simp
qed

lemma greet_print:
  assumes "mem s p = Some (greet b)"
  shows "print_string p s = Some s"
proof -
  let ?t = "s\<lparr>mem := (mem s)(p \<mapsto> greeting)\<rparr>"
  have z: "(0 :: u8) \<in> set greeting" by (simp add: greeting_def c_string_def)
  have "mem_str (Some p) ?t = Some (''I got this input: 10'' @ [CHR 0x0A])" by (rule mem_str_c_string [OF _ greeting(2)]) (simp add: greeting_def)
  moreover have "mem_str (Some p) s = mem_str (Some p) ?t" using assms z by (simp add: mem_str_def greet_def takeWhile_append1 [of 0])
  ultimately show ?thesis by (simp add: print_string_def)
qed

text \<open>What \<^verbatim>\<open>exec_with_res\<close> needs: the noop plugin serves the operation, and the number of iterations is positive.\<close>

definition exec_env :: "string \<Rightarrow> (nat \<Rightarrow> addr) \<Rightarrow> u8 list \<Rightarrow> u8 list \<Rightarrow> 'z tensor_state_scheme \<Rightarrow> bool" where
  "exec_env n loc b3 b4 s \<longleftrightarrow> (\<exists>R. plug_ok s R) \<and> (\<forall>h. get_plugin_op VACCEL_EXEC_WITH_RESOURCE h s = Some (noop_function VACCEL_EXEC_WITH_RESOURCE))
     \<and> mem s (loc 3) = Some b3 \<and> mem s (loc 4) = Some b4 \<and> 22 \<le> length b3 \<and> 22 \<le> length b4 \<and> distinct (map loc [1, 2, 3, 4]) \<and> (\<exists>v>0. atoi n = Some v)"

lemma exec_env_kept:
  assumes "exec_env n loc b3 b4 s" "kept s t"
  shows "exec_env n loc b3 b4 t"
proof -
  from assms(1) obtain R where R: "plug_ok s R" by (auto simp: exec_env_def)
  have k: "plugins t = plugins s" "ops t = ops s" "p_links t = p_links s" using assms(2) by (simp_all add: kept_def)
  have "get_plugin_op VACCEL_EXEC_WITH_RESOURCE h t = get_plugin_op VACCEL_EXEC_WITH_RESOURCE h s" for h by (rule get_plugin_op_cong [OF R _ k]) simp
  moreover have "plug_ok t R" using R k by (simp add: plug_ok_def)
  ultimately show ?thesis using assms by (auto simp: exec_env_def kept_def)
qed

lemma served_from:
  assumes "exec_env n loc b3 b4 s" "in_session L G a j q s" "in_use Shared_Obj d c s" "reg_in G q Shared_Obj c s" "mem s p = Some (le_bytes 4 (10 :: u32))"
    "mem s fn = Some (c_string ''mytestfunc'')"
  shows "served a d fn p s"
proof -
  obtain se where "s_mem s a = Some se" by (rule in_sessionD [OF assms(2)])
  then have "find_op VACCEL_EXEC_WITH_RESOURCE a s = Some (noop_function VACCEL_EXEC_WITH_RESOURCE)" using assms(1) by (simp add: exec_env_def find_op_def)
  then show ?thesis using assms unfolding served_def exec_env_def by blast
qed

lemma exec_body_run:
  assumes env: "exec_env n loc b3 b4 s" and u: "in_session L G a j q s" and o1: "in_use Shared_Obj m1 c1 s" "reg_in G q Shared_Obj c1 s"
    and o2: "in_use Shared_Obj m2 c2 s" "reg_in G q Shared_Obj c2 s"
  shows "exec_with_res_body (noop_call fadd) n a loc m1 m2 s = Some (s\<lparr>mem := (mem s)(loc 1 \<mapsto> c_string ''mytestfunc'', loc 2 \<mapsto> le_bytes 4 (10 :: u32),
    loc 3 \<mapsto> greet b3, loc 4 \<mapsto> greet b4)\<rparr>)"
proof -
  define t where "t = s\<lparr>mem := (mem s)(loc 1 \<mapsto> c_string ''mytestfunc'', loc 2 \<mapsto> le_bytes 4 (10 :: u32))\<rparr>"
  have st: "set_local (loc 2) (le_bytes 4 (10 :: u32)) (set_local (loc 1) (c_string ''mytestfunc'') s) = t" by (simp add: set_local_def t_def)
  note E = env [unfolded exec_env_def]
  obtain v where v: "atoi n = Some v" "0 < v" using E by blast
  have d: "distinct (map loc [1, 2, 3, 4])" and l: "22 \<le> length b3" "22 \<le> length b4" using E by blast+
  have m: "mem t (loc 2) = Some (le_bytes 4 (10 :: u32))" "mem t (loc 3) = Some b3" "mem t (loc 4) = Some b4" using E by (auto simp: t_def)
  have fn: "mem t (loc 1) = Some (c_string ''mytestfunc'')" using E by (auto simp: t_def)
  have out: "outside s t" by (simp add: t_def)
  note K = known_outside [OF out]
  have env': "exec_env n loc b3 b4 t"
  proof -
    from E obtain R where R: "plug_ok s R" by blast
    have "get_plugin_op VACCEL_EXEC_WITH_RESOURCE h t = get_plugin_op VACCEL_EXEC_WITH_RESOURCE h s" for h by (rule get_plugin_op_cong [OF R]) (simp_all add: t_def)
    moreover have "plug_ok t R" using R by (simp add: plug_ok_def t_def)
    ultimately show ?thesis using E m unfolding exec_env_def by auto
  qed
  note sv = served_from [OF env' K(5) [OF u] _ _ m(1) fn]
  have s1: "served a m1 (loc 1) (loc 2) t" and s2: "served a m2 (loc 1) (loc 2) t" using sv K(2,3) o1 o2 by blast+
  let ?t1 = "t\<lparr>mem := (mem t)(loc 3 \<mapsto> greet b3)\<rparr>"
  let ?t2 = "?t1\<lparr>mem := (mem ?t1)(loc 4 \<mapsto> greet b4)\<rparr>"
  have s2': "served a m2 (loc 1) (loc 2) ?t1" by (rule served_mem [OF s2]) (use d in auto)
  have m4: "mem ?t1 (loc 4) = Some b4" using m(3) d by simp
  have ne: "loc 3 \<noteq> loc 2" "loc 4 \<noteq> loc 2" "0 < nat v" "loc 3 \<noteq> loc 1" "loc 4 \<noteq> loc 1" using d v by auto
  note l1 = exec_loop [OF s1 m(2) l(1) ne(1,3,4), of fadd]
  note l2 = exec_loop [OF s2' m4 l(2) ne(2,3,5), of fadd]
  have p1: "print_string (loc 3) ?t1 = Some ?t1" by (rule greet_print [of _ _ b3]) simp
  have p2: "print_string (loc 4) ?t2 = Some ?t2" by (rule greet_print [of _ _ b4]) simp
  have "exec_twice (noop_call fadd) (nat v) a loc m1 m2 t = Some (0, ?t2)"
    unfolding exec_twice_def l1 and_print_def or_return_def using p1 l2 p2 by simp
  then have "exec_with_res_body (noop_call fadd) n a loc m1 m2 s = Some ?t2" unfolding exec_with_res_body_def Let_def st v(1) by simp
  then show ?thesis by (simp add: t_def)
qed

interpretation exec_with_res: resource_client Shared_Obj m1 a m2 "exec_with_res_body (noop_call fadd) n a loc m1 m2" "exec_env n loc b3 b4"
  "[loc 3 \<mapsto> greet b3, loc 4 \<mapsto> greet b4]" for m1 a m2 fadd n loc b3 b4
proof
  fix s t :: "'z noop_state_scheme"
  show "exec_env n loc b3 b4 s \<Longrightarrow> kept s t \<Longrightarrow> exec_env n loc b3 b4 t" by (rule exec_env_kept)
next
  fix s :: "'z noop_state_scheme"
  show "exec_env n loc b3 b4 s \<Longrightarrow> dom [loc 3 \<mapsto> greet b3, loc 4 \<mapsto> greet b4] \<subseteq> dom (mem s)" by (auto simp: exec_env_def)
next
  fix s :: "'z noop_state_scheme" and L G j q c1 c2
  assume env: "exec_env n loc b3 b4 s" and u: "in_session L G a j q s" and o: "in_use Shared_Obj m1 c1 s" "reg_in G q Shared_Obj c1 s" "in_use Shared_Obj m2 c2 s" "reg_in G q Shared_Obj c2 s"
  show "\<exists>t. exec_with_res_body (noop_call fadd) n a loc m1 m2 s = Some t \<and> t = s\<lparr>mem := mem t\<rparr> \<and> dom (mem s) \<subseteq> dom (mem t)
    \<and> [loc 3 \<mapsto> greet b3, loc 4 \<mapsto> greet b4] \<subseteq>\<^sub>m mem t"
    unfolding exec_body_run [OF env u o] by (auto simp: map_le_def)
qed

subsection \<open>Properties\<close>

text \<open>
  C16. An example program with objects from its start to its end: \<^verbatim>\<open>tf_model\<close>, in a library that satisfies the invariant (which includes that there is no VirtIO plugin) and has two free ids for resources and
  one for a session, always returns 0 or 1, whether an object cannot be made, the session not started, the file not read (any call of \<^verbatim>\<open>read\<close> may
  fail; none gives 0 bytes before the end of the file, where the loop would go on for ever) or a resource not registered, and the library still
  satisfies the invariant. When it returns 0 both models, their registrations and the session are gone: the same resources are live, the same session ids are free in
  the same order, the same sessions run, and as many resource ids are free as before.
\<close>

theorem tf_model_correct:
  assumes "lib_ok s L G" "free_for Tf_Model m1 s" "free_for Tf_Model m2 s" "2 \<le> length (free_ids (r_pool s))" "m1 \<noteq> m2"
    "s_mem s a = Some se" "\<And>j. \<not> runs_at s j a" "free_ids (s_ids s) \<noteq> []" "mem_fresh s" "reads_answer rd"
  shows "\<exists>ret t. tf_model_main rd [prog, path] m1 a m2 s = Some (ret, t) \<and> (\<exists>L G. lib_ok t L G) \<and> (ret = 0 \<or> ret = 1)
    \<and> (ret = 0 \<longrightarrow> (\<exists>G. lib_ok t L G) \<and> free_ids (s_ids t) = free_ids (s_ids s) \<and> running t = running s \<and> length (free_ids (r_pool t)) = length (free_ids (r_pool s)))"
  using tf_model.main_ok [OF assms(10,9) TrueI assms(1-8), of path] by (auto simp: tf_model_main_def ends_def)

text \<open>
  C13. \<^verbatim>\<open>exec_with_res\<close> run where the noop plugin serves the operation, for a positive number of iterations, in a library that satisfies the invariant and
  has two free ids for resources and one for a session: whatever fails, each call of \<^verbatim>\<open>read\<close> included (none gives 0 bytes before the end of the file), it returns 0 or 1 with the
  library in a state that satisfies the invariant, and when it returns 0 both its shared objects, their registrations and the session are gone and the two
  outputs hold what the operation writes for the input 10.
\<close>

theorem exec_with_res_correct:
  assumes "lib_ok s L G" "free_for Shared_Obj m1 s" "free_for Shared_Obj m2 s" "2 \<le> length (free_ids (r_pool s))" "m1 \<noteq> m2"
    "s_mem s a = Some se" "\<And>j. \<not> runs_at s j a" "free_ids (s_ids s) \<noteq> []" "mem_fresh s" "reads_answer rd" "exec_env n loc b3 b4 s"
  shows "\<exists>ret t. exec_with_res_main (noop_call fadd) rd [prog, path, n] m1 a m2 loc s = Some (ret, t) \<and> (\<exists>L G. lib_ok t L G) \<and> (ret = 0 \<or> ret = 1)
    \<and> (ret = 0 \<longrightarrow> (\<exists>G. lib_ok t L G) \<and> free_ids (s_ids t) = free_ids (s_ids s) \<and> running t = running s \<and> length (free_ids (r_pool t)) = length (free_ids (r_pool s))
      \<and> [loc 3 \<mapsto> greet b3, loc 4 \<mapsto> greet b4] \<subseteq>\<^sub>m mem t)"
  using exec_with_res.main_ok [OF assms(10,9,11,1-8), of fadd path] by (auto simp: exec_with_res_main_def ends_def)

text \<open>A library that has started, with the noop plugin, a file and the local variables of the programs.\<close>

definition client_os :: os_state where
  "client_os = (os lib_booted)\<lparr>alloc_next := 200, fs := [(''/run'', Dir), (''/m'', File [1, 2])]\<rparr>"

definition res_client :: noop_state where
  "res_client = tensor_state.extend (ops_state.extend (prof_state.extend (obj_state.extend
       (lib_booted\<lparr>os := client_os, p_links := self_linked, plugins := [1 \<mapsto> \<lparr>dl_handle = None, pinfo = Some (noop_info 50 51)\<rparr>],
          ops := (\<lambda>a. if 100 \<le> a \<and> a < 120 then Some (module_op noop_types 1 1 (a - 100)) else None)\<rparr>)
       \<lparr>ticks = 0, clock = (\<lambda>_. 0), smp_mem = Map.empty, prof_log = []\<rparr>)
       \<lparr>mem = [23 \<mapsto> replicate 512 0, 24 \<mapsto> replicate 512 0], junk = None, image_op_stats = VACCEL_PROF_REGION_INIT None, tf_load_stats = VACCEL_PROF_REGION_INIT None,
         tf_session_run_stats = VACCEL_PROF_REGION_INIT None, tf_session_delete_stats = VACCEL_PROF_REGION_INIT None\<rparr>)
       \<lparr>stale = (\<lambda>_ _. 0), buf_mem = Map.empty, node_mem = Map.empty, ten_mem = Map.empty, dims_mem = Map.empty\<rparr>)
     \<lparr>status_mem = Map.empty, node_arr = Map.empty, ten_arr = Map.empty\<rparr>"

lemma res_client:
  fixes h
  defines "s \<equiv> res_client\<lparr>p_links := h\<rparr>"
  shows "lib_ok s [] (\<lambda>_ _. [])" "free_for k a s" "2 \<le> length (free_ids (r_pool s))" "s_mem s a = Some no_session" "\<not> runs_at s j a" "free_ids (s_ids s) \<noteq> []"
    "mem_fresh s" "plug_ok res_client no_plugins" "module_loaded noop_types 1 1 100 res_client no_plugins"
    "mem s 23 = Some (replicate 512 0)" "mem s 24 = Some (replicate 512 0)"
proof -
  note d = s_def res_client_def tensor_state.defs ops_state.defs prof_state.defs obj_state.defs
  let ?b = "lib_booted\<lparr>os := client_os\<rparr>"
  have al: "os lib_booted = calm_os\<lparr>alloc_next := 3\<rparr>" by (rule lib_booted(8))
  have "outside lib_booted ?b" by (rule outside_os) (simp_all add: client_os_def al)
  then have b: "lib_ok ?b [] (\<lambda>_ _. [])" by (rule lib_outside [OF lib_booted(1)])
  note ok = sess_okD [OF lib_okD(2) [OF b]]
  have "res_ok s []" by (rule res_ok_cong [OF ok(1)]) (simp_all add: d)
  moreover have "reg_ok s [] (\<lambda>_ _. [])" by (rule reg_ok_other [OF ok(2)]) (simp_all add: d)
  moreover have "table_ok s" by (rule table_ok_frame [OF ok(3)]) (simp_all add: d)
  ultimately have S: "sess_ok s [] (\<lambda>_ _. [])" by (simp add: sess_ok_def)
  show "lib_ok s [] (\<lambda>_ _. [])"
    by (rule lib_ok_start [OF S]) (use obj_okD(2) [OF lib_okD(1) [OF b]] lib_booted(7) lib_okD(5-7) [OF b] in \<open>simp_all add: d\<close>)
  have om: "obj_mem k s = obj_mem k lib_booted" by (cases k) (simp_all add: obj_mem_def d)
  then show "free_for k a s" using lib_booted(5-7) by (simp add: free_for_def) (simp add: d)
  show "2 \<le> length (free_ids (r_pool s))" using lib_booted(9) by (simp add: d MAX_RESOURCES_def del: upt_Suc)
  show "s_mem s a = Some no_session" "free_ids (s_ids s) \<noteq> []" using lib_booted(2,4) by (simp_all add: d)
  show "\<not> runs_at s j a" using lib_booted(3) [of j a] by (simp add: d runs_at_def)
  show "mem_fresh s" by (simp add: mem_fresh_def) (simp add: d client_os_def)
  show "mem s 23 = Some (replicate 512 0)" "mem s 24 = Some (replicate 512 0)" by (simp_all add: d)
  have "family self_linked (plug_fam (dom (plugins res_client)) (dom (ops res_client)) no_plugins)"
    by (rule self_linked_family) (rule no_plugins_lists)
  then show "plug_ok res_client no_plugins" by (simp add: plug_ok_def plug_rel_def no_plugins_def d)
  show "module_loaded noop_types 1 1 100 res_client no_plugins" by (simp add: module_loaded_def op_unlinked_def no_plugins_def d)
qed

theorem tf_model_correct_witness:
  "\<exists>ret t. tf_model_main (\<lambda>_. 4096) [''tf_model'', ''/m''] 30 20 31 res_client = Some (ret, t) \<and> (ret = 0 \<or> ret = 1) \<and> (\<exists>L G. lib_ok t L G)"
proof -
  have s: "res_client\<lparr>p_links := p_links res_client\<rparr> = res_client" by simp
  note c = res_client(1-7) [where h = "p_links res_client", unfolded s]
  have rd: "reads_answer (\<lambda>_. 4096)" by (simp add: reads_answer_def)
  show ?thesis using tf_model_correct [OF c(1,2,2,3) _ c(4,5,6,7) rd, of 30 31 "''tf_model''" "''/m''"] by fastforce
qed

theorem exec_with_res_correct_witness:
  "\<exists>s ret t. exec_with_res_main (noop_call (+)) (\<lambda>_. 4096) [''exec_with_res'', ''/m'', ''2''] 30 20 31 ((+) 20) (s :: noop_state) = Some (ret, t) \<and> (ret = 0 \<or> ret = 1)
    \<and> (\<exists>L G. lib_ok t L G)"
proof -
  obtain h R where h: "plug_ok (res_client\<lparr>p_links := h\<rparr>) R"
    "\<And>t hnt. t < VACCEL_FUNCTIONS_NR \<Longrightarrow> r_impls no_plugins t = [] \<Longrightarrow> get_plugin_op t hnt (res_client\<lparr>p_links := h\<rparr>) = Some (noop_function t)"
    by (rule noop_init_ok [OF res_client(8,9)]) (rule that)
  let ?s = "res_client\<lparr>p_links := h\<rparr>"
  have a: "atoi ''2'' = Some 2" by code_simp
  have "get_plugin_op VACCEL_EXEC_WITH_RESOURCE hnt ?s = Some (noop_function VACCEL_EXEC_WITH_RESOURCE)" for hnt using h(2) by (simp add: no_plugins_def)
  then have env: "exec_env ''2'' ((+) 20) (replicate 512 0) (replicate 512 0) ?s"
    using h(1) res_client(10,11) [where h = h] a unfolding exec_env_def by (intro conjI exI [of _ R] exI [of _ 2]) simp_all
  have rd: "reads_answer (\<lambda>_. 4096)" by (simp add: reads_answer_def)
  have "\<exists>ret t. exec_with_res_main (noop_call (+)) (\<lambda>_. 4096) [''exec_with_res'', ''/m'', ''2''] 30 20 31 ((+) 20) ?s = Some (ret, t) \<and> (ret = 0 \<or> ret = 1)
    \<and> (\<exists>L G. lib_ok t L G)"
    using exec_with_res_correct [OF res_client(1,2,2,3) _ res_client(4-7) rd env, of 30 31 "(+)" "''exec_with_res''" "''/m''"] by fastforce
  then show ?thesis by blast
qed

end
