(* ===== verification/Model_Clients.thy ===== *)
theory Model_Clients
  imports Resource_Run
begin

text \<open>
  What a program knows about a TensorFlow saved model that it makes from an export directory, registers with a session and takes back: the
  lemmas on \<open>vaccel_tf_saved_model_set_path\<close>, \<open>_register\<close> and \<open>_destroy\<close> that the programs of \<open>Resource_Examples\<close> and \<open>Inference\<close> use.
\<close>

subsection \<open>Searching the directory\<close>

text \<open>The part of the machine that no call of the system changes, and calls that change nothing of the heap.\<close>

definition world :: "os_state \<Rightarrow> (addr \<Rightarrow> bool) \<times> (string \<Rightarrow> string option)" where
  "world o1 = (alloc_ok o1, env o1)"

definition quiet :: "os_state \<Rightarrow> os_state \<Rightarrow> bool" where
  "quiet o1 o2 \<longleftrightarrow> strs o2 = strs o1 \<and> maps o2 = maps o1 \<and> fs o2 = fs o1 \<and> world o2 = world o1 \<and> alloc_next o1 \<le> alloc_next o2"

lemma quiet_trans: "quiet o1 o2 \<Longrightarrow> quiet o2 o3 \<Longrightarrow> quiet o1 o3"
  by (auto simp: quiet_def)

lemma quiet_grows: "quiet o1 o2 \<Longrightarrow> heap_ok o1 \<Longrightarrow> grows o1 o2"
  by (auto simp: quiet_def intro: same_heap_grows)

lemma quiet_calls: "malloc o1 = (p, o2) \<Longrightarrow> quiet o1 o2" "opendir d o1 = (b, o2) \<Longrightarrow> quiet o1 o2" "access d o1 = (r, o2) \<Longrightarrow> quiet o1 o2"
  by (auto simp: quiet_def world_def malloc_def opendir_def access_def sys_call_def fail_def Let_def split: if_splits)

text \<open>A file whose blocks have been made between two states.\<close>

definition fresh_file :: "os_state \<Rightarrow> os_state \<Rightarrow> vaccel_file \<Rightarrow> bool" where
  "fresh_file o1 o2 f \<longleftrightarrow> file_ok f o2 \<and> vaccel_file_initialized (Some f) \<and> distinct (blocks f) \<and> (\<forall>x\<in>set (blocks f). alloc_next o1 \<le> x \<and> x < alloc_next o2)"

lemma fresh_file_later: "fresh_file o1 o2 f \<Longrightarrow> heap_ok o2 \<Longrightarrow> grows o2 o3 \<Longrightarrow> fresh_file o1 o3 f"
  unfolding fresh_file_def using grows_file_ok by (fastforce simp: grows_def)

lemma vaccel_file_new_fresh:
  assumes "heap_ok o1"
  obtains ret f' o2 where "vaccel_file_new (Some f) (Some p) o1 = (ret, Some f', o2)" "grows o1 o2" "fs o2 = fs o1" "world o2 = world o1" "ret = 0 \<Longrightarrow> fresh_file o1 o2 f'"
proof -
  obtain r oa where a: "access p o1 = (r, oa)" by fastforce
  note q = quiet_calls(3) [OF a]
  show thesis
  proof (cases "r = 0")
    case False
    then have "errno oa \<noteq> 0" using a by (auto simp: access_def sys_call_def fail_def Let_def split: if_splits)
    moreover have "vaccel_file_new (Some f) (Some p) o1 = (errno oa, Some f, oa)" using a False by (simp add: vaccel_file_new_def)
    ultimately show thesis using that q quiet_grows [OF q assms] by (simp add: quiet_def)
  next
    case True
    have ha: "heap_ok oa" using quiet_grows [OF q assms] by (simp add: grows_def)
    show thesis
    proof (cases rule: new_str_cases [of p oa])
      case 1
      let ?o = "oa\<lparr>alloc_next := Suc (alloc_next oa)\<rparr>"
      have "quiet oa ?o" by (simp add: quiet_def world_def)
      then have "quiet o1 ?o" by (rule quiet_trans [OF q])
      moreover have "vaccel_file_new (Some f) (Some p) o1 = (VACCEL_ENOMEM, Some (f\<lparr>f_path := None\<rparr>), ?o)" using a True 1 by (simp add: vaccel_file_new_def strdup_def)
      ultimately show thesis using that quiet_grows [of o1 ?o] assms by (simp add: quiet_def)
    next
      case 2
      let ?n = "alloc_next oa"
      let ?o = "oa\<lparr>alloc_next := Suc ?n, strs := (strs oa)(?n \<mapsto> p)\<rparr>" and ?f = "f\<lparr>f_path := Some ?n, path_owned := False, f_data := DNull, f_size := 0\<rparr>"
      have run: "vaccel_file_new (Some f) (Some p) o1 = (VACCEL_OK, Some ?f, ?o)" using a True 2 by (simp add: vaccel_file_new_def strdup_def)
      have "grows oa ?o" using ha by (auto simp: grows_def heap_ok_def)
      then have g: "grows o1 ?o" by (rule grows_trans [OF quiet_grows [OF q assms]])
      have "fresh_file o1 ?o ?f" using q by (simp add: fresh_file_def file_ok_def vaccel_file_initialized_def blocks_def quiet_def)
      then show thesis using that [OF run g] q by (simp add: quiet_def world_def)
    qed
  qed
qed

lemma file_from_regex_fresh:
  assumes "list_ex (regexec p) (children o1 d)" "heap_ok o1"
  obtains ret f' o2 where "file_from_regex (Some f) d p o1 = Some (ret, Some f', o2)" "grows o1 o2" "fs o2 = fs o1" "world o2 = world o1" "ret = 0 \<Longrightarrow> fresh_file o1 o2 f'"
proof -
  obtain q oa where m: "malloc o1 = (q, oa)" by fastforce
  obtain found ob where o: "opendir d oa = (found, ob)" by fastforce
  note qa = quiet_calls(1) [OF m] and qb = quiet_trans [OF quiet_calls(1) [OF m] quiet_calls(2) [OF o]]
  have c: "children ob d = children o1 d" using qb by (simp add: quiet_def children_def)
  obtain name where n: "find (regexec p) (children o1 d) = Some name" using assms(1) by (cases "find (regexec p) (children o1 d)") (auto simp: find_None_iff list_ex_iff)
  show thesis
  proof (cases "q = None")
    case True
    then have "file_from_regex (Some f) d p o1 = Some (VACCEL_EINVAL, Some f, oa)" using m by (simp add: file_from_regex_def)
    then show thesis using that quiet_grows [OF qa assms(2)] qa by (simp add: quiet_def)
  next
    case q: False
    show thesis
    proof (cases "found \<and> \<not> MAX_PATH \<le> length (d @ ''/'' @ name)")
      case False
      then have "file_from_regex (Some f) d p o1 = Some (if found then VACCEL_ENAMETOOLONG else VACCEL_EINVAL, Some f, ob)"
        using m o n c q by (auto simp: file_from_regex_def snprintf_def simp del: MAX_PATH_def)
      then show thesis using that quiet_grows [OF qb assms(2)] qb by (simp add: quiet_def split: if_splits)
    next
      case True
      then have run: "file_from_regex (Some f) d p o1 = Some (vaccel_file_new (Some f) (Some (d @ ''/'' @ name)) ob)"
        using m o n c q by (auto simp: file_from_regex_def snprintf_def simp del: MAX_PATH_def)
      have hb: "grows o1 ob" "heap_ok ob" using quiet_grows [OF qb assms(2)] by (simp_all add: grows_def)
      obtain ret f' o2 where v: "vaccel_file_new (Some f) (Some (d @ ''/'' @ name)) ob = (ret, Some f', o2)" "grows ob o2" "fs o2 = fs ob" "world o2 = world ob"
        "ret = 0 \<Longrightarrow> fresh_file ob o2 f'" by (rule vaccel_file_new_fresh [OF hb(2), of f "d @ ''/'' @ name"]) (rule that)
      have "alloc_next o1 \<le> alloc_next ob" using hb(1) by (simp add: grows_def)
      then have "ret = 0 \<Longrightarrow> fresh_file o1 o2 f'" using v(5) unfolding fresh_file_def by (auto intro: order_trans)
      then show thesis using that [OF run [unfolded v(1)] grows_trans [OF hb(1) v(2)]] v(3,4) qb by (simp add: quiet_def)
    qed
  qed
qed

subsection \<open>The export directory\<close>

definition export_dir :: "string \<Rightarrow> os_state \<Rightarrow> bool" where
  "export_dir path o1 \<longleftrightarrow> list_ex (regexec ''saved_model.pb$'') (children o1 path)
     \<and> list_ex (regexec ''variables.data-*'') (children o1 (path @ ''/variables'')) \<and> list_ex (regexec ''variables.index'') (children o1 (path @ ''/variables''))"

lemma tsm_search:
  assumes "tsm_mem s a = Some m" "list_ex (regexec p) (children (os s) d)" "heap_ok (os s)"
  obtains ret f o2 where "tsm_do i a (\<lambda>f. file_from_regex f d p) s = Some (ret, s\<lparr>os := o2, tsm_mem := (tsm_mem s)(a \<mapsto> set_tsm_file i f m)\<rparr>)"
    "grows (os s) o2" "fs o2 = fs (os s)" "world o2 = world (os s)" "ret = 0 \<Longrightarrow> fresh_file (os s) o2 f"
proof -
  obtain ret f o2 where f: "file_from_regex (Some (tsm_file i m)) d p (os s) = Some (ret, Some f, o2)" "grows (os s) o2" "fs o2 = fs (os s)"
    "world o2 = world (os s)" "ret = 0 \<Longrightarrow> fresh_file (os s) o2 f"
    by (rule file_from_regex_fresh [OF assms(2,3), of "tsm_file i m"]) (rule that)
  show thesis by (rule that [OF _ f(2-5)]) (simp add: tsm_do_def assms(1) f(1))
qed

lemma tsm_destroy_ok:
  assumes "tsm_mem s a = Some m" "files_ok (map (\<lambda>i. tsm_file i m) is) (os s)"
  obtains o' where "tsm_destroy is a s = Some (s\<lparr>os := o'\<rparr>)" "frees (blocks_of (map (\<lambda>i. tsm_file i m) is)) (os s) o'"
proof -
  have "tsm_destroy is a s = destroy_files (map (\<lambda>i. tsm_file i m) is) s" using assms(1)
  proof (induction "is" arbitrary: s)
    case (Cons i "is")
    have "tsm_mem t a = Some m" if "destroy_file f s = Some t" for f t using that Cons.prems by (auto simp: destroy_file_def os_do_def split: Option.bind_splits)
    then show ?case using Cons by (cases "destroy_file (tsm_file i m) s") simp_all
  qed simp
  then show thesis using that destroy_files_ok [OF assms(2)] by auto
qed

lemma grows_frees:
  assumes "grows o1 o2" "frees A o2 o3" "\<And>x. x \<in> A \<Longrightarrow> alloc_next o1 \<le> x"
  shows "grows o1 o3"
  using assms frees_heap_ok [OF assms(2)] unfolding grows_def frees_def by (metis not_le)

text \<open>The outcome \<open>ret\<close>, \<open>t\<close> of filling the model at \<open>a\<close>.\<close>

definition model_files :: "tf_saved_model \<Rightarrow> vaccel_file list" where
  "model_files m = [tsm_model m, tsm_checkpoint m, tsm_var_index m]"

definition fills :: "addr \<Rightarrow> 'z obj_state_scheme \<Rightarrow> int \<Rightarrow> 'z obj_state_scheme \<Rightarrow> bool" where
  "fills a s ret t \<longleftrightarrow> grows (os s) (os t) \<and> (\<exists>m. t = s\<lparr>os := os t, tsm_mem := (tsm_mem s)(a \<mapsto> m)\<rparr>
     \<and> (ret = 0 \<longrightarrow> world (os t) = world (os s) \<and> tsm_path m \<noteq> None \<and> (\<forall>f\<in>set (model_files m). fresh_file (os s) (os t) f)
        \<and> distinct (concat (map blocks (model_files m)))))"

lemma fills_failed:
  assumes "tsm_mem t a = Some m" "t = s\<lparr>os := os t, tsm_mem := (tsm_mem s)(a \<mapsto> m)\<rparr>" "grows (os s) (os t)" "ret \<noteq> 0"
    "files_ok (map (\<lambda>i. tsm_file i m) is) (os t)" "\<And>i. i \<in> set is \<Longrightarrow> fresh_file (os s) (os t) (tsm_file i m)"
  shows "\<exists>u. tsm_destroy is a t = Some u \<and> fills a s ret u"
proof -
  obtain o' where o': "tsm_destroy is a t = Some (t\<lparr>os := o'\<rparr>)" "frees (blocks_of (map (\<lambda>i. tsm_file i m) is)) (os t) o'"
    by (rule tsm_destroy_ok [OF assms(1,5)])
  have "grows (os s) o'" by (rule grows_frees [OF assms(3) o'(2)]) (use assms(6) in \<open>auto simp: fresh_file_def\<close>)
  moreover have "t\<lparr>os := o'\<rparr> = s\<lparr>os := o', tsm_mem := (tsm_mem s)(a \<mapsto> m)\<rparr>" by (subst assms(2)) simp
  ultimately show ?thesis using o'(1) assms(4) by (auto simp: fills_def)
qed

lemma fresh_files_apart:
  assumes "fresh_file o1 o2 f" "fresh_file o2 o3 g"
  shows "set (blocks f) \<inter> set (blocks g) = {}"
proof -
  have "x < alloc_next o2" if "x \<in> set (blocks f)" for x using assms(1) that by (simp add: fresh_file_def)
  moreover have "alloc_next o2 \<le> x" if "x \<in> set (blocks g)" for x using assms(2) that by (simp add: fresh_file_def)
  ultimately show ?thesis by (meson disjoint_iff leD)
qed

lemma fresh_file_from: "fresh_file o2 o3 f \<Longrightarrow> grows o1 o2 \<Longrightarrow> fresh_file o1 o3 f"
  unfolding fresh_file_def grows_def by (meson order_trans)

text \<open>A fresh file is a list of fresh files.\<close>

lemma fresh_files_ok: "(\<And>f. f \<in> set gs \<Longrightarrow> fresh_file o1 o2 f) \<Longrightarrow> distinct (concat (map blocks gs)) \<Longrightarrow> files_ok gs o2"
  by (simp add: files_ok_def fresh_file_def)

text \<open>The state with the model at \<open>a\<close> and the machine replaced.\<close>

definition model_at :: "'z obj_state_scheme \<Rightarrow> addr \<Rightarrow> os_state \<Rightarrow> tf_saved_model \<Rightarrow> 'z obj_state_scheme" where
  "model_at s a o1 m = s\<lparr>os := o1, tsm_mem := (tsm_mem s)(a \<mapsto> m)\<rparr>"

lemma model_at_simps [simp]:
  "os (model_at s a o1 m) = o1" "tsm_mem (model_at s a o1 m) = (tsm_mem s)(a \<mapsto> m)" "(model_at s a o1 m)\<lparr>os := o2\<rparr> = model_at s a o2 m"
  "(model_at s a o1 m)\<lparr>os := o2, tsm_mem := (tsm_mem s)(a \<mapsto> m')\<rparr> = model_at s a o2 m'" "(model_at s a o1 m)\<lparr>tsm_mem := (tsm_mem s)(a \<mapsto> m')\<rparr> = model_at s a o1 m'"
  by (simp_all add: model_at_def)

lemma search_at:
  assumes "list_ex (regexec p) (children o1 d)" "heap_ok o1"
  obtains ret f o2 where "tsm_do i a (\<lambda>f. file_from_regex f d p) (model_at s a o1 m) = Some (ret, model_at s a o2 (set_tsm_file i f m))"
    "grows o1 o2" "fs o2 = fs o1" "world o2 = world o1" "ret = 0 \<Longrightarrow> fresh_file o1 o2 f"
  by (rule tsm_search [of "model_at s a o1 m" a m p d i]) (use assms in \<open>simp_all add: that\<close>)

lemma fills_at: "fills a s ret (model_at s a o1 m) \<longleftrightarrow> grows (os s) o1 \<and> (ret = 0 \<longrightarrow> world o1 = world (os s) \<and> tsm_path m \<noteq> None
    \<and> (\<forall>f\<in>set (model_files m). fresh_file (os s) o1 f) \<and> distinct (concat (map blocks (model_files m))))"
proof -
  have "m' = m" if "model_at s a o1 m = s\<lparr>os := o1, tsm_mem := (tsm_mem s)(a \<mapsto> m')\<rparr>" for m'
    using arg_cong [OF that, of "\<lambda>s. tsm_mem s a"] by simp
  then show ?thesis unfolding fills_def by (auto simp: model_at_def)
qed

lemma undo_fills:
  assumes "grows (os s) o1" "ret \<noteq> 0" "\<And>i. i \<in> set is \<Longrightarrow> fresh_file (os s) o1 (tsm_file i m)" "distinct (concat (map blocks (map (\<lambda>i. tsm_file i m) is)))"
  shows "\<exists>u. tsm_destroy is a (model_at s a o1 m) = Some u \<and> fills a s ret u"
  by (rule fills_failed [of _ _ m]) (use assms in \<open>auto simp: model_at_def intro!: fresh_files_ok [of _ "os s"]\<close>)

lemma set_path_fills:
  assumes m: "tsm_mem s a = Some m" and ex: "export_dir path (os s)" and h: "heap_ok (os s)"
  shows "\<exists>ret t. vaccel_tf_saved_model_set_path (Some a) path s = Some (ret, t) \<and> fills a s ret t"
proof -
  let ?var = "path @ ''/variables''"
  obtain found o0 where o0: "dir_exists path (os s) = (found, o0)" by fastforce
  then have q: "quiet (os s) o0" by (auto simp: dir_exists_def dest: quiet_calls(2))
  have g0: "grows (os s) o0" "heap_ok o0" using quiet_grows [OF q h] by (simp_all add: grows_def)
  have ex0: "export_dir path o1" if "fs o1 = fs o0" for o1 using ex q that by (simp add: quiet_def children_def export_dir_def)
  have d: "os_call (dir_exists path) s = (found, model_at s a o0 m)" using o0 m by (simp add: os_call_def model_at_def fun_upd_idem)
  show ?thesis
  proof (cases "found \<and> length ?var < MAX_PATH")
    case False
    then show ?thesis using d g0(1) by (auto simp: vaccel_tf_saved_model_set_path_def snprintf_def fills_at simp del: MAX_PATH_def)
  next
    case True
    have "take (MAX_PATH - 1) ?var = ?var" by (rule take_all) (use True in linarith)
    then have tk: "snprintf MAX_PATH ?var = (length ?var, ?var)" unfolding snprintf_def by simp
    have len: "\<not> MAX_PATH \<le> length ?var" using True by linarith
    obtain r1 f1 o1 where 1: "tsm_do Model a (\<lambda>f. file_from_regex f path ''saved_model.pb$'') (model_at s a o0 m) = Some (r1, model_at s a o1 (set_tsm_file Model f1 m))"
      "grows o0 o1" "fs o1 = fs o0" "world o1 = world o0" "r1 = 0 \<Longrightarrow> fresh_file o0 o1 f1"
      by (rule search_at [of "''saved_model.pb$''" o0 path Model a s m]) (use ex0 [OF refl] g0(2) in \<open>simp_all add: export_dir_def that\<close>)
    let ?m1 = "set_tsm_file Model f1 m"
    have g1: "grows (os s) o1" "heap_ok o1" using grows_trans [OF g0(1) 1(2)] by (simp_all add: grows_def)
    obtain r2 f2 o2 where 2: "tsm_do Checkpoint a (\<lambda>f. file_from_regex f ?var ''variables.data-*'') (model_at s a o1 ?m1) = Some (r2, model_at s a o2 (set_tsm_file Checkpoint f2 ?m1))"
      "grows o1 o2" "fs o2 = fs o1" "world o2 = world o1" "r2 = 0 \<Longrightarrow> fresh_file o1 o2 f2"
      by (rule search_at [of "''variables.data-*''" o1 ?var Checkpoint a s ?m1]) (use ex0 [OF 1(3)] g1(2) in \<open>simp_all add: export_dir_def that\<close>)
    let ?m2 = "set_tsm_file Checkpoint f2 ?m1"
    have g2: "grows (os s) o2" "heap_ok o2" using grows_trans [OF g1(1) 2(2)] by (simp_all add: grows_def)
    obtain r3 f3 o3 where 3: "tsm_do Var_Index a (\<lambda>f. file_from_regex f ?var ''variables.index'') (model_at s a o2 ?m2) = Some (r3, model_at s a o3 (set_tsm_file Var_Index f3 ?m2))"
      "grows o2 o3" "fs o3 = fs o2" "world o3 = world o2" "r3 = 0 \<Longrightarrow> fresh_file o2 o3 f3"
      by (rule search_at [of "''variables.index''" o2 ?var Var_Index a s ?m2]) (use ex0 [of o2] 1(3) 2(3) g2(2) in \<open>simp_all add: export_dir_def that\<close>)
    let ?m3 = "set_tsm_file Var_Index f3 ?m2"
    have g3: "grows (os s) o3" "heap_ok o3" using grows_trans [OF g2(1) 3(2)] by (simp_all add: grows_def)
    let ?run = "vaccel_tf_saved_model_set_path (Some a) path s"
    note run = vaccel_tf_saved_model_set_path_def [of "Some a" path s, unfolded option.case d Let_def prod.case tk]
    have fr1: "fresh_file (os s) o3 f1" "fresh_file (os s) o2 f1" if "r1 = 0"
      using fresh_file_from [OF 1(5) [OF that] g0(1)] fresh_file_later g1(2) g2(2) 2(2) 3(2) by blast+
    have fr2: "fresh_file (os s) o3 f2" if "r2 = 0" using fresh_file_later [OF fresh_file_from [OF 2(5) [OF that] g1(1)] g2(2) 3(2)] .
    have fr3: "fresh_file (os s) o3 f3" if "r3 = 0" using fresh_file_from [OF 3(5) [OF that] g2(1)] .
    have apart: "set (blocks f1) \<inter> set (blocks f2) = {}" if "r1 = 0" "r2 = 0" using fresh_files_apart [OF 1(5) 2(5)] that .
    have b: "distinct (blocks f)" if "fresh_file (os s) ob f" for ob f using that by (simp add: fresh_file_def)
    have sl: "tsm_file Model ?m3 = f1" "tsm_file Checkpoint ?m3 = f2" "tsm_file Model ?m2 = f1" "model_files (?m3\<lparr>tsm_path := p\<rparr>) = [f1, f2, f3]" for p
      by (simp_all add: model_files_def tsm_file_def set_tsm_file_def)
    consider "r1 \<noteq> 0" | "r1 = 0" "r2 \<noteq> 0" | "r1 = 0" "r2 = 0" "r3 \<noteq> 0" | "r1 = 0" "r2 = 0" "r3 = 0" by blast
    then show ?thesis
    proof cases
      case 1
      then have "?run = Some (VACCEL_ENOENT, model_at s a o1 ?m1)" unfolding run using True len \<open>tsm_do Model a _ _ = _\<close> by simp
      then show ?thesis using g1(1) by (simp add: fills_at)
    next
      case c: 2
      have f: "fresh_file (os s) o2 (tsm_file i ?m2)" if "i \<in> set [Model]" for i using that fr1(2) [OF c(1)] by auto
      have "distinct (concat (map blocks (map (\<lambda>i. tsm_file i ?m2) [Model])))" using b [OF fr1(2) [OF c(1)]] by simp
      then obtain u where u: "tsm_destroy [Model] a (model_at s a o2 ?m2) = Some u" "fills a s r2 u" using undo_fills [OF g2(1) c(2) f] by blast
      then have "?run = Some (r2, u)" unfolding run using True len 1(1) 2(1) c by (simp del: tsm_destroy.simps)
      then show ?thesis using u by blast
    next
      case c: 3
      have f: "fresh_file (os s) o3 (tsm_file i ?m3)" if "i \<in> set [Checkpoint, Model]" for i using that fr1(1) [OF c(1)] fr2 [OF c(2)] by auto
      have "distinct (concat (map blocks (map (\<lambda>i. tsm_file i ?m3) [Checkpoint, Model])))"
        using b [OF fr1(1) [OF c(1)]] b [OF fr2 [OF c(2)]] apart [OF c(1,2)] by auto
      then obtain u where u: "tsm_destroy [Checkpoint, Model] a (model_at s a o3 ?m3) = Some u" "fills a s r3 u" using undo_fills [OF g3(1) c(3) f] by blast
      then have "?run = Some (r3, u)" unfolding run using True len 1(1) 2(1) 3(1) c by (simp del: tsm_destroy.simps)
      then show ?thesis using u by blast
    next
      case c: 4
      obtain p o4 where p: "strdup path o3 = (p, o4)" by fastforce
      have p4: "grows o3 o4" "heap_ok o4" "world o4 = world o3"
        using g3(2) p by (cases rule: new_str_cases [of path o3]; auto simp: strdup_def grows_def heap_ok_def world_def)+
      let ?m4 = "?m3\<lparr>tsm_path := p\<rparr>"
      have g4: "grows (os s) o4" by (rule grows_trans [OF g3(1) p4(1)])
      have fr: "fresh_file (os s) o4 f1" "fresh_file (os s) o4 f2" "fresh_file (os s) o4 f3"
        using fresh_file_later [OF _ g3(2) p4(1)] fr1(1) fr2 fr3 c by blast+
      have dis: "set (blocks f3) \<inter> set (blocks f1) = {}" "set (blocks f3) \<inter> set (blocks f2) = {}"
        using fresh_files_apart [OF fresh_file_later [OF 1(5) g1(2) 2(2)] 3(5)] fresh_files_apart [OF 2(5) 3(5)] c by blast+
      have sl4: "tsm_file Var_Index ?m4 = f3" "tsm_file Checkpoint ?m4 = f2" "tsm_file Model ?m4 = f1" by (simp_all add: tsm_file_def set_tsm_file_def)
      note call = os_call_def [of "strdup path"]
      show ?thesis
      proof (cases "p = None")
        case True
        have e: "VACCEL_ENOMEM \<noteq> 0" by simp
        have f: "fresh_file (os s) o4 (tsm_file i ?m4)" if "i \<in> set [Var_Index, Checkpoint, Model]" for i using that fr sl4 by auto
        have "distinct (concat (map blocks (map (\<lambda>i. tsm_file i ?m4) [Var_Index, Checkpoint, Model])))"
          unfolding list.map sl4 using apart [OF c(1,2)] dis b [OF fr(1)] b [OF fr(2)] b [OF fr(3)] by auto
        then obtain u where u: "tsm_destroy [Var_Index, Checkpoint, Model] a (model_at s a o4 ?m4) = Some u" "fills a s VACCEL_ENOMEM u"
          using undo_fills [OF g4 e f] by blast
        then have "?run = Some (VACCEL_ENOMEM, u)" unfolding run using \<open>found \<and> _\<close> len 1(1) 2(1) 3(1) c p True by (simp add: call del: tsm_destroy.simps)
        then show ?thesis using u by blast
      next
        case False
        have "?run = Some (VACCEL_OK, model_at s a o4 (?m4\<lparr>tsm_resource := None\<rparr>))" unfolding run using \<open>found \<and> _\<close> len 1(1) 2(1) 3(1) c p False by (cases p) (simp_all add: call)
        moreover have "fills a s VACCEL_OK (model_at s a o4 (?m4\<lparr>tsm_resource := None\<rparr>))"
          using g4 p4(3) 1(4) 2(4) 3(4) q False fr apart [OF c(1,2)] dis b by (auto simp: fills_at model_files_def set_tsm_file_def quiet_def)
        ultimately show ?thesis by blast
      qed
    qed
  qed
qed

subsection \<open>The model in the library\<close>

text \<open>No live resource has the model at \<open>a\<close>.\<close>

definition model_free :: "addr \<Rightarrow> 'z obj_state_scheme \<Rightarrow> bool" where
  "model_free a s \<longleftrightarrow> (\<forall>b r. r_mem s b = Some r \<longrightarrow> \<not> (cleanup_resource r = Some Tf_Saved_Model_Destructor \<and> res_data r = Some a))"

lemma object_other:
  assumes so: "same_objects (s\<lparr>tsm_mem := (tsm_mem s)(a \<mapsto> m)\<rparr>) t" and d: "\<not> (d = Tf_Saved_Model_Destructor \<and> data = Some a)"
  shows "files_of d data t = files_of d data s" "has_object d data t = has_object d data s" "back_of d data t = back_of d data s"
proof -
  note e = object_cong [OF so, of d data]
  show "files_of d data t = files_of d data s" "has_object d data t = has_object d data s" "back_of d data t = back_of d data s"
    unfolding e using d by (cases d; cases data; simp add: files_of_def has_object_def back_of_def)+
qed

lemma object_self:
  assumes "same_objects (s\<lparr>tsm_mem := (tsm_mem s)(a \<mapsto> m)\<rparr>) t"
  shows "files_of Tf_Saved_Model_Destructor (Some a) t = model_files m" "has_object Tf_Saved_Model_Destructor (Some a) t"
    "back_of Tf_Saved_Model_Destructor (Some a) t = tsm_resource m"
  unfolding object_cong [OF assms] by (simp_all add: files_of_def has_object_def back_of_def model_files_def)

lemma obj_ok_model:
  assumes ok: "obj_ok s L" and un: "model_free a s" and up: "same_objects (s\<lparr>tsm_mem := (tsm_mem s)(a \<mapsto> m)\<rparr>) t" and g: "grows (os s) (os t)"
    and res: "res_ok t (L @ N)" and mem: "\<And>b. b < alloc_next (os s) \<Longrightarrow> r_mem t b = r_mem s b"
    and dom: "\<And>b. r_mem t b \<noteq> None \<Longrightarrow> b < alloc_next (os t)" and rd: "rundir_of t = rundir_of s"
    and N: "N = [] \<or> (\<exists>c r. N = [c] \<and> r_mem t c = Some r \<and> cleanup_resource r = Some Tf_Saved_Model_Destructor \<and> res_data r = Some a
      \<and> tsm_resource m = Some c \<and> (\<forall>f\<in>set (model_files m). fresh_file (os s) (os t) f) \<and> distinct (concat (map blocks (model_files m))))"
  shows "obj_ok t (L @ N)"
proof (rule obj_ok_grow [OF ok res g])
  note D = obj_okD [OF ok]
  fix b assume b: "b \<in> set L"
  obtain r where r: "r_mem s b = Some r" using res_okD(4) [OF D(1) b] by blast
  have eq: "r_mem t b = r_mem s b" using mem D(7) [OF r] by blast
  have ne: "\<not> (d = Tf_Saved_Model_Destructor \<and> res_data r = Some a)" if "cleanup_resource r = Some d" for d using un r that by (auto simp: model_free_def)
  have "owned_files t b = owned_files s b"
    using r eq object_other(1) [OF up ne] by (cases "cleanup_resource r") (simp_all add: owned_files_def)
  moreover have "object_ok t b r" using D(3) [OF b r] object_other(2,3) [OF up ne] by (simp add: object_ok_def)
  ultimately show "r_mem t b = r_mem s b \<and> owned_files t b = owned_files s b \<and> (\<forall>r. r_mem s b = Some r \<longrightarrow> object_ok t b r)" using eq r by simp
next
  fix c assume "c \<in> set N"
  then obtain r where c: "N = [c]" "r_mem t c = Some r" "cleanup_resource r = Some Tf_Saved_Model_Destructor" "res_data r = Some a" "tsm_resource m = Some c"
    and f: "\<forall>f\<in>set (model_files m). fresh_file (os s) (os t) f" using N by auto
  have o: "owned_files t c = model_files m" using c object_self(1) [OF up] by (simp add: owned_files_def)
  have "object_ok t c r" using c object_self(2,3) [OF up] by (simp add: object_ok_def)
  moreover have "alloc_next (os s) \<le> x \<and> (\<forall>b. rundir_of t b \<noteq> Some x)" if x: "x \<in> set (owned t c)" for x
  proof -
    have "alloc_next (os s) \<le> x" using x f o by (auto simp: owned_def fresh_file_def)
    then show ?thesis using rd rundir_old [OF ok] by (metis not_le)
  qed
  ultimately show "(\<forall>r. r_mem t c = Some r \<longrightarrow> object_ok t c r) \<and> (\<forall>f\<in>set (owned_files t c). file_ok f (os t))
      \<and> (\<forall>x\<in>set (owned t c). alloc_next (os s) \<le> x \<and> (\<forall>b. rundir_of t b \<noteq> Some x))"
    using c(2) o f by (simp add: fresh_file_def)
next
  show "distinct (concat (map (owned t) N))" using N object_self(1) [OF up] by (auto simp: owned_def owned_files_def)
next
  fix b p assume "rundir_of t b = Some p"
  then have q: "rundir_of s b = Some p" using rd by simp
  then have "p < alloc_next (os s)" by (rule rundir_old [OF ok])
  moreover have "alloc_next (os s) \<le> alloc_next (os t)" using g by (simp add: grows_def)
  ultimately show "(rundir_of s b = Some p \<or> alloc_next (os s) \<le> p) \<and> p < alloc_next (os t)" using q by simp
qed (use dom in blast)

lemma fills_lib:
  assumes ok: "lib_ok s L G" and un: "model_free a s" and fi: "fills a s ret t"
  shows "objects_only s t" "lib_ok t L G" "alloc_next (os s) \<le> alloc_next (os t)"
proof -
  note D = lib_okD [OF ok]
  from fi obtain m where g: "grows (os s) (os t)" and t: "t = s\<lparr>os := os t, tsm_mem := (tsm_mem s)(a \<mapsto> m)\<rparr>" by (auto simp: fills_def)
  show fr: "objects_only s t" by (subst t) (simp add: objects_only_def)
  show al: "alloc_next (os s) \<le> alloc_next (os t)" using g by (simp add: grows_def)
  have F: "r_mem t = r_mem s" "r_links t = r_links s" "r_pool t = r_pool s" by (subst t, simp)+
  have res: "res_ok t (L @ [])" using res_ok_cong [OF obj_okD(1) [OF D(1)] F(2,3,1)] res_rundirs_kept [OF D(1) g] by simp
  have "same_objects (s\<lparr>tsm_mem := (tsm_mem s)(a \<mapsto> m)\<rparr>) t" by (subst t) (simp add: same_objects_def)
  then have "obj_ok t (L @ [])"
  proof (rule obj_ok_model [OF D(1) un _ g res])
    show "b < alloc_next (os t)" if "r_mem t b \<noteq> None" for b using that unfolding F(1) using obj_okD(7) [OF D(1)] al by (auto intro: less_le_trans)
  qed (use F in \<open>simp_all add: rundir_of_def fun_eq_iff\<close>)
  then show "lib_ok t L G" using lib_not_made [OF ok fr _ F(1) al] by simp
qed

definition model_live :: "addr \<Rightarrow> addr \<Rightarrow> 'z obj_state_scheme \<Rightarrow> bool" where
  "model_live a c s \<longleftrightarrow> (\<exists>m r. tsm_mem s a = Some m \<and> tsm_resource m = Some c \<and> r_mem s c = Some r \<and> res_type r = VACCEL_RES_TF_MODEL
     \<and> cleanup_resource r = Some Tf_Saved_Model_Destructor \<and> res_data r = Some a)"

lemma model_live_as: "model_live a c s \<Longrightarrow> live_as Tf_Model c s"
  by (auto simp: model_live_def live_as_def kind_type_def)

lemma model_registered:
  assumes ok: "lib_ok s L G" and un: "model_free a s" and fi: "fills a s 0 s1" and fr: "free_ids (r_pool s) = rid # F" and al: "alloc_ok (os s) (alloc_next (os s1))"
  defines "c \<equiv> alloc_next (os s1)"
  obtains t where "vaccel_tf_saved_model_register (Some a) s1 = Some (VACCEL_OK, t)" "objects_only s t" "lib_ok t (L @ [c]) G" "model_live a c t"
    "regs_of t c = {}" "c \<notin> set L" "free_ids (r_pool t) = F" "world (os t) = world (os s)" "vaccel_tf_saved_model_id (Some a) t = Some rid"
    "alloc_next (os s) \<le> alloc_next (os t)"
proof -
  note D = lib_okD [OF ok] and fo = fills_lib [OF ok un fi]
  note D1 = lib_okD [OF fo(2)]
  from fi obtain m where g: "grows (os s) (os s1)" and s1: "s1 = s\<lparr>os := os s1, tsm_mem := (tsm_mem s)(a \<mapsto> m)\<rparr>" and w: "world (os s1) = world (os s)"
    and m: "tsm_path m \<noteq> None" "\<forall>f\<in>set (model_files m). fresh_file (os s) (os s1) f" "distinct (concat (map blocks (model_files m)))"
    by (auto simp: fills_def)
  have F1: "r_mem s1 = r_mem s" "r_pool s1 = r_pool s" "tsm_mem s1 a = Some m" by (subst s1, simp)+
  have below: "b < alloc_next (os s)" if "r_mem s b \<noteq> None" for b using that obj_okD(7) [OF D(1)] by blast
  have c: "r_mem s c = None" "c \<notin> set L" using below [of c] fo(3) D(3) by (auto simp: c_def)
  have init: "vaccel_file_initialized (Some (tsm_file i m))" for i using m(2) by (cases i) (auto simp: model_files_def fresh_file_def tsm_file_def)
  have al1: "alloc_ok (os s1) (alloc_next (os s1))" using al w by (simp add: world_def)
  have c1: "r_mem s1 (alloc_next (os s1)) = None" using c(1) F1(1) by (simp add: c_def)
  let ?R = "saved_model_resource rid a" and ?m = "m\<lparr>tsm_resource := Some c\<rparr>"
  obtain p h where reg: "vaccel_tf_saved_model_register (Some a) s1 = Some (VACCEL_OK, s1\<lparr>os := (os s1)\<lparr>alloc_next := Suc c\<rparr>, r_pool := p, r_links := h,
      r_mem := (r_mem s1)(c \<mapsto> ?R), tsm_mem := (tsm_mem s1)(a \<mapsto> ?m)\<rparr>)" and p: "free_ids p = F"
    and res: "res_ok (s1\<lparr>os := (os s1)\<lparr>alloc_next := Suc c\<rparr>, r_pool := p, r_links := h, r_mem := (r_mem s1)(c \<mapsto> ?R), tsm_mem := (tsm_mem s1)(a \<mapsto> ?m)\<rparr>) (L @ [c])"
    by (rule saved_model_registered [OF sess_okD(1) [OF D1(2)] D1(5,7) F1(3) m(1) init c1 al1 fr [folded F1(2)], folded c_def]) (rule that)
  let ?t = "s1\<lparr>os := (os s1)\<lparr>alloc_next := Suc c\<rparr>, r_pool := p, r_links := h, r_mem := (r_mem s1)(c \<mapsto> ?R), tsm_mem := (tsm_mem s1)(a \<mapsto> ?m)\<rparr>"
  let ?o = "(os s1)\<lparr>alloc_next := Suc c\<rparr>"
  have g1: "grows (os s1) ?o" using g by (auto simp: grows_def heap_ok_def c_def)
  have t: "?t = s\<lparr>os := ?o, r_pool := p, r_links := h, r_mem := (r_mem s)(c \<mapsto> ?R), tsm_mem := (tsm_mem s)(a \<mapsto> ?m)\<rparr>" by (subst (1 2 3) s1) simp
  have so: "same_objects (s\<lparr>tsm_mem := (tsm_mem s)(a \<mapsto> ?m)\<rparr>) ?t" unfolding t by (simp add: same_objects_def)
  have frm: "objects_only s ?t" unfolding t by (simp add: objects_only_def)
  have mf: "model_files ?m = model_files m" by (simp add: model_files_def)
  have h1: "heap_ok (os s1)" using g by (simp add: grows_def)
  have "obj_ok ?t (L @ [c])"
  proof (rule obj_ok_model [OF D(1) un so _ res])
    show "grows (os s) (os ?t)" using grows_trans [OF g g1] by simp
    show "r_mem ?t b = r_mem s b" if "b < alloc_next (os s)" for b using that fo(3) F1(1) by (simp add: c_def)
    show "b < alloc_next (os ?t)" if "r_mem ?t b \<noteq> None" for b using that below [of b] fo(3) F1(1) by (auto simp: c_def split: if_splits)
    show "rundir_of ?t = rundir_of s" using c(1) F1(1) by (simp add: rundir_of_def fun_eq_iff saved_model_resource_def)
    show "[c] = [] \<or> (\<exists>c' r. [c] = [c'] \<and> r_mem ?t c' = Some r \<and> cleanup_resource r = Some Tf_Saved_Model_Destructor \<and> res_data r = Some a
      \<and> tsm_resource ?m = Some c' \<and> (\<forall>f\<in>set (model_files ?m). fresh_file (os s) (os ?t) f) \<and> distinct (concat (map blocks (model_files ?m))))"
      using m(2,3) fresh_file_later [OF _ h1 g1] mf by (simp add: saved_model_resource_def)
  qed
  then have lib: "lib_ok ?t (L @ [c]) G"
  proof (rule lib_objects [OF ok frm])
    show "dom (r_mem ?t) = set (L @ [c])" using D(3) F1(1) by auto
    show "alloc_next (os s) \<le> alloc_next (os ?t)" using fo(3) by (simp add: c_def)
    show "res_type r < VACCEL_RES_MAX" if "r_mem ?t b = Some r" for b r using that D(4) F1(1) by (auto simp: saved_model_resource_def split: if_splits)
    show "r_mem ?t b = r_mem s b" if "b \<in> set L" for b using that c(2) F1(1) by auto
    show "refs_of ?t b = 0" if "b \<in> set (L @ [c])" "b \<notin> set L" for b using that by (simp add: refs_of_def saved_model_resource_def)
  qed simp
  have "regs_of ?t c = {}" using no_registrations [OF D(2) c(2)] objects_only_regs [OF frm] by simp
  then show thesis using that [OF reg frm lib] p c(2) w fo(3)
    by (simp add: model_live_def saved_model_resource_def vaccel_tf_saved_model_id_def world_def c_def)
qed

lemma model_destroyed:
  assumes ok: "lib_ok s L G" and l: "model_live a c s" "regs_of s c = {}"
  obtains t where "vaccel_tf_saved_model_destroy (Some a) s = Some (VACCEL_OK, t)" "objects_only s t" "lib_ok t (remove1 c L) G"
    "free_ids (r_pool t) = rid_of s c # free_ids (r_pool s)"
proof -
  note D = lib_okD [OF ok]
  from l(1) obtain m r where m: "tsm_mem s a = Some m" "tsm_resource m = Some c" "r_mem s c = Some r" by (auto simp: model_live_def)
  have cl: "c \<in> set L" by (rule lib_live [OF ok m(3)])
  have "refs_of s c = 0" using reg_okD(5) [OF sess_okD(2) [OF D(2)] cl] l(2) by simp
  then have r0: "refcount r = 0" using m(3) by (simp add: refs_of_def)
  obtain t where t: "resource_destroy call_destructor (Some c) s = Some (VACCEL_OK, t)" "obj_ok t (remove1 c L)" "r_mem t = r_mem s"
    "same_objects s t" "free_ids (r_pool t) = res_id r # free_ids (r_pool s)" "frees (set (owned s c) \<union> set_option (res_rundir r)) (os s) (os t)"
    by (rule destroy_object [OF D(1,5,7) cl m(3) r0]) (rule that)
  have nc: "c \<notin> set (remove1 c L)" using res_ok_distinct [OF obj_okD(1) [OF D(1)]] by (simp add: set_remove1_eq)
  have "r_mem t c \<noteq> None" using t(3) m(3) by simp
  then obtain u where u: "free_res (Some c) t = Some u" "obj_ok u (remove1 c L)" "r_mem u = (r_mem t)(c := None)" "os u = os t" "r_pool u = r_pool t"
    by (rule free_res_ok [OF t(2) nc]) (rule that)
  have fr: "objects_only s u" by (rule objects_only_trans [OF objects_only_destroy [OF t(1) D(7)] objects_only_calls(6) [OF u(1)]])
  have "lib_ok u (remove1 c L) G" by (rule lib_gone [OF ok fr u(2) _ l(2)]) (use u(3,4) t(3,6) in \<open>simp_all add: frees_def\<close>)
  moreover have "vaccel_tf_saved_model_destroy (Some a) s = Some (VACCEL_OK, u)" using m t(1) u(1) by (simp add: vaccel_tf_saved_model_destroy_def)
  ultimately show thesis using that fr t(5) u(5) m(3) by (simp add: rid_of_def)
qed

subsection \<open>The model and sessions\<close>

text \<open>Calls on sessions leave the world and the model alone.\<close>

lemma world_steps:
  "world (os (s_set x se t)) = world (os t)" "world (os (t\<lparr>sr_mem := y\<rparr>)) = world (os t)" "world (os (t\<lparr>reg_mem := z\<rparr>)) = world (os t)"
  "os_call (mkdir d) t = (q, u) \<Longrightarrow> world (os u) = world (os t)" "s_do g t = Some u \<Longrightarrow> world (os u) = world (os t)"
  "get_sess_id t = Some (i, u) \<Longrightarrow> world (os u) = world (os t)" "put_sess_id i t = Some u \<Longrightarrow> world (os u) = world (os t)"
  "free_sr c t = Some u \<Longrightarrow> world (os u) = world (os t)" "free_reg c t = Some u \<Longrightarrow> world (os u) = world (os t)"
  "set_running j v t = Some u \<Longrightarrow> world (os u) = world (os t)" "malloc_sr t = (p, u) \<Longrightarrow> world (os u) = world (os t)"
  "malloc_reg t = (p, u) \<Longrightarrow> world (os u) = world (os t)" "resource_refcount_inc v t = Some u \<Longrightarrow> world (os u) = world (os t)"
  by (auto simp: world_def s_set_def r_set_def os_call_def s_do_def get_sess_id_def put_sess_id_def free_sr_def free_reg_def set_running_def malloc_sr_def malloc_reg_def
      malloc_def resource_refcount_inc_def mkdir_def sys_call_def fail_def set_node_def Let_def split: prod.splits Option.bind_split_asm option.split_asm if_split_asm)

lemma world_initialize: "initialize_session_resources (Some a) s = Some (ret, t) \<Longrightarrow> world (os t) = world (os s)"
  by (auto simp: initialize_session_resources_def Let_def world_steps(1-3) elim!: bind_SomeE dest!: world_steps(4-) split: prod.split_asm option.split_asm if_split_asm)

lemma world_init: "vaccel_sess_init (Some a) flags s = Some (ret, t) \<Longrightarrow> virtio s = None \<Longrightarrow> world (os t) = world (os s)"
  by (auto simp: vaccel_sess_init_def get_virtio_plugin_def Let_def world_steps(1-3) elim!: bind_SomeE dest!: world_initialize world_steps(4-)
      split: prod.split_asm option.split_asm if_split_asm)

lemma world_register: "vaccel_sess_register (Some a) res s = Some (ret, t) \<Longrightarrow> virtio s = None \<Longrightarrow> world (os t) = world (os s)"
proof -
  assume v: "virtio s = None" and r: "vaccel_sess_register (Some a) res s = Some (ret, t)"
  have "virtio u = None" if "malloc_reg s = (p, u)" for p u using sessions_onlyD(4) [OF sessions_only_call(11) [OF that]] v by simp
  then show ?thesis using r
    by (auto simp: vaccel_sess_register_def get_virtio_plugin_def Let_def world_steps(1-3) elim!: bind_SomeE dest!: world_steps(4-)
        split: prod.split_asm option.split_asm if_split_asm)
qed

lemma model_live_cong: "model_live m c s \<Longrightarrow> r_mem t = r_mem s \<Longrightarrow> tsm_mem t = tsm_mem s \<Longrightarrow> model_live m c t"
  by (simp add: model_live_def)

lemma model_live_session:
  assumes "model_live m c s" "sessions_only s t"
  shows "model_live m c t"
proof -
  obtain x r where x: "tsm_mem s m = Some x" "tsm_resource x = Some c" and r: "r_mem s c = Some r" "res_type r = VACCEL_RES_TF_MODEL"
    "cleanup_resource r = Some Tf_Saved_Model_Destructor" "res_data r = Some m" using assms(1) unfolding model_live_def by blast
  have "tsm_mem t = tsm_mem s" using assms(2) by (auto elim!: sessions_onlyE)
  moreover have "map_option (\<lambda>r. r\<lparr>refcount := 0\<rparr>) (r_mem t c) = map_option (\<lambda>r. r\<lparr>refcount := 0\<rparr>) (r_mem s c)"
    using sessions_onlyD(10) [OF assms(2)] by (simp add: store_kept_def)
  note e = refcount_erase_fields [OF this]
  then obtain r' where "r_mem t c = Some r'" using r(1) by (cases "r_mem t c") auto
  moreover from this have "res_type r' = res_type r" "cleanup_resource r' = cleanup_resource r" "res_data r' = res_data r" using e r(1) by simp_all
  ultimately show ?thesis using x r unfolding model_live_def by metis
qed

text \<open>Starting a session registers nothing.\<close>

lemma reg_steps:
  "reg_mem (s_set x se t) = reg_mem t" "os_call f t = (q, u) \<Longrightarrow> reg_mem u = reg_mem t" "s_do g t = Some u \<Longrightarrow> reg_mem u = reg_mem t"
  "get_sess_id t = Some (i, u) \<Longrightarrow> reg_mem u = reg_mem t" "put_sess_id i t = Some u \<Longrightarrow> reg_mem u = reg_mem t"
  "free_sr c t = Some u \<Longrightarrow> reg_mem u = reg_mem t" "set_running j v t = Some u \<Longrightarrow> reg_mem u = reg_mem t" "malloc_sr t = (p, u) \<Longrightarrow> reg_mem u = reg_mem t"
  by (auto simp: s_set_def os_call_def s_do_def get_sess_id_def put_sess_id_def free_sr_def set_running_def malloc_sr_def malloc_def
      split: prod.splits Option.bind_split_asm option.split_asm if_split_asm)

lemma reg_initialize: "initialize_session_resources (Some a) s = Some (ret, t) \<Longrightarrow> reg_mem t = reg_mem s"
  by (auto simp: initialize_session_resources_def Let_def reg_steps(1) elim!: bind_SomeE dest!: reg_steps(2-) split: prod.split_asm option.split_asm if_split_asm)

lemma reg_init: "vaccel_sess_init (Some a) flags s = Some (ret, t) \<Longrightarrow> virtio s = None \<Longrightarrow> regs_of t c = regs_of s c"
proof -
  assume "vaccel_sess_init (Some a) flags s = Some (ret, t)" "virtio s = None"
  then have "reg_mem t = reg_mem s"
    by (auto simp: vaccel_sess_init_def get_virtio_plugin_def Let_def reg_steps(1) elim!: bind_SomeE dest!: reg_initialize reg_steps(2-)
        split: prod.split_asm option.split_asm if_split_asm)
  then show "regs_of t c = regs_of s c" by (simp add: regs_of_def)
qed

subsection \<open>An export directory\<close>

text \<open>The machine of \<open>client_os\<close> with a model.\<close>

definition export_os :: os_state where
  "export_os = client_os\<lparr>fs := [(''/run'', Dir), (''/e'', Dir), (''/e/saved_model.pb'', File [1]), (''/e/variables'', Dir),
     (''/e/variables/variables.data-0'', File [2]), (''/e/variables/variables.index'', File [3])]\<rparr>"

lemma export_os: "export_dir ''/e'' export_os"
proof -
  have "regexec ''saved_model.pb$'' ''saved_model.pb''" "regexec ''variables.data-*'' ''variables.data-0''" "regexec ''variables.index'' ''variables.index''"
    by code_simp+
  then show ?thesis by (simp add: export_dir_def export_os_def children_def dirname_def basename_def)
qed

end
