(* ===== verification/Saved_Model_Run.thy ===== *)
theory Saved_Model_Run
  imports Model_Clients
begin

text \<open>
  The example that makes a saved model from an export directory (\<^verbatim>\<open>create_from_path\<close> of \<^verbatim>\<open>src/examples/tf_saved_model.c\<close>) run to its end. It
  takes the model back before the session, and on an error it returns at once: the library is consistent then, but still holds what the
  program has made.
\<close>

text \<open>The end of a call that has failed, or the rest of the program.\<close>

definition end_like :: "'z obj_state_scheme \<Rightarrow> addr list \<Rightarrow> int \<Rightarrow> 'z obj_state_scheme \<Rightarrow> bool" where
  "end_like s L ret t \<longleftrightarrow> (\<exists>L G. lib_ok t L G) \<and> (ret = 0 \<longrightarrow> (\<exists>G. lib_ok t L G) \<and> free_ids (s_ids t) = free_ids (s_ids s) \<and> running t = running s
     \<and> length (free_ids (r_pool t)) = length (free_ids (r_pool s)))"

lemma end_failed: "lib_ok t L' G \<Longrightarrow> ret \<noteq> 0 \<Longrightarrow> end_like s L ret t"
  by (auto simp: end_like_def)

lemma or_return_ok: "or_return (Some (0, s)) k = k s"
  by (simp add: or_return_def)

lemma or_return_step:
  assumes "r = Some (ret, t)" "ret \<noteq> 0 \<Longrightarrow> \<exists>L G. lib_ok t L G" "ret = 0 \<Longrightarrow> \<exists>q u. k t = Some (q, u) \<and> end_like s L q u"
  shows "\<exists>q u. or_return r k = Some (q, u) \<and> end_like s L q u"
  using assms end_failed by (cases "ret = 0") (fastforce simp: or_return_def)+

text \<open>The model is taken back while the session runs.\<close>

lemma session_end:
  assumes u: "in_session (L @ [c]) G a j q s" and l: "model_live m c s" "regs_of s c = {}" "c \<notin> set L"
  shows "\<exists>t. or_return (vaccel_tf_saved_model_destroy (Some m) s) (destroy_session a) = Some (0, t) \<and> (\<exists>G. lib_ok t L G)
    \<and> free_ids (s_ids t) = (int j + 1) # free_ids (s_ids s) \<and> running t = (running s)[j := None] \<and> length (free_ids (r_pool t)) = Suc (length (free_ids (r_pool s)))"
proof -
  have ok: "lib_ok s (L @ [c]) G" using u by (simp add: in_session_def)
  obtain s1 where 1: "vaccel_tf_saved_model_destroy (Some m) s = Some (VACCEL_OK, s1)" "objects_only s s1" "lib_ok s1 (remove1 c (L @ [c])) G"
    "free_ids (r_pool s1) = rid_of s c # free_ids (r_pool s)" by (rule model_destroyed [OF ok l(1,2)])
  have r: "remove1 c (L @ [c]) = L" using l(3) by (simp add: remove1_append)
  have u1: "in_session L G a j q s1" by (rule in_session_objects [OF u 1(2) 1(3) [unfolded r]])
  obtain t G' where t: "vaccel_sess_free (Some a) s1 = Some (VACCEL_OK, t)" "sessions_only s1 t" "lib_ok t L G'"
    "free_ids (s_ids t) = (int j + 1) # free_ids (s_ids s1)" "running t = (running s1)[j := None]" using use_free [OF u1] by blast
  have "s_ids s1 = s_ids s" "running s1 = running s" using 1(2) by (auto elim!: objects_onlyE)
  then show ?thesis using 1(1,4) t sessions_onlyD(8) [OF t(2)] by (auto simp: or_return_def destroy_session_def)
qed

text \<open>Registering the model with the session and taking everything back.\<close>

lemma model_in_session:
  assumes u: "in_session (L @ [c]) G a j q s" and l: "model_live m c s" "regs_of s c = {}" "c \<notin> set L"
    and done_with: "\<And>t. \<exists>G. lib_ok t L G \<Longrightarrow> free_ids (s_ids t) = (int j + 1) # free_ids (s_ids s) \<Longrightarrow> running t = (running s)[j := None]
      \<Longrightarrow> length (free_ids (r_pool t)) = Suc (length (free_ids (r_pool s))) \<Longrightarrow> end_like s0 L 0 t"
  shows "\<exists>ret t. or_return (vaccel_sess_register (Some a) (Some c) s) (\<lambda>s. or_return (vaccel_sess_unregister (Some a) (Some c) s)
      (\<lambda>s. or_return (vaccel_tf_saved_model_destroy (Some m) s) (destroy_session a))) = Some (ret, t) \<and> end_like s0 L ret t"
proof -
  obtain ret s1 where 1: "vaccel_sess_register (Some a) (Some c) s = Some (ret, s1)" "ret \<noteq> 0 \<Longrightarrow> \<exists>G. lib_ok s1 (L @ [c]) G"
    "ret = 0 \<Longrightarrow> \<exists>G'. in_session (L @ [c]) G' a j q s1 \<and> same_session s s1 \<and> reg_in G' q Tf_Model c s1"
    using live_register [OF u model_live_as [OF l(1)] l(2)] by metis
  show ?thesis
  proof (rule or_return_step [OF 1(1)])
    show "\<exists>L G. lib_ok s1 L G" if "ret \<noteq> 0" using 1(2) [OF that] by blast
  next
    assume "ret = 0"
    then obtain G1 where s1: "in_session (L @ [c]) G1 a j q s1" "same_session s s1" "reg_in G1 q Tf_Model c s1" using 1(3) by blast
    have so: "sessions_only s s1" "s_ids s1 = s_ids s" "running s1 = running s" using s1(2) by (simp_all add: same_session_def)
    have l1: "model_live m c s1" by (rule model_live_session [OF l(1) so(1)])
    obtain s2 G2 where 2: "vaccel_sess_unregister (Some a) (Some c) s1 = Some (VACCEL_OK, s2)" "in_session (L @ [c]) G2 a j q s2" "same_session s1 s2" "regs_of s2 c = {}"
      using live_unregister [OF s1(1) model_live_as [OF l1] s1(3)] by blast
    have so2: "sessions_only s1 s2" "s_ids s2 = s_ids s1" "running s2 = running s1" using 2(3) by (simp_all add: same_session_def)
    obtain t where t: "or_return (vaccel_tf_saved_model_destroy (Some m) s2) (destroy_session a) = Some (0, t)" "\<exists>G. lib_ok t L G"
      "free_ids (s_ids t) = (int j + 1) # free_ids (s_ids s2)" "running t = (running s2)[j := None]" "length (free_ids (r_pool t)) = Suc (length (free_ids (r_pool s2)))"
      using session_end [OF 2(2) model_live_session [OF l1 so2(1)] 2(4) l(3)] by blast
    have "end_like s0 L 0 t" by (rule done_with [OF t(2)]) (use t(3-5) so so2 sessions_onlyD(8) [OF so(1)] sessions_onlyD(8) [OF so2(1)] in simp_all)
    moreover have "or_return (vaccel_sess_unregister (Some a) (Some c) s1) (\<lambda>s. or_return (vaccel_tf_saved_model_destroy (Some m) s) (destroy_session a)) = Some (0, t)"
      using 2(1) t(1) by (simp add: or_return_ok)
    ultimately show "\<exists>q u. or_return (vaccel_sess_unregister (Some a) (Some c) s1) (\<lambda>s. or_return (vaccel_tf_saved_model_destroy (Some m) s) (destroy_session a)) = Some (q, u)
      \<and> end_like s0 L q u" by blast
  qed
qed

text \<open>The program once the files of the model are set.\<close>

lemma use_model_ok:
  assumes ok: "lib_ok s L G" and un: "model_free m s" and fi: "fills m s 0 s1" and mem: "plenty s" and fr: "free_ids (r_pool s) \<noteq> []"
    and se: "s_mem s a \<noteq> None" "\<And>j. \<not> runs_at s j a" "free_ids (s_ids s) \<noteq> []"
  shows "\<exists>ret t. use_model m a s1 = Some (ret, t) \<and> end_like s L ret t"
proof -
  let ?c = "alloc_next (os s1)"
  obtain rid F where fr: "free_ids (r_pool s) = rid # F" using fr by (cases "free_ids (r_pool s)") auto
  have al: "alloc_ok (os s) ?c" using mem by (simp add: plenty_def)
  obtain t where 1: "vaccel_tf_saved_model_register (Some m) s1 = Some (VACCEL_OK, t)" "objects_only s t" "lib_ok t (L @ [?c]) G" "model_live m ?c t"
    "regs_of t ?c = {}" "?c \<notin> set L" "free_ids (r_pool t) = F" "vaccel_tf_saved_model_id (Some m) t = Some rid"
    by (rule model_registered [OF ok un fi fr al])
  note D = lib_okD [OF 1(3)]
  have S: "s_mem t = s_mem s" "s_ids t = s_ids s" "running t = running s" using 1(2) by (auto elim!: objects_onlyE)
  obtain x where x: "s_mem t a = Some x" using se(1) S(1) by auto
  have idle: "\<not> runs_at t j a" for j using se(2) S(3) by (simp add: runs_at_def)
  obtain i I where i: "free_ids (s_ids t) = i # I" using se(3) S(2) by (cases "free_ids (s_ids s)") auto
  let ?j = "nat (i - 1)" and ?G = "no_regs G (alloc_next (os t))"
  obtain ret u where u: "vaccel_sess_init (Some a) 0 t = Some (ret, u)" "sessions_only t u"
    and c: "if ret \<noteq> 0 then lib_ok u (L @ [?c]) G else in_session (L @ [?c]) ?G a ?j (alloc_next (os t)) u
      \<and> regs_of u = regs_of t \<and> free_ids (s_ids u) = I \<and> running u = (running t)[?j := Some a] \<and> running t ! ?j = None \<and> int ?j + 1 = i"
    using use_init [OF 1(3) x idle i, of 0] by auto
  have lu: "model_live m ?c u" by (rule model_live_session [OF 1(4) u(2)])
  obtain md where md: "tsm_mem u m = Some md" "tsm_resource md = Some ?c" using lu by (auto simp: model_live_def)
  have "create_session a t = Some (ret, u)" using u(1) by (simp add: create_session_def)
  then have "\<exists>q w. or_return (create_session a t) (\<lambda>s. do {
       model \<leftarrow> tsm_mem s m;
       or_return (vaccel_sess_register (Some a) (tsm_resource model) s) (\<lambda>s.
       or_return (vaccel_sess_unregister (Some a) (tsm_resource model) s) (\<lambda>s.
       or_return (vaccel_tf_saved_model_destroy (Some m) s) (destroy_session a))) }) = Some (q, w) \<and> end_like s L q w"
  proof (rule or_return_step)
    show "\<exists>L G. lib_ok u L G" if "ret \<noteq> 0" using c that by auto
  next
    assume "ret = 0"
    then have c: "in_session (L @ [?c]) ?G a ?j (alloc_next (os t)) u" "regs_of u = regs_of t" "free_ids (s_ids u) = I" "running u = (running t)[?j := Some a]"
      "running t ! ?j = None" "int ?j + 1 = i" using c by simp_all
    have run: "(running t)[?j := None] = running t" using c(5) by (metis list_update_id)
    have fin: "end_like s L 0 w" if "\<exists>G. lib_ok w L G" "free_ids (s_ids w) = (int ?j + 1) # free_ids (s_ids u)" "running w = (running u)[?j := None]"
      "length (free_ids (r_pool w)) = Suc (length (free_ids (r_pool u)))" for w
      unfolding end_like_def using that c(3,4,6) run S i 1(7) fr sessions_onlyD(8) [OF u(2)] by auto
    have r: "regs_of u ?c = {}" using c(2) 1(5) by simp
    have mi: "\<exists>q w. or_return (vaccel_sess_register (Some a) (Some ?c) u) (\<lambda>s. or_return (vaccel_sess_unregister (Some a) (Some ?c) s)
       (\<lambda>s. or_return (vaccel_tf_saved_model_destroy (Some m) s) (destroy_session a))) = Some (q, w) \<and> end_like s L q w"
      by (rule model_in_session [OF c(1) lu r 1(6) fin])
    show "\<exists>q w. do {
       model \<leftarrow> tsm_mem u m;
       or_return (vaccel_sess_register (Some a) (tsm_resource model) u) (\<lambda>s.
       or_return (vaccel_sess_unregister (Some a) (tsm_resource model) s) (\<lambda>s.
       or_return (vaccel_tf_saved_model_destroy (Some m) s) (destroy_session a))) } = Some (q, w) \<and> end_like s L q w"
      unfolding md(1) Option.bind.simps md(2) by (rule mi)
  qed
  then show ?thesis using 1(1,8) by (simp add: use_model_def or_return_ok)
qed

text \<open>
  C15. The example that makes a saved model from the path of an export directory, with memory enough, runs to its end whatever the system calls
  return: nothing that it reads is undefined and the library is consistent, and when it returns 0 the resources of the library, the pool of
  sessions, the table of running sessions and the number of free resource ids are as they were.
\<close>

theorem create_from_path_correct:
  assumes ok: "lib_ok s L G" and un: "model_free (alloc_next (os s)) s" and ex: "export_dir path (os s)" and mem: "plenty s" and fr: "free_ids (r_pool s) \<noteq> []"
    and se: "s_mem s a \<noteq> None" "\<And>j. \<not> runs_at s j a" "free_ids (s_ids s) \<noteq> []"
  shows "\<exists>ret t. create_from_path path a s = Some (ret, t) \<and> (\<exists>L G. lib_ok t L G)
    \<and> (ret = 0 \<longrightarrow> (\<exists>G. lib_ok t L G) \<and> free_ids (s_ids t) = free_ids (s_ids s) \<and> running t = running s
       \<and> length (free_ids (r_pool t)) = length (free_ids (r_pool s)))"
proof -
  let ?m = "alloc_next (os s)" and ?o = "(os s)\<lparr>alloc_next := Suc (alloc_next (os s))\<rparr>"
  let ?md = "\<lparr>tsm_resource = None, tsm_path = None, tsm_model = empty_file, tsm_checkpoint = empty_file, tsm_var_index = empty_file\<rparr>"
  let ?s = "s\<lparr>os := ?o, tsm_mem := (tsm_mem s)(?m \<mapsto> ?md)\<rparr>"
  have new: "vaccel_tf_saved_model_new s = (Some ?m, ?s)" using mem by (simp add: vaccel_tf_saved_model_new_def os_call_def malloc_def plenty_def)
  have "grows (os s) ?o" using obj_okD(2) [OF lib_okD(1) [OF ok]] by (auto simp: grows_def heap_ok_def)
  then have "fills ?m s 1 ?s" by (auto simp: fills_def)
  note ok1 = fills_lib(2) [OF ok un this]
  have un1: "model_free ?m ?s" using un by (simp add: model_free_def)
  have "export_dir path (os ?s)" using ex by (simp add: export_dir_def children_def)
  then obtain ret t where t: "vaccel_tf_saved_model_set_path (Some ?m) path ?s = Some (ret, t)" "fills ?m ?s ret t"
    using set_path_fills [of ?s ?m ?md path] obj_okD(2) [OF lib_okD(1) [OF ok1]] by auto
  have "\<exists>q u. or_return (vaccel_tf_saved_model_set_path (Some ?m) path ?s) (use_model ?m a) = Some (q, u) \<and> end_like ?s L q u"
  proof (rule or_return_step [OF t(1)])
    show "\<exists>L G. lib_ok t L G" using fills_lib(2) [OF ok1 un1 t(2)] by blast
    assume r: "ret = 0"
    show "\<exists>q u. use_model ?m a t = Some (q, u) \<and> end_like ?s L q u"
      by (rule use_model_ok [OF ok1 un1 t(2) [unfolded r]]) (use mem fr se in \<open>simp_all add: plenty_def runs_at_def\<close>)
  qed
  then show ?thesis by (simp add: create_from_path_def new end_like_def)
qed

theorem create_from_path_correct_witness:
  "\<exists>ret t. create_from_path ''/e'' 20 (lib_booted\<lparr>os := export_os\<rparr>) = Some (ret, t) \<and> (\<exists>L G. lib_ok t L G)"
proof -
  let ?s = "lib_booted\<lparr>os := export_os\<rparr>"
  have "outside lib_booted ?s" by (rule outside_os) (simp_all add: export_os_def client_os_def lib_booted(8))
  then have "lib_ok ?s [] (\<lambda>_ _. [])" by (rule lib_outside [OF lib_booted(1)])
  moreover have "model_free (alloc_next (os ?s)) ?s" by (simp add: model_free_def lib_booted(7))
  moreover have "export_dir ''/e'' (os ?s)" using export_os by simp
  moreover have "plenty ?s" by (simp add: plenty_def export_os_def client_os_def lib_booted(8) calm_os_def)
  moreover have "free_ids (r_pool ?s) \<noteq> []" "s_mem ?s 20 \<noteq> None" "free_ids (s_ids ?s) \<noteq> []" using lib_booted(2,4,5) by simp_all
  moreover have "\<not> runs_at ?s j 20" for j using lib_booted(3) [of j 20] by (simp add: runs_at_def)
  ultimately show ?thesis using create_from_path_correct [of ?s "[]" "\<lambda>_ _. []" "''/e''" 20] by blast
qed

end
