(* ===== verification/Inference.thy ===== *)
theory Inference
  imports Resource_Examples Noop_Plugin
begin

text \<open>
  The example program that runs a saved model (\<^verbatim>\<open>src/examples/tf_inference.c\<close>). Its variables are the model at \<open>m\<close>, which is not
  initialised, the session at \<open>a\<close>, the data at \<open>loc 0\<close>, the status at \<open>loc 1\<close>, the options at \<open>loc 2\<close>, the nodes at \<open>loc 3\<close> and
  \<open>loc 5\<close> with their names at \<open>loc 7\<close> and \<open>loc 8\<close>, and the pointers to the tensors at \<open>loc 4\<close> and \<open>loc 6\<close>. The result is the code with
  which the program exits.
\<close>

subsection \<open>The end of the program\<close>

text \<open>The labels from the last to the first; what the calls return is ignored.\<close>

definition destroy_resource :: "addr \<Rightarrow> int \<Rightarrow> 'z obj_state_scheme \<Rightarrow> (int \<times> 'z obj_state_scheme) option" where
  "destroy_resource m ret s = do { (_, s) \<leftarrow> vaccel_tf_saved_model_destroy (Some m) s; Some (ret, s) }"

definition close_session :: "addr \<Rightarrow> addr \<Rightarrow> int \<Rightarrow> 'z obj_state_scheme \<Rightarrow> (int \<times> 'z obj_state_scheme) option" where
  "close_session a m ret s = do { (_, s) \<leftarrow> vaccel_sess_free (Some a) s; destroy_resource m ret s }"

definition unregister_resource :: "addr \<Rightarrow> addr \<Rightarrow> int \<Rightarrow> 'z obj_state_scheme \<Rightarrow> (int \<times> 'z obj_state_scheme) option" where
  "unregister_resource a m ret s = do {
     model \<leftarrow> tsm_mem s m;
     (_, s) \<leftarrow> vaccel_sess_unregister (Some a) (tsm_resource model) s;
     close_session a m ret s }"

definition unload_session :: "_ \<Rightarrow> addr \<Rightarrow> addr \<Rightarrow> (nat \<Rightarrow> addr) \<Rightarrow> int \<Rightarrow> 'z ops_state_scheme \<Rightarrow> (int \<times> 'z ops_state_scheme) option" where
  "unload_session call a m loc ret s = do {
     (_, s) \<leftarrow> vaccel_tf_session_delete call (Some a) (Some m) (Some (loc 1)) s;
     unregister_resource a m ret s }"

subsection \<open>Running the model\<close>

definition VACCEL_TF_FLOAT :: nat where [simp]: "VACCEL_TF_FLOAT = 1"

text \<open>Printing the tensor reads its dimensions and at most ten elements.\<close>

definition print_result :: "addr \<Rightarrow> 'z noop_state_scheme \<Rightarrow> 'z noop_state_scheme option" where
  "print_result out s = do {
     t \<leftarrow> tensor_at (Some out) 0 s;
     s \<leftarrow> print_tensor (Some out) 0 s;
     loop (\<lambda>i s. do { _ \<leftarrow> load_elem (t_data t) i s; Some s }) [0..<min 10 (unat (t_size t) div 4)] s }"

text \<open>30 elements of 1.00; without memory for the tensor the program exits at once.\<close>

definition ones :: "u8 list" where
  "ones = concat (replicate 30 (le_bytes 4 (0x3F800000 :: u32)))"

definition run_model :: "_ \<Rightarrow> addr \<Rightarrow> addr \<Rightarrow> (nat \<Rightarrow> addr) \<Rightarrow> 'z noop_state_scheme \<Rightarrow> (int \<times> 'z noop_state_scheme) option" where
  "run_model call a m loc s =
     (let s = s\<lparr>buf_mem := (buf_mem s)(loc 2 \<mapsto> \<lparr>b_data = None, b_size = 0\<rparr>),
            node_arr := (node_arr s)(loc 3 \<mapsto> [\<lparr>n_name = Some (loc 7), n_id = 0\<rparr>])\<rparr>;
          s = set_local (loc 0) ones s
      in do {
        (inp, s) \<leftarrow> vaccel_tf_tensor_new 2 (Some [1, 30]) VACCEL_TF_FLOAT s;
        case inp of None \<Rightarrow> Some (1, s)
        | Some t \<Rightarrow> do {
            tn \<leftarrow> ten_mem s t;
            let s = s\<lparr>ten_mem := (ten_mem s)(t \<mapsto> tn\<lparr>t_data := Some (loc 0), t_size := 120\<rparr>),
              node_arr := (node_arr s)(loc 5 \<mapsto> [\<lparr>n_name = Some (loc 8), n_id = 0\<rparr>]), ten_arr := (ten_arr s)(loc 4 \<mapsto> [Some t])\<rparr>;
            (ret, s) \<leftarrow> and_print (vaccel_tf_session_run call (Some a) (Some m) (Some (loc 2)) (Some (loc 3)) (Some (loc 4)) 1
              (Some (loc 5)) (Some (loc 6)) 1 (Some (loc 1)) s) (print_result (loc 6));
            unload_session call a m loc ret s } })"

subsection \<open>The program\<close>

definition use_session :: "_ \<Rightarrow> addr \<Rightarrow> addr \<Rightarrow> (nat \<Rightarrow> addr) \<Rightarrow> 'z noop_state_scheme \<Rightarrow> (int \<times> 'z noop_state_scheme) option" where
  "use_session call a m loc s = do {
     model \<leftarrow> tsm_mem s m;
     (ret, s) \<leftarrow> vaccel_sess_register (Some a) (tsm_resource model) s;
     if ret \<noteq> 0 then close_session a m ret s
     else do {
       (ret, s) \<leftarrow> vaccel_tf_session_load call (Some a) (Some m) (Some (loc 1)) s;
       if ret \<noteq> 0 then unregister_resource a m ret s
       else run_model call a m loc s } }"

definition tf_inference_main :: "_ \<Rightarrow> string list \<Rightarrow> addr \<Rightarrow> addr \<Rightarrow> (nat \<Rightarrow> addr) \<Rightarrow> 'z noop_state_scheme \<Rightarrow> (int \<times> 'z noop_state_scheme) option" where
  "tf_inference_main call argv m a loc s = (case argv of
       [_, path] \<Rightarrow>
         or_exit (vaccel_tf_saved_model_set_path (Some m) path s) (\<lambda>s.
         or_exit (vaccel_tf_saved_model_register (Some m) s) (\<lambda>s. do {
           _ \<leftarrow> vaccel_tf_saved_model_id (Some m) s;
           (ret, s) \<leftarrow> vaccel_sess_init (Some a) 0 s;
           if ret \<noteq> 0 then destroy_resource m ret s
           else use_session call a m loc s }))
     | _ \<Rightarrow> Some (1, s))"

end
