(* ===== verification/Inference_Run.thy ===== *)
theory Inference_Run
  imports Inference Model_Clients Noop_Run
begin

text \<open>
  The program of \<open>Inference\<close> with the noop plugin, from the export directory to its exit: everything is taken back, and what it prints are the
  values that it has put in.
\<close>

subsection \<open>What the program needs of the rest\<close>

text \<open>The noop plugin serves the operations, there is memory enough, and profiling is off.\<close>

definition tf_env :: "(nat \<Rightarrow> addr) \<Rightarrow> 'z noop_state_scheme \<Rightarrow> bool" where
  "tf_env loc s \<longleftrightarrow> (\<exists>R. plug_ok s R) \<and> (\<forall>ty\<in>{VACCEL_TF_SESSION_LOAD, VACCEL_TF_SESSION_RUN, VACCEL_TF_SESSION_DELETE}. \<forall>h. get_plugin_op ty h s = Some (noop_function ty))
     \<and> plenty s \<and> \<not> vaccel_prof_enabled s \<and> status_mem s (loc 1) \<noteq> None \<and> (\<exists>v. ten_arr s (loc 6) = Some [v]) \<and> loc 4 \<noteq> loc 6 \<and> loc 3 \<noteq> loc 5 \<and> loc 0 < alloc_next (os s)"

lemma world_same: "world (os t) = world (os s) \<Longrightarrow> plenty t = plenty s \<and> vaccel_prof_enabled t = vaccel_prof_enabled s"
  by (simp add: world_def plenty_def vaccel_prof_enabled_def)

lemma tf_env_keep:
  assumes e: "tf_env loc s" and p: "plugins t = plugins s" "ops t = ops s" "p_links t = p_links s" and w: "world (os t) = world (os s)"
    and al: "alloc_next (os s) \<le> alloc_next (os t)" and l: "status_mem t (loc 1) \<noteq> None" "\<exists>v. ten_arr t (loc 6) = Some [v]"
  shows "tf_env loc t"
proof -
  from e obtain R where R: "plug_ok s R" by (auto simp: tf_env_def)
  have "get_plugin_op ty h t = get_plugin_op ty h s" if "ty < VACCEL_FUNCTIONS_NR" for ty h by (rule get_plugin_op_cong [OF R that p])
  moreover have "plug_ok t R" using R p by (simp add: plug_ok_def)
  ultimately show ?thesis using e world_same [OF w] al l unfolding tf_env_def by auto
qed

lemma tf_env_objects:
  assumes "tf_env loc s" "objects_only s t" "world (os t) = world (os s)" "alloc_next (os s) \<le> alloc_next (os t)"
  shows "tf_env loc t"
proof -
  have "status_mem t = status_mem s" "ten_arr t = ten_arr s" using assms(2) by (auto elim: objects_onlyE)
  then show ?thesis using tf_env_keep [OF assms(1) objects_onlyD(1-3) [OF assms(2)] assms(3,4)] assms(1) by (simp add: tf_env_def)
qed

lemma tf_env_sessions:
  assumes "tf_env loc s" "sessions_only s t" "world (os t) = world (os s)"
  shows "tf_env loc t"
proof -
  have "alloc_next (os s) \<le> alloc_next (os t)" using sessions_onlyD(10) [OF assms(2)] by (simp add: store_kept_def)
  moreover have "status_mem t = status_mem s" "ten_arr t = ten_arr s" using assms(2) by (auto elim: sessions_onlyE)
  ultimately show ?thesis using tf_env_keep [OF assms(1) sessions_onlyD(1-3) [OF assms(2)] assms(3)] assms(1) by (simp add: tf_env_def)
qed

subsection \<open>The operations\<close>

lemma status_step:
  assumes "tf_env loc s"
  shows "\<exists>t. set_status (Some (loc 1)) s = Some (VACCEL_OK, t) \<and> beside s t \<and> tf_env loc t \<and> ten_arr t = ten_arr s \<and> (\<forall>b. tensor_value b t = tensor_value b s)"
proof -
  from assms obtain st where st: "status_mem s (loc 1) = Some st" "alloc_ok (os s) (alloc_next (os s))" by (auto simp: tf_env_def plenty_def)
  let ?n = "alloc_next (os s)"
  let ?t = "s\<lparr>os := (os s)\<lparr>alloc_next := Suc ?n, strs := (strs (os s))(?n \<mapsto> ''Operation handled by noop plugin'')\<rparr>,
    status_mem := (status_mem s)(loc 1 \<mapsto> st\<lparr>st_message := Some ?n\<rparr>)\<rparr>"
  have "set_status (Some (loc 1)) s = Some (VACCEL_OK, ?t)" using st by (simp add: set_status_def os_call_strdup)
  moreover have "beside s ?t" by (auto simp: beside_def obj_state.defs grows_def heap_ok_def)
  moreover have "tf_env loc ?t" by (rule tf_env_keep [OF assms]) (use assms in \<open>simp_all add: world_def tf_env_def\<close>)
  ultimately show ?thesis by (intro exI [of _ ?t]) (simp add: tensor_value_def)
qed

lemma tf_functions: "noop_function VACCEL_TF_SESSION_LOAD = Some 9" "noop_function VACCEL_TF_SESSION_RUN = Some 10" "noop_function VACCEL_TF_SESSION_DELETE = Some 11"
  by code_simp+

lemma prof_off: "\<not> vaccel_prof_enabled s \<Longrightarrow> prof_stop sel s = Some s" "\<not> vaccel_prof_enabled s \<Longrightarrow> prof_start sel upd s = Some (upd (sel s) s)"
  by (simp_all add: prof_stop_def prof_start_def vaccel_prof_region_stop_def vaccel_prof_region_start_def)

lemma tf_ops:
  assumes "tf_env loc s" "s_mem s a = Some se"
  shows "find_op VACCEL_TF_SESSION_LOAD a s = Some (Some 9)" "find_op VACCEL_TF_SESSION_RUN a s = Some (Some 10)" "find_op VACCEL_TF_SESSION_DELETE a s = Some (Some 11)"
  using assms tf_functions by (simp_all add: find_op_def tf_env_def)

lemma load_ok:
  assumes e: "tf_env loc s" and u: "in_session L G a j q s" and l: "model_live m c s" "reg_in G q Tf_Model c s"
  shows "\<exists>t. vaccel_tf_session_load (noop_call fadd) (Some a) (Some m) (Some (loc 1)) s = Some (VACCEL_OK, t) \<and> beside s t \<and> tf_env loc t"
proof -
  obtain se where se: "s_mem s a = Some se" by (rule in_sessionD [OF u])
  obtain md where md: "tsm_mem s m = Some md" "tsm_resource md = Some c" using l(1) by (auto simp: model_live_def)
  have reg: "vaccel_sess_has_resource (Some a) (Some c) s = Some True" by (rule live_registered [OF u model_live_as [OF l(1)] l(2)])
  obtain t where t: "set_status (Some (loc 1)) s = Some (VACCEL_OK, t)" "beside s t" "tf_env loc t" using status_step [OF e] by blast
  have off: "\<not> vaccel_prof_enabled s" "\<not> vaccel_prof_enabled t" using e t(3) by (simp_all add: tf_env_def)
  have "vaccel_tf_session_load (noop_call fadd) (Some a) (Some m) (Some (loc 1)) s = Some (VACCEL_OK, t)"
    using off tf_ops(1) [OF e se] md reg t(1) by (simp add: vaccel_tf_session_load_def prof_off noop_call_def noop_tf_session_load_def)
  then show ?thesis using t by blast
qed

lemma delete_ok:
  assumes e: "tf_env loc s" and se: "s_mem s a = Some se"
  shows "\<exists>t. vaccel_tf_session_delete (noop_call fadd) (Some a) (Some m) (Some (loc 1)) s = Some (VACCEL_OK, t) \<and> beside s t \<and> ten_arr t = ten_arr s
    \<and> (\<forall>b. tensor_value b t = tensor_value b s)"
proof -
  obtain t where t: "set_status (Some (loc 1)) s = Some (VACCEL_OK, t)" "beside s t" "tf_env loc t" "ten_arr t = ten_arr s" "\<forall>b. tensor_value b t = tensor_value b s"
    using status_step [OF e] by blast
  have "vaccel_tf_session_delete (noop_call fadd) (Some a) (Some m) (Some (loc 1)) s = Some (VACCEL_OK, t)"
    using tf_ops(3) [OF e se] t(1,3) by (simp add: vaccel_tf_session_delete_def tf_env_def prof_off noop_call_def noop_tf_session_delete_def)
  then show ?thesis using t by blast
qed

text \<open>A run with one input and one output.\<close>

lemma copy_tensor_beside:
  assumes "copy_tensor inp out i s = Some t"
  shows "beside s t" "world (os t) = world (os s)" "alloc_next (os s) \<le> alloc_next (os t)" "plugins t = plugins s" "ops t = ops s" "p_links t = p_links s"
proof -
  have "t = s\<lparr>os := (os s)\<lparr>alloc_next := alloc_next (os t)\<rparr>, ten_arr := ten_arr t, dims_mem := dims_mem t, mem := mem t, ten_mem := ten_mem t\<rparr>
      \<and> alloc_next (os s) \<le> alloc_next (os t)"
    using assms by (auto simp: copy_tensor_def os_call_def malloc_def malloc_bytes_def memcpy_def store_at_def Let_def elim!: bind_SomeE split: if_split_asm)
  then obtain k A B C D where t: "t = s\<lparr>os := (os s)\<lparr>alloc_next := k\<rparr>, ten_arr := A, dims_mem := B, mem := C, ten_mem := D\<rparr>" "alloc_next (os s) \<le> k" by blast
  show "beside s t" using t(2) by (auto simp: t(1) beside_def obj_state.defs grows_def heap_ok_def)
  show "world (os t) = world (os s)" "alloc_next (os s) \<le> alloc_next (os t)" "plugins t = plugins s" "ops t = ops s" "p_links t = p_links s"
    using t(2) by (simp_all add: t(1) world_def)
qed

lemma run_one:
  assumes e: "tf_env loc s" and inp: "ten_arr s (loc 4) = Some [Some b]" "tensor_value b s = Some v" "tensor_below (alloc_next (os s)) b s"
    and opt: "buf_mem s (loc 2) \<noteq> None" and nodes: "node_arr s (loc 3) = Some [n1]" "node_arr s (loc 5) = Some [n2]"
  shows "\<exists>t d. noop_tf_session_run (Some a) (Some m) (Some (loc 2)) (Some (loc 3)) (Some (loc 4)) 1 (Some (loc 5)) (Some (loc 6)) 1 (Some (loc 1)) s = Some (VACCEL_OK, t)
    \<and> beside s t \<and> tf_env loc t \<and> ten_arr t (loc 6) = Some [Some d] \<and> tensor_value d t = Some v"
proof -
  note E = e [unfolded tf_env_def]
  obtain x where x: "ten_arr s (loc 6) = Some [x]" using E by blast
  have r: "run_inputs (loc 4) [b] (\<lambda>_. v) s" using inp by (simp add: run_inputs_def)
  have c: "copied (alloc_next (os s)) (loc 4) (loc 6) [b] (\<lambda>_. v) [x] 0 s" using x r E by (simp add: copied_def)
  have c1: "count 1 = 1" by (simp add: count_def)
  have n: "has_nodes (Some (loc 3)) 1 s" "has_nodes (Some (loc 5)) 1 s" using nodes by (simp_all add: has_nodes_def node_at_def)
  obtain u where u: "copy_tensor (Some (loc 4)) (Some (loc 6)) 0 s = Some u" "copied (alloc_next (os s)) (loc 4) (loc 6) [b] (\<lambda>_. v) [x] (Suc 0) u" "status_mem u = status_mem s"
    by (rule copied_step [OF c]) (use E in \<open>simp_all add: that\<close>)
  note B = copy_tensor_beside [OF u(1)]
  obtain ds where ds: "length ds = Suc 0" "ten_arr u (loc 6) = Some (map Some ds @ drop (Suc 0) [x])" "tensor_value (ds ! 0) u = Some v"
    using u(2) unfolding copied_def by blast
  then obtain d where d: "ds = [d]" by (cases ds) auto
  have eu: "tf_env loc u" by (rule tf_env_keep [OF e B(4-6,2,3)]) (use E u(3) ds d in simp_all)
  obtain t where t: "set_status (Some (loc 1)) u = Some (VACCEL_OK, t)" "beside u t" "tf_env loc t" "ten_arr t = ten_arr u" "\<forall>b. tensor_value b t = tensor_value b u"
    using status_step [OF eu] by blast
  have "noop_tf_session_run (Some a) (Some m) (Some (loc 2)) (Some (loc 3)) (Some (loc 4)) 1 (Some (loc 5)) (Some (loc 6)) 1 (Some (loc 1)) s = Some (VACCEL_OK, t)"
    using print_inputs [OF r _ n(1)] u(1) t(1) opt nodes(2) by (auto simp: noop_tf_session_run_def c1 node_at_def)
  then show ?thesis using beside_trans [OF B(1) t(2)] t(3-5) ds d by (intro exI [of _ t] exI [of _ d]) simp
qed

text \<open>Printing a tensor that has a value.\<close>

lemma print_result_ok:
  assumes "ten_arr s out = Some [Some d]" "tensor_value d s = Some v"
  shows "print_result out s = Some s"
proof -
  obtain t dd ds q bs where t: "ten_mem s d = Some t" "t_dims t = Some dd" "dims_mem s dd = Some ds" "t_data t = Some q" "mem s q = Some bs"
    "t_nr_dims t \<le> int (length ds)" "unat (t_size t) \<le> length bs"
    by (rule tensor_valueE [OF assms(2)]) (rule that)
  have at: "tensor_at (Some out) 0 s = Some t" using assms(1) t(1) by (simp add: tensor_at_def nth_ptr_def)
  have quarter: "i < n div 4 \<Longrightarrow> 4 * i + 4 \<le> n" for i n :: nat by presburger
  have le: "load_elem (t_data t) i s \<noteq> None" if "i < min 10 (unat (t_size t) div 4)" for i
    using that t(4,5,7) quarter [of i "unat (t_size t)"] by (simp add: load_elem_def load_at_def)
  then have "loop (\<lambda>i s. do { _ \<leftarrow> load_elem (t_data t) i s; Some s }) [0..<n] s = Some s" if "n \<le> min 10 (unat (t_size t) div 4)" for n
    using that
  proof (induction n)
    case (Suc n)
    then have "n < min 10 (unat (t_size t) div 4)" by simp
    then obtain x where "load_elem (t_data t) n s = Some x" using le by blast
    then show ?case using Suc by (auto simp: loop_append)
  qed simp
  then show ?thesis using at t(2,3,6) by (simp add: print_result_def print_tensor_def)
qed

lemma length_ones: "length ones = 120"
  by (simp add: ones_def length_concat sum_list_replicate le_bytes_def)

lemma run_model_ok:
  assumes e: "tf_env loc s" and se: "s_mem s a = Some se"
  shows "\<exists>t d. run_model (noop_call fadd) a m loc s = unload_session (noop_call fadd) a m loc VACCEL_OK t \<and> beside s t \<and> tf_env loc t
    \<and> ten_arr t (loc 6) = Some [Some d] \<and> tensor_value d t = Some (VACCEL_TF_FLOAT, [1, 30], ones)"
proof -
  note E = e [unfolded tf_env_def]
  let ?n = "alloc_next (os s)"
  let ?ten = "\<lparr>t_data = Some (loc 0), t_size = 120, t_owned = False, t_nr_dims = 2, t_dims = Some (Suc ?n), t_type = VACCEL_TF_FLOAT\<rparr>"
  define u where "u = s\<lparr>buf_mem := (buf_mem s)(loc 2 \<mapsto> \<lparr>b_data = None, b_size = 0\<rparr>), mem := (mem s)(loc 0 \<mapsto> ones),
    os := (os s)\<lparr>alloc_next := Suc (Suc ?n)\<rparr>, dims_mem := (dims_mem s)(Suc ?n \<mapsto> [1, 30]), ten_mem := (ten_mem s)(?n \<mapsto> ?ten),
    node_arr := (node_arr s)(loc 3 \<mapsto> [\<lparr>n_name = Some (loc 7), n_id = 0\<rparr>], loc 5 \<mapsto> [\<lparr>n_name = Some (loc 8), n_id = 0\<rparr>]),
    ten_arr := (ten_arr s)(loc 4 \<mapsto> [Some ?n])\<rparr>"
  have al: "alloc_ok (os s) x" for x using E by (simp add: plenty_def)
  have bs: "beside s u" by (auto simp: u_def beside_def obj_state.defs grows_def heap_ok_def)
  have eu: "tf_env loc u" by (rule tf_env_keep [OF e]) (use E in \<open>simp_all add: u_def world_def\<close>)
  have v: "tensor_value ?n u = Some (VACCEL_TF_FLOAT, [1, 30], ones)" by (simp add: u_def tensor_value_def length_ones)
  have b: "tensor_below (alloc_next (os u)) ?n u" using E by (auto simp: u_def tensor_below_def)
  have n: "ten_arr u (loc 4) = Some [Some ?n]" "buf_mem u (loc 2) \<noteq> None" "node_arr u (loc 3) = Some [\<lparr>n_name = Some (loc 7), n_id = 0\<rparr>]"
    "node_arr u (loc 5) = Some [\<lparr>n_name = Some (loc 8), n_id = 0\<rparr>]" using E by (auto simp: u_def)
  obtain t d where t: "noop_tf_session_run (Some a) (Some m) (Some (loc 2)) (Some (loc 3)) (Some (loc 4)) 1 (Some (loc 5)) (Some (loc 6)) 1 (Some (loc 1)) u = Some (VACCEL_OK, t)"
    "beside u t" "tf_env loc t" "ten_arr t (loc 6) = Some [Some d]" "tensor_value d t = Some (VACCEL_TF_FLOAT, [1, 30], ones)"
    using run_one [OF eu n(1) v b n(2-4)] by blast
  have seu: "s_mem u a = Some se" using se by (simp add: u_def)
  have run: "vaccel_tf_session_run (noop_call fadd) (Some a) (Some m) (Some (loc 2)) (Some (loc 3)) (Some (loc 4)) 1 (Some (loc 5)) (Some (loc 6)) 1 (Some (loc 1)) u = Some (VACCEL_OK, t)"
    using tf_ops(2) [OF eu seu] t(1,3) eu by (simp add: vaccel_tf_session_run_def tf_env_def prof_off noop_call_def)
  have "run_model (noop_call fadd) a m loc s = Option.bind (and_print (vaccel_tf_session_run (noop_call fadd) (Some a) (Some m) (Some (loc 2)) (Some (loc 3)) (Some (loc 4)) 1
      (Some (loc 5)) (Some (loc 6)) 1 (Some (loc 1)) u) (print_result (loc 6))) (\<lambda>(ret, s). unload_session (noop_call fadd) a m loc ret s)"
    using al by (simp add: run_model_def set_local_def vaccel_tf_tensor_new_def tensor_new_def os_call_def malloc_def calloc_def Let_def u_def)
  also have "\<dots> = unload_session (noop_call fadd) a m loc VACCEL_OK t" unfolding run and_print_def using print_result_ok [OF t(4,5)] by simp
  finally show ?thesis using beside_trans [OF bs t(2)] t(3-5) by blast
qed

subsection \<open>The end of the program\<close>

definition same_tensors :: "'z noop_state_scheme \<Rightarrow> 'z noop_state_scheme \<Rightarrow> bool" where
  "same_tensors s t \<longleftrightarrow> ten_arr t = ten_arr s \<and> (\<forall>b. tensor_value b t = tensor_value b s)"

lemma same_tensors_refl: "same_tensors s s"
  by (simp add: same_tensors_def)

lemma same_tensors_trans: "same_tensors s t \<Longrightarrow> same_tensors t u \<Longrightarrow> same_tensors s u"
  by (simp add: same_tensors_def)

lemma same_tensors_only: "sessions_only s t \<Longrightarrow> same_tensors s t" "objects_only s t \<Longrightarrow> same_tensors s t"
  by (auto elim!: sessions_onlyE objects_onlyE simp: same_tensors_def tensor_value_def)

text \<open>The model with the resource \<open>c\<close>, the newest in the list, is used in a session and registered with nothing.\<close>

definition model_open :: "addr list \<Rightarrow> (addr \<Rightarrow> nat \<Rightarrow> addr list) \<Rightarrow> addr \<Rightarrow> addr \<Rightarrow> nat \<Rightarrow> addr \<Rightarrow> addr \<Rightarrow> 'z obj_state_scheme \<Rightarrow> bool" where
  "model_open L G m a j q c s \<longleftrightarrow> in_session (L @ [c]) G a j q s \<and> model_live m c s \<and> c \<notin> set L"

text \<open>The session and the model are taken back.\<close>

definition taken_back :: "addr list \<Rightarrow> nat \<Rightarrow> 'z noop_state_scheme \<Rightarrow> 'z noop_state_scheme \<Rightarrow> bool" where
  "taken_back L j s t \<longleftrightarrow> (\<exists>G. lib_ok t L G) \<and> free_ids (s_ids t) = (int j + 1) # free_ids (s_ids s) \<and> running t = (running s)[j := None]
     \<and> length (free_ids (r_pool t)) = Suc (length (free_ids (r_pool s)))"

lemma taken_back_from:
  "taken_back L j s t \<Longrightarrow> s_ids s = s_ids r \<Longrightarrow> running s = running r \<Longrightarrow> r_pool s = r_pool r \<Longrightarrow> taken_back L j r t"
  by (simp add: taken_back_def)

lemma close_ok:
  assumes u: "model_open L G m a j q c s" and r: "regs_of s c = {}"
  shows "\<exists>t. close_session a m ret s = Some (ret, t) \<and> taken_back L j s t \<and> same_tensors s t"
proof -
  from u have u: "in_session (L @ [c]) G a j q s" "model_live m c s" "c \<notin> set L" by (simp_all add: model_open_def)
  obtain s1 G1 where 1: "vaccel_sess_free (Some a) s = Some (VACCEL_OK, s1)" "sessions_only s s1" "lib_ok s1 (L @ [c]) G1"
    "free_ids (s_ids s1) = (int j + 1) # free_ids (s_ids s)" "running s1 = (running s)[j := None]" "\<forall>b. regs_of s1 b \<subseteq> regs_of s b"
    using use_free [OF u(1)] by blast
  have r1: "regs_of s1 c = {}" using 1(6) r by blast
  obtain t where t: "vaccel_tf_saved_model_destroy (Some m) s1 = Some (VACCEL_OK, t)" "objects_only s1 t" "lib_ok t (remove1 c (L @ [c])) G1"
    "free_ids (r_pool t) = rid_of s1 c # free_ids (r_pool s1)"
    by (rule model_destroyed [OF 1(3) model_live_session [OF u(2) 1(2)] r1])
  have "s_ids t = s_ids s1" "running t = running s1" using t(2) by (auto elim!: objects_onlyE)
  moreover have "same_tensors s t" using same_tensors_trans same_tensors_only 1(2) t(2) by blast
  ultimately have "taken_back L j s t" using 1(4,5) t(3,4) u(3) sessions_onlyD(8) [OF 1(2)] by (auto simp: taken_back_def remove1_append)
  with \<open>same_tensors s t\<close> show ?thesis using 1(1) t(1) by (simp add: close_session_def destroy_resource_def)
qed

lemma unregister_ok:
  assumes u: "model_open L G m a j q c s" and r: "reg_in G q Tf_Model c s"
  shows "\<exists>t. unregister_resource a m ret s = Some (ret, t) \<and> taken_back L j s t \<and> same_tensors s t"
proof -
  from u have u: "in_session (L @ [c]) G a j q s" "model_live m c s" "c \<notin> set L" by (simp_all add: model_open_def)
  obtain s1 G1 where 1: "vaccel_sess_unregister (Some a) (Some c) s = Some (VACCEL_OK, s1)" "in_session (L @ [c]) G1 a j q s1" "same_session s s1" "regs_of s1 c = {}"
    using live_unregister [OF u(1) model_live_as [OF u(2)] r] by blast
  have so: "sessions_only s s1" "s_ids s1 = s_ids s" "running s1 = running s" using 1(3) by (simp_all add: same_session_def)
  have "model_open L G1 m a j q c s1" using 1(2) u(3) model_live_session [OF u(2) so(1)] by (simp add: model_open_def)
  then obtain t where t: "close_session a m ret s1 = Some (ret, t)" "taken_back L j s1 t" "same_tensors s1 t" using close_ok 1(4) by blast
  have "taken_back L j s t" "same_tensors s t"
    using taken_back_from [OF t(2) so(2,3) sessions_onlyD(8) [OF so(1)]] same_tensors_trans [OF same_tensors_only(1) [OF so(1)] t(3)] by simp_all
  moreover obtain x where "tsm_mem s m = Some x" "tsm_resource x = Some c" using u(2) by (auto simp: model_live_def)
  ultimately show ?thesis using 1(1) t(1) by (simp add: unregister_resource_def)
qed

lemma model_open_beside:
  assumes u: "model_open L G m a j q c s" "reg_in G q Tf_Model c s" and b: "beside s t"
  shows "model_open L G m a j q c t" "reg_in G q Tf_Model c t" "s_ids t = s_ids s" "running t = running s" "r_pool t = r_pool s" "s_mem t = s_mem s"
proof -
  note B = besideD [OF b]
  from u have o: "in_session (L @ [c]) G a j q s" "model_live m c s" "c \<notin> set L" by (simp_all add: model_open_def)
  have "in_session (L @ [c]) G a j q t" using o(1) lib_beside [OF _ b] B by (simp add: in_session_def runs_at_def sres_of_def)
  moreover have "model_live m c t" by (rule model_live_cong [OF o(2) B(5)]) (use B(16) in \<open>simp add: same_objects_def\<close>)
  ultimately show "model_open L G m a j q c t" using o(3) by (simp add: model_open_def)
  show "reg_in G q Tf_Model c t" using u(2) B by (simp add: reg_in_def regs_of_def)
qed (use besideD [OF b] in simp_all)

lemma unload_ok:
  assumes e: "tf_env loc s" and u: "model_open L G m a j q c s" "reg_in G q Tf_Model c s"
  shows "\<exists>t. unload_session (noop_call fadd) a m loc ret s = Some (ret, t) \<and> taken_back L j s t \<and> same_tensors s t"
proof -
  have "in_session (L @ [c]) G a j q s" using u(1) by (simp add: model_open_def)
  then obtain se where se: "s_mem s a = Some se" by (rule in_sessionD)
  obtain s1 where 1: "vaccel_tf_session_delete (noop_call fadd) (Some a) (Some m) (Some (loc 1)) s = Some (VACCEL_OK, s1)" "beside s s1" "same_tensors s s1"
    using delete_ok [OF e se, of fadd m] unfolding same_tensors_def by blast
  note B = model_open_beside [OF u 1(2)]
  obtain t where t: "unregister_resource a m ret s1 = Some (ret, t)" "taken_back L j s1 t" "same_tensors s1 t" using unregister_ok [OF B(1,2)] by blast
  then show ?thesis using 1(1) taken_back_from [OF t(2) B(3-5)] same_tensors_trans [OF 1(3) t(3)] by (simp add: unload_session_def)
qed

subsection \<open>The program\<close>

lemma use_session_ok:
  assumes e: "tf_env loc s" and u: "model_open L G m a j q c s" and r: "regs_of s c = {}"
  shows "\<exists>t d. use_session (noop_call fadd) a m loc s = Some (0, t) \<and> taken_back L j s t \<and> ten_arr t (loc 6) = Some [Some d]
    \<and> tensor_value d t = Some (VACCEL_TF_FLOAT, [1, 30], ones)"
proof -
  from u have o: "in_session (L @ [c]) G a j q s" "model_live m c s" "c \<notin> set L" by (simp_all add: model_open_def)
  note D = lib_okD [OF conjunct1 [OF o(1) [unfolded in_session_def]]]
  have "alloc_ok (os s) (alloc_next (os s))" using e by (simp add: tf_env_def plenty_def)
  then obtain s1 G1 where 1: "vaccel_sess_register (Some a) (Some c) s = Some (0, s1)" "in_session (L @ [c]) G1 a j q s1" "same_session s s1" "reg_in G1 q Tf_Model c s1"
    using live_register [OF o(1) model_live_as [OF o(2)] r] by auto
  have so: "sessions_only s s1" "s_ids s1 = s_ids s" "running s1 = running s" using 1(3) by (simp_all add: same_session_def)
  have e1: "tf_env loc s1" by (rule tf_env_sessions [OF e so(1) world_register [OF 1(1) D(7)]])
  have l1: "model_live m c s1" by (rule model_live_session [OF o(2) so(1)])
  have m1: "model_open L G1 m a j q c s1" using 1(2) l1 o(3) by (simp add: model_open_def)
  obtain s2 where 2: "vaccel_tf_session_load (noop_call fadd) (Some a) (Some m) (Some (loc 1)) s1 = Some (VACCEL_OK, s2)" "beside s1 s2" "tf_env loc s2"
    using load_ok [OF e1 1(2) l1 1(4)] by blast
  note B2 = model_open_beside [OF m1 1(4) 2(2)]
  obtain se where se: "s_mem s1 a = Some se" by (rule in_sessionD [OF 1(2)])
  then have se2: "s_mem s2 a = Some se" using B2(6) by simp
  obtain s3 d where 3: "run_model (noop_call fadd) a m loc s2 = unload_session (noop_call fadd) a m loc VACCEL_OK s3" "beside s2 s3" "tf_env loc s3"
    "ten_arr s3 (loc 6) = Some [Some d]" "tensor_value d s3 = Some (VACCEL_TF_FLOAT, [1, 30], ones)" using run_model_ok [OF 2(3) se2] by blast
  note B3 = model_open_beside [OF B2(1,2) 3(2)]
  obtain t where t: "unload_session (noop_call fadd) a m loc VACCEL_OK s3 = Some (VACCEL_OK, t)" "taken_back L j s3 t" "same_tensors s3 t"
    using unload_ok [OF 3(3) B3(1,2)] by blast
  have "s_ids s3 = s_ids s" "running s3 = running s" "r_pool s3 = r_pool s" using B2(3-5) B3(3-5) so sessions_onlyD(8) [OF so(1)] by simp_all
  then have "taken_back L j s t" by (rule taken_back_from [OF t(2)])
  moreover obtain x where "tsm_mem s m = Some x" "tsm_resource x = Some c" using o(2) by (auto simp: model_live_def)
  then have "use_session (noop_call fadd) a m loc s = Some (0, t)" using 1(1) 2(1) 3(1) t(1) by (simp add: use_session_def)
  moreover have "ten_arr t (loc 6) = Some [Some d]" "tensor_value d t = Some (VACCEL_TF_FLOAT, [1, 30], ones)" using t(3) 3(4,5) by (simp_all add: same_tensors_def)
  ultimately show ?thesis by blast
qed

text \<open>The registered model, until the end of the program.\<close>

lemma with_model:
  assumes ok: "lib_ok s (L @ [c]) G" and l: "model_live m c s" "c \<notin> set L" "regs_of s c = {}" and e: "tf_env loc s"
    and se: "s_mem s a = Some se" "\<And>j. \<not> runs_at s j a" "free_ids (s_ids s) \<noteq> []"
  obtains (no_session) ret t where "vaccel_sess_init (Some a) 0 s = Some (ret, t)" "ret \<noteq> 0"
      "\<exists>u G. destroy_resource m ret t = Some (ret, u) \<and> lib_ok u L G"
    | (used) t u d where "vaccel_sess_init (Some a) 0 s = Some (0, t)" "use_session (noop_call fadd) a m loc t = Some (0, u)" "\<exists>G. lib_ok u L G"
      "free_ids (s_ids u) = free_ids (s_ids s)" "running u = running s" "length (free_ids (r_pool u)) = Suc (length (free_ids (r_pool s)))"
      "ten_arr u (loc 6) = Some [Some d]" "tensor_value d u = Some (VACCEL_TF_FLOAT, [1, 30], ones)"
proof -
  note D = lib_okD [OF ok]
  obtain i F where fr: "free_ids (s_ids s) = i # F" using se(3) by (cases "free_ids (s_ids s)") auto
  let ?j = "nat (i - 1)" and ?G = "no_regs G (alloc_next (os s))"
  obtain ret t where t: "vaccel_sess_init (Some a) 0 s = Some (ret, t)" "sessions_only s t"
    and c: "if ret \<noteq> 0 then lib_ok t (L @ [c]) G else in_session (L @ [c]) ?G a ?j (alloc_next (os s)) t
      \<and> regs_of t = regs_of s \<and> free_ids (s_ids t) = F \<and> running t = (running s)[?j := Some a] \<and> running s ! ?j = None \<and> int ?j + 1 = i"
    using use_init [OF ok se(1,2) fr, of 0] by auto
  have lt: "model_live m c t" by (rule model_live_session [OF l(1) t(2)])
  have rt: "regs_of t c = {}" using reg_init [OF t(1) D(7)] l(3) by simp
  show thesis
  proof (cases "ret = 0")
    case False
    then have okt: "lib_ok t (L @ [c]) G" using c by simp
    obtain u where "vaccel_tf_saved_model_destroy (Some m) t = Some (VACCEL_OK, u)" "lib_ok u (remove1 c (L @ [c])) G"
      by (rule model_destroyed [OF okt lt rt])
    then have "destroy_resource m ret t = Some (ret, u)" "lib_ok u L G" using l(2) by (simp_all add: destroy_resource_def remove1_append)
    then show thesis using no_session [OF t(1) False] by blast
  next
    case True
    then have c: "in_session (L @ [c]) ?G a ?j (alloc_next (os s)) t" "free_ids (s_ids t) = F" "running t = (running s)[?j := Some a]" "running s ! ?j = None" "int ?j + 1 = i"
      using c by simp_all
    have mo: "model_open L ?G m a ?j (alloc_next (os s)) c t" using c(1) lt l(2) by (simp add: model_open_def)
    have et: "tf_env loc t" by (rule tf_env_sessions [OF e t(2) world_init [OF t(1) D(7)]])
    obtain u d where u: "use_session (noop_call fadd) a m loc t = Some (0, u)" "taken_back L ?j t u" "ten_arr u (loc 6) = Some [Some d]"
      "tensor_value d u = Some (VACCEL_TF_FLOAT, [1, 30], ones)" using use_session_ok [OF et mo rt] by blast
    have "(running s)[?j := None] = running s" using c(4) by (metis list_update_id)
    then have "running u = running s" using u(2) c(3) by (simp add: taken_back_def)
    moreover have "free_ids (s_ids u) = free_ids (s_ids s)" "length (free_ids (r_pool u)) = Suc (length (free_ids (r_pool s)))" "\<exists>G. lib_ok u L G"
      using u(2) c(2,5) fr sessions_onlyD(8) [OF t(2)] by (simp_all add: taken_back_def)
    ultimately show thesis using used t(1) True u by blast
  qed
qed

text \<open>
  C14. The inference example with the noop plugin, given a directory with a complete export of a model. Assumed are a state in which the library is
  consistent and no VirtIO plugin is registered (\<open>lib_ok\<close>), a model and a session structure that are not in use, a free resource id and a free
  session id, and, in \<open>tf_env\<close>: the noop plugin serves the three operations, profiling is off (the code that starts and stops the profiling
  regions is not run), and no allocation fails. System calls may fail at any point. Then the program runs to its end and nothing that it reads is
  undefined; when it stops early, because the model cannot be read or the session not be set up, the library is still consistent and owns the
  resources of before; and when it returns 0, the pool of sessions, the table of running sessions and the number of free resource ids are as they
  were and the tensor that it prints is the one it has made, 30 elements of 1.00.
\<close>

theorem tf_inference_correct:
  assumes ok: "lib_ok s L G" and m: "model_free m s" "tsm_mem s m \<noteq> None" and ex: "export_dir path (os s)" and fr: "free_ids (r_pool s) \<noteq> []"
    and se: "s_mem s a \<noteq> None" "\<And>j. \<not> runs_at s j a" "free_ids (s_ids s) \<noteq> []" and e: "tf_env loc s"
  shows "\<exists>ret t. tf_inference_main (noop_call fadd) [prog, path] m a loc s = Some (ret, t) \<and> (\<exists>G. lib_ok t L G)
    \<and> (ret = 0 \<longrightarrow> free_ids (s_ids t) = free_ids (s_ids s) \<and> running t = running s \<and> length (free_ids (r_pool t)) = length (free_ids (r_pool s))
       \<and> (\<exists>d. ten_arr t (loc 6) = Some [Some d] \<and> tensor_value d t = Some (VACCEL_TF_FLOAT, [1, 30], ones)))"
proof -
  note D = lib_okD [OF ok]
  obtain md where md: "tsm_mem s m = Some md" using m(2) by blast
  obtain rid F where fr: "free_ids (r_pool s) = rid # F" using fr by (cases "free_ids (r_pool s)") auto
  obtain ret s1 where 1: "vaccel_tf_saved_model_set_path (Some m) path s = Some (ret, s1)" "fills m s ret s1"
    using set_path_fills [OF md ex obj_okD(2) [OF D(1)]] by blast
  show ?thesis
  proof (cases "ret = 0")
    case False
    then have "tf_inference_main (noop_call fadd) [prog, path] m a loc s = Some (1, s1)" using 1(1) by (simp add: tf_inference_main_def or_exit_def)
    then show ?thesis using fills_lib(2) [OF ok m(1) 1(2)] by auto
  next
    case True
    let ?c = "alloc_next (os s1)"
    have al: "alloc_ok (os s) ?c" using e by (simp add: tf_env_def plenty_def)
    obtain t where 2: "vaccel_tf_saved_model_register (Some m) s1 = Some (VACCEL_OK, t)" "objects_only s t" "lib_ok t (L @ [?c]) G" "model_live m ?c t"
      "regs_of t ?c = {}" "?c \<notin> set L" "free_ids (r_pool t) = F" "world (os t) = world (os s)" "vaccel_tf_saved_model_id (Some m) t = Some rid" "alloc_next (os s) \<le> alloc_next (os t)"
      by (rule model_registered [OF ok m(1) 1(2) [unfolded True] fr al])
    have S: "s_mem t = s_mem s" "s_ids t = s_ids s" "running t = running s" using 2(2) by (auto elim!: objects_onlyE)
    have et: "tf_env loc t" by (rule tf_env_objects [OF e 2(2,8,10)])
    obtain x where x: "s_mem t a = Some x" using se(1) S(1) by auto
    have idle: "\<not> runs_at t j a" for j using se(2) S(3) by (simp add: runs_at_def)
    have ne: "free_ids (s_ids t) \<noteq> []" using se(3) S(2) by simp
    note run = tf_inference_main_def or_exit_def 1(1) True 2(1,9)
    show ?thesis
    proof (cases rule: with_model [OF 2(3,4,6,5) et x idle ne, of _ fadd, case_names no_session used])
      case (no_session ret t')
      then show ?thesis by (auto simp: run)
    next
      case (used t' u d)
      have "length (free_ids (r_pool u)) = length (free_ids (r_pool s))" using used(6) 2(7) fr by simp
      moreover have "tf_inference_main (noop_call fadd) [prog, path] m a loc s = Some (0, u)" using used(1,2) by (simp add: run)
      ultimately show ?thesis using used(3-5,7,8) S by (intro exI [of _ 0] exI [of _ u]) simp
    qed
  qed
qed

text \<open>The state of \<open>res_client\<close> with an export directory and the variables of the program.\<close>

definition inference_state :: "plink lheap \<Rightarrow> noop_state" where
  "inference_state h = res_client\<lparr>p_links := h, os := export_os,
     tsm_mem := (tsm_mem res_client)(30 \<mapsto> \<lparr>tsm_resource = None, tsm_path = None, tsm_model = empty_file, tsm_checkpoint = empty_file, tsm_var_index = empty_file\<rparr>),
     status_mem := [41 \<mapsto> \<lparr>error_code = 0, st_message = None\<rparr>], ten_arr := [46 \<mapsto> [None]]\<rparr>"

theorem tf_inference_correct_witness:
  "\<exists>s ret t. tf_inference_main (noop_call (+)) [''tf_inference'', ''/e''] 30 20 ((+) 40) (s :: noop_state) = Some (ret, t) \<and> (\<exists>G. lib_ok t [] G)"
proof -
  obtain h R where h: "plug_ok (res_client\<lparr>p_links := h\<rparr>) R"
    "\<And>t hnt. t < VACCEL_FUNCTIONS_NR \<Longrightarrow> r_impls no_plugins t = [] \<Longrightarrow> get_plugin_op t hnt (res_client\<lparr>p_links := h\<rparr>) = Some (noop_function t)"
    by (rule noop_init_ok [OF res_client(8,9)]) (rule that)
  let ?r = "res_client\<lparr>p_links := h\<rparr>" and ?s = "inference_state h"
  note C = res_client(1,3-6) [where h = h]
  let ?o = "?r\<lparr>os := os ?s\<rparr>"
  have "os ?r = client_os" by (simp add: res_client_def tensor_state.defs ops_state.defs prof_state.defs obj_state.defs)
  then have "outside ?r ?o" by (intro outside_os) (simp_all add: inference_state_def export_os_def)
  note o = lib_outside [OF C(1) this]
  have "r_mem ?o b = None" for b using lib_okD(3) [OF o] by auto
  then have free: "model_free 30 ?o" by (simp add: model_free_def)
  let ?m = "?o\<lparr>tsm_mem := tsm_mem ?s\<rparr>"
  have g: "heap_ok (os ?o)" using obj_okD(2) [OF lib_okD(1) [OF o]] .
  have "fills 30 ?o 1 ?m" using g by (simp add: fills_def grows_refl) (simp add: inference_state_def, blast)
  note m = fills_lib(2) [OF o free this]
  have "beside ?m ?s" by (rule beside_more) (simp add: inference_state_def obj_state.defs)
  note ok = lib_beside [OF m this]
  have F: "r_pool ?s = r_pool ?r" "s_ids ?s = s_ids ?r" "s_mem ?s = s_mem ?r" "running ?s = running ?r" "r_mem ?s = r_mem ?o" "tsm_mem ?s 30 \<noteq> None"
    "p_links ?s = p_links ?r" "plugins ?s = plugins ?r" "ops ?s = ops ?r" "status_mem ?s 41 \<noteq> None" "ten_arr ?s 46 = Some [None]"
    by (simp_all add: inference_state_def)
  have "model_free 30 ?s" using free by (simp add: model_free_def F(5))
  moreover have "export_dir ''/e'' (os ?s)" using export_os by (simp add: inference_state_def)
  moreover have "free_ids (r_pool ?s) \<noteq> []" "s_mem ?s 20 \<noteq> None" "free_ids (s_ids ?s) \<noteq> []" using C(2,3,5) F(1-3) by auto
  moreover have "\<not> runs_at ?s j 20" for j using C(4) F(4) by (simp add: runs_at_def)
  moreover have "tf_env ((+) 40) ?s"
  proof -
    have "plug_ok ?s R" using h(1) F(7-9) by (simp add: plug_ok_def)
    moreover have "get_plugin_op ty hnt ?s = Some (noop_function ty)" if "ty < VACCEL_FUNCTIONS_NR" for ty hnt
      using h(2) [OF that, of hnt] get_plugin_op_cong [OF h(1) that F(8,9,7)] by (simp add: no_plugins_def)
    moreover have "plenty ?s" "\<not> vaccel_prof_enabled ?s" "40 < alloc_next (os ?s)"
      by (simp_all add: plenty_def vaccel_prof_enabled_def inference_state_def export_os_def client_os_def lib_booted(8) calm_os_def)
    ultimately show ?thesis using F(10,11) by (auto simp: tf_env_def)
  qed
  ultimately show ?thesis using tf_inference_correct [OF ok _ F(6), of "''/e''" 20 "(+) 40" "(+)" "''tf_inference''"] by blast
qed

end
