(* ===== verification/Introspection.thy ===== *)
theory Introspection
  imports Sessions
begin

text \<open>
  Asking which plugins implement an operation: \<^verbatim>\<open>vaccel_get_plugins\<close> of \<^verbatim>\<open>src/src/misc.c\<close>, \<^verbatim>\<open>get_available_plugins\<close> of
  \<^verbatim>\<open>src/src/plugin.c\<close>, and the inline functions of the headers that name operations and types of plugins. The log messages of these
  functions are left out, but not what computing their arguments does: the name of a type is a new block that nobody frees.
\<close>

subsection \<open>Names\<close>

definition vaccel_op_name :: "string list" where
  "vaccel_op_name = [''noop'', ''sgemm'', ''image classification'', ''image detection'', ''image segmentation'', ''image pose estimation'',
     ''image depth estimation'', ''exec'', ''TensorFlow model create'', ''TensorFlow model destroy'', ''TensorFlow model register'',
     ''TensorFlow model unregister'', ''TensorFlow session load'', ''TensorFlow session run'', ''TensorFlow session delete'', ''MinMax'',
     ''Array copy'', ''Matrix multiplication'', ''Parallel acceleration'', ''Vector Add'', ''Exec with resource'',
     ''Torch jitload_forward function'', ''Torch SGEMM'', ''OpenCV Generic'', ''Functions NR'']"

definition vaccel_op_type_str :: "nat \<Rightarrow> string option" where
  "vaccel_op_type_str ty = do { defined (ty < length vaccel_op_name); Some (vaccel_op_name ! ty) }"

definition vaccel_plugin_type_name :: "string list" where
  "vaccel_plugin_type_name = [''CPU'', ''GPU'', ''FPGA'', ''SOFTWARE'', ''TENSORFLOW'', ''TORCH'', ''JETSON'', ''GENERIC'', ''DEBUG'']"

text \<open>The loop: \<open>tester\<close> has one bit until it is shifted out, \<open>str\<close> is what has been written up to \<open>p\<close>.\<close>

fun type_str_loop :: "u32 \<Rightarrow> nat list \<Rightarrow> u32 \<Rightarrow> string \<Rightarrow> string option" where
  "type_str_loop ty [] tester str = Some str"
| "type_str_loop ty (i # rest) tester str = do {
     str \<leftarrow> (if tester AND ty \<noteq> 0
       then do {
         let str = (if str \<noteq> [] then str @ '' '' else str);
         defined (i < length vaccel_plugin_type_name);
         Some (str @ vaccel_plugin_type_name ! i) }
       else Some str);
     type_str_loop ty rest (push_bit 1 tester) str }"

text \<open>
  The name has to fit in the block of 100 bytes with its zero byte. Without a bit nothing is written, so that the block holds no string; with one, a
  block that was not allocated is written to.
\<close>

definition vaccel_plugin_type_str :: "u32 \<Rightarrow> 'z rt_state_scheme \<Rightarrow> (ptr \<times> 'z rt_state_scheme) option" where
  "vaccel_plugin_type_str ty s = (let (p, s) = os_call malloc s in do {
     str \<leftarrow> type_str_loop ty [0..<64] 1 [];
     defined (length str < 100);
     if str = [] then Some (p, s)
     else do { a \<leftarrow> p; Some (p, s\<lparr>os := (os s)\<lparr>strs := (strs (os s))(a \<mapsto> str)\<rparr>\<rparr>) } })"

subsection \<open>Plugins of an operation\<close>

definition report_plugin :: "plink \<Rightarrow> 'z plug_state_scheme \<Rightarrow> (unit option \<times> 'z plug_state_scheme) option" where
  "report_plugin e s = (case e of
       OpFunc a \<Rightarrow> do {
         opiter \<leftarrow> ops s a;
         _ \<leftarrow> vaccel_op_type_str (unat (op_type opiter));
         info \<leftarrow> owner_info s opiter;
         (_, s) \<leftarrow> vaccel_plugin_type_str (ptype info) s;
         Some (None, s) }
     | _ \<Rightarrow> None)"

definition get_available_plugins :: "nat \<Rightarrow> 'z plug_state_scheme \<Rightarrow> (int \<times> 'z plug_state_scheme) option" where
  "get_available_plugins ty s = do {
     defined (ty < VACCEL_FUNCTIONS_NR);
     (_, s) \<leftarrow> for_each_container_safe p_next (OpsHead ty) report_plugin s;
     Some (0, s) }"

definition vaccel_get_plugins :: "ptr \<Rightarrow> nat \<Rightarrow> 'z sess_state_scheme \<Rightarrow> (int \<times> 'z sess_state_scheme) option" where
  "vaccel_get_plugins sess ty s = (case sess of
       None \<Rightarrow> Some (VACCEL_EINVAL, s)
     | Some a \<Rightarrow> do {
         _ \<leftarrow> s_mem s a;
         _ \<leftarrow> vaccel_op_type_str ty;
         get_available_plugins ty s })"

subsection \<open>The name of a type\<close>

text \<open>The names of the bits of a type, separated by blanks.\<close>

definition type_words :: "u32 \<Rightarrow> nat \<Rightarrow> string list" where
  "type_words ty n = map (\<lambda>i. vaccel_plugin_type_name ! i) (filter (bit ty) [0..<n])"

definition unwords :: "string list \<Rightarrow> string" where
  "unwords ws = concat (take 1 ws @ map (\<lambda>w. '' '' @ w) (drop 1 ws))"

lemma unwords_snoc: "ws \<noteq> [] \<Longrightarrow> unwords (ws @ [w]) = unwords ws @ '' '' @ w"
  by (cases ws) (simp_all add: unwords_def)

lemma names_length: "length vaccel_plugin_type_name = 9"
  by (simp add: vaccel_plugin_type_name_def)

lemma name_nonempty: "i < 9 \<Longrightarrow> vaccel_plugin_type_name ! i \<noteq> []"
proof -
  have "\<forall>i\<in>set [0..<9]. vaccel_plugin_type_name ! i \<noteq> []" by code_simp
  then show "i < 9 \<Longrightarrow> vaccel_plugin_type_name ! i \<noteq> []" by simp
qed

lemma unwords_empty:
  assumes "n \<le> 9" shows "unwords (type_words ty n) = [] \<longleftrightarrow> type_words ty n = []"
proof -
  have "w \<noteq> []" if "w \<in> set (type_words ty n)" for w using that assms name_nonempty by (auto simp: type_words_def)
  then show ?thesis by (cases "type_words ty n") (auto simp: unwords_def)
qed

lemma tester_bit: "push_bit i (1 :: u32) AND ty \<noteq> 0 \<longleftrightarrow> bit ty i"
  unfolding bit_iff_and_push_bit_not_eq_0 by (simp add: and.commute)

lemma type_str_step:
  assumes "n < 9"
  shows "type_str_loop ty (n # rest) (push_bit n 1) (unwords (type_words ty n)) = type_str_loop ty rest (push_bit (Suc n) 1) (unwords (type_words ty (Suc n)))"
proof -
  have "unwords (type_words ty (Suc n)) = unwords (type_words ty n) @ (if unwords (type_words ty n) = [] then [] else '' '') @ vaccel_plugin_type_name ! n"
    if "bit ty n"
  proof -
    have "type_words ty (Suc n) = type_words ty n @ [vaccel_plugin_type_name ! n]" using that by (simp add: type_words_def)
    then show ?thesis using unwords_snoc [of "type_words ty n"] unwords_empty [of n ty] assms by (cases "type_words ty n = []") (auto simp: unwords_def)
  qed
  moreover have "type_words ty (Suc n) = type_words ty n" if "\<not> bit ty n" using that by (simp add: type_words_def)
  ultimately show ?thesis using assms tester_bit [of n ty] by (simp add: names_length mult.commute)
qed

lemma type_str_known:
  assumes "n \<le> 9"
  shows "type_str_loop ty ([n..<9] @ rest) (push_bit n 1) (unwords (type_words ty n)) = type_str_loop ty rest (push_bit 9 1) (unwords (type_words ty 9))"
  using assms
proof (induction "9 - n" arbitrary: n)
  case (Suc k)
  then have n: "n < 9" "[n..<9] = n # [Suc n..<9]" by (simp_all add: upt_conv_Cons)
  have "type_str_loop ty ([Suc n..<9] @ rest) (push_bit (Suc n) 1) (unwords (type_words ty (Suc n))) = type_str_loop ty rest (push_bit 9 1) (unwords (type_words ty 9))"
    by (rule Suc.hyps(1)) (use Suc.hyps(2) n(1) in simp_all)
  then show ?case unfolding n(2) append_Cons type_str_step [OF n(1)] .
qed simp

lemma type_str_unknown:
  assumes "9 \<le> n"
  shows "type_str_loop ty [n..<m] (push_bit n 1) str = (if \<exists>i\<in>{n..<m}. bit ty i then None else Some str)"
  using assms
proof (induction "m - n" arbitrary: n)
  case (Suc k)
  then have n: "[n..<m] = n # [Suc n..<m]" "{n..<m} = insert n {Suc n..<m}" by (auto simp: upt_conv_Cons)
  have "type_str_loop ty [Suc n..<m] (push_bit (Suc n) 1) str = (if \<exists>i\<in>{Suc n..<m}. bit ty i then None else Some str)"
    by (rule Suc.hyps(1)) (use Suc in simp_all)
  then show ?case unfolding n using tester_bit [of n ty] Suc.prems by (simp add: names_length mult.commute)
qed simp

lemma type_str_loop_result:
  "type_str_loop ty [0..<64] 1 [] = (if \<exists>i\<in>{9..<32}. bit ty i then None else Some (unwords (type_words ty 9)))"
proof -
  have "[0..<64] = [0..<9] @ [9..<64::nat]" using upt_add_eq_append [of 0 9 55] by simp
  moreover have "unwords (type_words ty 0) = []" by (simp add: unwords_def type_words_def)
  ultimately have "type_str_loop ty [0..<64] 1 [] = type_str_loop ty [9..<64] (push_bit 9 1) (unwords (type_words ty 9))"
    using type_str_known [of 0 ty "[9..<64]"] by simp
  moreover have "(\<exists>i\<in>{9..<64}. bit ty i) \<longleftrightarrow> (\<exists>i\<in>{9..<32}. bit ty i)" using bit_imp_le_length [of ty] by fastforce
  ultimately show ?thesis using type_str_unknown [of 9 ty 64] by simp
qed

lemma unwords_length: "length (unwords ws) \<le> sum_list (map (\<lambda>w. Suc (length w)) ws)"
  by (cases ws) (simp_all add: unwords_def length_concat o_def)

lemma type_str_short: "length (unwords (type_words ty 9)) < 100"
proof -
  let ?len = "\<lambda>i. Suc (length (vaccel_plugin_type_name ! i))"
  have "length (unwords (type_words ty 9)) \<le> sum_list (map ?len (filter (bit ty) [0..<9]))"
    using unwords_length [of "type_words ty 9"] by (simp add: type_words_def o_def)
  also have "\<dots> \<le> sum_list (map ?len [0..<9])" by (rule sum_list_filter_le_nat)
  also have "\<dots> < 100" by code_simp
  finally show ?thesis .
qed

lemma vaccel_plugin_type_str_known:
  assumes "\<forall>i\<in>{9..<32}. \<not> bit ty i" "alloc_ok (os s) (alloc_next (os s))"
  shows "\<exists>o'. vaccel_plugin_type_str ty s = Some (Some (alloc_next (os s)), s\<lparr>os := o'\<rparr>) \<and> alloc_ok o' = alloc_ok (os s) \<and> alloc_next o' = Suc (alloc_next (os s))
    \<and> (ty \<noteq> 0 \<longrightarrow> strs o' = (strs (os s))(alloc_next (os s) \<mapsto> unwords (type_words ty 9)))"
proof -
  have loop: "type_str_loop ty [0..<64] 1 [] = Some (unwords (type_words ty 9))" using type_str_loop_result [of ty] assms(1) by simp
  have "unwords (type_words ty 9) \<noteq> []" if nz: "ty \<noteq> 0"
  proof -
    obtain i where i: "bit ty i" using nz by (auto simp: bit_eq_iff)
    then have "i < 32" using bit_imp_le_length by fastforce
    then have "i < 9" using i assms(1) by (meson atLeastLessThan_iff not_less)
    then have "type_words ty 9 \<noteq> []" using i by (auto simp: type_words_def filter_empty_conv)
    then show ?thesis using unwords_empty by simp
  qed
  then show ?thesis using type_str_short assms(2) by (auto simp: vaccel_plugin_type_str_def loop os_call_def malloc_def)
qed

lemma vaccel_plugin_type_str_unknown: "\<exists>i\<in>{9..<32}. bit ty i \<Longrightarrow> vaccel_plugin_type_str ty s = None"
  using type_str_loop_result [of ty] by (auto simp: vaccel_plugin_type_str_def split: prod.split)

lemma type_known: "(\<forall>i\<in>{9..<32}. \<not> bit ty i) \<longleftrightarrow> (ty :: u32) < 512"
proof
  assume none: "\<forall>i\<in>{9..<32}. \<not> bit ty i"
  have "take_bit 9 ty = ty"
  proof (rule bit_eqI)
    fix i
    show "bit (take_bit 9 ty) i \<longleftrightarrow> bit ty i" using none bit_imp_le_length [of ty i] by (auto simp: bit_take_bit_iff not_less)
  qed
  then have "unat ty = take_bit 9 (unat ty)" by (metis unsigned_take_bit_eq)
  then have "unat ty < 512" using take_bit_nat_less_exp [of 9 "unat ty"] by simp
  then show "ty < 512" by (simp add: word_less_nat_alt)
next
  assume "ty < 512"
  then have u: "unat ty < 2 ^ 9" by (simp add: word_less_nat_alt)
  have "\<not> bit ty i" if "9 \<le> i" for i
  proof -
    have "unat ty < 2 ^ i" using u power_increasing [OF that, of "2 :: nat"] by simp
    then have "\<not> bit (unat ty) i" by (simp add: bit_iff_odd)
    then show ?thesis by (simp add: bit_unsigned_iff)
  qed
  then show "\<forall>i\<in>{9..<32}. \<not> bit ty i" by simp
qed

lemma type_unknown: "(\<exists>i\<in>{9..<32}. bit ty i) \<longleftrightarrow> 512 \<le> (ty :: u32)"
  unfolding not_less [symmetric] type_known [symmetric] by simp

subsection \<open>Visiting every entry\<close>

text \<open>The safe iterator with a body that leaves the list alone is a fold.\<close>

fun walk :: "('a \<Rightarrow> 's \<Rightarrow> 's option) \<Rightarrow> 'a list \<Rightarrow> 's \<Rightarrow> 's option" where
  "walk g [] s = Some s"
| "walk g (x # xs) s = Option.bind (g x s) (walk g xs)"

lemma walk_safe_loop:
  assumes rd: "\<And>s e. P s \<Longrightarrow> rd s e = nxt h e"
    and body: "\<And>y s. y \<in> set ys \<Longrightarrow> P s \<Longrightarrow> body y s = map_option (Pair None) (g y s)"
    and keep: "\<And>y s s'. y \<in> set ys \<Longrightarrow> P s \<Longrightarrow> g y s = Some s' \<Longrightarrow> P s'"
    and l: "is_list h l (as @ ys)" and s: "P s"
    and tmp: "ys \<noteq> [] \<longrightarrow> tmp = first_or l (tl ys)"
  shows "for_each_safe_loop rd l body (first_or l ys) tmp s = map_option (Pair None) (walk g ys s)"
  using body keep l s tmp
proof (induction ys arbitrary: as tmp s)
  case Nil
  show ?case by (simp add: for_each_safe_loop.simps)
next
  case (Cons y ys)
  have l': "is_list h l ((as @ [y]) @ ys)" using Cons.prems(3) by simp
  have y: "y \<noteq> l" "tmp = first_or l ys" using Cons.prems(3,5) by (auto simp: is_list_def)
  show ?case
  proof (cases "g y s")
    case None
    then show ?thesis using y Cons.prems(1,4) by (subst for_each_safe_loop.simps) simp
  next
    case (Some s')
    have s': "P s'" using Cons.prems(2) [OF _ Cons.prems(4) Some] by simp
    obtain n where n: "rd s' (first_or l ys) = Some n" "ys \<noteq> [] \<longrightarrow> n = first_or l (tl ys)" using next_of_first [OF l'] rd [OF s'] by auto
    have "for_each_safe_loop rd l body (first_or l ys) n s' = map_option (Pair None) (walk g ys s')"
    proof (rule Cons.IH [OF _ _ l' s' n(2)])
      show "body x u = map_option (Pair None) (g x u)" if "x \<in> set ys" "P u" for x u using Cons.prems(1) that by simp
      show "P v" if "x \<in> set ys" "P u" "g x u = Some v" for x u v by (rule Cons.prems(2) [OF _ that(2,3)]) (use that(1) in simp)
    qed
    then show ?thesis using y n(1) Some Cons.prems(1,4) by (subst for_each_safe_loop.simps) simp
  qed
qed

lemma walk_container_safe:
  assumes "\<And>s e. P s \<Longrightarrow> rd s e = nxt h e" "\<And>y s. y \<in> set ys \<Longrightarrow> P s \<Longrightarrow> body y s = map_option (Pair None) (g y s)"
    "\<And>y s s'. y \<in> set ys \<Longrightarrow> P s \<Longrightarrow> g y s = Some s' \<Longrightarrow> P s'" "is_list h l ys" "P s"
  shows "for_each_container_safe rd l body s = map_option (Pair None) (walk g ys s)"
proof -
  have l0: "is_list h l ([] @ ys)" using assms(4) by simp
  obtain n where n: "rd s (first_or l ys) = Some n" "ys \<noteq> [] \<longrightarrow> n = first_or l (tl ys)" using next_of_first [OF l0] assms(1) [OF assms(5)] by auto
  then show ?thesis using is_list_first [OF assms(4)] assms(1) [OF assms(5)]
      walk_safe_loop [of P rd h ys body g l "[]", OF assms(1-3) l0 assms(5) n(2)]
    by (simp add: for_each_container_safe_def)
qed

subsection \<open>Properties\<close>

text \<open>The type of the plugin that an implementation belongs to.\<close>

definition type_of_impl :: "'z plug_state_scheme \<Rightarrow> addr \<Rightarrow> u32" where
  "type_of_impl s a = (case Option.bind (ops s a) (owner_info s) of None \<Rightarrow> 0 | Some info \<Rightarrow> ptype info)"

definition report_type :: "u32 \<Rightarrow> 'z plug_state_scheme \<Rightarrow> 'z plug_state_scheme option" where
  "report_type ty s = map_option snd (vaccel_plugin_type_str ty s)"

lemma report_type_run:
  "vaccel_plugin_type_str ty s = Some (p, t) \<Longrightarrow> report_type ty s = Some t" "vaccel_plugin_type_str ty s = None \<Longrightarrow> report_type ty s = None"
  by (simp_all add: report_type_def)

lemma report_type_known:
  assumes "\<forall>ty\<in>set tys. ty < 512" "\<And>n. alloc_ok (os s) n"
  shows "\<exists>o'. walk report_type tys s = Some (s\<lparr>os := o'\<rparr>) \<and> alloc_next o' = alloc_next (os s) + length tys"
  using assms
proof (induction tys arbitrary: s)
  case Nil
  show ?case by (intro exI [of _ "os s"]) simp
next
  case (Cons ty tys)
  have "\<forall>i\<in>{9..<32}. \<not> bit ty i" using Cons.prems(1) type_known [of ty] by simp
  from vaccel_plugin_type_str_known [OF this Cons.prems(2)] obtain o' where o': "vaccel_plugin_type_str ty s = Some (Some (alloc_next (os s)), s\<lparr>os := o'\<rparr>)"
    "alloc_ok o' = alloc_ok (os s)" "alloc_next o' = Suc (alloc_next (os s))" by blast
  have "\<exists>o''. walk report_type tys (s\<lparr>os := o'\<rparr>) = Some (s\<lparr>os := o'\<rparr>\<lparr>os := o''\<rparr>) \<and> alloc_next o'' = alloc_next (os (s\<lparr>os := o'\<rparr>)) + length tys"
    by (rule Cons.IH) (use Cons.prems o'(2) in simp_all)
  then show ?case using o'(3) report_type_run(1) [OF o'(1)] by auto
qed

lemma report_type_unknown:
  assumes "ty \<in> set tys" "512 \<le> ty"
  shows "walk report_type tys s = None"
  using assms(1)
proof (induction tys arbitrary: s)
  case (Cons x tys)
  show ?case
  proof (cases "x = ty")
    case True
    then show ?thesis using vaccel_plugin_type_str_unknown [of ty s] type_unknown [of ty] assms(2) report_type_run(2) [of ty s] by simp
  next
    case False
    then have "ty \<in> set tys" using Cons.prems by simp
    then show ?thesis using Cons.IH by (cases "report_type x s") simp_all
  qed
qed simp

lemma report_plugin_type:
  assumes "plug_ok s R" "t < VACCEL_FUNCTIONS_NR" "a \<in> set (r_impls R t)" "ops u = ops s" "plugins u = plugins s"
  shows "report_plugin (OpFunc a) u = map_option (Pair None) (report_type (type_of_impl s a) u)"
proof -
  obtain op info where op: "ops s a = Some op" "owner_info s op = Some info" "unat (op_type op) = t" using owner_info_impl [OF assms(1-3)] .
  have "owner_info u op = owner_info s op" using assms(5) by (simp add: owner_info_def)
  moreover have "vaccel_op_type_str t = Some (vaccel_op_name ! t)" using assms(2) by (simp add: vaccel_op_type_str_def vaccel_op_name_def)
  ultimately show ?thesis using op assms(4) by (simp add: report_plugin_def report_type_def type_of_impl_def map_option_case split: option.split Option.bind_split)
qed

text \<open>
  Asking for the plugins of an operation visits every implementation in order and makes the name of its plugin's type.
\<close>

lemma get_available_plugins_walk:
  assumes ok: "plug_ok s R" and t: "t < VACCEL_FUNCTIONS_NR"
  shows "get_available_plugins t s = map_option (Pair 0) (walk report_type (map (type_of_impl s) (r_impls R t)) s)"
proof -
  have il: "is_list (p_links s) (OpsHead t) (map OpFunc (r_impls R t))" using plug_ok_list [OF ok, of "OpsHead t"] t by simp
  let ?P = "\<lambda>u. p_links u = p_links s \<and> ops u = ops s \<and> plugins u = plugins s"
  let ?g = "\<lambda>e u. case e of OpFunc a \<Rightarrow> report_type (type_of_impl s a) u | _ \<Rightarrow> None"
  have keep: "?P v" if "?P u" "report_type ty u = Some v" for ty u v
    using that by (auto simp: report_type_def vaccel_plugin_type_str_def os_call_def defined_def split: prod.splits if_splits Option.bind_splits)
  have "for_each_container_safe p_next (OpsHead t) report_plugin s = map_option (Pair None) (walk ?g (map OpFunc (r_impls R t)) s)"
  proof (rule walk_container_safe [where P = ?P and h = "p_links s"])
    show "p_next u e = nxt (p_links s) e" if "?P u" for u e using that by (simp add: p_next_def)
    show "report_plugin y u = map_option (Pair None) (?g y u)" if y: "y \<in> set (map OpFunc (r_impls R t))" and u: "?P u" for y u
    proof -
      from y obtain a where a: "y = OpFunc a" "a \<in> set (r_impls R t)" by auto
      show ?thesis using report_plugin_type [OF ok t a(2), of u] u a(1) by simp
    qed
    show "?P v" if "y \<in> set (map OpFunc (r_impls R t))" "?P u" "?g y u = Some v" for y u v
    proof -
      from that(1) obtain a where "y = OpFunc a" by auto
      then show ?thesis using keep [OF that(2), of "type_of_impl s a" v] that(3) by simp
    qed
  qed (use il in simp_all)
  also have "walk ?g (map OpFunc as) u = walk report_type (map (type_of_impl s) as) u" for as u
    by (induction as arbitrary: u) (simp_all cong: Option.bind_cong)
  finally show ?thesis using t by (simp add: get_available_plugins_def defined_def map_option_case split: option.split)
qed

text \<open>
  C33. Asking for the plugins of an operation returns success exactly when it can name the types of the plugins that implement it: with memory at hand, a
  plugin whose type has only the nine bits with a name gives one new block, which nothing refers to afterwards, and a single plugin with another
  bit (such as \<^verbatim>\<open>VACCEL_PLUGIN_ALL\<close>) makes the function read behind its table of names.
\<close>

theorem vaccel_get_plugins_correct:
  assumes "plug_ok s R" "t < VACCEL_FUNCTIONS_NR" "s_mem s a = Some se" "\<And>n. alloc_ok (os s) n"
  shows "((\<forall>x\<in>set (r_impls R t). type_of_impl s x < 512) \<longrightarrow> (\<exists>o'. vaccel_get_plugins (Some a) t s = Some (VACCEL_OK, s\<lparr>os := o'\<rparr>)
      \<and> alloc_next o' = alloc_next (os s) + length (r_impls R t)))
    \<and> ((\<exists>x\<in>set (r_impls R t). 512 \<le> type_of_impl s x) \<longrightarrow> vaccel_get_plugins (Some a) t s = None)"
proof -
  have run: "vaccel_get_plugins (Some a) t s = map_option (Pair 0) (walk report_type (map (type_of_impl s) (r_impls R t)) s)"
    using get_available_plugins_walk [OF assms(1,2)] assms(2,3) by (simp add: vaccel_get_plugins_def vaccel_op_type_str_def vaccel_op_name_def)
  show ?thesis
  proof (intro conjI impI)
    assume "\<forall>x\<in>set (r_impls R t). type_of_impl s x < 512"
    then have "\<forall>ty\<in>set (map (type_of_impl s) (r_impls R t)). ty < 512" by simp
    from report_type_known [OF this, of s] assms(4) show "\<exists>o'. vaccel_get_plugins (Some a) t s = Some (VACCEL_OK, s\<lparr>os := o'\<rparr>)
      \<and> alloc_next o' = alloc_next (os s) + length (r_impls R t)" unfolding run by auto
  next
    assume "\<exists>x\<in>set (r_impls R t). 512 \<le> type_of_impl s x"
    then obtain x where x: "x \<in> set (r_impls R t)" "512 \<le> type_of_impl s x" by blast
    have "type_of_impl s x \<in> set (map (type_of_impl s) (r_impls R t))" using x(1) by simp
    from report_type_unknown [OF this x(2), of s] show "vaccel_get_plugins (Some a) t s = None" unfolding run by simp
  qed
qed

theorem vaccel_get_plugins_correct_witness:
  "\<exists>s o'. vaccel_get_plugins (Some 20) 3 s = Some (VACCEL_OK, s\<lparr>os := o'\<rparr> :: sess_state) \<and> alloc_next o' = alloc_next (os s) + 2"
proof -
  define s where "s = sess_base\<lparr>p_links := p_links two_registered, plugins := plugins two_registered, ops := ops two_registered\<rparr>"
  have ok: "plug_ok s registry_2" using two_registered_ok(1) by (simp add: plug_ok_def s_def)
  have se: "s_mem s 20 = Some no_session" and al: "alloc_ok (os s) n" for n using sess_base(2,9) by (simp_all add: s_def calm_os_def)
  have "\<forall>x\<in>set (r_impls registry_2 3). type_of_impl s x < 512"
    using registry_2(2) two_registered_ok(3,4) by (simp add: s_def type_of_impl_def owner_info_def two_loaded_def info_of_type_def)
  with vaccel_get_plugins_correct [OF ok _ se al, of 3] registry_2(2)
  show ?thesis by (intro exI [of _ s]) simp
qed

end
