(* ===== verification/Numeric_Examples.thy ===== *)
theory Numeric_Examples
  imports Examples
begin

text \<open>
  The example programs on arrays of numbers (\<^verbatim>\<open>sgemm.c\<close>, \<^verbatim>\<open>minmax.c\<close> and their generic variants in \<^verbatim>\<open>src/examples/\<close>). Floating
  point stays a parameter: \<open>fq i j m\<close> is the value \<^verbatim>\<open>((float) i * j) / m\<close>, and \<open>scan c i\<close> is the number that
  conversion \<open>i\<close> of \<^verbatim>\<open>fscanf\<close> gives for a file that holds \<open>c\<close>, if it gives one. Times are not modelled, and a
  stream that is not closed keeps what is not written yet until the process ends.
\<close>

subsection \<open>Matrices\<close>

text \<open>\<^verbatim>\<open>ELEM_2D(A, i, j, ld) = ((float) i * j) / m\<close> for all rows and columns.\<close>

definition init_matrix :: "(nat \<Rightarrow> nat \<Rightarrow> nat \<Rightarrow> u32) \<Rightarrow> nat \<Rightarrow> nat \<Rightarrow> nat \<Rightarrow> ptr \<Rightarrow> 'z ops_state_scheme \<Rightarrow> 'z ops_state_scheme option" where
  "init_matrix fq m rows ld p s = loop (\<lambda>i. loop (\<lambda>j. store_elem p (i * ld + j) (fq i j m)) [0..<ld]) [0..<rows] s"

definition init_matrices :: "(nat \<Rightarrow> nat \<Rightarrow> nat \<Rightarrow> u32) \<Rightarrow> nat \<Rightarrow> nat \<Rightarrow> nat \<Rightarrow> ptr \<Rightarrow> ptr \<Rightarrow> ptr \<Rightarrow> 'z ops_state_scheme \<Rightarrow> 'z ops_state_scheme option" where
  "init_matrices fq m n k a b c s = do {
     s \<leftarrow> init_matrix fq m m k a s;
     s \<leftarrow> init_matrix fq m k n b s;
     init_matrix fq m m n c s }"

definition sgemm_dim :: nat where
  "sgemm_dim = 512"

text \<open>\<^verbatim>\<open>alpha\<close> is 32412 and \<^verbatim>\<open>beta\<close> is 2123.\<close>

definition sgemm_alpha :: u32 where "sgemm_alpha = 0x46FD3800"
definition sgemm_beta :: u32 where "sgemm_beta = 0x4504B000"

text \<open>The file for the results, when the program is given one, and writing them to it.\<close>

definition open_results :: "string list \<Rightarrow> 'z rt_state_scheme \<Rightarrow> stream option \<times> 'z rt_state_scheme" where
  "open_results argv s = (case argv of [_, path] \<Rightarrow> os_call (fopen_w path) s | _ \<Rightarrow> (None, s))"

definition write_results :: "stream option \<Rightarrow> ptr \<Rightarrow> nat \<Rightarrow> 'z ops_state_scheme \<Rightarrow> 'z ops_state_scheme option" where
  "write_results data_fp p n s = (case data_fp of
       None \<Rightarrow> Some s
     | Some f \<Rightarrow> do {
         bs \<leftarrow> load (4 * n) p s;
         let (_, _, o') = fwrite bs f (os s);
         Some (s\<lparr>os := o'\<rparr>) })"

text \<open>The operation, its results and the end of the session; the result is that of the operation.\<close>

definition run_and_write :: "('z ops_state_scheme \<Rightarrow> (int \<times> 'z ops_state_scheme) option) \<Rightarrow> stream option \<Rightarrow> ptr \<Rightarrow> nat \<Rightarrow> addr
    \<Rightarrow> 'z ops_state_scheme \<Rightarrow> (int \<times> 'z ops_state_scheme) option" where
  "run_and_write op data_fp p n a s = do {
     (ret, s) \<leftarrow> and_print (op s) (write_results data_fp p n);
     (_, s) \<leftarrow> vaccel_sess_free (Some a) s;
     Some (ret, s) }"

text \<open>The arrays are at \<open>loc 0\<close> to \<open>loc 2\<close>.\<close>

definition sgemm_main :: "'z impl \<Rightarrow> (nat \<Rightarrow> nat \<Rightarrow> nat \<Rightarrow> u32) \<Rightarrow> string list \<Rightarrow> addr \<Rightarrow> (nat \<Rightarrow> addr)
    \<Rightarrow> 'z ops_state_scheme \<Rightarrow> (int \<times> 'z ops_state_scheme) option" where
  "sgemm_main call fq argv a loc s =
     (let (data_fp, s) = open_results argv s; n = sgemm_dim in do {
        s \<leftarrow> init_matrices fq n n n (Some (loc 0)) (Some (loc 1)) (Some (loc 2)) s;
        (ret, s) \<leftarrow> vaccel_sess_init (Some a) 0 s;
        if ret \<noteq> 0 then Some (ret, s)
        else run_and_write (vaccel_sgemm call (Some a) (of_nat n) (of_nat n) (of_nat n) sgemm_alpha (Some (loc 0)) (of_nat n)
               (Some (loc 1)) (of_nat n) sgemm_beta (Some (loc 2)) (of_nat n)) data_fp (Some (loc 2)) (n * n) a s })"

text \<open>
  The generic variant allocates its arrays and its dimensions; the type of the operation is at \<open>loc 0\<close>, \<^verbatim>\<open>alpha\<close> and \<^verbatim>\<open>beta\<close>
  are at \<open>loc 1\<close> and \<open>loc 2\<close>. When \<^verbatim>\<open>B\<close> cannot be allocated it is \<^verbatim>\<open>B\<close> that is freed, and not \<^verbatim>\<open>A\<close>.
\<close>

definition sgemm_generic_run :: "_ \<Rightarrow> (nat \<Rightarrow> nat \<Rightarrow> nat \<Rightarrow> u32) \<Rightarrow> stream option \<Rightarrow> addr \<Rightarrow> (nat \<Rightarrow> addr) \<Rightarrow> ptr \<Rightarrow> ptr \<Rightarrow> ptr
    \<Rightarrow> 'z tensor_state_scheme \<Rightarrow> (int \<times> 'z tensor_state_scheme) option" where
  "sgemm_generic_run call fq data_fp a loc A B C s =
     (let (m, s) = malloc_bytes 8 s; (n, s) = malloc_bytes 8 s; (k, s) = malloc_bytes 8 s; d = sgemm_dim in do {
        s \<leftarrow> store_at m 0 (le_bytes 8 (of_nat d :: u64)) s;
        s \<leftarrow> store_at n 0 (le_bytes 8 (of_nat d :: u64)) s;
        s \<leftarrow> store_at k 0 (le_bytes 8 (of_nat d :: u64)) s;
        s \<leftarrow> init_matrices fq d d d A B C s;
        (ret, s) \<leftarrow> vaccel_sess_init (Some a) 0 s;
        if ret \<noteq> 0 then Some (ret, s)
        else do {
          let s = set_local (loc 2) (le_bytes 4 sgemm_beta) (set_local (loc 1) (le_bytes 4 sgemm_alpha)
            (set_local (loc 0) (le_bytes 4 (of_nat VACCEL_BLAS_SGEMM :: u32)) s));
          let len = (of_nat (4 * (d * d)) :: u32);
          (ret, s) \<leftarrow> run_and_write (vaccel_genop call (Some a)
              (Some [scalar 4 (loc 0), \<lparr>arg_size = 4, arg_buf = m\<rparr>, \<lparr>arg_size = 4, arg_buf = n\<rparr>, \<lparr>arg_size = 4, arg_buf = k\<rparr>,
                 scalar 4 (loc 1), \<lparr>arg_size = len, arg_buf = A\<rparr>, \<lparr>arg_size = len, arg_buf = B\<rparr>, scalar 4 (loc 2)]) 8
              (Some [\<lparr>arg_size = len, arg_buf = C\<rparr>]) 1) data_fp C (d * d) a s;
          s \<leftarrow> free_bytes C s;
          s \<leftarrow> free_bytes A s;
          s \<leftarrow> free_bytes B s;
          Some (ret, s) } })"

definition sgemm_generic_main :: "_ \<Rightarrow> (nat \<Rightarrow> nat \<Rightarrow> nat \<Rightarrow> u32) \<Rightarrow> string list \<Rightarrow> addr \<Rightarrow> (nat \<Rightarrow> addr)
    \<Rightarrow> 'z tensor_state_scheme \<Rightarrow> (int \<times> 'z tensor_state_scheme) option" where
  "sgemm_generic_main call fq argv a loc s =
     (let (data_fp, s) = open_results argv s; bytes = of_nat (4 * (sgemm_dim * sgemm_dim)); (A, s) = malloc_bytes bytes s
      in if A = None then Some (VACCEL_ENOMEM, s)
         else let (B, s) = malloc_bytes bytes s
              in if B = None then do { s \<leftarrow> free_bytes B s; Some (VACCEL_ENOMEM, s) }
                 else let (C, s) = malloc_bytes bytes s
                      in if C = None then do { s \<leftarrow> free_bytes A s; s \<leftarrow> free_bytes B s; Some (VACCEL_ENOMEM, s) }
                         else sgemm_generic_run call fq data_fp a loc A B C s)"

subsection \<open>Minimum and maximum\<close>

text \<open>\<^verbatim>\<open>fopen\<close> for reading opens a directory, too; reading from it fails.\<close>

definition fopen_r :: "string \<Rightarrow> os_state \<Rightarrow> fnode option \<times> os_state" where
  "fopen_r path s = (let (e, s) = sys_call s in
     if e \<noteq> 0 then (None, s)
     else (node s path, s))"

fun scan_doubles :: "(u8 list \<Rightarrow> nat \<Rightarrow> u64 option) \<Rightarrow> fnode \<Rightarrow> ptr \<Rightarrow> nat list \<Rightarrow> 'z ops_state_scheme \<Rightarrow> (bool \<times> 'z ops_state_scheme) option" where
  "scan_doubles scan f p [] s = Some (True, s)"
| "scan_doubles scan f p (i # rest) s = (case (case f of File c \<Rightarrow> scan c i | Dir \<Rightarrow> None) of
       None \<Rightarrow> Some (False, s)
     | Some x \<Rightarrow> do { s \<leftarrow> store_at p (8 * i) (le_bytes 8 x) s; scan_doubles scan f p rest s })"

text \<open>
  Both programs, for the operation \<open>op\<close> on the arrays and the bounds; \<^verbatim>\<open>min\<close> and \<^verbatim>\<open>max\<close> are at \<open>loc 1\<close> and \<open>loc 2\<close> and are
  printed when the operation succeeds.
\<close>

definition minmax_session :: "(ptr \<Rightarrow> int \<Rightarrow> int \<Rightarrow> int \<Rightarrow> ptr \<Rightarrow> 'z ops_state_scheme \<Rightarrow> (int \<times> 'z ops_state_scheme) option) \<Rightarrow> addr \<Rightarrow> (nat \<Rightarrow> addr)
    \<Rightarrow> ptr \<Rightarrow> int \<Rightarrow> int \<Rightarrow> int \<Rightarrow> ptr \<Rightarrow> 'z ops_state_scheme \<Rightarrow> (int \<times> 'z ops_state_scheme) option" where
  "minmax_session op a loc indata ndata low high outdata s = do {
     (ret, s) \<leftarrow> vaccel_sess_init (Some a) 0 s;
     if ret \<noteq> 0 then Some (ret, s)
     else do {
       (ret, s) \<leftarrow> and_print (op indata ndata low high outdata s)
         (\<lambda>s. do { _ \<leftarrow> load 8 (Some (loc 1)) s; _ \<leftarrow> load 8 (Some (loc 2)) s; Some s });
       (_, s) \<leftarrow> vaccel_sess_free (Some a) s;
       Some (ret, s) } }"

definition minmax_run :: "_ \<Rightarrow> (u8 list \<Rightarrow> nat \<Rightarrow> u64 option) \<Rightarrow> string \<Rightarrow> string \<Rightarrow> string \<Rightarrow> addr \<Rightarrow> (nat \<Rightarrow> addr) \<Rightarrow> int \<Rightarrow> ptr
    \<Rightarrow> 'z tensor_state_scheme \<Rightarrow> (int \<times> 'z tensor_state_scheme) option" where
  "minmax_run op scan file low high a loc ndata indata s =
     (let (fp, s) = os_call (fopen_r file) s
      in case fp of
           None \<Rightarrow> do { s \<leftarrow> free_bytes indata s; Some (VACCEL_EIO, s) }
         | Some f \<Rightarrow> do {
             (read, s) \<leftarrow> scan_doubles scan f indata [0..<nat ndata] s;
             if \<not> read then do { s \<leftarrow> free_bytes indata s; Some (VACCEL_EIO, s) }
             else let (outdata, s) = malloc_bytes (of_int (ndata * 8)) s
                  in do {
                    (ret, s) \<leftarrow> (if outdata = None then Some (VACCEL_ENOMEM, s)
                      else do { low \<leftarrow> atoi low; high \<leftarrow> atoi high; minmax_session op a loc indata ndata low high outdata s });
                    s \<leftarrow> free_bytes outdata s;
                    s \<leftarrow> free_bytes indata s;
                    Some (ret, s) } })"

definition minmax_program :: "_ \<Rightarrow> (u8 list \<Rightarrow> nat \<Rightarrow> u64 option) \<Rightarrow> string list \<Rightarrow> addr \<Rightarrow> (nat \<Rightarrow> addr)
    \<Rightarrow> 'z tensor_state_scheme \<Rightarrow> (int \<times> 'z tensor_state_scheme) option" where
  "minmax_program op scan argv a loc s = (case argv of
       [_, n, file, low, high] \<Rightarrow> do {
         ndata \<leftarrow> atoi n;
         if ndata \<le> 0 then Some (1, s)
         else let (indata, s) = malloc_bytes (of_int (ndata * 8)) s
              in if indata = None then Some (VACCEL_ENOMEM, s)
                 else minmax_run op scan file low high a loc ndata indata s }
     | _ \<Rightarrow> Some (0, s))"

definition minmax_main :: "_ \<Rightarrow> (u8 list \<Rightarrow> nat \<Rightarrow> u64 option) \<Rightarrow> string list \<Rightarrow> addr \<Rightarrow> (nat \<Rightarrow> addr)
    \<Rightarrow> 'z tensor_state_scheme \<Rightarrow> (int \<times> 'z tensor_state_scheme) option" where
  "minmax_main call scan argv a loc = minmax_program (\<lambda>indata ndata low high outdata.
     vaccel_minmax call (Some a) indata (of_int ndata) (of_int low) (of_int high) outdata (Some (loc 1)) (Some (loc 2))) scan argv a loc"

text \<open>The type of the operation, the length and the thresholds are at \<open>loc 0\<close>, \<open>loc 3\<close>, \<open>loc 4\<close> and \<open>loc 5\<close>.\<close>

definition minmax_generic_main :: "_ \<Rightarrow> (u8 list \<Rightarrow> nat \<Rightarrow> u64 option) \<Rightarrow> string list \<Rightarrow> addr \<Rightarrow> (nat \<Rightarrow> addr)
    \<Rightarrow> 'z tensor_state_scheme \<Rightarrow> (int \<times> 'z tensor_state_scheme) option" where
  "minmax_generic_main call scan argv a loc = minmax_program (\<lambda>indata ndata low high outdata s.
     let s = set_local (loc 0) (le_bytes 4 (of_nat VACCEL_MINMAX :: u32)) s;
         s = set_local (loc 3) (le_bytes 4 (of_int ndata :: u32)) s;
         s = set_local (loc 4) (le_bytes 4 (of_int low :: u32)) s;
         s = set_local (loc 5) (le_bytes 4 (of_int high :: u32)) s
     in vaccel_genop call (Some a)
       (Some [scalar 4 (loc 0), \<lparr>arg_size = of_int (ndata * 8), arg_buf = indata\<rparr>, scalar 4 (loc 3), scalar 4 (loc 4), scalar 4 (loc 5)]) 5
       (Some [\<lparr>arg_size = of_int (ndata * 8), arg_buf = outdata\<rparr>, scalar 8 (loc 1), scalar 8 (loc 2)]) 3 s) scan argv a loc"

subsection \<open>Filling the matrices\<close>

text \<open>An array that is filled from its start: the elements so far, and the bytes that are still as they were.\<close>

lemma words_append: "words (xs @ ys) = words xs @ words ys"
  by (simp add: words_def)

lemma store_next:
  assumes "mem s p = Some (words xs @ rest)" "4 \<le> length rest"
  shows "store_elem (Some p) (length xs) x s = Some (s\<lparr>mem := (mem s)(p \<mapsto> words (xs @ [x]) @ drop 4 rest)\<rparr>)"
  using assms by (simp add: store_elem_def store_at_def words_append) (simp add: words_def le_bytes_def)

lemma loop_upto: "loop body [0..<Suc n] s = Option.bind (loop body [0..<n] s) (body n)"
proof -
  have "loop body [] = Some" by (simp add: fun_eq_iff)
  then show ?thesis by (cases "loop body [0..<n] s") (simp_all add: loop_append)
qed

lemma set_twice: "s\<lparr>mem := (mem s)(p \<mapsto> x)\<rparr>\<lparr>mem := (mem (s\<lparr>mem := (mem s)(p \<mapsto> x)\<rparr>))(p \<mapsto> y)\<rparr> = s\<lparr>mem := (mem s)(p \<mapsto> y)\<rparr>"
proof -
  have "s\<lparr>mem := m\<rparr>\<lparr>mem := (mem (s\<lparr>mem := m\<rparr>))(p \<mapsto> y)\<rparr> = s\<lparr>mem := m(p \<mapsto> y)\<rparr>" for m by simp
  then show ?thesis by (simp only: fun_upd_upd)
qed

lemma fill_row:
  assumes "mem s p = Some (words xs @ rest)" "4 * n \<le> length rest"
  shows "loop (\<lambda>j. store_elem (Some p) (length xs + j) (f j)) [0..<n] s = Some (s\<lparr>mem := (mem s)(p \<mapsto> words (xs @ map f [0..<n]) @ drop (4 * n) rest)\<rparr>)"
  using assms(2)
proof (induction n)
  case 0
  then show ?case using assms(1) by (simp add: fun_upd_idem)
next
  case (Suc n)
  let ?t = "s\<lparr>mem := (mem s)(p \<mapsto> words (xs @ map f [0..<n]) @ drop (4 * n) rest)\<rparr>"
  let ?u = "?t\<lparr>mem := (mem ?t)(p \<mapsto> words ((xs @ map f [0..<n]) @ [f n]) @ drop 4 (drop (4 * n) rest))\<rparr>"
  have ih: "loop (\<lambda>j. store_elem (Some p) (length xs + j) (f j)) [0..<n] s = Some ?t" by (rule Suc.IH) (use Suc.prems in simp)
  have "store_elem (Some p) (length (xs @ map f [0..<n])) (f n) ?t = Some ?u" by (rule store_next) (use Suc.prems in simp_all)
  then have st: "store_elem (Some p) (length xs + n) (f n) ?t = Some ?u" by (simp only: length_append length_map length_upt diff_zero)
  have r: "drop 4 (drop (4 * n) rest) = drop (4 * Suc n) rest" by (simp add: add.commute)
  have x: "(xs @ map f [0..<n]) @ [f n] = xs @ map f [0..<Suc n]" by simp
  show ?case unfolding loop_upto ih bind.simps st set_twice unfolding r x ..
qed

definition matrix :: "(nat \<Rightarrow> nat \<Rightarrow> nat \<Rightarrow> u32) \<Rightarrow> nat \<Rightarrow> nat \<Rightarrow> nat \<Rightarrow> u32 list" where
  "matrix fq m rows ld = concat (map (\<lambda>i. map (\<lambda>j. fq i j m) [0..<ld]) [0..<rows])"

lemma length_matrix: "length (matrix fq m rows ld) = rows * ld"
  by (simp add: matrix_def length_concat o_def sum_list_triv)

lemma init_matrix_fills:
  assumes "mem s p = Some bs" "4 * (rows * ld) \<le> length bs"
  shows "init_matrix fq m rows ld (Some p) s = Some (s\<lparr>mem := (mem s)(p \<mapsto> words (matrix fq m rows ld) @ drop (4 * (rows * ld)) bs)\<rparr>)"
  using assms(2)
proof (induction rows)
  case 0
  then show ?case using assms(1) by (simp add: init_matrix_def matrix_def words_def fun_upd_idem)
next
  case (Suc rows)
  let ?xs = "matrix fq m rows ld" and ?rest = "drop (4 * (rows * ld)) bs"
  let ?t = "s\<lparr>mem := (mem s)(p \<mapsto> words ?xs @ ?rest)\<rparr>"
  have ih: "init_matrix fq m rows ld (Some p) s = Some ?t" by (rule Suc.IH) (use Suc.prems in simp)
  have row: "loop (\<lambda>j. store_elem (Some p) (length ?xs + j) (fq rows j m)) [0..<ld] ?t
      = Some (?t\<lparr>mem := (mem ?t)(p \<mapsto> words (?xs @ map (\<lambda>j. fq rows j m) [0..<ld]) @ drop (4 * ld) ?rest)\<rparr>)"
    by (rule fill_row) (use Suc.prems in simp_all)
  have step: "init_matrix fq m (Suc rows) ld (Some p) s = Option.bind (init_matrix fq m rows ld (Some p) s) (loop (\<lambda>j. store_elem (Some p) (length ?xs + j) (fq rows j m)) [0..<ld])"
    by (simp only: init_matrix_def loop_upto length_matrix)
  have xs: "?xs @ map (\<lambda>j. fq rows j m) [0..<ld] = matrix fq m (Suc rows) ld" by (simp add: matrix_def)
  have rest: "drop (4 * ld) ?rest = drop (4 * (Suc rows * ld)) bs" by (simp add: add.commute distrib_left)
  show ?case unfolding step ih bind.simps row set_twice unfolding xs rest ..
qed

lemma nth_matrix:
  assumes "i < rows" "j < ld"
  shows "matrix fq m rows ld ! (i * ld + j) = fq i j m"
  using assms(1)
proof (induction rows)
  case (Suc rows)
  have m: "matrix fq m (Suc rows) ld = matrix fq m rows ld @ map (\<lambda>j. fq rows j m) [0..<ld]" by (simp add: matrix_def)
  show ?case
  proof (cases "i = rows")
    case True
    then show ?thesis using assms(2) by (simp add: m nth_append length_matrix)
  next
    case False
    then have i: "i < rows" using Suc.prems by simp
    have "i * ld + j < Suc i * ld" using assms(2) by simp
    also have "\<dots> \<le> rows * ld" using i by (intro mult_le_mono1) simp
    finally show ?thesis using Suc.IH [OF i] by (simp add: m nth_append length_matrix)
  qed
qed simp

end
