(* ===== verification/Numeric_Run.thy ===== *)
theory Numeric_Run
  imports Numeric_Examples Resource_Run
begin

text \<open>
  What the programs of \<open>Numeric_Examples\<close> do with the memory they allocate: \<^verbatim>\<open>minmax\<close> gives all of it back, whatever
  fails, and \<^verbatim>\<open>sgemm_generic\<close> keeps a matrix when it cannot allocate the next one.
\<close>

subsection \<open>Minimum and maximum\<close>

text \<open>The session of \<^verbatim>\<open>minmax\<close> with the noop plugin touches only the output array and the two results.\<close>

lemma noop_minmax_writes:
  assumes f: "find_op VACCEL_MINMAX a s = Some (noop_function VACCEL_MINMAX)" and se: "s_mem s a = Some se"
    and m: "mem s p = Some bs" "length bs = 8 * n" "mem s q = Some cs" "length cs = 8 * n" "mem s x = Some b1" "8 \<le> length b1" "mem s y = Some b2" "8 \<le> length b2"
    and d: "distinct [q, x, y]" and n: "int n < 2 ^ 31"
  shows "\<exists>t. vaccel_minmax (noop_call fadd) (Some a) (Some p) (of_nat n) lo hi (Some q) (Some x) (Some y) s = Some (0, t) \<and> t = s\<lparr>mem := mem t\<rparr>
    \<and> (\<forall>z. z \<notin> {q, x, y} \<longrightarrow> mem t z = mem s z) \<and> mem t q \<noteq> None \<and> load 8 (Some x) t \<noteq> None \<and> load 8 (Some y) t \<noteq> None"
proof -
  have c: "noop_function VACCEL_MINMAX = Some 12" by code_simp
  have "unat (of_nat n :: u32) = n" using n by (simp add: unsigned_of_nat take_bit_nat_eq_self)
  moreover have "sint (of_nat n :: u32) = int n" using n by (simp add: signed_of_nat signed_take_bit_int_eq_self)
  ultimately have i: "0 \<le> sint (of_nat n :: u32)" "unat (of_nat n :: u32) = n" by simp_all
  let ?r = "le_bytes 8 (0xBFF0000000000000 :: u64)" and ?l = "le_bytes 8 (0x40C3880000000000 :: u64)"
  have len: "length ?r = 8" "length ?l = 8" by (simp_all add: le_bytes_def)
  let ?m1 = "(mem s)(q \<mapsto> bs)"
  let ?m2 = "?m1(y \<mapsto> ?r @ drop 8 b2)"
  let ?m3 = "?m2(x \<mapsto> ?l @ drop 8 b1)"
  have 1: "memcpy (Some q) (Some p) (unat (of_nat n :: u32) * 8) s = Some (s\<lparr>mem := ?m1\<rparr>)"
    using m(1-4) i(2) by (simp add: memcpy_def load_at_def store_at_def mult.commute)
  have 2: "store_at (Some y) 0 ?r (s\<lparr>mem := ?m1\<rparr>) = Some (s\<lparr>mem := ?m2\<rparr>)" using m(7,8) d len by (simp add: store_at_def)
  have 3: "store_at (Some x) 0 ?l (s\<lparr>mem := ?m2\<rparr>) = Some (s\<lparr>mem := ?m3\<rparr>)" using m(5,6) d len by (simp add: store_at_def)
  have "vaccel_minmax (noop_call fadd) (Some a) (Some p) (of_nat n) lo hi (Some q) (Some x) (Some y) s
      = noop_minmax (Some a) (Some p) (of_nat n) (Some q) (Some x) (Some y) s"
    using f c by (simp add: vaccel_minmax_def dispatch_def noop_call_def)
  also have "\<dots> = Some (0, s\<lparr>mem := ?m3\<rparr>)" using se i(1) 1 2 3 by (simp add: noop_minmax_def session_of_def)
  finally show ?thesis using d len by (intro exI [of _ "s\<lparr>mem := ?m3\<rparr>"]) (simp add: load_def)
qed

text \<open>What \<^verbatim>\<open>minmax\<close> needs of the library: a session can be asked for, and the noop plugin serves the operation.\<close>

definition minmax_env :: "addr \<Rightarrow> addr \<Rightarrow> addr \<Rightarrow> 'z ops_state_scheme \<Rightarrow> bool" where
  "minmax_env a x y s \<longleftrightarrow> (\<exists>R. plug_ok s R) \<and> (\<forall>h. get_plugin_op VACCEL_MINMAX h s = Some (noop_function VACCEL_MINMAX))
     \<and> (\<exists>b1 b2. mem s x = Some b1 \<and> 8 \<le> length b1 \<and> mem s y = Some b2 \<and> 8 \<le> length b2) \<and> x \<noteq> y
     \<and> s_mem s a \<noteq> None \<and> (\<forall>j. \<not> runs_at s j a) \<and> free_ids (s_ids s) \<noteq> []"

lemma minmax_env_plugins:
  assumes "minmax_env a x y s" "plugins t = plugins s" "ops t = ops s" "p_links t = p_links s" "s_mem t a = Some se"
  shows "find_op VACCEL_MINMAX a t = Some (noop_function VACCEL_MINMAX)"
proof -
  obtain R where R: "plug_ok s R" "\<And>h. get_plugin_op VACCEL_MINMAX h s = Some (noop_function VACCEL_MINMAX)" using assms(1) by (auto simp: minmax_env_def)
  have "get_plugin_op VACCEL_MINMAX h t = get_plugin_op VACCEL_MINMAX h s" for h by (rule get_plugin_op_cong [OF R(1) _ assms(2-4)]) simp
  then show ?thesis using R(2) assms(5) by (simp add: find_op_def)
qed

lemma minmax_env_outside:
  assumes "minmax_env a x y s" "outside s t" "mem t x = mem s x" "mem t y = mem s y"
  shows "minmax_env a x y t"
proof -
  note O = outsideD [OF assms(2)]
  obtain R where R: "plug_ok s R" using assms(1) by (auto simp: minmax_env_def)
  have "get_plugin_op VACCEL_MINMAX h t = get_plugin_op VACCEL_MINMAX h s" for h by (rule get_plugin_op_cong [OF R _ O(1-3)]) simp
  moreover have "plug_ok t R" using R O by (simp add: plug_ok_def)
  ultimately show ?thesis using assms(1,3,4) O unfolding minmax_env_def runs_at_def by auto
qed

lemma minmax_session_ok:
  fixes fadd :: "u32 \<Rightarrow> u32 \<Rightarrow> u32"
  assumes ok: "lib_ok s L G" and env: "minmax_env a (loc 1) (loc 2) s" and n: "0 \<le> n" "n < 2 ^ 31"
    and m: "mem s p = Some bs" "length bs = 8 * nat n" "mem s q = Some cs" "length cs = 8 * nat n" "q \<notin> {loc 1, loc 2}"
  defines "op \<equiv> \<lambda>indata ndata low high outdata. vaccel_minmax (noop_call fadd) (Some a) indata (of_int ndata) (of_int low) (of_int high) outdata (Some (loc 1)) (Some (loc 2))"
  shows "\<exists>ret t G. minmax_session op a loc (Some p) n lo hi (Some q) s = Some (ret, t) \<and> lib_ok t L G
    \<and> (\<forall>z. z \<notin> {q, loc 1, loc 2} \<longrightarrow> mem t z = mem s z) \<and> mem t q \<noteq> None \<and> (ret = 0 \<longrightarrow> free_ids (s_ids t) = free_ids (s_ids s) \<and> running t = running s)"
proof -
  note E = env [unfolded minmax_env_def]
  obtain i F se where iF: "free_ids (s_ids s) = i # F" "s_mem s a = Some se" using E by (auto simp: neq_Nil_conv)
  have idle: "\<not> runs_at s j a" for j using E by blast
  let ?j = "nat (i - 1)"
  obtain ret s1 where 1: "vaccel_sess_init (Some a) 0 s = Some (ret, s1)" "sessions_only s s1"
    "if ret \<noteq> 0 then lib_ok s1 L G else in_session L (no_regs G (alloc_next (os s))) a ?j (alloc_next (os s)) s1
        \<and> regs_of s1 = regs_of s \<and> free_ids (s_ids s1) = F \<and> running s1 = (running s)[?j := Some a] \<and> running s ! ?j = None \<and> int ?j + 1 = i"
    using use_init [OF ok iF(2) idle iF(1), of 0] by auto
  note M = mem_sessions(1) [OF 1(2)]
  show ?thesis
  proof (cases "ret = 0")
    case False
    then show ?thesis using 1 M m by (intro exI [of _ ret] exI [of _ s1] exI [of _ G]) (simp add: minmax_session_def)
  next
    case True
    then obtain r G1 where s1: "in_session L G1 a ?j r s1" "free_ids (s_ids s1) = F" "running s1 = (running s)[?j := Some a]" "running s ! ?j = None" "int ?j + 1 = i"
      using 1(3) by auto
    obtain se1 where se1: "s_mem s1 a = Some se1" by (rule in_sessionD [OF s1(1)])
    have f: "find_op VACCEL_MINMAX a s1 = Some (noop_function VACCEL_MINMAX)"
      by (rule minmax_env_plugins [OF env _ _ _ se1]) (use sessions_onlyD [OF 1(2)] in simp_all)
    obtain b1 b2 where b: "mem s1 (loc 1) = Some b1" "8 \<le> length b1" "mem s1 (loc 2) = Some b2" "8 \<le> length b2" using E M by auto
    have d: "distinct [q, loc 1, loc 2]" and nn: "int (nat n) < 2 ^ 31" using E m(5) n by auto
    obtain t where t: "op (Some p) n lo hi (Some q) s1 = Some (0, t)" "t = s1\<lparr>mem := mem t\<rparr>" "\<And>z. z \<notin> {q, loc 1, loc 2} \<Longrightarrow> mem t z = mem s1 z" "mem t q \<noteq> None"
      "load 8 (Some (loc 1)) t \<noteq> None" "load 8 (Some (loc 2)) t \<noteq> None"
      using noop_minmax_writes [OF f se1 m(1) [folded M] m(2) m(3) [folded M] m(4) b d nn, of fadd "of_int lo" "of_int hi"] n(1) unfolding op_def by auto
    have out: "outside s1 t" by (subst t(2)) simp
    note O = outsideD [OF out] and u = known_outside(5) [OF out s1(1)]
    obtain w G' where w: "vaccel_sess_free (Some a) t = Some (VACCEL_OK, w)" "sessions_only t w" "lib_ok w L G'"
      "free_ids (s_ids w) = (int ?j + 1) # free_ids (s_ids t)" "running w = (running t)[?j := None]" using use_free [OF u] by blast
    have "minmax_session op a loc (Some p) n lo hi (Some q) s = Some (0, w)" using 1(1) True t(1,5,6) w(1) by (auto simp: minmax_session_def and_print_def)
    moreover have "mem w = mem t" by (rule mem_sessions(1) [OF w(2)])
    moreover have "running w = running s" using w(5) O(14) s1(3,4) list_update_id [of "running s" ?j] by simp
    ultimately show ?thesis using w(3,4) O(13) s1(2,5) iF(1) t(3,4) M by (intro exI [of _ 0] exI [of _ w] exI [of _ G']) simp
  qed
qed

lemma scan_doubles_ok:
  assumes "mem s p = Some bs" "\<And>i. i \<in> set is \<Longrightarrow> 8 * i + 8 \<le> length bs"
  shows "\<exists>r bs'. scan_doubles scan f (Some p) is s = Some (r, s\<lparr>mem := (mem s)(p \<mapsto> bs')\<rparr>) \<and> length bs' = length bs"
  using assms
proof (induction "is" arbitrary: s bs)
  case Nil
  then show ?case by (intro exI [of _ True] exI [of _ bs]) (simp add: fun_upd_idem)
next
  case (Cons i "is")
  show ?case
  proof (cases "case f of File c \<Rightarrow> scan c i | Dir \<Rightarrow> None")
    case None
    then show ?thesis using Cons.prems(1) by (intro exI [of _ False] exI [of _ bs]) (simp add: fun_upd_idem)
  next
    case (Some x)
    let ?bs = "take (8 * i) bs @ le_bytes 8 x @ drop (8 * i + 8) bs"
    let ?t = "s\<lparr>mem := (mem s)(p \<mapsto> ?bs)\<rparr>"
    have i: "8 * i + 8 \<le> length bs" by (rule Cons.prems(2)) simp
    have l: "length ?bs = length bs" using i by (simp add: le_bytes_def)
    have st: "store_at (Some p) (8 * i) (le_bytes 8 x) s = Some ?t" using Cons.prems(1) i by (simp add: store_at_def le_bytes_def)
    have m: "mem ?t p = Some ?bs" by simp
    have b: "8 * j + 8 \<le> length ?bs" if "j \<in> set is" for j unfolding l by (rule Cons.prems(2)) (use that in simp)
    obtain r bs' where r: "scan_doubles scan f (Some p) is ?t = Some (r, ?t\<lparr>mem := (mem ?t)(p \<mapsto> bs')\<rparr>)" "length bs' = length ?bs" using Cons.IH [OF m b] by blast
    then have "scan_doubles scan f (Some p) (i # is) s = Some (r, s\<lparr>mem := (mem s)(p \<mapsto> bs')\<rparr>)" using Some st set_twice [of s p ?bs bs'] by simp
    then show ?thesis using r(2) unfolding l by blast
  qed
qed

lemma fopen_r_outside: "os_call (fopen_r path) s = (fp, t) \<Longrightarrow> outside s t \<and> mem t = mem s \<and> alloc_next (os t) = alloc_next (os s)"
  by (auto simp: os_call_def fopen_r_def sys_call_def split: prod.splits if_splits intro!: outside_os)

text \<open>The range of a length, and the size of its block.\<close>

lemma defined_below: "Option.bind (defined (k \<le> i \<and> i < m)) (\<lambda>_. Some i) = Some j \<Longrightarrow> j < m"
  by (simp split: if_splits)

lemma atoi_below: "atoi str = Some i \<Longrightarrow> i < 2 ^ 31"
  unfolding atoi_def Let_def by (rule defined_below)

lemma unat_bytes:
  assumes "0 \<le> n" "n < 2 ^ 31"
  shows "unat (of_int (n * 8) :: u64) = 8 * nat n"
proof -
  have "uint (of_int k :: u64) = take_bit 64 k" for k by (simp add: unsigned_of_int)
  then have "uint (of_int (n * 8) :: u64) = take_bit 64 (n * 8)" .
  also have "\<dots> = n * 8" by (rule take_bit_int_eq_self) (use assms in simp_all)
  finally show ?thesis using assms(1) by (simp only: unat_eq_nat_uint)
qed

text \<open>A new block of a given size.\<close>

lemma malloc_bytes_new:
  assumes "mem_fresh s" "malloc_bytes n s = (p, t)"
  shows "outside s t" "mem_fresh t" "p = None \<Longrightarrow> mem t = mem s"
    "p = Some b \<Longrightarrow> mem s b = None \<and> (\<exists>bs. mem t = (mem s)(b \<mapsto> bs) \<and> length bs = unat n)"
proof -
  note o = malloc_bytes_outside [OF assms(2)]
  show "outside s t" "p = None \<Longrightarrow> mem t = mem s" using o by auto
  have al: "alloc_next (os t) = Suc (alloc_next (os s))" using assms(2) by (auto simp: malloc_bytes_def os_call_def malloc_def split: if_splits)
  have "mem t x = mem s x" if "alloc_next (os s) < x" for x using o(2) that by (cases p) auto
  then show "mem_fresh t" using assms(1) al by (simp add: mem_fresh_def)
  show "p = Some b \<Longrightarrow> mem s b = None \<and> (\<exists>bs. mem t = (mem s)(b \<mapsto> bs) \<and> length bs = unat n)"
    using assms by (auto simp: malloc_bytes_def os_call_def malloc_def mem_fresh_def split: if_splits)
qed

lemma minmax_run_ok:
  fixes fadd :: "u32 \<Rightarrow> u32 \<Rightarrow> u32"
  assumes ok: "lib_ok s L G" and env: "minmax_env a (loc 1) (loc 2) s" and n: "0 < n" "n < 2 ^ 31" and fresh: "mem_fresh s"
    and p: "mem s p = Some bs" "length bs = 8 * nat n" "p \<notin> {loc 1, loc 2}" and at: "atoi low = Some lo" "atoi high = Some hi"
  defines "op \<equiv> \<lambda>indata ndata low high outdata. vaccel_minmax (noop_call fadd) (Some a) indata (of_int ndata) (of_int low) (of_int high) outdata (Some (loc 1)) (Some (loc 2))"
  shows "\<exists>ret t G. minmax_run op scan path low high a loc n (Some p) s = Some (ret, t) \<and> lib_ok t L G
    \<and> (\<forall>z. z \<notin> {loc 1, loc 2} \<longrightarrow> mem t z = ((mem s)(p := None)) z) \<and> (ret = 0 \<longrightarrow> free_ids (s_ids t) = free_ids (s_ids s) \<and> running t = running s)"
proof -
  obtain fp s1 where 1: "os_call (fopen_r path) s = (fp, s1)" by fastforce
  note o1 = fopen_r_outside [OF 1]
  have fail: "\<exists>ret t G. Option.bind (free_bytes (Some p) u) (\<lambda>s. Some (VACCEL_EIO, s)) = Some (ret, t) \<and> lib_ok t L G
    \<and> (\<forall>z. z \<notin> {loc 1, loc 2} \<longrightarrow> mem t z = ((mem s)(p := None)) z) \<and> (ret = 0 \<longrightarrow> free_ids (s_ids t) = free_ids (s_ids s) \<and> running t = running s)"
    if u: "outside s u" "mem u = (mem s)(p \<mapsto> b)" for u b
  proof -
    have "lib_ok (u\<lparr>mem := (mem u)(p := None)\<rparr>) L G" by (rule lib_outside [OF ok outside_trans [OF u(1) outside_mem]])
    then show ?thesis using u(2) by (intro exI [of _ VACCEL_EIO] exI [of _ "u\<lparr>mem := (mem u)(p := None)\<rparr>"] exI [of _ G]) (simp add: free_bytes_def)
  qed
  show ?thesis
  proof (cases fp)
    case None
    have "mem s1 = (mem s)(p \<mapsto> bs)" using o1 p(1) by (simp add: fun_upd_idem)
    then show ?thesis using fail [of s1 bs] o1 1 None by (simp add: minmax_run_def)
  next
    case (Some f)
    have m1: "mem s1 p = Some bs" using o1 p(1) by simp
    have len: "8 * i + 8 \<le> length bs" if "i \<in> set [0..<nat n]" for i using that p(2) by simp
    obtain r bs' where 2: "scan_doubles scan f (Some p) [0..<nat n] s1 = Some (r, s1\<lparr>mem := (mem s1)(p \<mapsto> bs')\<rparr>)" "length bs' = length bs"
      using scan_doubles_ok [OF m1 len] by blast
    define s2 where "s2 = s1\<lparr>mem := (mem s1)(p \<mapsto> bs')\<rparr>"
    have o2: "outside s s2" unfolding s2_def by (rule outside_trans [OF _ outside_mem]) (use o1 in simp)
    have m2: "mem s2 = (mem s)(p \<mapsto> bs')" using o1 by (simp add: s2_def)
    show ?thesis
    proof (cases r)
      case False
      then show ?thesis using fail [OF o2 m2] 1 2(1) Some by (simp add: minmax_run_def s2_def)
    next
      case True
      have "\<not> alloc_next (os s) \<le> p" using fresh p(1) by (auto simp: mem_fresh_def)
      then have f2: "mem_fresh s2" using fresh o1 m2 by (simp add: mem_fresh_def s2_def)
      obtain q s3 where 3: "malloc_bytes (of_int (n * 8)) s2 = (q, s3)" by fastforce
      note new = malloc_bytes_new [OF f2 3]
      have o3: "outside s s3" by (rule outside_trans [OF o2 new(1)])
      let ?rest = "\<lambda>x. Option.bind x (\<lambda>(ret, s). Option.bind (free_bytes q s) (\<lambda>s. Option.bind (free_bytes (Some p) s) (\<lambda>s. Some (ret, s))))"
      have run: "minmax_run op scan path low high a loc n (Some p) s
          = ?rest (if q = None then Some (VACCEL_ENOMEM, s3) else minmax_session op a loc (Some p) n lo hi q s3)"
        using 1 2(1) Some True 3 at by (simp add: minmax_run_def s2_def)
      show ?thesis
      proof (cases q)
        case None
        have l3: "lib_ok (s3\<lparr>mem := (mem s3)(p := None)\<rparr>) L G" by (rule lib_outside [OF ok outside_trans [OF o3 outside_mem]])
        have m3: "mem s3 = (mem s)(p \<mapsto> bs')" using new(3) None m2 by simp
        have "minmax_run op scan path low high a loc n (Some p) s = Some (VACCEL_ENOMEM, s3\<lparr>mem := (mem s3)(p := None)\<rparr>)"
          unfolding run using None m3 by (simp add: free_bytes_def)
        then show ?thesis using l3 m3 by (intro exI [of _ VACCEL_ENOMEM] exI [of _ "s3\<lparr>mem := (mem s3)(p := None)\<rparr>"] exI [of _ G]) simp
      next
        case (Some b)
        obtain cs where b: "mem s2 b = None" "mem s3 = (mem s2)(b \<mapsto> cs)" "length cs = unat (of_int (n * 8) :: u64)" using new(4) [OF Some] by blast
        have lc: "length cs = 8 * nat n" unfolding b(3) using n by (intro unat_bytes) simp_all
        have bp: "b \<noteq> p" "b \<notin> {loc 1, loc 2}" using b(1) m2 env by (auto simp: minmax_env_def split: if_splits)
        have env3: "minmax_env a (loc 1) (loc 2) s3" by (rule minmax_env_outside [OF env o3]) (use b(2) m2 bp p(3) in auto)
        have p3: "mem s3 p = Some bs'" "mem s3 b = Some cs" using b(2) m2 bp by simp_all
        obtain ret t G' where 4: "minmax_session op a loc (Some p) n lo hi (Some b) s3 = Some (ret, t)" "lib_ok t L G'" "\<And>z. z \<notin> {b, loc 1, loc 2} \<Longrightarrow> mem t z = mem s3 z"
          "mem t b \<noteq> None" "ret = 0 \<Longrightarrow> free_ids (s_ids t) = free_ids (s_ids s3) \<and> running t = running s3"
          using minmax_session_ok [OF lib_outside [OF ok o3] env3 _ n(2) p3(1) _ p3(2) lc bp(2), of fadd lo hi] n(1) 2(2) p(2) unfolding op_def by auto
        let ?t = "t\<lparr>mem := (mem t)(b := None, p := None)\<rparr>"
        have tp: "mem t p \<noteq> None" using 4(3) [of p] bp p(3) p3(1) by auto
        have "minmax_run op scan path low high a loc n (Some p) s = Some (ret, ?t)"
          unfolding run using Some 4(1,4) tp bp(1) by (simp add: free_bytes_def)
        moreover have "lib_ok ?t L G'" by (rule lib_outside [OF 4(2) outside_mem])
        moreover have "mem ?t z = ((mem s)(p := None)) z" if "z \<notin> {loc 1, loc 2}" for z
          using 4(3) [of z] that b(1,2) m2 by (cases "z = b") auto
        ultimately show ?thesis using 4(5) outsideD(13,14) [OF o3] by (intro exI [of _ ret] exI [of _ ?t] exI [of _ G']) simp
      qed
    qed
  qed
qed

subsection \<open>Properties\<close>

text \<open>
  \<^verbatim>\<open>init\<close> of the matrix examples stays inside its three arrays and fills them row by row: for blocks of exactly the
  size of the matrices, element \<open>(i, j)\<close> of each is at index \<open>i * ld + j\<close> and has the value that the program computes for it, and nothing else is written.
\<close>

theorem init_matrices_correct:
  assumes "mem s a = Some as" "length as = 4 * (m * k)" "mem s b = Some bs" "length bs = 4 * (k * n)" "mem s c = Some cs" "length cs = 4 * (m * n)"
    "distinct [a, b, c]"
  shows "\<exists>A B C. init_matrices fq m n k (Some a) (Some b) (Some c) s = Some (s\<lparr>mem := (mem s)(a \<mapsto> words A, b \<mapsto> words B, c \<mapsto> words C)\<rparr>)
    \<and> length A = m * k \<and> length B = k * n \<and> length C = m * n
    \<and> (\<forall>i<m. \<forall>j<k. A ! (i * k + j) = fq i j m) \<and> (\<forall>i<k. \<forall>j<n. B ! (i * n + j) = fq i j m) \<and> (\<forall>i<m. \<forall>j<n. C ! (i * n + j) = fq i j m)"
proof -
  let ?A = "matrix fq m m k" and ?B = "matrix fq m k n" and ?C = "matrix fq m m n"
  let ?s1 = "s\<lparr>mem := (mem s)(a \<mapsto> words ?A)\<rparr>"
  let ?s2 = "?s1\<lparr>mem := (mem ?s1)(b \<mapsto> words ?B)\<rparr>"
  have 1: "init_matrix fq m m k (Some a) s = Some ?s1" using init_matrix_fills [of s a as m k fq m] assms(1,2) by simp
  have 2: "init_matrix fq m k n (Some b) ?s1 = Some ?s2" using init_matrix_fills [of ?s1 b bs k n fq m] assms(3,4,7) by simp
  have "init_matrix fq m m n (Some c) ?s2 = Some (?s2\<lparr>mem := (mem ?s2)(c \<mapsto> words ?C)\<rparr>)" using init_matrix_fills [of ?s2 c cs m n fq m] assms(5-7) by simp
  then show ?thesis using 1 2 length_matrix nth_matrix
    by (intro exI [of _ ?A] exI [of _ ?B] exI [of _ ?C]) (simp add: init_matrices_def)
qed

theorem init_matrices_correct_witness:
  "\<exists>t A. init_matrices (\<lambda>i j m. of_nat (i * j)) 2 2 2 (Some 0) (Some 1) (Some 2) (res_client\<lparr>mem := \<lambda>_. Some (replicate 16 0)\<rparr>) = Some t
    \<and> mem t 0 = Some (words A) \<and> A ! 3 = 1"
proof -
  let ?s = "res_client\<lparr>mem := \<lambda>_. Some (replicate 16 0)\<rparr>"
  have m: "mem ?s x = Some (replicate 16 0)" "length (replicate 16 (0 :: u8)) = 4 * (2 * 2)" for x by simp_all
  obtain A B C where A: "init_matrices (\<lambda>i j m. of_nat (i * j)) 2 2 2 (Some 0) (Some 1) (Some 2) ?s = Some (?s\<lparr>mem := (mem ?s)(0 \<mapsto> words A, 1 \<mapsto> words B, 2 \<mapsto> words C)\<rparr>)"
    "\<forall>i<2. \<forall>j<2. A ! (i * 2 + j) = of_nat (i * j)"
    using init_matrices_correct [OF m(1,2) m(1,2) m(1,2), of 0 1 2 "\<lambda>i j m. of_nat (i * j)"] by auto
  have "A ! (1 * 2 + 1) = of_nat (1 * 1)" using A(2) by (metis one_less_numeral_iff semiring_norm(76))
  then show ?thesis using A(1) by (intro exI [of _ A] exI) (auto simp: numeral_3_eq_3)
qed

text \<open>
  C32. \<^verbatim>\<open>minmax\<close> gives back the memory it allocates on every path. With the noop plugin it always returns, whether an allocation, opening the file, reading a number,
  starting the session or the operation fails, and afterwards every block but the two local results is as before: no array is leaked, freed twice or left changed.
  The library still satisfies its invariant, and after a success the session is gone.
\<close>

theorem minmax_returns_memory:
  assumes "lib_ok s L G" "minmax_env a (loc 1) (loc 2) s" "mem_fresh s" "atoi n = Some nd" "atoi low = Some lo" "atoi high = Some hi"
  shows "\<exists>ret t G. minmax_main (noop_call fadd) scan [prog, n, path, low, high] a loc s = Some (ret, t) \<and> lib_ok t L G
    \<and> (\<forall>z. z \<notin> {loc 1, loc 2} \<longrightarrow> mem t z = mem s z) \<and> (ret = 0 \<longrightarrow> free_ids (s_ids t) = free_ids (s_ids s) \<and> running t = running s)"
proof -
  have nd: "nd < 2 ^ 31" by (rule atoi_below [OF assms(4)])
  show ?thesis
  proof (cases "nd \<le> 0")
    case True
    then show ?thesis using assms(1,4) by (intro exI [of _ 1] exI [of _ s] exI [of _ G]) (simp add: minmax_main_def minmax_program_def)
  next
    case False
    obtain p s1 where 1: "malloc_bytes (of_int (nd * 8)) s = (p, s1)" by fastforce
    note new = malloc_bytes_new [OF assms(3) 1]
    have ok1: "lib_ok s1 L G" by (rule lib_outside [OF assms(1) new(1)])
    show ?thesis
    proof (cases p)
      case None
      then show ?thesis using False assms(4) 1 new(3) ok1 outsideD(13,14) [OF new(1)]
        by (intro exI [of _ VACCEL_ENOMEM] exI [of _ s1] exI [of _ G]) (simp add: minmax_main_def minmax_program_def)
    next
      case (Some b)
      obtain bs where b: "mem s b = None" "mem s1 = (mem s)(b \<mapsto> bs)" "length bs = unat (of_int (nd * 8) :: u64)" using new(4) [OF Some] by blast
      have l: "length bs = 8 * nat nd" unfolding b(3) using False nd by (intro unat_bytes) simp_all
      have bl: "b \<notin> {loc 1, loc 2}" using b(1) assms(2) by (auto simp: minmax_env_def)
      have env1: "minmax_env a (loc 1) (loc 2) s1" by (rule minmax_env_outside [OF assms(2) new(1)]) (use b(2) bl in auto)
      have m1: "mem s1 b = Some bs" using b(2) by simp
      have undone: "(mem s1)(b := None) = mem s" using b(1,2) by (simp add: fun_upd_idem)
      show ?thesis using minmax_run_ok [OF ok1 env1 _ nd new(2) m1 l bl assms(5,6), where fadd = fadd and scan = scan and path = path] False assms(4) 1 Some outsideD(13,14) [OF new(1)]
        unfolding undone by (simp add: minmax_main_def minmax_program_def)
    qed
  qed
qed

theorem minmax_returns_memory_witness:
  "\<exists>s ret t. minmax_main (noop_call (+)) (\<lambda>c i. Some 7) [''minmax'', ''2'', ''/m'', ''1'', ''9''] 20 ((+) 22) (s :: noop_state) = Some (ret, t)
    \<and> (\<forall>z. z \<notin> {23, 24} \<longrightarrow> mem t z = mem s z)"
proof -
  obtain h R where h: "plug_ok (res_client\<lparr>p_links := h\<rparr>) R"
    "\<And>t hnt. t < VACCEL_FUNCTIONS_NR \<Longrightarrow> r_impls no_plugins t = [] \<Longrightarrow> get_plugin_op t hnt (res_client\<lparr>p_links := h\<rparr>) = Some (noop_function t)"
    by (rule noop_init_ok [OF res_client(8,9)]) (rule that)
  let ?s = "res_client\<lparr>p_links := h\<rparr>"
  have a: "atoi ''2'' = Some 2" "atoi ''1'' = Some 1" "atoi ''9'' = Some 9" by code_simp+
  have "get_plugin_op VACCEL_MINMAX hnt ?s = Some (noop_function VACCEL_MINMAX)" for hnt using h(2) by (simp add: no_plugins_def)
  then have env: "minmax_env 20 (22 + 1) (22 + 2) ?s"
    using h(1) res_client(4,5,6,10,11) [where h = h] unfolding minmax_env_def by (intro conjI exI [of _ R] exI [of _ "replicate 512 0"]) simp_all
  have "\<exists>ret t. minmax_main (noop_call (+)) (\<lambda>c i. Some 7) [''minmax'', ''2'', ''/m'', ''1'', ''9''] 20 ((+) 22) ?s = Some (ret, t)
    \<and> (\<forall>z. z \<notin> {23, 24} \<longrightarrow> mem t z = mem ?s z)"
    using minmax_returns_memory [OF res_client(1) env res_client(7) a, of "(+)" "\<lambda>c i. Some 7" "''minmax''" "''/m''"] by fastforce
  then show ?thesis by blast
qed

text \<open>
  \<^verbatim>\<open>sgemm_generic\<close> leaks its first matrix: when memory runs out at the second one, the program frees the pointer it has not got and returns
  \<^verbatim>\<open>VACCEL_ENOMEM\<close> with the block of the first one still allocated.
\<close>

theorem sgemm_generic_leaks:
  assumes "alloc_ok (os s) (alloc_next (os s))" "\<not> alloc_ok (os s) (Suc (alloc_next (os s)))" "mem s (alloc_next (os s)) = None"
  shows "\<exists>t. sgemm_generic_main call fq [prog] a loc s = Some (VACCEL_ENOMEM, t) \<and> mem t (alloc_next (os s)) \<noteq> None \<and> dom (mem t) = insert (alloc_next (os s)) (dom (mem s))"
  using assms by (simp add: sgemm_generic_main_def open_results_def malloc_bytes_def os_call_def malloc_def free_bytes_def)

theorem sgemm_generic_leaks_witness:
  "\<exists>s t. sgemm_generic_main (noop_call (+)) (\<lambda>_ _ _. 0) [''sgemm_generic''] 20 id (s :: noop_state) = Some (VACCEL_ENOMEM, t) \<and> dom (mem t) = insert 200 (dom (mem s))"
proof -
  let ?s = "res_client\<lparr>os := client_os\<lparr>alloc_ok := \<lambda>n. n = 200\<rparr>\<rparr>"
  have n: "alloc_next client_os = 200" by (simp add: client_os_def)
  have "mem ?s 200 = None" using res_client(7) [where h = "p_links res_client"] n
    by (simp add: mem_fresh_def res_client_def tensor_state.defs ops_state.defs prof_state.defs obj_state.defs)
  then obtain t where "sgemm_generic_main (noop_call (+)) (\<lambda>_ _ _. 0) [''sgemm_generic''] 20 id ?s = Some (VACCEL_ENOMEM, t)" "dom (mem t) = insert 200 (dom (mem ?s))"
    using sgemm_generic_leaks [of ?s "noop_call (+)" "\<lambda>_ _ _. 0" "''sgemm_generic''" 20 id] n by auto
  then show ?thesis by (intro exI [of _ ?s] exI [of _ t] conjI)
qed

end
