(* ===== verification/Logging.thy ===== *)
theory Logging
  imports Examples
begin

text \<open>
  Setting the log up (\<^verbatim>\<open>src/src/log.c\<close>) from the environment, with the part of the logging library that it uses
  (\<^verbatim>\<open>src/third-party/slog/src/slog.c\<close>): its configuration, which messages pass, and where they go.
\<close>

subsection \<open>The configuration of slog\<close>

type_synonym u16 = "16 word"

definition SLOG_NOTAG :: u16 where [simp]: "SLOG_NOTAG = 1"
definition SLOG_NOTE :: u16 where [simp]: "SLOG_NOTE = 2"
definition SLOG_INFO :: u16 where [simp]: "SLOG_INFO = 4"
definition SLOG_WARN :: u16 where [simp]: "SLOG_WARN = 8"
definition SLOG_DEBUG :: u16 where [simp]: "SLOG_DEBUG = 16"
definition SLOG_TRACE :: u16 where [simp]: "SLOG_TRACE = 32"
definition SLOG_ERROR :: u16 where [simp]: "SLOG_ERROR = 64"
definition SLOG_FATAL :: u16 where [simp]: "SLOG_FATAL = 128"
definition SLOG_NAME_MAX :: nat where [simp]: "SLOG_NAME_MAX = 256"

record slog_config =
  sFileName :: string
  sFilePath :: string
  nToScreen :: bool
  nToFile :: bool
  nFlags :: u16

text \<open>\<^verbatim>\<open>slog_init\<close> sets all fields, the name with \<^verbatim>\<open>snprintf\<close>.\<close>

definition slog_init :: "string \<Rightarrow> u16 \<Rightarrow> slog_config" where
  "slog_init name flags = \<lparr>sFileName = snd (snprintf (SLOG_NAME_MAX - 1) name), sFilePath = [], nToScreen = True, nToFile = False, nFlags = flags\<rparr>"

text \<open>Whether a message is printed at all, and to which file; the second part of the name is the date.\<close>

definition slog_passes :: "slog_config \<Rightarrow> u16 \<Rightarrow> bool" where
  "slog_passes cfg flag \<longleftrightarrow> nFlags cfg AND flag = flag \<and> (nToScreen cfg \<or> nToFile cfg)"

definition slog_path :: "slog_config \<Rightarrow> string \<Rightarrow> string option" where
  "slog_path cfg date = (if nToFile cfg
     then Some ((if sFilePath cfg \<noteq> [] then sFilePath cfg else ''.'') @ ''/'' @ (if sFileName cfg \<noteq> [] then sFileName cfg else ''slog'') @ ''-'' @ date @ ''.log'')
     else None)"

subsection \<open>The set-up\<close>

text \<open>The cases of the \<^verbatim>\<open>switch\<close> fall through from the highest level down.\<close>

definition level_flags :: "int \<Rightarrow> u16" where
  "level_flags level =
     (let n = (if level = 4 then SLOG_DEBUG else 0);
          n = (if level \<in> {3, 4} then n OR SLOG_INFO else n);
          n = (if level \<in> {2, 3, 4} then n OR SLOG_WARN else n)
      in if level \<in> {1, 2, 3, 4} then n OR SLOG_ERROR else n)"

definition set_debug_level :: "(string \<Rightarrow> string option) \<Rightarrow> slog_config \<Rightarrow> slog_config option" where
  "set_debug_level getenv cfg = (case getenv ''VACCEL_DEBUG_LEVEL'' of
       None \<Rightarrow> Some cfg
     | Some e \<Rightarrow> do { level \<leftarrow> atoi e; Some (cfg\<lparr>nFlags := level_flags level\<rparr>) })"

definition set_log_file :: "(string \<Rightarrow> string option) \<Rightarrow> slog_config \<Rightarrow> slog_config" where
  "set_log_file getenv cfg = (case getenv ''VACCEL_LOG_FILE'' of
       None \<Rightarrow> cfg
     | Some e \<Rightarrow>
       (let cfg = cfg\<lparr>sFileName := take (SLOG_NAME_MAX - 1) e\<rparr>
        in if sFileName cfg \<noteq> ''/dev/stdout'' \<and> sFileName cfg \<noteq> ''/dev/stderr'' then cfg\<lparr>nToFile := True, nToScreen := False\<rparr> else cfg))"

definition vaccel_log_init :: "(string \<Rightarrow> string option) \<Rightarrow> (int \<times> slog_config) option" where
  "vaccel_log_init getenv = do {
     cfg \<leftarrow> set_debug_level getenv (slog_init ''/dev/stdout'' 0);
     Some (VACCEL_OK, set_log_file getenv cfg) }"

subsection \<open>Properties\<close>

lemma level_flags_value:
  "level_flags level = (if level = 4 then 92 else if level = 3 then 76 else if level = 2 then 72 else if level = 1 then 64 else 0)"
  by (simp add: level_flags_def)

lemma level_flags_pass:
  "level_flags level AND SLOG_ERROR = SLOG_ERROR \<longleftrightarrow> level \<in> {1, 2, 3, 4}"
  "level_flags level AND SLOG_WARN = SLOG_WARN \<longleftrightarrow> level \<in> {2, 3, 4}"
  "level_flags level AND SLOG_INFO = SLOG_INFO \<longleftrightarrow> level \<in> {3, 4}"
  "level_flags level AND SLOG_DEBUG = SLOG_DEBUG \<longleftrightarrow> level = 4"
  "level_flags level AND SLOG_FATAL \<noteq> SLOG_FATAL" "level_flags level AND SLOG_TRACE \<noteq> SLOG_TRACE"
  by (cases "level = 4"; cases "level = 3"; cases "level = 2"; cases "level = 1"; simp add: level_flags_value)+

lemma set_log_file_fields:
  "nFlags (set_log_file getenv cfg) = nFlags cfg" "sFilePath (set_log_file getenv cfg) = sFilePath cfg"
  "nToScreen cfg \<or> nToFile cfg \<Longrightarrow> nToScreen (set_log_file getenv cfg) \<or> nToFile (set_log_file getenv cfg)"
  by (auto simp: set_log_file_def Let_def split: option.split)

text \<open>
  C34. The level in \<^verbatim>\<open>VACCEL_DEBUG_LEVEL\<close> selects the messages: after the set-up with level \<open>n\<close> errors pass from 1 on, warnings from 2, information from 3
  and debug messages at 4, but a level above 4 lets nothing pass, and neither fatal errors nor traces pass at any level. Messages go to the screen, unless
  \<^verbatim>\<open>VACCEL_LOG_FILE\<close> is set to another name than those of the standard output and error: then they go to a file and not to the screen, whose path starts with
  the current directory and continues with the first 255 characters of this name (or slog, when it is empty), the date and the suffix, so that an
  absolute path is taken as a relative one.
\<close>

theorem vaccel_log_init_correct:
  assumes "getenv ''VACCEL_DEBUG_LEVEL'' = Some e" "atoi e = Some level"
  shows "\<exists>cfg. vaccel_log_init getenv = Some (VACCEL_OK, cfg)
    \<and> (slog_passes cfg SLOG_ERROR \<longleftrightarrow> level \<in> {1, 2, 3, 4}) \<and> (slog_passes cfg SLOG_WARN \<longleftrightarrow> level \<in> {2, 3, 4})
    \<and> (slog_passes cfg SLOG_INFO \<longleftrightarrow> level \<in> {3, 4}) \<and> (slog_passes cfg SLOG_DEBUG \<longleftrightarrow> level = 4)
    \<and> \<not> slog_passes cfg SLOG_FATAL \<and> \<not> slog_passes cfg SLOG_TRACE
    \<and> (\<forall>date. slog_path cfg date = (case getenv ''VACCEL_LOG_FILE'' of None \<Rightarrow> None
        | Some f \<Rightarrow> let name = take 255 f in if name = ''/dev/stdout'' \<or> name = ''/dev/stderr'' then None
            else Some (''./'' @ (if name = [] then ''slog'' else name) @ ''-'' @ date @ ''.log'')))
    \<and> (\<forall>date. nToScreen cfg \<longleftrightarrow> slog_path cfg date = None)"
proof -
  define cfg where "cfg = set_log_file getenv ((slog_init ''/dev/stdout'' 0)\<lparr>nFlags := level_flags level\<rparr>)"
  have i: "vaccel_log_init getenv = Some (VACCEL_OK, cfg)" using assms by (simp add: vaccel_log_init_def set_debug_level_def cfg_def)
  have f: "nFlags cfg = level_flags level" "sFilePath cfg = []" "nToScreen cfg \<or> nToFile cfg"
    unfolding cfg_def using set_log_file_fields by (simp_all add: slog_init_def)
  have p: "slog_passes cfg flag \<longleftrightarrow> level_flags level AND flag = flag" for flag using f by (simp add: slog_passes_def)
  have path: "slog_path cfg date = (case getenv ''VACCEL_LOG_FILE'' of None \<Rightarrow> None
        | Some f \<Rightarrow> let name = take 255 f in if name = ''/dev/stdout'' \<or> name = ''/dev/stderr'' then None
            else Some (''./'' @ (if name = [] then ''slog'' else name) @ ''-'' @ date @ ''.log''))" for date
    by (cases "getenv ''VACCEL_LOG_FILE''") (simp_all add: cfg_def slog_path_def set_log_file_def slog_init_def Let_def)
  have screen: "nToScreen cfg \<longleftrightarrow> slog_path cfg date = None" for date
    by (cases "getenv ''VACCEL_LOG_FILE''") (simp_all add: cfg_def slog_path_def set_log_file_def slog_init_def Let_def)
  show ?thesis
  proof (rule exI [of _ cfg], intro conjI)
    show "vaccel_log_init getenv = Some (VACCEL_OK, cfg)" by (rule i)
    show "slog_passes cfg SLOG_ERROR \<longleftrightarrow> level \<in> {1, 2, 3, 4}" unfolding p by (rule level_flags_pass(1))
    show "slog_passes cfg SLOG_WARN \<longleftrightarrow> level \<in> {2, 3, 4}" unfolding p by (rule level_flags_pass(2))
    show "slog_passes cfg SLOG_INFO \<longleftrightarrow> level \<in> {3, 4}" unfolding p by (rule level_flags_pass(3))
    show "slog_passes cfg SLOG_DEBUG \<longleftrightarrow> level = 4" unfolding p by (rule level_flags_pass(4))
    show "\<not> slog_passes cfg SLOG_FATAL" unfolding p by (rule level_flags_pass(5))
    show "\<not> slog_passes cfg SLOG_TRACE" unfolding p by (rule level_flags_pass(6))
    show "\<forall>date. slog_path cfg date = (case getenv ''VACCEL_LOG_FILE'' of None \<Rightarrow> None
        | Some f \<Rightarrow> let name = take 255 f in if name = ''/dev/stdout'' \<or> name = ''/dev/stderr'' then None
            else Some (''./'' @ (if name = [] then ''slog'' else name) @ ''-'' @ date @ ''.log''))" by (rule allI) (rule path)
    show "\<forall>date. nToScreen cfg \<longleftrightarrow> slog_path cfg date = None" by (rule allI) (rule screen)
  qed
qed

theorem vaccel_log_init_correct_witness:
  "\<exists>cfg. vaccel_log_init [''VACCEL_DEBUG_LEVEL'' \<mapsto> ''2'', ''VACCEL_LOG_FILE'' \<mapsto> ''/tmp/log''] = Some (VACCEL_OK, cfg)
    \<and> slog_passes cfg SLOG_WARN \<and> \<not> slog_passes cfg SLOG_INFO \<and> slog_path cfg ''2023-01-01'' = Some ''.//tmp/log-2023-01-01.log''"
proof -
  have "atoi ''2'' = Some 2" by code_simp
  from vaccel_log_init_correct [of "[''VACCEL_DEBUG_LEVEL'' \<mapsto> ''2'', ''VACCEL_LOG_FILE'' \<mapsto> ''/tmp/log'']" "''2''", OF _ this] obtain cfg where
    "vaccel_log_init [''VACCEL_DEBUG_LEVEL'' \<mapsto> ''2'', ''VACCEL_LOG_FILE'' \<mapsto> ''/tmp/log''] = Some (VACCEL_OK, cfg)"
    "slog_passes cfg SLOG_WARN" "\<not> slog_passes cfg SLOG_INFO" "slog_path cfg ''2023-01-01'' = Some ''.//tmp/log-2023-01-01.log''"
    by (auto simp: Let_def)
  then show ?thesis by blast
qed

end
