(* ===== verification/Python_Helper.thy ===== *)
theory Python_Helper
  imports Startup
begin

text \<open>
  The loader of the Python bindings (\<^verbatim>\<open>src/python/helper.c\<close>): it takes the list of plugins out of the environment, opens the library, whose
  constructor then loads none, and loads them itself with a copy of the functions of \<^verbatim>\<open>src/src/vaccel.c\<close>. A
  failed \<^verbatim>\<open>assert\<close> ends the process and has no result.
\<close>

subsection \<open>Loading the plugins\<close>

definition py_load_backend_plugin :: "'z plug_state_scheme linker \<Rightarrow> addr \<Rightarrow> string \<Rightarrow> 'z plug_state_scheme \<Rightarrow> (int \<times> 'z plug_state_scheme) option" where
  "py_load_backend_plugin ld vacceldl path s = (case dlopen ld path of
       None \<Rightarrow> Some (VACCEL_ENOENT, s)
     | Some dl \<Rightarrow> (case dlsym ld dl ''vaccel_plugin'' of
         None \<Rightarrow> Some (VACCEL_ELIBBAD, dlclose dl s)
       | Some plugin \<Rightarrow> do {
           defined (dlsym ld vacceldl ''register_plugin'' \<noteq> None);
           (ret, s) \<leftarrow> register_plugin plugin s;
           if ret \<noteq> VACCEL_OK then Some (ret, dlclose dl s)
           else do {
             p \<leftarrow> plugin;
             pl \<leftarrow> plugins s p;
             info \<leftarrow> pinfo pl;
             f \<leftarrow> pinit info;
             (ret, s) \<leftarrow> call_fn ld f s;
             if ret \<noteq> VACCEL_OK then Some (ret, dlclose dl s)
             else do {
               pl \<leftarrow> plugins s p;
               Some (VACCEL_OK, s\<lparr>plugins := (plugins s)(p \<mapsto> pl\<lparr>dl_handle := Some dl\<rparr>)\<rparr>) } } }))"

fun py_load_each :: "'z plug_state_scheme linker \<Rightarrow> addr \<Rightarrow> string list \<Rightarrow> 'z plug_state_scheme \<Rightarrow> (int \<times> 'z plug_state_scheme) option" where
  "py_load_each ld vacceldl [] s = Some (VACCEL_OK, s)"
| "py_load_each ld vacceldl (plugin # rest) s = do {
     (ret, s) \<leftarrow> py_load_backend_plugin ld vacceldl plugin s;
     if ret \<noteq> VACCEL_OK then Some (ret, s) else py_load_each ld vacceldl rest s }"

definition py_load_backend_plugins :: "'z plug_state_scheme linker \<Rightarrow> addr \<Rightarrow> string \<Rightarrow> 'z plug_state_scheme \<Rightarrow> (int \<times> 'z plug_state_scheme) option" where
  "py_load_backend_plugins ld vacceldl names s =
     (let (plugins_tmp, s) = os_call (strdup names) s in
      if plugins_tmp = None then Some (VACCEL_ENOMEM, s)
      else do {
        (ret, s) \<leftarrow> py_load_each ld vacceldl (strtok (CHR '':'') names) s;
        if ret \<noteq> VACCEL_OK then Some (ret, s)
        else do { o' \<leftarrow> free_str plugins_tmp (os s); Some (VACCEL_OK, s\<lparr>os := o'\<rparr>) } })"

subsection \<open>Constructor and destructor\<close>

definition unsetenv :: "string \<Rightarrow> 'z rt_state_scheme \<Rightarrow> 'z rt_state_scheme" where
  "unsetenv x s = s\<lparr>os := (os s)\<lparr>env := (env (os s))(x := None)\<rparr>\<rparr>"

text \<open>
  \<^verbatim>\<open>strdup\<close> of a variable that is not set is undefined, and so is loading from a name that could not be copied. Opening the library runs its
  constructor. The result is the code with which the process exits, if it does, and the copy of the names with the handle of the library.
\<close>

definition load_vaccel :: "'z sess_state_scheme linker \<Rightarrow> 'z sess_state_scheme \<Rightarrow> ((int option \<times> ptr \<times> ptr) \<times> 'z sess_state_scheme) option" where
  "load_vaccel ld s = do {
     names \<leftarrow> env (os s) ''VACCEL_BACKENDS'';
     let (pn, s) = os_call (strdup names) s;
     let s = unsetenv ''VACCEL_BACKENDS'' s;
     (case dlopen ld ''libvaccel.so'' of
        None \<Rightarrow> Some ((Some 1, pn, None), s)
      | Some vacceldl \<Rightarrow> do {
          (code, s) \<leftarrow> vaccel_init ld s;
          if code \<noteq> None then Some ((code, pn, Some vacceldl), s)
          else do {
            _ \<leftarrow> pn;
            (_, s) \<leftarrow> py_load_backend_plugins ld vacceldl names s;
            Some ((None, pn, Some vacceldl), s) } }) }"

text \<open>Closing the library runs its destructor.\<close>

definition unload_vaccel :: "(destructor \<Rightarrow> ptr \<Rightarrow> 'z sess_state_scheme \<Rightarrow> 'z sess_state_scheme option) \<Rightarrow> ptr \<Rightarrow> 'z sess_state_scheme \<Rightarrow> 'z sess_state_scheme option" where
  "unload_vaccel call_cleanup pn s = do {
     s \<leftarrow> vaccel_fini call_cleanup s;
     o' \<leftarrow> free_str pn (os s);
     Some (s\<lparr>os := o'\<rparr>) }"

subsection \<open>The copy and the original\<close>

text \<open>
  With a library in which \<^verbatim>\<open>register_plugin\<close> is found the copied functions do what those of the library do, so that what is proved
  of loading plugins holds here, too; without it the first plugin that is found ends the process.
\<close>

lemma py_load_backend_plugin_same:
  "dlsym ld vacceldl ''register_plugin'' \<noteq> None \<Longrightarrow> py_load_backend_plugin ld vacceldl path s = load_backend_plugin ld path s"
  unfolding py_load_backend_plugin_def load_backend_plugin_def by (simp only: not_False_eq_True defined_simps bind.simps)

lemma py_load_each_same:
  "dlsym ld vacceldl ''register_plugin'' \<noteq> None \<Longrightarrow> py_load_each ld vacceldl names s = load_each ld names s"
  by (induction names arbitrary: s) (simp_all add: py_load_backend_plugin_same cong: if_cong)

lemma py_load_backend_plugins_same:
  "dlsym ld vacceldl ''register_plugin'' \<noteq> None \<Longrightarrow> py_load_backend_plugins ld vacceldl names s = load_backend_plugins ld names s"
proof -
  assume "dlsym ld vacceldl ''register_plugin'' \<noteq> None"
  then have "py_load_each ld vacceldl = load_each ld" by (intro ext py_load_each_same)
  then show ?thesis by (simp only: py_load_backend_plugins_def load_backend_plugins_def)
qed

text \<open>
  The Python loader gives the plugins that the constructor of the library would: when the library is found with \<^verbatim>\<open>register_plugin\<close> in it and its
  constructor succeeds without plugins, loading ends in the state that \<^verbatim>\<open>load_backend_plugins\<close> of the library gives for the same names, and its result is ignored; without
  that symbol the first plugin that can be opened ends the process.
\<close>

theorem load_vaccel_correct:
  assumes "env (os s) ''VACCEL_BACKENDS'' = Some names" "alloc_ok (os s) (alloc_next (os s))" "dlopen ld ''libvaccel.so'' = Some v"
    "vaccel_init ld (unsetenv ''VACCEL_BACKENDS'' (snd (os_call (strdup names) s))) = Some (None, s1)"
  shows "(dlsym ld v ''register_plugin'' \<noteq> None \<longrightarrow> load_vaccel ld s = map_option (\<lambda>(_, t). ((None, Some (alloc_next (os s)), Some v), t)) (load_backend_plugins ld names s1))
    \<and> (dlsym ld v ''register_plugin'' = None \<longrightarrow> alloc_ok (os s1) (alloc_next (os s1)) \<longrightarrow>
        (\<forall>path rest dl. strtok (CHR '':'') names = path # rest \<longrightarrow> dlopen ld path = Some dl \<longrightarrow> dlsym ld dl ''vaccel_plugin'' \<noteq> None \<longrightarrow> load_vaccel ld s = None))"
proof -
  have d: "os_call (strdup names) s = (Some (alloc_next (os s)), snd (os_call (strdup names) s))" using assms(2) by (simp add: os_call_def strdup_def new_str_def malloc_def)
  have run: "load_vaccel ld s = map_option (\<lambda>(_, t). ((None, Some (alloc_next (os s)), Some v), t)) (py_load_backend_plugins ld v names s1)"
    unfolding load_vaccel_def assms(1) bind.simps Let_def by (subst d) (simp add: assms(3,4) map_option_case case_prod_unfold split: option.split)
  show ?thesis
  proof (intro conjI impI allI)
    assume "dlsym ld v ''register_plugin'' \<noteq> None"
    then show "load_vaccel ld s = map_option (\<lambda>(_, t). ((None, Some (alloc_next (os s)), Some v), t)) (load_backend_plugins ld names s1)"
      unfolding run by (simp add: py_load_backend_plugins_same)
  next
    fix path rest dl
    assume n: "dlsym ld v ''register_plugin'' = None" "alloc_ok (os s1) (alloc_next (os s1))" "strtok (CHR '':'') names = path # rest" "dlopen ld path = Some dl"
      "dlsym ld dl ''vaccel_plugin'' \<noteq> None"
    then have "py_load_each ld v (path # rest) t = None" for t by (auto simp: py_load_backend_plugin_def)
    then have "py_load_backend_plugins ld v names s1 = None" using n(2,3) by (simp add: py_load_backend_plugins_def os_call_def strdup_def new_str_def malloc_def)
    then show "load_vaccel ld s = None" unfolding run by simp
  qed
qed

end
