(* ===== verification/Spec2Isabelle.thy ===== *)
theory Spec2Isabelle
  imports Id_Pool_Concurrent Saved_Models Examples_Run Saved_Model_Run Inference_Run Introspection Numeric_Run Logging Python_Helper
begin

text \<open>
  Verification of the vAccel runtime library.

  \<^bold>\<open>The program.\<close> vAccel is a C library through which applications call accelerated functions. An application opens
  \<^emph>\<open>sessions\<close>, makes \<^emph>\<open>resources\<close> (shared objects, TensorFlow and Torch models: files with an id that live in the library),
  registers resources with sessions and calls \<^emph>\<open>operations\<close> (matrix product, image inference, execution of a function of a shared object,
  running a model). An operation looks up an implementation in the registry of \<^emph>\<open>plugins\<close>, which the library has loaded when it started,
  and calls it; with a VirtIO plugin the calls on sessions and resources are passed on to a host as well. Everything lives in
  intrusive linked lists and in two pools of ids. The plugins \<^verbatim>\<open>noop\<close> and \<^verbatim>\<open>exec\<close> and the programs under
  \<^verbatim>\<open>src/examples/\<close> are part of the repository.

  \<^bold>\<open>The state\<close> is one record that the theories extend in the order in which the parts of the library use each other: the operating
  system and the runtime directory (\<open>rt_state\<close>), plugins and operations (\<open>plug_state\<close>), resources (\<open>res_state\<close>), sessions
  (\<open>sess_state\<close>), the objects behind resources (\<open>obj_state\<close>), profiling (\<open>prof_state\<close>), the memory of
  operations (\<open>ops_state\<close>), tensors (\<open>tensor_state\<close>) and the data of the noop plugin (\<open>noop_state\<close>). A C pointer is an
  \<open>addr option\<close>, with \<open>None\<close> for \<open>NULL\<close>; memory of a type is a map from addresses, freed when it maps to
  \<open>None\<close>. An operation takes the state and returns \<open>(result, state) option\<close>: \<open>None\<close> is undefined behaviour (a read or
  write outside a live block, a second \<^verbatim>\<open>free\<close>, an uninitialised pointer) or a loop that does not end, so that each theorem with a
  result \<open>Some\<close> also says that neither happens. Error codes are the integers of \<^verbatim>\<open>error.h\<close>; fixed-width integers
  are words. A program of \<^verbatim>\<open>src/examples/\<close> gets the addresses of its variables as arguments.

  \<^bold>\<open>The parts.\<close>

    \<^item> \<open>Prelude\<close>, \<open>Libc\<close>, \<open>Runtime\<close>: error codes, collections of facts; the allocator, strings, files,
      streams, mappings and the environment, with the outcomes of the outside world as fields of the state (any system call may fail, closing a
      stream that still holds bytes included); \<^verbatim>\<open>utils.c\<close>.
    \<^item> \<open>Linked_List\<close>: \<^verbatim>\<open>list.h\<close> on a heap of next and previous fields. \<open>family\<close> says that the heap holds
      given disjoint lists; each operation is a list function on one of them (locale \<open>intrusive_lists\<close>), and the safe iterator ends although
      the body unlinks its entry.
    \<^item> \<open>Id_Pool\<close>, \<open>Id_Pool_Concurrent\<close>: \<^verbatim>\<open>id_pool.c\<close>. Sequentially the pool refines a stack of free ids (locale
      \<open>id_supply\<close>); the atomic steps of threads are step relations, in which ids are given out once until the counter wraps around, operations finish, and
      a release can race with a get.
    \<^item> \<open>Plugins\<close>, \<open>Modules\<close>, \<open>Introspection\<close>: \<^verbatim>\<open>plugin.c\<close>, the macros of \<^verbatim>\<open>plugin.h\<close>,
      \<^verbatim>\<open>misc.c\<close>. The registry refines two lists (\<open>plug_ok\<close>); registering a table of operations is the locale
      \<open>plugin_module\<close>, interpreted for both plugins.
    \<^item> \<open>Resources\<close>: \<^verbatim>\<open>resources.c\<close>, with the contracts of destructors (\<open>cleanup_contract\<close>) and of the sweep over all
      resources (\<open>resource_sweep\<close>).
    \<^item> \<open>Sessions\<close>: \<^verbatim>\<open>session.c\<close>; \<open>sess_ok\<close> ties the table of sessions, the pool of ids, the lists of registrations
      and the reference counts of resources together.
    \<^item> \<open>Files\<close>, \<open>Objects\<close>, \<open>Shared_Objects\<close>, \<open>Saved_Models\<close>: \<^verbatim>\<open>resources/*.c\<close>. A shared object
      and a TensorFlow model differ in constants only: the definitions take the kind. The two kinds of saved models have a definition for each function. \<open>Objects\<close>
      discharges the contracts of \<open>Resources\<close> for the code's destructors.
    \<^item> \<open>Frames\<close>, \<open>Library\<close>, \<open>Clients\<close>, \<open>Model_Clients\<close>: what calls leave alone; the invariant
      \<open>lib_ok\<close> of the library with the step relation of all its calls; and the calls as a client sees them that knows what it has made.
    \<^item> \<open>Profiling\<close>, \<open>Ops\<close>, \<open>Generic_Ops\<close>, \<open>Tensors\<close>: \<^verbatim>\<open>profiling/vaccel_prof.c\<close> and
      \<^verbatim>\<open>ops/*.c\<close>. The implementation that an operation calls is the parameter \<open>call\<close>; through \<open>vaccel_genop\<close> an
      operation is called with the arguments that a client has packed.
    \<^item> \<open>Noop_Plugin\<close>, \<open>Noop_Module\<close>, \<open>Noop_Run\<close>, \<open>Exec_Plugin\<close>, \<open>Exec_Module\<close>:
      \<^verbatim>\<open>plugins/noop\<close> and \<^verbatim>\<open>plugins/exec\<close>, which instantiate \<open>call\<close>, and requests that go through the
      whole library to them. The functions of the exec plugin return the output arguments as the function they call leaves them; \<open>exec_call\<close>, which the
      operations use, keeps the result and the memory only.
    \<^item> \<open>Startup\<close>, \<open>Logging\<close>, \<open>Python_Helper\<close>: \<^verbatim>\<open>vaccel.c\<close>, \<^verbatim>\<open>log.c\<close> with the part of slog
      that selects messages, and \<^verbatim>\<open>python/helper.c\<close>.
    \<^item> \<open>Examples\<close>, \<open>Example_Files\<close>, \<open>Examples_Run\<close>, \<open>Resource_Examples\<close>, \<open>Resource_Run\<close>,
      \<open>Saved_Model_Run\<close>, \<open>Inference\<close>, \<open>Inference_Run\<close>, \<open>Numeric_Examples\<close>, \<open>Numeric_Run\<close>: the programs of \<^verbatim>\<open>src/examples/\<close>
      and what they do from their start to their exit. \<open>session_client\<close> is the contract of a program that does one operation in a session,
      \<open>resource_client\<close> of one that makes two objects; they are interpreted for \<^verbatim>\<open>pynq_vector_add.c\<close>, \<^verbatim>\<open>tf_model.c\<close>
      and \<^verbatim>\<open>exec_with_res.c\<close>.

  \<^bold>\<open>What the theorems show.\<close> For each component: its invariant, that every operation keeps it, what each operation does on every branch
  with its errors, and refinement of an abstract specification (stack of ids, lists of the registry, lists of samples). For the whole library: every
  sequence of calls that a client may make keeps \<open>lib_ok\<close>, without a VirtIO plugin, and is never undefined. For the programs, each under the
  conditions that its text names: they run to their end when system calls fail on the way, give back the ids, sessions and resources that they have
  taken, and print what the operation computes. Where the code does not keep what it promises, a
  theorem states what it does instead (freeing a session twice, stopping a region that has not been started, a directory without a model, a
  pool that is exhausted, sizes that wrap).

  \<^bold>\<open>Bounds and termination.\<close> The tables have the sizes of the code (1024 sessions, 2048 resources, 24 types of operations, paths of the
  fixed lengths). Nothing runs on fuel: loops are structural recursion over an abstract list, or functions with a termination proof
  (\<open>match_here\<close>, \<open>strtok\<close>), or \<open>partial_function (option)\<close> where they may not end: the iterators of lists end on lists that
  a \<open>family\<close> holds, the reading loops of the examples end when every \<^verbatim>\<open>read\<close> fails or makes progress.
  A sum or an index of type \<^verbatim>\<open>int\<close> that would leave its type makes the result \<open>None\<close>.

  \<^bold>\<open>Not modelled.\<close> The framework of fake functions \<^verbatim>\<open>fff.h\<close> and the unit tests in C++; the formatting of log messages and of
  what programs print (what printing reads is modelled); in \<open>vaccel_init\<close> the call that sets the log up, which is in \<open>Logging\<close> on its own; \<^verbatim>\<open>torch_inference.cpp\<close>, which decodes pictures with a vendored C++ header; the
  Torch functions under \<^verbatim>\<open>#if 0\<close>; headers that only declare; build files. Floating point, the dynamic linker, the host behind VirtIO and
  the libraries that the exec plugin opens are parameters. Threads are modelled in \<open>Id_Pool_Concurrent\<close> only: in the other theories one thread
  calls the library.
\<close>

end
